(* ===== verification/Scd_Prelude.thy ===== *)
theory Scd_Prelude
  imports Complex_Main "HOL-Library.List_Lexorder" "HOL-Library.Char_ord"
    "HOL-Library.Sublist" "HOL-Library.AList" "HOL-Library.Multiset"
begin

text \<open>
  Shared vocabulary of the development: the parts of Go's standard library the code leans on
  (\<^verbatim>\<open>cmp\<close>, \<^verbatim>\<open>slices\<close>, \<^verbatim>\<open>strings\<close>, maps), written as executable functions, and the generic
  lemmas the components share.

  Strings are byte strings (\<open>char list\<close>), as in Go; their order is \<^verbatim>\<open>strings.Compare\<close>, the
  lexicographic order of the bytes. A Go map is an association list read with \<open>map_of\<close> and
  changed with \<open>AList.update\<close> and \<open>AList.delete\<close>; a map that is only ever used as a set
  (\<^verbatim>\<open>map[string]bool\<close>) is a set. Times are integers (nanoseconds), the wrap-around of Go's
  64-bit durations (292 years) is not modelled.
\<close>

named_theorems go_eval \<open>unfolding rules that evaluate closed terms of the model\<close>
named_theorems owns_intros \<open>facts about the tags of a source\<close>

type_synonym time = int
type_synonym ('k, 'v) gomap = "('k \<times> 'v) list"

section \<open>Comparators\<close>

text \<open>\<^verbatim>\<open>cmp.Compare\<close> and \<^verbatim>\<open>strings.Compare\<close>: -1, 0 or 1.\<close>

definition cmp_ord :: "'a::linorder \<Rightarrow> 'a \<Rightarrow> int" where
  "cmp_ord a b = (if a < b then -1 else if a = b then 0 else 1)"

text \<open>\<^verbatim>\<open>cmp.Or\<close>: the first of its arguments that is not zero.\<close>

fun cmp_or :: "int list \<Rightarrow> int" where
  "cmp_or [] = 0"
| "cmp_or (i # is) = (if i \<noteq> 0 then i else cmp_or is)"

text \<open>
  \<^verbatim>\<open>slices.SortStableFunc\<close> leaves the stable permutation of its input that the comparator
  orders; insertion from the right computes it.
\<close>

fun insert_by :: "('a \<Rightarrow> 'a \<Rightarrow> int) \<Rightarrow> 'a \<Rightarrow> 'a list \<Rightarrow> 'a list" where
  "insert_by c x [] = [x]"
| "insert_by c x (y # ys) = (if c x y \<le> 0 then x # y # ys else y # insert_by c x ys)"

fun sort_by :: "('a \<Rightarrow> 'a \<Rightarrow> int) \<Rightarrow> 'a list \<Rightarrow> 'a list" where
  "sort_by c [] = []"
| "sort_by c (x # xs) = insert_by c x (sort_by c xs)"

lemma mset_insert_by [simp]: "mset (insert_by c x xs) = add_mset x (mset xs)"
  by (induction xs) auto

lemma mset_sort_by [simp]: "mset (sort_by c xs) = mset xs"
  by (induction xs) auto

lemma set_insert_by [simp]: "set (insert_by c x xs) = insert x (set xs)"
  by (induction xs) auto

lemma set_sort_by [simp]: "set (sort_by c xs) = set xs"
  by (induction xs) auto

lemma length_insert_by [simp]: "length (insert_by c x xs) = Suc (length xs)"
  by (induction xs) auto

lemma length_sort_by [simp]: "length (sort_by c xs) = length xs"
  by (induction xs) auto

lemma distinct_insert_by [simp]: "distinct (insert_by c x xs) \<longleftrightarrow> x \<notin> set xs \<and> distinct xs"
  by (induction xs) auto

lemma distinct_sort_by [simp]: "distinct (sort_by c xs) = distinct xs"
  by (induction xs) auto

text \<open>
  What \<^verbatim>\<open>SortStableFunc\<close> asks of a comparator: its sign is antisymmetric and the relation
  "not after" is transitive.
\<close>

locale comparator =
  fixes c :: "'a \<Rightarrow> 'a \<Rightarrow> int"
  assumes anti: "c y x = - c x y"
    and trans: "c x y \<le> 0 \<Longrightarrow> c y z \<le> 0 \<Longrightarrow> c x z \<le> 0"
begin

lemma refl0 [simp]: "c x x = 0"
  using anti [of x x] by simp

lemma swap_le: "\<not> c x y \<le> 0 \<Longrightarrow> c y x \<le> 0"
  using anti [of x y] by simp

lemma sorted_insert_by:
  "sorted_wrt (\<lambda>x y. c x y \<le> 0) ys \<Longrightarrow> sorted_wrt (\<lambda>x y. c x y \<le> 0) (insert_by c x ys)"
  by (induction ys) (auto intro: trans dest: swap_le)

lemma sorted_sort_by: "sorted_wrt (\<lambda>x y. c x y \<le> 0) (sort_by c xs)"
  by (induction xs) (auto intro: sorted_insert_by)

lemma insert_by_front: "\<forall>y \<in> set ys. c x y \<le> 0 \<Longrightarrow> insert_by c x ys = x # ys"
  by (cases ys) auto

lemma sort_by_id: "sorted_wrt (\<lambda>x y. c x y \<le> 0) xs \<Longrightarrow> sort_by c xs = xs"
  by (induction xs) (auto simp: insert_by_front)

lemma filter_insert_by_neg: "\<not> P x \<Longrightarrow> filter P (insert_by c x xs) = filter P xs"
  by (induction xs) auto

lemma filter_insert_by_pos:
  "sorted_wrt (\<lambda>x y. c x y \<le> 0) xs \<Longrightarrow> P x \<Longrightarrow>
   filter P (insert_by c x xs) = insert_by c x (filter P xs)"
proof (induction xs)
  case (Cons y ys)
  show ?case
  proof (cases "c x y \<le> 0")
    case True
    with Cons.prems have "\<forall>z \<in> set (filter P (y # ys)). c x z \<le> 0"
      by (auto intro: trans)
    then show ?thesis
      using True Cons.prems(2) insert_by_front [of "filter P (y # ys)" x] by simp
  next
    case False
    with Cons show ?thesis by auto
  qed
qed simp

text \<open>Stability: equal elements keep their order.\<close>

lemma sort_by_stable: "filter (\<lambda>y. c k y = 0) (sort_by c xs) = filter (\<lambda>y. c k y = 0) xs"
proof (induction xs)
  case (Cons x xs)
  show ?case
  proof (cases "c k x = 0")
    case False
    then show ?thesis using Cons by (simp add: filter_insert_by_neg)
  next
    case True
    have "c x y \<le> 0" if "c k y = 0" for y
      using trans [of x k y] that True anti [of k x] by simp
    then have "insert_by c x (filter (\<lambda>y. c k y = 0) xs) = x # filter (\<lambda>y. c k y = 0) xs"
      by (auto intro: insert_by_front)
    then show ?thesis
      using True Cons by (simp add: filter_insert_by_pos sorted_sort_by)
  qed
qed simp

end

lemma comparator_cmp_ord: "comparator (\<lambda>x y. cmp_ord (f x) (f y))"
  by unfold_locales (auto simp: cmp_ord_def split: if_splits)

lemma comparator_cmp_or2:
  assumes f: "comparator f" and g: "comparator g"
  shows "comparator (\<lambda>x y. cmp_or [f x y, g x y])"
proof
  show "cmp_or [f y x, g y x] = - cmp_or [f x y, g x y]" for x y
    using comparator.anti [OF f, of y x] comparator.anti [OF g, of y x] by auto
next
  fix x y z
  assume xy: "cmp_or [f x y, g x y] \<le> 0" and yz: "cmp_or [f y z, g y z] \<le> 0"
  have le: "f x y \<le> 0" "f y z \<le> 0"
    using xy yz by (auto split: if_splits)
  have fxz: "f x z \<le> 0" using comparator.trans [OF f le] .
  show "cmp_or [f x z, g x z] \<le> 0"
  proof (cases "f x z = 0")
    case True
    have zx: "f z x \<le> 0" using True comparator.anti [OF f, of z x] by simp
    have "f y x \<le> 0" using comparator.trans [OF f le(2) zx] .
    then have "f x y = 0" using le(1) comparator.anti [OF f, of y x] by simp
    have "f z y \<le> 0" using comparator.trans [OF f zx le(1)] .
    then have "f y z = 0" using le(2) comparator.anti [OF f, of z y] by simp
    with True \<open>f x y = 0\<close> xy yz show ?thesis
      using comparator.trans [OF g, of x y z] by (auto split: if_splits)
  next
    case False
    with fxz show ?thesis by simp
  qed
qed

lemma comparator_cmp_or3:
  assumes f: "comparator f" and g: "comparator g" and h: "comparator h"
  shows "comparator (\<lambda>x y. cmp_or [f x y, g x y, h x y])"
proof -
  have "(\<lambda>x y. cmp_or [f x y, g x y, h x y]) = (\<lambda>x y. cmp_or [f x y, cmp_or [g x y, h x y]])"
    by (auto simp: fun_eq_iff)
  then show ?thesis
    using comparator_cmp_or2 [OF f comparator_cmp_or2 [OF g h]] by simp
qed

interpretation ord_cmp: comparator "cmp_ord :: 'a::linorder \<Rightarrow> 'a \<Rightarrow> int"
  by (rule comparator_cmp_ord [where f = id, simplified])

section \<open>Strings\<close>

text \<open>\<^verbatim>\<open>strings.HasPrefix\<close> is \<open>prefix\<close>; \<^verbatim>\<open>CutPrefix\<close>, \<^verbatim>\<open>CutSuffix\<close> and \<^verbatim>\<open>TrimPrefix\<close>.\<close>

definition cut_prefix :: "string \<Rightarrow> string \<Rightarrow> string option" where
  "cut_prefix s p = (if prefix p s then Some (drop (length p) s) else None)"

definition cut_suffix :: "string \<Rightarrow> string \<Rightarrow> string option" where
  "cut_suffix s p = (if suffix p s then Some (take (length s - length p) s) else None)"

definition trim_prefix :: "string \<Rightarrow> string \<Rightarrow> string" where
  "trim_prefix s p = (case cut_prefix s p of Some r \<Rightarrow> r | None \<Rightarrow> s)"

lemma cut_prefix_append [simp]: "cut_prefix (p @ s) p = Some s"
  by (simp add: cut_prefix_def)

lemma cut_prefix_Some: "cut_prefix s p = Some r \<longleftrightarrow> s = p @ r"
  by (auto simp: cut_prefix_def prefix_def)

lemma cut_suffix_append [simp]: "cut_suffix (s @ p) p = Some s"
  by (simp add: cut_suffix_def suffix_def)

lemma cut_suffix_Some: "cut_suffix s p = Some r \<longleftrightarrow> s = r @ p"
  by (auto simp: cut_suffix_def suffix_def)

lemma trim_prefix_append [simp]: "trim_prefix (p @ s) p = s"
  by (simp add: trim_prefix_def)

text \<open>Two prefixes of one string are comparable.\<close>

lemma prefix_comparable: "prefix a s \<Longrightarrow> prefix b s \<Longrightarrow> prefix a b \<or> prefix b a"
  by (meson prefix_same_cases)

text \<open>\<^verbatim>\<open>strconv.Itoa\<close>.\<close>

definition digit_char :: "nat \<Rightarrow> char" where
  "digit_char d = char_of (48 + d)"

fun nat_text :: "nat \<Rightarrow> string" where
  "nat_text n = (if n < 10 then [digit_char n] else nat_text (n div 10) @ [digit_char (n mod 10)])"

declare nat_text.simps [simp del]

definition int_text :: "int \<Rightarrow> string" where
  "int_text i = (if i < 0 then ''-'' @ nat_text (nat (- i)) else nat_text (nat i))"

section \<open>Lists and maps\<close>

text \<open>The first element that satisfies a test, as a loop with an early return finds it.\<close>

lemma find_Some_set: "List.find P xs = Some x \<Longrightarrow> x \<in> set xs \<and> P x"
  by (auto simp: find_Some_iff)

lemma find_None_set: "List.find P xs = None \<longleftrightarrow> (\<forall>x \<in> set xs. \<not> P x)"
  by (auto simp: find_None_iff)

lemma map_of_update [simp]: "map_of (AList.update k v m) = (map_of m)(k \<mapsto> v)"
  by (rule update_conv')

lemma map_of_delete [simp]: "map_of (AList.delete k m) = (map_of m)(k := None)"
  by (rule delete_conv')

definition keys_of :: "('k, 'v) gomap \<Rightarrow> 'k list" where
  "keys_of m = map fst m"

lemma set_keys_of: "set (keys_of m) = dom (map_of m)"
  by (simp add: keys_of_def dom_map_of_conv_image_fst)

text \<open>Deleting, in a loop over a map, the entries that fail a test; and the entries of a map once.\<close>

definition map_keep :: "('k \<Rightarrow> 'v \<Rightarrow> bool) \<Rightarrow> ('k, 'v) gomap \<Rightarrow> ('k, 'v) gomap" where
  "map_keep P m = filter (\<lambda>(k, _). case map_of m k of None \<Rightarrow> False | Some v \<Rightarrow> P k v) m"

lemma map_of_filter_key: "map_of (filter (\<lambda>(k, _). P k) m) k = (if P k then map_of m k else None)"
  by (induction m) auto

lemma map_of_keep [simp]:
  "map_of (map_keep P m) k = (case map_of m k of None \<Rightarrow> None | Some v \<Rightarrow> if P k v then Some v else None)"
  unfolding map_keep_def
  by (subst map_of_filter_key [of "\<lambda>k. case map_of m k of None \<Rightarrow> False | Some v \<Rightarrow> P k v"])
    (auto split: option.splits)

definition entries_of :: "('k, 'v) gomap \<Rightarrow> ('k \<times> 'v) list" where
  "entries_of m = map (\<lambda>k. (k, the (map_of m k))) (remdups (keys_of m))"

lemma set_entries_of: "set (entries_of m) = {(k, v). map_of m k = Some v}"
  by (auto simp: entries_of_def set_keys_of dom_def image_iff)

text \<open>\<^verbatim>\<open>slices.Contains\<close> on a list is membership; counting keeps Go's \<^verbatim>\<open>n++\<close> loops readable.\<close>

definition count_if :: "('a \<Rightarrow> bool) \<Rightarrow> 'a list \<Rightarrow> nat" where
  "count_if P xs = length (filter P xs)"

lemma count_if_simps [simp]:
  "count_if P [] = 0"
  "count_if P (x # xs) = (if P x then Suc (count_if P xs) else count_if P xs)"
  by (simp_all add: count_if_def)

lemma count_if_distinct: "distinct xs \<Longrightarrow> count_if P xs = card {x \<in> set xs. P x}"
  by (simp add: count_if_def distinct_card [symmetric])

end
