(* ===== verification/Scd_Country.thy ===== *)
theory Scd_Country
  imports Scd_Prelude
begin

text \<open>
  The countries scd recognizes (\<^verbatim>\<open>internal/scd/country\<close>): the ISO 3166-1 codes a filter may name,
  found by binary search, and the countries a label's flag emoji or a code resolves to.

  Go ranges over the runes of a string; \<open>decode_rune\<close> and \<open>encode_rune\<close> are its UTF-8 decoding
  (invalid bytes give U+FFFD and width one) and encoding, on bytes.
\<close>

section \<open>UTF-8\<close>

definition rune_error :: nat where "rune_error = 65533"

definition in_range :: "nat \<Rightarrow> nat \<Rightarrow> nat \<Rightarrow> bool" where
  "in_range l h b \<longleftrightarrow> l \<le> b \<and> b \<le> h"

text \<open>The second byte of a three or four byte sequence, by the first (the shortest form, no surrogates).\<close>

definition second_ok :: "nat \<Rightarrow> nat \<Rightarrow> bool" where
  "second_ok b0 b1 =
     (if b0 = 224 then in_range 160 191 b1
      else if b0 = 237 then in_range 128 159 b1
      else if b0 = 240 then in_range 144 191 b1
      else if b0 = 244 then in_range 128 143 b1
      else in_range 128 191 b1)"

text \<open>The first rune of a byte string and its width; width 0 at the end.\<close>

fun decode_bytes :: "nat list \<Rightarrow> nat \<times> nat" where
  "decode_bytes [] = (rune_error, 0)"
| "decode_bytes (b0 # bs) =
     (if b0 < 128 then (b0, 1)
      else if in_range 194 223 b0 then
        (case bs of
           b1 # _ \<Rightarrow> if in_range 128 191 b1 then ((b0 - 192) * 64 + (b1 - 128), 2) else (rune_error, 1)
         | [] \<Rightarrow> (rune_error, 1))
      else if in_range 224 239 b0 then
        (case bs of
           b1 # b2 # _ \<Rightarrow>
             if second_ok b0 b1 \<and> in_range 128 191 b2
             then ((b0 - 224) * 4096 + (b1 - 128) * 64 + (b2 - 128), 3) else (rune_error, 1)
         | _ \<Rightarrow> (rune_error, 1))
      else if in_range 240 244 b0 then
        (case bs of
           b1 # b2 # b3 # _ \<Rightarrow>
             if second_ok b0 b1 \<and> in_range 128 191 b2 \<and> in_range 128 191 b3
             then ((b0 - 240) * 262144 + (b1 - 128) * 4096 + (b2 - 128) * 64 + (b3 - 128), 4)
             else (rune_error, 1)
         | _ \<Rightarrow> (rune_error, 1))
      else (rune_error, 1))"

definition decode_rune :: "string \<Rightarrow> nat \<times> nat" where
  "decode_rune s = decode_bytes (map of_char (take 4 s))"

definition encode_rune :: "nat \<Rightarrow> string" where
  "encode_rune r =
     (if r < 128 then [char_of r]
      else if r < 2048 then [char_of (192 + r div 64), char_of (128 + r mod 64)]
      else if r < 65536 \<and> \<not> in_range 55296 57343 r then
        [char_of (224 + r div 4096), char_of (128 + r div 64 mod 64), char_of (128 + r mod 64)]
      else if 65536 \<le> r \<and> r < 1114112 then
        [char_of (240 + r div 262144), char_of (128 + r div 4096 mod 64),
         char_of (128 + r div 64 mod 64), char_of (128 + r mod 64)]
      else [char_of (239 :: nat), char_of (191 :: nat), char_of (189 :: nat)])"

definition utf8 :: "nat list \<Rightarrow> string" where
  "utf8 rs = concat (map encode_rune rs)"

section \<open>Supported codes\<close>

definition codes :: "string list" where
  "codes =
    [''AD'', ''AE'', ''AF'', ''AG'', ''AI'', ''AL'', ''AM'', ''AO'', ''AQ'', ''AR'', ''AS'', ''AT'',
     ''AU'', ''AW'', ''AX'', ''AZ'', ''BA'', ''BB'', ''BD'', ''BE'', ''BF'', ''BG'', ''BH'', ''BI'',
     ''BJ'', ''BL'', ''BM'', ''BN'', ''BO'', ''BQ'', ''BR'', ''BS'', ''BT'', ''BV'', ''BW'', ''BY'',
     ''BZ'', ''CA'', ''CC'', ''CD'', ''CF'', ''CG'', ''CH'', ''CI'', ''CK'', ''CL'', ''CM'', ''CN'',
     ''CO'', ''CR'', ''CU'', ''CV'', ''CW'', ''CX'', ''CY'', ''CZ'', ''DE'', ''DJ'', ''DK'', ''DM'',
     ''DO'', ''DZ'', ''EC'', ''EE'', ''EG'', ''EH'', ''ER'', ''ES'', ''ET'', ''FI'', ''FJ'', ''FK'',
     ''FM'', ''FO'', ''FR'', ''GA'', ''GB'', ''GD'', ''GE'', ''GF'', ''GG'', ''GH'', ''GI'', ''GL'',
     ''GM'', ''GN'', ''GP'', ''GQ'', ''GR'', ''GS'', ''GT'', ''GU'', ''GW'', ''GY'', ''HK'', ''HM'',
     ''HN'', ''HR'', ''HT'', ''HU'', ''ID'', ''IE'', ''IL'', ''IM'', ''IN'', ''IO'', ''IQ'', ''IR'',
     ''IS'', ''IT'', ''JE'', ''JM'', ''JO'', ''JP'', ''KE'', ''KG'', ''KH'', ''KI'', ''KM'', ''KN'',
     ''KP'', ''KR'', ''KW'', ''KY'', ''KZ'', ''LA'', ''LB'', ''LC'', ''LI'', ''LK'', ''LR'', ''LS'',
     ''LT'', ''LU'', ''LV'', ''LY'', ''MA'', ''MC'', ''MD'', ''ME'', ''MF'', ''MG'', ''MH'', ''MK'',
     ''ML'', ''MM'', ''MN'', ''MO'', ''MP'', ''MQ'', ''MR'', ''MS'', ''MT'', ''MU'', ''MV'', ''MW'',
     ''MX'', ''MY'', ''MZ'', ''NA'', ''NC'', ''NE'', ''NF'', ''NG'', ''NI'', ''NL'', ''NO'', ''NP'',
     ''NR'', ''NU'', ''NZ'', ''OM'', ''PA'', ''PE'', ''PF'', ''PG'', ''PH'', ''PK'', ''PL'', ''PM'',
     ''PN'', ''PR'', ''PS'', ''PT'', ''PW'', ''PY'', ''QA'', ''RE'', ''RO'', ''RS'', ''RU'', ''RW'',
     ''SA'', ''SB'', ''SC'', ''SD'', ''SE'', ''SG'', ''SH'', ''SI'', ''SJ'', ''SK'', ''SL'', ''SM'',
     ''SN'', ''SO'', ''SR'', ''SS'', ''ST'', ''SV'', ''SX'', ''SY'', ''SZ'', ''TC'', ''TD'', ''TF'',
     ''TG'', ''TH'', ''TJ'', ''TK'', ''TL'', ''TM'', ''TN'', ''TO'', ''TR'', ''TT'', ''TV'', ''TW'',
     ''TZ'', ''UA'', ''UG'', ''UM'', ''US'', ''UY'', ''UZ'', ''VA'', ''VC'', ''VE'', ''VG'', ''VI'',
     ''VN'', ''VU'', ''WF'', ''WS'', ''YE'', ''YT'', ''ZA'', ''ZM'', ''ZW'']"

text \<open>\<^verbatim>\<open>slices.BinarySearch\<close>: the first index in \<open>i..<j\<close> whose element is not below \<open>x\<close>, else \<open>j\<close>.\<close>

function bsearch :: "'a::linorder list \<Rightarrow> 'a \<Rightarrow> nat \<Rightarrow> nat \<Rightarrow> nat" where
  "bsearch xs x i j =
     (if i < j
      then (let h = (i + j) div 2 in if xs ! h < x then bsearch xs x (h + 1) j else bsearch xs x i h)
      else i)"
  by pat_completeness auto
termination
  by (relation "measure (\<lambda>(xs, x, i, j). j - i)") auto

declare bsearch.simps [simp del]

definition binary_search :: "'a::linorder list \<Rightarrow> 'a \<Rightarrow> nat \<times> bool" where
  "binary_search xs x =
     (let i = bsearch xs x 0 (length xs) in (i, i < length xs \<and> xs ! i = x))"

definition supported :: "string \<Rightarrow> bool" where
  "supported iso2 = snd (binary_search codes iso2)"

section \<open>Flags\<close>

record country_info =
  ci_emoji :: string
  ci_iso2 :: string
  ci_name_en :: string
  ci_name_ru :: string

definition country_table :: "(string \<times> string \<times> string) list" where
  "country_table =
    [(''AD'', ''Andorra'', utf8 [1040, 1085, 1076, 1086, 1088, 1088, 1072]),
     (''AE'', ''United Arab Emirates'', utf8 [1054, 1040, 1069]),
     (''AF'', ''Afghanistan'', utf8 [1040, 1092, 1075, 1072, 1085, 1080, 1089, 1090, 1072, 1085]),
     (''AG'', ''Antigua & Barbuda'', utf8 [1040, 1085, 1090, 1080, 1075, 1091, 1072, 32, 1080, 32, 1041, 1072, 1088, 1073, 1091, 1076, 1072]),
     (''AI'', ''Anguilla'', utf8 [1040, 1085, 1075, 1080, 1083, 1100, 1103]),
     (''AL'', ''Albania'', utf8 [1040, 1083, 1073, 1072, 1085, 1080, 1103]),
     (''AM'', ''Armenia'', utf8 [1040, 1088, 1084, 1077, 1085, 1080, 1103]),
     (''AO'', ''Angola'', utf8 [1040, 1085, 1075, 1086, 1083, 1072]),
     (''AQ'', ''Antarctica'', utf8 [1040, 1085, 1090, 1072, 1088, 1082, 1090, 1080, 1076, 1072]),
     (''AR'', ''Argentina'', utf8 [1040, 1088, 1075, 1077, 1085, 1090, 1080, 1085, 1072]),
     (''AS'', ''American Samoa'', utf8 [1040, 1084, 1077, 1088, 1080, 1082, 1072, 1085, 1089, 1082, 1086, 1077, 32, 1057, 1072, 1084, 1086, 1072]),
     (''AT'', ''Austria'', utf8 [1040, 1074, 1089, 1090, 1088, 1080, 1103]),
     (''AU'', ''Australia'', utf8 [1040, 1074, 1089, 1090, 1088, 1072, 1083, 1080, 1103]),
     (''AW'', ''Aruba'', utf8 [1040, 1088, 1091, 1073, 1072]),
     (''AX'', utf8 [197, 108, 97, 110, 100, 32, 73, 115, 108, 97, 110, 100, 115], utf8 [1040, 1083, 1072, 1085, 1076, 1089, 1082, 1080, 1077, 32, 1086, 45, 1074, 1072]),
     (''AZ'', ''Azerbaijan'', utf8 [1040, 1079, 1077, 1088, 1073, 1072, 1081, 1076, 1078, 1072, 1085]),
     (''BA'', ''Bosnia & Herzegovina'', utf8 [1041, 1086, 1089, 1085, 1080, 1103, 32, 1080, 32, 1043, 1077, 1088, 1094, 1077, 1075, 1086, 1074, 1080, 1085, 1072]),
     (''BB'', ''Barbados'', utf8 [1041, 1072, 1088, 1073, 1072, 1076, 1086, 1089]),
     (''BD'', ''Bangladesh'', utf8 [1041, 1072, 1085, 1075, 1083, 1072, 1076, 1077, 1096]),
     (''BE'', ''Belgium'', utf8 [1041, 1077, 1083, 1100, 1075, 1080, 1103]),
     (''BF'', ''Burkina Faso'', utf8 [1041, 1091, 1088, 1082, 1080, 1085, 1072, 45, 1060, 1072, 1089, 1086]),
     (''BG'', ''Bulgaria'', utf8 [1041, 1086, 1083, 1075, 1072, 1088, 1080, 1103]),
     (''BH'', ''Bahrain'', utf8 [1041, 1072, 1093, 1088, 1077, 1081, 1085]),
     (''BI'', ''Burundi'', utf8 [1041, 1091, 1088, 1091, 1085, 1076, 1080]),
     (''BJ'', ''Benin'', utf8 [1041, 1077, 1085, 1080, 1085]),
     (''BL'', utf8 [83, 116, 46, 32, 66, 97, 114, 116, 104, 233, 108, 101, 109, 121], utf8 [1057, 1077, 1085, 45, 1041, 1072, 1088, 1090, 1077, 1083, 1077, 1084, 1080]),
     (''BM'', ''Bermuda'', utf8 [1041, 1077, 1088, 1084, 1091, 1076, 1089, 1082, 1080, 1077, 32, 1086, 45, 1074, 1072]),
     (''BN'', ''Brunei'', utf8 [1041, 1088, 1091, 1085, 1077, 1081, 45, 1044, 1072, 1088, 1091, 1089, 1089, 1072, 1083, 1072, 1084]),
     (''BO'', ''Bolivia'', utf8 [1041, 1086, 1083, 1080, 1074, 1080, 1103]),
     (''BQ'', ''Caribbean Netherlands'', utf8 [1041, 1086, 1085, 1101, 1081, 1088, 44, 32, 1057, 1080, 1085, 1090, 45, 1069, 1089, 1090, 1072, 1090, 1080, 1091, 1089, 32, 1080, 32, 1057, 1072, 1073, 1072]),
     (''BR'', ''Brazil'', utf8 [1041, 1088, 1072, 1079, 1080, 1083, 1080, 1103]),
     (''BS'', ''Bahamas'', utf8 [1041, 1072, 1075, 1072, 1084, 1099]),
     (''BT'', ''Bhutan'', utf8 [1041, 1091, 1090, 1072, 1085]),
     (''BV'', ''Bouvet Island'', utf8 [1086, 45, 1074, 32, 1041, 1091, 1074, 1077]),
     (''BW'', ''Botswana'', utf8 [1041, 1086, 1090, 1089, 1074, 1072, 1085, 1072]),
     (''BY'', ''Belarus'', utf8 [1041, 1077, 1083, 1072, 1088, 1091, 1089, 1100]),
     (''BZ'', ''Belize'', utf8 [1041, 1077, 1083, 1080, 1079]),
     (''CA'', ''Canada'', utf8 [1050, 1072, 1085, 1072, 1076, 1072]),
     (''CC'', ''Cocos (Keeling) Islands'', utf8 [1050, 1086, 1082, 1086, 1089, 1086, 1074, 1099, 1077, 32, 1086, 45, 1074, 1072]),
     (''CD'', ''Congo - Kinshasa'', utf8 [1050, 1086, 1085, 1075, 1086, 32, 45, 32, 1050, 1080, 1085, 1096, 1072, 1089, 1072]),
     (''CF'', ''Central African Republic'', utf8 [1062, 1077, 1085, 1090, 1088, 1072, 1083, 1100, 1085, 1086, 45, 1040, 1092, 1088, 1080, 1082, 1072, 1085, 1089, 1082, 1072, 1103, 32, 1056, 1077, 1089, 1087, 1091, 1073, 1083, 1080, 1082, 1072]),
     (''CG'', ''Congo - Brazzaville'', utf8 [1050, 1086, 1085, 1075, 1086, 32, 45, 32, 1041, 1088, 1072, 1079, 1079, 1072, 1074, 1080, 1083, 1100]),
     (''CH'', ''Switzerland'', utf8 [1064, 1074, 1077, 1081, 1094, 1072, 1088, 1080, 1103]),
     (''CI'', utf8 [67, 244, 116, 101, 32, 100, 8217, 73, 118, 111, 105, 114, 101], utf8 [1050, 1086, 1090, 45, 1076, 8217, 1048, 1074, 1091, 1072, 1088]),
     (''CK'', ''Cook Islands'', utf8 [1054, 1089, 1090, 1088, 1086, 1074, 1072, 32, 1050, 1091, 1082, 1072]),
     (''CL'', ''Chile'', utf8 [1063, 1080, 1083, 1080]),
     (''CM'', ''Cameroon'', utf8 [1050, 1072, 1084, 1077, 1088, 1091, 1085]),
     (''CN'', ''China'', utf8 [1050, 1080, 1090, 1072, 1081]),
     (''CO'', ''Colombia'', utf8 [1050, 1086, 1083, 1091, 1084, 1073, 1080, 1103]),
     (''CR'', ''Costa Rica'', utf8 [1050, 1086, 1089, 1090, 1072, 45, 1056, 1080, 1082, 1072]),
     (''CU'', ''Cuba'', utf8 [1050, 1091, 1073, 1072]),
     (''CV'', ''Cape Verde'', utf8 [1050, 1072, 1073, 1086, 45, 1042, 1077, 1088, 1076, 1077]),
     (''CW'', utf8 [67, 117, 114, 97, 231, 97, 111], utf8 [1050, 1102, 1088, 1072, 1089, 1072, 1086]),
     (''CX'', ''Christmas Island'', utf8 [1086, 45, 1074, 32, 1056, 1086, 1078, 1076, 1077, 1089, 1090, 1074, 1072]),
     (''CY'', ''Cyprus'', utf8 [1050, 1080, 1087, 1088]),
     (''CZ'', ''Czechia'', utf8 [1063, 1077, 1093, 1080, 1103]),
     (''DE'', ''Germany'', utf8 [1043, 1077, 1088, 1084, 1072, 1085, 1080, 1103]),
     (''DJ'', ''Djibouti'', utf8 [1044, 1078, 1080, 1073, 1091, 1090, 1080]),
     (''DK'', ''Denmark'', utf8 [1044, 1072, 1085, 1080, 1103]),
     (''DM'', ''Dominica'', utf8 [1044, 1086, 1084, 1080, 1085, 1080, 1082, 1072]),
     (''DO'', ''Dominican Republic'', utf8 [1044, 1086, 1084, 1080, 1085, 1080, 1082, 1072, 1085, 1089, 1082, 1072, 1103, 32, 1056, 1077, 1089, 1087, 1091, 1073, 1083, 1080, 1082, 1072]),
     (''DZ'', ''Algeria'', utf8 [1040, 1083, 1078, 1080, 1088]),
     (''EC'', ''Ecuador'', utf8 [1069, 1082, 1074, 1072, 1076, 1086, 1088]),
     (''EE'', ''Estonia'', utf8 [1069, 1089, 1090, 1086, 1085, 1080, 1103]),
     (''EG'', ''Egypt'', utf8 [1045, 1075, 1080, 1087, 1077, 1090]),
     (''EH'', ''Western Sahara'', utf8 [1047, 1072, 1087, 1072, 1076, 1085, 1072, 1103, 32, 1057, 1072, 1093, 1072, 1088, 1072]),
     (''ER'', ''Eritrea'', utf8 [1069, 1088, 1080, 1090, 1088, 1077, 1103]),
     (''ES'', ''Spain'', utf8 [1048, 1089, 1087, 1072, 1085, 1080, 1103]),
     (''ET'', ''Ethiopia'', utf8 [1069, 1092, 1080, 1086, 1087, 1080, 1103]),
     (''FI'', ''Finland'', utf8 [1060, 1080, 1085, 1083, 1103, 1085, 1076, 1080, 1103]),
     (''FJ'', ''Fiji'', utf8 [1060, 1080, 1076, 1078, 1080]),
     (''FK'', ''Falkland Islands'', utf8 [1060, 1086, 1083, 1082, 1083, 1077, 1085, 1076, 1089, 1082, 1080, 1077, 32, 1086, 45, 1074, 1072]),
     (''FM'', ''Micronesia'', utf8 [1060, 1077, 1076, 1077, 1088, 1072, 1090, 1080, 1074, 1085, 1099, 1077, 32, 1064, 1090, 1072, 1090, 1099, 32, 1052, 1080, 1082, 1088, 1086, 1085, 1077, 1079, 1080, 1080]),
     (''FO'', ''Faroe Islands'', utf8 [1060, 1072, 1088, 1077, 1088, 1089, 1082, 1080, 1077, 32, 1086, 45, 1074, 1072]),
     (''FR'', ''France'', utf8 [1060, 1088, 1072, 1085, 1094, 1080, 1103]),
     (''GA'', ''Gabon'', utf8 [1043, 1072, 1073, 1086, 1085]),
     (''GB'', ''United Kingdom'', utf8 [1042, 1077, 1083, 1080, 1082, 1086, 1073, 1088, 1080, 1090, 1072, 1085, 1080, 1103]),
     (''GD'', ''Grenada'', utf8 [1043, 1088, 1077, 1085, 1072, 1076, 1072]),
     (''GE'', ''Georgia'', utf8 [1043, 1088, 1091, 1079, 1080, 1103]),
     (''GF'', ''French Guiana'', utf8 [1060, 1088, 1072, 1085, 1094, 1091, 1079, 1089, 1082, 1072, 1103, 32, 1043, 1074, 1080, 1072, 1085, 1072]),
     (''GG'', ''Guernsey'', utf8 [1043, 1077, 1088, 1085, 1089, 1080]),
     (''GH'', ''Ghana'', utf8 [1043, 1072, 1085, 1072]),
     (''GI'', ''Gibraltar'', utf8 [1043, 1080, 1073, 1088, 1072, 1083, 1090, 1072, 1088]),
     (''GL'', ''Greenland'', utf8 [1043, 1088, 1077, 1085, 1083, 1072, 1085, 1076, 1080, 1103]),
     (''GM'', ''Gambia'', utf8 [1043, 1072, 1084, 1073, 1080, 1103]),
     (''GN'', ''Guinea'', utf8 [1043, 1074, 1080, 1085, 1077, 1103]),
     (''GP'', ''Guadeloupe'', utf8 [1043, 1074, 1072, 1076, 1077, 1083, 1091, 1087, 1072]),
     (''GQ'', ''Equatorial Guinea'', utf8 [1069, 1082, 1074, 1072, 1090, 1086, 1088, 1080, 1072, 1083, 1100, 1085, 1072, 1103, 32, 1043, 1074, 1080, 1085, 1077, 1103]),
     (''GR'', ''Greece'', utf8 [1043, 1088, 1077, 1094, 1080, 1103]),
     (''GS'', ''South Georgia & South Sandwich Islands'', utf8 [1070, 1078, 1085, 1072, 1103, 32, 1043, 1077, 1086, 1088, 1075, 1080, 1103, 32, 1080, 32, 1070, 1078, 1085, 1099, 1077, 32, 1057, 1072, 1085, 1076, 1074, 1080, 1095, 1077, 1074, 1099, 32, 1086, 45, 1074, 1072]),
     (''GT'', ''Guatemala'', utf8 [1043, 1074, 1072, 1090, 1077, 1084, 1072, 1083, 1072]),
     (''GU'', ''Guam'', utf8 [1043, 1091, 1072, 1084]),
     (''GW'', ''Guinea-Bissau'', utf8 [1043, 1074, 1080, 1085, 1077, 1103, 45, 1041, 1080, 1089, 1072, 1091]),
     (''GY'', ''Guyana'', utf8 [1043, 1072, 1081, 1072, 1085, 1072]),
     (''HK'', ''Hong Kong SAR China'', utf8 [1043, 1086, 1085, 1082, 1086, 1085, 1075]),
     (''HM'', ''Heard & McDonald Islands'', utf8 [1086, 45, 1074, 1072, 32, 1061, 1077, 1088, 1076, 32, 1080, 32, 1052, 1072, 1082, 1076, 1086, 1085, 1072, 1083, 1100, 1076]),
     (''HN'', ''Honduras'', utf8 [1043, 1086, 1085, 1076, 1091, 1088, 1072, 1089]),
     (''HR'', ''Croatia'', utf8 [1061, 1086, 1088, 1074, 1072, 1090, 1080, 1103]),
     (''HT'', ''Haiti'', utf8 [1043, 1072, 1080, 1090, 1080]),
     (''HU'', ''Hungary'', utf8 [1042, 1077, 1085, 1075, 1088, 1080, 1103]),
     (''ID'', ''Indonesia'', utf8 [1048, 1085, 1076, 1086, 1085, 1077, 1079, 1080, 1103]),
     (''IE'', ''Ireland'', utf8 [1048, 1088, 1083, 1072, 1085, 1076, 1080, 1103]),
     (''IL'', ''Israel'', utf8 [1048, 1079, 1088, 1072, 1080, 1083, 1100]),
     (''IM'', ''Isle of Man'', utf8 [1086, 45, 1074, 32, 1052, 1101, 1085]),
     (''IN'', ''India'', utf8 [1048, 1085, 1076, 1080, 1103]),
     (''IO'', ''British Indian Ocean Territory'', utf8 [1041, 1088, 1080, 1090, 1072, 1085, 1089, 1082, 1072, 1103, 32, 1090, 1077, 1088, 1088, 1080, 1090, 1086, 1088, 1080, 1103, 32, 1074, 32, 1048, 1085, 1076, 1080, 1081, 1089, 1082, 1086, 1084, 32, 1086, 1082, 1077, 1072, 1085, 1077]),
     (''IQ'', ''Iraq'', utf8 [1048, 1088, 1072, 1082]),
     (''IR'', ''Iran'', utf8 [1048, 1088, 1072, 1085]),
     (''IS'', ''Iceland'', utf8 [1048, 1089, 1083, 1072, 1085, 1076, 1080, 1103]),
     (''IT'', ''Italy'', utf8 [1048, 1090, 1072, 1083, 1080, 1103]),
     (''JE'', ''Jersey'', utf8 [1044, 1078, 1077, 1088, 1089, 1080]),
     (''JM'', ''Jamaica'', utf8 [1071, 1084, 1072, 1081, 1082, 1072]),
     (''JO'', ''Jordan'', utf8 [1048, 1086, 1088, 1076, 1072, 1085, 1080, 1103]),
     (''JP'', ''Japan'', utf8 [1071, 1087, 1086, 1085, 1080, 1103]),
     (''KE'', ''Kenya'', utf8 [1050, 1077, 1085, 1080, 1103]),
     (''KG'', ''Kyrgyzstan'', utf8 [1050, 1080, 1088, 1075, 1080, 1079, 1080, 1103]),
     (''KH'', ''Cambodia'', utf8 [1050, 1072, 1084, 1073, 1086, 1076, 1078, 1072]),
     (''KI'', ''Kiribati'', utf8 [1050, 1080, 1088, 1080, 1073, 1072, 1090, 1080]),
     (''KM'', ''Comoros'', utf8 [1050, 1086, 1084, 1086, 1088, 1099]),
     (''KN'', ''St. Kitts & Nevis'', utf8 [1057, 1077, 1085, 1090, 45, 1050, 1080, 1090, 1089, 32, 1080, 32, 1053, 1077, 1074, 1080, 1089]),
     (''KP'', ''North Korea'', utf8 [1050, 1053, 1044, 1056]),
     (''KR'', ''South Korea'', utf8 [1070, 1078, 1085, 1072, 1103, 32, 1050, 1086, 1088, 1077, 1103]),
     (''KW'', ''Kuwait'', utf8 [1050, 1091, 1074, 1077, 1081, 1090]),
     (''KY'', ''Cayman Islands'', utf8 [1050, 1072, 1081, 1084, 1072, 1085, 1086, 1074, 1099, 32, 1086, 45, 1074, 1072]),
     (''KZ'', ''Kazakhstan'', utf8 [1050, 1072, 1079, 1072, 1093, 1089, 1090, 1072, 1085]),
     (''LA'', ''Laos'', utf8 [1051, 1072, 1086, 1089]),
     (''LB'', ''Lebanon'', utf8 [1051, 1080, 1074, 1072, 1085]),
     (''LC'', ''St. Lucia'', utf8 [1057, 1077, 1085, 1090, 45, 1051, 1102, 1089, 1080, 1103]),
     (''LI'', ''Liechtenstein'', utf8 [1051, 1080, 1093, 1090, 1077, 1085, 1096, 1090, 1077, 1081, 1085]),
     (''LK'', ''Sri Lanka'', utf8 [1064, 1088, 1080, 45, 1051, 1072, 1085, 1082, 1072]),
     (''LR'', ''Liberia'', utf8 [1051, 1080, 1073, 1077, 1088, 1080, 1103]),
     (''LS'', ''Lesotho'', utf8 [1051, 1077, 1089, 1086, 1090, 1086]),
     (''LT'', ''Lithuania'', utf8 [1051, 1080, 1090, 1074, 1072]),
     (''LU'', ''Luxembourg'', utf8 [1051, 1102, 1082, 1089, 1077, 1084, 1073, 1091, 1088, 1075]),
     (''LV'', ''Latvia'', utf8 [1051, 1072, 1090, 1074, 1080, 1103]),
     (''LY'', ''Libya'', utf8 [1051, 1080, 1074, 1080, 1103]),
     (''MA'', ''Morocco'', utf8 [1052, 1072, 1088, 1086, 1082, 1082, 1086]),
     (''MC'', ''Monaco'', utf8 [1052, 1086, 1085, 1072, 1082, 1086]),
     (''MD'', ''Moldova'', utf8 [1052, 1086, 1083, 1076, 1086, 1074, 1072]),
     (''ME'', ''Montenegro'', utf8 [1063, 1077, 1088, 1085, 1086, 1075, 1086, 1088, 1080, 1103]),
     (''MF'', ''St. Martin'', utf8 [1057, 1077, 1085, 45, 1052, 1072, 1088, 1090, 1077, 1085]),
     (''MG'', ''Madagascar'', utf8 [1052, 1072, 1076, 1072, 1075, 1072, 1089, 1082, 1072, 1088]),
     (''MH'', ''Marshall Islands'', utf8 [1052, 1072, 1088, 1096, 1072, 1083, 1083, 1086, 1074, 1099, 32, 1054, 1089, 1090, 1088, 1086, 1074, 1072]),
     (''MK'', ''North Macedonia'', utf8 [1057, 1077, 1074, 1077, 1088, 1085, 1072, 1103, 32, 1052, 1072, 1082, 1077, 1076, 1086, 1085, 1080, 1103]),
     (''ML'', ''Mali'', utf8 [1052, 1072, 1083, 1080]),
     (''MM'', ''Myanmar (Burma)'', utf8 [1052, 1100, 1103, 1085, 1084, 1072, 32, 40, 1041, 1080, 1088, 1084, 1072, 41]),
     (''MN'', ''Mongolia'', utf8 [1052, 1086, 1085, 1075, 1086, 1083, 1080, 1103]),
     (''MO'', ''Macao SAR China'', utf8 [1052, 1072, 1082, 1072, 1086, 32, 40, 1057, 1040, 1056, 41]),
     (''MP'', ''Northern Mariana Islands'', utf8 [1057, 1077, 1074, 1077, 1088, 1085, 1099, 1077, 32, 1052, 1072, 1088, 1080, 1072, 1085, 1089, 1082, 1080, 1077, 32, 1086, 45, 1074, 1072]),
     (''MQ'', ''Martinique'', utf8 [1052, 1072, 1088, 1090, 1080, 1085, 1080, 1082, 1072]),
     (''MR'', ''Mauritania'', utf8 [1052, 1072, 1074, 1088, 1080, 1090, 1072, 1085, 1080, 1103]),
     (''MS'', ''Montserrat'', utf8 [1052, 1086, 1085, 1090, 1089, 1077, 1088, 1088, 1072, 1090]),
     (''MT'', ''Malta'', utf8 [1052, 1072, 1083, 1100, 1090, 1072]),
     (''MU'', ''Mauritius'', utf8 [1052, 1072, 1074, 1088, 1080, 1082, 1080, 1081]),
     (''MV'', ''Maldives'', utf8 [1052, 1072, 1083, 1100, 1076, 1080, 1074, 1099]),
     (''MW'', ''Malawi'', utf8 [1052, 1072, 1083, 1072, 1074, 1080]),
     (''MX'', ''Mexico'', utf8 [1052, 1077, 1082, 1089, 1080, 1082, 1072]),
     (''MY'', ''Malaysia'', utf8 [1052, 1072, 1083, 1072, 1081, 1079, 1080, 1103]),
     (''MZ'', ''Mozambique'', utf8 [1052, 1086, 1079, 1072, 1084, 1073, 1080, 1082]),
     (''NA'', ''Namibia'', utf8 [1053, 1072, 1084, 1080, 1073, 1080, 1103]),
     (''NC'', ''New Caledonia'', utf8 [1053, 1086, 1074, 1072, 1103, 32, 1050, 1072, 1083, 1077, 1076, 1086, 1085, 1080, 1103]),
     (''NE'', ''Niger'', utf8 [1053, 1080, 1075, 1077, 1088]),
     (''NF'', ''Norfolk Island'', utf8 [1086, 45, 1074, 32, 1053, 1086, 1088, 1092, 1086, 1083, 1082]),
     (''NG'', ''Nigeria'', utf8 [1053, 1080, 1075, 1077, 1088, 1080, 1103]),
     (''NI'', ''Nicaragua'', utf8 [1053, 1080, 1082, 1072, 1088, 1072, 1075, 1091, 1072]),
     (''NL'', ''Netherlands'', utf8 [1053, 1080, 1076, 1077, 1088, 1083, 1072, 1085, 1076, 1099]),
     (''NO'', ''Norway'', utf8 [1053, 1086, 1088, 1074, 1077, 1075, 1080, 1103]),
     (''NP'', ''Nepal'', utf8 [1053, 1077, 1087, 1072, 1083]),
     (''NR'', ''Nauru'', utf8 [1053, 1072, 1091, 1088, 1091]),
     (''NU'', ''Niue'', utf8 [1053, 1080, 1091, 1101]),
     (''NZ'', ''New Zealand'', utf8 [1053, 1086, 1074, 1072, 1103, 32, 1047, 1077, 1083, 1072, 1085, 1076, 1080, 1103]),
     (''OM'', ''Oman'', utf8 [1054, 1084, 1072, 1085]),
     (''PA'', ''Panama'', utf8 [1055, 1072, 1085, 1072, 1084, 1072]),
     (''PE'', ''Peru'', utf8 [1055, 1077, 1088, 1091]),
     (''PF'', ''French Polynesia'', utf8 [1060, 1088, 1072, 1085, 1094, 1091, 1079, 1089, 1082, 1072, 1103, 32, 1055, 1086, 1083, 1080, 1085, 1077, 1079, 1080, 1103]),
     (''PG'', ''Papua New Guinea'', utf8 [1055, 1072, 1087, 1091, 1072, 32, 8212, 32, 1053, 1086, 1074, 1072, 1103, 32, 1043, 1074, 1080, 1085, 1077, 1103]),
     (''PH'', ''Philippines'', utf8 [1060, 1080, 1083, 1080, 1087, 1087, 1080, 1085, 1099]),
     (''PK'', ''Pakistan'', utf8 [1055, 1072, 1082, 1080, 1089, 1090, 1072, 1085]),
     (''PL'', ''Poland'', utf8 [1055, 1086, 1083, 1100, 1096, 1072]),
     (''PM'', ''St. Pierre & Miquelon'', utf8 [1057, 1077, 1085, 45, 1055, 1100, 1077, 1088, 32, 1080, 32, 1052, 1080, 1082, 1077, 1083, 1086, 1085]),
     (''PN'', ''Pitcairn Islands'', utf8 [1086, 1089, 1090, 1088, 1086, 1074, 1072, 32, 1055, 1080, 1090, 1082, 1101, 1088, 1085]),
     (''PR'', ''Puerto Rico'', utf8 [1055, 1091, 1101, 1088, 1090, 1086, 45, 1056, 1080, 1082, 1086]),
     (''PS'', ''Palestinian Territories'', utf8 [1055, 1072, 1083, 1077, 1089, 1090, 1080, 1085, 1089, 1082, 1080, 1077, 32, 1090, 1077, 1088, 1088, 1080, 1090, 1086, 1088, 1080, 1080]),
     (''PT'', ''Portugal'', utf8 [1055, 1086, 1088, 1090, 1091, 1075, 1072, 1083, 1080, 1103]),
     (''PW'', ''Palau'', utf8 [1055, 1072, 1083, 1072, 1091]),
     (''PY'', ''Paraguay'', utf8 [1055, 1072, 1088, 1072, 1075, 1074, 1072, 1081]),
     (''QA'', ''Qatar'', utf8 [1050, 1072, 1090, 1072, 1088]),
     (''RE'', utf8 [82, 233, 117, 110, 105, 111, 110], utf8 [1056, 1077, 1102, 1085, 1100, 1086, 1085]),
     (''RO'', ''Romania'', utf8 [1056, 1091, 1084, 1099, 1085, 1080, 1103]),
     (''RS'', ''Serbia'', utf8 [1057, 1077, 1088, 1073, 1080, 1103]),
     (''RU'', ''Russia'', utf8 [1056, 1086, 1089, 1089, 1080, 1103]),
     (''RW'', ''Rwanda'', utf8 [1056, 1091, 1072, 1085, 1076, 1072]),
     (''SA'', ''Saudi Arabia'', utf8 [1057, 1072, 1091, 1076, 1086, 1074, 1089, 1082, 1072, 1103, 32, 1040, 1088, 1072, 1074, 1080, 1103]),
     (''SB'', ''Solomon Islands'', utf8 [1057, 1086, 1083, 1086, 1084, 1086, 1085, 1086, 1074, 1099, 32, 1054, 1089, 1090, 1088, 1086, 1074, 1072]),
     (''SC'', ''Seychelles'', utf8 [1057, 1077, 1081, 1096, 1077, 1083, 1100, 1089, 1082, 1080, 1077, 32, 1054, 1089, 1090, 1088, 1086, 1074, 1072]),
     (''SD'', ''Sudan'', utf8 [1057, 1091, 1076, 1072, 1085]),
     (''SE'', ''Sweden'', utf8 [1064, 1074, 1077, 1094, 1080, 1103]),
     (''SG'', ''Singapore'', utf8 [1057, 1080, 1085, 1075, 1072, 1087, 1091, 1088]),
     (''SH'', ''St. Helena'', utf8 [1086, 45, 1074, 32, 1057, 1074, 46, 32, 1045, 1083, 1077, 1085, 1099]),
     (''SI'', ''Slovenia'', utf8 [1057, 1083, 1086, 1074, 1077, 1085, 1080, 1103]),
     (''SJ'', ''Svalbard & Jan Mayen'', utf8 [1064, 1087, 1080, 1094, 1073, 1077, 1088, 1075, 1077, 1085, 32, 1080, 32, 1071, 1085, 45, 1052, 1072, 1081, 1077, 1085]),
     (''SK'', ''Slovakia'', utf8 [1057, 1083, 1086, 1074, 1072, 1082, 1080, 1103]),
     (''SL'', ''Sierra Leone'', utf8 [1057, 1100, 1077, 1088, 1088, 1072, 45, 1051, 1077, 1086, 1085, 1077]),
     (''SM'', ''San Marino'', utf8 [1057, 1072, 1085, 45, 1052, 1072, 1088, 1080, 1085, 1086]),
     (''SN'', ''Senegal'', utf8 [1057, 1077, 1085, 1077, 1075, 1072, 1083]),
     (''SO'', ''Somalia'', utf8 [1057, 1086, 1084, 1072, 1083, 1080]),
     (''SR'', ''Suriname'', utf8 [1057, 1091, 1088, 1080, 1085, 1072, 1084]),
     (''SS'', ''South Sudan'', utf8 [1070, 1078, 1085, 1099, 1081, 32, 1057, 1091, 1076, 1072, 1085]),
     (''ST'', utf8 [83, 227, 111, 32, 84, 111, 109, 233, 32, 38, 32, 80, 114, 237, 110, 99, 105, 112, 101], utf8 [1057, 1072, 1085, 45, 1058, 1086, 1084, 1077, 32, 1080, 32, 1055, 1088, 1080, 1085, 1089, 1080, 1087, 1080]),
     (''SV'', ''El Salvador'', utf8 [1057, 1072, 1083, 1100, 1074, 1072, 1076, 1086, 1088]),
     (''SX'', ''Sint Maarten'', utf8 [1057, 1080, 1085, 1090, 45, 1052, 1072, 1088, 1090, 1077, 1085]),
     (''SY'', ''Syria'', utf8 [1057, 1080, 1088, 1080, 1103]),
     (''SZ'', ''Eswatini'', utf8 [1069, 1089, 1074, 1072, 1090, 1080, 1085, 1080]),
     (''TC'', ''Turks & Caicos Islands'', utf8 [1086, 45, 1074, 1072, 32, 1058, 1105, 1088, 1082, 1089, 32, 1080, 32, 1050, 1072, 1081, 1082, 1086, 1089]),
     (''TD'', ''Chad'', utf8 [1063, 1072, 1076]),
     (''TF'', ''French Southern Territories'', utf8 [1060, 1088, 1072, 1085, 1094, 1091, 1079, 1089, 1082, 1080, 1077, 32, 1070, 1078, 1085, 1099, 1077, 32, 1090, 1077, 1088, 1088, 1080, 1090, 1086, 1088, 1080, 1080]),
     (''TG'', ''Togo'', utf8 [1058, 1086, 1075, 1086]),
     (''TH'', ''Thailand'', utf8 [1058, 1072, 1080, 1083, 1072, 1085, 1076]),
     (''TJ'', ''Tajikistan'', utf8 [1058, 1072, 1076, 1078, 1080, 1082, 1080, 1089, 1090, 1072, 1085]),
     (''TK'', ''Tokelau'', utf8 [1058, 1086, 1082, 1077, 1083, 1072, 1091]),
     (''TL'', ''Timor-Leste'', utf8 [1042, 1086, 1089, 1090, 1086, 1095, 1085, 1099, 1081, 32, 1058, 1080, 1084, 1086, 1088]),
     (''TM'', ''Turkmenistan'', utf8 [1058, 1091, 1088, 1082, 1084, 1077, 1085, 1080, 1089, 1090, 1072, 1085]),
     (''TN'', ''Tunisia'', utf8 [1058, 1091, 1085, 1080, 1089]),
     (''TO'', ''Tonga'', utf8 [1058, 1086, 1085, 1075, 1072]),
     (''TR'', utf8 [84, 252, 114, 107, 105, 121, 101], utf8 [1058, 1091, 1088, 1094, 1080, 1103]),
     (''TT'', ''Trinidad & Tobago'', utf8 [1058, 1088, 1080, 1085, 1080, 1076, 1072, 1076, 32, 1080, 32, 1058, 1086, 1073, 1072, 1075, 1086]),
     (''TV'', ''Tuvalu'', utf8 [1058, 1091, 1074, 1072, 1083, 1091]),
     (''TW'', ''Taiwan'', utf8 [1058, 1072, 1081, 1074, 1072, 1085, 1100]),
     (''TZ'', ''Tanzania'', utf8 [1058, 1072, 1085, 1079, 1072, 1085, 1080, 1103]),
     (''UA'', ''Ukraine'', utf8 [1059, 1082, 1088, 1072, 1080, 1085, 1072]),
     (''UG'', ''Uganda'', utf8 [1059, 1075, 1072, 1085, 1076, 1072]),
     (''UM'', ''U.S. Outlying Islands'', utf8 [1042, 1085, 1077, 1096, 1085, 1080, 1077, 32, 1084, 1072, 1083, 1099, 1077, 32, 1086, 45, 1074, 1072, 32, 40, 1057, 1064, 1040, 41]),
     (''US'', ''United States'', utf8 [1057, 1064, 1040]),
     (''UY'', ''Uruguay'', utf8 [1059, 1088, 1091, 1075, 1074, 1072, 1081]),
     (''UZ'', ''Uzbekistan'', utf8 [1059, 1079, 1073, 1077, 1082, 1080, 1089, 1090, 1072, 1085]),
     (''VA'', ''Vatican City'', utf8 [1042, 1072, 1090, 1080, 1082, 1072, 1085]),
     (''VC'', ''St. Vincent & Grenadines'', utf8 [1057, 1077, 1085, 1090, 45, 1042, 1080, 1085, 1089, 1077, 1085, 1090, 32, 1080, 32, 1043, 1088, 1077, 1085, 1072, 1076, 1080, 1085, 1099]),
     (''VE'', ''Venezuela'', utf8 [1042, 1077, 1085, 1077, 1089, 1091, 1101, 1083, 1072]),
     (''VG'', ''British Virgin Islands'', utf8 [1042, 1080, 1088, 1075, 1080, 1085, 1089, 1082, 1080, 1077, 32, 1086, 45, 1074, 1072, 32, 40, 1041, 1088, 1080, 1090, 1072, 1085, 1089, 1082, 1080, 1077, 41]),
     (''VI'', ''U.S. Virgin Islands'', utf8 [1042, 1080, 1088, 1075, 1080, 1085, 1089, 1082, 1080, 1077, 32, 1086, 45, 1074, 1072, 32, 40, 1057, 1064, 1040, 41]),
     (''VN'', ''Vietnam'', utf8 [1042, 1100, 1077, 1090, 1085, 1072, 1084]),
     (''VU'', ''Vanuatu'', utf8 [1042, 1072, 1085, 1091, 1072, 1090, 1091]),
     (''WF'', ''Wallis & Futuna'', utf8 [1059, 1086, 1083, 1083, 1080, 1089, 32, 1080, 32, 1060, 1091, 1090, 1091, 1085, 1072]),
     (''WS'', ''Samoa'', utf8 [1057, 1072, 1084, 1086, 1072]),
     (''YE'', ''Yemen'', utf8 [1049, 1077, 1084, 1077, 1085]),
     (''YT'', ''Mayotte'', utf8 [1052, 1072, 1081, 1086, 1090, 1090, 1072]),
     (''ZA'', ''South Africa'', utf8 [1070, 1040, 1056]),
     (''ZM'', ''Zambia'', utf8 [1047, 1072, 1084, 1073, 1080, 1103]),
     (''ZW'', ''Zimbabwe'', utf8 [1047, 1080, 1084, 1073, 1072, 1073, 1074, 1077])]"

definition regional_a :: nat where "regional_a = 127462"

text \<open>The loop of \<^verbatim>\<open>FromLabel\<close>: \<open>n\<close> more runes are wanted, each a regional indicator.\<close>

fun flag_runes :: "nat \<Rightarrow> string \<Rightarrow> nat list option" where
  "flag_runes 0 s = Some []"
| "flag_runes (Suc n) s =
     (let (r, w) = decode_rune s in
      if w = 0 \<or> r < regional_a \<or> r > regional_a + 25 then None
      else map_option (Cons r) (flag_runes n (drop w s)))"

definition flag_iso :: "nat list \<Rightarrow> string" where
  "flag_iso = map (\<lambda>r. char_of (65 + r - regional_a))"

definition from_label :: "string \<Rightarrow> country_info option" where
  "from_label label =
     (case flag_runes 2 label of
        None \<Rightarrow> None
      | Some flag \<Rightarrow>
          (case map_of country_table (flag_iso flag) of
             None \<Rightarrow> None
           | Some (en, ru) \<Rightarrow>
               Some \<lparr>ci_emoji = utf8 flag, ci_iso2 = flag_iso flag, ci_name_en = en, ci_name_ru = ru\<rparr>))"

definition upper_letter :: "char \<Rightarrow> bool" where
  "upper_letter ch \<longleftrightarrow> in_range 65 90 (of_char ch)"

definition from_iso2 :: "string \<Rightarrow> country_info option" where
  "from_iso2 code =
     (if length code \<noteq> 2 \<or> \<not> list_all upper_letter code then None
      else from_label (utf8 (map (\<lambda>ch. regional_a + (of_char ch - 65)) code)))"

section \<open>Binary search\<close>

lemma bsearch_bounds:
  "sorted xs \<Longrightarrow> i \<le> j \<Longrightarrow> j \<le> length xs \<Longrightarrow>
   (\<forall>k < i. xs ! k < x) \<Longrightarrow> (\<forall>k. j \<le> k \<and> k < length xs \<longrightarrow> x \<le> xs ! k) \<Longrightarrow>
   i \<le> bsearch xs x i j \<and> bsearch xs x i j \<le> j \<and> (\<forall>k < bsearch xs x i j. xs ! k < x) \<and>
   (\<forall>k. bsearch xs x i j \<le> k \<and> k < length xs \<longrightarrow> x \<le> xs ! k)"
proof (induction xs x i j rule: bsearch.induct)
  case (1 xs x i j)
  show ?case
  proof (cases "i < j")
    case False
    with 1(4) have "i = j" by simp
    then have "bsearch xs x i j = i" by (simp add: bsearch.simps)
    with \<open>i = j\<close> 1(6,7) show ?thesis by simp
  next
    case True
    let ?h = "(i + j) div 2"
    have h: "i \<le> ?h" "?h < j" using True by auto
    have step: "bsearch xs x i j = (if xs ! ?h < x then bsearch xs x (?h + 1) j else bsearch xs x i ?h)"
      using True by (subst bsearch.simps) (simp add: Let_def)
    have mono: "xs ! k \<le> xs ! l" if "k \<le> l" "l < length xs" for k l
      using that 1(3) by (simp add: sorted_nth_mono)
    show ?thesis
    proof (cases "xs ! ?h < x")
      case True
      have "xs ! k < x" if "k < ?h + 1" for k
        using mono [of k ?h] that h 1(5) True by auto
      then have "\<forall>k < ?h + 1. xs ! k < x" by blast
      with 1(1) [OF \<open>i < j\<close> refl True] 1(3-7) h step True show ?thesis by auto
    next
      case False
      have "\<forall>k. ?h \<le> k \<and> k < length xs \<longrightarrow> x \<le> xs ! k"
        using mono [of ?h] False by (meson leI order_trans)
      with 1(2) [OF \<open>i < j\<close> refl False] 1(3-7) h step False show ?thesis by auto
    qed
  qed
qed

lemma binary_search_found:
  assumes "sorted xs"
  shows "snd (binary_search xs x) \<longleftrightarrow> x \<in> set xs"
proof -
  let ?i = "bsearch xs x 0 (length xs)"
  have b: "\<forall>k < ?i. xs ! k < x" "\<forall>k. ?i \<le> k \<and> k < length xs \<longrightarrow> x \<le> xs ! k"
    using bsearch_bounds [of xs 0 "length xs" x] assms leD by blast+
  have "xs ! ?i = x \<and> ?i < length xs" if x: "x \<in> set xs"
  proof -
    obtain k where k: "k < length xs" "xs ! k = x" using x by (auto simp: in_set_conv_nth)
    then have ik: "?i \<le> k" using b(1) by (meson leI less_irrefl)
    with k have "x \<le> xs ! ?i" using b(2) by auto
    moreover have "xs ! ?i \<le> xs ! k" using sorted_nth_mono [OF assms ik k(1)] .
    ultimately show ?thesis using k ik by auto
  qed
  then show ?thesis by (auto simp: binary_search_def Let_def in_set_conv_nth)
qed

lemma char_below: "(x::char) < y \<longleftrightarrow> (of_char x :: nat) < of_char y"
  by (simp add: less_char_def)

lemma char_below_eq: "(x::char) \<le> y \<longleftrightarrow> (of_char x :: nat) \<le> of_char y"
  by (simp add: less_eq_char_def)

lemma codes_sorted: "sorted codes"
  unfolding codes_def
  by (simp only: sorted2 sorted1 Cons_le_Cons char_below char_below_eq of_char_Char of_bool_eq
      simp_thms list.inject) simp

lemma table_codes: "map fst country_table = codes"
  unfolding codes_def country_table_def by (simp only: list.map fst_conv)

lemma codes_upper: "list_all (\<lambda>c. length c = 2 \<and> list_all upper_letter c) codes"
  unfolding codes_def by (simp add: upper_letter_def in_range_def)

lemma supported_iff: "supported iso2 \<longleftrightarrow> iso2 \<in> set codes"
  by (simp add: supported_def binary_search_found codes_sorted)

lemma map_of_table: "map_of country_table iso2 \<noteq> None \<longleftrightarrow> supported iso2"
  by (simp add: supported_iff table_codes [symmetric] map_of_eq_None_iff)

section \<open>Regional indicators\<close>

definition regional :: "nat \<Rightarrow> bool" where
  "regional r \<longleftrightarrow> regional_a \<le> r \<and> r \<le> regional_a + 25"

lemma encode_regional:
  "regional r \<Longrightarrow> encode_rune r = [char_of (240 :: nat), char_of (159 :: nat), char_of (135 :: nat), char_of (r - 127296)]"
proof -
  assume "regional r"
  then have r: "127462 \<le> r" "r \<le> 127487" by (auto simp: regional_def regional_a_def)
  then have "r div 262144 = 0" "r div 4096 = 31" "r div 64 = 1991" by simp_all
  moreover from \<open>r div 64 = 1991\<close> have "r mod 64 = r - 127424"
    by (simp add: minus_div_mult_eq_mod [symmetric])
  ultimately show ?thesis using r by (simp add: encode_rune_def in_range_def)
qed

lemma decode_encode:
  assumes "regional r"
  shows "decode_rune (encode_rune r @ s) = (r, 4)"
proof -
  have "166 \<le> r - 127296" "r - 127296 \<le> 191" "127296 \<le> r"
    using assms by (auto simp: regional_def regional_a_def)
  then show ?thesis
    by (simp add: encode_regional [OF assms] decode_rune_def in_range_def second_ok_def)
qed

lemma decode_bytes_regional:
  assumes "decode_bytes bs = (r, w)" "regional r" "\<forall>b \<in> set bs. b < 256"
  shows "w = 4 \<and> (\<exists>rest. bs = 240 # 159 # 135 # (r - 127296) # rest)"
proof -
  have r: "127462 \<le> r" "r \<le> 127487" using assms(2) by (auto simp: regional_def regional_a_def)
  obtain b0 b1 b2 b3 rest where bs: "bs = b0 # b1 # b2 # b3 # rest"
    and v: "second_ok b0 b1" "in_range 128 191 b2" "in_range 128 191 b3" "in_range 240 244 b0" "w = 4"
    and eq: "r = (b0 - 240) * 262144 + (b1 - 128) * 4096 + (b2 - 128) * 64 + (b3 - 128)"
    using assms(1) r
    by (cases bs rule: decode_bytes.cases)
      (auto simp: rune_error_def in_range_def second_ok_def split: if_splits list.splits)
  have "b0 = 240" using eq r v(4) unfolding in_range_def by linarith
  then have "144 \<le> b1" "b1 \<le> 191" using v(1) by (auto simp: second_ok_def in_range_def)
  then have "b1 = 159" using eq r v \<open>b0 = 240\<close> unfolding in_range_def by linarith
  then have "b2 = 135" using eq r v \<open>b0 = 240\<close> unfolding in_range_def by linarith
  then have "b3 = r - 127296" using eq r v \<open>b0 = 240\<close> \<open>b1 = 159\<close> unfolding in_range_def by linarith
  then show ?thesis using bs v \<open>b0 = 240\<close> \<open>b1 = 159\<close> \<open>b2 = 135\<close> by simp
qed

lemma decode_regional:
  assumes "decode_rune s = (r, w)" "regional r"
  shows "w = 4 \<and> s = encode_rune r @ drop 4 s"
proof -
  let ?bs = "map of_char (take 4 s) :: nat list"
  have "\<forall>b \<in> set ?bs. b < 256" by auto
  then obtain rest where w: "w = 4" and bs: "?bs = 240 # 159 # 135 # (r - 127296) # rest"
    using decode_bytes_regional assms by (metis decode_rune_def)
  have "length ?bs \<le> 4" by simp
  then have rest: "rest = []" unfolding bs by simp
  have "take 4 s = map char_of ?bs" by (simp add: comp_def)
  also have "\<dots> = encode_rune r" using bs rest by (simp add: encode_regional [OF assms(2)])
  finally have "take 4 s = encode_rune r" .
  then show ?thesis using w append_take_drop_id [of 4 s] by simp
qed

lemma flag_runes_utf8: "list_all regional rs \<Longrightarrow> flag_runes (length rs) (utf8 rs @ s) = Some rs"
proof (induction rs)
  case (Cons r rs)
  then have "drop 4 (encode_rune r @ utf8 rs @ s) = utf8 rs @ s" by (simp add: encode_regional)
  with Cons show ?case
    by (simp add: utf8_def decode_encode Let_def regional_def del: drop_append)
qed (simp add: utf8_def)

lemma flag_runes_Some:
  "flag_runes n s = Some rs \<Longrightarrow> length rs = n \<and> list_all regional rs \<and> prefix (utf8 rs) s"
proof (induction n s arbitrary: rs rule: flag_runes.induct)
  case (2 n s)
  obtain r w where rw: "decode_rune s = (r, w)" by fastforce
  with 2(2) obtain rs' where reg: "regional r" and rs: "rs = r # rs'"
    and rec: "flag_runes n (drop w s) = Some rs'"
    by (auto simp: regional_def split: if_splits)
  have s: "w = 4" "s = encode_rune r @ drop 4 s" using decode_regional [OF rw reg] by auto
  have "\<not> (w = 0 \<or> r < regional_a \<or> r > regional_a + 25)" using s(1) reg by (auto simp: regional_def)
  with 2(1) [OF rw [symmetric] refl this rec] have "length rs' = n \<and> list_all regional rs' \<and> prefix (utf8 rs') (drop 4 s)"
    using s(1) by simp
  with rs reg show ?case by (subst s(2)) (simp add: utf8_def)
qed (simp add: utf8_def)

section \<open>Labels and codes\<close>

lemma regional_of_letter: "upper_letter ch \<Longrightarrow> regional (regional_a + (of_char ch - 65))"
  by (auto simp: upper_letter_def in_range_def regional_def)

lemma iso_of_letters:
  "list_all upper_letter code \<Longrightarrow> flag_iso (map (\<lambda>ch. regional_a + (of_char ch - 65)) code) = code"
  by (induction code) (auto simp: flag_iso_def upper_letter_def in_range_def)

lemma letters_of_iso:
  "list_all regional rs \<Longrightarrow>
   list_all upper_letter (flag_iso rs) \<and>
   map (\<lambda>ch. regional_a + (of_char ch - 65)) (flag_iso rs) = rs"
  by (induction rs) (auto simp: flag_iso_def upper_letter_def in_range_def regional_def regional_a_def)

lemma from_label_Some:
  "from_label label = Some i \<longleftrightarrow>
   (\<exists>flag en ru. flag_runes 2 label = Some flag \<and>
      map_of country_table (flag_iso flag) = Some (en, ru) \<and>
      i = \<lparr>ci_emoji = utf8 flag, ci_iso2 = flag_iso flag, ci_name_en = en, ci_name_ru = ru\<rparr>)"
  by (auto simp: from_label_def split: option.splits)

lemma from_label_flag:
  assumes "length flag = 2" "list_all regional flag"
  shows "from_label (utf8 flag @ rest) =
    map_option (\<lambda>(en, ru). \<lparr>ci_emoji = utf8 flag, ci_iso2 = flag_iso flag, ci_name_en = en, ci_name_ru = ru\<rparr>)
      (map_of country_table (flag_iso flag))"
  using flag_runes_utf8 [OF assms(2), of rest] assms(1)
  by (auto simp: from_label_def split: option.splits)

lemma from_iso2_eq:
  assumes "length code = 2" "list_all upper_letter code"
  shows "from_iso2 code = from_label (utf8 (map (\<lambda>ch. regional_a + (of_char ch - 65)) code) @ rest)"
proof -
  let ?fl = "map (\<lambda>ch. regional_a + (of_char ch - 65)) code"
  have "list_all regional ?fl" using assms(2) regional_of_letter by (auto simp: list_all_iff)
  then show ?thesis
    using assms from_label_flag [of ?fl rest] from_label_flag [of ?fl "[]"]
    by (simp add: from_iso2_def)
qed

text \<open>
  The codes a country filter may name are exactly those a flag can resolve to: the binary
  search over the sorted list of codes and the lookup of the code's flag in the name table agree.
\<close>

theorem supported_iff_resolves: "supported code \<longleftrightarrow> from_iso2 code \<noteq> None"
proof (cases "length code = 2 \<and> list_all upper_letter code")
  case True
  let ?fl = "map (\<lambda>ch. regional_a + (of_char ch - 65)) code"
  have "list_all regional ?fl" using True regional_of_letter by (auto simp: list_all_iff)
  with True have "from_iso2 code \<noteq> None \<longleftrightarrow> map_of country_table code \<noteq> None"
    using from_iso2_eq [of code "[]"] from_label_flag [of ?fl "[]"] by (simp add: iso_of_letters)
  then show ?thesis using map_of_table by blast
next
  case False
  then have "\<not> supported code"
    using codes_upper by (auto simp: supported_iff list_all_iff)
  with False show ?thesis by (auto simp: from_iso2_def)
qed

text \<open>
  A label resolves to a country exactly when it starts with the flag of a supported code, and
  then to the country of that code, whatever follows the flag.
\<close>

theorem label_resolves_by_flag:
  "from_label label = Some i \<longleftrightarrow> from_iso2 (ci_iso2 i) = Some i \<and> prefix (ci_emoji i) label"
proof
  assume "from_label label = Some i"
  then obtain flag en ru where fl: "flag_runes 2 label = Some flag"
    and i: "i = \<lparr>ci_emoji = utf8 flag, ci_iso2 = flag_iso flag, ci_name_en = en, ci_name_ru = ru\<rparr>"
    and tab: "map_of country_table (flag_iso flag) = Some (en, ru)"
    by (auto simp: from_label_Some)
  have f: "length flag = 2" "list_all regional flag" "prefix (utf8 flag) label"
    using flag_runes_Some [OF fl] by auto
  have "length (flag_iso flag) = 2" using f(1) by (simp add: flag_iso_def)
  then have "from_iso2 (flag_iso flag) = from_label (utf8 flag @ [])"
    using from_iso2_eq [of "flag_iso flag" "[]"] letters_of_iso [OF f(2)] by simp
  also have "\<dots> = Some i" using from_label_flag [OF f(1,2), of "[]"] tab i by simp
  finally show "from_iso2 (ci_iso2 i) = Some i \<and> prefix (ci_emoji i) label" using i f(3) by simp
next
  assume a: "from_iso2 (ci_iso2 i) = Some i \<and> prefix (ci_emoji i) label"
  let ?c = "ci_iso2 i" let ?fl = "map (\<lambda>ch. regional_a + (of_char ch - 65)) ?c"
  have c: "length ?c = 2" "list_all upper_letter ?c"
    using a by (auto simp: from_iso2_def split: if_splits)
  have reg: "list_all regional ?fl" using c(2) regional_of_letter by (auto simp: list_all_iff)
  have "from_label (utf8 ?fl @ []) = Some i"
    using a from_iso2_eq [OF c, of "[]"] by simp
  then have "Some i = map_option (\<lambda>(en, ru). \<lparr>ci_emoji = utf8 ?fl, ci_iso2 = flag_iso ?fl,
      ci_name_en = en, ci_name_ru = ru\<rparr>) (map_of country_table (flag_iso ?fl))"
    using from_label_flag [of ?fl "[]"] c(1) reg by (metis length_map)
  then have "ci_emoji i = utf8 ?fl"
    by (cases "map_of country_table (flag_iso ?fl)") (auto dest!: arg_cong [where f = ci_emoji])
  then obtain rest where "label = utf8 ?fl @ rest" using a by (auto elim: prefixE)
  then show "from_label label = Some i" using a from_iso2_eq [OF c, of rest] by simp
qed

end
