(* ===== verification/Scd_Text.thy ===== *)
theory Scd_Text
  imports Scd_Country
begin

text \<open>
  The functions of Go's \<^verbatim>\<open>strings\<close>, \<^verbatim>\<open>strconv\<close> and \<^verbatim>\<open>net/url\<close> that the link and tag code calls, on byte
  strings: splitting and cutting, trimming of Unicode space, case mapping, unescaping and parsing of
  numbers.

  The tables of Unicode (lower case and compatibility decomposition), SHA-256, the parsers of
  \<^verbatim>\<open>net/url\<close>, of JSON and of user ids, and the check of ML-KEM keys are the fields of a record
  \<open>text_lib\<close> that the code's model takes as an argument.
\<close>

section \<open>Runes\<close>

lemma decode_bytes_width: "bs \<noteq> [] \<Longrightarrow> 0 < snd (decode_bytes bs)"
  by (cases bs) (auto split: list.splits)

lemma decode_rune_width: "s \<noteq> '''' \<Longrightarrow> 0 < snd (decode_rune s)"
  by (simp add: decode_rune_def decode_bytes_width)

lemma decode_rune_shorter: "s \<noteq> '''' \<Longrightarrow> length (drop (snd (decode_rune s)) s) < length s"
  using decode_rune_width by (cases s) simp_all

text \<open>Ranging over a string.\<close>

function runes :: "string \<Rightarrow> nat list" where
  "runes s = (if s = '''' then [] else fst (decode_rune s) # runes (drop (snd (decode_rune s)) s))"
  by pat_completeness auto
termination
  by (relation "measure size") (use decode_rune_shorter in auto)

text \<open>\<^verbatim>\<open>strings.TrimLeftFunc\<close>.\<close>

function trim_left_func :: "(nat \<Rightarrow> bool) \<Rightarrow> string \<Rightarrow> string" where
  "trim_left_func p s =
     (if s = '''' then ''''
      else if p (fst (decode_rune s)) then trim_left_func p (drop (snd (decode_rune s)) s) else s)"
  by pat_completeness auto
termination
  by (relation "measure (\<lambda>(p, s). size s)") (use decode_rune_shorter in auto)

declare runes.simps [simp del] trim_left_func.simps [simp del]

text \<open>\<^verbatim>\<open>unicode.IsSpace\<close>, and the encodings of those runes.\<close>

definition unicode_space :: "nat \<Rightarrow> bool" where
  "unicode_space r \<longleftrightarrow>
     (if r < 128 then r \<in> {9, 10, 11, 12, 13, 32}
      else r \<in> {133, 160, 5760, 8192, 8193, 8194, 8195, 8196, 8197, 8198, 8199, 8200, 8201, 8202, 8232, 8233,
        8239, 8287, 12288})"

definition space_bytes :: "string list" where
  "space_bytes =
    [[CHR 0x09], [CHR 0x0A], [CHR 0x0B], [CHR 0x0C], [CHR 0x0D], [CHR 0x20], [CHR 0xC2, CHR 0x85],
     [CHR 0xC2, CHR 0xA0], [CHR 0xE1, CHR 0x9A, CHR 0x80], [CHR 0xE2, CHR 0x80, CHR 0x80],
     [CHR 0xE2, CHR 0x80, CHR 0x81], [CHR 0xE2, CHR 0x80, CHR 0x82], [CHR 0xE2, CHR 0x80, CHR 0x83],
     [CHR 0xE2, CHR 0x80, CHR 0x84], [CHR 0xE2, CHR 0x80, CHR 0x85], [CHR 0xE2, CHR 0x80, CHR 0x86],
     [CHR 0xE2, CHR 0x80, CHR 0x87], [CHR 0xE2, CHR 0x80, CHR 0x88], [CHR 0xE2, CHR 0x80, CHR 0x89],
     [CHR 0xE2, CHR 0x80, CHR 0x8A], [CHR 0xE2, CHR 0x80, CHR 0xA8], [CHR 0xE2, CHR 0x80, CHR 0xA9],
     [CHR 0xE2, CHR 0x80, CHR 0xAF], [CHR 0xE2, CHR 0x81, CHR 0x9F], [CHR 0xE3, CHR 0x80, CHR 0x80]]"

text \<open>
  \<^verbatim>\<open>strings.TrimSpace\<close>. From the right a string ends in a space exactly when it ends in the UTF-8
  encoding of one, because the encoding starts at the last byte that can start a rune.
\<close>

function trim_suffixes :: "string list \<Rightarrow> string \<Rightarrow> string" where
  "trim_suffixes ps s =
     (case List.find (\<lambda>p. p \<noteq> '''' \<and> suffix p s) ps of
        Some p \<Rightarrow> trim_suffixes ps (take (length s - length p) s)
      | None \<Rightarrow> s)"
  by pat_completeness auto
termination
proof (relation "measure (\<lambda>(ps, s). length s)")
  fix ps :: "string list" and s p :: string
  assume "List.find (\<lambda>p. p \<noteq> '''' \<and> suffix p s) ps = Some p"
  then have "p \<noteq> ''''" "suffix p s" using find_Some_set by fastforce+
  then have "0 < length p" "length p \<le> length s" using suffix_length_le by auto
  then have "length s - length p < length s" by linarith
  then show "((ps, take (length s - length p) s), ps, s) \<in> measure (\<lambda>(ps, s). length s)" by auto
qed simp

declare trim_suffixes.simps [simp del]

definition trim_space :: "string \<Rightarrow> string" where
  "trim_space s = trim_suffixes space_bytes (trim_left_func unicode_space s)"

lemma space_bytes_runes:
  "space_bytes = map encode_rune [9, 10, 11, 12, 13, 32, 133, 160, 5760, 8192, 8193, 8194, 8195, 8196, 8197, 8198,
     8199, 8200, 8201, 8202, 8232, 8233, 8239, 8287, 12288]"
  by (simp add: space_bytes_def encode_rune_def in_range_def char_of_def bit_iff_odd)

section \<open>Splitting and joining\<close>

fun split_on :: "char \<Rightarrow> string \<Rightarrow> string list" where
  "split_on c [] = [[]]"
| "split_on c (x # xs) =
     (if x = c then [] # split_on c xs
      else case split_on c xs of y # ys \<Rightarrow> (x # y) # ys | [] \<Rightarrow> [[x]])"

fun join_with :: "string \<Rightarrow> string list \<Rightarrow> string" where
  "join_with sep [] = ''''"
| "join_with sep [x] = x"
| "join_with sep (x # xs) = x @ sep @ join_with sep xs"

text \<open>\<^verbatim>\<open>strings.Cut\<close> at a character: before, after (empty when it is absent).\<close>

fun cut_at :: "char \<Rightarrow> string \<Rightarrow> string \<times> string" where
  "cut_at c [] = ([], [])"
| "cut_at c (x # xs) = (if x = c then ([], xs) else let (a, b) = cut_at c xs in (x # a, b))"

text \<open>\<^verbatim>\<open>splitList\<close> of \<^verbatim>\<open>outbound\<close> and of \<^verbatim>\<open>normalize\<close>.\<close>

definition split_list :: "string \<Rightarrow> string list" where
  "split_list v = filter (\<lambda>s. s \<noteq> '''') (map trim_space (split_on CHR '','' v))"

lemma split_on_nonempty [simp]: "split_on c s \<noteq> []"
  by (induction s) (auto split: list.splits)

lemma split_on_join: "join_with [c] (split_on c s) = s"
proof (induction s)
  case (Cons x xs)
  obtain y ys where "split_on c xs = y # ys" by (meson list.exhaust split_on_nonempty)
  with Cons show ?case by (cases ys) auto
qed simp

lemma split_on_free: "x \<in> set (split_on c s) \<Longrightarrow> c \<notin> set x"
  by (induction s arbitrary: x) (auto split: list.splits if_splits)

lemma cut_at_append: "cut_at c s = (a, b) \<Longrightarrow> c \<notin> set a \<and> (c \<in> set s \<and> s = a @ c # b \<or> c \<notin> set s \<and> a = s \<and> b = [])"
  by (induction s arbitrary: a b) (auto split: prod.splits if_splits)

section \<open>Numbers\<close>

definition is_digit :: "char \<Rightarrow> bool" where
  "is_digit ch \<longleftrightarrow> (of_char ch :: nat) \<in> {48..57}"

definition digits_value :: "string \<Rightarrow> int" where
  "digits_value s = foldl (\<lambda>n ch. n * 10 + (of_char ch - 48)) 0 s"

text \<open>\<^verbatim>\<open>strconv.ParseUint(s, 10, 32)\<close> and \<^verbatim>\<open>strconv.Atoi\<close> (64 bits); \<open>None\<close> is an error.\<close>

definition parse_uint32 :: "string \<Rightarrow> int option" where
  "parse_uint32 s =
     (if s \<noteq> '''' \<and> list_all is_digit s \<and> digits_value s < 2 ^ 32 then Some (digits_value s) else None)"

definition atoi :: "string \<Rightarrow> int option" where
  "atoi s =
     (let (neg, ds) = (case s of
          ch # cs \<Rightarrow> if ch = CHR ''-'' then (True, cs) else if ch = CHR ''+'' then (False, cs) else (False, s)
        | [] \<Rightarrow> (False, []));
          v = digits_value ds
      in if ds = '''' \<or> \<not> list_all is_digit ds then None
         else if neg then (if v \<le> 2 ^ 63 then Some (- v) else None)
         else if v < 2 ^ 63 then Some v else None)"

section \<open>Unescaping\<close>

definition hex_value :: "char \<Rightarrow> nat option" where
  "hex_value ch =
     (let n = of_char ch :: nat in
      if n \<in> {48..57} then Some (n - 48) else if n \<in> {97..102} then Some (n - 87)
      else if n \<in> {65..70} then Some (n - 55) else None)"

text \<open>\<^verbatim>\<open>url.QueryUnescape\<close> (\<open>query\<close>) and \<^verbatim>\<open>url.PathUnescape\<close>; \<open>None\<close> is an error.\<close>

fun unescape :: "bool \<Rightarrow> string \<Rightarrow> string option" where
  "unescape query [] = Some []"
| "unescape query (x # xs) =
     (if x = CHR ''%''
      then (case xs of
          a # b # ys \<Rightarrow>
            (case (hex_value a, hex_value b) of
               (Some h, Some l) \<Rightarrow> map_option (Cons (char_of (h * 16 + l))) (unescape query ys)
             | _ \<Rightarrow> None)
        | _ \<Rightarrow> None)
      else map_option (Cons (if query \<and> x = CHR ''+'' then CHR '' '' else x)) (unescape query xs))"

text \<open>\<^verbatim>\<open>strings.ToValidUTF8\<close>: a run of invalid bytes becomes one replacement.\<close>

function valid_utf8 :: "bool \<Rightarrow> string \<Rightarrow> string" where
  "valid_utf8 bad s =
     (if s = '''' then ''''
      else let (r, n) = decode_rune s in
        if r = rune_error \<and> n = 1
        then (if bad then '''' else encode_rune rune_error) @ valid_utf8 True (drop 1 s)
        else take n s @ valid_utf8 False (drop n s))"
  by pat_completeness auto
termination
proof (relation "measure (\<lambda>(b, s). size s)")
  fix s :: string and x r n
  assume a: "s \<noteq> ''''" "x = decode_rune s" "(r, n) = x" "\<not> (r = rune_error \<and> n = 1)"
  then have "n = snd (decode_rune s)" by (metis snd_conv)
  then show "((False, drop n s), bad, s) \<in> measure (\<lambda>(b, s). size s)" for bad
    using decode_rune_shorter [OF a(1)] by simp
qed auto

declare valid_utf8.simps [simp del]

section \<open>The library argument\<close>

text \<open>What \<^verbatim>\<open>net/url\<close> makes of a URL without its fragment.\<close>

record url =
  u_scheme :: string
  u_user :: string
  u_host :: string
  u_hostname :: string
  u_port :: string
  u_query :: string

record text_lib =
  lib_lower :: "nat \<Rightarrow> nat"
  lib_nfkd :: "string \<Rightarrow> string"
  lib_sha256 :: "string \<Rightarrow> string"
  lib_url :: "string \<Rightarrow> url option"
  lib_json :: "string \<Rightarrow> bool"
  lib_uuid :: "string \<Rightarrow> string option"
  lib_base64url :: "string \<Rightarrow> string option"
  lib_x25519 :: "string \<Rightarrow> bool"
  lib_mlkem768 :: "string \<Rightarrow> bool"
  lib_padding :: "string \<Rightarrow> bool"

text \<open>\<^verbatim>\<open>strings.ToLower\<close>: ASCII here, the rest by the table.\<close>

definition lower_rune :: "text_lib \<Rightarrow> nat \<Rightarrow> nat" where
  "lower_rune lib r = (if r < 128 then (if 65 \<le> r \<and> r \<le> 90 then r + 32 else r) else lib_lower lib r)"

definition to_lower :: "text_lib \<Rightarrow> string \<Rightarrow> string" where
  "to_lower lib s = utf8 (map (lower_rune lib) (runes s))"

definition lower_char :: "char \<Rightarrow> bool" where
  "lower_char ch \<longleftrightarrow> (of_char ch :: nat) < 128 \<and> \<not> (65 \<le> (of_char ch :: nat) \<and> (of_char ch :: nat) \<le> 90)"

lemma runes_Nil [simp]: "runes '''' = []"
  by (simp add: runes.simps)

lemma runes_ascii [simp]: "(of_char ch :: nat) < 128 \<Longrightarrow> runes (ch # s) = of_char ch # runes s"
  by (subst runes.simps) (simp add: decode_rune_def)

lemma to_lower_id: "list_all lower_char s \<Longrightarrow> to_lower lib s = s"
proof (induction s)
  case (Cons ch s)
  then show ?case by (auto simp: to_lower_def lower_char_def lower_rune_def utf8_def encode_rune_def)
qed (simp add: to_lower_def utf8_def)

end
