(* ===== verification/Scd_Link.thy ===== *)
theory Scd_Link
  imports Scd_Text
begin

text \<open>
  Lines of a subscription (\<^verbatim>\<open>internal/common/subscription\<close>) and VLESS share links
  (\<^verbatim>\<open>internal/common/vless\<close>): a line is a link with its known parameters, or a skip that says why not.
\<close>

section \<open>Lines\<close>

record line =
  ln_number :: int
  ln_raw :: string
  ln_trimmed :: string

definition trim_cr :: "string \<Rightarrow> string" where
  "trim_cr s = (case cut_suffix s [CHR 0x0D] of Some r \<Rightarrow> r | None \<Rightarrow> s)"

definition scan_lines :: "string \<Rightarrow> line list" where
  "scan_lines text =
     filter (\<lambda>l. ln_trimmed l \<noteq> '''')
       (map (\<lambda>(i, raw). \<lparr>ln_number = int i + 1, ln_raw = trim_cr raw, ln_trimmed = trim_space (trim_cr raw)\<rparr>)
         (enumerate 0 (split_on CHR 0x0A text)))"

section \<open>Links\<close>

record skip =
  sk_line :: int
  sk_raw :: string
  sk_label :: "string option"
  sk_code :: string
  sk_reason :: string
  sk_details :: "string list"

record link =
  lk_line :: int
  lk_raw :: string
  lk_label :: string
  lk_id :: string
  lk_address :: string
  lk_port :: int
  lk_params :: "(string \<times> string) list"
  lk_ignored :: "string list"

definition allowed_params :: "string list" where
  "allowed_params =
     [''type'', ''security'', ''encryption'', ''flow'', ''sni'', ''fp'', ''alpn'', ''pcs'', ''vcn'', ''ech'',
      ''pbk'', ''sid'', ''spx'', ''pqv'', ''allowinsecure'', ''headertype'', ''host'', ''path'', ''mode'',
      ''extra'', ''fm'', ''cs'', ''heartbeatperiod'', ''servicename'', ''authority'', ''seed'', ''mtu'',
      ''tti'', ''support-x25519mlkem768'', ''x_padding_bytes'']"

definition link_get :: "text_lib \<Rightarrow> link \<Rightarrow> string \<Rightarrow> string option" where
  "link_get lib l key = map_of (lk_params l) (to_lower lib key)"

definition unescape_query :: "string \<Rightarrow> string" where
  "unescape_query s = (case unescape True s of Some d \<Rightarrow> d | None \<Rightarrow> s)"

fun parse_params ::
    "text_lib \<Rightarrow> string list \<Rightarrow> (string \<times> string) list \<Rightarrow> string list \<Rightarrow> (string \<times> string) list \<times> string list" where
  "parse_params lib [] params ignored = (params, ignored)"
| "parse_params lib (seg # segs) params ignored =
     (if seg = '''' then parse_params lib segs params ignored
      else let (k, v) = cut_at CHR ''='' seg; key = to_lower lib (unescape_query k); val = unescape_query v
        in if key \<notin> set allowed_params
           then parse_params lib segs params (if key \<in> set ignored then ignored else ignored @ [key])
           else parse_params lib segs (AList.update key val params) ignored)"

definition parse_query :: "text_lib \<Rightarrow> string \<Rightarrow> (string \<times> string) list \<times> string list" where
  "parse_query lib raw = parse_params lib (split_on CHR ''&'' raw) [] []"

definition parse_link :: "text_lib \<Rightarrow> line \<Rightarrow> skip + link" where
  "parse_link lib l =
     (let skip = (\<lambda>code reason label.
          Inl \<lparr>sk_line = ln_number l, sk_raw = ln_raw l, sk_label = label, sk_code = code, sk_reason = reason,
            sk_details = []\<rparr>)
      in if \<not> sublist ''://'' (ln_trimmed l)
         then skip ''unsupported_scheme'' ''The line does not contain a supported URI scheme.'' None
         else let (rest, frag) = cut_at CHR ''#'' (ln_trimmed l) in
         case lib_url lib rest of
           None \<Rightarrow> skip ''invalid_uri'' ''The line is not a valid URI.'' None
         | Some u \<Rightarrow>
         if u_scheme u \<noteq> ''vless''
         then skip ''unsupported_scheme'' (''Unsupported scheme \"'' @ u_scheme u @ '':\".'') None
         else case unescape False frag of
           None \<Rightarrow> skip ''invalid_uri'' ''The line label is not valid percent-encoding.'' None
         | Some decoded \<Rightarrow>
         let label = valid_utf8 False decoded in
         if u_user u = ''''
         then skip ''missing_required_field'' ''The VLESS URI does not contain a user id.'' (Some label)
         else if (CHR '':'' \<in> set (u_hostname u) \<and> \<not> prefix ''['' (u_host u)) \<or> CHR ''%'' \<in> set (u_hostname u)
         then skip ''invalid_uri'' ''The line is not a valid URI.'' None
         else case (if u_hostname u = '''' then None else atoi (u_port u)) of
           None \<Rightarrow> skip ''missing_required_field'' ''The VLESS URI does not contain a valid address and port.'' (Some label)
         | Some port \<Rightarrow>
         if port < 1 \<or> port > 65535
         then skip ''missing_required_field'' ''The VLESS URI does not contain a valid address and port.'' (Some label)
         else let (params, ignored) = parse_query lib (u_query u) in
           Inr \<lparr>lk_line = ln_number l, lk_raw = ln_raw l, lk_label = label, lk_id = u_user u,
             lk_address = u_hostname u, lk_port = port, lk_params = params, lk_ignored = ignored\<rparr>)"

section \<open>Lemmas\<close>

lemma scan_lines_trimmed: "l \<in> set (scan_lines text) \<Longrightarrow> ln_trimmed l \<noteq> ''''"
  by (auto simp: scan_lines_def)

lemma parse_params_inv:
  "parse_params lib segs params ignored = (params', ignored') \<Longrightarrow>
   distinct (map fst params) \<and> set (map fst params) \<subseteq> set allowed_params \<and>
   distinct ignored \<and> set ignored \<inter> set allowed_params = {} \<Longrightarrow>
   distinct (map fst params') \<and> set (map fst params') \<subseteq> set allowed_params \<and>
   distinct ignored' \<and> set ignored' \<inter> set allowed_params = {}"
proof (induction segs arbitrary: params ignored)
  case (Cons seg segs)
  show ?case
  proof (cases "seg = ''''")
    case True
    then show ?thesis using Cons by simp
  next
    case False
    obtain k v where kv: "cut_at CHR ''='' seg = (k, v)" by fastforce
    let ?key = "to_lower lib (unescape_query k)" and ?val = "unescape_query v"
    show ?thesis
    proof (cases "?key \<in> set allowed_params")
      case True
      then have "parse_params lib segs (AList.update ?key ?val params) ignored = (params', ignored')"
        using Cons.prems(1) False kv by simp
      moreover have "distinct (map fst (AList.update ?key ?val params))"
        using Cons.prems(2) by (simp add: distinct_update)
      moreover have "set (map fst (AList.update ?key ?val params)) \<subseteq> set allowed_params"
        using Cons.prems(2) True by (simp add: update_keys) 
      ultimately show ?thesis using Cons.IH Cons.prems(2) by blast
    next
      case out: False
      let ?ig = "if ?key \<in> set ignored then ignored else ignored @ [?key]"
      have "parse_params lib segs params ?ig = (params', ignored')"
        using Cons.prems(1) False kv out by (simp add: Let_def)
      moreover have "distinct ?ig \<and> set ?ig \<inter> set allowed_params = {}" using Cons.prems(2) out by auto
      ultimately show ?thesis using Cons.IH Cons.prems(2) by blast
    qed
  qed
qed simp

end
