(* ===== verification/Scd_Outbound.thy ===== *)
theory Scd_Outbound
  imports Scd_Text
begin

text \<open>
  The Xray outbounds of \<^verbatim>\<open>internal/scd/outbound\<close>: the JSON form of a VLESS link and of the two
  candidate kinds, built from a normalized link, retagged, and changed for one target.

  Turning an outbound into the protobuf handler is xray-core's \<^verbatim>\<open>conf.Build\<close>, which is not in the
  repository: \<open>to_proto\<close> is an argument of what uses it, and \<open>proto_ok\<close> states that the handler
  carries the tag of the outbound it was built from.
\<close>

section \<open>Normalized links\<close>

text \<open>\<^verbatim>\<open>normalize.Normalized\<close>. A raw JSON message is its text; \<open>None\<close> is an absent one.\<close>

record normalized =
  n_kind :: string
  n_protocol :: string
  n_profile :: string
  n_tag :: string
  n_line :: int
  n_raw :: string
  n_label :: string
  n_address :: string
  n_port :: int
  n_uuid :: string
  n_encryption :: string
  n_network :: string
  n_security :: string
  n_flow :: string
  n_alpn :: "string list"
  n_sni :: string
  n_host :: string
  n_path :: string
  n_fingerprint :: string
  n_allow_insecure :: "bool option"
  n_header_type :: "string option"
  n_public_key :: string
  n_short_id :: string
  n_spider_x :: string
  n_mldsa65 :: string
  n_pinned_certs :: "string list"
  n_verify_names :: "string list"
  n_ech :: string
  n_cipher_suites :: string
  n_heartbeat :: int
  n_xhttp_mode :: string
  n_xhttp_extra :: "string option"
  n_final_mask :: "string option"
  n_country :: "country_info option"
  n_city :: string
  n_query :: "(string \<times> string) list"

section \<open>VLESS outbounds\<close>

record user =
  u_id :: string
  u_encryption :: string
  u_flow :: string
  u_email :: string

record vserver =
  v_address :: string
  v_port :: int
  v_users :: "user list"

record tls_settings =
  tls_server_name :: string
  tls_alpn :: "string list"
  tls_fingerprint :: string
  tls_pinned :: string
  tls_verify :: string
  tls_ech :: string
  tls_ciphers :: string

record reality_settings =
  re_server_name :: string
  re_fingerprint :: string
  re_password :: string
  re_short_id :: string
  re_spider_x :: string
  re_mldsa65 :: string

text \<open>The http header request: the paths, and the values of the only header written, Host.\<close>

record header_request =
  hr_path :: "string list"
  hr_hosts :: "string list option"

record tcp_header =
  th_type :: string
  th_request :: "header_request option"

record ws_settings =
  ws_path :: string
  ws_host :: string
  ws_heartbeat :: int

record xhttp_settings =
  xh_path :: string
  xh_host :: string
  xh_mode :: string
  xh_extra :: "string option"

record stream_settings =
  ss_network :: string
  ss_security :: string
  ss_tls :: "tls_settings option"
  ss_reality :: "reality_settings option"
  ss_tcp :: "tcp_header option"
  ss_ws :: "ws_settings option"
  ss_xhttp :: "xhttp_settings option"
  ss_final_mask :: "string option"

record vless_outbound =
  vo_tag :: string
  vo_protocol :: string
  vo_vnext :: "vserver list"
  vo_stream :: stream_settings

section \<open>Candidate outbounds\<close>

record wg_peer =
  wp_public_key :: string
  wp_preshared :: string
  wp_endpoint :: string
  wp_keepalive :: int
  wp_allowed_ips :: "string list"

record wg_outbound =
  wo_tag :: string
  wo_protocol :: string
  wo_secret_key :: string
  wo_address :: "string list"
  wo_peers :: "wg_peer list"
  wo_mtu :: int
  wo_reserved :: "int list"
  wo_no_kernel_tun :: bool
  wo_remote_dns :: "string list"
  wo_domain_strategy :: string
  wo_dialer_proxy :: string

record masque_outbound =
  mo_tag :: string
  mo_protocol :: string
  mo_address :: string
  mo_port :: int
  mo_remote_dns :: "string list"
  mo_network :: string
  mo_private_key :: string
  mo_public_key :: string
  mo_device_address :: "string list"
  mo_security :: string
  mo_server_name :: string
  mo_alpn :: "string list"
  mo_dialer_proxy :: "string option"

text \<open>The \<^verbatim>\<open>Spec\<close> interface and its three implementations.\<close>

datatype spec = Vless vless_outbound | WireGuard wg_outbound | Masque masque_outbound

fun get_tag :: "spec \<Rightarrow> string" where
  "get_tag (Vless o1) = vo_tag o1"
| "get_tag (WireGuard w) = wo_tag w"
| "get_tag (Masque m) = mo_tag m"

definition vless_with_tag :: "vless_outbound \<Rightarrow> string \<Rightarrow> vless_outbound" where
  "vless_with_tag o1 tag =
     o1\<lparr>vo_tag := tag,
       vo_vnext := map (\<lambda>v. v\<lparr>v_users := map (\<lambda>u. u\<lparr>u_email := tag\<rparr>) (v_users v)\<rparr>) (vo_vnext o1)\<rparr>"

fun with_tag :: "spec \<Rightarrow> string \<Rightarrow> spec" where
  "with_tag (Vless o1) tag = Vless (vless_with_tag o1 tag)"
| "with_tag (WireGuard w) tag = WireGuard (w\<lparr>wo_tag := tag\<rparr>)"
| "with_tag (Masque m) tag = Masque (m\<lparr>mo_tag := tag\<rparr>)"

section \<open>Building\<close>

definition build_tcp :: "normalized \<Rightarrow> tcp_header option" where
  "build_tcp n =
     (case n_header_type n of
        None \<Rightarrow> None
      | Some ty \<Rightarrow>
          if ty = '''' \<or> ty = ''none'' then None
          else if ty = ''http''
          then let hosts = split_list (n_host n) in
               Some \<lparr>th_type = ty,
                 th_request = Some \<lparr>hr_path = split_list (n_path n),
                   hr_hosts = (if hosts \<noteq> [] then Some hosts else None)\<rparr>\<rparr>
          else Some \<lparr>th_type = ty, th_request = None\<rparr>)"

definition build_stream :: "normalized \<Rightarrow> stream_settings" where
  "build_stream n =
     \<lparr>ss_network = n_network n, ss_security = n_security n,
      ss_tls =
        (if n_security n = ''tls''
         then Some \<lparr>tls_server_name = n_sni n, tls_alpn = n_alpn n, tls_fingerprint = n_fingerprint n,
                tls_pinned = join_with '','' (n_pinned_certs n), tls_verify = join_with '','' (n_verify_names n),
                tls_ech = n_ech n, tls_ciphers = n_cipher_suites n\<rparr>
         else None),
      ss_reality =
        (if n_security n = ''reality''
         then Some \<lparr>re_server_name = n_sni n, re_fingerprint = n_fingerprint n,
                re_password = n_public_key n, re_short_id = n_short_id n, re_spider_x = n_spider_x n,
                re_mldsa65 = n_mldsa65 n\<rparr>
         else None),
      ss_tcp = (if n_network n = ''tcp'' then build_tcp n else None),
      ss_ws =
        (if n_network n = ''ws''
         then Some \<lparr>ws_path = n_path n, ws_host = n_host n, ws_heartbeat = n_heartbeat n\<rparr> else None),
      ss_xhttp =
        (if n_network n = ''xhttp''
         then Some \<lparr>xh_path = n_path n, xh_host = n_host n, xh_mode = n_xhttp_mode n,
                xh_extra = n_xhttp_extra n\<rparr> else None),
      ss_final_mask = n_final_mask n\<rparr>"

definition build_vless :: "normalized \<Rightarrow> vless_outbound" where
  "build_vless n =
     \<lparr>vo_tag = n_tag n, vo_protocol = ''vless'',
      vo_vnext = [\<lparr>v_address = n_address n, v_port = n_port n,
        v_users = [\<lparr>u_id = n_uuid n, u_encryption = n_encryption n, u_flow = n_flow n, u_email = n_tag n\<rparr>]\<rparr>],
      vo_stream = build_stream n\<rparr>"

text \<open>\<^verbatim>\<open>ForTarget\<close>: the tag, and the UDP/443 variant of the vision flow of a REALITY link.\<close>

definition flow_vision :: string where "flow_vision = ''xtls-rprx-vision''"
definition flow_vision_udp443 :: string where "flow_vision_udp443 = ''xtls-rprx-vision-udp443''"

definition for_target :: "normalized \<Rightarrow> string \<Rightarrow> bool \<Rightarrow> normalized" where
  "for_target n tag ov =
     (let n1 = n\<lparr>n_tag := tag\<rparr>
      in if ov \<and> n_security n1 = ''reality'' \<and> n_flow n1 = flow_vision
         then n1\<lparr>n_flow := flow_vision_udp443\<rparr> else n1)"

lemma get_with_tag [simp]: "get_tag (with_tag s tag) = tag"
  by (cases s) (simp_all add: vless_with_tag_def)

lemma with_tag_twice [simp]: "with_tag (with_tag s a) b = with_tag s b"
  by (cases s) (simp_all add: vless_with_tag_def comp_def)

lemma tag_of_build [simp]: "vo_tag (build_vless n) = n_tag n"
  by (simp add: build_vless_def)

lemma tag_for_target [simp]: "n_tag (for_target n tag ov) = tag"
  by (simp add: for_target_def Let_def)

lemma build_tcp_upd [simp]:
  "build_tcp (n\<lparr>n_tag := tag\<rparr>) = build_tcp n" "build_tcp (n\<lparr>n_flow := fl\<rparr>) = build_tcp n"
  by (auto simp: build_tcp_def Let_def split: option.split)

lemma build_stream_upd [simp]:
  "build_stream (n\<lparr>n_tag := tag\<rparr>) = build_stream n" "build_stream (n\<lparr>n_flow := fl\<rparr>) = build_stream n"
  by (simp_all add: build_stream_def)

lemma build_retag: "vless_with_tag (build_vless n) tag = build_vless (n\<lparr>n_tag := tag\<rparr>)"
  by (simp add: build_vless_def vless_with_tag_def)

text \<open>
  Preparing a VLESS link for a target changes nothing but the tag (also written as the user's
  email) and, with the override, the vision flow of a REALITY link; a TLS link keeps its flow.
\<close>

theorem for_target_changes:
  "build_vless (for_target n tag ov) =
     (let o1 = vless_with_tag (build_vless n) tag
      in if ov \<and> n_security n = ''reality'' \<and> n_flow n = flow_vision
         then o1\<lparr>vo_vnext := map (\<lambda>v. v\<lparr>v_users := map (\<lambda>u. u\<lparr>u_flow := flow_vision_udp443\<rparr>) (v_users v)\<rparr>)
                  (vo_vnext o1)\<rparr>
         else o1)"
  by (simp add: build_retag for_target_def Let_def) (simp add: build_vless_def)

text \<open>
  Only the sections of the link's network and security are written, so an outbound never
  carries TLS and REALITY settings, or two transports, at once.
\<close>

theorem stream_sections:
  "(ss_tls (build_stream n) \<noteq> None \<longleftrightarrow> n_security n = ''tls'') \<and>
   (ss_reality (build_stream n) \<noteq> None \<longleftrightarrow> n_security n = ''reality'') \<and>
   (ss_ws (build_stream n) \<noteq> None \<longleftrightarrow> n_network n = ''ws'') \<and>
   (ss_xhttp (build_stream n) \<noteq> None \<longleftrightarrow> n_network n = ''xhttp'') \<and>
   (ss_tcp (build_stream n) \<noteq> None \<longleftrightarrow> n_network n = ''tcp'' \<and> (\<exists>ty. n_header_type n = Some ty \<and> ty \<notin> {'''', ''none''}))"
  by (auto simp: build_stream_def build_tcp_def Let_def split: option.splits)

text \<open>The handler of an outbound, built by xray-core; a build error names the outbound.\<close>

definition proto_ok :: "(spec \<Rightarrow> 'e + 'h) \<Rightarrow> ('h \<Rightarrow> string) \<Rightarrow> bool" where
  "proto_ok to_proto tag_of \<longleftrightarrow> (\<forall>s h. to_proto s = Inr h \<longrightarrow> tag_of h = get_tag s)"

end
