(* ===== verification/Scd_Normalize.thy ===== *)
theory Scd_Normalize
  imports Scd_Link Scd_Outbound
begin

text \<open>
  The normalizer of VLESS links (\<^verbatim>\<open>internal/scd/normalize\<close>): the scope of supported transports and
  securities, the checks of encryption, user id, flow and \<^verbatim>\<open>allowInsecure\<close>, the fields of each
  security and transport, and the tag. The lemmas show that an accepted link is in the scope and that
  its tag lies in the namespace of its source.
\<close>

section \<open>Tags\<close>

definition regional_indicator :: "nat \<Rightarrow> bool" where
  "regional_indicator r \<longleftrightarrow> 127462 \<le> r \<and> r \<le> 127487"

text \<open>\<^verbatim>\<open>InferCity\<close>.\<close>

definition infer_city :: "text_lib \<Rightarrow> string \<Rightarrow> string option" where
  "infer_city lib label =
     (let s = trim_space (trim_left_func (\<lambda>r. regional_indicator r \<or> unicode_space r) label) in
      if s = '''' then None
      else let s1 = (if CHR '','' \<in> set s then trim_space (fst (cut_at CHR '','' s)) else s) in
        if s1 = '''' \<or> sublist ''extra'' (to_lower lib s1) then None else Some s1)"

text \<open>\<^verbatim>\<open>Slugify\<close>: \<open>gap\<close> says that the last rune was no slug character (its dash is written).\<close>

definition slug_rune :: "nat \<Rightarrow> bool" where
  "slug_rune r \<longleftrightarrow> 97 \<le> r \<and> r \<le> 122 \<or> 48 \<le> r \<and> r \<le> 57"

fun dash_runs :: "bool \<Rightarrow> nat list \<Rightarrow> string" where
  "dash_runs gap [] = ''''"
| "dash_runs gap (r # rs) =
     (if slug_rune r then char_of r # dash_runs False rs
      else (if gap then '''' else ''-'') @ dash_runs True rs)"

definition trim_dash :: "string \<Rightarrow> string" where
  "trim_dash s = rev (dropWhile (\<lambda>ch. ch = CHR ''-'') (rev (dropWhile (\<lambda>ch. ch = CHR ''-'') s)))"

definition slugify :: "text_lib \<Rightarrow> string \<Rightarrow> string" where
  "slugify lib s =
     (let d = utf8 (filter (\<lambda>r. \<not> (768 \<le> r \<and> r \<le> 879)) (runes (lib_nfkd lib s)))
      in take 32 (trim_dash (dash_runs False (runes (to_lower lib d)))))"

definition sha8 :: "text_lib \<Rightarrow> string \<Rightarrow> string" where
  "sha8 lib s = take 8 (lib_sha256 lib s)"

definition tag_of :: "text_lib \<Rightarrow> string \<Rightarrow> string \<Rightarrow> string \<Rightarrow> string \<Rightarrow> string \<Rightarrow> string" where
  "tag_of lib pre label address profile hash =
     (let cc = (case from_label label of Some i \<Rightarrow> to_lower lib (ci_iso2 i) | None \<Rightarrow> ''xx'');
          city = (case infer_city lib label of
              Some c \<Rightarrow> (if slugify lib c = '''' then sha8 lib c else slugify lib c)
            | None \<Rightarrow> '''');
          place = (if city \<noteq> '''' then city else slugify lib address);
          slug = (if place \<noteq> '''' then place else ''endpoint'')
      in pre @ ''-'' @ cc @ ''-'' @ slug @ ''-'' @ profile @ ''-'' @ hash)"

definition build_tag :: "text_lib \<Rightarrow> string \<Rightarrow> string \<Rightarrow> string \<Rightarrow> string \<Rightarrow> string \<Rightarrow> string" where
  "build_tag lib pre label address profile raw = tag_of lib pre label address profile (sha8 lib raw)"

definition build_candidate_tag :: "text_lib \<Rightarrow> string \<Rightarrow> string \<Rightarrow> string \<Rightarrow> string \<Rightarrow> string \<Rightarrow> string" where
  "build_candidate_tag lib pre label host profile hash = tag_of lib pre label host profile hash"

section \<open>Scope\<close>

text \<open>A scope is the network and the security.\<close>

record scope =
  sc_network :: string
  sc_security :: string

definition get_or_empty :: "text_lib \<Rightarrow> link \<Rightarrow> string \<Rightarrow> string" where
  "get_or_empty lib l key = (case link_get lib l key of Some v \<Rightarrow> v | None \<Rightarrow> '''')"

definition resolve_scope :: "text_lib \<Rightarrow> link \<Rightarrow> bool \<Rightarrow> scope option" where
  "resolve_scope lib l mlkem =
     (let typ = to_lower lib (get_or_empty lib l ''type'');
          sec = to_lower lib (get_or_empty lib l ''security'');
          network = (if typ \<in> {'''', ''raw''} then ''tcp'' else typ);
          security = (if sec = '''' then ''none'' else sec)
      in if network \<notin> {''tcp'', ''ws'', ''xhttp''} \<or> security \<notin> {''none'', ''tls'', ''reality''} then None
         else if network = ''ws'' \<and> security = ''reality'' then None
         else if security = ''none'' \<and> \<not> mlkem then None
         else Some \<lparr>sc_network = network, sc_security = security\<rparr>)"

definition combo_details :: "text_lib \<Rightarrow> link \<Rightarrow> string list" where
  "combo_details lib l =
     [''type='' @ (case link_get lib l ''type'' of Some v \<Rightarrow> v | None \<Rightarrow> ''tcp''),
      ''security='' @ get_or_empty lib l ''security'', ''flow='' @ get_or_empty lib l ''flow'']"

definition profile_of :: "scope \<Rightarrow> string \<Rightarrow> string" where
  "profile_of sc flow =
     sc_network sc @ ''-'' @ (if sc_security sc = ''none'' then ''mlkem'' else sc_security sc) @
     (if sc_security sc = ''reality'' \<and> flow \<noteq> '''' then ''-vision'' else '''')"

definition vision_allowed :: "scope \<Rightarrow> bool \<Rightarrow> bool" where
  "vision_allowed sc mlkem \<longleftrightarrow> mlkem \<or> sc_network sc = ''tcp'' \<and> sc_security sc \<in> {''tls'', ''reality''}"

text \<open>\<^verbatim>\<open>truncate\<close>: \<open>n\<close> runes, a cut is marked with an ellipsis.\<close>

definition truncate_runes :: "string \<Rightarrow> nat \<Rightarrow> string" where
  "truncate_runes s n = (if length (runes s) \<le> n then s else utf8 (take n (runes s) @ [8230]))"

section \<open>ML-KEM encryption\<close>

definition mlkem_prefix :: string where "mlkem_prefix = ''mlkem768x25519plus.''"

definition is_mlkem :: "string \<Rightarrow> bool" where
  "is_mlkem enc \<longleftrightarrow> prefix mlkem_prefix enc"

definition key_ok :: "text_lib \<Rightarrow> string \<Rightarrow> bool" where
  "key_ok lib seg =
     (case lib_base64url lib seg of
        None \<Rightarrow> False
      | Some b \<Rightarrow>
          if length b = 32 then lib_x25519 lib b else if length b = 1184 then lib_mlkem768 lib b else False)"

text \<open>The segment loop of \<^verbatim>\<open>validateMLKEM\<close>: the padding so far and the number of keys, \<open>None\<close> for an error.\<close>

fun mlkem_segments :: "text_lib \<Rightarrow> string list \<Rightarrow> string list \<Rightarrow> nat \<Rightarrow> (string list \<times> nat) option" where
  "mlkem_segments lib [] padding keys = Some (padding, keys)"
| "mlkem_segments lib (seg # segs) padding keys =
     (if length seg < 20
      then (if keys > 0 then None else mlkem_segments lib segs (padding @ [seg]) keys)
      else if key_ok lib seg then mlkem_segments lib segs padding (Suc keys) else None)"

definition validate_mlkem :: "text_lib \<Rightarrow> string \<Rightarrow> bool" where
  "validate_mlkem lib enc =
     (let parts = split_on CHR ''.'' enc in
      if length parts < 4 then True
      else case mlkem_segments lib (drop 3 parts) [] 0 of
          None \<Rightarrow> False
        | Some (padding, keys) \<Rightarrow> keys \<noteq> 0 \<and> lib_padding lib (join_with ''.'' padding))"

section \<open>Security and transport\<close>

definition link_skip :: "link \<Rightarrow> string \<Rightarrow> string \<Rightarrow> string list \<Rightarrow> skip" where
  "link_skip l code reason details =
     \<lparr>sk_line = lk_line l, sk_raw = lk_raw l, sk_label = Some (lk_label l), sk_code = code, sk_reason = reason,
      sk_details = details\<rparr>"

definition pbk_char :: "char \<Rightarrow> string" where
  "pbk_char ch =
     (if ch = CHR ''='' then '''' else if ch = CHR ''+'' then ''-'' else if ch = CHR ''/'' then ''_'' else [ch])"

definition apply_security :: "text_lib \<Rightarrow> link \<Rightarrow> normalized \<Rightarrow> skip + normalized" where
  "apply_security lib l n =
     (let get = get_or_empty lib l in
      if n_security n = ''tls'' then
        Inr (n\<lparr>n_sni := get ''sni'', n_fingerprint := to_lower lib (get ''fp''),
               n_alpn := (if split_list (get ''alpn'') \<noteq> [] then split_list (get ''alpn'') else n_alpn n),
               n_pinned_certs := split_list (get ''pcs''), n_verify_names := split_list (get ''vcn''),
               n_ech := get ''ech'', n_cipher_suites := get ''cs''\<rparr>)
      else if n_security n = ''reality'' then
        (if get ''pbk'' = ''''
         then Inl (link_skip l ''missing_required_field'' ''REALITY VLESS requires parameter \"pbk\".'' [])
         else Inr (n\<lparr>n_sni := get ''sni'', n_fingerprint := to_lower lib (get ''fp''),
                n_public_key := concat (map pbk_char (get ''pbk'')), n_short_id := get ''sid'',
                n_spider_x := (if get ''spx'' = '''' then ''/'' else get ''spx''), n_mldsa65 := get ''pqv''\<rparr>))
      else Inr n)"

text \<open>\<^verbatim>\<open>isJSONObject\<close>.\<close>

definition json_object :: "text_lib \<Rightarrow> string \<Rightarrow> bool" where
  "json_object lib s \<longleftrightarrow>
     lib_json lib s \<and> prefix ''{'' (dropWhile (\<lambda>ch. (of_char ch :: nat) \<in> {32, 9, 13, 10}) s)"

definition transport_fields :: "text_lib \<Rightarrow> link \<Rightarrow> normalized \<Rightarrow> skip + normalized" where
  "transport_fields lib l n =
     (let get = get_or_empty lib l; bad = (\<lambda>reason detail. Inl (link_skip l ''unsupported_value'' reason [detail])) in
      if n_network n = ''tcp'' then
        (case link_get lib l ''headertype'' of
           None \<Rightarrow> Inr n
         | Some ht \<Rightarrow>
             Inr (if ht = ''http''
                  then n\<lparr>n_header_type := Some ht, n_host := get ''host'', n_path := get ''path''\<rparr>
                  else n\<lparr>n_header_type := Some ht\<rparr>))
      else if n_network n = ''ws'' then
        (let n1 = n\<lparr>n_host := get ''host'', n_path := get ''path''\<rparr>; v = get ''heartbeatperiod'' in
         if v = '''' then Inr n1
         else case parse_uint32 v of
             None \<Rightarrow> bad ''ws heartbeatPeriod must be a non-negative integer.'' (''heartbeatPeriod='' @ truncate_runes v 40)
           | Some hb \<Rightarrow> Inr (n1\<lparr>n_heartbeat := hb\<rparr>))
      else if n_network n = ''xhttp'' then
        (let n1 = n\<lparr>n_host := get ''host'', n_path := get ''path'', n_xhttp_mode := get ''mode''\<rparr>; v = get ''extra'' in
         if v = '''' then Inr n1
         else if \<not> json_object lib v
         then bad ''xhttp extra must be a JSON object.'' (''extra='' @ truncate_runes v 40)
         else Inr (n1\<lparr>n_xhttp_extra := Some v\<rparr>))
      else Inr n)"

definition apply_transport :: "text_lib \<Rightarrow> link \<Rightarrow> normalized \<Rightarrow> skip + normalized" where
  "apply_transport lib l n =
     (case transport_fields lib l n of
        Inl s \<Rightarrow> Inl s
      | Inr n1 \<Rightarrow>
          let v = get_or_empty lib l ''fm'' in
          if v = '''' then Inr n1
          else if \<not> json_object lib v
          then Inl (link_skip l ''unsupported_value'' ''fm (finalmask) must be a JSON object.'' [''fm='' @ truncate_runes v 40])
          else Inr (n1\<lparr>n_final_mask := Some v\<rparr>))"

section \<open>Normalize\<close>

record policy =
  po_allow_insecure :: bool
  po_tag_prefix :: string

record warning =
  wn_code :: string
  wn_message :: string

text \<open>The three ends of \<^verbatim>\<open>Normalize\<close>: a skip, an entry with warnings, or the panic of an empty prefix.\<close>

datatype link_outcome = Skipped skip | Accepted normalized "warning list" | Panicked

definition check_encryption :: "text_lib \<Rightarrow> string \<Rightarrow> (string \<times> string) + string" where
  "check_encryption lib enc =
     (if enc = '''' then Inr ''none''
      else if enc = ''none'' then Inr enc
      else if is_mlkem enc
      then (if validate_mlkem lib enc then Inr enc
            else Inl (''Invalid VLESS encryption key.'', ''encryption='' @ truncate_runes enc 40))
      else Inl (''Unsupported VLESS encryption value.'', ''encryption='' @ enc))"

text \<open>
  \<^verbatim>\<open>allowInsecure\<close>: its value when it applies, and whether the warning is due; an error is the reason
  and the details of the skip.
\<close>

definition check_insecure ::
    "text_lib \<Rightarrow> link \<Rightarrow> string \<Rightarrow> bool \<Rightarrow> (string \<times> string list) + bool option \<times> bool" where
  "check_insecure lib l security allow =
     (case (if security = ''tls'' then link_get lib l ''allowinsecure'' else None) of
        None \<Rightarrow> Inr (None, False)
      | Some v \<Rightarrow>
          let w = to_lower lib v in
          if w \<in> {''1'', ''true''}
          then (if split_list (get_or_empty lib l ''pcs'') = [] \<and> split_list (get_or_empty lib l ''vcn'') = []
                then (if allow then Inr (Some True, True)
                      else Inl (''allowInsecure=1 requires pcs or vcn: Xray v26.10.21 no longer supports allowInsecure '' @
                        ''(set subscriptions[].allowInsecure: allow to keep such links).'', []))
                else Inr (Some True, False))
          else if w \<in> {''0'', ''false''} then Inr (Some False, False)
          else Inl (''allowInsecure must be 0, 1, true, or false.'', [''allowInsecure='' @ v]))"

definition base_normalized :: "link \<Rightarrow> scope \<Rightarrow> string \<Rightarrow> string \<Rightarrow> string \<Rightarrow> bool option \<Rightarrow> normalized" where
  "base_normalized l sc uuid enc flow insecure =
     \<lparr>n_kind = ''outbound'', n_protocol = ''vless'', n_profile = profile_of sc flow, n_tag = '''',
      n_line = lk_line l, n_raw = lk_raw l, n_label = lk_label l, n_address = lk_address l, n_port = lk_port l,
      n_uuid = uuid, n_encryption = enc, n_network = sc_network sc, n_security = sc_security sc, n_flow = flow,
      n_alpn = [], n_sni = '''', n_host = '''', n_path = '''', n_fingerprint = '''', n_allow_insecure = insecure,
      n_header_type = None, n_public_key = '''', n_short_id = '''', n_spider_x = '''', n_mldsa65 = '''',
      n_pinned_certs = [], n_verify_names = [], n_ech = '''', n_cipher_suites = '''', n_heartbeat = 0,
      n_xhttp_mode = '''', n_xhttp_extra = None, n_final_mask = None, n_country = None, n_city = '''',
      n_query = lk_params l\<rparr>"

definition normalize_link :: "text_lib \<Rightarrow> policy \<Rightarrow> link \<Rightarrow> link_outcome" where
  "normalize_link lib p l =
     (let bad = (\<lambda>code reason details. Skipped (link_skip l code reason details));
          enc0 = get_or_empty lib l ''encryption''; mlkem = is_mlkem enc0 in
      case resolve_scope lib l mlkem of
        None \<Rightarrow> bad ''unsupported_combo'' ''Unsupported VLESS type/security/flow combination.'' (combo_details lib l)
      | Some sc \<Rightarrow>
      case check_encryption lib enc0 of
        Inl (reason, detail) \<Rightarrow> bad ''unsupported_value'' reason [detail]
      | Inr enc \<Rightarrow>
      case lib_uuid lib (lk_id l) of
        None \<Rightarrow> bad ''unsupported_value'' ''The VLESS user id is not accepted by Xray.'' []
      | Some uuid \<Rightarrow>
      let flow0 = get_or_empty lib l ''flow'' in
      if flow0 \<notin> {'''', flow_vision, flow_vision_udp443}
      then bad ''unsupported_value'' ''Unsupported VLESS flow value.'' [''flow='' @ flow0]
      else
      let cleared = flow0 \<noteq> '''' \<and> \<not> vision_allowed sc mlkem;
          flow = (if cleared then '''' else flow0);
          w1 = (if cleared then [\<lparr>wn_code = ''flow_cleared'', wn_message = ''flow '' @ flow0 @ '' is not supported on '' @
                  sc_network sc @ ''+'' @ sc_security sc @ ''; flow cleared.''\<rparr>] else []) in
      case check_insecure lib l (sc_security sc) (po_allow_insecure p) of
        Inl (reason, details) \<Rightarrow> bad ''unsupported_value'' reason details
      | Inr (insecure, warn) \<Rightarrow>
      let w2 = (if warn then [\<lparr>wn_code = ''allow_insecure_ignored'',
                  wn_message = ''allowInsecure is not supported by Xray v26.10.21; the outbound will verify '' @
                    ''certificates (use pcs/vcn).''\<rparr>] else []) in
      case apply_security lib l (base_normalized l sc uuid enc flow insecure) of
        Inl s \<Rightarrow> Skipped s
      | Inr n1 \<Rightarrow>
      case apply_transport lib l n1 of
        Inl s \<Rightarrow> Skipped s
      | Inr n2 \<Rightarrow>
      if po_tag_prefix p = '''' then Panicked
      else
      let w3 = (if lk_ignored l \<noteq> [] then [\<lparr>wn_code = ''param_ignored'',
                  wn_message = ''Ignored unknown VLESS parameter(s): '' @ join_with '', '' (lk_ignored l) @ ''.''\<rparr>] else []) in
      Accepted (n2\<lparr>n_tag := build_tag lib (po_tag_prefix p) (lk_label l) (lk_address l) (n_profile n2) (lk_raw l),
                   n_country := from_label (lk_label l),
                   n_city := (case infer_city lib (lk_label l) of Some c \<Rightarrow> c | None \<Rightarrow> '''')\<rparr>) (w1 @ w2 @ w3))"
section \<open>Lemmas\<close>

lemma apply_security_keeps:
  assumes "apply_security lib l n = Inr n'"
  shows "n_network n' = n_network n" "n_security n' = n_security n" "n_flow n' = n_flow n"
    "n_encryption n' = n_encryption n" "n_profile n' = n_profile n" "n_allow_insecure n' = n_allow_insecure n"
    "n_line n' = n_line n" "n_raw n' = n_raw n" "n_label n' = n_label n" "n_address n' = n_address n"
    "n_port n' = n_port n" "n_uuid n' = n_uuid n" "n_heartbeat n' = n_heartbeat n" "n_query n' = n_query n"
    "n_protocol n' = n_protocol n" "n_kind n' = n_kind n"
    "n_security n = ''reality'' \<Longrightarrow> get_or_empty lib l ''pbk'' \<noteq> '''' \<and> n_spider_x n' \<noteq> ''''"
    "n_security n = ''tls'' \<Longrightarrow> n_pinned_certs n' = split_list (get_or_empty lib l ''pcs'') \<and>
       n_verify_names n' = split_list (get_or_empty lib l ''vcn'')"
  using assms by (auto simp: apply_security_def Let_def split: if_splits)

lemma transport_fields_keeps:
  assumes "transport_fields lib l n = Inr n'"
  shows "n_network n' = n_network n" "n_security n' = n_security n" "n_flow n' = n_flow n"
    "n_encryption n' = n_encryption n" "n_profile n' = n_profile n" "n_allow_insecure n' = n_allow_insecure n"
    "n_line n' = n_line n" "n_raw n' = n_raw n" "n_label n' = n_label n" "n_address n' = n_address n"
    "n_port n' = n_port n" "n_uuid n' = n_uuid n" "n_query n' = n_query n" "n_protocol n' = n_protocol n"
    "n_kind n' = n_kind n" "n_pinned_certs n' = n_pinned_certs n" "n_verify_names n' = n_verify_names n"
    "n_spider_x n' = n_spider_x n"
  using assms by (auto simp: transport_fields_def Let_def split: if_splits option.splits)

lemma digits_value_nonneg: "list_all is_digit s \<Longrightarrow> 0 \<le> digits_value s"
proof -
  have "list_all is_digit s \<Longrightarrow> 0 \<le> a \<Longrightarrow> 0 \<le> foldl (\<lambda>n ch. n * 10 + (of_char ch - 48)) (a :: int) s" for a
  proof (induction s arbitrary: a)
    case (Cons ch s)
    have "48 \<le> (of_char ch :: nat)" using Cons.prems(1) by (simp add: is_digit_def)
    then have "48 \<le> (of_char ch :: int)" by (metis of_nat_of_char of_nat_le_iff of_nat_numeral)
    then show ?case using Cons by simp
  qed simp
  then show "list_all is_digit s \<Longrightarrow> 0 \<le> digits_value s" by (simp add: digits_value_def)
qed

lemma parse_uint32_range: "parse_uint32 s = Some v \<Longrightarrow> 0 \<le> v \<and> v < 2 ^ 32"
  by (auto simp: parse_uint32_def digits_value_nonneg split: if_splits)

lemma transport_heartbeat:
  assumes "transport_fields lib l n = Inr n'" "n_heartbeat n = 0"
  shows "0 \<le> n_heartbeat n' \<and> n_heartbeat n' < 2 ^ 32"
  using assms parse_uint32_range by (fastforce simp: transport_fields_def Let_def split: if_splits option.splits)

lemma apply_transport_Inr:
  assumes "apply_transport lib l n = Inr n'"
  obtains n1 fm where "transport_fields lib l n = Inr n1" "n' = n1\<lparr>n_final_mask := fm\<rparr>"
proof -
  obtain n1 where n1: "transport_fields lib l n = Inr n1"
    using assms by (cases "transport_fields lib l n") (simp_all add: apply_transport_def)
  then have "n' = n1\<lparr>n_final_mask := n_final_mask n1\<rparr> \<or> n' = n1\<lparr>n_final_mask := Some (get_or_empty lib l ''fm'')\<rparr>"
    using assms by (simp add: apply_transport_def Let_def split: if_splits)
  then show thesis using that n1 by blast
qed

lemma resolve_scope_Some:
  "resolve_scope lib l mlkem = Some sc \<Longrightarrow>
   sc_network sc \<in> {''tcp'', ''ws'', ''xhttp''} \<and> sc_security sc \<in> {''none'', ''tls'', ''reality''} \<and>
   \<not> (sc_network sc = ''ws'' \<and> sc_security sc = ''reality'') \<and> (sc_security sc = ''none'' \<longrightarrow> mlkem)"
  by (auto simp: resolve_scope_def Let_def split: if_splits)

lemma check_encryption_Inr:
  "check_encryption lib enc = Inr enc' \<Longrightarrow>
   (enc' = ''none'' \<and> \<not> is_mlkem enc \<or> enc' = enc \<and> is_mlkem enc \<and> validate_mlkem lib enc)"
  by (auto simp: check_encryption_def is_mlkem_def mlkem_prefix_def split: if_splits)

lemma check_insecure_Inr:
  "check_insecure lib l sec allow = Inr (insecure, warn) \<Longrightarrow>
   (warn \<longrightarrow> insecure = Some True \<and> allow) \<and> (insecure \<noteq> None \<longrightarrow> sec = ''tls'') \<and>
   (insecure = Some True \<longrightarrow> allow \<or>
      split_list (get_or_empty lib l ''pcs'') \<noteq> [] \<or> split_list (get_or_empty lib l ''vcn'') \<noteq> [])"
  by (auto simp: check_insecure_def Let_def split: if_splits option.splits)

text \<open>What an accepted link went through.\<close>

lemma normalize_Accepted:
  assumes "normalize_link lib p l = Accepted n ws"
  obtains sc enc uuid flow insecure warn n1 n2 where
    "resolve_scope lib l (is_mlkem (get_or_empty lib l ''encryption'')) = Some sc"
    "check_encryption lib (get_or_empty lib l ''encryption'') = Inr enc"
    "get_or_empty lib l ''flow'' \<in> {'''', flow_vision, flow_vision_udp443}"
    "flow = (if vision_allowed sc (is_mlkem (get_or_empty lib l ''encryption'')) then get_or_empty lib l ''flow'' else '''')"
    "check_insecure lib l (sc_security sc) (po_allow_insecure p) = Inr (insecure, warn)"
    "apply_security lib l (base_normalized l sc uuid enc flow insecure) = Inr n1"
    "apply_transport lib l n1 = Inr n2" "po_tag_prefix p \<noteq> ''''" "lib_uuid lib (lk_id l) = Some uuid"
    "n = n2\<lparr>n_tag := build_tag lib (po_tag_prefix p) (lk_label l) (lk_address l) (n_profile n2) (lk_raw l),
      n_country := from_label (lk_label l),
      n_city := (case infer_city lib (lk_label l) of Some c \<Rightarrow> c | None \<Rightarrow> '''')\<rparr>"
    "''flow_cleared'' \<in> wn_code ` set ws \<longleftrightarrow> flow \<noteq> get_or_empty lib l ''flow''"
    "''allow_insecure_ignored'' \<in> wn_code ` set ws \<longleftrightarrow> warn"
    "''param_ignored'' \<in> wn_code ` set ws \<longleftrightarrow> lk_ignored l \<noteq> []"
proof -
  let ?e = "get_or_empty lib l ''encryption''" and ?f = "get_or_empty lib l ''flow''"
  obtain sc where sc: "resolve_scope lib l (is_mlkem ?e) = Some sc"
    using assms by (auto simp: normalize_link_def Let_def split: option.splits)
  obtain enc where enc: "check_encryption lib ?e = Inr enc"
    using assms sc by (auto simp: normalize_link_def Let_def split: sum.splits)
  obtain uuid where uuid: "lib_uuid lib (lk_id l) = Some uuid"
    using assms sc enc by (auto simp: normalize_link_def Let_def split: option.splits)
  have fl: "?f \<in> {'''', flow_vision, flow_vision_udp443}"
    using assms sc enc uuid by (auto simp: normalize_link_def Let_def split: if_splits)
  obtain insecure warn where ins: "check_insecure lib l (sc_security sc) (po_allow_insecure p) = Inr (insecure, warn)"
    using assms sc enc uuid fl by (auto simp: normalize_link_def Let_def split: sum.splits)
  let ?fl = "if vision_allowed sc (is_mlkem ?e) then ?f else ''''"
  have cl: "(if ?f \<noteq> '''' \<and> \<not> vision_allowed sc m then '''' else ?f) = (if vision_allowed sc m then ?f else '''')"
    for sc m by auto
  have nf: "(?f \<notin> {'''', flow_vision, flow_vision_udp443}) = False" using fl by simp
  note run = assms [unfolded normalize_link_def Let_def cl nf if_False]
  obtain n1 where n1: "apply_security lib l (base_normalized l sc uuid enc ?fl insecure) = Inr n1"
    using run by (cases "apply_security lib l (base_normalized l sc uuid enc ?fl insecure)")
      (simp_all add: sc enc uuid ins)
  obtain n2 where n2: "apply_transport lib l n1 = Inr n2"
    using run by (cases "apply_transport lib l n1") (simp_all add: sc enc uuid ins n1)
  have p: "po_tag_prefix p \<noteq> ''''"
    using run by (cases "po_tag_prefix p = ''''") (simp_all add: sc enc uuid ins n1 n2)
  note res = run [simplified sc enc uuid ins n1 n2 p option.case sum.case prod.case if_False not_True_eq_False
      link_outcome.inject]
  show thesis
    by (rule that [OF sc enc fl refl ins n1 n2 p uuid]) (use res in auto)
qed
lemma base_normalized_sel [simp]:
  "n_network (base_normalized l sc u enc f i) = sc_network sc" "n_security (base_normalized l sc u enc f i) = sc_security sc"
  "n_flow (base_normalized l sc u enc f i) = f" "n_encryption (base_normalized l sc u enc f i) = enc"
  "n_allow_insecure (base_normalized l sc u enc f i) = i" "n_heartbeat (base_normalized l sc u enc f i) = 0"
  "n_line (base_normalized l sc u enc f i) = lk_line l" "n_raw (base_normalized l sc u enc f i) = lk_raw l"
  "n_label (base_normalized l sc u enc f i) = lk_label l" "n_protocol (base_normalized l sc u enc f i) = ''vless''"
  by (simp_all add: base_normalized_def)

lemma build_tag_base: "prefix (pre @ ''-'') (build_tag lib pre label address profile raw)"
  by (simp add: build_tag_def tag_of_def Let_def prefix_def)

lemma accepted_source:
  assumes "normalize_link lib p l = Accepted n ws"
  shows "prefix (po_tag_prefix p @ ''-'') (n_tag n) \<and> n_line n = lk_line l \<and> n_raw n = lk_raw l \<and>
    n_label n = lk_label l \<and> po_tag_prefix p \<noteq> ''''"
  using assms
proof (cases rule: normalize_Accepted)
  case (1 sc enc uuid flow insecure warn n1 n2)
  from 1(7) obtain m fm where "transport_fields lib l n1 = Inr m" "n2 = m\<lparr>n_final_mask := fm\<rparr>"
    by (rule apply_transport_Inr)
  then show ?thesis
    using 1(8,10) build_tag_base apply_security_keeps [OF 1(6)] transport_fields_keeps by auto
qed

section \<open>The properties\<close>

text \<open>
  C20: A link the normalizer accepts is in the scope Xray supports: TCP, WebSocket or XHTTP over TLS,
  REALITY or (with a valid ML-KEM encryption only) nothing, never WebSocket over REALITY; a vision
  flow only where Xray runs it; a REALITY link has a spider path, a heartbeat fits 32 bits.
\<close>

theorem accepted_in_scope:
  assumes "normalize_link lib p l = Accepted n ws"
  shows "n_network n \<in> {''tcp'', ''ws'', ''xhttp''} \<and> n_security n \<in> {''none'', ''tls'', ''reality''} \<and>
    \<not> (n_network n = ''ws'' \<and> n_security n = ''reality'') \<and>
    (n_encryption n \<noteq> ''none'' \<longrightarrow> is_mlkem (n_encryption n) \<and> validate_mlkem lib (n_encryption n)) \<and>
    (n_security n = ''none'' \<longrightarrow> n_encryption n \<noteq> ''none'') \<and>
    (n_flow n \<noteq> '''' \<longrightarrow> n_flow n \<in> {flow_vision, flow_vision_udp443} \<and>
       (n_encryption n \<noteq> ''none'' \<or> n_network n = ''tcp'' \<and> n_security n \<noteq> ''none'')) \<and>
    (n_security n = ''reality'' \<longrightarrow> n_spider_x n \<noteq> '''') \<and>
    0 \<le> n_heartbeat n \<and> n_heartbeat n < 2 ^ 32"
  using assms
proof (cases rule: normalize_Accepted)
  case (1 sc enc uuid flow insecure warn n1 n2)
  let ?e = "get_or_empty lib l ''encryption''"
  from 1(7) obtain m fm where m: "transport_fields lib l n1 = Inr m" "n2 = m\<lparr>n_final_mask := fm\<rparr>"
    by (rule apply_transport_Inr)
  note sec = apply_security_keeps [OF 1(6)] and tr = transport_fields_keeps [OF m(1)]
  have same: "n_network n = sc_network sc" "n_security n = sc_security sc" "n_flow n = flow" "n_encryption n = enc"
    "n_spider_x n = n_spider_x n1" "n_heartbeat n = n_heartbeat m"
    using 1(10) m(2) sec(1-4) tr by simp_all
  have hb: "0 \<le> n_heartbeat n \<and> n_heartbeat n < 2 ^ 32"
    using transport_heartbeat [OF m(1)] sec(13) same(6) by simp
  have enc: "enc \<noteq> ''none'' \<longleftrightarrow> is_mlkem ?e" "enc \<noteq> ''none'' \<longrightarrow> is_mlkem enc \<and> validate_mlkem lib enc"
    using check_encryption_Inr [OF 1(2)] by (auto simp: is_mlkem_def mlkem_prefix_def)
  note rs = resolve_scope_Some [OF 1(1)]
  have flow: "flow \<noteq> '''' \<longrightarrow> flow \<in> {flow_vision, flow_vision_udp443} \<and>
      (enc \<noteq> ''none'' \<or> sc_network sc = ''tcp'' \<and> sc_security sc \<noteq> ''none'')"
    using 1(3,4) enc(1) by (auto simp: vision_allowed_def split: if_splits)
  have "sc_security sc = ''reality'' \<longrightarrow> n_spider_x n1 \<noteq> ''''" using sec(17) by simp
  then show ?thesis unfolding same(1-5) using rs enc flow hb by blast
qed

text \<open>A library for the witnesses: ASCII only, every user id and no ML-KEM key valid.\<close>

definition w_lib :: text_lib where
  "w_lib = \<lparr>lib_lower = id, lib_nfkd = id, lib_sha256 = (\<lambda>s. ''0123456789''), lib_url = (\<lambda>s. None),
     lib_json = (\<lambda>s. False), lib_uuid = Some, lib_base64url = (\<lambda>s. None), lib_x25519 = (\<lambda>b. False),
     lib_mlkem768 = (\<lambda>b. False), lib_padding = (\<lambda>s. False)\<rparr>"

definition w_link :: "string \<Rightarrow> (string \<times> string) list \<Rightarrow> link" where
  "w_link label params =
     \<lparr>lk_line = 1, lk_raw = ''vless://x'', lk_label = label, lk_id = ''u'', lk_address = ''h.example'', lk_port = 443,
      lk_params = params, lk_ignored = []\<rparr>"

definition w_policy :: policy where
  "w_policy = \<lparr>po_allow_insecure = False, po_tag_prefix = ''vl''\<rparr>"

definition w_ws :: link where
  "w_ws = w_link ''Berlin'' [(''type'', ''ws''), (''security'', ''tls''), (''flow'', flow_vision)]"

lemma get_w_link [simp]: "list_all lower_char key \<Longrightarrow> get_or_empty lib (w_link label ps) key = (case map_of ps key of Some v \<Rightarrow> v | None \<Rightarrow> '''')"
  by (simp add: get_or_empty_def link_get_def w_link_def to_lower_id)

lemmas normalize_eval = normalize_link_def resolve_scope_def check_encryption_def check_insecure_def apply_security_def
  apply_transport_def transport_fields_def base_normalized_def vision_allowed_def flow_vision_def flow_vision_udp443_def
  is_mlkem_def mlkem_prefix_def lower_char_def to_lower_id link_get_def

lemma w_sel [simp]: "lib_uuid w_lib = Some" "lk_id (w_link label ps) = ''u''" "lk_ignored (w_link label ps) = []"
  "lk_params (w_link label ps) = ps" "po_tag_prefix w_policy = ''vl''" "po_allow_insecure w_policy = False"
  by (simp_all add: w_lib_def w_link_def w_policy_def)
lemma w_ws_accepted:
  obtains n ws where "normalize_link w_lib w_policy w_ws = Accepted n ws" "n_network n = ''ws''" "n_encryption n = ''none''"
    "n_pinned_certs n = split_list ''''" "n_verify_names n = split_list ''''" "n_allow_insecure n = None"
  using that by (simp add: w_ws_def normalize_eval Let_def)

definition entry_of :: "link_outcome \<Rightarrow> normalized option" where
  "entry_of x = (case x of Accepted n ws \<Rightarrow> Some n | _ \<Rightarrow> None)"

lemma entry_of_Accepted [simp]: "entry_of (Accepted n ws) = Some n"
  by (simp add: entry_of_def)

lemma accepted_in_scope_witness: "map_option n_flow (entry_of (normalize_link w_lib w_policy w_ws)) = Some ''''"
proof -
  obtain n ws where r: "normalize_link w_lib w_policy w_ws = Accepted n ws" "n_network n = ''ws''" "n_encryption n = ''none''"
    by (rule w_ws_accepted)
  then show ?thesis using accepted_in_scope [OF r(1)] by auto
qed

text \<open>
  The tag of an accepted link starts with the source id and a dash; the entry keeps the line, link
  and label it came from.
\<close>

theorem accepted_tag_in_namespace:
  assumes "normalize_link lib p l = Accepted n ws"
  shows "prefix (po_tag_prefix p @ ''-'') (n_tag n) \<and> n_line n = lk_line l \<and> n_raw n = lk_raw l \<and>
    n_label n = lk_label l \<and> po_tag_prefix p \<noteq> ''''"
  by (rule accepted_source [OF assms])

lemma accepted_tag_in_namespace_witness:
  "map_option (\<lambda>n. prefix ''vl-'' (n_tag n)) (entry_of (normalize_link w_lib w_policy w_ws)) = Some True"
proof -
  obtain n ws where r: "normalize_link w_lib w_policy w_ws = Accepted n ws" by (rule w_ws_accepted)
  then show ?thesis using accepted_tag_in_namespace [OF r] by simp
qed

text \<open>
  Nothing is dropped silently: the flow of an accepted link is the link's flow or it was cleared
  with a warning, and \<^verbatim>\<open>allowInsecure\<close> without a pin is accepted only by policy and with a warning.
\<close>

theorem accepted_warns:
  assumes "normalize_link lib p l = Accepted n ws"
  shows "(n_flow n = get_or_empty lib l ''flow'' \<longleftrightarrow> ''flow_cleared'' \<notin> wn_code ` set ws) \<and>
    (n_flow n = '''' \<or> n_flow n = get_or_empty lib l ''flow'') \<and>
    (n_allow_insecure n = Some True \<longrightarrow>
       n_pinned_certs n \<noteq> [] \<or> n_verify_names n \<noteq> [] \<or> po_allow_insecure p) \<and>
    (''allow_insecure_ignored'' \<in> wn_code ` set ws \<longrightarrow> n_allow_insecure n = Some True \<and> po_allow_insecure p) \<and>
    (''param_ignored'' \<in> wn_code ` set ws \<longleftrightarrow> lk_ignored l \<noteq> [])"
  using assms
proof (cases rule: normalize_Accepted)
  case (1 sc enc uuid flow insecure warn n1 n2)
  from 1(7) obtain m fm where m: "transport_fields lib l n1 = Inr m" "n2 = m\<lparr>n_final_mask := fm\<rparr>"
    by (rule apply_transport_Inr)
  note sec = apply_security_keeps [OF 1(6)] and tr = transport_fields_keeps [OF m(1)]
  have same: "n_flow n = flow" "n_allow_insecure n = insecure" "n_pinned_certs n = n_pinned_certs n1"
    "n_verify_names n = n_verify_names n1"
    using 1(10) m(2) sec tr by simp_all
  note ins = check_insecure_Inr [OF 1(5)]
  have "insecure = Some True \<longrightarrow> n_pinned_certs n1 \<noteq> [] \<or> n_verify_names n1 \<noteq> [] \<or> po_allow_insecure p"
    using ins sec(18) by auto
  then show ?thesis
    unfolding same using 1(4,11-13) ins by (auto split: if_splits)
qed

lemma accepted_warns_witness: "\<exists>n ws. normalize_link w_lib w_policy w_ws = Accepted n ws \<and> ''param_ignored'' \<notin> wn_code ` set ws"
proof -
  obtain n ws where r: "normalize_link w_lib w_policy w_ws = Accepted n ws" by (rule w_ws_accepted)
  then show ?thesis using accepted_warns [OF r] by (simp add: w_ws_def)
qed

end
