(* ===== verification/Scd_Config.thy ===== *)
theory Scd_Config
  imports Scd_Prelude
begin

text \<open>
  The normalized configuration of scd (\<^verbatim>\<open>internal/scd/config/types.go\<close>) and the tag namespace of a
  source (\<^verbatim>\<open>internal/scd/apply/namespace.go\<close>).

  A pointer field that may be nil is an option. A compiled label expression is its
  \<^verbatim>\<open>MatchString\<close>. Cron expressions are parsed by the library \<^verbatim>\<open>robfig/cron\<close>, which is not in the
  repository: \<open>cron_lib\<close> is an argument of what uses it.
\<close>

section \<open>Configuration records\<close>

record port_range =
  pr_start :: int
  pr_end :: int

record label_filter =
  lf_include :: "(string \<Rightarrow> bool) list"
  lf_exclude :: "(string \<Rightarrow> bool) list"

record source_filters =
  sf_countries :: "string list"
  sf_entry_countries :: "string list"
  sf_label :: label_filter

record selection_config =
  sel_strategy :: string
  sel_margin :: int
  sel_confirm :: int
  sel_cooldown :: int
  sel_replace_after :: int

record source_monitor =
  sm_timeout :: "int option"
  sm_retry :: "(int \<times> int option) option"

record dependency =
  d_source :: string
  d_subscription :: string
  d_balancer :: string
  d_health :: string
  d_grace :: int

record source =
  s_id :: string
  s_type :: string
  s_input :: string
  s_enabled :: bool
  s_format :: string
  s_fetch_timeout :: int
  s_allow_insecure :: string
  s_user_agent :: string
  s_headers :: "(string \<times> string) list"
  s_max_bytes :: int
  s_ports :: "port_range option"
  s_filters :: "source_filters option"
  s_max_active :: int
  s_selection :: "selection_config option"
  s_monitor :: "source_monitor option"
  s_wireguard :: "string option"
  s_balancer :: string
  s_dialer_proxy :: string
  s_depends :: "dependency list"

record retry =
  rt_attempts :: int
  rt_delay :: int

record monitor_request =
  mr_url :: string
  mr_method :: string
  mr_expected :: int
  mr_timeout :: int

record target_monitor =
  tm_enabled :: bool
  tm_schedule :: string
  tm_max_parallel :: int
  tm_retry :: retry
  tm_request :: "monitor_request option"

record remote_ping =
  rp_enabled :: bool
  rp_url :: string
  rp_timeout :: int
  rp_via_socks :: bool

record balancer_monitor =
  bm_enabled :: bool
  bm_schedule :: string
  bm_socks5 :: "(string \<times> int) option"
  bm_request :: "monitor_request option"
  bm_retry :: retry
  bm_remote_ping :: remote_ping

record balancer_selection =
  bs_enabled :: bool
  bs_schedule :: string
  bs_observatory :: bool
  bs_strategy :: string

record balancer_config =
  bc_tag :: string
  bc_monitor :: "balancer_monitor option"
  bc_selection :: "balancer_selection option"

record target =
  t_address :: string
  t_timeout :: int
  t_fixed_outbounds :: "string list"
  t_fixed_inbounds :: "string list"
  t_fixed_routing :: "string list"
  t_vision_udp443 :: bool
  t_inbound_socks :: "string option"
  t_monitor :: target_monitor
  t_balancers :: "balancer_config list"
  t_prefix :: string

record subscription =
  sub_id :: string
  sub_enabled :: bool
  sub_sources :: "source list"
  sub_target :: target

record resources =
  res_outbounds :: bool
  res_inbounds :: bool
  res_routing :: bool

record app_config =
  cfg_subscriptions :: "subscription list"
  cfg_mode :: string
  cfg_schedule :: string
  cfg_resources :: resources

text \<open>\<^verbatim>\<open>CandidateType\<close>, \<^verbatim>\<open>EnabledSources\<close>, \<^verbatim>\<open>DependencyConfig.Name\<close>, \<^verbatim>\<open>FindBalancer\<close>.\<close>

definition candidate_type :: "string \<Rightarrow> bool" where
  "candidate_type t \<longleftrightarrow> t = ''wireguard'' \<or> t = ''masque''"

definition enabled_sources :: "subscription \<Rightarrow> source list" where
  "enabled_sources s = filter s_enabled (sub_sources s)"

definition dep_name :: "dependency \<Rightarrow> string" where
  "dep_name d =
     (if d_subscription d \<noteq> '''' then ''balancer:'' @ d_subscription d @ ''/'' @ d_balancer d
      else if d_balancer d \<noteq> '''' then ''balancer:'' @ d_balancer d
      else d_source d)"

definition find_balancer ::
    "subscription list \<Rightarrow> string \<Rightarrow> string \<Rightarrow> (subscription \<times> balancer_config) option" where
  "find_balancer subs sid tag =
     (case List.find (\<lambda>s. sub_id s = sid) subs of
        None \<Rightarrow> None
      | Some s \<Rightarrow> map_option (Pair s) (List.find (\<lambda>b. bc_tag b = tag) (t_balancers (sub_target s))))"

definition label_match :: "label_filter \<Rightarrow> string \<Rightarrow> bool" where
  "label_match f label \<longleftrightarrow>
     list_all (\<lambda>re. re label) (lf_include f) \<and> \<not> list_ex (\<lambda>re. re label) (lf_exclude f)"

section \<open>Schedules\<close>

text \<open>
  What the library makes of an expression: an error text, or the next activation strictly after
  a time (\<open>None\<close> for the zero time). \<^verbatim>\<open>cron.Parse\<close> adds two guards.
\<close>

type_synonym schedule = "time \<Rightarrow> time option"
type_synonym cron_lib = "string \<Rightarrow> string + schedule"

definition never_probe :: time where "never_probe = 1767225600 * 1000000000"

definition cron_parse :: "cron_lib \<Rightarrow> string \<Rightarrow> string + schedule" where
  "cron_parse lib expr =
     (if expr = '''' then Inl ''cron expression must not be empty''
      else case lib expr of
          Inl e \<Rightarrow> Inl e
        | Inr s \<Rightarrow> if s never_probe = None then Inl ''cron expression never matches'' else Inr s)"

fun next_n :: "nat \<Rightarrow> schedule \<Rightarrow> time \<Rightarrow> time option" where
  "next_n 0 s t = Some t"
| "next_n (Suc n) s t = (case s t of None \<Rightarrow> None | Some t' \<Rightarrow> next_n n s t')"

text \<open>\<^verbatim>\<open>BalancerSelectionConfig.Stale\<close>; a zero time is \<open>None\<close>.\<close>

definition stale :: "cron_lib \<Rightarrow> balancer_selection \<Rightarrow> time option \<Rightarrow> time \<Rightarrow> bool" where
  "stale lib b since now =
     (case since of
        None \<Rightarrow> True
      | Some t \<Rightarrow>
          (case cron_parse lib (bs_schedule b) of
             Inl e \<Rightarrow> True
           | Inr s \<Rightarrow> (case next_n 3 s t of None \<Rightarrow> True | Some t3 \<Rightarrow> now > t3)))"

section \<open>Namespaces\<close>

datatype kind = KOutbound | KInbound | KRouting

text \<open>\<^verbatim>\<open>apply.Order\<close>.\<close>

definition kind_order :: "kind list" where
  "kind_order = [KOutbound, KInbound, KRouting]"

fun kind_text :: "kind \<Rightarrow> string" where
  "kind_text KOutbound = ''outbound''"
| "kind_text KInbound = ''inbound''"
| "kind_text KRouting = ''routing''"

record namespace =
  ns_prefix :: string
  ns_source :: string

text \<open>\<^verbatim>\<open>Namespace.Owns\<close>: the two outbound prefixes are those inside and outside the balancer.\<close>

fun owns :: "namespace \<Rightarrow> kind \<Rightarrow> string \<Rightarrow> bool" where
  "owns n KOutbound tag \<longleftrightarrow>
     prefix (ns_prefix n @ ns_source n @ ''-'') tag \<or> prefix (ns_source n @ ''-'') tag"
| "owns n KInbound tag \<longleftrightarrow> prefix (''in-'' @ ns_source n @ ''-'') tag"
| "owns n KRouting tag \<longleftrightarrow> prefix (''route-'' @ ns_source n @ ''-'') tag"

definition source_ns :: "target \<Rightarrow> string \<Rightarrow> namespace" where
  "source_ns t sid = \<lparr>ns_prefix = t_prefix t, ns_source = sid\<rparr>"

lemma source_ns_sel [simp]:
  "ns_prefix (source_ns t sid) = t_prefix t" "ns_source (source_ns t sid) = sid"
  by (simp_all add: source_ns_def)

lemma owns_empty [simp]: "\<not> owns n k ''''"
  by (cases k) auto

definition base_tag_of :: "string \<Rightarrow> string \<Rightarrow> bool" where
  "base_tag_of sid tag \<longleftrightarrow> prefix (sid @ ''-'') tag"

lemma owns_base [owns_intros]: "base_tag_of (ns_source n) tag \<Longrightarrow> owns n KOutbound tag"
  by (simp add: base_tag_of_def)

lemma owns_prefixed [owns_intros]:
  "base_tag_of (ns_source n) tag \<Longrightarrow> owns n KOutbound (ns_prefix n @ tag)"
  by (auto simp: base_tag_of_def prefix_def)

lemma owns_in [owns_intros]: "base_tag_of (ns_source n) tag \<Longrightarrow> owns n KInbound (''in-'' @ tag)"
  by (auto simp: base_tag_of_def prefix_def)

lemma owns_route [owns_intros]:
  "base_tag_of (ns_source n) tag \<Longrightarrow> owns n KRouting (''route-'' @ tag)"
  by (auto simp: base_tag_of_def prefix_def)

text \<open>Blank records, to be filled in where a concrete configuration is wanted.\<close>

definition blank_source :: source where
  "blank_source =
     \<lparr>s_id = '''', s_type = ''vless'', s_input = '''', s_enabled = True, s_format = ''auto'', s_fetch_timeout = 15000,
      s_allow_insecure = ''deny'', s_user_agent = '''', s_headers = [], s_max_bytes = 0, s_ports = None,
      s_filters = None, s_max_active = 0, s_selection = None, s_monitor = None,
      s_wireguard = None, s_balancer = '''', s_dialer_proxy = '''', s_depends = []\<rparr>"

definition blank_target :: target where
  "blank_target =
     \<lparr>t_address = '''', t_timeout = 5000, t_fixed_outbounds = [], t_fixed_inbounds = [],
      t_fixed_routing = [], t_vision_udp443 = False, t_inbound_socks = None,
      t_monitor = \<lparr>tm_enabled = False, tm_schedule = '''', tm_max_parallel = 1,
        tm_retry = \<lparr>rt_attempts = 1, rt_delay = 0\<rparr>, tm_request = None\<rparr>,
      t_balancers = [], t_prefix = ''''\<rparr>"

lemmas blank_defs [go_eval] = blank_source_def blank_target_def

end
