(* ===== verification/Scd_Selection.thy ===== *)
theory Scd_Selection
  imports Scd_Config Scd_Country
begin

text \<open>
  The choice of the active candidates of a wireguard or masque source
  (\<^verbatim>\<open>internal/scd/selection\<close>): the filter, the ranking by strategy with the grouping of the masque
  lines of one key, the pick of the first sync, and the decisions of the later ones
  (replacement of gone candidates, hysteresis for better ones, quarantine).

  A score is a \<^verbatim>\<open>float64\<close>; it is kept as its exact rational value, and \<open>rnd\<close> is the rounding of a
  product to the nearest \<^verbatim>\<open>float64\<close>. A 32-byte key is its byte string.
\<close>

record candidate =
  cd_tag :: string
  cd_label :: string
  cd_entry :: string
  cd_exit :: string
  cd_load :: "int option"
  cd_score :: "rat option"
  cd_key :: string
  cd_endpoint :: string
  cd_transport :: string
  cd_priority :: int

definition zero_candidate :: candidate where
  "zero_candidate =
     \<lparr>cd_tag = '''', cd_label = '''', cd_entry = '''', cd_exit = '''', cd_load = None, cd_score = None,
      cd_key = '''', cd_endpoint = '''', cd_transport = '''', cd_priority = 0\<rparr>"

section \<open>Filter\<close>

datatype reason = Pass | DroppedByEntry | DroppedByExit | DroppedByLabel

definition country_of :: "string \<Rightarrow> string \<Rightarrow> string" where
  "country_of meta label =
     (if meta \<noteq> '''' then meta
      else case from_label label of Some i \<Rightarrow> ci_iso2 i | None \<Rightarrow> '''')"

definition filter_cand :: "candidate \<Rightarrow> source_filters option \<Rightarrow> reason" where
  "filter_cand c fo =
     (case fo of None \<Rightarrow> Pass
      | Some f \<Rightarrow>
          if sf_entry_countries f \<noteq> [] \<and> country_of (cd_entry c) (cd_label c) \<notin> set (sf_entry_countries f)
          then DroppedByEntry
          else if sf_countries f \<noteq> [] \<and> country_of (cd_exit c) (cd_label c) \<notin> set (sf_countries f)
          then DroppedByExit
          else if \<not> label_match (sf_label f) (cd_label c) then DroppedByLabel
          else Pass)"

section \<open>Ranking\<close>

text \<open>\<^verbatim>\<open>orNil\<close>: a present key sorts before a missing one.\<close>

fun or_nil :: "'a::linorder option \<Rightarrow> 'a option \<Rightarrow> int" where
  "or_nil None None = 0"
| "or_nil None (Some b) = 1"
| "or_nil (Some a) None = -1"
| "or_nil (Some a) (Some b) = cmp_ord a b"

definition empty_last :: "string \<Rightarrow> string \<Rightarrow> int" where
  "empty_last a b =
     (if (a = '''') \<noteq> (b = '''') then (if a = '''' then 1 else -1) else cmp_ord a b)"

definition rank_names :: "candidate \<Rightarrow> candidate \<Rightarrow> int" where
  "rank_names a b = cmp_or [empty_last (cd_label a) (cd_label b), cmp_ord (cd_tag a) (cd_tag b)]"

definition rank_cmp :: "string \<Rightarrow> candidate \<Rightarrow> candidate \<Rightarrow> int" where
  "rank_cmp strategy a b =
     (if strategy = ''score''
      then cmp_or [or_nil (cd_score a) (cd_score b), or_nil (cd_load a) (cd_load b), rank_names a b]
      else if strategy = ''load''
      then cmp_or [or_nil (cd_load a) (cd_load b), or_nil (cd_score a) (cd_score b), rank_names a b]
      else rank_names a b)"

text \<open>
  The place of each ranked candidate: its own index, or for a candidate with a transport the
  index of the first one with its key (\<open>first\<close> maps the keys seen so far).
\<close>

fun group_pos :: "nat \<Rightarrow> (string, nat) gomap \<Rightarrow> candidate list \<Rightarrow> nat list" where
  "group_pos i first [] = []"
| "group_pos i first (c # cs) =
     (if cd_transport c = '''' then i # group_pos (Suc i) first cs
      else case map_of first (cd_key c) of
          Some f \<Rightarrow> f # group_pos (Suc i) first cs
        | None \<Rightarrow> i # group_pos (Suc i) (AList.update (cd_key c) i first) cs)"

definition ranked_by :: "string \<Rightarrow> ('a \<Rightarrow> candidate) \<Rightarrow> 'a list \<Rightarrow> 'a list" where
  "ranked_by strategy sel items = sort_by (\<lambda>x y. rank_cmp strategy (sel x) (sel y)) items"

definition place_cmp :: "nat list \<Rightarrow> candidate list \<Rightarrow> nat \<Rightarrow> nat \<Rightarrow> int" where
  "place_cmp pos cs i j =
     cmp_or [cmp_ord (pos ! i) (pos ! j), cmp_ord (cd_priority (cs ! i)) (cd_priority (cs ! j))]"

definition rank :: "string \<Rightarrow> ('a \<Rightarrow> candidate) \<Rightarrow> 'a list \<Rightarrow> 'a list" where
  "rank strategy sel items =
     (let out = ranked_by strategy sel items;
          cs = map sel out;
          pos = group_pos 0 [] cs;
          idx = sort_by (place_cmp pos cs) [0..<length out]
      in map (\<lambda>i. out ! i) idx)"

text \<open>\<^verbatim>\<open>Pick\<close>: \<open>n\<close> items are picked so far, with the keys \<open>keys\<close>.\<close>

fun pick_from :: "('a \<Rightarrow> candidate) \<Rightarrow> int \<Rightarrow> nat \<Rightarrow> string set \<Rightarrow> 'a list \<Rightarrow> 'a list" where
  "pick_from sel mx n keys [] = []"
| "pick_from sel mx n keys (it # its) =
     (if int n = mx then []
      else if cd_key (sel it) \<in> keys then pick_from sel mx n keys its
      else it # pick_from sel mx (Suc n) (insert (cd_key (sel it)) keys) its)"

definition pick :: "('a \<Rightarrow> candidate) \<Rightarrow> 'a list \<Rightarrow> int \<Rightarrow> 'a list" where
  "pick sel ranked mx = pick_from sel mx 0 {} ranked"

section \<open>Selection state\<close>

type_synonym pair_key = "string \<times> string \<times> string"

definition pair_of :: "candidate \<Rightarrow> pair_key" where
  "pair_of c = (cd_key c, cd_endpoint c, cd_transport c)"

record sel_state =
  ss_quarantine :: "(pair_key, time) gomap"
  ss_better :: "(string, int) gomap"

definition minutes_ns :: "int \<Rightarrow> time" where
  "minutes_ns m = m * 60000000000"

definition quarantined :: "sel_state \<Rightarrow> candidate \<Rightarrow> time \<Rightarrow> bool" where
  "quarantined st c now =
     (case map_of (ss_quarantine st) (pair_of c) of Some u \<Rightarrow> now < u | None \<Rightarrow> False)"

definition quarantine_pair :: "sel_state \<Rightarrow> candidate \<Rightarrow> time \<Rightarrow> int \<Rightarrow> sel_state" where
  "quarantine_pair st c now minutes =
     st\<lparr>ss_quarantine := AList.update (pair_of c) (now + minutes_ns minutes) (ss_quarantine st)\<rparr>"

definition release_since :: "sel_state \<Rightarrow> time \<Rightarrow> int \<Rightarrow> nat \<times> sel_state" where
  "release_since st since minutes =
     (let gone = (\<lambda>u. \<not> u - minutes_ns minutes < since)
      in (count_if (\<lambda>(k, u). gone u) (entries_of (ss_quarantine st)),
          st\<lparr>ss_quarantine := map_keep (\<lambda>k u. \<not> gone u) (ss_quarantine st)\<rparr>))"

definition replacement ::
    "candidate list \<Rightarrow> string set \<Rightarrow> string set \<Rightarrow> sel_state \<Rightarrow> time \<Rightarrow> candidate option" where
  "replacement ranked active keys st now =
     List.find (\<lambda>c. cd_tag c \<notin> active \<and> cd_key c \<notin> keys \<and> \<not> quarantined st c now) ranked"

section \<open>Decisions\<close>

datatype action_kind = Keep | Replace | Remove

record slot =
  sl_cand :: candidate
  sl_healthy :: bool

record action =
  ac_kind :: action_kind
  ac_slot :: nat
  ac_to :: candidate
  ac_reason :: string

definition keep_action :: "nat \<Rightarrow> action" where
  "keep_action i = \<lparr>ac_kind = Keep, ac_slot = i, ac_to = zero_candidate, ac_reason = ''''\<rparr>"

definition load_rat :: "candidate \<Rightarrow> rat option" where
  "load_rat c = map_option of_int (cd_load c)"

text \<open>\<^verbatim>\<open>beats\<close>: the first metric both have decides.\<close>

definition beats :: "(rat \<Rightarrow> rat) \<Rightarrow> candidate \<Rightarrow> candidate \<Rightarrow> selection_config \<Rightarrow> bool" where
  "beats rnd c a cfg =
     (let metrics = (if sel_strategy cfg = ''load'' then [load_rat, cd_score] else [cd_score, load_rat])
      in case List.find (\<lambda>m. m c \<noteq> None \<and> m a \<noteq> None) metrics of
           None \<Rightarrow> False
         | Some m \<Rightarrow> the (m c) < the (m a) \<and>
             rnd (the (m c) * 100) \<le> rnd (the (m a) * of_int (100 - sel_margin cfg)))"

text \<open>
  The first loop of \<^verbatim>\<open>Decide\<close>: a slot whose candidate is gone takes the first allowed candidate.
  \<open>use\<close> and \<open>keys\<close> are the tags and keys taken.
\<close>

fun decide_gone ::
    "candidate list \<Rightarrow> sel_state \<Rightarrow> time \<Rightarrow> nat \<Rightarrow> string set \<Rightarrow> string set \<Rightarrow> slot list \<Rightarrow>
     action list \<times> string set \<times> string set" where
  "decide_gone ranked st now i use keys [] = ([], use, keys)"
| "decide_gone ranked st now i use keys (a # as) =
     (if cd_tag (sl_cand a) \<in> cd_tag ` set ranked
      then let (acts, u, k) = decide_gone ranked st now (Suc i) use keys as
           in (keep_action i # acts, u, k)
      else
        let r = (if pair_of (sl_cand a) \<in> pair_of ` set ranked then ''changed'' else ''gone'')
        in case replacement ranked use keys st now of
             Some c \<Rightarrow>
               (let (acts, u, k) =
                  decide_gone ranked st now (Suc i) (insert (cd_tag c) use) (insert (cd_key c) keys) as
                in (\<lparr>ac_kind = Replace, ac_slot = i, ac_to = c, ac_reason = r\<rparr> # acts, u, k))
           | None \<Rightarrow>
               (let (acts, u, k) = decide_gone ranked st now (Suc i) use keys as
                in (\<lparr>ac_kind = Remove, ac_slot = i, ac_to = zero_candidate, ac_reason = r\<rparr> # acts, u, k)))"

text \<open>
  The inner loop over the ranked candidates: the first allowed one that beats \<open>cur\<close>. \<open>seen\<close> are
  the keys that competed already.
\<close>

fun contender ::
    "(rat \<Rightarrow> rat) \<Rightarrow> selection_config \<Rightarrow> sel_state \<Rightarrow> time \<Rightarrow> string set \<Rightarrow> string set \<Rightarrow> candidate \<Rightarrow>
     string set \<Rightarrow> candidate list \<Rightarrow> candidate option" where
  "contender rnd cfg st now use keys cur seen [] = None"
| "contender rnd cfg st now use keys cur seen (c # cs) =
     (if cd_tag c \<in> use \<or> cd_key c \<in> keys \<or>
         cd_key c = cd_key cur \<and> cd_transport c \<noteq> cd_transport cur \<or> quarantined st c now
      then contender rnd cfg st now use keys cur seen cs
      else if cd_transport c \<noteq> '''' \<and> cd_key c \<in> seen
      then contender rnd cfg st now use keys cur seen cs
      else if \<not> beats rnd c cur cfg
      then contender rnd cfg st now use keys cur (insert (cd_key c) seen) cs
      else Some c)"

definition by_tag_cand :: "candidate list \<Rightarrow> string \<Rightarrow> candidate" where
  "by_tag_cand ranked tag =
     (case List.find (\<lambda>c. cd_tag c = tag) (rev ranked) of Some c \<Rightarrow> c | None \<Rightarrow> zero_candidate)"

definition series_key :: "string \<Rightarrow> string \<Rightarrow> string" where
  "series_key a b = a @ ''>'' @ b"

definition series :: "(string, int) gomap \<Rightarrow> string \<Rightarrow> int" where
  "series m k = (case map_of m k of Some n \<Rightarrow> n | None \<Rightarrow> 0)"

text \<open>The second loop of \<^verbatim>\<open>Decide\<close>: a healthy kept slot may switch to a better candidate.\<close>

fun decide_better ::
    "(rat \<Rightarrow> rat) \<Rightarrow> candidate list \<Rightarrow> sel_state \<Rightarrow> time \<Rightarrow> selection_config \<Rightarrow>
     string set \<Rightarrow> string set \<Rightarrow> (string, int) gomap \<Rightarrow> (slot \<times> action) list \<Rightarrow>
     action list \<times> (string, int) gomap" where
  "decide_better rnd ranked st now cfg use keys better [] = ([], better)"
| "decide_better rnd ranked st now cfg use keys better ((a, act) # rest) =
     (if ac_kind act \<noteq> Keep \<or> \<not> sl_healthy a \<or> sel_strategy cfg = ''label''
      then let (acts, b) = decide_better rnd ranked st now cfg use keys better rest in (act # acts, b)
      else
        let cur = by_tag_cand ranked (cd_tag (sl_cand a));
            keys1 = keys - {cd_key cur};
            stay = (\<lambda>b. let (acts, b') = decide_better rnd ranked st now cfg use (insert (cd_key cur) keys1) b rest
                        in (act # acts, b'))
        in case contender rnd cfg st now use keys1 cur {} ranked of
             None \<Rightarrow> stay better
           | Some c \<Rightarrow>
               (let k = series_key (cd_tag cur) (cd_tag c); n = series (ss_better st) k + 1
                in if n \<ge> sel_confirm cfg
                   then let (acts, b') = decide_better rnd ranked st now cfg (insert (cd_tag c) use)
                              (insert (cd_key c) keys1) (AList.delete k better) rest
                        in (\<lparr>ac_kind = Replace, ac_slot = ac_slot act, ac_to = c, ac_reason = ''better''\<rparr> # acts, b')
                   else stay (AList.update k n better)))"

definition decide ::
    "(rat \<Rightarrow> rat) \<Rightarrow> slot list \<Rightarrow> candidate list \<Rightarrow> sel_state \<Rightarrow> time \<Rightarrow> selection_config \<Rightarrow>
     action list \<times> sel_state" where
  "decide rnd active ranked st0 now cfg =
     (let st = st0\<lparr>ss_quarantine := map_keep (\<lambda>k u. now < u) (ss_quarantine st0)\<rparr>;
          use = (cd_tag \<circ> sl_cand) ` set active;
          keys = (cd_key \<circ> sl_cand) ` set (filter (\<lambda>a. cd_tag (sl_cand a) \<in> cd_tag ` set ranked) active);
          (acts, use1, keys1) = decide_gone ranked st now 0 use keys active;
          (acts', better) = decide_better rnd ranked st now cfg use1 keys1 [] (zip active acts)
      in (acts', st\<lparr>ss_better := better\<rparr>))"

section \<open>Ranking: lemmas\<close>

lemma comparator_or_nil: "comparator (\<lambda>x y. or_nil (f x) (f y))"
proof
  show "or_nil (f y) (f x) = - or_nil (f x) (f y)" for x y
    by (cases "f x"; cases "f y") (auto simp: cmp_ord_def)
  show "or_nil (f x) (f y) \<le> 0 \<Longrightarrow> or_nil (f y) (f z) \<le> 0 \<Longrightarrow> or_nil (f x) (f z) \<le> 0" for x y z
    by (cases "f x"; cases "f y"; cases "f z") (auto simp: cmp_ord_def split: if_splits)
qed

lemma comparator_empty_last: "comparator (\<lambda>x y. empty_last (f x) (f y))"
  by unfold_locales (auto simp: empty_last_def cmp_ord_def split: if_splits)

lemma comparator_rank_names: "comparator (\<lambda>x y. rank_names (f x) (f y))"
  unfolding rank_names_def
  by (rule comparator_cmp_or2 [OF comparator_empty_last comparator_cmp_ord])

lemma comparator_rank_cmp: "comparator (\<lambda>x y. rank_cmp strategy (f x) (f y))"
proof -
  note three = comparator_cmp_or3 [OF comparator_or_nil comparator_or_nil comparator_rank_names]
  consider "strategy = ''score''" | "strategy = ''load''"
    | "strategy \<noteq> ''score''" "strategy \<noteq> ''load''" by blast
  then show ?thesis
    by cases (simp_all add: rank_cmp_def three comparator_rank_names del: cmp_or.simps)
qed

interpretation rank_cmp: comparator "\<lambda>x y. rank_cmp strategy (f x) (f y)"
  by (rule comparator_rank_cmp)

lemma comparator_place: "comparator (place_cmp pos cs)"
  using comparator_cmp_or2 [OF comparator_cmp_ord comparator_cmp_ord]
  by (simp add: place_cmp_def [abs_def])

interpretation place: comparator "place_cmp pos cs"
  by (rule comparator_place)

lemma ranked_by_basic [simp]:
  "mset (ranked_by strategy sel items) = mset items"
  "set (ranked_by strategy sel items) = set items"
  "length (ranked_by strategy sel items) = length items"
  by (simp_all add: ranked_by_def)

lemma length_group_pos [simp]: "length (group_pos i first cs) = length cs"
  by (induction cs arbitrary: i first) (auto split: option.splits)

text \<open>Two candidates belong together: the same one, or two with a transport and one key.\<close>

definition together :: "candidate list \<Rightarrow> nat \<Rightarrow> nat \<Rightarrow> bool" where
  "together cs i j \<longleftrightarrow>
     i = j \<or> cd_transport (cs ! i) \<noteq> '''' \<and> cd_transport (cs ! j) \<noteq> '''' \<and> cd_key (cs ! i) = cd_key (cs ! j)"

text \<open>The place of an index is the first index it belongs together with.\<close>

definition first_place :: "candidate list \<Rightarrow> nat \<Rightarrow> nat \<Rightarrow> bool" where
  "first_place cs i p \<longleftrightarrow> p \<le> i \<and> together cs i p \<and> (\<forall>k < p. \<not> together cs i k)"

lemma together_sym: "together cs i j \<Longrightarrow> together cs j i"
  and together_trans: "together cs i j \<Longrightarrow> together cs j k \<Longrightarrow> together cs i k"
  by (auto simp: together_def)

lemma first_place_iff:
  assumes "first_place cs i p" "first_place cs j q"
  shows "p = q \<longleftrightarrow> together cs i j"
proof
  assume "p = q"
  then show "together cs i j"
    using assms together_sym together_trans unfolding first_place_def by metis
next
  assume t: "together cs i j"
  then have "together cs i q" "together cs j p"
    using assms together_sym together_trans unfolding first_place_def by metis+
  then show "p = q" using assms unfolding first_place_def by (metis linorder_neqE_nat)
qed

lemma group_pos_first:
  assumes "\<And>k p. map_of first k = Some p \<longleftrightarrow>
      (p < length xs \<and> cd_transport (xs ! p) \<noteq> '''' \<and> cd_key (xs ! p) = k \<and>
       (\<forall>q < p. cd_transport (xs ! q) \<noteq> '''' \<longrightarrow> cd_key (xs ! q) \<noteq> k))"
    and "i < length ys"
  shows "first_place (xs @ ys) (length xs + i) (group_pos (length xs) first ys ! i)"
  using assms
proof (induction ys arbitrary: xs first i)
  case (Cons c cs)
  let ?n = "length xs"
  note inv = Cons.prems(1)
  have self: "(xs @ c # cs) ! ?n = c" by simp
  have below: "(xs @ c # cs) ! q = xs ! q" if "q < ?n" for q using that by (simp add: nth_append)
  consider (plain) "cd_transport c = ''''"
    | (seen) p where "cd_transport c \<noteq> ''''" "map_of first (cd_key c) = Some p"
    | (new) "cd_transport c \<noteq> ''''" "map_of first (cd_key c) = None"
    by fastforce
  then show ?case
  proof cases
    case plain
    have inv': "map_of first k = Some p \<longleftrightarrow>
      (p < length (xs @ [c]) \<and> cd_transport ((xs @ [c]) ! p) \<noteq> '''' \<and> cd_key ((xs @ [c]) ! p) = k \<and>
       (\<forall>q < p. cd_transport ((xs @ [c]) ! q) \<noteq> '''' \<longrightarrow> cd_key ((xs @ [c]) ! q) \<noteq> k))" for k p
      using inv [of k p] plain by (auto simp: nth_append less_Suc_eq split: if_splits)
    show ?thesis
    proof (cases i)
      case 0
      then show ?thesis using plain by (simp add: first_place_def together_def)
    next
      case (Suc m)
      then show ?thesis
        using Cons.IH [of first "xs @ [c]" m, OF inv'] Cons.prems(2) plain by simp
    qed
  next
    case (seen p)
    then have p: "p < ?n" "cd_transport (xs ! p) \<noteq> ''''" "cd_key (xs ! p) = cd_key c"
      "\<forall>q < p. cd_transport (xs ! q) \<noteq> '''' \<longrightarrow> cd_key (xs ! q) \<noteq> cd_key c"
      using inv by auto
    have inv': "map_of first k = Some r \<longleftrightarrow>
      (r < length (xs @ [c]) \<and> cd_transport ((xs @ [c]) ! r) \<noteq> '''' \<and> cd_key ((xs @ [c]) ! r) = k \<and>
       (\<forall>q < r. cd_transport ((xs @ [c]) ! q) \<noteq> '''' \<longrightarrow> cd_key ((xs @ [c]) ! q) \<noteq> k))" for k r
      using inv [of k r] p by (auto simp: nth_append less_Suc_eq split: if_splits)
    show ?thesis
    proof (cases i)
      case 0
      then show ?thesis using seen p by (auto simp: first_place_def together_def below)
    next
      case (Suc m)
      then show ?thesis
        using Cons.IH [of first "xs @ [c]" m, OF inv'] Cons.prems(2) seen by simp
    qed
  next
    case new
    have none: "\<forall>q < ?n. cd_transport (xs ! q) \<noteq> '''' \<longrightarrow> cd_key (xs ! q) \<noteq> cd_key c"
    proof (rule ccontr)
      let ?P = "\<lambda>q. q < ?n \<and> cd_transport (xs ! q) \<noteq> '''' \<and> cd_key (xs ! q) = cd_key c"
      assume "\<not> ?thesis"
      then have ex: "\<exists>q. ?P q" by blast
      define l where "l = (LEAST q. ?P q)"
      have "?P l" using ex unfolding l_def by (rule LeastI_ex)
      moreover have "\<forall>q < l. \<not> ?P q" unfolding l_def using not_less_Least by blast
      ultimately have "map_of first (cd_key c) = Some l"
        using inv [of "cd_key c" l] by (meson order.strict_trans)
      with new show False by simp
    qed
    have inv': "map_of (AList.update (cd_key c) ?n first) k = Some r \<longleftrightarrow>
      (r < length (xs @ [c]) \<and> cd_transport ((xs @ [c]) ! r) \<noteq> '''' \<and> cd_key ((xs @ [c]) ! r) = k \<and>
       (\<forall>q < r. cd_transport ((xs @ [c]) ! q) \<noteq> '''' \<longrightarrow> cd_key ((xs @ [c]) ! q) \<noteq> k))" for k r
      using inv [of k r] none new by (auto simp: nth_append less_Suc_eq split: if_splits)
    show ?thesis
    proof (cases i)
      case 0
      then show ?thesis using new none by (auto simp: first_place_def together_def below)
    next
      case (Suc m)
      then show ?thesis
        using Cons.IH [of "AList.update (cd_key c) ?n first" "xs @ [c]" m, OF inv'] Cons.prems(2) new by simp
    qed
  qed
qed simp

lemma group_pos_place:
  "i < length cs \<Longrightarrow> first_place cs i (group_pos 0 [] cs ! i)"
  using group_pos_first [of "[]" "[]" i cs] by simp

text \<open>The indices in the order of \<^verbatim>\<open>Rank\<close>.\<close>

definition rank_idx :: "string \<Rightarrow> ('a \<Rightarrow> candidate) \<Rightarrow> 'a list \<Rightarrow> nat list" where
  "rank_idx strategy sel items =
     (let cs = map sel (ranked_by strategy sel items)
      in sort_by (place_cmp (group_pos 0 [] cs) cs) [0..<length items])"

lemma rank_eq: "rank strategy sel items = map (\<lambda>i. ranked_by strategy sel items ! i) (rank_idx strategy sel items)"
  by (simp add: rank_def rank_idx_def Let_def)

lemma rank_idx_basic [simp]:
  "mset (rank_idx strategy sel items) = mset [0..<length items]"
  "set (rank_idx strategy sel items) = {0..<length items}"
  "length (rank_idx strategy sel items) = length items"
  "distinct (rank_idx strategy sel items)"
  by (simp_all add: rank_idx_def Let_def)

lemma rank_idx_less: "i < length items \<Longrightarrow> rank_idx strategy sel items ! i < length items"
  using nth_mem [of i "rank_idx strategy sel items"] by simp

lemma rank_mset [simp]: "mset (rank strategy sel items) = mset items"
proof -
  let ?out = "ranked_by strategy sel items"
  have "mset (rank strategy sel items) = image_mset ((!) ?out) (mset [0..<length ?out])"
    by (simp add: rank_eq)
  also have "\<dots> = mset (map ((!) ?out) [0..<length ?out])" by simp
  finally show ?thesis by (simp only: map_nth) simp
qed

lemma rank_set [simp]: "set (rank strategy sel items) = set items"
  by (metis rank_mset set_mset_mset)

lemma rank_length [simp]: "length (rank strategy sel items) = length items"
  by (metis rank_mset size_mset)

text \<open>Without transports (wireguard) the ranking is the plain stable sort.\<close>

lemma group_pos_plain: "\<forall>c \<in> set cs. cd_transport c = '''' \<Longrightarrow> group_pos i first cs = [i..<i + length cs]"
  by (induction cs arbitrary: i) (auto simp: upt_rec)

lemma rank_plain:
  assumes "\<forall>x \<in> set items. cd_transport (sel x) = ''''"
  shows "rank strategy sel items = ranked_by strategy sel items"
proof -
  let ?out = "ranked_by strategy sel items"
  have pos: "group_pos 0 [] (map sel ?out) = [0..<length items]"
    using group_pos_plain [of "map sel ?out" 0 "[]"] assms by simp
  have "sorted_wrt (\<lambda>i j. place_cmp [0..<length items] (map sel ?out) i j \<le> 0) [0..<length items]"
    by (auto simp: sorted_wrt_iff_nth_less place_cmp_def cmp_ord_def)
  then have "rank_idx strategy sel items = [0..<length items]"
    by (simp add: rank_idx_def Let_def pos place.sort_by_id)
  then show ?thesis by (simp add: rank_eq map_nth [of ?out, simplified])
qed

text \<open>The relation of \<open>together\<close> on the items themselves.\<close>

definition same_line :: "('a \<Rightarrow> candidate) \<Rightarrow> 'a \<Rightarrow> 'a \<Rightarrow> bool" where
  "same_line sel x y \<longleftrightarrow>
     cd_transport (sel x) \<noteq> '''' \<and> cd_transport (sel y) \<noteq> '''' \<and> cd_key (sel x) = cd_key (sel y)"

lemma rank_order:
  fixes sel :: "'a \<Rightarrow> candidate" and strategy :: string
  assumes "i < j" "j < length items"
  defines "cs \<equiv> map sel (ranked_by strategy sel items)" and "idx \<equiv> rank_idx strategy sel items"
  shows "place_cmp (group_pos 0 [] cs) cs (idx ! i) (idx ! j) \<le> 0"
proof -
  have "sorted_wrt (\<lambda>i j. place_cmp (group_pos 0 [] cs) cs i j \<le> 0) idx"
    unfolding idx_def rank_idx_def Let_def cs_def by (rule place.sorted_sort_by)
  moreover have "j < length idx" using assms(2) by (simp add: idx_def)
  ultimately show ?thesis using assms(1) by (simp add: sorted_wrt_iff_nth_less)
qed

lemma rank_place:
  fixes sel :: "'a \<Rightarrow> candidate" and strategy :: string
  assumes "i < length items"
  defines "cs \<equiv> map sel (ranked_by strategy sel items)" and "k \<equiv> rank_idx strategy sel items ! i"
  shows "first_place cs k (group_pos 0 [] cs ! k)" "cs ! k = sel (rank strategy sel items ! i)"
    "ranked_by strategy sel items ! k = rank strategy sel items ! i" "k < length items"
proof -
  have "k < length items" unfolding k_def using assms(1) by (rule rank_idx_less)
  then show "first_place cs k (group_pos 0 [] cs ! k)" "cs ! k = sel (rank strategy sel items ! i)"
    "ranked_by strategy sel items ! k = rank strategy sel items ! i" "k < length items"
    using assms(1) by (auto simp: cs_def k_def rank_eq group_pos_place)
qed

lemma place_le:
  assumes "place_cmp pos cs a b \<le> 0"
  shows "pos ! a \<le> pos ! b" "pos ! a = pos ! b \<Longrightarrow> cd_priority (cs ! a) \<le> cd_priority (cs ! b)"
  using assms by (auto simp: place_cmp_def cmp_ord_def split: if_splits)

lemma rank_same_line:
  assumes "i < j" "j < length items" and r: "r = rank strategy sel items"
    and "same_line sel (r ! i) (r ! j)"
  shows "cd_priority (sel (r ! i)) \<le> cd_priority (sel (r ! j))"
    and "i < k \<Longrightarrow> k < j \<Longrightarrow> same_line sel (r ! i) (r ! k)"
proof -
  let ?out = "ranked_by strategy sel items" let ?cs = "map sel ?out"
  let ?idx = "rank_idx strategy sel items" let ?pos = "group_pos 0 [] ?cs"
  have il: "i < length items" using assms(1,2) by simp
  note pi = rank_place [OF il, where sel = sel and strategy = strategy] and pj = rank_place [OF assms(2), where sel = sel and strategy = strategy]
  have "together ?cs (?idx ! i) (?idx ! j)"
    using assms(4) pi(2) pj(2) by (simp add: together_def same_line_def r)
  then have eq: "?pos ! (?idx ! i) = ?pos ! (?idx ! j)"
    using first_place_iff [OF pi(1) pj(1)] by simp
  then show "cd_priority (sel (r ! i)) \<le> cd_priority (sel (r ! j))"
    using place_le(2) [OF rank_order [OF assms(1,2), where sel = sel and strategy = strategy]] pi(2) pj(2) r by simp
  assume k: "i < k" "k < j"
  then have kl: "k < length items" using assms(2) by simp
  note pk = rank_place [OF kl, where sel = sel and strategy = strategy]
  have "?pos ! (?idx ! i) = ?pos ! (?idx ! k)"
    using eq place_le(1) [OF rank_order [OF k(1) kl, where sel = sel and strategy = strategy]]
      place_le(1) [OF rank_order [OF k(2) assms(2), where sel = sel and strategy = strategy]] by simp
  then have "together ?cs (?idx ! i) (?idx ! k)"
    using first_place_iff [OF pi(1) pk(1)] by simp
  moreover have "?idx ! i \<noteq> ?idx ! k"
    using k(1) il kl by (simp add: nth_eq_iff_index_eq)
  ultimately show "same_line sel (r ! i) (r ! k)"
    using pi(2) pk(2) r by (simp add: together_def same_line_def)
qed

lemma rank_groups_by_best:
  assumes "i < j" "j < length items" and r: "r = rank strategy sel items"
    and "\<not> same_line sel (r ! i) (r ! j)"
  shows "\<exists>x \<in> set items. (x = r ! i \<or> same_line sel (r ! i) x) \<and>
    (\<forall>y \<in> set items. same_line sel (r ! j) y \<longrightarrow> rank_cmp strategy (sel x) (sel y) \<le> 0) \<and>
    rank_cmp strategy (sel x) (sel (r ! j)) \<le> 0"
proof -
  let ?out = "ranked_by strategy sel items" let ?cs = "map sel ?out"
  let ?idx = "rank_idx strategy sel items" let ?pos = "group_pos 0 [] ?cs"
  have il: "i < length items" using assms(1,2) by simp
  note pi = rank_place [OF il, where sel = sel and strategy = strategy] and pj = rank_place [OF assms(2), where sel = sel and strategy = strategy]
  let ?p = "?pos ! (?idx ! i)" and ?q = "?pos ! (?idx ! j)"
  have "?idx ! i \<noteq> ?idx ! j" using assms(1,2) il by (simp add: nth_eq_iff_index_eq)
  then have "\<not> together ?cs (?idx ! i) (?idx ! j)"
    using assms(4) pi(2) pj(2) r by (simp add: together_def same_line_def)
  then have less: "?p < ?q"
    using first_place_iff [OF pi(1) pj(1)] place_le(1) [OF rank_order [OF assms(1,2), where sel = sel and strategy = strategy]] by simp
  have pl: "?p < length ?out" using pi(1,4) by (simp add: first_place_def)
  have before: "rank_cmp strategy (sel (?out ! ?p)) (sel (?out ! k)) \<le> 0"
    if "together ?cs (?idx ! j) k" "k < length ?out" for k
  proof -
    have "?q \<le> k" using that(1) pj(1) unfolding first_place_def by (meson not_le)
    then have "?p < k" using less by simp
    moreover have "sorted_wrt (\<lambda>x y. rank_cmp strategy (sel x) (sel y) \<le> 0) ?out"
      unfolding ranked_by_def by (rule rank_cmp.sorted_sort_by)
    ultimately show ?thesis using that(2) by (simp add: sorted_wrt_iff_nth_less)
  qed
  have "rank_cmp strategy (sel (?out ! ?p)) (sel y) \<le> 0" if y: "y \<in> set items" "same_line sel (r ! j) y" for y
  proof -
    obtain k where k: "k < length ?out" "?out ! k = y"
      using y(1) ranked_by_basic(2) [of strategy sel items] by (metis in_set_conv_nth)
    then have "together ?cs (?idx ! j) k"
      using y(2) pj(2) r by (simp add: together_def same_line_def)
    then show ?thesis using before k by auto
  qed
  moreover have "rank_cmp strategy (sel (?out ! ?p)) (sel (r ! j)) \<le> 0"
    using before [of "?idx ! j"] pj(3,4) r by (simp add: together_def)
  moreover have "?out ! ?p = r ! i \<or> same_line sel (r ! i) (?out ! ?p)"
    using pi(1-4) pl r by (auto simp: first_place_def together_def same_line_def)
  moreover have "?out ! ?p \<in> set items" using pl nth_mem [of ?p ?out] by simp
  ultimately show ?thesis by blast
qed

section \<open>Picking: lemmas\<close>

text \<open>The reference for \<^verbatim>\<open>Pick\<close>: the first item of every key, cut to \<^verbatim>\<open>maxActive\<close>.\<close>

fun firsts :: "('a \<Rightarrow> candidate) \<Rightarrow> 'a list \<Rightarrow> 'a list" where
  "firsts sel [] = []"
| "firsts sel (x # xs) = x # filter (\<lambda>y. cd_key (sel y) \<noteq> cd_key (sel x)) (firsts sel xs)"

lemma pick_from_firsts:
  "int n \<le> mx \<Longrightarrow>
   pick_from sel mx n keys xs = take (nat (mx - int n)) (filter (\<lambda>y. cd_key (sel y) \<notin> keys) (firsts sel xs))"
proof (induction xs arbitrary: n keys)
  case (Cons x xs)
  show ?case
  proof (cases "int n = mx \<or> cd_key (sel x) \<in> keys")
    case True
    have "filter (\<lambda>y. cd_key (sel y) \<notin> keys \<and> cd_key (sel y) \<noteq> cd_key (sel x)) (firsts sel xs) =
      filter (\<lambda>y. cd_key (sel y) \<notin> keys) (firsts sel xs)" if "cd_key (sel x) \<in> keys"
      using that by (auto intro: filter_cong)
    with True Cons show ?thesis by (auto simp: conj_commute)
  next
    case False
    then have "nat (mx - int n) = Suc (nat (mx - int (Suc n)))" using Cons.prems by linarith
    then show ?thesis using False Cons by (simp add: conj_commute)
  qed
qed simp

lemma firsts_set: "set (firsts sel xs) \<subseteq> set xs"
  by (induction xs) auto

lemma firsts_keys: "distinct (map (cd_key \<circ> sel) (firsts sel xs))"
  by (induction xs) (auto simp: distinct_map inj_on_def)

lemma firsts_all: "y \<in> set xs \<Longrightarrow> \<exists>x \<in> set (firsts sel xs). cd_key (sel x) = cd_key (sel y)"
  by (induction xs) force+

lemma firsts_first:
  "x \<in> set (firsts sel xs) \<Longrightarrow> \<exists>i < length xs. xs ! i = x \<and> (\<forall>k < i. cd_key (sel (xs ! k)) \<noteq> cd_key (sel x))"
proof (induction xs)
  case (Cons a xs)
  show ?case
  proof (cases "x = a")
    case True
    then show ?thesis by (auto intro: exI [of _ 0])
  next
    case False
    then have "x \<in> set (firsts sel xs)" "cd_key (sel x) \<noteq> cd_key (sel a)" using Cons.prems by auto
    then obtain i where "i < length xs" "xs ! i = x" "\<forall>k < i. cd_key (sel (xs ! k)) \<noteq> cd_key (sel x)"
      using Cons.IH by blast
    with \<open>cd_key (sel x) \<noteq> cd_key (sel a)\<close> show ?thesis
      by (intro exI [of _ "Suc i"]) (auto simp: nth_Cons split: nat.split)
  qed
qed simp

lemma pick_firsts: "0 \<le> mx \<Longrightarrow> pick sel xs mx = take (nat mx) (firsts sel xs)"
  using pick_from_firsts [of 0 mx sel "{}" xs] by (simp add: pick_def)

lemma pick_set: "0 \<le> mx \<Longrightarrow> set (pick sel xs mx) \<subseteq> set xs"
  using firsts_set by (fastforce simp: pick_firsts dest: in_set_takeD)

lemma pick_length: "0 \<le> mx \<Longrightarrow> int (length (pick sel xs mx)) \<le> mx"
  by (simp add: pick_firsts)

lemma pick_keys: "0 \<le> mx \<Longrightarrow> distinct (map (cd_key \<circ> sel) (pick sel xs mx))"
  using firsts_keys [of sel xs] by (simp add: pick_firsts take_map [symmetric])

section \<open>Decisions: lemmas\<close>

lemma replacement_Some:
  "replacement ranked use keys st now = Some c \<Longrightarrow>
   c \<in> set ranked \<and> cd_tag c \<notin> use \<and> cd_key c \<notin> keys \<and> \<not> quarantined st c now"
  unfolding replacement_def by (drule find_Some_set) simp

lemma replacement_None:
  "replacement ranked use keys st now = None \<longleftrightarrow>
   (\<forall>c \<in> set ranked. cd_tag c \<in> use \<or> cd_key c \<in> keys \<or> quarantined st c now)"
  unfolding replacement_def find_None_set by blast

lemma contender_Some:
  "contender rnd cfg st now use keys cur seen ranked = Some c \<Longrightarrow>
   c \<in> set ranked \<and> cd_tag c \<notin> use \<and> cd_key c \<notin> keys \<and> \<not> quarantined st c now \<and>
   (cd_key c = cd_key cur \<longrightarrow> cd_transport c = cd_transport cur) \<and> beats rnd c cur cfg"
  by (induction rnd cfg st now use keys cur seen ranked rule: contender.induct)
    (auto split: if_splits)

lemma quarantined_keep:
  "quarantined (st\<lparr>ss_quarantine := map_keep (\<lambda>k u. now < u) (ss_quarantine st)\<rparr>) c now = quarantined st c now"
  by (auto simp: quarantined_def split: option.splits)

text \<open>The candidates of the slots after the actions, and the candidates the actions bring in.\<close>

definition outcome :: "slot \<times> action \<Rightarrow> candidate list" where
  "outcome p =
     (case ac_kind (snd p) of Keep \<Rightarrow> [sl_cand (fst p)] | Replace \<Rightarrow> [ac_to (snd p)] | Remove \<Rightarrow> [])"

definition outcomes :: "(slot \<times> action) list \<Rightarrow> candidate list" where
  "outcomes ps = concat (map outcome ps)"

definition news :: "action list \<Rightarrow> candidate list" where
  "news acts = map ac_to (filter (\<lambda>a. ac_kind a = Replace) acts)"

definition present :: "candidate list \<Rightarrow> slot \<Rightarrow> bool" where
  "present ranked a \<longleftrightarrow> cd_tag (sl_cand a) \<in> cd_tag ` set ranked"

lemma outcomes_simps [simp]:
  "outcomes [] = []" "outcomes (p # ps) = outcome p @ outcomes ps"
  by (simp_all add: outcomes_def)

lemma news_simps [simp]:
  "news [] = []" "news (a # as) = (if ac_kind a = Replace then ac_to a # news as else news as)"
  by (simp_all add: news_def)

lemma decide_gone_spec:
  "decide_gone ranked st now i use keys as = (acts, use', keys') \<Longrightarrow>
   length acts = length as \<and>
   (\<forall>j < length as. ac_slot (acts ! j) = i + j) \<and>
   (\<forall>j < length as. ac_kind (acts ! j) = Keep \<longleftrightarrow> present ranked (as ! j)) \<and>
   mset (outcomes (zip as acts)) = mset (map sl_cand (filter (present ranked) as)) + mset (news acts) \<and>
   (\<forall>c \<in> set (news acts). c \<in> set ranked \<and> cd_tag c \<notin> use \<and> cd_key c \<notin> keys \<and> \<not> quarantined st c now) \<and>
   distinct (map cd_tag (news acts)) \<and> distinct (map cd_key (news acts)) \<and>
   use' = use \<union> cd_tag ` set (news acts) \<and> keys' = keys \<union> cd_key ` set (news acts)"
proof (induction ranked st now i use keys as arbitrary: acts use' keys' rule: decide_gone.induct)
  case (1 ranked st now i use keys)
  then show ?case by simp
next
  case (2 ranked st now i use keys a as)
  show ?case
  proof (cases "present ranked a")
    case True
    then obtain acts0 where rec: "decide_gone ranked st now (Suc i) use keys as = (acts0, use', keys')"
      and acts: "acts = keep_action i # acts0"
      using 2(4) by (auto simp: present_def split: prod.splits)
    from 2(1) [OF True [unfolded present_def] rec] show ?thesis
      unfolding acts using True
      by (auto simp: nth_Cons outcome_def keep_action_def split: nat.splits)
  next
    case False
    then have np: "cd_tag (sl_cand a) \<notin> cd_tag ` set ranked" by (simp add: present_def)
    define r where "r = (if pair_of (sl_cand a) \<in> pair_of ` set ranked then ''changed'' else ''gone'')"
    show ?thesis
    proof (cases "replacement ranked use keys st now")
      case None
      then obtain acts0 where rec: "decide_gone ranked st now (Suc i) use keys as = (acts0, use', keys')"
        and acts: "acts = \<lparr>ac_kind = Remove, ac_slot = i, ac_to = zero_candidate, ac_reason = r\<rparr> # acts0"
        using 2(4) np by (auto simp: r_def Let_def split: prod.splits)
      from 2(2) [OF np refl None rec] show ?thesis
        unfolding acts using False by (auto simp: nth_Cons outcome_def split: nat.splits)
    next
      case (Some c)
      then obtain acts0 where
        rec: "decide_gone ranked st now (Suc i) (insert (cd_tag c) use) (insert (cd_key c) keys) as = (acts0, use', keys')"
        and acts: "acts = \<lparr>ac_kind = Replace, ac_slot = i, ac_to = c, ac_reason = r\<rparr> # acts0"
        using 2(4) np by (auto simp: r_def Let_def split: prod.splits)
      from 2(3) [OF np refl Some rec] replacement_Some [OF Some] show ?thesis
        unfolding acts using False by (auto simp: nth_Cons outcome_def split: nat.splits)
    qed
  qed
qed

text \<open>
  What the first loop decides for one slot: the tags and keys taken before it are those given, those
  of the slots (\<open>use\<close>, \<open>keys\<close>) and those of the candidates that entered an earlier slot (\<open>B\<close>).
\<close>

definition gone_reason :: "candidate list \<Rightarrow> slot \<Rightarrow> string" where
  "gone_reason ranked a = (if pair_of (sl_cand a) \<in> pair_of ` set ranked then ''changed'' else ''gone'')"

definition gone_action ::
    "candidate list \<Rightarrow> sel_state \<Rightarrow> time \<Rightarrow> string set \<Rightarrow> string set \<Rightarrow> candidate list \<Rightarrow> nat \<Rightarrow> slot \<Rightarrow> action" where
  "gone_action ranked st now use keys B i a =
     (case replacement ranked (use \<union> cd_tag ` set B) (keys \<union> cd_key ` set B) st now of
        Some c \<Rightarrow> \<lparr>ac_kind = Replace, ac_slot = i, ac_to = c, ac_reason = gone_reason ranked a\<rparr>
      | None \<Rightarrow> \<lparr>ac_kind = Remove, ac_slot = i, ac_to = zero_candidate, ac_reason = gone_reason ranked a\<rparr>)"

lemma decide_gone_nth:
  "decide_gone ranked st now i use keys as = (acts, use', keys') \<Longrightarrow> j < length as \<Longrightarrow>
   acts ! j = (if present ranked (as ! j) then keep_action (i + j)
     else gone_action ranked st now use keys (news (take j acts)) (i + j) (as ! j))"
proof (induction ranked st now i use keys as arbitrary: acts use' keys' j rule: decide_gone.induct)
  case (2 ranked st now i use keys a as)
  show ?case
  proof (cases "present ranked a")
    case True
    then obtain acts0 where rec: "decide_gone ranked st now (Suc i) use keys as = (acts0, use', keys')"
      and acts: "acts = keep_action i # acts0"
      using 2(4) by (auto simp: present_def split: prod.splits)
    show ?thesis using 2(1) [OF True [unfolded present_def] rec] True 2(5) unfolding acts
      by (cases j) (auto simp: keep_action_def)
  next
    case False
    then have np: "cd_tag (sl_cand a) \<notin> cd_tag ` set ranked" by (simp add: present_def)
    show ?thesis
    proof (cases "replacement ranked use keys st now")
      case None
      then obtain acts0 where rec: "decide_gone ranked st now (Suc i) use keys as = (acts0, use', keys')"
        and acts: "acts = \<lparr>ac_kind = Remove, ac_slot = i, ac_to = zero_candidate, ac_reason = gone_reason ranked a\<rparr> # acts0"
        using 2(4) np by (auto simp: gone_reason_def Let_def split: prod.splits)
      show ?thesis using 2(2) [OF np refl None rec] False 2(5) None unfolding acts
        by (cases j) (auto simp: gone_action_def)
    next
      case (Some c)
      then obtain acts0 where
        rec: "decide_gone ranked st now (Suc i) (insert (cd_tag c) use) (insert (cd_key c) keys) as = (acts0, use', keys')"
        and acts: "acts = \<lparr>ac_kind = Replace, ac_slot = i, ac_to = c, ac_reason = gone_reason ranked a\<rparr> # acts0"
        using 2(4) np by (auto simp: gone_reason_def Let_def split: prod.splits)
      show ?thesis using 2(3) [OF np refl Some rec] False 2(5) Some unfolding acts
        by (cases j) (auto simp: gone_action_def)
    qed
  qed
qed simp

lemma replacement_cong:
  assumes "\<And>c. quarantined st1 c now = quarantined st c now"
  shows "replacement ranked use keys st1 now = replacement ranked use keys st now"
  using assms by (simp add: replacement_def)

text \<open>A slot that is removed found no candidate; those taken later only shrink the choice.\<close>

lemma decide_gone_remove:
  "decide_gone ranked st now i use keys as = (acts, use', keys') \<Longrightarrow> act \<in> set acts \<Longrightarrow>
   ac_kind act = Remove \<Longrightarrow> c \<in> set ranked \<Longrightarrow>
   cd_tag c \<in> use' \<or> cd_key c \<in> keys' \<or> quarantined st c now"
proof (induction ranked st now i use keys as arbitrary: acts use' keys' rule: decide_gone.induct)
  case (2 ranked st now i use keys a as)
  show ?case
  proof (cases "cd_tag (sl_cand a) \<in> cd_tag ` set ranked")
    case True
    then show ?thesis using 2(1) [OF True] 2(4-7)
      by (auto simp: keep_action_def split: prod.splits)
  next
    case np: False
    show ?thesis
    proof (cases "replacement ranked use keys st now")
      case None
      then obtain acts0 u k where rec: "decide_gone ranked st now (Suc i) use keys as = (acts0, u, k)"
        by (metis prod_cases3)
      then have eqs: "u = use'" "k = keys'" "act \<in> set acts0 \<or> act \<notin> set acts0"
        using 2(4) np None by (auto simp: Let_def)
      have "use \<subseteq> use'" "keys \<subseteq> keys'" using decide_gone_spec [OF rec] eqs by auto
      then show ?thesis using None 2(7) by (auto simp: replacement_None)
    next
      case (Some d)
      then show ?thesis using 2(3) [OF np refl Some] 2(4-7) np
        by (auto simp: Let_def split: prod.splits)
    qed
  qed
qed simp

text \<open>The second loop, one step: the action stays, or it switches to a contender.\<close>

lemma decide_better_step:
  assumes "decide_better rnd ranked st now cfg use keys better ((a, act) # rest) = (acts, better')"
  defines "cur \<equiv> by_tag_cand ranked (cd_tag (sl_cand a))"
  obtains (stay) acts0 keys1 better1
      where "acts = act # acts0" "keys1 = keys \<or> ac_kind act = Keep \<and> keys1 = insert (cd_key cur) keys"
        "decide_better rnd ranked st now cfg use keys1 better1 rest = (acts0, better')"
        "better1 = better \<or> (\<exists>k. better1 = AList.update k (series (ss_better st) k + 1) better \<and>
           series (ss_better st) k + 1 < sel_confirm cfg)"
    | (switch) acts0 c k
      where "acts = \<lparr>ac_kind = Replace, ac_slot = ac_slot act, ac_to = c, ac_reason = ''better''\<rparr> # acts0"
        "ac_kind act = Keep" "sl_healthy a" "sel_strategy cfg \<noteq> ''label''"
        "contender rnd cfg st now use (keys - {cd_key cur}) cur {} ranked = Some c"
        "sel_confirm cfg \<le> series (ss_better st) (series_key (cd_tag cur) (cd_tag c)) + 1"
        "decide_better rnd ranked st now cfg (insert (cd_tag c) use) (insert (cd_key c) (keys - {cd_key cur}))
           (AList.delete k better) rest = (acts0, better')"
proof (cases "ac_kind act \<noteq> Keep \<or> \<not> sl_healthy a \<or> sel_strategy cfg = ''label''")
  case True
  then show thesis using assms(1) by (auto intro: stay split: prod.splits)
next
  case False
  then have keep: "ac_kind act = Keep" "sl_healthy a" "sel_strategy cfg \<noteq> ''label''" by auto
  have ins: "insert (cd_key cur) (keys - {cd_key cur}) = insert (cd_key cur) keys" by blast
  show thesis
  proof (cases "contender rnd cfg st now use (keys - {cd_key cur}) cur {} ranked")
    case None
    obtain acts0 b where rec:
      "decide_better rnd ranked st now cfg use (insert (cd_key cur) keys) better rest = (acts0, b)"
      by fastforce
    with None False assms(1) have "acts = act # acts0" "b = better'"
      by (auto simp: Let_def ins cur_def [symmetric])
    with rec keep show thesis by (intro stay) auto
  next
    case (Some c)
    let ?k = "series_key (cd_tag cur) (cd_tag c)" let ?n = "series (ss_better st) ?k + 1"
    show thesis
    proof (cases "sel_confirm cfg \<le> ?n")
      case True
      obtain acts0 b where rec: "decide_better rnd ranked st now cfg (insert (cd_tag c) use)
          (insert (cd_key c) (keys - {cd_key cur})) (AList.delete ?k better) rest = (acts0, b)"
        by fastforce
      with Some True False assms(1)
      have "acts = \<lparr>ac_kind = Replace, ac_slot = ac_slot act, ac_to = c, ac_reason = ''better''\<rparr> # acts0"
        "b = better'"
        by (auto simp: Let_def cur_def [symmetric])
      with rec keep Some True show thesis by (intro switch) auto
    next
      case le: False
      obtain acts0 b where rec:
        "decide_better rnd ranked st now cfg use (insert (cd_key cur) keys) (AList.update ?k ?n better) rest = (acts0, b)"
        by fastforce
      with Some le False assms(1) have "acts = act # acts0" "b = better'"
        by (auto simp: Let_def ins cur_def [symmetric])
      with rec keep le show thesis by (intro stay) auto
    qed
  qed
qed

lemma decide_better_keys:
  assumes "decide_better rnd ranked st now cfg use keys better prs = (acts, better')"
    and "distinct (ks @ map cd_key (outcomes prs))" "keys = set ks \<union> cd_key ` set (outcomes prs)"
    and "distinct (ts @ map cd_tag (outcomes prs))" "set ts \<union> cd_tag ` set (outcomes prs) \<subseteq> use"
    and "\<forall>(a, act) \<in> set prs. ac_kind act = Keep \<longrightarrow>
        cd_key (by_tag_cand ranked (cd_tag (sl_cand a))) = cd_key (sl_cand a)"
  shows "distinct (ks @ map cd_key (outcomes (zip (map fst prs) acts))) \<and>
    distinct (ts @ map cd_tag (outcomes (zip (map fst prs) acts)))"
  using assms
proof (induction prs arbitrary: use keys better ks ts acts better')
  case (Cons p rest)
  obtain a act where p: "p = (a, act)" by fastforce
  let ?cur = "by_tag_cand ranked (cd_tag (sl_cand a))"
  from Cons.prems(1) [unfolded p] show ?case
  proof (cases rule: decide_better_step)
    case (stay acts0 keys1 better1)
    have "keys1 = keys"
      using stay(2) Cons.prems(3,6) by (auto simp: p outcome_def)
    then have "distinct ((ks @ map cd_key (outcome p)) @ map cd_key (outcomes (zip (map fst rest) acts0))) \<and>
      distinct ((ts @ map cd_tag (outcome p)) @ map cd_tag (outcomes (zip (map fst rest) acts0)))"
      using Cons.prems by (intro Cons.IH [OF stay(3)]) auto
    then show ?thesis using stay(1) p by simp
  next
    case (switch acts0 c k)
    have key: "cd_key ?cur = cd_key (sl_cand a)" using Cons.prems(6) switch(2) p by simp
    have out: "outcome p = [sl_cand a]" using switch(2) p by (simp add: outcome_def)
    have fresh: "cd_tag c \<notin> use" "cd_key c \<notin> keys - {cd_key ?cur}"
      using contender_Some [OF switch(5)] by auto
    have minus: "keys - {cd_key ?cur} = set ks \<union> cd_key ` set (outcomes rest)"
      using Cons.prems(2,3) key out by auto
    have "distinct ((ks @ [cd_key c]) @ map cd_key (outcomes (zip (map fst rest) acts0))) \<and>
      distinct ((ts @ [cd_tag c]) @ map cd_tag (outcomes (zip (map fst rest) acts0)))"
    proof (rule Cons.IH [OF switch(7)])
      show "distinct ((ks @ [cd_key c]) @ map cd_key (outcomes rest))"
        using Cons.prems(2) fresh(2) minus out by auto
      show "insert (cd_key c) (keys - {cd_key ?cur}) = set (ks @ [cd_key c]) \<union> cd_key ` set (outcomes rest)"
        using minus by auto
      show "distinct ((ts @ [cd_tag c]) @ map cd_tag (outcomes rest))"
        using Cons.prems(4,5) fresh(1) out by auto
      show "set (ts @ [cd_tag c]) \<union> cd_tag ` set (outcomes rest) \<subseteq> insert (cd_tag c) use"
        using Cons.prems(5) by auto
      show "\<forall>(a, act) \<in> set rest. ac_kind act = Keep \<longrightarrow>
        cd_key (by_tag_cand ranked (cd_tag (sl_cand a))) = cd_key (sl_cand a)"
        using Cons.prems(6) by auto
    qed
    then show ?thesis using switch(1) p by (simp add: outcome_def)
  qed
qed simp

text \<open>What a switch for a better candidate takes.\<close>

definition switch_ok ::
    "(rat \<Rightarrow> rat) \<Rightarrow> candidate list \<Rightarrow> sel_state \<Rightarrow> time \<Rightarrow> selection_config \<Rightarrow> slot \<Rightarrow> candidate \<Rightarrow> bool" where
  "switch_ok rnd ranked st now cfg a c \<longleftrightarrow>
     (let cur = by_tag_cand ranked (cd_tag (sl_cand a)) in
      sl_healthy a \<and> sel_strategy cfg \<noteq> ''label'' \<and> c \<in> set ranked \<and> \<not> quarantined st c now \<and>
      beats rnd c cur cfg \<and> (cd_key c = cd_key cur \<longrightarrow> cd_transport c = cd_transport cur) \<and>
      sel_confirm cfg \<le> series (ss_better st) (series_key (cd_tag cur) (cd_tag c)) + 1)"

definition better_action :: "nat \<Rightarrow> candidate \<Rightarrow> action" where
  "better_action i c = \<lparr>ac_kind = Replace, ac_slot = i, ac_to = c, ac_reason = ''better''\<rparr>"

lemma decide_better_acts:
  "decide_better rnd ranked st now cfg use keys better prs = (acts, better') \<Longrightarrow>
   length acts = length prs \<and>
   (\<forall>j < length prs. acts ! j = snd (prs ! j) \<or>
      ac_kind (snd (prs ! j)) = Keep \<and>
      (\<exists>c. acts ! j = better_action (ac_slot (snd (prs ! j))) c \<and> cd_tag c \<notin> use \<and>
         switch_ok rnd ranked st now cfg (fst (prs ! j)) c))"
proof (induction prs arbitrary: use keys better acts better')
  case (Cons p rest)
  obtain a act where p: "p = (a, act)" by fastforce
  from Cons.prems [unfolded p] show ?case
  proof (cases rule: decide_better_step)
    case (stay acts0 keys1 better1)
    then show ?thesis using Cons.IH [OF stay(3)] p by (auto simp: nth_Cons split: nat.splits)
  next
    case (switch acts0 c k)
    note c = contender_Some [OF switch(5)]
    have ok: "switch_ok rnd ranked st now cfg a c"
      using c switch(3,4,6) by (simp add: switch_ok_def Let_def)
    show ?thesis
    proof (intro conjI allI impI)
      show "length acts = length (p # rest)" using Cons.IH [OF switch(7)] switch(1) by simp
      fix j assume "j < length (p # rest)"
      then show "acts ! j = snd ((p # rest) ! j) \<or>
        ac_kind (snd ((p # rest) ! j)) = Keep \<and>
        (\<exists>c. acts ! j = better_action (ac_slot (snd ((p # rest) ! j))) c \<and> cd_tag c \<notin> use \<and>
           switch_ok rnd ranked st now cfg (fst ((p # rest) ! j)) c)"
        using Cons.IH [OF switch(7)] switch(1,2) c ok p
        by (cases j) (auto simp: better_action_def)
    qed
  qed
qed simp

text \<open>The series after the loop: counted once more in this pass and still short of the limit.\<close>

definition series_ok :: "selection_config \<Rightarrow> sel_state \<Rightarrow> (string, int) gomap \<Rightarrow> bool" where
  "series_ok cfg st m \<longleftrightarrow>
     (\<forall>k n. map_of m k = Some n \<longrightarrow> n = series (ss_better st) k + 1 \<and> n < sel_confirm cfg)"

lemma decide_better_series:
  "decide_better rnd ranked st now cfg use keys better prs = (acts, better') \<Longrightarrow>
   series_ok cfg st better \<Longrightarrow> series_ok cfg st better'"
proof (induction prs arbitrary: use keys better acts better')
  case (Cons p rest)
  obtain a act where p: "p = (a, act)" by fastforce
  from Cons.prems(1) [unfolded p] show ?case
  proof (cases rule: decide_better_step)
    case (stay acts0 keys1 better1)
    have "series_ok cfg st better1"
      using stay(4) Cons.prems(2) by (auto simp: series_ok_def split: if_splits)
    then show ?thesis using Cons.IH [OF stay(3)] by blast
  next
    case (switch acts0 c k)
    have "series_ok cfg st (AList.delete k better)"
      using Cons.prems(2) by (auto simp: series_ok_def)
    then show ?thesis using Cons.IH [OF switch(7)] by blast
  qed
qed simp

lemma by_tag_cand_in:
  "cd_tag c \<in> cd_tag ` set ranked \<Longrightarrow> by_tag_cand ranked (cd_tag c) \<in> set ranked \<and>
   cd_tag (by_tag_cand ranked (cd_tag c)) = cd_tag c"
proof -
  assume a: "cd_tag c \<in> cd_tag ` set ranked"
  then have "List.find (\<lambda>d. cd_tag d = cd_tag c) (rev ranked) \<noteq> None"
    by (auto simp: find_None_set)
  then obtain d where d: "List.find (\<lambda>d. cd_tag d = cd_tag c) (rev ranked) = Some d" by blast
  from find_Some_set [OF d] d show ?thesis by (simp add: by_tag_cand_def)
qed

text \<open>The two loops of a decision.\<close>

lemma decide_loops:
  assumes "decide rnd active ranked st now cfg = (acts, st')"
  obtains st1 acts1 use1 keys1 better where
    "st1 = st\<lparr>ss_quarantine := map_keep (\<lambda>k u. now < u) (ss_quarantine st)\<rparr>"
    "decide_gone ranked st1 now 0 (cd_tag ` sl_cand ` set active)
       (cd_key ` sl_cand ` set (filter (present ranked) active)) active = (acts1, use1, keys1)"
    "decide_better rnd ranked st1 now cfg use1 keys1 [] (zip active acts1) = (acts, better)"
    "st' = st1\<lparr>ss_better := better\<rparr>"
  using assms
  by (auto simp: decide_def Let_def image_comp present_def [abs_def] split: prod.splits)

section \<open>Properties of the ranking and the pick\<close>

text \<open>A candidate for the witnesses.\<close>

definition cand_of :: "string \<Rightarrow> string \<Rightarrow> string \<Rightarrow> int \<Rightarrow> int option \<Rightarrow> candidate" where
  "cand_of tag key transport prio load =
     zero_candidate\<lparr>cd_tag := tag, cd_key := key, cd_transport := transport, cd_priority := prio,
       cd_load := load, cd_endpoint := ''h:1''\<rparr>"

lemmas cand_evals [go_eval] = cand_of_def zero_candidate_def

text \<open>
  Ranking wireguard candidates (no transport) is a stable sort: the same candidates, ordered
  by the strategy's comparator, equal ones in the order of the file.
\<close>

theorem rank_is_stable_sort:
  assumes "\<forall>x \<in> set items. cd_transport (sel x) = ''''"
  shows "mset (rank strategy sel items) = mset items \<and>
    sorted_wrt (\<lambda>x y. rank_cmp strategy (sel x) (sel y) \<le> 0) (rank strategy sel items) \<and>
    filter (\<lambda>y. rank_cmp strategy (sel k) (sel y) = 0) (rank strategy sel items) =
      filter (\<lambda>y. rank_cmp strategy (sel k) (sel y) = 0) items"
  unfolding rank_plain [OF assms] ranked_by_def
  by (intro conjI mset_sort_by rank_cmp.sorted_sort_by rank_cmp.sort_by_stable)

definition w_plain :: "candidate list" where
  "w_plain = [cand_of ''b'' ''k1'' '''' 0 (Some 7), cand_of ''a'' ''k2'' '''' 0 (Some 3),
     cand_of ''c'' ''k3'' '''' 0 None]"

lemma rank_is_stable_sort_witness: "mset (rank ''load'' id w_plain) = mset w_plain"
  using rank_is_stable_sort [of w_plain id "''load''"] by (simp add: w_plain_def go_eval)

text \<open>
  The masque lines of one key (same key, both with a transport) stand next to each other in
  the ranking, ordered by priority.
\<close>

theorem rank_groups_lines:
  assumes "i < j" "j < length items" "r = rank strategy sel items" "same_line sel (r ! i) (r ! j)"
  shows "cd_priority (sel (r ! i)) \<le> cd_priority (sel (r ! j)) \<and>
    (\<forall>k. i < k \<and> k < j \<longrightarrow> same_line sel (r ! i) (r ! k))"
  using rank_same_line [OF assms] by blast

definition w_masque :: "candidate list" where
  "w_masque = [cand_of ''x2'' ''k1'' ''h2'' 1 (Some 1), cand_of ''y'' ''k2'' ''h3'' 0 (Some 2),
     cand_of ''x1'' ''k1'' ''h3'' 0 (Some 3)]"

lemma w_masque_rank: "map cd_tag (rank ''load'' id w_masque) = [''x1'', ''x2'', ''y'']"
  by code_simp

lemma w_masque_line:
  "same_line id (rank ''load'' id w_masque ! 0) (rank ''load'' id w_masque ! 1)"
  by code_simp

lemma rank_groups_lines_witness:
  "cd_priority (rank ''load'' id w_masque ! 0) \<le> cd_priority (rank ''load'' id w_masque ! 1)"
  using rank_groups_lines [of 0 1 w_masque _ "''load''" id, OF _ _ refl w_masque_line]
  by (simp add: w_masque_def)

text \<open>
  Between two groups the best line decides: some line of the earlier group is ranked by the
  strategy no later than every line of the later group.
\<close>

theorem rank_orders_groups:
  assumes "i < j" "j < length items" "r = rank strategy sel items" "\<not> same_line sel (r ! i) (r ! j)"
  shows "\<exists>x \<in> set items. (x = r ! i \<or> same_line sel (r ! i) x) \<and>
    (\<forall>y \<in> set items. y = r ! j \<or> same_line sel (r ! j) y \<longrightarrow> rank_cmp strategy (sel x) (sel y) \<le> 0)"
  using rank_groups_by_best [OF assms] by blast

lemma w_masque_groups:
  "\<not> same_line id (rank ''load'' id w_masque ! 1) (rank ''load'' id w_masque ! 2)"
  by code_simp

lemma rank_orders_groups_witness:
  "\<exists>x \<in> set w_masque. (x = rank ''load'' id w_masque ! 1 \<or> same_line id (rank ''load'' id w_masque ! 1) x) \<and>
     (\<forall>y \<in> set w_masque. y = rank ''load'' id w_masque ! 2 \<or> same_line id (rank ''load'' id w_masque ! 2) y \<longrightarrow>
        rank_cmp ''load'' (id x) (id y) \<le> 0)"
  using rank_orders_groups [of 1 2 w_masque _ "''load''" id, OF _ _ refl w_masque_groups]
  by (simp add: w_masque_def)

text \<open>
  C11: The pick is the first item of every key, in rank order, cut to \<^verbatim>\<open>maxActive\<close>; so it has at
  most \<^verbatim>\<open>maxActive\<close> items with pairwise different keys, and when it is shorter every key is in it.
\<close>

theorem pick_takes_first_of_keys:
  assumes "0 \<le> mx"
  shows "pick sel ranked mx = take (nat mx) (firsts sel ranked) \<and>
    int (length (pick sel ranked mx)) \<le> mx \<and>
    distinct (map (cd_key \<circ> sel) (pick sel ranked mx)) \<and>
    (int (length (pick sel ranked mx)) < mx \<longrightarrow>
      (\<forall>y \<in> set ranked. \<exists>x \<in> set (pick sel ranked mx). cd_key (sel x) = cd_key (sel y)))"
proof (intro conjI impI ballI)
  show "pick sel ranked mx = take (nat mx) (firsts sel ranked)" using assms by (rule pick_firsts)
  show "int (length (pick sel ranked mx)) \<le> mx" using assms by (rule pick_length)
  show "distinct (map (cd_key \<circ> sel) (pick sel ranked mx))" using assms by (rule pick_keys)
  fix y assume "int (length (pick sel ranked mx)) < mx" "y \<in> set ranked"
  then show "\<exists>x \<in> set (pick sel ranked mx). cd_key (sel x) = cd_key (sel y)"
    using firsts_all [of y ranked sel] pick_firsts [OF assms, of sel ranked] by (simp add: min_def split: if_splits)
qed

lemma pick_takes_first_of_keys_witness:
  "pick id w_masque 2 = take 2 (firsts id w_masque)"
  using pick_takes_first_of_keys [of 2 id w_masque] by simp

text \<open>
  The active set of a masque source: the line of a key that takes a slot has the lowest
  priority among the lines of its key.
\<close>

theorem pick_lowest_priority:
  assumes "0 \<le> mx" "x \<in> set (pick sel (rank strategy sel items) mx)" "y \<in> set items" "same_line sel x y"
  shows "cd_priority (sel x) \<le> cd_priority (sel y)"
proof -
  let ?r = "rank strategy sel items"
  have x: "x \<in> set (firsts sel ?r)" using assms(2) unfolding pick_firsts [OF assms(1)] by (rule in_set_takeD)
  obtain i where i: "i < length ?r" "?r ! i = x" "\<forall>k < i. cd_key (sel (?r ! k)) \<noteq> cd_key (sel x)"
    using firsts_first [OF x] by blast
  have "y \<in> set ?r" using assms(3) by simp
  then obtain j where j: "j < length ?r" "?r ! j = y" unfolding in_set_conv_nth by blast
  have "\<not> j < i" using i(3) j(2) assms(4) by (auto simp: same_line_def)
  show ?thesis
  proof (cases "i = j")
    case True
    then show ?thesis using i(2) j(2) by simp
  next
    case False
    with \<open>\<not> j < i\<close> have "i < j" by simp
    then show ?thesis using rank_same_line(1) [OF _ _ refl, of i j items sel strategy] i j assms(4) by simp
  qed
qed

lemma w_masque_pick:
  "List.member (pick id (rank ''load'' id w_masque) 1) (w_masque ! 2) \<and> List.member w_masque (w_masque ! 0) \<and>
   same_line id (w_masque ! 2) (w_masque ! 0)"
  by code_simp

lemma pick_lowest_priority_witness: "cd_priority (w_masque ! 2) \<le> cd_priority (w_masque ! 0)"
  using pick_lowest_priority [of 1 "w_masque ! 2" id "''load''" w_masque "w_masque ! 0"] w_masque_pick
  by (simp add: List.member_iff)

section \<open>Properties of the decisions\<close>

lemma image_avoids: "\<forall>c \<in> A. f c \<notin> B \<Longrightarrow> B \<inter> f ` A = {}"
  by auto

lemma quarantined_st1:
  assumes "st1 = st\<lparr>ss_quarantine := map_keep (\<lambda>k u. now < u) (ss_quarantine st)\<rparr>"
  shows "quarantined st1 c now = quarantined st c now" "ss_better st1 = ss_better st"
  using quarantined_keep [of now st c] by (simp_all add: assms)

text \<open>
  C8: Every decision leaves the source with candidates of pairwise different tags and keys, one per
  slot that is not removed, if the kept slots had different keys before and a line keeps its key
  with its tag (the tag is a hash that covers the key).
\<close>

theorem decide_keeps_keys_distinct:
  assumes "distinct (map (cd_tag \<circ> sl_cand) active)"
    and "distinct (map (cd_key \<circ> sl_cand) (filter (present ranked) active))"
    and "\<forall>a \<in> set active. \<forall>c \<in> set ranked. cd_tag c = cd_tag (sl_cand a) \<longrightarrow> cd_key c = cd_key (sl_cand a)"
  shows "length (fst (decide rnd active ranked st now cfg)) = length active \<and>
    distinct (map cd_key (outcomes (zip active (fst (decide rnd active ranked st now cfg))))) \<and>
    distinct (map cd_tag (outcomes (zip active (fst (decide rnd active ranked st now cfg)))))"
proof -
  obtain acts st' where d: "decide rnd active ranked st now cfg = (acts, st')" by fastforce
  obtain st1 acts1 use1 keys1 better where
    gone: "decide_gone ranked st1 now 0 (cd_tag ` sl_cand ` set active)
       (cd_key ` sl_cand ` set (filter (present ranked) active)) active = (acts1, use1, keys1)"
    and bet: "decide_better rnd ranked st1 now cfg use1 keys1 [] (zip active acts1) = (acts, better)"
    using decide_loops [OF d] by metis
  note g = decide_gone_spec [OF gone]
  have len: "length acts1 = length active" using g by blast
  let ?out = "outcomes (zip active acts1)" let ?pres = "filter (present ranked) active"
  have ms: "mset ?out = mset (map sl_cand ?pres @ news acts1)" using g by simp
  have k1: "\<forall>c \<in> set (news acts1). cd_key c \<notin> cd_key ` sl_cand ` set ?pres" using g by blast
  have t1: "\<forall>c \<in> set (news acts1). cd_tag c \<notin> cd_tag ` sl_cand ` set active" using g by blast
  have sub: "cd_tag ` sl_cand ` set ?pres \<subseteq> cd_tag ` sl_cand ` set active"
    by (intro image_mono filter_is_subset)
  have disj: "cd_key ` sl_cand ` set ?pres \<inter> cd_key ` set (news acts1) = {}"
    "cd_tag ` sl_cand ` set ?pres \<inter> cd_tag ` set (news acts1) = {}"
    using image_avoids [OF k1] image_avoids [OF t1] sub by (simp_all only: disjoint_iff subset_iff) iprover
  have new: "distinct (map cd_key (news acts1))" "distinct (map cd_tag (news acts1))"
    using g by simp_all
  have keys: "distinct (map cd_key (map sl_cand ?pres @ news acts1))"
    unfolding map_append distinct_append map_map set_map image_comp [symmetric]
    using assms(2) disj(1) new(1) by (intro conjI)
  have tags: "distinct (map cd_tag (map sl_cand ?pres @ news acts1))"
    unfolding map_append distinct_append map_map set_map image_comp [symmetric]
    using distinct_map_filter [OF assms(1)] disj(2) new(2) by (intro conjI)
  have dk: "distinct (map cd_key ?out)" "distinct (map cd_tag ?out)"
    using keys tags ms by (metis mset_eq_imp_distinct_iff mset_map)+
  have out: "set ?out = sl_cand ` set ?pres \<union> set (news acts1)"
    using ms by (metis set_append set_map set_mset_mset)
  have agree: "\<forall>(a, act) \<in> set (zip active acts1). ac_kind act = Keep \<longrightarrow>
      cd_key (by_tag_cand ranked (cd_tag (sl_cand a))) = cd_key (sl_cand a)"
  proof (clarify)
    fix a act assume z: "(a, act) \<in> set (zip active acts1)" "ac_kind act = Keep"
    then obtain j where "j < length active" "active ! j = a" "acts1 ! j = act" by (auto simp: set_zip)
    then have "present ranked a" using g z(2) by auto
    then have "by_tag_cand ranked (cd_tag (sl_cand a)) \<in> set ranked"
      "cd_tag (by_tag_cand ranked (cd_tag (sl_cand a))) = cd_tag (sl_cand a)"
      using by_tag_cand_in [of "sl_cand a" ranked] by (simp_all add: present_def)
    then show "cd_key (by_tag_cand ranked (cd_tag (sl_cand a))) = cd_key (sl_cand a)"
      using assms(3) z(1) by (auto dest: set_zip_leftD)
  qed
  have "distinct ([] @ map cd_key (outcomes (zip (map fst (zip active acts1)) acts))) \<and>
    distinct ([] @ map cd_tag (outcomes (zip (map fst (zip active acts1)) acts)))"
    using g out dk by (intro decide_better_keys [OF bet _ _ _ _ agree]) auto
  moreover have "length acts = length active" using decide_better_acts [OF bet] len by simp
  ultimately show ?thesis using len by (simp add: d map_fst_zip)
qed

text \<open>The candidates that entered the slots before \<open>j\<close> in the first loop, read from the final actions.\<close>

lemma decide_gone_early:
  assumes gone: "decide_gone ranked st1 now 0 use keys active = (acts1, use1, keys1)"
    and bet: "decide_better rnd ranked st2 now cfg use2 keys2 better0 (zip active acts1) = (acts, better)"
    and "j \<le> length active"
  shows "map ac_to (map snd (filter (\<lambda>p. \<not> present ranked (fst p) \<and> ac_kind (snd p) = Replace)
      (take j (zip active acts)))) = news (take j acts1)"
  using assms(3)
proof (induction j)
  case 0
  then show ?case by (simp add: news_def)
next
  case (Suc j)
  note g = decide_gone_spec [OF gone] and b = decide_better_acts [OF bet]
  have len: "length acts1 = length active" "length acts = length active" "j < length active"
    using g b Suc.prems by simp_all
  have kp: "ac_kind (acts1 ! j) = Keep \<longleftrightarrow> present ranked (active ! j)" using g len(3) by blast
  have or: "acts ! j = acts1 ! j \<or> ac_kind (acts1 ! j) = Keep" using b len by fastforce
  have "(\<not> present ranked (active ! j) \<and> ac_kind (acts ! j) = Replace) = (ac_kind (acts1 ! j) = Replace)"
    and "ac_kind (acts1 ! j) = Replace \<Longrightarrow> acts ! j = acts1 ! j"
    using kp or by auto
  then show ?case using Suc len by (simp add: take_Suc_conv_app_nth news_def)
qed

text \<open>
  C10: Which slots change. A slot whose candidate is still in the file is never removed and, when it is
  not healthy or the strategy is label, never touched. A slot whose candidate left the file takes the
  first candidate of the ranked list whose tag is in no slot and went into no earlier one, whose key is
  that of no slot that stays and of no candidate that went into an earlier slot, and whose pair is not in
  quarantine; it is removed exactly when there is no such candidate. The reason is changed when the file
  still has a candidate with the pair of the old one, otherwise gone.
\<close>

theorem decide_gone_slots:
  assumes "j < length active"
  shows "ac_slot (fst (decide rnd active ranked st now cfg) ! j) = j \<and>
    (present ranked (active ! j) \<longrightarrow> ac_kind (fst (decide rnd active ranked st now cfg) ! j) \<noteq> Remove) \<and>
    (present ranked (active ! j) \<and> (\<not> sl_healthy (active ! j) \<or> sel_strategy cfg = ''label'') \<longrightarrow>
       ac_kind (fst (decide rnd active ranked st now cfg) ! j) = Keep) \<and>
    (\<not> present ranked (active ! j) \<longrightarrow>
       (let acts = fst (decide rnd active ranked st now cfg);
            earlier = map ac_to (map snd (filter (\<lambda>p. \<not> present ranked (fst p) \<and> ac_kind (snd p) = Replace)
              (take j (zip active acts))));
            reason = (if pair_of (sl_cand (active ! j)) \<in> pair_of ` set ranked then ''changed'' else ''gone'')
        in acts ! j =
          (case List.find (\<lambda>c. cd_tag c \<notin> cd_tag ` sl_cand ` set active \<and> cd_tag c \<notin> cd_tag ` set earlier \<and>
                  cd_key c \<notin> cd_key ` sl_cand ` set (filter (present ranked) active) \<and> cd_key c \<notin> cd_key ` set earlier \<and>
                  \<not> quarantined st c now) ranked of
             Some c \<Rightarrow> \<lparr>ac_kind = Replace, ac_slot = j, ac_to = c, ac_reason = reason\<rparr>
           | None \<Rightarrow> \<lparr>ac_kind = Remove, ac_slot = j, ac_to = zero_candidate, ac_reason = reason\<rparr>)))"
proof -
  obtain acts st' where d: "decide rnd active ranked st now cfg = (acts, st')" by fastforce
  obtain st1 acts1 use1 keys1 better where
    st1: "st1 = st\<lparr>ss_quarantine := map_keep (\<lambda>k u. now < u) (ss_quarantine st)\<rparr>"
    and gone: "decide_gone ranked st1 now 0 (cd_tag ` sl_cand ` set active)
       (cd_key ` sl_cand ` set (filter (present ranked) active)) active = (acts1, use1, keys1)"
    and bet: "decide_better rnd ranked st1 now cfg use1 keys1 [] (zip active acts1) = (acts, better)"
    using decide_loops [OF d] by metis
  note g = decide_gone_spec [OF gone] and b = decide_better_acts [OF bet]
  have z: "zip active acts1 ! j = (active ! j, acts1 ! j)" "j < length (zip active acts1)"
    using assms g by auto
  have np: "ac_kind (acts1 ! j) = Keep \<longleftrightarrow> present ranked (active ! j)" "ac_slot (acts1 ! j) = j"
    using assms g by auto
  let ?use = "cd_tag ` sl_cand ` set active" and ?keys = "cd_key ` sl_cand ` set (filter (present ranked) active)"
  from b z have or: "acts ! j = acts1 ! j \<or> ac_kind (acts1 ! j) = Keep \<and>
    (\<exists>c. acts ! j = better_action (ac_slot (acts1 ! j)) c \<and>
       switch_ok rnd ranked st1 now cfg (active ! j) c)" by fastforce
  have early: "map ac_to (map snd (filter (\<lambda>p. \<not> present ranked (fst p) \<and> ac_kind (snd p) = Replace)
      (take j (zip active acts)))) = news (take j acts1)"
    using assms decide_gone_early [OF gone bet, of j] by simp
  have exact: "acts ! j = gone_action ranked st now ?use ?keys (news (take j acts1)) j (active ! j)"
    if np: "\<not> present ranked (active ! j)"
  proof -
    have "acts ! j = acts1 ! j" using or np assms g by auto
    also have "\<dots> = gone_action ranked st1 now ?use ?keys (news (take j acts1)) j (active ! j)"
      using decide_gone_nth [OF gone assms] np by simp
    finally show ?thesis
      by (simp add: gone_action_def replacement_cong [OF quarantined_st1(1) [OF st1]])
  qed
  have first: "acts ! j =
      (case List.find (\<lambda>c. cd_tag c \<notin> ?use \<and> cd_tag c \<notin> cd_tag ` set (news (take j acts1)) \<and>
              cd_key c \<notin> ?keys \<and> cd_key c \<notin> cd_key ` set (news (take j acts1)) \<and> \<not> quarantined st c now) ranked of
         Some c \<Rightarrow> \<lparr>ac_kind = Replace, ac_slot = j, ac_to = c, ac_reason = gone_reason ranked (active ! j)\<rparr>
       | None \<Rightarrow> \<lparr>ac_kind = Remove, ac_slot = j, ac_to = zero_candidate, ac_reason = gone_reason ranked (active ! j)\<rparr>)"
    if np: "\<not> present ranked (active ! j)"
    unfolding exact [OF np] gone_action_def replacement_def Un_iff de_Morgan_disj conj_assoc ..
  from or np have keeps: "ac_slot (acts ! j) = j \<and> (present ranked (active ! j) \<longrightarrow> ac_kind (acts ! j) \<noteq> Remove) \<and>
      (present ranked (active ! j) \<and> (\<not> sl_healthy (active ! j) \<or> sel_strategy cfg = ''label'') \<longrightarrow>
         ac_kind (acts ! j) = Keep)"
    by (auto simp: better_action_def switch_ok_def Let_def)
  show ?thesis unfolding d fst_conv Let_def early
    using keeps first unfolding gone_reason_def by blast
qed

text \<open>
  C9: A candidate brought into a slot is one of the file, is not in quarantine, was in no slot
  before, and a switch for a better one happens only to a healthy slot, to a candidate that beats
  the slot's by the margin, after \<^verbatim>\<open>switchConfirmChecks\<close> checks in a row.
\<close>

theorem decide_replacements_allowed:
  assumes "j < length active" "act = fst (decide rnd active ranked st now cfg) ! j" "ac_kind act = Replace"
  shows "ac_to act \<in> set ranked \<and> \<not> quarantined st (ac_to act) now \<and>
    (\<forall>a \<in> set active. cd_tag (sl_cand a) \<noteq> cd_tag (ac_to act)) \<and>
    (present ranked (active ! j) \<longrightarrow>
       ac_reason act = ''better'' \<and> switch_ok rnd ranked st now cfg (active ! j) (ac_to act))"
proof -
  obtain acts st' where d: "decide rnd active ranked st now cfg = (acts, st')" by fastforce
  obtain st1 acts1 use1 keys1 better where
    st1: "st1 = st\<lparr>ss_quarantine := map_keep (\<lambda>k u. now < u) (ss_quarantine st)\<rparr>"
    and gone: "decide_gone ranked st1 now 0 (cd_tag ` sl_cand ` set active)
       (cd_key ` sl_cand ` set (filter (present ranked) active)) active = (acts1, use1, keys1)"
    and bet: "decide_better rnd ranked st1 now cfg use1 keys1 [] (zip active acts1) = (acts, better)"
    using decide_loops [OF d] by metis
  note g = decide_gone_spec [OF gone] and b = decide_better_acts [OF bet] and q = quarantined_st1 [OF st1]
  have z: "zip active acts1 ! j = (active ! j, acts1 ! j)" "j < length (zip active acts1)"
    and len: "length acts1 = length active" using assms(1) g by auto
  have sw: "switch_ok rnd ranked st1 now cfg a c = switch_ok rnd ranked st now cfg a c" for a c
    by (simp add: switch_ok_def q Let_def)
  have kp: "ac_kind (acts1 ! j) = Keep \<longleftrightarrow> present ranked (active ! j)"
    using assms(1) g by auto
  have old: "\<forall>a \<in> set active. cd_tag (sl_cand a) \<noteq> tag" if "tag \<notin> use1" for tag
    using g that by auto
  from b z consider (same) "acts ! j = acts1 ! j"
    | (better) c where "ac_kind (acts1 ! j) = Keep" "acts ! j = better_action (ac_slot (acts1 ! j)) c"
        "cd_tag c \<notin> use1" "switch_ok rnd ranked st1 now cfg (active ! j) c" by fastforce
  then show ?thesis
  proof cases
    case same
    then have "ac_to act \<in> set (news acts1)"
      using assms d len by (auto simp: news_def)
    then have "ac_to act \<in> set ranked" "\<not> quarantined st1 (ac_to act) now"
      "cd_tag (ac_to act) \<notin> cd_tag ` sl_cand ` set active"
      using g by blast+
    moreover have "\<not> present ranked (active ! j)" using same kp assms(2,3) d by auto
    ultimately show ?thesis using q(1) by (metis imageI)
  next
    case (better c)
    have ok: "switch_ok rnd ranked st now cfg (active ! j) c"
      and act: "ac_to act = c" "ac_reason act = ''better''"
      using better(2,4) assms(2) d by (simp_all add: sw better_action_def)
    from ok have "c \<in> set ranked" "\<not> quarantined st c now"
      by (simp_all add: switch_ok_def Let_def)
    with ok act old [OF better(3)] show ?thesis by simp
  qed
qed

text \<open>
  The hysteresis series after a decision: each pair still counted was counted once more by this
  decision and is short of the limit; a pair that was not better this time starts from nothing.
\<close>

theorem decide_series:
  assumes "map_of (ss_better (snd (decide rnd active ranked st now cfg))) k = Some n"
  shows "n = series (ss_better st) k + 1 \<and> n < sel_confirm cfg"
proof -
  obtain acts st' where d: "decide rnd active ranked st now cfg = (acts, st')" by fastforce
  obtain st1 acts1 use1 keys1 better where
    st1: "st1 = st\<lparr>ss_quarantine := map_keep (\<lambda>k u. now < u) (ss_quarantine st)\<rparr>"
    and bet: "decide_better rnd ranked st1 now cfg use1 keys1 [] (zip active acts1) = (acts, better)"
    and st': "st' = st1\<lparr>ss_better := better\<rparr>"
    using decide_loops [OF d] by metis
  have "series_ok cfg st1 better"
    using decide_better_series [OF bet] by (simp add: series_ok_def)
  then show ?thesis using assms d st' quarantined_st1 [OF st1] by (auto simp: series_ok_def)
qed

text \<open>
  The witnesses: a source with two slots, the first healthy on ''a'', the second on ''g'' which
  left the file; ''n'' is a new candidate and ''f'' a faster one that was better twice already.
\<close>

definition w_active :: "slot list" where
  "w_active = [\<lparr>sl_cand = cand_of ''a'' ''k1'' '''' 0 (Some 50), sl_healthy = True\<rparr>,
     \<lparr>sl_cand = cand_of ''g'' ''k2'' '''' 0 (Some 60), sl_healthy = False\<rparr>]"

definition w_ranked :: "candidate list" where
  "w_ranked = [cand_of ''n'' ''k3'' '''' 0 (Some 5), cand_of ''f'' ''k4'' '''' 0 (Some 10),
     cand_of ''a'' ''k1'' '''' 0 (Some 50)]"

definition w_sel :: selection_config where
  "w_sel = \<lparr>sel_strategy = ''load'', sel_margin = 20, sel_confirm = 3, sel_cooldown = 30, sel_replace_after = 3\<rparr>"

definition w_state :: sel_state where
  "w_state = \<lparr>ss_quarantine = [], ss_better = [(''a>f'', 2)]\<rparr>"

definition w_state1 :: sel_state where
  "w_state1 = \<lparr>ss_quarantine = [], ss_better = [(''a>f'', 1)]\<rparr>"

lemmas w_decide_defs = w_active_def w_ranked_def w_sel_def w_state_def w_state1_def go_eval

lemma w_decide:
  "decide id w_active w_ranked w_state 0 w_sel =
    ([better_action 0 (cand_of ''f'' ''k4'' '''' 0 (Some 10)),
      \<lparr>ac_kind = Replace, ac_slot = 1, ac_to = cand_of ''n'' ''k3'' '''' 0 (Some 5), ac_reason = ''gone''\<rparr>],
     \<lparr>ss_quarantine = [], ss_better = []\<rparr>)"
  by (simp add: w_decide_defs decide_def replacement_def quarantined_def keep_action_def map_keep_def
      by_tag_cand_def pair_of_def Let_def beats_def load_rat_def series_def series_key_def better_action_def)

lemma w_decide1:
  "ss_better (snd (decide id w_active w_ranked w_state1 0 w_sel)) = [(''a>f'', 2)]"
  by (simp add: w_decide_defs decide_def replacement_def quarantined_def keep_action_def map_keep_def
      by_tag_cand_def pair_of_def Let_def beats_def load_rat_def series_def series_key_def)

lemma decide_keeps_keys_distinct_witness:
  "distinct (map cd_key (outcomes (zip w_active (fst (decide id w_active w_ranked w_state 0 w_sel)))))"
  using decide_keeps_keys_distinct [of w_active w_ranked id w_state 0 w_sel]
  by (simp add: w_active_def w_ranked_def present_def go_eval)

lemma decide_gone_slots_witness:
  "fst (decide id w_active w_ranked w_state 0 w_sel) ! 1 =
     \<lparr>ac_kind = Replace, ac_slot = 1, ac_to = cand_of ''n'' ''k3'' '''' 0 (Some 5), ac_reason = ''gone''\<rparr>"
proof -
  have "1 < length w_active" by (simp add: w_active_def)
  note slot = decide_gone_slots [OF this, of id w_ranked w_state 0 w_sel]
  have "\<not> present w_ranked (w_active ! 1)" by (simp add: w_active_def w_ranked_def present_def go_eval)
  note act = slot [THEN conjunct2, THEN conjunct2, THEN conjunct2, THEN mp, OF this, unfolded Let_def]
  show ?thesis
    by (rule trans [OF act], unfold w_decide)
      (simp add: better_action_def w_decide_defs present_def pair_of_def quarantined_def del: set_filter)
qed

lemma decide_replacements_allowed_witness:
  "switch_ok id w_ranked w_state 0 w_sel (w_active ! 0) (cand_of ''f'' ''k4'' '''' 0 (Some 10))"
  using decide_replacements_allowed [of 0 w_active "fst (decide id w_active w_ranked w_state 0 w_sel) ! 0"
      id w_ranked w_state 0 w_sel]
  by (simp add: w_decide better_action_def) (simp add: w_active_def w_ranked_def present_def go_eval)

lemma decide_series_witness: "series (ss_better w_state1) ''a>f'' = 1"
  using decide_series [of id w_active w_ranked w_state1 0 w_sel "''a>f''" 2] w_decide1 by simp

end
