(* ===== verification/Scd_Xray_Api.thy ===== *)
theory Scd_Xray_Api
  imports Scd_Prelude
begin

text \<open>
  The client side of the Xray API (\<^verbatim>\<open>internal/scd/xrayapi\<close>): the error values every call
  returns and their texts, the mapping of gRPC statuses to them, the call surface as a record of
  actions on a world, and the laws of that surface as a locale.

  Xray itself is not part of the repository. The locale \<open>xray_api\<close> states what the interface
  comments of \<^verbatim>\<open>client.go\<close> document of it: what a successful call did, and that a failed call
  either did nothing or did exactly what it was asked to (a call may time out after it
  happened). Every algorithm above is proved for every client with these laws; the in-process
  server of \<^verbatim>\<open>xrayfake\<close> is one (theory \<open>Scd_Xray_Fake\<close>).
\<close>

section \<open>Errors\<close>

text \<open>
  The error values of the code. \<open>ErrWrap p e\<close> is \<^verbatim>\<open>fmt.Errorf("<p>: %w", e)\<close>, \<open>CapReached\<close> is
  \<^verbatim>\<open>ErrCapReached\<close> with its counts, \<open>ReplaceFailed\<close> wraps \<^verbatim>\<open>ErrReplaceFailed\<close>, \<open>StuckOnInitial\<close> is
  \<^verbatim>\<open>stuckOnInitialError\<close> and \<open>ErrText\<close> an error that is only a text.
\<close>

datatype err =
    ApiError string bool
  | ServiceDisabled string
  | BalancerNotFound string
  | CapReached nat int
  | ErrText string
  | ErrWrap string err
  | ReplaceFailed err
  | StuckOnInitial err
  | Canceled

fun err_text :: "err \<Rightarrow> string" where
  "err_text (ApiError m u) = m"
| "err_text (ServiceDisabled s) =
     ''Xray API service '' @ s @ '' is not enabled (add it to api.services).''"
| "err_text (BalancerNotFound t) = ''Xray balancer \"'' @ t @ ''\" not found.''"
| "err_text (CapReached n limit) =
     ''the source already has maxActive outbounds in Xray ('' @ nat_text n @ '' of '' @
     int_text limit @ '')''"
| "err_text (ErrText s) = s"
| "err_text (ErrWrap p e) = p @ '': '' @ err_text e"
| "err_text (ReplaceFailed e) = ''candidate replace failed: '' @ err_text e"
| "err_text (StuckOnInitial e) = err_text e"
| "err_text Canceled = ''context canceled''"

text \<open>\<^verbatim>\<open>IsUnavailable\<close>: \<^verbatim>\<open>errors.AsType\<close> looks through the wrappers.\<close>

fun is_unavailable :: "err \<Rightarrow> bool" where
  "is_unavailable (ApiError m u) = u"
| "is_unavailable (ErrWrap p e) = is_unavailable e"
| "is_unavailable (ReplaceFailed e) = is_unavailable e"
| "is_unavailable (StuckOnInitial e) = is_unavailable e"
| "is_unavailable _ = False"

text \<open>\<^verbatim>\<open>errors.Is(err, ErrCapReached)\<close>.\<close>

fun is_cap_reached :: "err \<Rightarrow> bool" where
  "is_cap_reached (CapReached n l) = True"
| "is_cap_reached (ErrWrap p e) = is_cap_reached e"
| "is_cap_reached (ReplaceFailed e) = is_cap_reached e"
| "is_cap_reached (StuckOnInitial e) = is_cap_reached e"
| "is_cap_reached _ = False"

fun is_not_found :: "err \<Rightarrow> bool" where
  "is_not_found (BalancerNotFound t) = True"
| "is_not_found (ErrWrap p e) = is_not_found e"
| "is_not_found _ = False"

fun is_disabled :: "err \<Rightarrow> bool" where
  "is_disabled (ServiceDisabled t) = True"
| "is_disabled (ErrWrap p e) = is_disabled e"
| "is_disabled _ = False"

section \<open>From gRPC statuses to errors\<close>

text \<open>A gRPC status: its code (the numbers of \<^verbatim>\<open>grpc/codes\<close>) and message.\<close>

record status =
  st_code :: nat
  st_msg :: string

definition code_Unknown :: nat where "code_Unknown = 2"
definition code_DeadlineExceeded :: nat where "code_DeadlineExceeded = 4"
definition code_Unimplemented :: nat where "code_Unimplemented = 12"
definition code_Unavailable :: nat where "code_Unavailable = 14"

lemmas code_defs = code_Unknown_def code_DeadlineExceeded_def code_Unimplemented_def code_Unavailable_def

text \<open>
  \<^verbatim>\<open>neterr.StableText\<close> replaces every match of \<^verbatim>\<open>\b((?:tcp|udp)[46]?) \S+?->\<close> by the protocol and a
  space: the local address of a network error goes away. \<open>arrow\<close> is the lazy \<^verbatim>\<open>\S+?->\<close>.
\<close>

definition is_space :: "char \<Rightarrow> bool" where
  "is_space ch \<longleftrightarrow> of_char ch \<in> {9 :: nat, 10, 12, 13, 32}"

definition is_word :: "char \<Rightarrow> bool" where
  "is_word ch \<longleftrightarrow> (let n = of_char ch :: nat in
     48 \<le> n \<and> n \<le> 57 \<or> 65 \<le> n \<and> n \<le> 90 \<or> 97 \<le> n \<and> n \<le> 122 \<or> n = 95)"

fun arrow :: "string \<Rightarrow> string option" where
  "arrow [] = None"
| "arrow (x # xs) =
     (if is_space x then None
      else if prefix ''->'' xs then Some (drop 2 xs)
      else arrow xs)"

definition local_addr :: "string \<Rightarrow> (string \<times> string) option" where
  "local_addr s =
     (case List.find (\<lambda>p. prefix (p @ '' '') s)
            [''tcp4'', ''tcp6'', ''tcp'', ''udp4'', ''udp6'', ''udp''] of
        None \<Rightarrow> None
      | Some p \<Rightarrow> map_option (\<lambda>r. (p @ '' '', r)) (arrow (drop (Suc (length p)) s)))"

lemma arrow_length: "arrow s = Some r \<Longrightarrow> length r < length s"
  by (induction s rule: arrow.induct) (auto split: if_splits simp: less_Suc_eq)

lemma local_addr_length: "local_addr s = Some (p, r) \<Longrightarrow> length r < length s"
proof -
  assume "local_addr s = Some (p, r)"
  then obtain k where "arrow (drop k s) = Some r"
    by (auto simp: local_addr_def split: option.splits)
  then have "length r < length (drop k s)" by (rule arrow_length)
  then show ?thesis by simp
qed

text \<open>The argument \<open>b\<close> tells whether a word may start here (\<^verbatim>\<open>\b\<close>).\<close>

function stable_from :: "bool \<Rightarrow> string \<Rightarrow> string" where
  "stable_from b s =
     (case (if b then local_addr s else None) of
        Some (p, r) \<Rightarrow> p @ stable_from True r
      | None \<Rightarrow> (case s of [] \<Rightarrow> [] | x # xs \<Rightarrow> x # stable_from (\<not> is_word x) xs))"
  by pat_completeness auto
termination
  by (relation "measure (\<lambda>(b, s). length s)") (auto dest: local_addr_length split: if_splits)

declare stable_from.simps [simp del]

definition stable_text :: "string \<Rightarrow> string" where
  "stable_text s = stable_from True s"

text \<open>\<^verbatim>\<open>mapError\<close>; the timeout is in milliseconds.\<close>

definition map_error :: "status \<Rightarrow> string \<Rightarrow> int \<Rightarrow> err" where
  "map_error st address timeout =
     (let msg = st_msg st;
          down = (st_code st = code_Unavailable \<or> st_code st = code_DeadlineExceeded)
      in if st_code st = code_Unavailable \<and>
            (sublist ''connection refused'' msg \<or> sublist ''operation not permitted'' msg)
         then ApiError (''Unable to connect to Xray API at '' @ address @
                ''. Start the Xray service first, for example with \"docker compose up -d\".'') True
         else if st_code st = code_DeadlineExceeded
         then ApiError (''Request to Xray API at '' @ address @ '' timed out after '' @
                int_text timeout @ ''ms.'') True
         else if msg \<noteq> '''' then ApiError (stable_text msg) down
         else ApiError (''gRPC call failed with status '' @ nat_text (st_code st)) down)"

text \<open>\<^verbatim>\<open>readCall\<close>: the error of the read-only calls; \<open>nf\<close> is the error of "cannot find tag".\<close>

definition service_name :: "string \<Rightarrow> string" where
  "service_name s = rev (takeWhile (\<lambda>ch. ch \<noteq> CHR ''.'') (rev s))"

definition read_error :: "err option \<Rightarrow> status \<Rightarrow> string \<Rightarrow> int \<Rightarrow> err" where
  "read_error nf st address timeout =
     (case (if st_code st = code_Unimplemented then cut_prefix (st_msg st) ''unknown service '' else None) of
        Some svc \<Rightarrow> ServiceDisabled (service_name svc)
      | None \<Rightarrow>
          (case nf of
             Some e \<Rightarrow> if st_code st = code_Unknown \<and> sublist ''cannot find tag'' (st_msg st) then e
                       else map_error st address timeout
           | None \<Rightarrow> map_error st address timeout))"

lemma map_error_unavailable:
  "is_unavailable (map_error st address timeout) \<longleftrightarrow>
   st_code st = code_Unavailable \<or> st_code st = code_DeadlineExceeded"
  by (auto simp: map_error_def Let_def code_defs)

lemma map_error_plain [simp]:
  "\<not> is_cap_reached (map_error st address timeout)"
  "\<not> is_not_found (map_error st address timeout)"
  "\<not> is_disabled (map_error st address timeout)"
  by (auto simp: map_error_def Let_def)

section \<open>The call surface\<close>

text \<open>
  A handler configuration is its tag and its opaque protobuf payload; a rule as it is sent has
  the target outbound, the inbounds and the rule tag, a listed rule only the first and the last.
\<close>

record handler =
  h_tag :: string
  h_body :: string

record rrule =
  rr_target :: string
  rr_inbounds :: "string list"
  rr_tag :: string

record rule =
  rl_tag :: string
  rl_ruletag :: string

record balancer_info =
  bi_override :: string
  bi_principle :: "string list"
  bi_known :: bool

record health_ping =
  hp_all :: int
  hp_fail :: int
  hp_average :: int
  hp_deviation :: int
  hp_min :: int
  hp_max :: int

record observation =
  ob_tag :: string
  ob_alive :: bool
  ob_delay :: "int option"
  ob_error :: string
  ob_seen :: "time option"
  ob_try :: "time option"
  ob_ping :: "health_ping option"

text \<open>Effects: a call maps the world before it to an error or nothing and the world after it.\<close>

type_synonym 'w call = "'w \<Rightarrow> err option \<times> 'w"
type_synonym ('w, 'a) query = "'w \<Rightarrow> (err + 'a) \<times> 'w"

record 'w client =
  list_outbounds :: "('w, handler list) query"
  add_outbound :: "handler \<Rightarrow> 'w call"
  remove_outbound :: "string \<Rightarrow> 'w call"
  list_inbounds :: "('w, handler list) query"
  add_inbound :: "handler \<Rightarrow> 'w call"
  remove_inbound :: "string \<Rightarrow> 'w call"
  list_rules :: "('w, rule list) query"
  add_rule :: "rrule \<Rightarrow> 'w call"
  remove_rule :: "string \<Rightarrow> 'w call"
  get_balancer_info :: "string \<Rightarrow> ('w, balancer_info) query"
  get_outbound_status :: "('w, observation list) query"

text \<open>
  What the read-only calls make of the wire messages. An \<open>ostatus\<close> is an
  \<^verbatim>\<open>observatory.OutboundStatus\<close> (times in Unix seconds); the principle target of a balancer
  message is absent or a list of tags.
\<close>

record ostatus =
  os_tag :: string
  os_alive :: bool
  os_delay :: int
  os_reason :: string
  os_seen :: int
  os_try :: int
  os_ping :: "health_ping option"

definition dead_delay :: int where "dead_delay = 99999999"

definition unix_time :: "int \<Rightarrow> time option" where
  "unix_time sec = (if sec = 0 then None else Some (sec * 1000000000))"

definition decode_observation :: "ostatus \<Rightarrow> observation" where
  "decode_observation st =
     \<lparr>ob_tag = os_tag st, ob_alive = os_alive st,
      ob_delay = (if os_alive st \<and> os_delay st \<noteq> dead_delay then Some (os_delay st) else None),
      ob_error = os_reason st, ob_seen = unix_time (os_seen st), ob_try = unix_time (os_try st),
      ob_ping = os_ping st\<rparr>"

definition decode_balancer :: "string \<Rightarrow> string list option \<Rightarrow> balancer_info" where
  "decode_balancer override pt =
     (case pt of
        None \<Rightarrow> \<lparr>bi_override = override, bi_principle = [], bi_known = False\<rparr>
      | Some tags \<Rightarrow> \<lparr>bi_override = override, bi_principle = filter (\<lambda>s. s \<noteq> '''') tags, bi_known = True\<rparr>)"

definition decode_observations :: "ostatus list \<Rightarrow> observation list" where
  "decode_observations sts =
     sort_by (\<lambda>a b. cmp_ord (ob_tag a) (ob_tag b)) (map decode_observation sts)"

definition rule_of :: "rrule \<Rightarrow> rule" where
  "rule_of r = \<lparr>rl_tag = rr_target r, rl_ruletag = rr_tag r\<rparr>"

text \<open>
  The laws. \<open>obs\<close>, \<open>ibs\<close> and \<open>rls\<close> are the outbounds, inbounds (by tag) and rules (in router
  order) Xray holds. The mutation lock of the target excludes other writers while a sequence of
  calls runs, so the laws speak of one call at a time.
\<close>

locale xray_api =
  fixes c :: "'w client"
    and obs :: "'w \<Rightarrow> string \<Rightarrow> handler option"
    and ibs :: "'w \<Rightarrow> string \<Rightarrow> handler option"
    and rls :: "'w \<Rightarrow> rule list"
  assumes list_outbounds_ok:
      "list_outbounds c w = (Inr l, w') \<Longrightarrow>
       distinct (map h_tag l) \<and> (\<forall>t h. obs w t = Some h \<longleftrightarrow> h \<in> set l \<and> h_tag h = t)"
    and list_outbounds_frame:
      "list_outbounds c w = (r, w') \<Longrightarrow> obs w' = obs w \<and> ibs w' = ibs w \<and> rls w' = rls w"
    and add_outbound_ok:
      "add_outbound c h w = (None, w') \<Longrightarrow>
       obs w (h_tag h) = None \<and> obs w' = (obs w)(h_tag h \<mapsto> h)"
    and add_outbound_err:
      "add_outbound c h w = (Some e, w') \<Longrightarrow>
       obs w' = obs w \<or> obs w (h_tag h) = None \<and> obs w' = (obs w)(h_tag h \<mapsto> h)"
    and add_outbound_frame:
      "add_outbound c h w = (ro, w') \<Longrightarrow> ibs w' = ibs w \<and> rls w' = rls w"
    and remove_outbound_ok:
      "remove_outbound c t w = (None, w') \<Longrightarrow> obs w' = (obs w)(t := None)"
    and remove_outbound_err:
      "remove_outbound c t w = (Some e, w') \<Longrightarrow> obs w' = obs w \<or> obs w' = (obs w)(t := None)"
    and remove_outbound_frame:
      "remove_outbound c t w = (ro, w') \<Longrightarrow> ibs w' = ibs w \<and> rls w' = rls w"
    and list_inbounds_ok:
      "list_inbounds c w = (Inr l, w') \<Longrightarrow>
       distinct (map h_tag l) \<and> (\<forall>t h. ibs w t = Some h \<longleftrightarrow> h \<in> set l \<and> h_tag h = t)"
    and list_inbounds_frame:
      "list_inbounds c w = (ri, w') \<Longrightarrow> obs w' = obs w \<and> ibs w' = ibs w \<and> rls w' = rls w"
    and add_inbound_ok:
      "add_inbound c h w = (None, w') \<Longrightarrow>
       ibs w (h_tag h) = None \<and> ibs w' = (ibs w)(h_tag h \<mapsto> h)"
    and add_inbound_err:
      "add_inbound c h w = (Some e, w') \<Longrightarrow>
       ibs w' = ibs w \<or> ibs w (h_tag h) = None \<and> ibs w' = (ibs w)(h_tag h \<mapsto> h)"
    and add_inbound_frame:
      "add_inbound c h w = (ro, w') \<Longrightarrow> obs w' = obs w \<and> rls w' = rls w"
    and remove_inbound_ok:
      "remove_inbound c t w = (None, w') \<Longrightarrow> ibs w t \<noteq> None \<and> ibs w' = (ibs w)(t := None)"
    and remove_inbound_err:
      "remove_inbound c t w = (Some e, w') \<Longrightarrow> ibs w' = ibs w \<or> ibs w' = (ibs w)(t := None)"
    and remove_inbound_frame:
      "remove_inbound c t w = (ro, w') \<Longrightarrow> obs w' = obs w \<and> rls w' = rls w"
    and list_rules_ok:
      "list_rules c w = (Inr rl, w') \<Longrightarrow> rl = rls w"
    and list_rules_frame:
      "list_rules c w = (rr, w') \<Longrightarrow> obs w' = obs w \<and> ibs w' = ibs w \<and> rls w' = rls w"
    and add_rule_ok:
      "add_rule c q w = (None, w') \<Longrightarrow>
       (rr_tag q = '''' \<or> rr_tag q \<notin> rl_ruletag ` set (rls w)) \<and> rls w' = rls w @ [rule_of q]"
    and add_rule_err:
      "add_rule c q w = (Some e, w') \<Longrightarrow> rls w' = rls w \<or> rls w' = rls w @ [rule_of q]"
    and add_rule_frame:
      "add_rule c q w = (ro, w') \<Longrightarrow> obs w' = obs w \<and> ibs w' = ibs w"
    and remove_rule_ok:
      "remove_rule c t w = (None, w') \<Longrightarrow> rls w' = filter (\<lambda>r. rl_ruletag r \<noteq> t) (rls w)"
    and remove_rule_err:
      "remove_rule c t w = (Some e, w') \<Longrightarrow>
       rls w' = rls w \<or> rls w' = filter (\<lambda>r. rl_ruletag r \<noteq> t) (rls w)"
    and remove_rule_frame:
      "remove_rule c t w = (ro, w') \<Longrightarrow> obs w' = obs w \<and> ibs w' = ibs w"
    and get_balancer_info_frame:
      "get_balancer_info c t w = (b, w') \<Longrightarrow> obs w' = obs w \<and> ibs w' = ibs w \<and> rls w' = rls w"
    and get_outbound_status_frame:
      "get_outbound_status c w = (s, w') \<Longrightarrow> obs w' = obs w \<and> ibs w' = ibs w \<and> rls w' = rls w"
begin

lemma outbound_tags:
  "list_outbounds c w = (Inr l, w') \<Longrightarrow> h_tag ` set l = dom (obs w)"
  by (drule list_outbounds_ok) (force simp: dom_def image_iff)

lemma inbound_tags:
  "list_inbounds c w = (Inr l, w') \<Longrightarrow> h_tag ` set l = dom (ibs w)"
  by (drule list_inbounds_ok) (force simp: dom_def image_iff)

lemma finite_obs: "list_outbounds c w = (Inr l, w') \<Longrightarrow> finite (dom (obs w))"
  using outbound_tags by (metis finite_imageI List.finite_set)

text \<open>
  Any result of a mutation of the outbounds: nothing happened, or what was asked for.
\<close>

lemma add_outbound_cases:
  "add_outbound c h w = (r, w') \<Longrightarrow>
   r \<noteq> None \<and> obs w' = obs w \<or> obs w (h_tag h) = None \<and> obs w' = (obs w)(h_tag h \<mapsto> h)"
  using add_outbound_ok add_outbound_err by (cases r) blast+

lemma remove_outbound_cases:
  "remove_outbound c t w = (r, w') \<Longrightarrow>
   r \<noteq> None \<and> obs w' = obs w \<or> obs w' = (obs w)(t := None)"
  using remove_outbound_ok remove_outbound_err by (cases r) blast+

lemma add_inbound_cases:
  "add_inbound c h w = (r, w') \<Longrightarrow>
   r \<noteq> None \<and> ibs w' = ibs w \<or> ibs w (h_tag h) = None \<and> ibs w' = (ibs w)(h_tag h \<mapsto> h)"
  using add_inbound_ok add_inbound_err by (cases r) blast+

lemma remove_inbound_cases:
  "remove_inbound c t w = (r, w') \<Longrightarrow>
   r \<noteq> None \<and> ibs w' = ibs w \<or> ibs w' = (ibs w)(t := None)"
  using remove_inbound_ok remove_inbound_err by (cases r) blast+

lemma add_rule_cases:
  "add_rule c q w = (r, w') \<Longrightarrow>
   r \<noteq> None \<and> rls w' = rls w \<or> rls w' = rls w @ [rule_of q]"
  using add_rule_ok add_rule_err by (cases r) blast+

lemma remove_rule_cases:
  "remove_rule c t w = (r, w') \<Longrightarrow>
   r \<noteq> None \<and> rls w' = rls w \<or> rls w' = filter (\<lambda>q. rl_ruletag q \<noteq> t) (rls w)"
  using remove_rule_ok remove_rule_err by (cases r) blast+

end

end
