(* ===== verification/Scd_Manifest.thy ===== *)
theory Scd_Manifest
  imports Scd_Normalize Scd_Selection Scd_Xray_Api
begin

text \<open>
  The manifest of a subscription (\<^verbatim>\<open>internal/scd/manifest\<close>): every line of the text becomes an entry or
  a skip, the counters of the summary, and the filters of a source. The lemmas show that no line is
  lost, that the counters are the lengths of the lists, and that the tags of the entries are distinct
  and lie in the namespace of the source.
\<close>

section \<open>Entries and summaries\<close>

record entry =
  en_kind :: string
  en_protocol :: string
  en_tag :: string
  en_label :: string
  en_profile :: string
  en_line :: int
  en_country :: "country_info option"
  en_city :: string
  en_normalized :: normalized
  en_outbound :: spec
  en_warnings :: "warning list"
  en_selection :: "candidate option"

text \<open>\<^verbatim>\<open>SelectionCandidate\<close>: the tag and label only for VLESS.\<close>

definition selection_cand :: "entry \<Rightarrow> candidate" where
  "selection_cand e =
     (case en_selection e of Some c \<Rightarrow> c
      | None \<Rightarrow> zero_candidate\<lparr>cd_tag := en_tag e, cd_label := en_label e\<rparr>)"

record summary =
  su_total :: nat
  su_parsed :: nat
  su_skipped :: nat
  su_filtered :: nat
  su_by_country :: nat
  su_by_label :: nat
  su_scheme :: nat
  su_param :: nat
  su_value :: nat
  su_combo :: nat
  su_uri :: nat
  su_missing :: nat
  su_duplicate :: nat
  su_port_range :: nat
  su_wireguard :: nat
  su_masque :: nat

definition zero_summary :: summary where
  "zero_summary =
     \<lparr>su_total = 0, su_parsed = 0, su_skipped = 0, su_filtered = 0, su_by_country = 0, su_by_label = 0,
      su_scheme = 0, su_param = 0, su_value = 0, su_combo = 0, su_uri = 0, su_missing = 0, su_duplicate = 0,
      su_port_range = 0, su_wireguard = 0, su_masque = 0\<rparr>"

record manifest =
  mf_version :: nat
  mf_generated :: time
  mf_source :: string
  mf_entries :: "entry list"
  mf_skipped :: "skip list"
  mf_summary :: summary

text \<open>\<^verbatim>\<open>Manifest.skip\<close>.\<close>

definition count_code :: "string \<Rightarrow> summary \<Rightarrow> summary" where
  "count_code code s =
     (if code = ''unsupported_scheme'' then s\<lparr>su_scheme := su_scheme s + 1\<rparr>
      else if code = ''unsupported_value'' then s\<lparr>su_value := su_value s + 1\<rparr>
      else if code = ''unsupported_combo'' then s\<lparr>su_combo := su_combo s + 1\<rparr>
      else if code = ''invalid_uri'' then s\<lparr>su_uri := su_uri s + 1\<rparr>
      else if code = ''missing_required_field'' then s\<lparr>su_missing := su_missing s + 1\<rparr>
      else if code = ''duplicate_tag'' then s\<lparr>su_duplicate := su_duplicate s + 1\<rparr>
      else if code = ''wireguard_invalid'' then s\<lparr>su_wireguard := su_wireguard s + 1\<rparr>
      else if code = ''masque_invalid'' then s\<lparr>su_masque := su_masque s + 1\<rparr>
      else s)"

definition add_skip :: "skip \<Rightarrow> manifest \<Rightarrow> manifest" where
  "add_skip s m =
     m\<lparr>mf_skipped := mf_skipped m @ [s],
       mf_summary := count_code (sk_code s)
         ((mf_summary m)\<lparr>su_skipped := su_skipped (mf_summary m) + 1\<rparr>)\<rparr>"

definition add_entry :: "entry \<Rightarrow> manifest \<Rightarrow> manifest" where
  "add_entry e m =
     m\<lparr>mf_entries := mf_entries m @ [e],
       mf_summary := (mf_summary m)\<lparr>su_parsed := su_parsed (mf_summary m) + 1\<rparr>\<rparr>"

section \<open>Building\<close>

text \<open>
  \<^verbatim>\<open>strings.EqualFold\<close> with a lower-case ASCII word: besides the upper-case letter, the long s folds to
  s and the Kelvin sign to k.
\<close>

definition folds_to :: "nat \<Rightarrow> char \<Rightarrow> bool" where
  "folds_to r ch \<longleftrightarrow>
     (let n = of_char ch in
      r = n \<or> 97 \<le> n \<and> n \<le> 122 \<and> r + 32 = n \<or> n = 115 \<and> r = 383 \<or> n = 107 \<and> r = 8490)"

definition equal_fold :: "string \<Rightarrow> string \<Rightarrow> bool" where
  "equal_fold s word \<longleftrightarrow> list_all2 folds_to (runes s) word"

text \<open>What \<^verbatim>\<open>strings.Cut\<close> leaves before a separator.\<close>

fun before :: "string \<Rightarrow> string \<Rightarrow> string" where
  "before sep [] = []"
| "before sep (x # xs) = (if prefix sep (x # xs) then [] else x # before sep xs)"

definition redact_candidate :: "skip \<Rightarrow> string \<Rightarrow> skip" where
  "redact_candidate s trimmed =
     (case List.find (equal_fold (before ''://'' trimmed)) [''wireguard'', ''masque''] of
        Some k \<Rightarrow>
          \<lparr>sk_line = sk_line s, sk_raw = k @ ''://<redacted>'', sk_label = None, sk_code = sk_code s,
           sk_reason = sk_reason s, sk_details = []\<rparr>
      | None \<Rightarrow> s)"

definition duplicate_skip :: "normalized \<Rightarrow> skip" where
  "duplicate_skip n =
     \<lparr>sk_line = n_line n, sk_raw = n_raw n, sk_label = Some (n_label n), sk_code = ''duplicate_tag'',
      sk_reason = ''Duplicate generated outbound tag \"'' @ n_tag n @ ''\".'', sk_details = []\<rparr>"

definition rejected_skip :: "normalized \<Rightarrow> err \<Rightarrow> skip" where
  "rejected_skip n e =
     \<lparr>sk_line = n_line n, sk_raw = n_raw n, sk_label = Some (n_label n), sk_code = ''unsupported_value'',
      sk_reason = ''Xray rejected the outbound configuration.'', sk_details = [err_text e]\<rparr>"

definition vless_entry :: "normalized \<Rightarrow> warning list \<Rightarrow> entry" where
  "vless_entry n ws =
     \<lparr>en_kind = n_kind n, en_protocol = '''', en_tag = n_tag n, en_label = n_label n, en_profile = n_profile n,
      en_line = n_line n, en_country = n_country n, en_city = n_city n, en_normalized = n,
      en_outbound = Vless (build_vless n), en_warnings = ws, en_selection = None\<rparr>"

text \<open>The loop of \<^verbatim>\<open>Build\<close>; \<open>None\<close> is the panic of the normalizer.\<close>

fun build_lines ::
    "text_lib \<Rightarrow> (spec \<Rightarrow> err + handler) \<Rightarrow> policy \<Rightarrow> line list \<Rightarrow> string set \<Rightarrow> manifest \<Rightarrow> manifest option" where
  "build_lines lib to_proto p [] seen m = Some m"
| "build_lines lib to_proto p (x # lns) seen m =
     (case parse_link lib x of
        Inl s \<Rightarrow> build_lines lib to_proto p lns seen (add_skip (redact_candidate s (ln_trimmed x)) m)
      | Inr l \<Rightarrow>
     (case normalize_link lib p l of
        Panicked \<Rightarrow> None
      | Skipped s \<Rightarrow> build_lines lib to_proto p lns seen (add_skip s m)
      | Accepted n ws \<Rightarrow>
          if n_tag n \<in> seen then build_lines lib to_proto p lns seen (add_skip (duplicate_skip n) m)
          else case to_proto (Vless (build_vless n)) of
              Inl e \<Rightarrow> build_lines lib to_proto p lns seen (add_skip (rejected_skip n e) m)
            | Inr h \<Rightarrow> build_lines lib to_proto p lns (insert (n_tag n) seen) (add_entry (vless_entry n ws) m)))"

definition start_manifest :: "string \<Rightarrow> time \<Rightarrow> nat \<Rightarrow> manifest" where
  "start_manifest source now lines_total =
     \<lparr>mf_version = 1, mf_generated = now, mf_source = source, mf_entries = [], mf_skipped = [],
      mf_summary = zero_summary\<lparr>su_total := lines_total\<rparr>\<rparr>"

definition build ::
    "text_lib \<Rightarrow> (spec \<Rightarrow> err + handler) \<Rightarrow> string \<Rightarrow> string \<Rightarrow> policy \<Rightarrow> time \<Rightarrow> manifest option" where
  "build lib to_proto text source p now =
     (let lns = scan_lines text
      in build_lines lib to_proto p lns {} (start_manifest source now (length lns)))"

section \<open>Validation and filters\<close>

definition no_entries_text :: "string \<Rightarrow> summary \<Rightarrow> string" where
  "no_entries_text source s =
     ''Subscription source \"'' @ source @ ''\" produced no valid outbound entries. parsed='' @ nat_text (su_parsed s) @
     '' skipped='' @ nat_text (su_skipped s) @ '' filtered='' @ nat_text (su_filtered s) @
     '' filteredByCountry='' @ nat_text (su_by_country s) @ '' filteredByLabelRegex='' @ nat_text (su_by_label s) @
     '' unsupportedScheme='' @ nat_text (su_scheme s) @ '' unsupportedParam='' @ nat_text (su_param s) @
     '' unsupportedValue='' @ nat_text (su_value s) @ '' unsupportedCombo='' @ nat_text (su_combo s) @
     '' invalidUri='' @ nat_text (su_uri s) @ '' missingRequiredField='' @ nat_text (su_missing s) @
     '' duplicateTag='' @ nat_text (su_duplicate s) @
     (if su_wireguard s > 0 then '' wireguardInvalid='' @ nat_text (su_wireguard s) else '''') @
     (if su_masque s > 0 then '' masqueInvalid='' @ nat_text (su_masque s) else '''')"

definition validate :: "manifest \<Rightarrow> string \<Rightarrow> err option" where
  "validate m source =
     (if su_parsed (mf_summary m) = 0 \<or> mf_entries m = []
      then Some (ErrText (no_entries_text source (mf_summary m))) else None)"

text \<open>The ends of both filters: the kept entries and the two counts.\<close>

definition set_filtered :: "manifest \<Rightarrow> entry list \<Rightarrow> nat \<Rightarrow> nat \<Rightarrow> manifest" where
  "set_filtered m es by_country by_label =
     m\<lparr>mf_entries := es,
       mf_summary := (mf_summary m)\<lparr>su_parsed := length es, su_filtered := by_country + by_label,
         su_by_country := by_country, su_by_label := by_label\<rparr>\<rparr>"

definition country_dropped :: "source_filters \<Rightarrow> entry \<Rightarrow> bool" where
  "country_dropped f e \<longleftrightarrow>
     sf_countries f \<noteq> [] \<and>
     (case en_country e of None \<Rightarrow> True | Some i \<Rightarrow> ci_iso2 i \<notin> set (sf_countries f))"

fun filter_loop :: "source_filters \<Rightarrow> entry list \<Rightarrow> entry list \<times> nat \<times> nat" where
  "filter_loop f [] = ([], 0, 0)"
| "filter_loop f (e # es) =
     (let (kept, c, l) = filter_loop f es in
      if country_dropped f e then (kept, Suc c, l)
      else if \<not> label_match (sf_label f) (en_label e) then (kept, c, Suc l)
      else (e # kept, c, l))"

definition apply_filters :: "manifest \<Rightarrow> source_filters option \<Rightarrow> manifest" where
  "apply_filters m fo =
     (case fo of
        None \<Rightarrow> m
      | Some f \<Rightarrow>
          if sf_countries f = [] \<and> lf_include (sf_label f) = [] \<and> lf_exclude (sf_label f) = [] then m
          else let (es, c, l) = filter_loop f (mf_entries m) in set_filtered m es c l)"

fun cand_filter_loop :: "source_filters \<Rightarrow> entry list \<Rightarrow> entry list \<times> nat \<times> nat" where
  "cand_filter_loop f [] = ([], 0, 0)"
| "cand_filter_loop f (e # es) =
     (let (kept, c, l) = cand_filter_loop f es in
      case filter_cand (selection_cand e) (Some f) of
        Pass \<Rightarrow> (e # kept, c, l)
      | DroppedByLabel \<Rightarrow> (kept, c, Suc l)
      | _ \<Rightarrow> (kept, Suc c, l))"

definition apply_candidate_filters :: "manifest \<Rightarrow> source_filters option \<Rightarrow> manifest" where
  "apply_candidate_filters m fo =
     (case fo of
        None \<Rightarrow> m
      | Some f \<Rightarrow> let (es, c, l) = cand_filter_loop f (mf_entries m) in set_filtered m es c l)"
section \<open>Lemmas: skips\<close>

definition skip_codes :: "string list" where
  "skip_codes = [''unsupported_scheme'', ''unsupported_value'', ''unsupported_combo'', ''invalid_uri'',
     ''missing_required_field'', ''duplicate_tag'', ''wireguard_invalid'', ''masque_invalid'']"

definition skip_of :: "int \<Rightarrow> skip \<Rightarrow> bool" where
  "skip_of i s \<longleftrightarrow> sk_line s = i \<and> sk_code s \<in> set skip_codes"

lemma skip_of_link_skip [simp]: "skip_of i (link_skip l code reason details) \<longleftrightarrow> lk_line l = i \<and> code \<in> set skip_codes"
  by (simp add: skip_of_def link_skip_def)

lemma parse_link_skip: "parse_link lib x = Inl s \<Longrightarrow> skip_of (ln_number x) s"
  by (auto simp: parse_link_def skip_of_def skip_codes_def Let_def split: if_splits option.splits prod.splits)

lemma parse_link_line: "parse_link lib x = Inr l \<Longrightarrow> lk_line l = ln_number x \<and> lk_raw l = ln_raw x \<and> 1 \<le> lk_port l \<and> lk_port l \<le> 65535"
  by (auto simp: parse_link_def Let_def split: if_splits option.splits prod.splits)

lemma redact_skip_of [simp]: "skip_of i (redact_candidate s t) \<longleftrightarrow> skip_of i s"
  by (simp add: redact_candidate_def skip_of_def split: option.splits)

lemma apply_security_skip: "apply_security lib l n = Inl s \<Longrightarrow> skip_of (lk_line l) s"
  by (auto simp: apply_security_def Let_def skip_codes_def split: if_splits)

lemma transport_fields_skip: "transport_fields lib l n = Inl s \<Longrightarrow> skip_of (lk_line l) s"
  by (auto simp: transport_fields_def Let_def skip_codes_def split: if_splits option.splits)

lemma apply_transport_skip: "apply_transport lib l n = Inl s \<Longrightarrow> skip_of (lk_line l) s"
  by (auto simp: apply_transport_def Let_def skip_codes_def transport_fields_skip split: if_splits sum.splits)

lemma normalize_skip: "normalize_link lib p l = Skipped s \<Longrightarrow> skip_of (lk_line l) s"
  unfolding normalize_link_def Let_def
  by (simp split: option.splits sum.splits prod.splits if_splits)
    (auto simp: skip_codes_def dest: apply_security_skip apply_transport_skip)

lemma normalize_panics: "normalize_link lib p l = Panicked \<Longrightarrow> po_tag_prefix p = ''''"
  unfolding normalize_link_def Let_def by (simp split: option.splits sum.splits prod.splits if_splits)

section \<open>Lemmas: counters\<close>

definition code_sum :: "summary \<Rightarrow> nat" where
  "code_sum s = su_scheme s + su_value s + su_combo s + su_uri s + su_missing s + su_duplicate s +
     su_wireguard s + su_masque s"

definition counts_ok :: "manifest \<Rightarrow> bool" where
  "counts_ok m \<longleftrightarrow> su_parsed (mf_summary m) = length (mf_entries m) \<and>
     su_skipped (mf_summary m) = length (mf_skipped m) \<and> code_sum (mf_summary m) = length (mf_skipped m)"

lemma count_code_sel [simp]:
  "su_parsed (count_code c s) = su_parsed s" "su_skipped (count_code c s) = su_skipped s"
  "su_total (count_code c s) = su_total s" "su_filtered (count_code c s) = su_filtered s"
  by (simp_all add: count_code_def)

lemma count_code_sum: "code \<in> set skip_codes \<Longrightarrow> code_sum (count_code code s) = Suc (code_sum s)"
  by (auto simp: skip_codes_def count_code_def code_sum_def)

lemma code_sum_skipped [simp]: "code_sum (s\<lparr>su_skipped := k\<rparr>) = code_sum s" "code_sum (s\<lparr>su_parsed := k\<rparr>) = code_sum s"
  by (simp_all add: code_sum_def)

lemma add_sel [simp]:
  "mf_entries (add_skip s m) = mf_entries m" "mf_skipped (add_skip s m) = mf_skipped m @ [s]"
  "mf_entries (add_entry e m) = mf_entries m @ [e]" "mf_skipped (add_entry e m) = mf_skipped m"
  "su_total (mf_summary (add_skip s m)) = su_total (mf_summary m)"
  "su_total (mf_summary (add_entry e m)) = su_total (mf_summary m)"
  by (simp_all add: add_skip_def add_entry_def)

lemma counts_add_skip: "counts_ok m \<Longrightarrow> skip_of i s \<Longrightarrow> counts_ok (add_skip s m)"
  by (simp add: counts_ok_def add_skip_def skip_of_def count_code_sum)

lemma counts_add_entry: "counts_ok m \<Longrightarrow> counts_ok (add_entry e m)"
  by (simp add: counts_ok_def add_entry_def)

lemma vless_entry_sel [simp]:
  "en_tag (vless_entry n ws) = n_tag n" "en_line (vless_entry n ws) = n_line n"
  "en_outbound (vless_entry n ws) = Vless (build_vless n)" "en_normalized (vless_entry n ws) = n"
  by (simp_all add: vless_entry_def)

lemma own_skips [simp]: "skip_of (n_line n) (duplicate_skip n)" "skip_of (n_line n) (rejected_skip n e)"
  by (simp_all add: skip_of_def duplicate_skip_def rejected_skip_def skip_codes_def)

section \<open>Lemmas: the loop\<close>

text \<open>What an entry of a source is.\<close>

definition entry_ok :: "(spec \<Rightarrow> err + handler) \<Rightarrow> string \<Rightarrow> entry \<Rightarrow> bool" where
  "entry_ok to_proto sid e \<longleftrightarrow> base_tag_of sid (en_tag e) \<and> (\<exists>h. to_proto (en_outbound e) = Inr h) \<and>
     en_outbound e = Vless (build_vless (en_normalized e)) \<and> n_tag (en_normalized e) = en_tag e"

text \<open>One line of the loop: a skip of that line, or an entry with a new tag.\<close>

lemma build_lines_step:
  assumes "build_lines lib to_proto p (x # xs) seen m = Some m'"
  obtains (skipped) s where "skip_of (ln_number x) s" "build_lines lib to_proto p xs seen (add_skip s m) = Some m'"
    | (entry) n ws where "entry_ok to_proto (po_tag_prefix p) (vless_entry n ws)" "n_line n = ln_number x"
        "n_tag n \<notin> seen" "build_lines lib to_proto p xs (insert (n_tag n) seen) (add_entry (vless_entry n ws) m) = Some m'"
proof (cases "parse_link lib x")
  case (Inl s)
  then show thesis using assms skipped [of "redact_candidate s (ln_trimmed x)"] parse_link_skip by auto
next
  case (Inr l)
  have line: "lk_line l = ln_number x" using parse_link_line [OF Inr] by blast
  show thesis
  proof (cases "normalize_link lib p l")
    case (Skipped s)
    then show thesis using assms Inr skipped [of s] normalize_skip [OF Skipped] line by auto
  next
    case (Accepted n ws)
    note src = accepted_source [OF Accepted]
    show thesis
    proof (cases "n_tag n \<in> seen")
      case True
      then show thesis using assms Inr Accepted skipped [of "duplicate_skip n"] own_skips(1) [of n] src line by simp
    next
      case new: False
      show thesis
      proof (cases "to_proto (Vless (build_vless n))")
        case (Inl e)
        then show thesis
          using assms \<open>parse_link lib x = Inr l\<close> Accepted new skipped [of "rejected_skip n e"] own_skips(2) [of n e] src line
          by simp
      next
        case h: (Inr h)
        then have "entry_ok to_proto (po_tag_prefix p) (vless_entry n ws)"
          using src by (simp add: entry_ok_def base_tag_of_def)
        then show thesis using assms \<open>parse_link lib x = Inr l\<close> Accepted h new entry src line by simp
      qed
    qed
  next
    case Panicked
    then show thesis using assms Inr by simp
  qed
qed

lemma build_lines_spec:
  "build_lines lib to_proto p xs seen m = Some m' \<Longrightarrow> counts_ok m \<Longrightarrow>
   \<exists>es sks. mf_entries m' = mf_entries m @ es \<and> mf_skipped m' = mf_skipped m @ sks \<and> counts_ok m' \<and>
     su_total (mf_summary m') = su_total (mf_summary m) \<and>
     mset (map en_line es) + mset (map sk_line sks) = mset (map ln_number xs) \<and>
     subseq (map en_line es) (map ln_number xs) \<and>
     (\<forall>e \<in> set es. entry_ok to_proto (po_tag_prefix p) e) \<and>
     distinct (map en_tag es) \<and> set (map en_tag es) \<inter> seen = {}"
proof (induction xs arbitrary: seen m)
  case Nil
  then show ?case by auto
next
  case (Cons x xs)
  from Cons.prems(1) show ?case
  proof (cases rule: build_lines_step)
    case (skipped s)
    from Cons.IH [OF skipped(2) counts_add_skip [OF Cons.prems(2) skipped(1)]] obtain es sks where
      "mf_entries m' = mf_entries m @ es" "mf_skipped m' = mf_skipped m @ s # sks" "counts_ok m'"
      "su_total (mf_summary m') = su_total (mf_summary m)"
      "mset (map en_line es) + mset (map sk_line sks) = mset (map ln_number xs)"
      "subseq (map en_line es) (map ln_number xs)" "\<forall>e \<in> set es. entry_ok to_proto (po_tag_prefix p) e"
      "distinct (map en_tag es)" "set (map en_tag es) \<inter> seen = {}" by auto
    then show ?thesis using skipped(1) by (intro exI [of _ es] exI [of _ "s # sks"]) (auto simp: skip_of_def)
  next
    case (entry n ws)
    from Cons.IH [OF entry(4) counts_add_entry [OF Cons.prems(2)]] obtain es sks where
      "mf_entries m' = mf_entries m @ vless_entry n ws # es" "mf_skipped m' = mf_skipped m @ sks" "counts_ok m'"
      "su_total (mf_summary m') = su_total (mf_summary m)"
      "mset (map en_line es) + mset (map sk_line sks) = mset (map ln_number xs)"
      "subseq (map en_line es) (map ln_number xs)" "\<forall>e \<in> set es. entry_ok to_proto (po_tag_prefix p) e"
      "distinct (map en_tag es)" "set (map en_tag es) \<inter> insert (n_tag n) seen = {}" by auto
    then show ?thesis
      using entry(1-3) by (intro exI [of _ "vless_entry n ws # es"] exI [of _ sks]) auto
  qed
qed

lemma build_lines_total: "po_tag_prefix p \<noteq> '''' \<Longrightarrow> build_lines lib to_proto p xs seen m \<noteq> None"
  by (induction xs arbitrary: seen m) (auto dest: normalize_panics split: sum.splits link_outcome.splits)
section \<open>Lemmas: filters and secrets\<close>

lemma filter_loop_eq:
  "filter_loop f es =
     (filter (\<lambda>e. \<not> country_dropped f e \<and> label_match (sf_label f) (en_label e)) es,
      count_if (country_dropped f) es,
      count_if (\<lambda>e. \<not> country_dropped f e \<and> \<not> label_match (sf_label f) (en_label e)) es)"
  by (induction es) auto

lemma cand_filter_loop_eq:
  "cand_filter_loop f es =
     (filter (\<lambda>e. filter_cand (selection_cand e) (Some f) = Pass) es,
      count_if (\<lambda>e. filter_cand (selection_cand e) (Some f) \<in> {DroppedByEntry, DroppedByExit}) es,
      count_if (\<lambda>e. filter_cand (selection_cand e) (Some f) = DroppedByLabel) es)"
proof (induction es)
  case (Cons e es)
  then show ?case by (cases "filter_cand (selection_cand e) (Some f)") simp_all
qed simp

lemma count_if_split:
  "length (filter P xs) + count_if Q xs + count_if R xs = length xs"
  if "\<And>x. P x \<longleftrightarrow> \<not> Q x \<and> \<not> R x" "\<And>x. \<not> (Q x \<and> R x)"
  using that by (induction xs) auto

text \<open>
  A line that holds a key: what comes before ://, in any letter case, is the scheme of a candidate.
\<close>

definition key_kind :: "line \<Rightarrow> string option" where
  "key_kind x = List.find (equal_fold (before ''://'' (ln_trimmed x))) [''wireguard'', ''masque'']"

lemma key_kind_Some: "key_kind x = Some k \<Longrightarrow> k \<in> {''wireguard'', ''masque''} \<and> equal_fold (before ''://'' (ln_trimmed x)) k"
  by (auto simp: key_kind_def split: if_splits)

text \<open>The skips such a line can become: nothing of them but the scheme and fixed texts.\<close>

definition key_reasons :: "string \<Rightarrow> (string \<times> string) list" where
  "key_reasons k =
     [(''unsupported_scheme'', ''The line does not contain a supported URI scheme.''),
      (''invalid_uri'', ''The line is not a valid URI.''),
      (''unsupported_scheme'', ''Unsupported scheme \"'' @ k @ '':\".''),
      (''unsupported_scheme'', ''Unsupported scheme \":\".'')]"

definition key_skip :: "int \<Rightarrow> string \<Rightarrow> string \<times> string \<Rightarrow> skip" where
  "key_skip n k r = \<lparr>sk_line = n, sk_raw = k @ ''://<redacted>'', sk_label = None, sk_code = fst r, sk_reason = snd r, sk_details = []\<rparr>"

text \<open>
  \<^verbatim>\<open>net/url\<close> returns the scheme a URL starts with in lower case, or none where it holds a character
  no scheme may have.
\<close>

definition url_scheme_law :: "text_lib \<Rightarrow> bool" where
  "url_scheme_law lib \<longleftrightarrow>
     (\<forall>k \<in> {''wireguard'', ''masque''}. \<forall>p r u. equal_fold p k \<longrightarrow> lib_url lib (p @ ''://'' @ r) = Some u \<longrightarrow>
        u_scheme u \<in> {k, ''''})"

lemma before_sep: "sep \<noteq> [] \<Longrightarrow> sublist sep s \<Longrightarrow> \<exists>r. s = before sep s @ sep @ r"
proof (induction s)
  case (Cons x xs)
  show ?case
  proof (cases "prefix sep (x # xs)")
    case True
    then show ?thesis by (auto simp: prefix_def)
  next
    case False
    then have "sublist sep xs" using Cons.prems(2) by (simp add: sublist_Cons_right)
    then show ?thesis using Cons.IH Cons.prems(1) False by simp
  qed
qed simp

text \<open>An ASCII byte of a string is one of its runes, so a folded word holds no other ASCII byte.\<close>

lemma decode_bytes_ascii:
  "decode_bytes bs = (r, n) \<Longrightarrow> n \<le> 4 \<and> (\<forall>b \<in> set (take n bs). b < 128 \<longrightarrow> r = b)"
  by (cases bs rule: decode_bytes.cases) (auto simp: in_range_def second_ok_def split: if_splits list.splits)

lemma runes_ascii_byte: "c \<in> set s \<Longrightarrow> (of_char c :: nat) < 128 \<Longrightarrow> of_char c \<in> set (runes s)"
proof (induction s rule: runes.induct)
  case (1 s)
  obtain r n where rn: "decode_rune s = (r, n)" by fastforce
  have ne: "s \<noteq> ''''" using 1(2) by auto
  have d: "n \<le> 4" "\<forall>b \<in> set (take n (map of_char (take 4 s))). b < 128 \<longrightarrow> r = b"
    using decode_bytes_ascii rn by (simp_all add: decode_rune_def)
  have t: "take n (map of_char (take 4 s)) = map of_char (take n s)" using d(1) by (simp add: take_map min_def)
  have rs: "runes s = r # runes (drop n s)" using ne rn by (subst runes.simps) simp
  have "c \<in> set (take n s) \<or> c \<in> set (drop n s)" using 1(2) by (metis append_take_drop_id set_append Un_iff)
  then show ?case
  proof
    assume "c \<in> set (take n s)"
    then have "r = of_char c" using d(2) 1(3) unfolding t by auto
    then show ?thesis by (simp add: rs)
  next
    assume "c \<in> set (drop n s)"
    then show ?thesis using 1(1) [OF ne] 1(3) rn by (simp add: rs)
  qed
qed

lemma fold_no_hash:
  assumes "equal_fold p k" "k \<in> {''wireguard'', ''masque''}"
  shows "CHR ''#'' \<notin> set p"
proof
  assume "CHR ''#'' \<in> set p"
  then have "35 \<in> set (runes p)" using runes_ascii_byte [of "CHR ''#''" p] by simp
  then have "\<exists>ch \<in> set k. folds_to 35 ch" using assms(1) unfolding equal_fold_def by (metis list_all2_conv_all_nth in_set_conv_nth)
  then show False using assms(2) by (auto simp: folds_to_def)
qed

lemma cut_at_past: "c \<notin> set p \<Longrightarrow> fst (cut_at c (p @ s)) = p @ fst (cut_at c s)"
  by (induction p) (auto split: prod.splits)

text \<open>A key line is no link, and its skip shows the scheme only.\<close>

lemma parse_key_line:
  assumes law: "url_scheme_law lib" and kind: "key_kind x = Some k"
  shows "\<exists>s r. parse_link lib x = Inl s \<and> r \<in> set (key_reasons k) \<and>
    redact_candidate s (ln_trimmed x) = key_skip (ln_number x) k r"
proof -
  let ?p = "before ''://'' (ln_trimmed x)"
  note k = key_kind_Some [OF kind]
  have red: "redact_candidate s (ln_trimmed x) = key_skip (sk_line s) k (sk_code s, sk_reason s)" for s
    using kind by (simp add: redact_candidate_def key_kind_def key_skip_def del: List.find.simps)
  have fin: ?thesis
    if ex: "\<exists>s. parse_link lib x = Inl s \<and> sk_line s = ln_number x \<and> (sk_code s, sk_reason s) \<in> set (key_reasons k)"
  proof -
    from ex obtain s where "parse_link lib x = Inl s" "sk_line s = ln_number x"
      "(sk_code s, sk_reason s) \<in> set (key_reasons k)" by blast
    then show ?thesis using red [of s] by (intro exI [of _ s] exI [of _ "(sk_code s, sk_reason s)"]) simp
  qed
  show ?thesis
  proof (cases "sublist ''://'' (ln_trimmed x)")
    case False
    then show ?thesis by (intro fin) (simp add: parse_link_def Let_def key_reasons_def)
  next
    case True
    obtain r where r: "ln_trimmed x = ?p @ ''://'' @ r" using before_sep [OF _ True] by auto
    obtain a b where ab: "cut_at CHR ''#'' (ln_trimmed x) = (a, b)" by fastforce
    have "CHR ''#'' \<notin> set (?p @ ''://'')" using fold_no_hash [of ?p k] k by simp
    from cut_at_past [OF this, of r] have "a = ?p @ ''://'' @ fst (cut_at CHR ''#'' r)"
      using ab r by (metis append.assoc fst_conv)
    then have scheme: "u_scheme u \<in> {k, ''''}" if "lib_url lib a = Some u" for u
      using law k that unfolding url_scheme_law_def by metis
    show ?thesis
    proof (cases "lib_url lib a")
      case None
      then show ?thesis using True ab by (intro fin) (simp add: parse_link_def key_reasons_def)
    next
      case (Some u)
      then have "u_scheme u \<noteq> ''vless''" "u_scheme u \<in> {k, ''''}" using scheme k by auto
      then show ?thesis using True ab Some by (intro fin) (auto simp: parse_link_def key_reasons_def)
    qed
  qed
qed

definition hides_line :: "line set \<Rightarrow> manifest \<Rightarrow> bool" where
  "hides_line X m \<longleftrightarrow>
     (\<forall>s \<in> set (mf_skipped m). \<exists>x \<in> X. sk_line s = ln_number x \<and>
        (\<forall>k. key_kind x = Some k \<longrightarrow> s \<in> key_skip (ln_number x) k ` set (key_reasons k))) \<and>
     (\<forall>e \<in> set (mf_entries m). \<exists>x \<in> X. en_line e = ln_number x \<and> key_kind x = None)"

lemma hides_add:
  "hides_line X m \<Longrightarrow> x \<in> X \<Longrightarrow> sk_line s = ln_number x \<Longrightarrow>
   (\<And>k. key_kind x = Some k \<Longrightarrow> s \<in> key_skip (ln_number x) k ` set (key_reasons k)) \<Longrightarrow> hides_line X (add_skip s m)"
  "hides_line X m \<Longrightarrow> x \<in> X \<Longrightarrow> en_line e = ln_number x \<Longrightarrow> key_kind x = None \<Longrightarrow> hides_line X (add_entry e m)"
  unfolding hides_line_def by simp_all blast+

lemma build_lines_redacts:
  "build_lines lib to_proto p xs seen m = Some m' \<Longrightarrow> url_scheme_law lib \<Longrightarrow> hides_line X m \<Longrightarrow> set xs \<subseteq> X \<Longrightarrow>
   hides_line X m'"
proof (induction xs arbitrary: seen m)
  case (Cons x xs)
  note law = Cons.prems(2)
  have sub: "x \<in> X" "set xs \<subseteq> X" using Cons.prems(4) by simp_all
  show ?case
  proof (cases "key_kind x")
    case (Some k)
    then obtain s r where s: "parse_link lib x = Inl s" "r \<in> set (key_reasons k)"
        "redact_candidate s (ln_trimmed x) = key_skip (ln_number x) k r"
      using parse_key_line [OF law Some] by blast
    have a: "hides_line X (add_skip (key_skip (ln_number x) k r) m)"
      using Some s(2) by (intro hides_add(1) [OF Cons.prems(3) sub(1)]) (auto simp: key_skip_def)
    have b: "build_lines lib to_proto p xs seen (add_skip (key_skip (ln_number x) k r) m) = Some m'"
      using Cons.prems(1) s(1,3) by simp
    show ?thesis by (rule Cons.IH [OF b law a sub(2)])
  next
    case None
    from Cons.prems(1) show ?thesis
    proof (cases rule: build_lines_step)
      case (skipped s)
      have "hides_line X (add_skip s m)"
        using skipped(1) None by (intro hides_add(1) [OF Cons.prems(3) sub(1)]) (simp_all add: skip_of_def)
      then show ?thesis by (rule Cons.IH [OF skipped(2) law _ sub(2)])
    next
      case (entry n ws)
      have "hides_line X (add_entry (vless_entry n ws) m)"
        using entry(2) None by (intro hides_add(2) [OF Cons.prems(3) sub(1)]) simp_all
      then show ?thesis by (rule Cons.IH [OF entry(4) law _ sub(2)])
    qed
  qed
qed simp

lemma scan_lines_numbers: "distinct (map ln_number (scan_lines text))"
proof -
  have "distinct (map ln_number (map (\<lambda>(i, raw). \<lparr>ln_number = int i + 1, ln_raw = f raw, ln_trimmed = g raw\<rparr>) (enumerate 0 xs)))"
    for f g and xs :: "string list"
  proof -
    have "map ln_number (map (\<lambda>(i, raw). \<lparr>ln_number = int i + 1, ln_raw = f raw, ln_trimmed = g raw\<rparr>) (enumerate 0 xs)) =
        map (\<lambda>i. int i + 1) (map fst (enumerate 0 xs))"
      by (simp only: map_map comp_def case_prod_beta line.select_convs)
    then show ?thesis by (simp add: distinct_map inj_on_def)
  qed
  then show ?thesis unfolding scan_lines_def by (rule distinct_map_filter)
qed

section \<open>The world of the witnesses\<close>

definition w_proto :: "spec \<Rightarrow> err + handler" where
  "w_proto s = Inr \<lparr>h_tag = get_tag s, h_body = ''b''\<rparr>"

definition w_entry :: "string \<Rightarrow> string \<Rightarrow> candidate option \<Rightarrow> spec \<Rightarrow> normalized \<Rightarrow> entry" where
  "w_entry proto tag c ob n =
     \<lparr>en_kind = ''outbound'', en_protocol = proto, en_tag = tag, en_label = tag, en_profile = '''',
      en_line = 1, en_country = None, en_city = '''', en_normalized = n, en_outbound = ob, en_warnings = [],
      en_selection = c\<rparr>"

definition w_normalized :: normalized where
  "w_normalized =
     \<lparr>n_kind = ''outbound'', n_protocol = ''vless'', n_profile = '''', n_tag = '''', n_line = 1, n_raw = '''',
      n_label = '''', n_address = ''h'', n_port = 443, n_uuid = ''u'', n_encryption = ''none'',
      n_network = ''tcp'', n_security = ''reality'', n_flow = flow_vision, n_alpn = [], n_sni = '''',
      n_host = '''', n_path = '''', n_fingerprint = '''', n_allow_insecure = None, n_header_type = None,
      n_public_key = '''', n_short_id = '''', n_spider_x = '''', n_mldsa65 = '''', n_pinned_certs = [],
      n_verify_names = [], n_ech = '''', n_cipher_suites = '''', n_heartbeat = 0, n_xhttp_mode = '''',
      n_xhttp_extra = None, n_final_mask = None, n_country = None, n_city = '''', n_query = []\<rparr>"

text \<open>A library whose URL parser knows one line, of a masque candidate.\<close>

definition w_url_lib :: text_lib where
  "w_url_lib = w_lib\<lparr>lib_url := (\<lambda>s. if s = ''MASQUE://k@h'' then Some
     \<lparr>u_scheme = ''masque'', u_user = ''k'', u_host = ''h'', u_hostname = ''h'', u_port = '''', u_query = ''''\<rparr> else None)\<rparr>"

lemma w_url_law: "url_scheme_law w_url_lib"
  unfolding url_scheme_law_def
proof (intro ballI allI impI)
  fix k p r u
  assume k: "k \<in> {''wireguard'', ''masque''}" "equal_fold p k" and u: "lib_url w_url_lib (p @ ''://'' @ r) = Some u"
  have url: "p @ ''://'' @ r = ''MASQUE://k@h''" and m: "u_scheme u = ''masque''"
    using u by (auto simp: w_url_lib_def split: if_splits)
  have "p = ''MASQUE''" using url by (auto simp: append_eq_Cons_conv)
  then have "k = ''masque''" using k by (auto simp: equal_fold_def folds_to_def)
  then show "u_scheme u \<in> {k, ''''}" using m by simp
qed

definition w_text :: string where "w_text = ''x'' @ [CHR 0x0A] @ '' MASQUE://k@h''"

lemma w_scan:
  "scan_lines w_text =
     [\<lparr>ln_number = 1, ln_raw = ''x'', ln_trimmed = ''x''\<rparr>, \<lparr>ln_number = 2, ln_raw = '' MASQUE://k@h'', ln_trimmed = ''MASQUE://k@h''\<rparr>]"
  by code_simp

lemma w_policy_prefix: "po_tag_prefix w_policy \<noteq> ''''"
  by (simp add: w_policy_def)

lemma w_build: obtains m where "build w_url_lib w_proto w_text ''s'' w_policy 0 = Some m"
  using build_lines_total [OF w_policy_prefix] unfolding build_def Let_def by blast

lemma build_lines_lines:
  assumes "build lib to_proto text source p now = Some m"
  shows "mset (map en_line (mf_entries m)) + mset (map sk_line (mf_skipped m)) = mset (map ln_number (scan_lines text))"
proof -
  have "counts_ok (start_manifest source now k)" "mf_entries (start_manifest source now k) = []"
    "mf_skipped (start_manifest source now k) = []" for k
    by (simp_all add: counts_ok_def start_manifest_def zero_summary_def code_sum_def)
  then show ?thesis using build_lines_spec [OF assms [unfolded build_def Let_def]] by auto
qed

lemma count_mset_map_length: "count (mset (map f xs)) y = length (filter (\<lambda>x. f x = y) xs)"
  by (induction xs) auto

section \<open>The properties\<close>

text \<open>
  C21: No line of a subscription is lost: every non-blank line is exactly one entry or one skip, the
  entries keep the line order, and the counters of the summary are the lengths of the two lists, the
  skips broken down by reason without a rest.
\<close>

theorem build_accounts:
  assumes "build lib to_proto text source p now = Some m"
  shows "mset (map en_line (mf_entries m)) + mset (map sk_line (mf_skipped m)) = mset (map ln_number (scan_lines text)) \<and>
    subseq (map en_line (mf_entries m)) (map ln_number (scan_lines text)) \<and>
    su_total (mf_summary m) = length (scan_lines text) \<and> su_parsed (mf_summary m) = length (mf_entries m) \<and>
    su_skipped (mf_summary m) = length (mf_skipped m) \<and> code_sum (mf_summary m) = length (mf_skipped m)"
proof -
  have "counts_ok (start_manifest source now k)" "su_total (mf_summary (start_manifest source now k)) = k"
    "mf_entries (start_manifest source now k) = []" "mf_skipped (start_manifest source now k) = []" for k
    by (simp_all add: counts_ok_def start_manifest_def zero_summary_def code_sum_def)
  then show ?thesis
    using build_lines_spec [OF assms [unfolded build_def Let_def]] by (auto simp: counts_ok_def)
qed

lemma build_accounts_witness:
  "\<exists>m. build w_url_lib w_proto w_text ''s'' w_policy 0 = Some m \<and>
     length (mf_entries m) + length (mf_skipped m) = 2"
proof -
  obtain m where m: "build w_url_lib w_proto w_text ''s'' w_policy 0 = Some m" by (rule w_build)
  have "size (mset (map en_line (mf_entries m)) + mset (map sk_line (mf_skipped m))) = 2"
    using build_accounts [OF m] by (simp add: w_scan)
  then show ?thesis using m by simp
qed

text \<open>
  C22: The entries of a manifest have different tags, each in the namespace of the source, and each has
  the outbound built from its own normalized link, which Xray accepts.
\<close>

theorem build_entries_ok:
  assumes "build lib to_proto text source p now = Some m"
  shows "distinct (map en_tag (mf_entries m)) \<and> list_all (entry_ok to_proto (po_tag_prefix p)) (mf_entries m)"
proof -
  have "counts_ok (start_manifest source now k)" "mf_entries (start_manifest source now k) = []" for k
    by (simp_all add: counts_ok_def start_manifest_def zero_summary_def code_sum_def)
  then show ?thesis
    using build_lines_spec [OF assms [unfolded build_def Let_def]] by (auto simp: list_all_iff)
qed

lemma build_entries_ok_witness:
  "\<exists>m. build w_url_lib w_proto w_text ''s'' w_policy 0 = Some m \<and> distinct (map en_tag (mf_entries m))"
proof -
  obtain m where m: "build w_url_lib w_proto w_text ''s'' w_policy 0 = Some m" by (rule w_build)
  then show ?thesis using build_entries_ok [OF m] by blast
qed

text \<open>
  With a source id the build always ends in a manifest: no line makes it panic.
\<close>

theorem build_returns:
  assumes "po_tag_prefix p \<noteq> ''''"
  shows "\<exists>m. build lib to_proto text source p now = Some m"
  using build_lines_total [OF assms] unfolding build_def Let_def by blast

lemma build_returns_witness: "\<exists>m. build w_url_lib w_proto w_text ''s'' w_policy 0 = Some m"
  by (rule build_returns [OF w_policy_prefix])

text \<open>
  C23: A candidate line that got into a VLESS subscription (what it has before :// is wireguard or
  masque in any letter case) holds a private key. It becomes no entry and exactly one skip, and that
  skip is the number of the line, the scheme with a fixed redacted text, no label, no details and one of
  four fixed reasons: nothing else of the line is in it.
\<close>

theorem build_redacts_keys:
  assumes "url_scheme_law lib" "build lib to_proto text source p now = Some m"
    and "x \<in> set (scan_lines text)" "key_kind x = Some k"
  shows "ln_number x \<notin> en_line ` set (mf_entries m) \<and>
    (\<exists>r \<in> set (key_reasons k). filter (\<lambda>s. sk_line s = ln_number x) (mf_skipped m) =
       [\<lparr>sk_line = ln_number x, sk_raw = k @ ''://<redacted>'', sk_label = None, sk_code = fst r,
         sk_reason = snd r, sk_details = []\<rparr>])"
proof -
  note num = scan_lines_numbers [of "text"]
  have h: "hides_line (set (scan_lines text)) m"
    by (rule build_lines_redacts [OF assms(2) [unfolded build_def Let_def] assms(1)])
      (simp_all add: start_manifest_def hides_line_def)
  have same: "y = x" if "y \<in> set (scan_lines text)" "ln_number y = ln_number x" for y
    using that assms(3) num by (auto simp: distinct_map dest: inj_onD)
  have no: "ln_number x \<notin> en_line ` set (mf_entries m)"
  proof
    assume "ln_number x \<in> en_line ` set (mf_entries m)"
    then obtain y where "y \<in> set (scan_lines text)" "ln_number y = ln_number x" "key_kind y = None"
      using h unfolding hides_line_def by force
    then show False using same [of y] assms(4) by simp
  qed
  let ?mine = "filter (\<lambda>s. sk_line s = ln_number x) (mf_skipped m)"
  have "mset (map en_line (mf_entries m)) + mset (map sk_line (mf_skipped m)) = mset (map ln_number (scan_lines text))"
    using build_lines_lines [OF assms(2)] .
  then have "count (mset (map en_line (mf_entries m))) (ln_number x) + count (mset (map sk_line (mf_skipped m))) (ln_number x) =
      count (mset (map ln_number (scan_lines text))) (ln_number x)" by (metis plus_multiset.rep_eq)
  moreover have "count (mset (map ln_number (scan_lines text))) (ln_number x) = 1"
    using num assms(3) by (simp add: distinct_count_atmost_1 del: mset_map)
  moreover have "count (mset (map en_line (mf_entries m))) (ln_number x) = 0" using no by (simp add: count_eq_zero_iff)
  moreover have "count (mset (map sk_line (mf_skipped m))) (ln_number x) = length ?mine"
    by (rule count_mset_map_length)
  ultimately have "length ?mine = 1" by simp
  then obtain s where s: "?mine = [s]" by (auto simp: length_Suc_conv)
  then have "s \<in> set ?mine" by simp
  then have "s \<in> set (mf_skipped m)" "sk_line s = ln_number x" by simp_all
  then obtain y where y: "y \<in> set (scan_lines text)" "sk_line s = ln_number y"
      "\<forall>k. key_kind y = Some k \<longrightarrow> s \<in> key_skip (ln_number y) k ` set (key_reasons k)"
    using h unfolding hides_line_def by blast
  have "y = x" using same [OF y(1)] y(2) \<open>sk_line s = ln_number x\<close> by simp
  then have "s \<in> key_skip (ln_number x) k ` set (key_reasons k)" using y(3) assms(4) by blast
  then obtain r where "r \<in> set (key_reasons k)" "s = key_skip (ln_number x) k r" by (rule imageE)
  then show ?thesis using no s unfolding key_skip_def by blast
qed

lemma build_redacts_keys_witness:
  "\<exists>m. build w_url_lib w_proto w_text ''s'' w_policy 0 = Some m \<and> 2 \<notin> en_line ` set (mf_entries m) \<and>
     map sk_raw (filter (\<lambda>s. sk_line s = 2) (mf_skipped m)) = [''masque://<redacted>'']"
proof -
  obtain m where m: "build w_url_lib w_proto w_text ''s'' w_policy 0 = Some m" by (rule w_build)
  let ?x = "\<lparr>ln_number = 2, ln_raw = '' MASQUE://k@h'', ln_trimmed = ''MASQUE://k@h''\<rparr>"
  have x: "?x \<in> set (scan_lines w_text)" by (simp add: w_scan)
  have k: "key_kind ?x = Some ''masque''" by (simp add: key_kind_def equal_fold_def folds_to_def)
  from build_redacts_keys [OF w_url_law m x k] obtain r where
    "filter (\<lambda>s. sk_line s = 2) (mf_skipped m) = [\<lparr>sk_line = 2, sk_raw = ''masque'' @ ''://<redacted>'', sk_label = None,
       sk_code = fst r, sk_reason = snd r, sk_details = []\<rparr>]" "2 \<notin> en_line ` set (mf_entries m)"
    by (simp only: line.select_convs) blast
  then show ?thesis using m by simp
qed

text \<open>
  A filter keeps exactly the entries whose country is allowed and whose label matches, in order;
  what it dropped is counted once, by the first filter that dropped it; the skips stay.
\<close>

theorem filters_exact:
  assumes "apply_filters m (Some f) = m'"
    and "sf_countries f \<noteq> [] \<or> lf_include (sf_label f) \<noteq> [] \<or> lf_exclude (sf_label f) \<noteq> []"
  shows "mf_entries m' = filter (\<lambda>e. \<not> country_dropped f e \<and> label_match (sf_label f) (en_label e)) (mf_entries m) \<and>
    mf_skipped m' = mf_skipped m \<and> su_parsed (mf_summary m') = length (mf_entries m') \<and>
    su_filtered (mf_summary m') = su_by_country (mf_summary m') + su_by_label (mf_summary m') \<and>
    su_parsed (mf_summary m') + su_filtered (mf_summary m') = length (mf_entries m)"
proof -
  let ?P = "\<lambda>e. \<not> country_dropped f e \<and> label_match (sf_label f) (en_label e)"
  have "length (filter ?P (mf_entries m)) + count_if (country_dropped f) (mf_entries m) +
      count_if (\<lambda>e. \<not> country_dropped f e \<and> \<not> label_match (sf_label f) (en_label e)) (mf_entries m) = length (mf_entries m)"
    by (rule count_if_split) auto
  then show ?thesis
    using assms by (auto simp: apply_filters_def filter_loop_eq set_filtered_def)
qed

definition w_filter :: source_filters where
  "w_filter = \<lparr>sf_countries = [], sf_entry_countries = [],
     sf_label = \<lparr>lf_include = [\<lambda>l. l = ''a''], lf_exclude = []\<rparr>\<rparr>"

definition w_manifest :: manifest where
  "w_manifest = (start_manifest ''s'' 0 2)\<lparr>mf_entries :=
     [w_entry '''' ''a'' None (Vless (build_vless w_normalized)) w_normalized,
      w_entry '''' ''b'' None (Vless (build_vless w_normalized)) w_normalized]\<rparr>"

lemma filters_exact_witness: "map en_tag (mf_entries (apply_filters w_manifest (Some w_filter))) = [''a'']"
  using filters_exact [OF refl, of w_filter w_manifest]
  by (simp add: w_filter_def w_manifest_def country_dropped_def label_match_def w_entry_def)

end
