(* ===== verification/Scd_Rules.thy ===== *)
theory Scd_Rules
  imports Scd_Config
begin

text \<open>
  The cross-field rules of the configuration (\<^verbatim>\<open>internal/scd/config/rules.go\<close>) that fix the
  namespaces of a target: source ids, port ranges, fixed tags, and the per-target and schedule
  rules. Each check returns the issues it adds, in order, as key and text below the node it
  reports at. \<^verbatim>\<open>%q\<close> is modelled for texts without characters to escape.

  The lemmas show what a configuration without issues guarantees: no tag lies in the namespace
  of two sources of one target, and none of the fixed tags in any enabled one.
\<close>

record issue =
  is_key :: string
  is_msg :: string

definition quoted :: "string \<Rightarrow> string" where
  "quoted s = ''\"'' @ s @ ''\"''"

definition issue :: "string \<Rightarrow> string \<Rightarrow> issue" where
  "issue k m = \<lparr>is_key = k, is_msg = m\<rparr>"

section \<open>Subscriptions and targets\<close>

text \<open>\<^verbatim>\<open>checkSubscriptions\<close>: each duplicated address once, in the order of first occurrence.\<close>

definition check_subscriptions :: "subscription list \<Rightarrow> issue list" where
  "check_subscriptions subs =
     (if subs = [] then []
      else
        let addrs = filter (\<lambda>a. a \<noteq> '''') (map (\<lambda>s. t_address (sub_target s)) subs);
            order = rev (remdups (rev addrs))
        in (if \<exists>s \<in> set subs. sub_enabled s then []
            else [issue ''subscriptions'' ''at least one subscription must be enabled'']) @
           map (\<lambda>a. issue ''subscriptions'' (''duplicate target address '' @ quoted a))
             (filter (\<lambda>a. count_list addrs a > 1) order))"

definition check_cron :: "cron_lib \<Rightarrow> string \<Rightarrow> string \<Rightarrow> issue list" where
  "check_cron lib key expr = (case cron_parse lib expr of Inl e \<Rightarrow> [issue key e] | Inr s \<Rightarrow> [])"

definition last_part :: "string \<Rightarrow> string" where
  "last_part obj = rev (takeWhile (\<lambda>ch. ch \<noteq> CHR ''.'') (rev obj))"

definition check_schedule :: "cron_lib \<Rightarrow> string \<Rightarrow> string \<Rightarrow> bool \<Rightarrow> issue list" where
  "check_schedule lib obj expr enabled =
     (if expr \<noteq> '''' then check_cron lib (obj @ ''.schedule'') expr
      else if enabled
      then [issue (obj @ ''.schedule'') (''required when '' @ last_part obj @ ''.enabled is true'')]
      else [])"

definition when_issue :: "bool \<Rightarrow> string \<Rightarrow> string \<Rightarrow> issue list" where
  "when_issue b k m = (if b then [issue k m] else [])"

text \<open>The issues of one balancer of \<^verbatim>\<open>checkTarget\<close>; \<open>earlier\<close> are the tags before it.\<close>

definition check_balancer :: "cron_lib \<Rightarrow> string list \<Rightarrow> nat \<Rightarrow> balancer_config \<Rightarrow> issue list" where
  "check_balancer lib earlier i b =
     (let key = ''target.balancers.'' @ nat_text i in
      when_issue (bc_tag b \<noteq> '''' \<and> bc_tag b \<in> set earlier) (key @ ''.tag'')
        (''duplicate balancer tag '' @ quoted (bc_tag b)) @
      (case bc_monitor b of None \<Rightarrow> []
       | Some bm \<Rightarrow>
           check_schedule lib (key @ ''.monitor'') (bm_schedule bm) (bm_enabled bm) @
           when_issue (bm_enabled bm \<and> bm_socks5 bm = None) (key @ ''.monitor.socks5'')
             ''required when monitor.enabled is true'' @
           when_issue (bm_enabled bm \<and> bm_request bm = None) (key @ ''.monitor.request'')
             ''required when monitor.enabled is true'' @
           when_issue (rp_enabled (bm_remote_ping bm) \<and> \<not> bm_enabled bm)
             (key @ ''.monitor.remotePing.enabled'') ''requires monitor.enabled'') @
      (case bc_selection b of None \<Rightarrow> []
       | Some bs \<Rightarrow> check_schedule lib (key @ ''.selection'') (bs_schedule bs) (bs_enabled bs)))"

fun check_balancers ::
    "cron_lib \<Rightarrow> string list \<Rightarrow> nat \<Rightarrow> balancer_config list \<Rightarrow> issue list" where
  "check_balancers lib earlier i [] = []"
| "check_balancers lib earlier i (b # bs) =
     check_balancer lib earlier i b @ check_balancers lib (earlier @ [bc_tag b]) (Suc i) bs"

text \<open>\<^verbatim>\<open>net.ParseIP(s) != nil\<close> is the argument \<open>is_ip\<close>.\<close>

definition check_target ::
    "cron_lib \<Rightarrow> (string \<Rightarrow> bool) \<Rightarrow> target \<Rightarrow> resources \<Rightarrow> issue list" where
  "check_target lib is_ip t res =
     (let m = t_monitor t in
      when_issue ((res_inbounds res \<or> res_routing res) \<and> t_inbound_socks t = None)
        ''target.inboundSocks''
        ''required when resources.inbounds.enabled or resources.routing.enabled is true'' @
      (case t_inbound_socks t of None \<Rightarrow> []
       | Some l \<Rightarrow>
           when_issue (l \<noteq> '''' \<and> l \<noteq> ''localhost'' \<and> \<not> is_ip l) ''target.inboundSocks.listen''
             ''must be an IP address or \"localhost\" (Xray cannot listen on a domain)'') @
      check_schedule lib ''target.monitor'' (tm_schedule m) (tm_enabled m) @
      (if tm_enabled m then
         when_issue (tm_request m = None) ''target.monitor.request''
           ''required when monitor.enabled is true'' @
         when_issue (t_inbound_socks t = None) ''target.inboundSocks''
           ''required when monitor.enabled is true'' @
         when_issue (\<not> res_outbounds res \<or> \<not> res_inbounds res \<or> \<not> res_routing res)
           ''target.monitor.enabled''
           ''requires resources.outbounds.enabled, resources.inbounds.enabled and resources.routing.enabled''
       else []) @
      check_balancers lib [] 0 (t_balancers t))"

text \<open>The warnings of \<^verbatim>\<open>checkTarget\<close>, by the index of their balancer.\<close>

definition target_warnings :: "target \<Rightarrow> nat list" where
  "target_warnings t =
     filter (\<lambda>i. case bc_selection (t_balancers t ! i) of None \<Rightarrow> False
                 | Some bs \<Rightarrow> bs_enabled bs \<and> t_prefix t = '''') [0..<length (t_balancers t)]"

section \<open>Sources\<close>

text \<open>The expression \<^verbatim>\<open>^[a-z0-9]([a-z0-9-]{0,14}[a-z0-9])?$\<close>.\<close>

definition id_char :: "char \<Rightarrow> bool" where
  "id_char ch \<longleftrightarrow> (let n = of_char ch :: nat in 48 \<le> n \<and> n \<le> 57 \<or> 97 \<le> n \<and> n \<le> 122)"

definition valid_source_id :: "string \<Rightarrow> bool" where
  "valid_source_id i \<longleftrightarrow>
     (case i of [] \<Rightarrow> False
      | x # xs \<Rightarrow> id_char x \<and>
          (xs = [] \<or> length xs \<le> 15 \<and> list_all (\<lambda>ch. id_char ch \<or> ch = CHR ''-'') (butlast xs) \<and>
             id_char (last xs)))"

definition ranges_overlap :: "port_range option \<Rightarrow> port_range option \<Rightarrow> bool" where
  "ranges_overlap a b \<longleftrightarrow>
     (case (a, b) of
        (Some p, Some q) \<Rightarrow> pr_start p \<le> pr_end q \<and> pr_start q \<le> pr_end p
      | _ \<Rightarrow> False)"

definition id_overlap :: "string \<Rightarrow> string \<Rightarrow> bool" where
  "id_overlap a b \<longleftrightarrow> prefix (b @ ''-'') a \<or> prefix (a @ ''-'') b"

definition pair_issues :: "string \<Rightarrow> source \<Rightarrow> source \<Rightarrow> issue list" where
  "pair_issues key src other =
     (if s_id src \<noteq> '''' \<and> s_id src = s_id other
      then [issue (key @ ''id'') (''duplicate source id '' @ quoted (s_id src))]
      else if s_id src \<noteq> '''' \<and> s_id other \<noteq> '''' \<and> id_overlap (s_id src) (s_id other)
      then [issue (key @ ''id'') (''source ids '' @ quoted (s_id src) @ '' and '' @ quoted (s_id other) @
              '' overlap: one starts with the other followed by \"-\"'')]
      else []) @
     when_issue (ranges_overlap (s_ports src) (s_ports other)) (key @ ''portRange'')
       (''overlaps the portRange of source '' @ quoted (s_id other))"

definition source_key :: "nat \<Rightarrow> string" where
  "source_key j = ''sources.'' @ nat_text j @ ''.''"

fun check_source_ids :: "source list \<Rightarrow> nat \<Rightarrow> source list \<Rightarrow> issue list" where
  "check_source_ids earlier j [] = []"
| "check_source_ids earlier j (src # srcs) =
     (if s_id src \<noteq> '''' \<and> \<not> valid_source_id (s_id src)
      then [issue (source_key j @ ''id'')
              ''must be 1..16 characters [a-z0-9-] without a leading or trailing \"-\"'']
      else concat (map (pair_issues (source_key j) src) earlier)) @
     check_source_ids (earlier @ [src]) (Suc j) srcs"

text \<open>The fixed tags that lie in the namespace of an enabled source, one issue per tag.\<close>

definition fixed_issues :: "string \<Rightarrow> string list \<Rightarrow> string list \<Rightarrow> string \<Rightarrow> issue list" where
  "fixed_issues key tags ps sid =
     map (\<lambda>tag. issue key (''tag '' @ quoted tag @ '' is in the namespace of source '' @ quoted sid))
       (filter (\<lambda>tag. \<exists>p \<in> set ps. prefix p tag) tags)"

definition check_target_source :: "target \<Rightarrow> resources \<Rightarrow> nat \<Rightarrow> source \<Rightarrow> issue list" where
  "check_target_source t res j src =
     (let key = source_key j; obs = t_prefix t; p = s_id src @ ''-'' in
      (case s_ports src of
         Some pr \<Rightarrow>
           if pr_start pr > 0 \<and> pr_end pr > 0 \<and> pr_end pr < pr_start pr
           then [issue (key @ ''portRange.end'') ''must be greater than or equal to start'']
           else when_issue (s_max_active src > 0 \<and> pr_start pr > 0 \<and>
                  pr_end pr - pr_start pr + 1 < s_max_active src) (key @ ''portRange'')
                  (''has '' @ int_text (pr_end pr - pr_start pr + 1) @ '' ports, fewer than maxActive '' @
                   int_text (s_max_active src))
       | None \<Rightarrow>
           when_issue (res_inbounds res \<or> res_routing res) (key @ ''portRange'')
             ''required when resources.inbounds.enabled or resources.routing.enabled is true'') @
      when_issue (candidate_type (s_type src) \<and> (\<not> res_inbounds res \<or> \<not> res_routing res)) (key @ ''type'')
        (quoted (s_type src) @ '' requires resources.inbounds.enabled and resources.routing.enabled'') @
      (if \<not> valid_source_id (s_id src) then []
       else
         when_issue (obs \<noteq> '''' \<and> (prefix p obs \<or> prefix obs p)) (key @ ''id'')
           (''namespace '' @ quoted p @ '' overlaps target.observatorySubjectSelectorPrefix '' @ quoted obs) @
         (if \<not> s_enabled src then []
          else fixed_issues ''target.fixedOutbounds'' (t_fixed_outbounds t) [obs @ p, p] (s_id src) @
               fixed_issues ''target.fixedInbounds'' (t_fixed_inbounds t) [''in-'' @ p] (s_id src) @
               fixed_issues ''target.fixedRouting'' (t_fixed_routing t) [''route-'' @ p] (s_id src))))"

fun check_target_sources :: "target \<Rightarrow> resources \<Rightarrow> nat \<Rightarrow> source list \<Rightarrow> issue list" where
  "check_target_sources t res j [] = []"
| "check_target_sources t res j (src # srcs) =
     check_target_source t res j src @ check_target_sources t res (Suc j) srcs"

text \<open>\<^verbatim>\<open>checkSources\<close> for one subscription.\<close>

definition check_sources :: "subscription \<Rightarrow> resources \<Rightarrow> issue list" where
  "check_sources sub res =
     check_source_ids [] 0 (sub_sources sub) @
     check_target_sources (sub_target sub) res 0 (sub_sources sub)"

section \<open>What a configuration without issues guarantees\<close>

text \<open>
  \<open>parse_ok\<close> is what reading the config (\<^verbatim>\<open>load.go\<close>) requires of every source: a non-empty id.
\<close>

definition parse_ok :: "subscription \<Rightarrow> bool" where
  "parse_ok sub \<longleftrightarrow> (\<forall>src \<in> set (sub_sources sub). s_id src \<noteq> '''')"

definition sources_ok :: "subscription \<Rightarrow> resources \<Rightarrow> bool" where
  "sources_ok sub res \<longleftrightarrow> parse_ok sub \<and> check_sources sub res = []"

definition fixed_of :: "target \<Rightarrow> kind \<Rightarrow> string list" where
  "fixed_of t k =
     (case k of KOutbound \<Rightarrow> t_fixed_outbounds t | KInbound \<Rightarrow> t_fixed_inbounds t
      | KRouting \<Rightarrow> t_fixed_routing t)"

lemma when_issue_Nil [simp]: "when_issue b k m = [] \<longleftrightarrow> \<not> b"
  by (simp add: when_issue_def)

lemma fixed_issues_Nil [simp]:
  "fixed_issues key tags ps sid = [] \<longleftrightarrow> (\<forall>tag \<in> set tags. \<forall>p \<in> set ps. \<not> prefix p tag)"
  by (auto simp: fixed_issues_def filter_empty_conv)

definition pair_ok :: "source \<Rightarrow> source \<Rightarrow> bool" where
  "pair_ok a b \<longleftrightarrow>
     s_id a \<noteq> s_id b \<and> \<not> id_overlap (s_id a) (s_id b) \<and> \<not> ranges_overlap (s_ports a) (s_ports b)"

lemma pair_issues_Nil:
  "s_id a \<noteq> '''' \<Longrightarrow> s_id b \<noteq> '''' \<Longrightarrow> pair_issues key a b = [] \<longleftrightarrow> pair_ok a b"
  by (auto simp: pair_issues_def pair_ok_def)

lemma pair_ok_sym: "pair_ok a b \<Longrightarrow> pair_ok b a"
  by (auto simp: pair_ok_def id_overlap_def ranges_overlap_def split: option.splits)

lemma check_source_ids_Nil:
  assumes "\<forall>s \<in> set earlier \<union> set srcs. s_id s \<noteq> ''''"
    and "check_source_ids earlier j srcs = []"
  shows "(\<forall>s \<in> set srcs. valid_source_id (s_id s)) \<and>
    (\<forall>e \<in> set earlier. \<forall>s \<in> set srcs. pair_ok s e) \<and> sorted_wrt (\<lambda>e s. pair_ok s e) srcs"
  using assms
proof (induction earlier j srcs rule: check_source_ids.induct)
  case (2 earlier j src srcs)
  then have v: "valid_source_id (s_id src)" and "\<forall>e \<in> set earlier. pair_issues (source_key j) src e = []"
    by (auto split: if_splits)
  with 2 show ?case by (auto simp: pair_issues_Nil)
qed simp

lemma check_target_sources_Nil:
  "check_target_sources t res j srcs = [] \<Longrightarrow> s \<in> set srcs \<Longrightarrow>
   \<exists>i. check_target_source t res i s = []"
  by (induction t res j srcs rule: check_target_sources.induct) auto

lemma sources_ok_valid:
  assumes "sources_ok sub res" and "s \<in> set (sub_sources sub)"
  shows "valid_source_id (s_id s)"
    and "\<exists>i. check_target_source (sub_target sub) res i s = []"
  using assms check_source_ids_Nil [of "[]" "sub_sources sub" 0] check_target_sources_Nil
  by (fastforce simp: sources_ok_def parse_ok_def check_sources_def)+

lemma sorted_wrt_pairs:
  "sorted_wrt P xs \<Longrightarrow> a \<in> set xs \<Longrightarrow> b \<in> set xs \<Longrightarrow> a \<noteq> b \<Longrightarrow> P a b \<or> P b a"
  by (induction xs) auto

lemma sources_ok_pair:
  assumes "sources_ok sub res" and "a \<in> set (sub_sources sub)" "b \<in> set (sub_sources sub)" "a \<noteq> b"
  shows "pair_ok a b"
proof -
  have "sorted_wrt (\<lambda>e s. pair_ok s e) (sub_sources sub)"
    using assms(1) check_source_ids_Nil [of "[]" "sub_sources sub" 0]
    by (auto simp: sources_ok_def parse_ok_def check_sources_def)
  then show ?thesis
    using sorted_wrt_pairs [OF _ assms(2-4)] pair_ok_sym by blast
qed

lemma sources_ok_prefix:
  assumes "sources_ok sub res" and "s \<in> set (sub_sources sub)" and "t_prefix (sub_target sub) \<noteq> ''''"
  shows "\<not> prefix (s_id s @ ''-'') (t_prefix (sub_target sub))"
    and "\<not> prefix (t_prefix (sub_target sub)) (s_id s @ ''-'')"
  using sources_ok_valid [OF assms(1,2)] assms(3)
  by (auto simp: check_target_source_def Let_def split: if_splits)

lemma prefix_dash: "prefix (a @ ''-'') (b @ ''-'') \<Longrightarrow> a = b \<or> prefix (a @ ''-'') b"
  by (auto simp: prefix_append prefix_Cons)

lemma pair_ok_dash: "pair_ok a b \<Longrightarrow> \<not> prefix (s_id a @ ''-'') (s_id b @ ''-'')"
  using prefix_dash by (fastforce simp: pair_ok_def id_overlap_def)

text \<open>No tag is in the namespaces of two sources.\<close>

lemma namespaces_disjoint:
  assumes ok: "sources_ok sub res" and a: "a \<in> set (sub_sources sub)" and b: "b \<in> set (sub_sources sub)"
    and ne: "a \<noteq> b" and own: "owns (source_ns (sub_target sub) (s_id a)) k tag"
  shows "\<not> owns (source_ns (sub_target sub) (s_id b)) k tag"
proof
  assume own': "owns (source_ns (sub_target sub) (s_id b)) k tag"
  have ab: "\<not> prefix (s_id a @ ''-'') (s_id b @ ''-'')" "\<not> prefix (s_id b @ ''-'') (s_id a @ ''-'')"
    using pair_ok_dash sources_ok_pair [OF ok] a b ne by metis+
  let ?o = "t_prefix (sub_target sub)"
  show False
  proof (cases k)
    case KOutbound
    have cross: "\<not> (prefix (?o @ s_id x @ ''-'') tag \<and> prefix (s_id y @ ''-'') tag)"
      if "x \<in> {a, b}" "y \<in> {a, b}" "x \<noteq> y" for x y
    proof
      assume p: "prefix (?o @ s_id x @ ''-'') tag \<and> prefix (s_id y @ ''-'') tag"
      show False
      proof (cases "?o = ''''")
        case True
        with p ab that prefix_comparable show False by fastforce
      next
        case False
        have "prefix ?o tag" using p by (auto dest: append_prefixD)
        then have "prefix ?o (s_id y @ ''-'') \<or> prefix (s_id y @ ''-'') ?o"
          using p prefix_comparable by blast
        moreover have "y \<in> set (sub_sources sub)" using that a b by blast
        ultimately show False using sources_ok_prefix [OF ok _ False] by blast
      qed
    qed
    have same: "\<not> (prefix (q @ s_id a @ ''-'') tag \<and> prefix (q @ s_id b @ ''-'') tag)" for q
      using prefix_comparable [of "q @ s_id a @ ''-''" tag "q @ s_id b @ ''-''"] ab by auto
    show False
      using own own' KOutbound cross [of a b] cross [of b a] same [of ?o] same [of "''''"] ne by auto
  next
    case KInbound
    then show False
      using own own' prefix_comparable [of "''in-'' @ s_id a @ ''-''" tag "''in-'' @ s_id b @ ''-''"] ab by auto
  next
    case KRouting
    then show False
      using own own' prefix_comparable [of "''route-'' @ s_id a @ ''-''" tag "''route-'' @ s_id b @ ''-''"] ab
      by auto
  qed
qed

text \<open>No fixed tag is in the namespace of an enabled source.\<close>

lemma fixed_not_owned:
  assumes "sources_ok sub res" and "s \<in> set (sub_sources sub)" and "s_enabled s"
    and "tag \<in> set (fixed_of (sub_target sub) k)"
  shows "\<not> owns (source_ns (sub_target sub) (s_id s)) k tag"
  using sources_ok_valid [OF assms(1,2)] assms(3,4)
  by (cases k) (auto simp: check_target_source_def fixed_of_def Let_def split: if_splits)

text \<open>Two sources share no port.\<close>

lemma ports_disjoint:
  assumes "sources_ok sub res" and "a \<in> set (sub_sources sub)" "b \<in> set (sub_sources sub)" "a \<noteq> b"
    and "s_ports a = Some pa" "s_ports b = Some pb"
    and "pr_start pa \<le> port" "port \<le> pr_end pa"
  shows "\<not> (pr_start pb \<le> port \<and> port \<le> pr_end pb)"
  using sources_ok_pair [OF assms(1-4)] assms(5-)
  by (auto simp: pair_ok_def ranges_overlap_def)

text \<open>A valid configuration with two sources, for the witnesses.\<close>

definition w_vl :: source where
  "w_vl = blank_source\<lparr>s_id := ''vl'', s_ports := Some \<lparr>pr_start = 100, pr_end = 109\<rparr>\<rparr>"

definition w_wg :: source where
  "w_wg = blank_source\<lparr>s_id := ''wg'', s_type := ''wireguard'', s_max_active := 2,
     s_ports := Some \<lparr>pr_start = 200, pr_end = 202\<rparr>,
     s_selection := Some \<lparr>sel_strategy = ''load'', sel_margin = 20, sel_confirm = 3, sel_cooldown = 30,
       sel_replace_after = 3\<rparr>\<rparr>"

definition w_target :: target where
  "w_target = blank_target\<lparr>t_address := ''x:1'', t_inbound_socks := Some ''127.0.0.1'',
     t_fixed_outbounds := [''direct'', ''block''], t_fixed_inbounds := [''api''],
     t_fixed_routing := [''api''], t_prefix := ''obs-''\<rparr>"

definition w_sub :: subscription where
  "w_sub = \<lparr>sub_id = ''s'', sub_enabled = True, sub_sources = [w_vl, w_wg], sub_target = w_target\<rparr>"

definition w_res :: resources where
  "w_res = \<lparr>res_outbounds = True, res_inbounds = True, res_routing = True\<rparr>"

lemmas w_config_defs = w_vl_def w_wg_def w_target_def w_sub_def w_res_def blank_defs

lemma w_sub_ok: "sources_ok w_sub w_res"
  by (simp add: w_config_defs sources_ok_def parse_ok_def check_sources_def valid_source_id_def id_char_def
      pair_issues_def id_overlap_def ranges_overlap_def check_target_source_def candidate_type_def
      fixed_issues_def when_issue_def Let_def)

text \<open>
  C12: In a valid configuration a tag in the namespace of a source is in the namespace of no other
  source of the target, and, when the source is enabled, it is not one of the target's fixed tags:
  what one source replaces is never another's or the user's.
\<close>

theorem valid_config_separates:
  assumes "sources_ok sub res" "a \<in> set (sub_sources sub)"
    and "owns (source_ns (sub_target sub) (s_id a)) k tag"
  shows "(\<forall>b \<in> set (sub_sources sub). b \<noteq> a \<longrightarrow> \<not> owns (source_ns (sub_target sub) (s_id b)) k tag) \<and>
    (s_enabled a \<longrightarrow> tag \<notin> set (fixed_of (sub_target sub) k))"
  using namespaces_disjoint [OF assms(1,2) _ _ assms(3)] fixed_not_owned [OF assms(1,2)] assms(3) by blast

lemma valid_config_separates_witness:
  "\<not> owns (source_ns w_target ''wg'') KOutbound ''obs-vl-1'' \<and> ''obs-vl-1'' \<notin> set (fixed_of w_target KOutbound)"
  using valid_config_separates [OF w_sub_ok, of w_vl KOutbound "''obs-vl-1''"] by (simp add: w_config_defs)

end
