(* ===== verification/Scd_Topology.thy ===== *)
theory Scd_Topology
  imports Scd_Manifest Scd_Rules
begin

text \<open>
  The tunnels of a source on its target (\<^verbatim>\<open>internal/scd/topology\<close>): which entries get a port, and the tags of everything a tunnel
  adds to Xray. The lemmas show that the ports are the source's own and that every tag lies in its
  namespace, so that with a valid configuration two sources never collide.
\<close>

section \<open>Tunnels\<close>

record prepared =
  po_tag :: string
  po_normalized :: normalized
  po_json :: spec

record tunnel =
  tn_source :: string
  tn_protocol :: string
  tn_transport :: string
  tn_base_id :: string
  tn_display :: string
  tn_country :: string
  tn_base_tag :: string
  tn_initial :: string
  tn_current :: string
  tn_inbound :: string
  tn_route :: string
  tn_listen :: string
  tn_port :: int
  tn_out_initial :: prepared
  tn_out_bare :: prepared

definition prepare :: "entry \<Rightarrow> target \<Rightarrow> string \<Rightarrow> prepared" where
  "prepare e t tag =
     (if en_protocol e \<noteq> ''''
      then \<lparr>po_tag = tag, po_normalized = (en_normalized e)\<lparr>n_tag := tag\<rparr>,
             po_json = with_tag (en_outbound e) tag\<rparr>
      else let n = for_target (en_normalized e) tag (t_vision_udp443 t)
           in \<lparr>po_tag = tag, po_normalized = n, po_json = Vless (build_vless n)\<rparr>)"

text \<open>\<^verbatim>\<open>NewTunnel\<close>; the target has \<^verbatim>\<open>inboundSocks\<close> (without it the code does not get here).\<close>

definition new_tunnel :: "entry \<Rightarrow> string \<Rightarrow> target \<Rightarrow> int \<Rightarrow> tunnel" where
  "new_tunnel e sid t port =
     (let initial = t_prefix t @ en_tag e
      in \<lparr>tn_source = sid, tn_protocol = en_protocol e,
          tn_transport = (if en_protocol e = ''masque'' then cd_transport (selection_cand e) else ''''),
          tn_base_id = en_tag e, tn_display = en_label e,
          tn_country = (case en_country e of Some i \<Rightarrow> ci_iso2 i | None \<Rightarrow> ''''),
          tn_base_tag = en_tag e, tn_initial = initial, tn_current = initial,
          tn_inbound = ''in-'' @ en_tag e, tn_route = ''route-'' @ en_tag e,
          tn_listen = (case t_inbound_socks t of Some l \<Rightarrow> l | None \<Rightarrow> ''''), tn_port = port,
          tn_out_initial = prepare e t initial, tn_out_bare = prepare e t (en_tag e)\<rparr>)"

text \<open>The order of VLESS entries: tag, line, raw link.\<close>

definition entry_cmp :: "entry \<Rightarrow> entry \<Rightarrow> int" where
  "entry_cmp a b =
     cmp_or [cmp_ord (en_tag a) (en_tag b), cmp_ord (en_line a) (en_line b),
       cmp_ord (n_raw (en_normalized a)) (n_raw (en_normalized b))]"

definition capacity :: "port_range \<Rightarrow> int" where
  "capacity pr = max (pr_end pr - pr_start pr + 1) 0"

definition exhausted :: "port_range \<Rightarrow> nat \<Rightarrow> entry \<Rightarrow> skip" where
  "exhausted pr n e =
     \<lparr>sk_line = en_line e, sk_raw = n_raw (en_normalized e), sk_label = Some (en_label e),
      sk_code = ''port_range_exhausted'',
      sk_reason = ''The source portRange has no free port for this line.'',
      sk_details = [''portRange '' @ int_text (pr_start pr) @ ''-'' @ int_text (pr_end pr) @
        '' can allocate only '' @ int_text (capacity pr) @ '' ports, but '' @ nat_text n @
        '' tunnels were generated'']\<rparr>"

definition by_tag :: "entry list \<Rightarrow> port_range \<Rightarrow> entry list \<times> skip list" where
  "by_tag es pr =
     (let entries = sort_by entry_cmp es; cap = nat (capacity pr)
      in if length entries \<le> cap then (entries, [])
         else (take cap entries, map (exhausted pr (length entries)) (drop cap entries)))"

text \<open>The entries that get a slot: the active set of a candidate source, or all in tag order.\<close>

definition source_entries :: "entry list \<Rightarrow> source \<Rightarrow> port_range \<Rightarrow> entry list \<times> skip list" where
  "source_entries es src pr =
     (if candidate_type (s_type src)
      then (case s_selection src of
              None \<Rightarrow> ([], [])
            | Some sel \<Rightarrow> (pick selection_cand (rank (sel_strategy sel) selection_cand es) (s_max_active src), []))
      else by_tag es pr)"

definition build_source :: "entry list \<Rightarrow> source \<Rightarrow> target \<Rightarrow> tunnel list \<times> skip list" where
  "build_source es src t =
     (case (t_inbound_socks t, s_ports src) of
        (Some l, Some pr) \<Rightarrow>
          (let (entries, skipped) = source_entries es src pr
           in (map (\<lambda>(i, e). new_tunnel e (s_id src) t (pr_start pr + int i)) (enumerate 0 entries), skipped))
      | _ \<Rightarrow> ([], []))"

section \<open>Lemmas\<close>

interpretation entry_cmp: comparator entry_cmp
  using comparator_cmp_or3 [OF comparator_cmp_ord comparator_cmp_ord comparator_cmp_ord]
  by (simp add: entry_cmp_def [abs_def])

lemma prepare_tag [simp]: "po_tag (prepare e t tag) = tag" "get_tag (po_json (prepare e t tag)) = tag"
  by (simp_all add: prepare_def Let_def)

lemma new_tunnel_sel [simp]:
  "tn_source (new_tunnel e sid t port) = sid" "tn_protocol (new_tunnel e sid t port) = en_protocol e"
  "tn_base_id (new_tunnel e sid t port) = en_tag e" "tn_base_tag (new_tunnel e sid t port) = en_tag e"
  "tn_initial (new_tunnel e sid t port) = t_prefix t @ en_tag e"
  "tn_current (new_tunnel e sid t port) = t_prefix t @ en_tag e"
  "tn_inbound (new_tunnel e sid t port) = ''in-'' @ en_tag e"
  "tn_route (new_tunnel e sid t port) = ''route-'' @ en_tag e" "tn_port (new_tunnel e sid t port) = port"
  "tn_out_initial (new_tunnel e sid t port) = prepare e t (t_prefix t @ en_tag e)"
  "tn_out_bare (new_tunnel e sid t port) = prepare e t (en_tag e)"
  by (simp_all add: new_tunnel_def Let_def)

text \<open>What the rest of the program relies on of a tunnel of source \<open>sid\<close> on \<open>t\<close>.\<close>

definition tunnel_wf :: "target \<Rightarrow> string \<Rightarrow> tunnel \<Rightarrow> bool" where
  "tunnel_wf t sid tn \<longleftrightarrow>
     tn_source tn = sid \<and> base_tag_of sid (tn_base_tag tn) \<and> tn_base_id tn = tn_base_tag tn \<and>
     tn_initial tn = t_prefix t @ tn_base_tag tn \<and>
     (tn_current tn = tn_initial tn \<or> tn_current tn = tn_base_tag tn) \<and>
     tn_inbound tn = ''in-'' @ tn_base_tag tn \<and> tn_route tn = ''route-'' @ tn_base_tag tn \<and>
     get_tag (po_json (tn_out_initial tn)) = tn_initial tn \<and> po_tag (tn_out_initial tn) = tn_initial tn \<and>
     get_tag (po_json (tn_out_bare tn)) = tn_base_tag tn \<and> po_tag (tn_out_bare tn) = tn_base_tag tn"

lemma new_tunnel_wf: "base_tag_of sid (en_tag e) \<Longrightarrow> tunnel_wf t sid (new_tunnel e sid t port)"
  by (simp add: tunnel_wf_def)

lemma tunnel_wf_owns:
  assumes "tunnel_wf t sid tn"
  shows "owns (source_ns t sid) KOutbound (tn_initial tn)" "owns (source_ns t sid) KOutbound (tn_current tn)"
    "owns (source_ns t sid) KOutbound (tn_base_tag tn)"
    "owns (source_ns t sid) KInbound (tn_inbound tn)" "owns (source_ns t sid) KRouting (tn_route tn)"
proof -
  let ?n = "source_ns t sid"
  have b: "base_tag_of (ns_source ?n) (tn_base_tag tn)" using assms by (simp add: tunnel_wf_def)
  note o1 = owns_intros [OF b]
  show "owns ?n KOutbound (tn_initial tn)" "owns ?n KOutbound (tn_current tn)"
    "owns ?n KOutbound (tn_base_tag tn)" "owns ?n KInbound (tn_inbound tn)" "owns ?n KRouting (tn_route tn)"
    using assms o1 by (auto simp: tunnel_wf_def simp del: owns.simps)
qed

lemma by_tag_split:
  "map en_line (fst (by_tag es pr)) @ map sk_line (snd (by_tag es pr)) = map en_line (sort_by entry_cmp es)"
  by (simp add: by_tag_def exhausted_def Let_def comp_def flip: map_append)

lemma by_tag_fst: "fst (by_tag es pr) = take (nat (capacity pr)) (sort_by entry_cmp es)"
  by (simp add: by_tag_def Let_def)

lemma source_entries_subset:
  assumes "0 \<le> s_max_active src"
  shows "set (fst (source_entries es src pr)) \<subseteq> set es"
proof -
  have "set (pick selection_cand (rank st selection_cand es) (s_max_active src)) \<subseteq> set es" for st
    using pick_set [OF assms, of selection_cand "rank st selection_cand es"] by simp
  then show ?thesis
    by (auto simp: source_entries_def by_tag_fst dest: in_set_takeD split: option.splits)
qed

lemma source_entries_length:
  assumes "0 \<le> s_max_active src" "s_max_active src \<le> capacity pr"
  shows "int (length (fst (source_entries es src pr))) \<le> capacity pr"
  using assms pick_length [OF assms(1)]
  by (auto simp: source_entries_def by_tag_fst capacity_def intro: order_trans split: option.splits)

lemma build_source_Some:
  assumes "t_inbound_socks t = Some l" "s_ports src = Some pr"
  shows "fst (build_source es src t) =
    map (\<lambda>(i, e). new_tunnel e (s_id src) t (pr_start pr + int i)) (enumerate 0 (fst (source_entries es src pr)))"
    "snd (build_source es src t) = snd (source_entries es src pr)"
  using assms by (simp_all add: build_source_def split: prod.splits)

lemma build_source_nth:
  assumes "t_inbound_socks t = Some l" "s_ports src = Some pr" "i < length (fst (build_source es src t))"
  shows "fst (build_source es src t) ! i =
    new_tunnel (fst (source_entries es src pr) ! i) (s_id src) t (pr_start pr + int i)"
  using assms by (simp add: build_source_Some nth_enumerate_eq)

lemma build_source_length:
  assumes "t_inbound_socks t = Some l" "s_ports src = Some pr"
  shows "length (fst (build_source es src t)) = length (fst (source_entries es src pr))"
  using assms by (simp add: build_source_Some)

lemma build_source_None:
  "t_inbound_socks t = None \<or> s_ports src = None \<Longrightarrow> build_source es src t = ([], [])"
  by (auto simp: build_source_def split: option.splits)

lemma build_source_wf:
  assumes "0 \<le> s_max_active src" "\<forall>e \<in> set es. base_tag_of (s_id src) (en_tag e)"
    and "tn \<in> set (fst (build_source es src t))"
  shows "tunnel_wf t (s_id src) tn"
proof -
  obtain l pr where lp: "t_inbound_socks t = Some l" "s_ports src = Some pr"
    using assms(3) build_source_None [of t src es] by fastforce
  then obtain i where i: "i < length (fst (build_source es src t))"
    "tn = new_tunnel (fst (source_entries es src pr) ! i) (s_id src) t (pr_start pr + int i)"
    using assms(3) build_source_nth [OF lp] by (metis in_set_conv_nth)
  have "fst (source_entries es src pr) ! i \<in> set es"
    using i(1) build_source_length [OF lp] source_entries_subset [OF assms(1)] nth_mem by fastforce
  then show ?thesis using assms(2) i(2) new_tunnel_wf by blast
qed

section \<open>Properties\<close>

lemma sources_ok_ports:
  assumes "sources_ok sub res" "src \<in> set (sub_sources sub)" "s_ports src = Some pr"
    and "0 < pr_start pr" "0 < pr_end pr"
  shows "pr_start pr \<le> pr_end pr" "s_max_active src \<le> capacity pr \<or> s_max_active src \<le> 0"
proof -
  obtain j where "check_target_source (sub_target sub) res j src = []"
    using sources_ok_valid(2) [OF assms(1,2)] by blast
  then show "pr_start pr \<le> pr_end pr" "s_max_active src \<le> capacity pr \<or> s_max_active src \<le> 0"
    using assms(3-5) by (auto simp: check_target_source_def capacity_def Let_def split: if_splits)
qed

lemma ports_at:
  assumes "sources_ok sub res" "src \<in> set (sub_sources sub)" "s_ports src = Some pr"
    and "0 < pr_start pr" "0 < pr_end pr" "0 \<le> s_max_active src"
    and "i < length (fst (build_source es src (sub_target sub)))"
  shows "tn_port (fst (build_source es src (sub_target sub)) ! i) = pr_start pr + int i \<and>
    pr_start pr + int i \<le> pr_end pr"
proof -
  note se = sources_ok_ports [OF assms(1-5)]
  then have cap: "pr_start pr \<le> pr_end pr" "s_max_active src \<le> capacity pr"
    using assms(6) by (auto simp: capacity_def)
  obtain l where l: "t_inbound_socks (sub_target sub) = Some l"
    using assms(7) build_source_None [of "sub_target sub" src es] by fastforce
  have "int (length (fst (build_source es src (sub_target sub)))) \<le> capacity pr"
    using source_entries_length [OF assms(6) cap(2)] build_source_length [OF l assms(3)] by simp
  then have "int i < capacity pr" using assms(7) by linarith
  then show ?thesis using build_source_nth [OF l assms(3,7)] cap(1) by (simp add: capacity_def)
qed

text \<open>
  With a valid configuration the i-th tunnel of a source listens on the i-th port of its
  portRange, and there is a port for every tunnel.
\<close>

theorem ports_follow_slots:
  assumes "sources_ok sub res" "src \<in> set (sub_sources sub)" "s_ports src = Some pr"
    and "0 < pr_start pr" "0 < pr_end pr" "0 \<le> s_max_active src"
  shows "map tn_port (fst (build_source es src (sub_target sub))) =
      map (\<lambda>i. pr_start pr + int i) [0..<length (fst (build_source es src (sub_target sub)))] \<and>
    int (length (fst (build_source es src (sub_target sub)))) \<le> pr_end pr - pr_start pr + 1"
proof
  let ?l = "fst (build_source es src (sub_target sub))"
  note at1 = ports_at [OF assms(1-6), of _ es]
  show "map tn_port ?l = map (\<lambda>i. pr_start pr + int i) [0..<length ?l]"
    using at1 by (intro nth_equalityI) auto
  show "int (length ?l) \<le> pr_end pr - pr_start pr + 1"
    using at1 [of "length ?l - 1"] sources_ok_ports [OF assms(1-5)] by (cases "?l = []") auto
qed

text \<open>
  C13: Two sources of one target with a valid configuration never collide: no port, inbound tag,
  rule tag or outbound tag (with or without the observatory prefix) of a tunnel of one is one of a
  tunnel of the other. The tags of the entries of a source start with its id (the tag prefix).
\<close>

theorem source_tunnels_disjoint:
  assumes ok: "sources_ok sub res" and ab: "a \<in> set (sub_sources sub)" "b \<in> set (sub_sources sub)" "a \<noteq> b"
    and ports: "\<forall>s \<in> {a, b}. \<forall>pr. s_ports s = Some pr \<longrightarrow> 0 < pr_start pr \<and> 0 < pr_end pr"
    and act: "\<forall>s \<in> {a, b}. 0 \<le> s_max_active s"
    and tags: "\<forall>e \<in> set es. base_tag_of (s_id a) (en_tag e)" "\<forall>e \<in> set es'. base_tag_of (s_id b) (en_tag e)"
    and tn: "tn \<in> set (fst (build_source es a (sub_target sub)))"
      "tn' \<in> set (fst (build_source es' b (sub_target sub)))"
  shows "tn_port tn \<noteq> tn_port tn' \<and> tn_inbound tn \<noteq> tn_inbound tn' \<and> tn_route tn \<noteq> tn_route tn' \<and>
    {tn_initial tn, tn_base_tag tn} \<inter> {tn_initial tn', tn_base_tag tn'} = {}"
proof -
  let ?t = "sub_target sub"
  have wf: "tunnel_wf ?t (s_id a) tn" "tunnel_wf ?t (s_id b) tn'"
    using build_source_wf act tags tn by simp_all
  note oa = tunnel_wf_owns [OF wf(1)] and ob = tunnel_wf_owns [OF wf(2)]
  note dis = namespaces_disjoint [OF ok ab]
  have tagged: "tn_inbound tn \<noteq> tn_inbound tn'" "tn_route tn \<noteq> tn_route tn'"
    "{tn_initial tn, tn_base_tag tn} \<inter> {tn_initial tn', tn_base_tag tn'} = {}"
    using dis oa ob by fastforce+
  obtain i pr where i: "s_ports a = Some pr" "i < length (fst (build_source es a ?t))"
    "tn = fst (build_source es a ?t) ! i"
    using tn(1) build_source_None [of ?t a es] by (force simp: in_set_conv_nth)
  obtain j qr where j: "s_ports b = Some qr" "j < length (fst (build_source es' b ?t))"
    "tn' = fst (build_source es' b ?t) ! j"
    using tn(2) build_source_None [of ?t b es'] by (force simp: in_set_conv_nth)
  have "tn_port tn = pr_start pr + int i \<and> pr_start pr + int i \<le> pr_end pr"
    unfolding i(3) using ports act i(1) by (intro ports_at [OF ok ab(1) i(1) _ _ _ i(2)]) auto
  moreover have "tn_port tn' = pr_start qr + int j \<and> pr_start qr + int j \<le> pr_end qr"
    unfolding j(3) using ports act j(1) by (intro ports_at [OF ok ab(2) j(1) _ _ _ j(2)]) auto
  ultimately have "tn_port tn \<noteq> tn_port tn'"
    using ports_disjoint [OF ok ab i(1) j(1), of "tn_port tn"] by auto
  with tagged show ?thesis by blast
qed

text \<open>
  A VLESS source: the entries with a port are the first ones in the order of tag, line and
  link, as many as there are ports; every other entry is reported as skipped, in that order.
\<close>

theorem by_tag_cuts:
  "sorted_wrt (\<lambda>a b. entry_cmp a b \<le> 0) (fst (by_tag es pr)) \<and>
   int (length (fst (by_tag es pr))) \<le> capacity pr \<and>
   (\<exists>rest. mset (fst (by_tag es pr) @ rest) = mset es \<and>
      map sk_line (snd (by_tag es pr)) = map en_line rest \<and>
      sorted_wrt (\<lambda>a b. entry_cmp a b \<le> 0) (fst (by_tag es pr) @ rest) \<and>
      (rest \<noteq> [] \<longrightarrow> int (length (fst (by_tag es pr))) = capacity pr))"
proof -
  let ?s = "sort_by entry_cmp es" and ?k = "nat (capacity pr)"
  have cap: "0 \<le> capacity pr" by (simp add: capacity_def)
  have split: "take ?k ?s @ drop ?k ?s = ?s" by simp
  have "map sk_line (snd (by_tag es pr)) = map en_line (drop ?k ?s)"
    by (simp add: by_tag_def exhausted_def Let_def comp_def)
  then have "\<exists>rest. mset (fst (by_tag es pr) @ rest) = mset es \<and>
      map sk_line (snd (by_tag es pr)) = map en_line rest \<and>
      sorted_wrt (\<lambda>a b. entry_cmp a b \<le> 0) (fst (by_tag es pr) @ rest) \<and>
      (rest \<noteq> [] \<longrightarrow> int (length (fst (by_tag es pr))) = capacity pr)"
    unfolding by_tag_fst using cap
    by (intro exI [of _ "drop ?k ?s"]) (simp add: split entry_cmp.sorted_sort_by del: mset_append)
  moreover have "sorted_wrt (\<lambda>a b. entry_cmp a b \<le> 0) (take ?k ?s)"
    using entry_cmp.sorted_sort_by [of es] split by (metis sorted_wrt_append)
  ultimately show ?thesis using cap by (simp add: by_tag_fst)
qed

definition w_vless_entry :: "string \<Rightarrow> entry" where
  "w_vless_entry tag = w_entry '''' tag None (Vless (build_vless w_normalized)) w_normalized"

lemma w_vless_source:
  "map tn_inbound (fst (build_source [w_vless_entry ''vl-b'', w_vless_entry ''vl-a''] w_vl w_target)) =
   [''in-vl-a'', ''in-vl-b'']"
  by (simp add: build_source_def source_entries_def candidate_type_def by_tag_def capacity_def entry_cmp_def
      cmp_ord_def w_vless_entry_def w_entry_def w_config_defs)

lemma ports_follow_slots_witness:
  "map tn_port (fst (build_source [w_vless_entry ''vl-b'', w_vless_entry ''vl-a''] w_vl w_target)) = [100, 101]"
proof -
  let ?l = "fst (build_source [w_vless_entry ''vl-b'', w_vless_entry ''vl-a''] w_vl w_target)"
  have "length ?l = 2" using arg_cong [OF w_vless_source, of length] by simp
  then show ?thesis
    using ports_follow_slots [OF w_sub_ok, of w_vl "\<lparr>pr_start = 100, pr_end = 109\<rparr>"
        "[w_vless_entry ''vl-b'', w_vless_entry ''vl-a'']"]
    by (simp add: w_sub_def) (simp add: w_config_defs upt_rec)
qed

lemma w_wg_source:
  "map tn_inbound (fst (build_source [w_vless_entry ''wg-a''] w_wg w_target)) = [''in-wg-a'']"
  by (simp add: build_source_def source_entries_def candidate_type_def pick_def rank_def ranked_by_def
      place_cmp_def cmp_ord_def selection_cand_def zero_candidate_def
      w_vless_entry_def w_entry_def w_config_defs)

lemma source_tunnels_disjoint_witness:
  "tn_port ` set (fst (build_source [w_vless_entry ''vl-a''] w_vl w_target)) \<inter>
   tn_port ` set (fst (build_source [w_vless_entry ''wg-a''] w_wg w_target)) = {}"
proof -
  let ?a = "fst (build_source [w_vless_entry ''vl-a''] w_vl w_target)"
  let ?b = "fst (build_source [w_vless_entry ''wg-a''] w_wg w_target)"
  have "tn_port tn \<noteq> tn_port tn'" if "tn \<in> set ?a" "tn' \<in> set ?b" for tn tn'
    using source_tunnels_disjoint [OF w_sub_ok, of w_vl w_wg "[w_vless_entry ''vl-a'']" "[w_vless_entry ''wg-a'']" tn tn'] that
    by (simp add: w_sub_def base_tag_of_def w_vless_entry_def w_entry_def) (simp add: w_config_defs)
  then show ?thesis by blast
qed
lemma by_tag_cuts_witness:
  "int (length (fst (by_tag [w_vless_entry ''b'', w_vless_entry ''a''] \<lparr>pr_start = 1, pr_end = 1\<rparr>))) = 1"
proof -
  let ?es = "[w_vless_entry ''b'', w_vless_entry ''a'']" and ?pr = "\<lparr>pr_start = 1, pr_end = 1\<rparr>"
  have cap: "capacity ?pr = 1" by (simp add: capacity_def)
  obtain rest where rest: "mset (fst (by_tag ?es ?pr) @ rest) = mset ?es"
    "rest \<noteq> [] \<longrightarrow> int (length (fst (by_tag ?es ?pr))) = 1"
    and le: "int (length (fst (by_tag ?es ?pr))) \<le> 1"
    using by_tag_cuts [of ?es ?pr] unfolding cap by blast
  have "size (mset (fst (by_tag ?es ?pr) @ rest)) = 2" unfolding rest(1) by simp
  then have "length (fst (by_tag ?es ?pr)) + length rest = 2" by simp
  then have "rest \<noteq> []" using le by auto
  then show ?thesis using rest(2) by blast
qed

end
