(* ===== verification/Scd_Xray_Fake.thy ===== *)
theory Scd_Xray_Fake
  imports Scd_Xray_Api
begin

text \<open>
  The in-process Xray of \<^verbatim>\<open>internal/scd/xrayapi/xrayfake\<close>, the repository's own statement of what
  the real server does: handler and rule calls with Xray's error texts, shuffled lists, injected
  failures and delays, balancers over an observatory. The client of \<^verbatim>\<open>xrayapi\<close> over it satisfies
  the laws of \<open>xray_api\<close>, so every theorem about the algorithms holds for it, and it is the
  concrete world of the witnesses.

  A map of handlers is kept as tag and payload (the tag of a stored configuration is its key).
  Random orders are an argument: \<open>fs_rand\<close> gives, for the number of calls so far, the choices
  of the shuffle. \<open>fs_typed\<close> and \<open>fs_cond\<close> stand for the decoding of typed messages and the
  building of rule conditions by xray-core: the error text of a payload or rule it rejects.
\<close>

datatype strategy = LeastPing | LeastLoad | RandomPick | RoundRobin

record fake_balancer =
  fb_selectors :: "string list"
  fb_strategy :: strategy
  fb_override :: string

record server =
  fs_outbounds :: "(string, string) gomap"
  fs_inbounds :: "(string, string) gomap"
  fs_rules :: "rule list"
  fs_balancers :: "(string, fake_balancer) gomap"
  fs_calls :: "string list"
  fs_fail :: "(string, status) gomap"
  fs_delays :: "(string, int) gomap"
  fs_observations :: "ostatus list"
  fs_no_routing :: bool
  fs_no_observatory :: bool
  fs_rand :: "nat \<Rightarrow> nat list"
  fs_typed :: "string \<Rightarrow> string option"
  fs_cond :: "rrule \<Rightarrow> string option"

definition new_server :: server where
  "new_server =
     \<lparr>fs_outbounds = [], fs_inbounds = [], fs_rules = [], fs_balancers = [], fs_calls = [],
      fs_fail = [], fs_delays = [], fs_observations = [], fs_no_routing = False,
      fs_no_observatory = False, fs_rand = (\<lambda>_. []), fs_typed = (\<lambda>_. None), fs_cond = (\<lambda>_. None)\<rparr>"

definition fail_next :: "string \<Rightarrow> status \<Rightarrow> server \<Rightarrow> server" where
  "fail_next meth st s = s\<lparr>fs_fail := AList.update meth st (fs_fail s)\<rparr>"

definition delay :: "string \<Rightarrow> int \<Rightarrow> server \<Rightarrow> server" where
  "delay meth d s = s\<lparr>fs_delays := AList.update meth d (fs_delays s)\<rparr>"

text \<open>
  \<^verbatim>\<open>enter\<close>: record the call, serve its delay (a delay beyond the caller's deadline of \<open>timeout\<close>
  milliseconds fails it) and its injected failure, which applies once.
\<close>

definition enter :: "int \<Rightarrow> string \<Rightarrow> string \<Rightarrow> server \<Rightarrow> status option \<times> server" where
  "enter timeout meth call s =
     (let s1 = s\<lparr>fs_calls := fs_calls s @ [call]\<rparr>;
          d = (case map_of (fs_delays s) meth of Some d \<Rightarrow> d | None \<Rightarrow> 0)
      in if d > timeout \<and> d > 0
         then (Some \<lparr>st_code = code_DeadlineExceeded, st_msg = ''context deadline exceeded''\<rparr>, s1)
         else case map_of (fs_fail s1) meth of
             Some st \<Rightarrow> (Some st, s1\<lparr>fs_fail := AList.delete meth (fs_fail s1)\<rparr>)
           | None \<Rightarrow> (None, s1))"

definition xray_error :: "string \<Rightarrow> status" where
  "xray_error msg = \<lparr>st_code = code_Unknown, st_msg = msg\<rparr>"

definition unknown_service :: "string \<Rightarrow> status" where
  "unknown_service svc = \<lparr>st_code = code_Unimplemented, st_msg = ''unknown service '' @ svc\<rparr>"

fun shuffle_by :: "nat list \<Rightarrow> 'a list \<Rightarrow> 'a list" where
  "shuffle_by ns [] = []"
| "shuffle_by [] xs = xs"
| "shuffle_by (n # ns) (x # xs) =
     (let ys = x # xs; i = n mod length ys
      in ys ! i # shuffle_by ns (take i ys @ drop (Suc i) ys))"

lemma mset_shuffle_by [simp]: "mset (shuffle_by ns xs) = mset xs"
proof (induction ns xs rule: shuffle_by.induct)
  case (3 n ns x xs)
  let ?ys = "x # xs" let ?i = "n mod length ?ys"
  have "?i < length ?ys" by (rule mod_less_divisor) simp
  then have "mset ?ys = add_mset (?ys ! ?i) (mset (take ?i ?ys @ drop (Suc ?i) ?ys))"
    by (subst id_take_nth_drop [of ?i ?ys]) auto
  with 3 show ?case by (simp add: Let_def)
qed auto

lemma set_shuffle_by [simp]: "set (shuffle_by ns xs) = set xs"
  by (metis mset_shuffle_by set_mset_mset)

lemma distinct_shuffle_by [simp]: "distinct (shuffle_by ns xs) = distinct xs"
  by (metis mset_shuffle_by mset_eq_imp_distinct_iff)

section \<open>The handler and routing services\<close>

text \<open>A gRPC answer: a status or a value, and the server after the call.\<close>

type_synonym 'a answer = "(status + 'a) \<times> server"

definition stored :: "(string, string) gomap \<Rightarrow> string \<Rightarrow> handler option" where
  "stored m t = map_option (\<lambda>b. \<lparr>h_tag = t, h_body = b\<rparr>) (map_of m t)"

definition shuffled :: "server \<Rightarrow> (string, string) gomap \<Rightarrow> handler list" where
  "shuffled s m =
     shuffle_by (fs_rand s (length (fs_calls s)))
       (map (\<lambda>t. \<lparr>h_tag = t, h_body = the (map_of m t)\<rparr>) (remdups (keys_of m)))"

definition srv_list_outbounds :: "int \<Rightarrow> server \<Rightarrow> handler list answer" where
  "srv_list_outbounds timeout s =
     (case enter timeout ''ListOutbounds'' ''ListOutbounds'' s of
        (Some st, s1) \<Rightarrow> (Inl st, s1)
      | (None, s1) \<Rightarrow> (Inr (shuffled s1 (fs_outbounds s1)), s1))"

definition srv_add_outbound :: "int \<Rightarrow> handler \<Rightarrow> server \<Rightarrow> unit answer" where
  "srv_add_outbound timeout h s =
     (case enter timeout ''AddOutbound'' (''AddOutbound:'' @ h_tag h) s of
        (Some st, s1) \<Rightarrow> (Inl st, s1)
      | (None, s1) \<Rightarrow>
          (case fs_typed s1 (h_body h) of
             Some msg \<Rightarrow> (Inl (xray_error msg), s1)
           | None \<Rightarrow>
               if map_of (fs_outbounds s1) (h_tag h) \<noteq> None
               then (Inl (xray_error (''app/proxyman/outbound: existing tag found: '' @ h_tag h)), s1)
               else (Inr (), s1\<lparr>fs_outbounds := AList.update (h_tag h) (h_body h) (fs_outbounds s1)\<rparr>)))"

definition srv_remove_outbound :: "int \<Rightarrow> string \<Rightarrow> server \<Rightarrow> unit answer" where
  "srv_remove_outbound timeout t s =
     (case enter timeout ''RemoveOutbound'' (''RemoveOutbound:'' @ t) s of
        (Some st, s1) \<Rightarrow> (Inl st, s1)
      | (None, s1) \<Rightarrow>
          if t = '''' then (Inl (xray_error ''common: not enough information for making a decision''), s1)
          else (Inr (), s1\<lparr>fs_outbounds := AList.delete t (fs_outbounds s1)\<rparr>))"

definition srv_list_inbounds :: "int \<Rightarrow> server \<Rightarrow> handler list answer" where
  "srv_list_inbounds timeout s =
     (case enter timeout ''ListInbounds'' ''ListInbounds'' s of
        (Some st, s1) \<Rightarrow> (Inl st, s1)
      | (None, s1) \<Rightarrow> (Inr (shuffled s1 (fs_inbounds s1)), s1))"

definition srv_add_inbound :: "int \<Rightarrow> handler \<Rightarrow> server \<Rightarrow> unit answer" where
  "srv_add_inbound timeout h s =
     (case enter timeout ''AddInbound'' (''AddInbound:'' @ h_tag h) s of
        (Some st, s1) \<Rightarrow> (Inl st, s1)
      | (None, s1) \<Rightarrow>
          (case fs_typed s1 (h_body h) of
             Some msg \<Rightarrow> (Inl (xray_error msg), s1)
           | None \<Rightarrow>
               if map_of (fs_inbounds s1) (h_tag h) \<noteq> None
               then (Inl (xray_error (''app/proxyman/inbound: existing tag found: '' @ h_tag h)), s1)
               else (Inr (), s1\<lparr>fs_inbounds := AList.update (h_tag h) (h_body h) (fs_inbounds s1)\<rparr>)))"

definition srv_remove_inbound :: "int \<Rightarrow> string \<Rightarrow> server \<Rightarrow> unit answer" where
  "srv_remove_inbound timeout t s =
     (case enter timeout ''RemoveInbound'' (''RemoveInbound:'' @ t) s of
        (Some st, s1) \<Rightarrow> (Inl st, s1)
      | (None, s1) \<Rightarrow>
          if map_of (fs_inbounds s1) t = None \<or> t = ''''
          then (Inl (xray_error ''common: not enough information for making a decision''), s1)
          else (Inr (), s1\<lparr>fs_inbounds := AList.delete t (fs_inbounds s1)\<rparr>))"

definition routing_service :: string where
  "routing_service = ''xray.app.router.command.RoutingService''"

definition observatory_service :: string where
  "observatory_service = ''xray.core.app.observatory.command.ObservatoryService''"

definition srv_list_rule :: "int \<Rightarrow> server \<Rightarrow> rule list answer" where
  "srv_list_rule timeout s =
     (if fs_no_routing s then (Inl (unknown_service routing_service), s)
      else case enter timeout ''ListRule'' ''ListRule'' s of
        (Some st, s1) \<Rightarrow> (Inl st, s1)
      | (None, s1) \<Rightarrow> (Inr (fs_rules s1), s1))"

text \<open>The rules of one \<^verbatim>\<open>AddRule\<close>: every one must build, a non-empty tag must be new; all or none.\<close>

fun append_rules :: "(rrule \<Rightarrow> string option) \<Rightarrow> rule list \<Rightarrow> string set \<Rightarrow> rrule list \<Rightarrow> status + rule list" where
  "append_rules cond rules exist [] = Inr rules"
| "append_rules cond rules exist (q # qs) =
     (case cond q of
        Some msg \<Rightarrow> Inl (xray_error msg)
      | None \<Rightarrow>
          if rr_tag q \<noteq> '''' \<and> rr_tag q \<in> exist
          then Inl (xray_error (''app/router: duplicate ruleTag '' @ rr_tag q))
          else append_rules cond (rules @ [rule_of q]) (insert (rr_tag q) exist) qs)"

definition rule_call :: "rrule \<Rightarrow> string" where
  "rule_call q = ''AddRule:'' @ rr_tag q @ ''->'' @ rr_target q"

definition srv_add_rule :: "int \<Rightarrow> rrule list \<Rightarrow> bool \<Rightarrow> server \<Rightarrow> unit answer" where
  "srv_add_rule timeout qs should_append s =
     (if fs_no_routing s then (Inl (unknown_service routing_service), s)
      else
        let calls = (if qs = [] then [''AddRule''] else map rule_call qs);
            s0 = s\<lparr>fs_calls := fs_calls s @ butlast calls\<rparr>
        in case enter timeout ''AddRule'' (last calls) s0 of
             (Some st, s1) \<Rightarrow> (Inl st, s1)
           | (None, s1) \<Rightarrow>
               (let base = (if should_append then fs_rules s1 else [])
                in case append_rules (fs_cond s1) base (rl_ruletag ` set base) qs of
                     Inl st \<Rightarrow> (Inl st, s1)
                   | Inr rules \<Rightarrow> (Inr (), s1\<lparr>fs_rules := rules\<rparr>)))"

definition srv_remove_rule :: "int \<Rightarrow> string \<Rightarrow> server \<Rightarrow> unit answer" where
  "srv_remove_rule timeout t s =
     (if fs_no_routing s then (Inl (unknown_service routing_service), s)
      else case enter timeout ''RemoveRule'' (''RemoveRule:'' @ t) s of
        (Some st, s1) \<Rightarrow> (Inl st, s1)
      | (None, s1) \<Rightarrow>
          if t = '''' then (Inl (xray_error ''app/router: empty tag name!''), s1)
          else (Inr (), s1\<lparr>fs_rules := filter (\<lambda>r. rl_ruletag r \<noteq> t) (fs_rules s1)\<rparr>))"

section \<open>Balancers and observatory\<close>

definition least_ping_max :: int where "least_ping_max = 99999999"

definition candidates :: "server \<Rightarrow> string list \<Rightarrow> string list" where
  "candidates s selectors =
     sort_by cmp_ord
       (filter (\<lambda>t. \<exists>p \<in> set selectors. prefix p t) (remdups (keys_of (fs_outbounds s))))"

text \<open>\<^verbatim>\<open>leastPing\<close>: strict comparison in observatory order, so the first of equal delays wins.\<close>

fun least_ping :: "string \<times> int \<Rightarrow> ostatus list \<Rightarrow> string \<times> int" where
  "least_ping best [] = best"
| "least_ping best (st # sts) =
     least_ping (if os_delay st < snd best then (os_tag st, os_delay st) else best) sts"

definition load_cmp :: "ostatus \<Rightarrow> ostatus \<Rightarrow> int" where
  "load_cmp a b = cmp_or [cmp_ord (os_delay a) (os_delay b), cmp_ord (os_tag a) (os_tag b)]"

text \<open>\<^verbatim>\<open>slices.MinFunc\<close>: the first minimal element.\<close>

fun min_by :: "('a \<Rightarrow> 'a \<Rightarrow> int) \<Rightarrow> 'a \<Rightarrow> 'a list \<Rightarrow> 'a" where
  "min_by c m [] = m"
| "min_by c m (x # xs) = min_by c (if c x m < 0 then x else m) xs"

definition principle_target :: "server \<Rightarrow> fake_balancer \<Rightarrow> string list" where
  "principle_target s b =
     (let cands = candidates s (fb_selectors b);
          alive = filter (\<lambda>st. os_alive st \<and> os_tag st \<in> set cands) (fs_observations s)
      in case fb_strategy b of
           LeastPing \<Rightarrow> [fst (least_ping ('''', least_ping_max) alive)]
         | LeastLoad \<Rightarrow>
             (case alive of [] \<Rightarrow> [] | n # ns \<Rightarrow> [os_tag (min_by load_cmp n ns)])
         | RandomPick \<Rightarrow> cands
         | RoundRobin \<Rightarrow> cands)"

definition srv_get_balancer_info :: "int \<Rightarrow> string \<Rightarrow> server \<Rightarrow> (string \<times> string list) answer" where
  "srv_get_balancer_info timeout t s =
     (if fs_no_routing s then (Inl (unknown_service routing_service), s)
      else case enter timeout ''GetBalancerInfo'' (''GetBalancerInfo:'' @ t) s of
        (Some st, s1) \<Rightarrow> (Inl st, s1)
      | (None, s1) \<Rightarrow>
          (case map_of (fs_balancers s1) t of
             None \<Rightarrow> (Inl (xray_error ''app/router: cannot find tag''), s1)
           | Some b \<Rightarrow> (Inr (fb_override b, principle_target s1 b), s1)))"

definition srv_get_outbound_status :: "int \<Rightarrow> server \<Rightarrow> ostatus list answer" where
  "srv_get_outbound_status timeout s =
     (if fs_no_observatory s then (Inl (unknown_service observatory_service), s)
      else case enter timeout ''GetOutboundStatus'' ''GetOutboundStatus'' s of
        (Some st, s1) \<Rightarrow> (Inl st, s1)
      | (None, s1) \<Rightarrow>
          (Inr (shuffle_by (fs_rand s1 (length (fs_calls s1))) (fs_observations s1)), s1))"

section \<open>The client over the server\<close>

text \<open>\<^verbatim>\<open>call\<close> and \<^verbatim>\<open>readCall\<close>: the answer with its status mapped to an error.\<close>

definition api_call :: "string \<Rightarrow> int \<Rightarrow> unit answer \<Rightarrow> err option \<times> server" where
  "api_call address timeout a =
     (case a of (Inl st, s) \<Rightarrow> (Some (map_error st address timeout), s) | (Inr u, s) \<Rightarrow> (None, s))"

definition api_query :: "(status \<Rightarrow> err) \<Rightarrow> ('a \<Rightarrow> 'b) \<Rightarrow> 'a answer \<Rightarrow> (err + 'b) \<times> server" where
  "api_query me f a = (case a of (Inl st, s) \<Rightarrow> (Inl (me st), s) | (Inr x, s) \<Rightarrow> (Inr (f x), s))"

definition fake_client :: "string \<Rightarrow> int \<Rightarrow> server client" where
  "fake_client address timeout =
     \<lparr>list_outbounds =
        (\<lambda>s. api_query (\<lambda>st. map_error st address timeout) id (srv_list_outbounds timeout s)),
      add_outbound = (\<lambda>h s. api_call address timeout (srv_add_outbound timeout h s)),
      remove_outbound = (\<lambda>t s. api_call address timeout (srv_remove_outbound timeout t s)),
      list_inbounds =
        (\<lambda>s. api_query (\<lambda>st. map_error st address timeout) id (srv_list_inbounds timeout s)),
      add_inbound = (\<lambda>h s. api_call address timeout (srv_add_inbound timeout h s)),
      remove_inbound = (\<lambda>t s. api_call address timeout (srv_remove_inbound timeout t s)),
      list_rules = (\<lambda>s. api_query (\<lambda>st. map_error st address timeout) id (srv_list_rule timeout s)),
      add_rule = (\<lambda>q s. api_call address timeout (srv_add_rule timeout [q] True s)),
      remove_rule = (\<lambda>t s. api_call address timeout (srv_remove_rule timeout t s)),
      get_balancer_info =
        (\<lambda>t s. api_query (\<lambda>st. read_error (Some (BalancerNotFound t)) st address timeout)
           (\<lambda>(ov, pt). decode_balancer ov (Some pt)) (srv_get_balancer_info timeout t s)),
      get_outbound_status =
        (\<lambda>s. api_query (\<lambda>st. read_error None st address timeout) decode_observations
           (srv_get_outbound_status timeout s))\<rparr>"

definition fake_obs :: "server \<Rightarrow> string \<Rightarrow> handler option" where
  "fake_obs s = stored (fs_outbounds s)"

definition fake_ibs :: "server \<Rightarrow> string \<Rightarrow> handler option" where
  "fake_ibs s = stored (fs_inbounds s)"

lemma enter_frame:
  assumes "enter timeout meth call s = (r, s1)"
  shows "fs_outbounds s1 = fs_outbounds s" "fs_inbounds s1 = fs_inbounds s"
    "fs_rules s1 = fs_rules s"
  using assms by (auto simp: enter_def Let_def split: if_splits option.splits)

lemma shuffled_tags: "distinct (map h_tag (shuffled s m))"
proof -
  let ?l = "map (\<lambda>t. \<lparr>h_tag = t, h_body = the (map_of m t)\<rparr>) (remdups (keys_of m))"
  have "mset (map h_tag (shuffled s m)) = mset (map h_tag ?l)"
    by (simp only: shuffled_def mset_map mset_shuffle_by)
  also have "map h_tag ?l = remdups (keys_of m)"
    by (simp add: comp_def)
  finally show ?thesis by (metis distinct_remdups mset_eq_imp_distinct_iff)
qed

lemma shuffled_ok:
  "distinct (map h_tag (shuffled s m)) \<and>
   (\<forall>t h. stored m t = Some h \<longleftrightarrow> h \<in> set (shuffled s m) \<and> h_tag h = t)"
  using shuffled_tags
  by (auto simp: stored_def shuffled_def set_keys_of dom_def image_iff)

lemma stored_update [simp]:
  "stored (AList.update t b m) = (stored m)(t \<mapsto> \<lparr>h_tag = t, h_body = b\<rparr>)"
  by (auto simp: stored_def fun_eq_iff)

lemma stored_delete [simp]: "stored (AList.delete t m) = (stored m)(t := None)"
  by (auto simp: stored_def fun_eq_iff)

lemma stored_ex [simp]: "(\<exists>h. stored m t = Some h) \<longleftrightarrow> (\<exists>b. map_of m t = Some b)"
  by (auto simp: stored_def)

lemma stored_None [simp]: "stored m t = None \<longleftrightarrow> map_of m t = None"
  by (simp add: stored_def)

lemma handler_eta [simp]: "\<lparr>h_tag = h_tag h, h_body = h_body h\<rparr> = h"
  by simp

text \<open>What each call does to the stored resources, by its answer.\<close>

named_theorems srv_effects \<open>effects of the server's calls\<close>

lemma srv_list_outbounds_eff [srv_effects]:
  assumes "srv_list_outbounds timeout s = (r, s')"
  shows "fs_outbounds s' = fs_outbounds s \<and> fs_inbounds s' = fs_inbounds s \<and> fs_rules s' = fs_rules s \<and>
    (\<forall>l. r = Inr l \<longrightarrow> l = shuffled s' (fs_outbounds s))"
  using assms by (auto simp: srv_list_outbounds_def dest: enter_frame split: prod.splits option.splits)

lemma srv_add_outbound_eff [srv_effects]:
  assumes "srv_add_outbound timeout h s = (r, s')"
  shows "fs_inbounds s' = fs_inbounds s \<and> fs_rules s' = fs_rules s \<and>
    (if isl r then fs_outbounds s' = fs_outbounds s
     else map_of (fs_outbounds s) (h_tag h) = None \<and>
       fs_outbounds s' = AList.update (h_tag h) (h_body h) (fs_outbounds s))"
  using assms
  by (auto simp: srv_add_outbound_def dest: enter_frame split: prod.splits option.splits if_splits)

lemma srv_remove_outbound_eff [srv_effects]:
  assumes "srv_remove_outbound timeout t s = (r, s')"
  shows "fs_inbounds s' = fs_inbounds s \<and> fs_rules s' = fs_rules s \<and>
    (if isl r then fs_outbounds s' = fs_outbounds s
     else fs_outbounds s' = AList.delete t (fs_outbounds s))"
  using assms
  by (auto simp: srv_remove_outbound_def dest: enter_frame split: prod.splits option.splits if_splits)

lemma srv_list_inbounds_eff [srv_effects]:
  assumes "srv_list_inbounds timeout s = (r, s')"
  shows "fs_outbounds s' = fs_outbounds s \<and> fs_inbounds s' = fs_inbounds s \<and> fs_rules s' = fs_rules s \<and>
    (\<forall>l. r = Inr l \<longrightarrow> l = shuffled s' (fs_inbounds s))"
  using assms by (auto simp: srv_list_inbounds_def dest: enter_frame split: prod.splits option.splits)

lemma srv_add_inbound_eff [srv_effects]:
  assumes "srv_add_inbound timeout h s = (r, s')"
  shows "fs_outbounds s' = fs_outbounds s \<and> fs_rules s' = fs_rules s \<and>
    (if isl r then fs_inbounds s' = fs_inbounds s
     else map_of (fs_inbounds s) (h_tag h) = None \<and>
       fs_inbounds s' = AList.update (h_tag h) (h_body h) (fs_inbounds s))"
  using assms
  by (auto simp: srv_add_inbound_def dest: enter_frame split: prod.splits option.splits if_splits)

lemma srv_remove_inbound_eff [srv_effects]:
  assumes "srv_remove_inbound timeout t s = (r, s')"
  shows "fs_outbounds s' = fs_outbounds s \<and> fs_rules s' = fs_rules s \<and>
    (if isl r then fs_inbounds s' = fs_inbounds s
     else map_of (fs_inbounds s) t \<noteq> None \<and> fs_inbounds s' = AList.delete t (fs_inbounds s))"
  using assms
  by (auto simp: srv_remove_inbound_def dest: enter_frame split: prod.splits option.splits if_splits)

lemma srv_list_rule_eff [srv_effects]:
  assumes "srv_list_rule timeout s = (r, s')"
  shows "fs_outbounds s' = fs_outbounds s \<and> fs_inbounds s' = fs_inbounds s \<and> fs_rules s' = fs_rules s \<and>
    (\<forall>l. r = Inr l \<longrightarrow> l = fs_rules s)"
  using assms
  by (auto simp: srv_list_rule_def dest: enter_frame split: prod.splits option.splits if_splits)

lemma srv_add_rule_eff [srv_effects]:
  assumes "srv_add_rule timeout [q] True s = (r, s')"
  shows "fs_outbounds s' = fs_outbounds s \<and> fs_inbounds s' = fs_inbounds s \<and>
    (if isl r then fs_rules s' = fs_rules s
     else (rr_tag q = '''' \<or> rr_tag q \<notin> rl_ruletag ` set (fs_rules s)) \<and>
       fs_rules s' = fs_rules s @ [rule_of q])"
  using assms
  by (auto simp: srv_add_rule_def Let_def dest: enter_frame
      split: prod.splits option.splits if_splits sum.splits)

lemma srv_remove_rule_eff [srv_effects]:
  assumes "srv_remove_rule timeout t s = (r, s')"
  shows "fs_outbounds s' = fs_outbounds s \<and> fs_inbounds s' = fs_inbounds s \<and>
    (if isl r then fs_rules s' = fs_rules s
     else fs_rules s' = filter (\<lambda>x. rl_ruletag x \<noteq> t) (fs_rules s))"
  using assms
  by (auto simp: srv_remove_rule_def dest: enter_frame split: prod.splits option.splits if_splits)

lemma srv_get_balancer_info_eff [srv_effects]:
  assumes "srv_get_balancer_info timeout t s = (r, s')"
  shows "fs_outbounds s' = fs_outbounds s \<and> fs_inbounds s' = fs_inbounds s \<and> fs_rules s' = fs_rules s"
  using assms
  by (auto simp: srv_get_balancer_info_def dest: enter_frame split: prod.splits option.splits if_splits)

lemma srv_get_outbound_status_eff [srv_effects]:
  assumes "srv_get_outbound_status timeout s = (r, s')"
  shows "fs_outbounds s' = fs_outbounds s \<and> fs_inbounds s' = fs_inbounds s \<and> fs_rules s' = fs_rules s"
  using assms
  by (auto simp: srv_get_outbound_status_def dest: enter_frame split: prod.splits option.splits if_splits)

lemma api_call_iff:
  "api_call address timeout a = (r, s) \<longleftrightarrow>
   (\<exists>st. a = (Inl st, s) \<and> r = Some (map_error st address timeout)) \<or> a = (Inr (), s) \<and> r = None"
  by (auto simp: api_call_def split: prod.splits sum.splits)

lemma api_query_iff:
  "api_query me f a = (r, s) \<longleftrightarrow>
   (\<exists>st. a = (Inl st, s) \<and> r = Inl (me st)) \<or> (\<exists>y. a = (Inr y, s) \<and> r = Inr (f y))"
  by (auto simp: api_query_def split: prod.splits sum.splits)

lemma fake_list_outbounds_ok:
  "srv_list_outbounds timeout s = (Inr l, s') \<Longrightarrow>
   distinct (map h_tag l) \<and> (\<forall>t h. fake_obs s t = Some h \<longleftrightarrow> h \<in> set l \<and> h_tag h = t)"
  by (drule srv_list_outbounds_eff) (simp add: fake_obs_def shuffled_ok)

lemma fake_list_inbounds_ok:
  "srv_list_inbounds timeout s = (Inr l, s') \<Longrightarrow>
   distinct (map h_tag l) \<and> (\<forall>t h. fake_ibs s t = Some h \<longleftrightarrow> h \<in> set l \<and> h_tag h = t)"
  by (drule srv_list_inbounds_eff) (simp add: fake_ibs_def shuffled_ok)

interpretation fake: xray_api "fake_client address timeout" fake_obs fake_ibs fs_rules
  apply unfold_locales
                      apply (simp_all only: fake_client_def client.simps api_call_iff api_query_iff)
                      apply (elim disjE exE conjE; simp?;
      (elim fake_list_outbounds_ok fake_list_inbounds_ok |
       (drule srv_effects; auto simp: fake_obs_def fake_ibs_def)))+
  done

end
