(* ===== verification/Scd_Apply.thy ===== *)
theory Scd_Apply
  imports Scd_Topology Scd_Xray_Fake
begin

text \<open>
  The apply algorithms of \<^verbatim>\<open>internal/scd/apply\<close>: the replacement of the outbounds, inbounds and
  routing rules in a source's namespace, the cap on the outbounds of a source, the changes of one
  tunnel, and the removal of orphans, with the reports they return.

  Every algorithm takes the client as an argument and threads the world through its calls; \<open>now\<close>
  reads the clock of the world. \<open>to_proto\<close> and \<open>in_proto\<close> build the handlers of an outbound and
  of a tunnel's inbound (xray-core's \<^verbatim>\<open>infra/conf\<close>). Map-like sets of the code are sets.

  The lemmas are proved in the context of \<open>xray_api\<close>, for every client with its laws: what a
  success leaves in Xray, and what no outcome may touch.
\<close>

section \<open>Reports\<close>

datatype item_status = SRemoved | SAdded | SReplaced | SFailed

record item =
  it_id :: string
  it_status :: item_status
  it_message :: string

record report =
  ar_kind :: kind
  ar_source :: string
  ar_subscription :: string
  ar_target :: string
  ar_applied_at :: time
  ar_duration :: int
  ar_added :: nat
  ar_replaced :: nat
  ar_removed :: nat
  ar_failed :: nat
  ar_deleted :: "string list"
  ar_applied :: "string list"
  ar_items :: "item list"
  ar_skipped :: "skip list"

record meta =
  me_source :: string
  me_subscription :: string
  me_target :: string
  me_max_outbounds :: int

definition new_report :: "kind \<Rightarrow> meta \<Rightarrow> time \<Rightarrow> skip list \<Rightarrow> report" where
  "new_report k m started skipped =
     \<lparr>ar_kind = k, ar_source = me_source m, ar_subscription = me_subscription m, ar_target = me_target m,
      ar_applied_at = started, ar_duration = 0, ar_added = 0, ar_replaced = 0, ar_removed = 0,
      ar_failed = 0, ar_deleted = [], ar_applied = [], ar_items = [], ar_skipped = skipped\<rparr>"

definition add_item :: "string \<Rightarrow> item_status \<Rightarrow> string \<Rightarrow> report \<Rightarrow> report" where
  "add_item i st msg r = r\<lparr>ar_items := ar_items r @ [\<lparr>it_id = i, it_status = st, it_message = msg\<rparr>]\<rparr>"

definition failed_report :: "kind \<Rightarrow> meta \<Rightarrow> time \<Rightarrow> skip list \<Rightarrow> err \<Rightarrow> report" where
  "failed_report k m now skipped e =
     add_item (kind_text k) SFailed (err_text e) ((new_report k m now skipped)\<lparr>ar_failed := 1\<rparr>)"

text \<open>\<^verbatim>\<open>Duration.Milliseconds\<close> truncates towards zero.\<close>

definition millis :: "time \<Rightarrow> int" where
  "millis d = sgn d * (\<bar>d\<bar> div 1000000)"

definition note_removed :: "string \<Rightarrow> report \<Rightarrow> report" where
  "note_removed tag r =
     add_item tag SRemoved '''' (r\<lparr>ar_removed := ar_removed r + 1, ar_deleted := ar_deleted r @ [tag]\<rparr>)"

text \<open>\<^verbatim>\<open>countAddition\<close> and the item of an added resource.\<close>

definition note_added :: "bool \<Rightarrow> string \<Rightarrow> report \<Rightarrow> report" where
  "note_added existed tag r =
     (let r1 = r\<lparr>ar_applied := ar_applied r @ [tag]\<rparr>
      in if existed then add_item tag SReplaced '''' (r1\<lparr>ar_replaced := ar_replaced r1 + 1\<rparr>)
         else add_item tag SAdded '''' (r1\<lparr>ar_added := ar_added r1 + 1\<rparr>))"

definition note_failed :: "string \<Rightarrow> string \<Rightarrow> report \<Rightarrow> report" where
  "note_failed i msg r = add_item i SFailed msg (r\<lparr>ar_failed := 1\<rparr>)"

definition conflict_text :: "string \<Rightarrow> string \<Rightarrow> string \<Rightarrow> string \<Rightarrow> string" where
  "conflict_text what tag fixed address =
     ''Managed '' @ what @ '' \"'' @ tag @ ''\" conflicts with '' @ fixed @ '' on target \"'' @ address @ ''\".''"

text \<open>The shared beginning and end of the three algorithms.\<close>

type_synonym owner = "kind \<Rightarrow> string \<Rightarrow> bool"

definition replaceable :: "string list \<Rightarrow> owner \<Rightarrow> kind \<Rightarrow> string \<Rightarrow> bool" where
  "replaceable fixed own k tag \<longleftrightarrow> tag \<notin> set fixed \<and> own k tag"

section \<open>Outbounds\<close>

text \<open>
  The variables of \<^verbatim>\<open>Outbounds\<close> while it applies: the report, the backups in removal order, the
  removed tags, the added ones, and the tag being added.
\<close>

record progress =
  pg_report :: report
  pg_backups :: "handler list"
  pg_removed :: "string set"
  pg_added :: "string list"
  pg_current :: string

definition start_progress :: "report \<Rightarrow> progress" where
  "start_progress r =
     \<lparr>pg_report = r, pg_backups = [], pg_removed = {}, pg_added = [], pg_current = ''''\<rparr>"

lemma start_progress_sel [simp]:
  "pg_report (start_progress r) = r" "pg_backups (start_progress r) = []" "pg_removed (start_progress r) = {}"
  "pg_added (start_progress r) = []" "pg_current (start_progress r) = ''''"
  by (simp_all add: start_progress_def)

fun remove_owned ::
    "'w client \<Rightarrow> string list \<Rightarrow> owner \<Rightarrow> handler list \<Rightarrow> progress \<Rightarrow> 'w \<Rightarrow> err option \<times> progress \<times> 'w" where
  "remove_owned c fixed own [] p w = (None, p, w)"
| "remove_owned c fixed own (h # hs) p w =
     (let tag = h_tag h in
      if tag \<in> pg_removed p \<or> \<not> replaceable fixed own KOutbound tag
      then remove_owned c fixed own hs p w
      else case remove_outbound c tag w of
          (Some e, w1) \<Rightarrow> (Some e, p, w1)
        | (None, w1) \<Rightarrow>
            remove_owned c fixed own hs
              (p\<lparr>pg_backups := pg_backups p @ [h], pg_removed := insert tag (pg_removed p),
                 pg_report := note_removed tag (pg_report p)\<rparr>) w1)"

fun add_entries ::
    "'w client \<Rightarrow> (spec \<Rightarrow> err + handler) \<Rightarrow> spec list \<Rightarrow> progress \<Rightarrow> 'w \<Rightarrow> err option \<times> progress \<times> 'w" where
  "add_entries c to_proto [] p w = (None, p, w)"
| "add_entries c to_proto (e # es) p w =
     (let tag = get_tag e; p1 = p\<lparr>pg_current := tag\<rparr> in
      case to_proto e of
        Inl x \<Rightarrow> (Some x, p1, w)
      | Inr h \<Rightarrow>
          (case add_outbound c h w of
             (Some x, w1) \<Rightarrow> (Some x, p1, w1)
           | (None, w1) \<Rightarrow>
               add_entries c to_proto es
                 (p1\<lparr>pg_added := pg_added p1 @ [tag],
                     pg_report := note_added (tag \<in> pg_removed p1) tag (pg_report p1)\<rparr>) w1))"

text \<open>\<^verbatim>\<open>CheckCap\<close>: the error that forbids an add, if any.\<close>

definition check_cap :: "'w client \<Rightarrow> string list \<Rightarrow> owner \<Rightarrow> int \<Rightarrow> 'w \<Rightarrow> err option \<times> 'w" where
  "check_cap c fixed own limit w =
     (case list_outbounds c w of
        (Inl e, w1) \<Rightarrow> (Some e, w1)
      | (Inr l, w1) \<Rightarrow>
          let n = count_if (\<lambda>h. replaceable fixed own KOutbound (h_tag h)) l
          in (if int n \<ge> limit then Some (CapReached n limit) else None, w1))"

text \<open>The rollback: the added outbounds in reverse, then the backups, errors ignored.\<close>

fun remove_all :: "'w client \<Rightarrow> string list \<Rightarrow> 'w \<Rightarrow> 'w" where
  "remove_all c [] w = w"
| "remove_all c (t # ts) w = remove_all c ts (snd (remove_outbound c t w))"

fun restore_backups ::
    "'w client \<Rightarrow> string list \<Rightarrow> owner \<Rightarrow> handler list \<Rightarrow> int \<Rightarrow> 'w \<Rightarrow> 'w" where
  "restore_backups c fixed own [] limit w = w"
| "restore_backups c fixed own (h # hs) limit w =
     (if limit > 0
      then case check_cap c fixed own limit w of
          (Some e, w1) \<Rightarrow> w1
        | (None, w1) \<Rightarrow> restore_backups c fixed own hs limit (snd (add_outbound c h w1))
      else restore_backups c fixed own hs limit (snd (add_outbound c h w)))"

definition failed_id :: "string \<Rightarrow> string list \<Rightarrow> spec list \<Rightarrow> string" where
  "failed_id current added entries =
     (if current \<noteq> '''' then current
      else if added \<noteq> [] then last added
      else case entries of e # es \<Rightarrow> if get_tag e \<noteq> '''' then get_tag e else ''unknown'' | [] \<Rightarrow> ''unknown'')"

definition outbounds ::
    "'w client \<Rightarrow> ('w \<Rightarrow> time) \<Rightarrow> (spec \<Rightarrow> err + handler) \<Rightarrow> string list \<Rightarrow> owner \<Rightarrow> spec list \<Rightarrow> meta \<Rightarrow>
     ('w, report) query" where
  "outbounds c now to_proto fixed own entries m w =
     (let started = now w; r0 = new_report KOutbound m started [] in
      case List.find (\<lambda>e. get_tag e \<in> set fixed) entries of
        Some e \<Rightarrow>
          (Inr ((note_failed (get_tag e)
             (conflict_text ''outbound tag'' (get_tag e) ''fixedOutbounds'' (me_target m)) r0)
             \<lparr>ar_duration := millis (now w - started)\<rparr>), w)
      | None \<Rightarrow>
          (case list_outbounds c w of
             (Inl e, w1) \<Rightarrow> (Inl e, w1)
           | (Inr existing, w1) \<Rightarrow>
               let (x, p, w2) = (case remove_owned c fixed own existing (start_progress r0) w1 of
                       (Some x, p1, w2) \<Rightarrow> (Some x, p1, w2)
                     | (None, p1, w2) \<Rightarrow> add_entries c to_proto entries p1 w2);
                   (r, w3) = (case x of
                       None \<Rightarrow> (pg_report p, w2)
                     | Some e \<Rightarrow>
                         (note_failed (failed_id (pg_current p) (pg_added p) entries) (err_text e) (pg_report p),
                          restore_backups c fixed own (pg_backups p) (me_max_outbounds m)
                            (remove_all c (rev (pg_added p)) w2)))
               in (Inr (r\<lparr>ar_duration := millis (now w3 - started), ar_applied_at := now w3\<rparr>), w3)))"

section \<open>Inbounds\<close>

fun remove_owned_in ::
    "'w client \<Rightarrow> string list \<Rightarrow> owner \<Rightarrow> handler list \<Rightarrow> report \<Rightarrow> 'w \<Rightarrow> err option \<times> report \<times> 'w" where
  "remove_owned_in c fixed own [] r w = (None, r, w)"
| "remove_owned_in c fixed own (h # hs) r w =
     (let tag = h_tag h in
      if \<not> replaceable fixed own KInbound tag then remove_owned_in c fixed own hs r w
      else case remove_inbound c tag w of
          (Some e, w1) \<Rightarrow> (Some e, r, w1)
        | (None, w1) \<Rightarrow> remove_owned_in c fixed own hs (note_removed tag r) w1)"

fun add_tunnels_in ::
    "'w client \<Rightarrow> (tunnel \<Rightarrow> err + handler) \<Rightarrow> string set \<Rightarrow> tunnel list \<Rightarrow> report \<Rightarrow> 'w \<Rightarrow>
     err option \<times> report \<times> 'w" where
  "add_tunnels_in c in_proto existing [] r w = (None, r, w)"
| "add_tunnels_in c in_proto existing (tn # tns) r w =
     (case in_proto tn of
        Inl e \<Rightarrow> (Some e, r, w)
      | Inr h \<Rightarrow>
          (case add_inbound c h w of
             (Some e, w1) \<Rightarrow> (Some e, r, w1)
           | (None, w1) \<Rightarrow>
               add_tunnels_in c in_proto existing tns
                 (note_added (tn_inbound tn \<in> existing) (tn_inbound tn) r) w1))"

definition inbounds ::
    "'w client \<Rightarrow> ('w \<Rightarrow> time) \<Rightarrow> (tunnel \<Rightarrow> err + handler) \<Rightarrow> string list \<Rightarrow> owner \<Rightarrow> tunnel list \<Rightarrow> meta \<Rightarrow>
     ('w, report) query" where
  "inbounds c now in_proto fixed own tns m w =
     (let started = now w; r0 = new_report KInbound m started [] in
      case List.find (\<lambda>tn. tn_inbound tn \<in> set fixed) tns of
        Some tn \<Rightarrow>
          (Inr ((note_failed (tn_inbound tn)
             (conflict_text ''inbound tag'' (tn_inbound tn) ''fixedInbounds'' (me_target m)) r0)
             \<lparr>ar_duration := millis (now w - started)\<rparr>), w)
      | None \<Rightarrow>
          (case list_inbounds c w of
             (Inl e, w1) \<Rightarrow> (Inl e, w1)
           | (Inr existing, w1) \<Rightarrow>
               let (x, r1, w2) = (case remove_owned_in c fixed own existing r0 w1 of
                       (Some x, r1, w2) \<Rightarrow> (Some x, r1, w2)
                     | (None, r1, w2) \<Rightarrow> add_tunnels_in c in_proto (h_tag ` set existing) tns r1 w2);
                   r = (case x of
                       None \<Rightarrow> r1
                     | Some e \<Rightarrow>
                         note_failed (case tns of tn # rest \<Rightarrow> tn_inbound tn | [] \<Rightarrow> ''inbound'') (err_text e) r1)
               in (Inr (r\<lparr>ar_duration := millis (now w2 - started), ar_applied_at := now w2\<rparr>), w2)))"

section \<open>Routing\<close>

text \<open>\<^verbatim>\<open>resources.Rule\<close>.\<close>

definition tunnel_rule :: "tunnel \<Rightarrow> string \<Rightarrow> rrule" where
  "tunnel_rule tn outbound =
     \<lparr>rr_target = outbound, rr_inbounds = [tn_inbound tn], rr_tag = tn_route tn\<rparr>"

fun remove_owned_rules ::
    "'w client \<Rightarrow> string list \<Rightarrow> owner \<Rightarrow> rule list \<Rightarrow> report \<Rightarrow> 'w \<Rightarrow> err option \<times> report \<times> 'w" where
  "remove_owned_rules c fixed own [] r w = (None, r, w)"
| "remove_owned_rules c fixed own (q # qs) r w =
     (let tag = rl_ruletag q in
      if \<not> replaceable fixed own KRouting tag then remove_owned_rules c fixed own qs r w
      else case remove_rule c tag w of
          (Some e, w1) \<Rightarrow> (Some e, r, w1)
        | (None, w1) \<Rightarrow> remove_owned_rules c fixed own qs (note_removed tag r) w1)"

fun add_tunnels_rules ::
    "'w client \<Rightarrow> string set \<Rightarrow> tunnel list \<Rightarrow> report \<Rightarrow> 'w \<Rightarrow> err option \<times> report \<times> 'w" where
  "add_tunnels_rules c existing [] r w = (None, r, w)"
| "add_tunnels_rules c existing (tn # tns) r w =
     (case add_rule c (tunnel_rule tn (tn_current tn)) w of
        (Some e, w1) \<Rightarrow> (Some e, r, w1)
      | (None, w1) \<Rightarrow>
          add_tunnels_rules c existing tns (note_added (tn_route tn \<in> existing) (tn_route tn) r) w1)"

definition routing ::
    "'w client \<Rightarrow> ('w \<Rightarrow> time) \<Rightarrow> string list \<Rightarrow> owner \<Rightarrow> tunnel list \<Rightarrow> meta \<Rightarrow> ('w, report) query" where
  "routing c now fixed own tns m w =
     (let started = now w; r0 = new_report KRouting m started [] in
      case List.find (\<lambda>tn. tn_route tn \<in> set fixed) tns of
        Some tn \<Rightarrow>
          (Inr ((note_failed (tn_route tn)
             (conflict_text ''routing rule'' (tn_route tn) ''fixedRouting'' (me_target m)) r0)
             \<lparr>ar_duration := millis (now w - started)\<rparr>), w)
      | None \<Rightarrow>
          (case list_rules c w of
             (Inl e, w1) \<Rightarrow> (Inl e, w1)
           | (Inr existing, w1) \<Rightarrow>
               let (x, r1, w2) = (case remove_owned_rules c fixed own existing r0 w1 of
                       (Some x, r1, w2) \<Rightarrow> (Some x, r1, w2)
                     | (None, r1, w2) \<Rightarrow> add_tunnels_rules c (rl_ruletag ` set existing) tns r1 w2);
                   r = (case x of
                       None \<Rightarrow> r1
                     | Some e \<Rightarrow>
                         note_failed (case tns of tn # rest \<Rightarrow> tn_route tn | [] \<Rightarrow> ''routing'') (err_text e) r1)
               in (Inr (r\<lparr>ar_duration := millis (now w2 - started), ar_applied_at := now w2\<rparr>), w2)))"

section \<open>Lemmas: outbounds\<close>

lemma report_notes [simp]:
  "ar_deleted (note_removed tag r) = ar_deleted r @ [tag]" "ar_removed (note_removed tag r) = ar_removed r + 1"
  "ar_failed (note_removed tag r) = ar_failed r" "ar_applied (note_removed tag r) = ar_applied r"
  "ar_added (note_removed tag r) = ar_added r" "ar_replaced (note_removed tag r) = ar_replaced r"
  "ar_deleted (note_added b tag r) = ar_deleted r" "ar_removed (note_added b tag r) = ar_removed r"
  "ar_failed (note_added b tag r) = ar_failed r" "ar_applied (note_added b tag r) = ar_applied r @ [tag]"
  "ar_added (note_added b tag r) + ar_replaced (note_added b tag r) = Suc (ar_added r + ar_replaced r)"
  "ar_failed (note_failed i msg r) = 1" "ar_deleted (note_failed i msg r) = ar_deleted r"
  "ar_applied (note_failed i msg r) = ar_applied r"
  by (simp_all add: note_removed_def note_added_def note_failed_def add_item_def Let_def)

lemma new_report_empty [simp]:
  "ar_deleted (new_report k m t sk) = []" "ar_removed (new_report k m t sk) = 0"
  "ar_failed (new_report k m t sk) = 0" "ar_applied (new_report k m t sk) = []"
  "ar_added (new_report k m t sk) = 0" "ar_replaced (new_report k m t sk) = 0"
  by (simp_all add: new_report_def)

context xray_api
begin

definition same_rest :: "'w \<Rightarrow> 'w \<Rightarrow> bool" where
  "same_rest w w' \<longleftrightarrow> ibs w' = ibs w \<and> rls w' = rls w"

lemma same_rest_refl [simp]: "same_rest w w"
  by (simp add: same_rest_def)

lemma same_rest_trans: "same_rest w1 w2 \<Longrightarrow> same_rest w2 w3 \<Longrightarrow> same_rest w1 w3"
  by (simp add: same_rest_def)

lemma remove_outbound_rest: "remove_outbound c t w = (x, w') \<Longrightarrow> same_rest w w'"
  using remove_outbound_frame by (simp add: same_rest_def)

lemma add_outbound_rest: "add_outbound c h w = (x, w') \<Longrightarrow> same_rest w w'"
  using add_outbound_frame by (simp add: same_rest_def)

text \<open>What the removals did: the backups \<open>bs\<close>, in removal order.\<close>

definition removed_backups ::
    "string list \<Rightarrow> owner \<Rightarrow> handler list \<Rightarrow> err option \<Rightarrow> progress \<Rightarrow> progress \<Rightarrow> 'w \<Rightarrow> 'w \<Rightarrow> handler list \<Rightarrow> bool" where
  "removed_backups fixed own hs x p p' w w' bs \<longleftrightarrow>
     pg_backups p' = pg_backups p @ bs \<and> set bs \<subseteq> set hs \<and>
     (\<forall>h \<in> set bs. replaceable fixed own KOutbound (h_tag h)) \<and> distinct (map h_tag bs) \<and>
     pg_removed p \<inter> h_tag ` set bs = {} \<and> pg_removed p' = pg_removed p \<union> h_tag ` set bs \<and>
     ar_deleted (pg_report p') = ar_deleted (pg_report p) @ map h_tag bs \<and>
     (x = None \<longrightarrow>
        h_tag ` set bs = {t \<in> h_tag ` set hs. replaceable fixed own KOutbound t} - pg_removed p \<and>
        obs w' = (\<lambda>t. if t \<in> h_tag ` set bs then None else obs w t))"

lemma remove_owned_spec:
  "remove_owned c fixed own hs p w = (x, p', w') \<Longrightarrow>
   same_rest w w' \<and> pg_added p' = pg_added p \<and> pg_current p' = pg_current p \<and>
   ar_failed (pg_report p') = ar_failed (pg_report p) \<and> ar_applied (pg_report p') = ar_applied (pg_report p) \<and>
   (\<forall>t. obs w' t = obs w t \<or> obs w' t = None \<and> t \<in> h_tag ` set hs \<and> replaceable fixed own KOutbound t) \<and>
   (\<exists>bs. removed_backups fixed own hs x p p' w w' bs)"
proof (induction hs arbitrary: p w)
  case Nil
  then show ?case by (auto simp: removed_backups_def intro!: exI [of _ "[]"])
next
  case (Cons h hs)
  show ?case
  proof (cases "h_tag h \<in> pg_removed p \<or> \<not> replaceable fixed own KOutbound (h_tag h)")
    case True
    then have "remove_owned c fixed own hs p w = (x, p', w')" using Cons.prems by (simp add: Let_def)
    note ih = Cons.IH [OF this]
    then obtain bs where "removed_backups fixed own hs x p p' w w' bs" by blast
    then have "removed_backups fixed own (h # hs) x p p' w w' bs"
      using True by (auto simp: removed_backups_def)
    with ih show ?thesis by auto
  next
    case False
    obtain y w1 where rm: "remove_outbound c (h_tag h) w = (y, w1)" by fastforce
    show ?thesis
    proof (cases y)
      case (Some e)
      then have "x = Some e" "p' = p" "w' = w1" using Cons.prems False rm by (auto simp: Let_def)
      then show ?thesis
        using remove_outbound_cases [OF rm] remove_outbound_rest [OF rm] False
        by (auto simp: removed_backups_def intro!: exI [of _ "[]"] split: if_splits)
    next
      case None
      let ?p1 = "p\<lparr>pg_backups := pg_backups p @ [h], pg_removed := insert (h_tag h) (pg_removed p),
                 pg_report := note_removed (h_tag h) (pg_report p)\<rparr>"
      have rec: "remove_owned c fixed own hs ?p1 w1 = (x, p', w')"
        using Cons.prems False rm None by (simp add: Let_def)
      note ih = Cons.IH [OF rec]
      have o1: "obs w1 = (\<lambda>t. if t = h_tag h then None else obs w t)"
        using remove_outbound_ok rm None by (simp add: fun_upd_def)
      from ih obtain bs where bs: "removed_backups fixed own hs x ?p1 p' w1 w' bs" by blast
      have "removed_backups fixed own (h # hs) x p p' w w' (h # bs)"
        using bs False unfolding removed_backups_def by simp (intro conjI impI; auto simp: o1 fun_eq_iff)
      moreover have "same_rest w w'" using ih remove_outbound_rest [OF rm] same_rest_trans by blast
      moreover have "\<forall>t. obs w' t = obs w t \<or>
          obs w' t = None \<and> t \<in> h_tag ` set (h # hs) \<and> replaceable fixed own KOutbound t"
        using ih False by (auto simp: o1 split: if_splits)
      ultimately show ?thesis using ih by auto
    qed
  qed
qed

text \<open>Adding never changes an outbound that is there already.\<close>

lemma add_entries_keeps:
  assumes "proto_ok to_proto h_tag"
  shows "add_entries c to_proto es p w = (x, p', w') \<Longrightarrow> obs w t = Some g \<Longrightarrow> obs w' t = Some g"
proof (induction es arbitrary: p w)
  case (Cons e es)
  show ?case
  proof (cases "to_proto e")
    case (Inl y)
    then show ?thesis using Cons.prems by (simp add: Let_def)
  next
    case (Inr h)
    obtain y w1 where ad: "add_outbound c h w = (y, w1)" by fastforce
    have "obs w1 t = Some g" using add_outbound_cases [OF ad] Cons.prems(2) by auto
    then show ?thesis using Cons.prems(1) Inr ad Cons.IH by (cases y) (auto simp: Let_def)
  qed
qed simp

lemma add_entries_spec:
  assumes "proto_ok to_proto h_tag"
  shows "add_entries c to_proto es p w = (x, p', w') \<Longrightarrow>
    same_rest w w' \<and> pg_backups p' = pg_backups p \<and> pg_removed p' = pg_removed p \<and>
    ar_failed (pg_report p') = ar_failed (pg_report p) \<and> ar_deleted (pg_report p') = ar_deleted (pg_report p) \<and>
    (\<forall>t. t \<notin> get_tag ` set es \<longrightarrow> obs w' t = obs w t) \<and>
    (\<exists>hs es1. map to_proto es1 = map Inr hs \<and> es = es1 @ drop (length es1) es \<and>
      pg_added p' = pg_added p @ map get_tag es1 \<and>
      ar_applied (pg_report p') = ar_applied (pg_report p) @ map get_tag es1 \<and>
      distinct (map h_tag hs) \<and> (\<forall>h \<in> set hs. obs w (h_tag h) = None) \<and>
      (\<forall>h \<in> set hs. obs w' (h_tag h) = Some h) \<and>
      (x = None \<longrightarrow> es1 = es))"
proof (induction es arbitrary: p w)
  case Nil
  then show ?case by (auto intro!: exI [of _ "[]"])
next
  case (Cons e es)
  let ?p1 = "p\<lparr>pg_current := get_tag e\<rparr>"
  show ?case
  proof (cases "to_proto e")
    case (Inl y)
    then show ?thesis using Cons.prems by (auto simp: Let_def intro!: exI [of _ "[]"])
  next
    case (Inr h)
    have tag: "h_tag h = get_tag e" using assms Inr by (simp add: proto_ok_def)
    obtain y w1 where ad: "add_outbound c h w = (y, w1)" by fastforce
    show ?thesis
    proof (cases y)
      case (Some z)
      then have "x = Some z" "p' = ?p1" "w' = w1" using Cons.prems Inr ad by (auto simp: Let_def)
      then show ?thesis
        using add_outbound_cases [OF ad] add_outbound_rest [OF ad] tag
        by (auto intro!: exI [of _ "[]"] split: if_splits)
    next
      case None
      let ?p2 = "?p1\<lparr>pg_added := pg_added ?p1 @ [get_tag e],
          pg_report := note_added (get_tag e \<in> pg_removed ?p1) (get_tag e) (pg_report ?p1)\<rparr>"
      have rec: "add_entries c to_proto es ?p2 w1 = (x, p', w')"
        using Cons.prems Inr ad None by (simp add: Let_def)
      note ih = Cons.IH [OF rec, simplified]
      have o1: "obs w (h_tag h) = None" "obs w1 = (obs w)(h_tag h \<mapsto> h)"
        using add_outbound_ok ad None by simp_all
      from ih obtain hs es1 where q: "map to_proto es1 = map Inr hs" "es = es1 @ drop (length es1) es"
        "pg_added p' = pg_added p @ get_tag e # map get_tag es1"
        "ar_applied (pg_report p') = ar_applied (pg_report p) @ get_tag e # map get_tag es1"
        "distinct (map h_tag hs)" "\<forall>h \<in> set hs. obs w1 (h_tag h) = None"
        "\<forall>h \<in> set hs. obs w' (h_tag h) = Some h" "x = None \<longrightarrow> es1 = es"
        by auto
      have tags: "map h_tag hs = map get_tag es1"
        using q(1) assms by (induction es1 arbitrary: hs) (auto simp: proto_ok_def map_eq_Cons_conv)
      have fresh: "h_tag h \<notin> h_tag ` set hs" using q(6) o1(2) by fastforce
      have "same_rest w w'" using ih add_outbound_rest [OF ad] same_rest_trans by blast
      moreover have "obs w' (h_tag h) = Some h"
        using add_entries_keeps [OF assms rec] o1(2) by simp
      ultimately show ?thesis
        using ih q Inr o1 fresh tag
        by (intro conjI exI [of _ "h # hs"] exI [of _ "e # es1"]) (auto simp: image_iff split: if_splits)
    qed
  qed
qed

lemma check_cap_same: "check_cap c fixed own limit w = (x, w') \<Longrightarrow> same_rest w w' \<and> obs w' = obs w"
  using list_outbounds_frame by (fastforce simp: check_cap_def same_rest_def Let_def split: prod.splits sum.splits)

lemma check_cap_ok:
  assumes "check_cap c fixed own limit w = (None, w')"
  shows "int (card {t \<in> dom (obs w). replaceable fixed own KOutbound t}) < limit"
proof -
  obtain l where l: "list_outbounds c w = (Inr l, w')"
    and n: "int (count_if (\<lambda>h. replaceable fixed own KOutbound (h_tag h)) l) < limit"
    using assms by (auto simp: check_cap_def Let_def split: prod.splits sum.splits if_splits)
  have d: "distinct (map h_tag l)" and tags: "h_tag ` set l = dom (obs w)"
    using list_outbounds_ok [OF l] outbound_tags [OF l] by auto
  have "count_if (\<lambda>h. replaceable fixed own KOutbound (h_tag h)) l =
    length (map h_tag (filter (\<lambda>h. replaceable fixed own KOutbound (h_tag h)) l))"
    by (simp add: count_if_def)
  also have "\<dots> = card (set (map h_tag (filter (\<lambda>h. replaceable fixed own KOutbound (h_tag h)) l)))"
    using distinct_map_filter [OF d] by (simp only: distinct_card)
  also have "set (map h_tag (filter (\<lambda>h. replaceable fixed own KOutbound (h_tag h)) l)) =
      {t \<in> dom (obs w). replaceable fixed own KOutbound t}"
    using tags by auto
  finally show ?thesis using n by simp
qed

lemma remove_all_spec:
  "same_rest w (remove_all c ts w) \<and>
   (\<forall>t. obs (remove_all c ts w) t = obs w t \<or> obs (remove_all c ts w) t = None \<and> t \<in> set ts)"
proof (induction ts arbitrary: w)
  case (Cons t ts)
  obtain y w1 where rm: "remove_outbound c t w = (y, w1)" by fastforce
  have o1: "obs w1 = obs w \<or> obs w1 = (obs w)(t := None)" using remove_outbound_cases [OF rm] by blast
  have rec: "remove_all c (t # ts) w = remove_all c ts w1" by (simp add: rm)
  have "same_rest w (remove_all c ts w1)"
    using Cons.IH [of w1] remove_outbound_rest [OF rm] same_rest_trans by blast
  then show ?case unfolding rec using Cons.IH [of w1] o1 by (auto split: if_splits)
qed simp

lemma restore_backups_spec:
  "same_rest w (restore_backups c fixed own hs limit w) \<and>
   (\<forall>t. obs (restore_backups c fixed own hs limit w) t = obs w t \<or>
      t \<in> h_tag ` set hs \<and> obs w t = None)"
proof (induction hs arbitrary: w)
  case (Cons h hs)
  show ?case
  proof (cases "limit > 0")
    case True
    obtain x w1 where cc: "check_cap c fixed own limit w = (x, w1)" by fastforce
    note s = check_cap_same [OF cc]
    show ?thesis
    proof (cases x)
      case (Some e)
      then show ?thesis using True cc s by simp
    next
      case None
      obtain y w2 where ad: "add_outbound c h w1 = (y, w2)" by fastforce
      have rec: "restore_backups c fixed own (h # hs) limit w = restore_backups c fixed own hs limit w2"
        using True cc None ad by simp
      have "same_rest w (restore_backups c fixed own hs limit w2)"
        using Cons.IH [of w2] s add_outbound_rest [OF ad] same_rest_trans by blast
      then show ?thesis
        unfolding rec using Cons.IH [of w2] s add_outbound_cases [OF ad] by (auto split: if_splits; metis)
    qed
  next
    case False
    obtain y w2 where ad: "add_outbound c h w = (y, w2)" by fastforce
    have rec: "restore_backups c fixed own (h # hs) limit w = restore_backups c fixed own hs limit w2"
      using False ad by simp
    have "same_rest w (restore_backups c fixed own hs limit w2)"
      using Cons.IH [of w2] add_outbound_rest [OF ad] same_rest_trans by blast
    then show ?thesis
      unfolding rec using Cons.IH [of w2] add_outbound_cases [OF ad] by (auto split: if_splits; metis)
  qed
qed simp

text \<open>The outcomes of \<open>outbounds\<close>.\<close>

lemma outbounds_cases:
  assumes "outbounds c now to_proto fixed own entries m w = (res, w')"
  obtains (conflict) e r where "e \<in> set entries" "get_tag e \<in> set fixed" "res = Inr r" "ar_failed r = 1" "w' = w"
    | (listing) e where "res = Inl e" "same_rest w w'" "obs w' = obs w"
    | (applied) l w1 p1 p2 w2 r where "\<forall>e \<in> set entries. get_tag e \<notin> set fixed"
        "list_outbounds c w = (Inr l, w1)"
        "remove_owned c fixed own l (start_progress (new_report KOutbound m (now w) [])) w1 = (None, p1, w2)"
        "add_entries c to_proto entries p1 w2 = (None, p2, w')" "res = Inr r"
        "ar_failed r = ar_failed (pg_report p2)" "ar_applied r = ar_applied (pg_report p2)"
        "ar_deleted r = ar_deleted (pg_report p2)"
    | (rolled) l w1 p p2 x w2 r w3 y where "\<forall>e \<in> set entries. get_tag e \<notin> set fixed"
        "list_outbounds c w = (Inr l, w1)"
        "remove_owned c fixed own l (start_progress (new_report KOutbound m (now w) [])) w1 = (x, p, w2)"
        "x \<noteq> None \<and> p2 = p \<and> w3 = w2 \<or> x = None \<and> add_entries c to_proto entries p w2 = (Some y, p2, w3)"
        "w' = restore_backups c fixed own (pg_backups p2) (me_max_outbounds m) (remove_all c (rev (pg_added p2)) w3)"
        "res = Inr r" "ar_failed r = 1"
proof (cases "List.find (\<lambda>e. get_tag e \<in> set fixed) entries")
  case (Some e)
  have "e \<in> set entries" "get_tag e \<in> set fixed" using find_Some_set [OF Some] by simp_all
  then show thesis using assms Some conflict by (auto simp: outbounds_def Let_def)
next
  case None
  then have nc: "\<forall>e \<in> set entries. get_tag e \<notin> set fixed" by (simp add: find_None_set)
  obtain r1 w1 where l1: "list_outbounds c w = (r1, w1)" by fastforce
  show thesis
  proof (cases r1)
    case (Inl e)
    then show thesis
      using assms None l1 list_outbounds_frame [OF l1] listing by (auto simp: outbounds_def same_rest_def)
  next
    case (Inr l)
    let ?p0 = "start_progress (new_report KOutbound m (now w) [])"
    obtain x p w2 where rm: "remove_owned c fixed own l ?p0 w1 = (x, p, w2)" by (metis prod_cases3)
    obtain y p2 w3 where ad: "add_entries c to_proto entries p w2 = (y, p2, w3)" by (metis prod_cases3)
    show thesis
    proof (cases x)
      case (Some z)
      then show thesis
        using assms None l1 Inr rm nc rolled [of l w1 x p w2 p w2]
        by (auto simp: outbounds_def Let_def)
    next
      case x: None
      show thesis
      proof (cases y)
        case (Some z)
        then show thesis
          using assms None l1 Inr rm x ad nc rolled [of l w1 x p w2 p2 w3 z]
          by (auto simp: outbounds_def Let_def)
      next
        case y: None
        then show thesis
          using assms None l1 Inr rm x ad nc applied [of l w1 p w2 p2]
          by (auto simp: outbounds_def Let_def)
      qed
    qed
  qed
qed

lemma pg_added_of_entries:
  assumes "proto_ok to_proto h_tag" "add_entries c to_proto es p w = (x, p', w')"
  shows "set (pg_added p') \<subseteq> set (pg_added p) \<union> get_tag ` set es"
proof -
  obtain es1 where "es = es1 @ drop (length es1) es" "pg_added p' = pg_added p @ map get_tag es1"
    using add_entries_spec [OF assms] by blast
  then have "set es1 \<subseteq> set es" by (metis set_append Un_upper1)
  with \<open>pg_added p' = pg_added p @ map get_tag es1\<close> show ?thesis by auto
qed

text \<open>No outcome touches an outbound that is fixed or not owned.\<close>

lemma outbounds_frame:
  assumes "proto_ok to_proto h_tag" "outbounds c now to_proto fixed own entries m w = (res, w')"
    and "\<forall>e \<in> set entries. own KOutbound (get_tag e)"
    and "\<not> replaceable fixed own KOutbound t"
  shows "obs w' t = obs w t \<and> same_rest w w'"
  using assms(2)
proof (cases rule: outbounds_cases)
  case (conflict e r)
  then show ?thesis by simp
next
  case (listing e)
  then show ?thesis by simp
next
  case (applied l w1 p1 p2 w2 r)
  have t: "t \<notin> get_tag ` set entries" using applied(1) assms(3,4) by (auto simp: replaceable_def)
  note lf = list_outbounds_frame [OF applied(2)] and rm = remove_owned_spec [OF applied(3)]
    and ad = add_entries_spec [OF assms(1) applied(4)]
  have "obs w' t = obs w t" using lf rm ad t assms(4) by metis
  moreover have "same_rest w w'" using lf rm ad by (simp add: same_rest_def)
  ultimately show ?thesis by blast
next
  case (rolled l w1 p p2 x w2 r w3 y)
  have t: "t \<notin> get_tag ` set entries" using rolled(1) assms(3,4) by (auto simp: replaceable_def)
  note lf = list_outbounds_frame [OF rolled(2)] and rm = remove_owned_spec [OF rolled(3)]
  obtain bs where bs: "removed_backups fixed own l x
      (start_progress (new_report KOutbound m (now w) [])) p w1 w2 bs" using rm by blast
  have o2: "obs w2 t = obs w t" using lf rm assms(4) by metis
  have tb: "t \<notin> h_tag ` set bs" using bs assms(4) by (auto simp: removed_backups_def)
  have pb: "pg_backups p = bs" "pg_added p = []" using bs rm by (simp_all add: removed_backups_def)
  have w3: "obs w3 t = obs w2 t" "same_rest w2 w3" "pg_backups p2 = bs" "t \<notin> set (pg_added p2)"
    using rolled(4) pb t add_entries_spec [OF assms(1), of entries p w2 "Some y" p2 w3]
      pg_added_of_entries [OF assms(1), of entries p w2 "Some y" p2 w3]
    by auto
  let ?w4 = "remove_all c (rev (pg_added p2)) w3"
  have o4: "obs ?w4 t = obs w3 t" "same_rest w3 ?w4"
    using remove_all_spec [of w3 "rev (pg_added p2)"] w3(4) by auto
  have o5: "obs w' t = obs ?w4 t" "same_rest ?w4 w'"
    using restore_backups_spec [of ?w4 fixed own "pg_backups p2" "me_max_outbounds m"] tb w3(3) rolled(5) by auto
  have "same_rest w w1" using lf by (simp add: same_rest_def)
  then have "same_rest w w'"
    using rm w3(2) o4(2) o5(2) same_rest_trans by blast
  then show ?thesis using o2 w3(1) o4(1) o5(1) by simp
qed

lemma outbounds_rest:
  assumes "proto_ok to_proto h_tag" "outbounds c now to_proto fixed own entries m w = (res, w')"
  shows "ibs w' = ibs w \<and> rls w' = rls w"
  using assms(2)
proof (cases rule: outbounds_cases)
  case (applied l w1 p1 p2 w2 r)
  then show ?thesis
    using list_outbounds_frame [OF applied(2)] remove_owned_spec [OF applied(3)]
      add_entries_spec [OF assms(1) applied(4)] by (simp add: same_rest_def)
next
  case (rolled l w1 p p2 x w2 r w3 y)
  have "same_rest w2 w3"
    using rolled(4) add_entries_spec [OF assms(1), of entries p w2 "Some y" p2 w3] by auto
  then show ?thesis
    using list_outbounds_frame [OF rolled(2)] remove_owned_spec [OF rolled(3)] rolled(5)
      remove_all_spec [of w3 "rev (pg_added p2)"]
      restore_backups_spec [of "remove_all c (rev (pg_added p2)) w3" fixed own "pg_backups p2" "me_max_outbounds m"]
    by (simp add: same_rest_def)
qed (auto simp: same_rest_def)

text \<open>A success leaves exactly the entries in the place of what was owned.\<close>

lemma outbounds_success:
  assumes "proto_ok to_proto h_tag" "outbounds c now to_proto fixed own entries m w = (Inr r, w')"
    and "ar_failed r = 0"
  shows "(\<forall>e \<in> set entries. \<exists>h. to_proto e = Inr h \<and> obs w' (get_tag e) = Some h) \<and>
    (\<forall>t. t \<notin> get_tag ` set entries \<longrightarrow>
       obs w' t = (if replaceable fixed own KOutbound t then None else obs w t)) \<and>
    ar_applied r = map get_tag entries \<and> distinct (ar_applied r) \<and>
    distinct (ar_deleted r) \<and> set (ar_deleted r) = {t \<in> dom (obs w). replaceable fixed own KOutbound t}"
  using assms(2)
proof (cases rule: outbounds_cases)
  case (applied l w1 p1 p2 w2 r')
  note lf = list_outbounds_frame [OF applied(2)] and rm = remove_owned_spec [OF applied(3)]
    and ad = add_entries_spec [OF assms(1) applied(4)]
  obtain bs where bs: "removed_backups fixed own l None
      (start_progress (new_report KOutbound m (now w) [])) p1 w1 w2 bs" using rm by blast
  have tags: "h_tag ` set l = dom (obs w)" by (rule outbound_tags [OF applied(2)])
  have btags: "h_tag ` set bs = {t \<in> dom (obs w). replaceable fixed own KOutbound t}"
    and o2: "obs w2 = (\<lambda>t. if t \<in> h_tag ` set bs then None else obs w1 t)"
    and del: "ar_deleted (pg_report p1) = map h_tag bs" "distinct (map h_tag bs)"
    using bs tags by (auto simp: removed_backups_def)
  obtain hs es1 where hs: "map to_proto es1 = map Inr hs" "distinct (map h_tag hs)"
    "\<forall>h \<in> set hs. obs w' (h_tag h) = Some h" "ar_applied (pg_report p2) = ar_applied (pg_report p1) @ map get_tag es1"
    "es1 = entries"
    using ad by blast
  have tagmap: "map get_tag entries = map h_tag hs"
    using hs(1,5) assms(1) by (auto simp: proto_ok_def list_eq_iff_nth_eq dest: map_eq_imp_length_eq)
  have each: "\<exists>h. to_proto e = Inr h \<and> obs w' (get_tag e) = Some h" if "e \<in> set entries" for e
  proof -
    have "to_proto e \<in> Inr ` set hs" using that hs(1,5) by (metis image_set list.set_map rev_image_eqI)
    then obtain h where "to_proto e = Inr h" "h \<in> set hs" by blast
    then show ?thesis using hs(3) assms(1) by (auto simp: proto_ok_def)
  qed
  have other: "obs w' t = (if replaceable fixed own KOutbound t then None else obs w t)"
    if "t \<notin> get_tag ` set entries" for t
  proof -
    have "obs w' t = obs w2 t" using ad that by blast
    also have "\<dots> = (if replaceable fixed own KOutbound t then None else obs w t)"
      using o2 btags lf by (auto simp: dom_def)
    finally show ?thesis .
  qed
  have "ar_applied (pg_report p1) = []" using rm by simp
  then have apl: "ar_applied r = map get_tag entries" using applied(5,7) hs(4,5) by simp
  have dl: "ar_deleted r = map h_tag bs" using applied(5,8) ad del(1) by simp
  have dist: "distinct (map get_tag entries)" using hs(2) tagmap by simp
  show ?thesis
    unfolding apl dl set_map btags using each other dist del(2) by (intro conjI ballI allI impI) simp_all
qed (use assms(3) in auto)

end

section \<open>Lemmas: inbounds and routing\<close>

definition in_ok :: "(tunnel \<Rightarrow> err + handler) \<Rightarrow> bool" where
  "in_ok in_proto \<longleftrightarrow> (\<forall>tn h. in_proto tn = Inr h \<longrightarrow> h_tag h = tn_inbound tn)"

context xray_api
begin

lemma remove_owned_in_spec:
  "remove_owned_in c fixed own hs r w = (x, r', w') \<Longrightarrow>
   obs w' = obs w \<and> rls w' = rls w \<and> ar_failed r' = ar_failed r \<and> ar_applied r' = ar_applied r \<and>
   (\<forall>t. ibs w' t = ibs w t \<or> ibs w' t = None \<and> t \<in> h_tag ` set hs \<and> replaceable fixed own KInbound t) \<and>
   (x = None \<longrightarrow>
      ar_deleted r' = ar_deleted r @ filter (replaceable fixed own KInbound) (map h_tag hs) \<and>
      ibs w' = (\<lambda>t. if t \<in> h_tag ` set hs \<and> replaceable fixed own KInbound t then None else ibs w t))"
proof (induction hs arbitrary: r w)
  case (Cons h hs)
  show ?case
  proof (cases "replaceable fixed own KInbound (h_tag h)")
    case False
    then have "remove_owned_in c fixed own hs r w = (x, r', w')" using Cons.prems by (simp add: Let_def)
    from Cons.IH [OF this] False show ?thesis by (auto intro!: ext)
  next
    case True
    obtain y w1 where rm: "remove_inbound c (h_tag h) w = (y, w1)" by fastforce
    note fr = remove_inbound_frame [OF rm] and cs = remove_inbound_cases [OF rm]
    show ?thesis
    proof (cases y)
      case (Some e)
      then have "x = Some e" "r' = r" "w' = w1" using Cons.prems True rm by (auto simp: Let_def)
      then show ?thesis using fr cs True by (auto split: if_splits)
    next
      case None
      then have rec: "remove_owned_in c fixed own hs (note_removed (h_tag h) r) w1 = (x, r', w')"
        using Cons.prems True rm by (simp add: Let_def)
      have "ibs w1 = (ibs w)(h_tag h := None)" using remove_inbound_ok rm None by simp
      then show ?thesis using Cons.IH [OF rec] fr True by (auto intro!: ext split: if_splits)
    qed
  qed
qed auto

lemma add_tunnels_in_keeps:
  "add_tunnels_in c in_proto ex tns r w = (x, r', w') \<Longrightarrow> ibs w t = Some g \<Longrightarrow> ibs w' t = Some g"
proof (induction tns arbitrary: r w)
  case (Cons tn tns)
  show ?case
  proof (cases "in_proto tn")
    case (Inl y)
    then show ?thesis using Cons.prems by simp
  next
    case (Inr h)
    obtain y w1 where ad: "add_inbound c h w = (y, w1)" by fastforce
    have "ibs w1 t = Some g" using add_inbound_cases [OF ad] Cons.prems(2) by auto
    then show ?thesis using Cons.prems(1) Inr ad Cons.IH by (cases y) auto
  qed
qed simp

lemma add_tunnels_in_spec:
  assumes "in_ok in_proto"
  shows "add_tunnels_in c in_proto ex tns r w = (x, r', w') \<Longrightarrow>
    obs w' = obs w \<and> rls w' = rls w \<and> ar_failed r' = ar_failed r \<and> ar_deleted r' = ar_deleted r \<and>
    (\<forall>t. t \<notin> tn_inbound ` set tns \<longrightarrow> ibs w' t = ibs w t) \<and>
    (x = None \<longrightarrow> ar_applied r' = ar_applied r @ map tn_inbound tns \<and> distinct (map tn_inbound tns) \<and>
      (\<forall>tn \<in> set tns. \<exists>h. in_proto tn = Inr h \<and> ibs w' (tn_inbound tn) = Some h \<and> ibs w (tn_inbound tn) = None))"
proof (induction tns arbitrary: r w)
  case (Cons tn tns)
  show ?case
  proof (cases "in_proto tn")
    case (Inl y)
    then show ?thesis using Cons.prems by auto
  next
    case (Inr h)
    have tag: "h_tag h = tn_inbound tn" using assms Inr by (simp add: in_ok_def)
    obtain y w1 where ad: "add_inbound c h w = (y, w1)" by fastforce
    note fr = add_inbound_frame [OF ad] and cs = add_inbound_cases [OF ad]
    show ?thesis
    proof (cases y)
      case (Some e)
      then have "x = Some e" "r' = r" "w' = w1" using Cons.prems Inr ad by auto
      then show ?thesis using fr cs tag by (auto split: if_splits)
    next
      case None
      let ?r1 = "note_added (tn_inbound tn \<in> ex) (tn_inbound tn) r"
      have rec: "add_tunnels_in c in_proto ex tns ?r1 w1 = (x, r', w')"
        using Cons.prems Inr ad None by simp
      have i1: "ibs w (tn_inbound tn) = None" "ibs w1 = (ibs w)(tn_inbound tn \<mapsto> h)"
        using add_inbound_ok [of h w w1] ad None tag by auto
      have keep: "ibs w' (tn_inbound tn) = Some h"
        using add_tunnels_in_keeps [OF rec] i1(2) by simp
      note ih = Cons.IH [OF rec]
      have dist: "tn_inbound tn \<notin> tn_inbound ` set tns" if "x = None"
        using ih that i1(2) by fastforce
      show ?thesis
        using ih fr i1 keep dist Inr by (auto split: if_splits)
    qed
  qed
qed auto

lemma inbounds_cases:
  assumes "inbounds c now in_proto fixed own tns m w = (res, w')"
  obtains (conflict) r where "res = Inr r" "ar_failed r = 1" "w' = w"
    | (listing) e where "res = Inl e" "ibs w' = ibs w" "obs w' = obs w" "rls w' = rls w"
    | (ran) l w1 r1 x w2 r where "\<forall>tn \<in> set tns. tn_inbound tn \<notin> set fixed"
        "list_inbounds c w = (Inr l, w1)"
        "remove_owned_in c fixed own l (new_report KInbound m (now w) []) w1 = (x, r1, w2)"
        "res = Inr r"
        "x \<noteq> None \<and> w' = w2 \<and> ar_failed r = 1 \<or>
         x = None \<and> (\<exists>y r2. add_tunnels_in c in_proto (h_tag ` set l) tns r1 w2 = (y, r2, w') \<and>
           (y \<noteq> None \<and> ar_failed r = 1 \<or> y = None \<and> ar_failed r = ar_failed r2 \<and>
            ar_applied r = ar_applied r2 \<and> ar_deleted r = ar_deleted r2))"
proof (cases "List.find (\<lambda>tn. tn_inbound tn \<in> set fixed) tns")
  case (Some tn)
  then show thesis using assms conflict by (auto simp: inbounds_def Let_def)
next
  case None
  then have nc: "\<forall>tn \<in> set tns. tn_inbound tn \<notin> set fixed" by (simp add: find_None_set)
  obtain r0 w1 where l1: "list_inbounds c w = (r0, w1)" by fastforce
  show thesis
  proof (cases r0)
    case (Inl e)
    then show thesis
      using assms None l1 list_inbounds_frame [OF l1] listing by (auto simp: inbounds_def)
  next
    case (Inr l)
    obtain x r1 w2 where rm: "remove_owned_in c fixed own l (new_report KInbound m (now w) []) w1 = (x, r1, w2)"
      by (metis prod_cases3)
    obtain y r2 w3 where ad: "add_tunnels_in c in_proto (h_tag ` set l) tns r1 w2 = (y, r2, w3)"
      by (metis prod_cases3)
    show thesis
    proof (cases x)
      case (Some z)
      then show thesis
        using assms None l1 Inr rm nc ran [of l w1 x r1 w2]
        by (auto simp: inbounds_def Let_def)
    next
      case x: None
      then show thesis
        using assms None l1 Inr rm x ad nc ran [of l w1 x r1 w2]
        by (cases y) (auto simp: inbounds_def Let_def)
    qed
  qed
qed

lemma inbounds_frame:
  assumes "in_ok in_proto" "inbounds c now in_proto fixed own tns m w = (res, w')"
    and "\<forall>tn \<in> set tns. own KInbound (tn_inbound tn)" and "\<not> replaceable fixed own KInbound t"
  shows "ibs w' t = ibs w t \<and> obs w' = obs w \<and> rls w' = rls w"
  using assms(2)
proof (cases rule: inbounds_cases)
  case (ran l w1 r1 x w2 r)
  have t: "t \<notin> tn_inbound ` set tns" using ran(1) assms(3,4) by (auto simp: replaceable_def)
  note lf = list_inbounds_frame [OF ran(2)] and rm = remove_owned_in_spec [OF ran(3)]
  have w2: "ibs w2 t = ibs w t" "obs w2 = obs w" "rls w2 = rls w" using lf rm assms(4) by metis+
  show ?thesis
  proof (cases x)
    case (Some z)
    then show ?thesis using ran(5) w2 by simp
  next
    case None
    then obtain y r2 where "add_tunnels_in c in_proto (h_tag ` set l) tns r1 w2 = (y, r2, w')"
      using ran(5) by blast
    from add_tunnels_in_spec [OF assms(1) this] show ?thesis using w2 t by simp
  qed
qed auto

lemma inbounds_success:
  assumes "in_ok in_proto" "inbounds c now in_proto fixed own tns m w = (Inr r, w')" and "ar_failed r = 0"
  shows "(\<forall>tn \<in> set tns. \<exists>h. in_proto tn = Inr h \<and> ibs w' (tn_inbound tn) = Some h) \<and>
    (\<forall>t. t \<notin> tn_inbound ` set tns \<longrightarrow>
       ibs w' t = (if replaceable fixed own KInbound t then None else ibs w t)) \<and>
    ar_applied r = map tn_inbound tns \<and> distinct (ar_applied r) \<and>
    distinct (ar_deleted r) \<and> set (ar_deleted r) = {t \<in> dom (ibs w). replaceable fixed own KInbound t}"
  using assms(2)
proof (cases rule: inbounds_cases)
  case (ran l w1 r1 x w2 r')
  then have x: "x = None" and r: "r' = r" using assms(3) by auto
  obtain r2 where ad: "add_tunnels_in c in_proto (h_tag ` set l) tns r1 w2 = (None, r2, w')"
    and rr: "ar_applied r = ar_applied r2" "ar_deleted r = ar_deleted r2"
    using ran(5) x r assms(3) by auto
  note lf = list_inbounds_frame [OF ran(2)] and rm = remove_owned_in_spec [OF ran(3)]
    and sp = add_tunnels_in_spec [OF assms(1) ad]
  have tags: "h_tag ` set l = dom (ibs w)" and d: "distinct (map h_tag l)"
    using inbound_tags [OF ran(2)] list_inbounds_ok [OF ran(2)] by auto
  have i2: "ibs w2 = (\<lambda>t. if t \<in> dom (ibs w) \<and> replaceable fixed own KInbound t then None else ibs w t)"
    and del: "ar_deleted r1 = filter (replaceable fixed own KInbound) (map h_tag l)"
    using rm x tags lf by auto
  have each: "\<exists>h. in_proto tn = Inr h \<and> ibs w' (tn_inbound tn) = Some h" if "tn \<in> set tns" for tn
    using sp that by blast
  have other: "ibs w' t = (if replaceable fixed own KInbound t then None else ibs w t)"
    if "t \<notin> tn_inbound ` set tns" for t
    using sp that i2 by (auto simp: dom_def)
  have "ar_applied r = map tn_inbound tns" "distinct (map tn_inbound tns)"
    using rr(1) sp rm by simp_all
  moreover have "ar_deleted r = filter (replaceable fixed own KInbound) (map h_tag l)"
    using rr(2) sp del by simp
  moreover have "set (filter (replaceable fixed own KInbound) (map h_tag l)) =
      {t \<in> dom (ibs w). replaceable fixed own KInbound t}"
    by (simp only: set_filter set_map tags)
  ultimately show ?thesis using each other d by simp
qed (use assms(3) in auto)

end

text \<open>Routing: the rules that are not replaceable, in router order.\<close>

definition kept_rules :: "string list \<Rightarrow> owner \<Rightarrow> rule list \<Rightarrow> rule list" where
  "kept_rules fixed own qs = filter (\<lambda>q. \<not> replaceable fixed own KRouting (rl_ruletag q)) qs"

lemma kept_rules_append [simp]: "kept_rules fixed own (a @ b) = kept_rules fixed own a @ kept_rules fixed own b"
  by (simp add: kept_rules_def)

lemma kept_rules_drop:
  "replaceable fixed own KRouting t \<Longrightarrow>
   kept_rules fixed own (filter (\<lambda>q. rl_ruletag q \<noteq> t) qs) = kept_rules fixed own qs"
  by (auto simp: kept_rules_def intro: filter_cong)

lemma kept_rules_own:
  "\<forall>q \<in> set qs. replaceable fixed own KRouting (rl_ruletag q) \<Longrightarrow> kept_rules fixed own qs = []"
  by (auto simp: kept_rules_def filter_empty_conv)

definition tunnel_rules :: "tunnel list \<Rightarrow> rule list" where
  "tunnel_rules tns = map (\<lambda>tn. rule_of (tunnel_rule tn (tn_current tn))) tns"

lemma tunnel_rules_simps [simp]:
  "tunnel_rules [] = []"
  "tunnel_rules (tn # tns) = \<lparr>rl_tag = tn_current tn, rl_ruletag = tn_route tn\<rparr> # tunnel_rules tns"
  by (simp_all add: tunnel_rules_def rule_of_def tunnel_rule_def)

lemma tunnel_rules_tags: "rl_ruletag ` set (tunnel_rules tns) = tn_route ` set tns"
  by (induction tns) auto

context xray_api
begin

lemma remove_owned_rules_spec:
  "remove_owned_rules c fixed own qs r w = (x, r', w') \<Longrightarrow>
   obs w' = obs w \<and> ibs w' = ibs w \<and> ar_failed r' = ar_failed r \<and> ar_applied r' = ar_applied r \<and>
   kept_rules fixed own (rls w') = kept_rules fixed own (rls w) \<and>
   (x = None \<longrightarrow>
      ar_deleted r' = ar_deleted r @ filter (replaceable fixed own KRouting) (map rl_ruletag qs) \<and>
      rls w' = filter (\<lambda>q. \<not> (rl_ruletag q \<in> rl_ruletag ` set qs \<and> replaceable fixed own KRouting (rl_ruletag q))) (rls w))"
proof (induction qs arbitrary: r w)
  case (Cons q qs)
  show ?case
  proof (cases "replaceable fixed own KRouting (rl_ruletag q)")
    case False
    then have "remove_owned_rules c fixed own qs r w = (x, r', w')" using Cons.prems by (simp add: Let_def)
    from Cons.IH [OF this] False show ?thesis by (auto intro!: filter_cong)
  next
    case True
    obtain y w1 where rm: "remove_rule c (rl_ruletag q) w = (y, w1)" by fastforce
    note fr = remove_rule_frame [OF rm] and cs = remove_rule_cases [OF rm]
    show ?thesis
    proof (cases y)
      case (Some e)
      then have "x = Some e" "r' = r" "w' = w1" using Cons.prems True rm by (auto simp: Let_def)
      then show ?thesis using fr cs kept_rules_drop [OF True] by auto
    next
      case None
      then have rec: "remove_owned_rules c fixed own qs (note_removed (rl_ruletag q) r) w1 = (x, r', w')"
        using Cons.prems True rm by (simp add: Let_def)
      have r1: "rls w1 = filter (\<lambda>p. rl_ruletag p \<noteq> rl_ruletag q) (rls w)"
        using remove_rule_ok [of "rl_ruletag q" w w1] rm None by simp
      note ih = Cons.IH [OF rec]
      have "rls w' = filter (\<lambda>p. \<not> (rl_ruletag p \<in> rl_ruletag ` set (q # qs) \<and>
          replaceable fixed own KRouting (rl_ruletag p))) (rls w)" if "x = None"
        using ih that r1 True by (auto intro!: filter_cong)
      then show ?thesis using ih fr True r1 kept_rules_drop [OF True] by simp
    qed
  qed
qed auto

lemma add_tunnels_rules_spec:
  "add_tunnels_rules c ex tns r w = (x, r', w') \<Longrightarrow>
   obs w' = obs w \<and> ibs w' = ibs w \<and> ar_failed r' = ar_failed r \<and> ar_deleted r' = ar_deleted r \<and>
   (\<exists>n. rls w' = rls w @ take n (tunnel_rules tns)) \<and>
   (x = None \<longrightarrow> ar_applied r' = ar_applied r @ map tn_route tns \<and> rls w' = rls w @ tunnel_rules tns)"
proof (induction tns arbitrary: r w)
  case (Cons tn tns)
  let ?q = "tunnel_rule tn (tn_current tn)"
  have q: "rule_of ?q = \<lparr>rl_tag = tn_current tn, rl_ruletag = tn_route tn\<rparr>"
    by (simp add: rule_of_def tunnel_rule_def)
  obtain y w1 where ad: "add_rule c ?q w = (y, w1)" by fastforce
  note fr = add_rule_frame [OF ad] and cs = add_rule_cases [OF ad]
  show ?case
  proof (cases y)
    case (Some e)
    then have e: "x = Some e" "r' = r" "w' = w1" using Cons.prems ad by auto
    have "rls w1 = rls w @ take 0 (tunnel_rules (tn # tns)) \<or> rls w1 = rls w @ take 1 (tunnel_rules (tn # tns))"
      using cs q by auto
    then show ?thesis using fr e by blast
  next
    case None
    then have rec: "add_tunnels_rules c ex tns (note_added (tn_route tn \<in> ex) (tn_route tn) r) w1 = (x, r', w')"
      using Cons.prems ad by simp
    have r1: "rls w1 = rls w @ [\<lparr>rl_tag = tn_current tn, rl_ruletag = tn_route tn\<rparr>]"
      using add_rule_ok [of ?q w w1] ad None q by simp
    note ih = Cons.IH [OF rec]
    then obtain n where "rls w' = rls w1 @ take n (tunnel_rules tns)" by blast
    then have "rls w' = rls w @ take (Suc n) (tunnel_rules (tn # tns))" using r1 by simp
    then have "\<exists>n. rls w' = rls w @ take n (tunnel_rules (tn # tns))" by blast
    then show ?thesis using ih fr r1 by simp
  qed
qed (auto intro: exI [of _ 0])

lemma routing_cases:
  assumes "routing c now fixed own tns m w = (res, w')"
  obtains (conflict) r where "res = Inr r" "ar_failed r = 1" "w' = w"
    | (listing) e where "res = Inl e" "ibs w' = ibs w" "obs w' = obs w" "rls w' = rls w"
    | (ran) w1 r1 x w2 r where "\<forall>tn \<in> set tns. tn_route tn \<notin> set fixed"
        "list_rules c w = (Inr (rls w), w1)"
        "remove_owned_rules c fixed own (rls w) (new_report KRouting m (now w) []) w1 = (x, r1, w2)"
        "res = Inr r"
        "x \<noteq> None \<and> w' = w2 \<and> ar_failed r = 1 \<or>
         x = None \<and> (\<exists>y r2. add_tunnels_rules c (rl_ruletag ` set (rls w)) tns r1 w2 = (y, r2, w') \<and>
           (y \<noteq> None \<and> ar_failed r = 1 \<or> y = None \<and> ar_failed r = ar_failed r2 \<and>
            ar_applied r = ar_applied r2 \<and> ar_deleted r = ar_deleted r2))"
proof (cases "List.find (\<lambda>tn. tn_route tn \<in> set fixed) tns")
  case (Some tn)
  then show thesis using assms conflict by (auto simp: routing_def Let_def)
next
  case None
  then have nc: "\<forall>tn \<in> set tns. tn_route tn \<notin> set fixed" by (simp add: find_None_set)
  obtain r0 w1 where l1: "list_rules c w = (r0, w1)" by fastforce
  show thesis
  proof (cases r0)
    case (Inl e)
    then show thesis
      using assms None l1 list_rules_frame [OF l1] listing by (auto simp: routing_def)
  next
    case (Inr l)
    then have l: "l = rls w" using list_rules_ok [of w l w1] l1 by simp
    obtain x r1 w2 where rm: "remove_owned_rules c fixed own (rls w) (new_report KRouting m (now w) []) w1 = (x, r1, w2)"
      by (metis prod_cases3)
    obtain y r2 w3 where ad: "add_tunnels_rules c (rl_ruletag ` set (rls w)) tns r1 w2 = (y, r2, w3)"
      by (metis prod_cases3)
    show thesis
    proof (cases x)
      case (Some z)
      then show thesis
        using assms None l1 Inr l rm nc ran [of w1 x r1 w2]
        by (auto simp: routing_def Let_def)
    next
      case x: None
      then show thesis
        using assms None l1 Inr l rm x ad nc ran [of w1 x r1 w2]
        by (cases y) (auto simp: routing_def Let_def)
    qed
  qed
qed

lemma routing_frame:
  assumes "routing c now fixed own tns m w = (res, w')"
    and "\<forall>tn \<in> set tns. own KRouting (tn_route tn)"
  shows "kept_rules fixed own (rls w') = kept_rules fixed own (rls w) \<and> obs w' = obs w \<and> ibs w' = ibs w"
  using assms(1)
proof (cases rule: routing_cases)
  case (ran w1 r1 x w2 r)
  note lf = list_rules_frame [OF ran(2)] and rm = remove_owned_rules_spec [OF ran(3)]
  show ?thesis
  proof (cases x)
    case (Some z)
    then show ?thesis using ran(5) lf rm by simp
  next
    case None
    then obtain y r2 where ad: "add_tunnels_rules c (rl_ruletag ` set (rls w)) tns r1 w2 = (y, r2, w')"
      using ran(5) by blast
    note sp = add_tunnels_rules_spec [OF ad]
    then obtain n where n: "rls w' = rls w2 @ take n (tunnel_rules tns)" by blast
    have "replaceable fixed own KRouting (rl_ruletag q)" if q: "q \<in> set (take n (tunnel_rules tns))" for q
    proof -
      obtain tn where "tn \<in> set tns" "rl_ruletag q = tn_route tn"
        using in_set_takeD [OF q] tunnel_rules_tags [of tns] by blast
      then show ?thesis using ran(1) assms(2) by (simp add: replaceable_def)
    qed
    then have "kept_rules fixed own (take n (tunnel_rules tns)) = []"
      by (intro kept_rules_own) blast
    then show ?thesis using sp rm lf n by simp
  qed
qed auto

lemma routing_success:
  assumes "routing c now fixed own tns m w = (Inr r, w')" and "ar_failed r = 0"
  shows "rls w' = kept_rules fixed own (rls w) @ tunnel_rules tns \<and>
    ar_applied r = map tn_route tns \<and>
    ar_deleted r = filter (replaceable fixed own KRouting) (map rl_ruletag (rls w))"
  using assms(1)
proof (cases rule: routing_cases)
  case (ran w1 r1 x w2 r')
  then have x: "x = None" and r: "r' = r" using assms(2) by auto
  obtain r2 where ad: "add_tunnels_rules c (rl_ruletag ` set (rls w)) tns r1 w2 = (None, r2, w')"
    and rr: "ar_applied r = ar_applied r2" "ar_deleted r = ar_deleted r2"
    using ran(5) x r assms(2) by auto
  note lf = list_rules_frame [OF ran(2)] and rm = remove_owned_rules_spec [OF ran(3)]
    and sp = add_tunnels_rules_spec [OF ad]
  have "rls w2 = kept_rules fixed own (rls w)"
    using rm x lf by (auto simp: kept_rules_def intro!: filter_cong)
  then show ?thesis using sp rm x rr by simp
qed (use assms(2) in auto)

end

section \<open>Properties\<close>

text \<open>The world of the witnesses: a fixed outbound, an old one of source vl and one of source wg.\<close>

definition w_server :: server where
  "w_server = new_server
     \<lparr>fs_outbounds := [(''direct'', ''d''), (''obs-vl-old'', ''o''), (''obs-wg-1'', ''w'')],
      fs_inbounds := [(''api'', ''a''), (''in-vl-old'', ''i'')],
      fs_rules := [\<lparr>rl_tag = ''direct'', rl_ruletag = ''''\<rparr>, \<lparr>rl_tag = ''obs-vl-old'', rl_ruletag = ''route-vl-old''\<rparr>]\<rparr>"

definition w_client :: "server client" where
  "w_client = fake_client ''x:1'' 5000"

definition w_in :: "tunnel \<Rightarrow> err + handler" where
  "w_in tn = Inr \<lparr>h_tag = tn_inbound tn, h_body = ''s''\<rparr>"

definition w_spec :: "string \<Rightarrow> spec" where
  "w_spec tag = Vless (build_vless (w_normalized\<lparr>n_tag := tag\<rparr>))"

definition w_meta :: meta where
  "w_meta = \<lparr>me_source = ''vl'', me_subscription = ''s'', me_target = ''x:1'', me_max_outbounds = 0\<rparr>"

definition w_own :: owner where
  "w_own = owns (source_ns w_target ''vl'')"

definition w_tunnel :: tunnel where
  "w_tunnel = new_tunnel (w_vless_entry ''vl-new'') ''vl'' w_target 100"

lemma w_api: "xray_api w_client fake_obs fake_ibs fs_rules"
  unfolding w_client_def by (rule fake.xray_api_axioms)

lemma w_proto_ok: "proto_ok w_proto h_tag"
  by (simp add: proto_ok_def w_proto_def)

lemma w_in_ok: "in_ok w_in"
  by (simp add: in_ok_def w_in_def)

lemma w_spec_tag [simp]: "get_tag (w_spec tag) = tag"
  by (simp add: w_spec_def)

definition report_ok :: "err + report \<Rightarrow> bool" where
  "report_ok x = (case x of Inl e \<Rightarrow> False | Inr r \<Rightarrow> ar_failed r = 0)"

lemma report_okD: "report_ok (fst p) \<Longrightarrow> \<exists>r w'. p = (Inr r, w') \<and> ar_failed r = 0"
  by (cases p) (auto simp: report_ok_def split: sum.splits)

lemma w_outbounds_ok:
  "report_ok (fst (outbounds w_client (\<lambda>_. 0) w_proto [''direct''] w_own [w_spec ''obs-vl-new''] w_meta w_server))"
  by code_simp

lemma w_inbounds_ok:
  "report_ok (fst (inbounds w_client (\<lambda>_. 0) w_in [''api''] w_own [w_tunnel] w_meta w_server))"
  by code_simp

lemma w_routing_ok:
  "report_ok (fst (routing w_client (\<lambda>_. 0) [''api''] w_own [w_tunnel] w_meta w_server))"
  by code_simp

text \<open>
  C14: A successful apply of outbounds leaves in Xray exactly: the source's entries, each with the
  handler built from it; nothing else in the namespace of the source that is not fixed; and every
  other outbound as it was. The report names them: the entries as applied, the removed tags as deleted.
\<close>

theorem outbounds_replaces_own:
  assumes "xray_api c obs ibs rls" "proto_ok to_proto h_tag"
    and "outbounds c now to_proto fixed own entries m w = (Inr r, w')" "ar_failed r = 0"
  shows "(\<forall>e \<in> set entries. \<exists>h. to_proto e = Inr h \<and> obs w' (get_tag e) = Some h) \<and>
    (\<forall>t. t \<notin> get_tag ` set entries \<longrightarrow>
       obs w' t = (if replaceable fixed own KOutbound t then None else obs w t)) \<and>
    ar_applied r = map get_tag entries \<and> distinct (ar_applied r) \<and>
    distinct (ar_deleted r) \<and> set (ar_deleted r) = {t \<in> dom (obs w). replaceable fixed own KOutbound t}"
  by (rule xray_api.outbounds_success [OF assms])

lemma outbounds_replaces_own_witness:
  "fake_obs (snd (outbounds w_client (\<lambda>_. 0) w_proto [''direct''] w_own [w_spec ''obs-vl-new''] w_meta w_server))
     ''obs-vl-new'' = Some \<lparr>h_tag = ''obs-vl-new'', h_body = ''b''\<rparr>"
proof -
  obtain r w' where o1: "outbounds w_client (\<lambda>_. 0) w_proto [''direct''] w_own [w_spec ''obs-vl-new''] w_meta w_server =
      (Inr r, w')" "ar_failed r = 0"
    using report_okD [OF w_outbounds_ok] by blast
  then show ?thesis
    unfolding o1(1) using outbounds_replaces_own [OF w_api w_proto_ok o1] by (auto simp: w_proto_def)
qed

text \<open>
  C15: Whatever an apply of outbounds returns, and also when it fails half way and rolls back, it
  leaves alone every outbound that is fixed or outside the source's namespace, every inbound and
  every rule (the tags of the entries lie in the namespace).
\<close>

theorem outbounds_spares_rest:
  assumes "xray_api c obs ibs rls" "proto_ok to_proto h_tag"
    and "\<forall>e \<in> set entries. own KOutbound (get_tag e)"
    and "w' = snd (outbounds c now to_proto fixed own entries m w)"
  shows "(\<forall>t. \<not> replaceable fixed own KOutbound t \<longrightarrow> obs w' t = obs w t) \<and> ibs w' = ibs w \<and> rls w' = rls w"
proof -
  obtain x where x: "outbounds c now to_proto fixed own entries m w = (x, w')"
    using assms(4) by (metis prod.collapse)
  show ?thesis
    using xray_api.outbounds_frame [OF assms(1,2) x assms(3)]
      xray_api.outbounds_rest [OF assms(1,2) x] by blast
qed

lemma outbounds_spares_rest_witness:
  "fake_obs (snd (outbounds w_client (\<lambda>_. 0) w_proto [''direct''] w_own [w_spec ''obs-vl-new''] w_meta w_server)) ''obs-wg-1'' =
   Some \<lparr>h_tag = ''obs-wg-1'', h_body = ''w''\<rparr>"
  using outbounds_spares_rest [OF w_api w_proto_ok, of "[w_spec ''obs-vl-new'']" w_own _ "\<lambda>_. 0" "[''direct'']" w_meta w_server]
  by (simp add: w_own_def w_target_def blank_defs replaceable_def w_server_def new_server_def fake_obs_def stored_def)

text \<open>
  A successful apply of inbounds leaves exactly the tunnels' SOCKS inbounds in the place of
  those the source owned, every other inbound as it was.
\<close>

theorem inbounds_replaces_own:
  assumes "xray_api c obs ibs rls" "in_ok in_proto"
    and "inbounds c now in_proto fixed own tns m w = (Inr r, w')" "ar_failed r = 0"
  shows "(\<forall>tn \<in> set tns. \<exists>h. in_proto tn = Inr h \<and> ibs w' (tn_inbound tn) = Some h) \<and>
    (\<forall>t. t \<notin> tn_inbound ` set tns \<longrightarrow>
       ibs w' t = (if replaceable fixed own KInbound t then None else ibs w t)) \<and>
    ar_applied r = map tn_inbound tns \<and> distinct (ar_applied r) \<and>
    distinct (ar_deleted r) \<and> set (ar_deleted r) = {t \<in> dom (ibs w). replaceable fixed own KInbound t}"
  by (rule xray_api.inbounds_success [OF assms])

lemma inbounds_replaces_own_witness:
  "fake_ibs (snd (inbounds w_client (\<lambda>_. 0) w_in [''api''] w_own [w_tunnel] w_meta w_server)) ''in-vl-new'' \<noteq> None"
proof -
  obtain r w' where o1: "inbounds w_client (\<lambda>_. 0) w_in [''api''] w_own [w_tunnel] w_meta w_server = (Inr r, w')"
      "ar_failed r = 0"
    using report_okD [OF w_inbounds_ok] by blast
  have "tn_inbound w_tunnel = ''in-vl-new''" by (simp add: w_tunnel_def w_vless_entry_def w_entry_def)
  then show ?thesis
    unfolding o1(1) using inbounds_replaces_own [OF w_api w_in_ok o1] by auto
qed

text \<open>
  A successful apply of routing leaves the rules the source does not own, in router order,
  followed by one rule per tunnel to its current outbound; a failed one still keeps all the former.
\<close>

theorem routing_replaces_own:
  assumes "xray_api c obs ibs rls" "routing c now fixed own tns m w = (Inr r, w')"
    and "\<forall>tn \<in> set tns. own KRouting (tn_route tn)"
  shows "kept_rules fixed own (rls w') = kept_rules fixed own (rls w) \<and> obs w' = obs w \<and> ibs w' = ibs w \<and>
    (ar_failed r = 0 \<longrightarrow>
      rls w' = kept_rules fixed own (rls w) @ tunnel_rules tns \<and>
      ar_applied r = map tn_route tns \<and>
      ar_deleted r = filter (replaceable fixed own KRouting) (map rl_ruletag (rls w)))"
  using xray_api.routing_frame [OF assms] xray_api.routing_success [OF assms(1,2)] by blast

lemma routing_replaces_own_witness:
  "fs_rules (snd (routing w_client (\<lambda>_. 0) [''api''] w_own [w_tunnel] w_meta w_server)) =
     [\<lparr>rl_tag = ''direct'', rl_ruletag = ''''\<rparr>, \<lparr>rl_tag = ''obs-vl-new'', rl_ruletag = ''route-vl-new''\<rparr>]"
proof -
  obtain r w' where o1: "routing w_client (\<lambda>_. 0) [''api''] w_own [w_tunnel] w_meta w_server = (Inr r, w')"
      "ar_failed r = 0"
    using report_okD [OF w_routing_ok] by blast
  have "fs_rules w' = kept_rules [''api''] w_own (fs_rules w_server) @ tunnel_rules [w_tunnel]"
    using routing_replaces_own [OF w_api o1(1)] o1(2)
    by (simp add: w_own_def w_target_def w_tunnel_def w_vless_entry_def w_entry_def)
  then show ?thesis
    unfolding o1(1)
    by (simp add: kept_rules_def replaceable_def w_own_def w_server_def new_server_def w_target_def blank_defs
        w_tunnel_def w_vless_entry_def w_entry_def)
qed

end
