(* ===== verification/Scd_Slots.thy ===== *)
theory Scd_Slots
  imports Scd_Apply
begin

text \<open>
  The operations of \<^verbatim>\<open>internal/scd/apply\<close> on single tunnels and on a whole target: the client that
  refuses an outbound beyond \<^verbatim>\<open>maxActive\<close> (\<^verbatim>\<open>cap.go\<close>), adding, removing and replacing the tunnel
  of a slot (\<^verbatim>\<open>tunnel.go\<close>), and the removal of orphans (\<^verbatim>\<open>namespace.go\<close>).

  The calls of a client are also given as a step relation, and the cap is proved as an invariant
  of every run of the capped client.
\<close>

section \<open>The cap\<close>

text \<open>The checks of \<^verbatim>\<open>capped.AddOutbound\<close>, one per source with a limit whose namespace holds the tag.\<close>

fun capped_checks ::
    "'w client \<Rightarrow> string list \<Rightarrow> (namespace \<times> int) list \<Rightarrow> handler \<Rightarrow> 'w \<Rightarrow> err option \<times> 'w" where
  "capped_checks c fixed [] h w = (None, w)"
| "capped_checks c fixed ((n, limit) # ns) h w =
     (if owns n KOutbound (h_tag h)
      then case check_cap c fixed (owns n) limit w of
          (Some e, w1) \<Rightarrow> (Some (ErrWrap (''add outbound '' @ h_tag h) e), w1)
        | (None, w1) \<Rightarrow> capped_checks c fixed ns h w1
      else capped_checks c fixed ns h w)"

definition capped_add ::
    "'w client \<Rightarrow> string list \<Rightarrow> (namespace \<times> int) list \<Rightarrow> handler \<Rightarrow> 'w call" where
  "capped_add c fixed ns h w =
     (case capped_checks c fixed ns h w of
        (Some e, w1) \<Rightarrow> (Some e, w1)
      | (None, w1) \<Rightarrow> add_outbound c h w1)"

definition cap_limits :: "target \<Rightarrow> source list \<Rightarrow> (namespace \<times> int) list" where
  "cap_limits t srcs =
     map (\<lambda>s. (source_ns t (s_id s), s_max_active s)) (filter (\<lambda>s. s_max_active s > 0) srcs)"

definition capped :: "'w client \<Rightarrow> target \<Rightarrow> source list \<Rightarrow> 'w client" where
  "capped c t srcs =
     (if cap_limits t srcs = [] then c
      else c\<lparr>add_outbound := capped_add c (t_fixed_outbounds t) (cap_limits t srcs)\<rparr>)"

text \<open>Every call of a client, with any arguments and any result, as a step.\<close>

inductive xray_step :: "'w client \<Rightarrow> 'w \<Rightarrow> 'w \<Rightarrow> bool" for c where
  step_list_outbounds: "list_outbounds c w = (r, w') \<Longrightarrow> xray_step c w w'"
| step_add_outbound: "add_outbound c h w = (x, w') \<Longrightarrow> xray_step c w w'"
| step_remove_outbound: "remove_outbound c t w = (x, w') \<Longrightarrow> xray_step c w w'"
| step_list_inbounds: "list_inbounds c w = (r, w') \<Longrightarrow> xray_step c w w'"
| step_add_inbound: "add_inbound c h w = (x, w') \<Longrightarrow> xray_step c w w'"
| step_remove_inbound: "remove_inbound c t w = (x, w') \<Longrightarrow> xray_step c w w'"
| step_list_rules: "list_rules c w = (q, w') \<Longrightarrow> xray_step c w w'"
| step_add_rule: "add_rule c ru w = (x, w') \<Longrightarrow> xray_step c w w'"
| step_remove_rule: "remove_rule c t w = (x, w') \<Longrightarrow> xray_step c w w'"
| step_balancer: "get_balancer_info c t w = (b, w') \<Longrightarrow> xray_step c w w'"
| step_status: "get_outbound_status c w = (s, w') \<Longrightarrow> xray_step c w w'"

definition xray_run :: "'w client \<Rightarrow> 'w \<Rightarrow> 'w \<Rightarrow> bool" where
  "xray_run c = (xray_step c)\<^sup>*\<^sup>*"

section \<open>The tunnel of a slot\<close>

definition outbound_tags :: "tunnel \<Rightarrow> string list" where
  "outbound_tags tn =
     (let add = (\<lambda>tag tags. if tag \<noteq> '''' \<and> tag \<notin> set tags then tags @ [tag] else tags)
      in add (po_tag (tn_out_bare tn)) (add (tn_initial tn) [tn_current tn]))"

fun remove_tags :: "'w client \<Rightarrow> string list \<Rightarrow> 'w call" where
  "remove_tags c [] w = (None, w)"
| "remove_tags c (t # ts) w =
     (case remove_outbound c t w of
        (Some e, w1) \<Rightarrow> (Some e, w1)
      | (None, w1) \<Rightarrow> remove_tags c ts w1)"

text \<open>\<^verbatim>\<open>RemoveTunnel\<close> returns the error of the rule removal and the error of the rest.\<close>

definition remove_tunnel :: "'w client \<Rightarrow> tunnel \<Rightarrow> 'w \<Rightarrow> err option \<times> err option \<times> 'w" where
  "remove_tunnel c old w =
     (let (rule_err, w1) = remove_rule c (tn_route old) w in
      case remove_tags c (outbound_tags old) w1 of
        (Some e, w2) \<Rightarrow>
          (rule_err, Some (ReplaceFailed e), snd (add_rule c (tunnel_rule old (tn_current old)) w2))
      | (None, w2) \<Rightarrow>
          (case remove_inbound c (tn_inbound old) w2 of
             (Some e, w3) \<Rightarrow> (rule_err, Some (ReplaceFailed e), w3)
           | (None, w3) \<Rightarrow> (rule_err, None, w3)))"

definition replace_tunnel ::
    "'w client \<Rightarrow> (spec \<Rightarrow> err + handler) \<Rightarrow> (tunnel \<Rightarrow> err + handler) \<Rightarrow> tunnel \<Rightarrow> tunnel \<Rightarrow> 'w \<Rightarrow>
     err option \<times> err option \<times> 'w" where
  "replace_tunnel c to_proto in_proto old new w =
     (case to_proto (po_json (tn_out_initial new)) of
        Inl e \<Rightarrow> (None, Some (ReplaceFailed e), w)
      | Inr h \<Rightarrow>
     (case in_proto new of
        Inl e \<Rightarrow> (None, Some (ReplaceFailed e), w)
      | Inr hin \<Rightarrow>
     (case remove_tunnel c old w of
        (rule_err, Some e, w1) \<Rightarrow> (rule_err, Some e, w1)
      | (rule_err, None, w1) \<Rightarrow>
     (case add_outbound c h w1 of
        (Some e, w2) \<Rightarrow> (rule_err, Some (ReplaceFailed e), w2)
      | (None, w2) \<Rightarrow>
     (case add_inbound c hin w2 of
        (Some e, w3) \<Rightarrow> (rule_err, Some (ReplaceFailed e), w3)
      | (None, w3) \<Rightarrow>
     (case add_rule c (tunnel_rule new (tn_initial new)) w3 of
        (Some e, w4) \<Rightarrow> (rule_err, Some (ReplaceFailed e), w4)
      | (None, w4) \<Rightarrow> (rule_err, None, w4)))))))"

definition add_tunnel ::
    "'w client \<Rightarrow> (spec \<Rightarrow> err + handler) \<Rightarrow> (tunnel \<Rightarrow> err + handler) \<Rightarrow> tunnel \<Rightarrow> 'w call" where
  "add_tunnel c to_proto in_proto new w =
     (case to_proto (po_json (tn_out_initial new)) of
        Inl e \<Rightarrow> (Some (ReplaceFailed e), w)
      | Inr h \<Rightarrow>
     (case in_proto new of
        Inl e \<Rightarrow> (Some (ReplaceFailed e), w)
      | Inr hin \<Rightarrow>
     (case add_outbound c h w of
        (Some e, w1) \<Rightarrow> (Some (ReplaceFailed e), snd (remove_outbound c (tn_initial new) w1))
      | (None, w1) \<Rightarrow>
     (case add_inbound c hin w1 of
        (Some e, w2) \<Rightarrow> (Some (ReplaceFailed e), snd (remove_outbound c (tn_initial new) w2))
      | (None, w2) \<Rightarrow>
     (case add_rule c (tunnel_rule new (tn_initial new)) w2 of
        (Some e, w3) \<Rightarrow>
          (Some (ReplaceFailed e),
           snd (remove_outbound c (tn_initial new)
             (snd (remove_inbound c (tn_inbound new) (snd (remove_rule c (tn_route new) w3))))))
      | (None, w3) \<Rightarrow> (None, w3))))))"

text \<open>\<^verbatim>\<open>SlotReports\<close>; \<open>now\<close> is read once, the code reads the clock twice per report.\<close>

fun tunnel_id :: "kind \<Rightarrow> tunnel \<Rightarrow> string" where
  "tunnel_id KOutbound tn = tn_current tn"
| "tunnel_id KInbound tn = tn_inbound tn"
| "tunnel_id KRouting tn = tn_route tn"

definition slot_report ::
    "meta \<Rightarrow> time \<Rightarrow> tunnel list \<Rightarrow> tunnel list \<Rightarrow> string \<Rightarrow> err option \<Rightarrow> kind \<Rightarrow> report" where
  "slot_report m now gone fresh failed eo k =
     (let r1 = fold (\<lambda>tn. note_removed (tunnel_id k tn)) gone (new_report k m now []);
          r2 = fold (\<lambda>tn. note_added False (tunnel_id k tn)) fresh r1
      in case eo of
           Some e \<Rightarrow> if k = KOutbound then note_failed failed (err_text e) r2 else r2
         | None \<Rightarrow> r2)"

definition slot_reports ::
    "kind list \<Rightarrow> meta \<Rightarrow> time \<Rightarrow> tunnel list \<Rightarrow> tunnel list \<Rightarrow> string \<Rightarrow> err option \<Rightarrow> report list" where
  "slot_reports kinds m now gone fresh failed eo = map (slot_report m now gone fresh failed eo) kinds"

section \<open>Orphans\<close>

definition orphan :: "namespace list \<Rightarrow> kind \<Rightarrow> string list \<Rightarrow> string \<Rightarrow> bool" where
  "orphan nss k fixed tag \<longleftrightarrow> tag \<noteq> '''' \<and> tag \<notin> set fixed \<and> \<not> list_ex (\<lambda>n. owns n k tag) nss"

fun list_tags :: "'w client \<Rightarrow> kind \<Rightarrow> ('w, string list) query" where
  "list_tags c KRouting w =
     (case list_rules c w of (Inl e, w1) \<Rightarrow> (Inl e, w1) | (Inr l, w1) \<Rightarrow> (Inr (map rl_ruletag l), w1))"
| "list_tags c KInbound w =
     (case list_inbounds c w of (Inl e, w1) \<Rightarrow> (Inl e, w1) | (Inr l, w1) \<Rightarrow> (Inr (map h_tag l), w1))"
| "list_tags c KOutbound w =
     (case list_outbounds c w of (Inl e, w1) \<Rightarrow> (Inl e, w1) | (Inr l, w1) \<Rightarrow> (Inr (map h_tag l), w1))"

fun remove_kind :: "'w client \<Rightarrow> kind \<Rightarrow> string \<Rightarrow> 'w call" where
  "remove_kind c KRouting = remove_rule c"
| "remove_kind c KInbound = remove_inbound c"
| "remove_kind c KOutbound = remove_outbound c"

fun remove_listed ::
    "(string \<Rightarrow> 'w call) \<Rightarrow> (string \<Rightarrow> bool) \<Rightarrow> string list \<Rightarrow> 'w \<Rightarrow> err option \<times> string list \<times> string list \<times> 'w" where
  "remove_listed rm isorphan [] w = (None, [], [], w)"
| "remove_listed rm isorphan (t # ts) w =
     (if \<not> isorphan t
      then let (x, gone, kept, w1) = remove_listed rm isorphan ts w in (x, gone, t # kept, w1)
      else case rm t w of
          (Some e, w1) \<Rightarrow> (Some e, [], [], w1)
        | (None, w1) \<Rightarrow>
            (let (x, gone, kept, w2) = remove_listed rm isorphan ts w1 in (x, t # gone, kept, w2)))"

text \<open>
  The result of \<^verbatim>\<open>RemoveOrphans\<close>: what was removed, the outbound tags left (\<open>None\<close> for nil) and the
  error.
\<close>

record orphans =
  or_removed :: "(kind \<times> string) list"
  or_outbounds :: "string list option"
  or_error :: "err option"

fun orphan_kinds ::
    "'w client \<Rightarrow> target \<Rightarrow> kind list \<Rightarrow> namespace list \<Rightarrow> kind list \<Rightarrow> orphans \<Rightarrow> 'w \<Rightarrow> orphans \<times> 'w" where
  "orphan_kinds c t kinds nss [] o1 w = (o1, w)"
| "orphan_kinds c t kinds nss (k # ks) o1 w =
     (if k \<notin> set kinds then orphan_kinds c t kinds nss ks o1 w
      else case list_tags c k w of
          (Inl e, w1) \<Rightarrow> (o1\<lparr>or_outbounds := None, or_error := Some e\<rparr>, w1)
        | (Inr tags, w1) \<Rightarrow>
            (case remove_listed (remove_kind c k) (orphan nss k (fixed_of t k)) tags w1 of
               (Some e, gone, kept, w2) \<Rightarrow>
                 (o1\<lparr>or_removed := or_removed o1 @ map (Pair k) gone, or_outbounds := None, or_error := Some e\<rparr>, w2)
             | (None, gone, kept, w2) \<Rightarrow>
                 orphan_kinds c t kinds nss ks
                   (o1\<lparr>or_removed := or_removed o1 @ map (Pair k) gone,
                       or_outbounds := (if k = KOutbound then Some kept else or_outbounds o1)\<rparr>) w2))"

definition remove_orphans ::
    "'w client \<Rightarrow> target \<Rightarrow> kind list \<Rightarrow> namespace list \<Rightarrow> 'w \<Rightarrow> orphans \<times> 'w" where
  "remove_orphans c t kinds nss w =
     orphan_kinds c t kinds nss [KRouting, KInbound, KOutbound]
       \<lparr>or_removed = [], or_outbounds = None, or_error = None\<rparr> w"

section \<open>Lemmas: the cap\<close>

definition owned_now :: "('w \<Rightarrow> string \<Rightarrow> handler option) \<Rightarrow> string list \<Rightarrow> namespace \<Rightarrow> 'w \<Rightarrow> string set" where
  "owned_now obs fixed n w = {t \<in> dom (obs w). replaceable fixed (owns n) KOutbound t}"

definition within_caps :: "('w \<Rightarrow> string \<Rightarrow> handler option) \<Rightarrow> target \<Rightarrow> source list \<Rightarrow> 'w \<Rightarrow> bool" where
  "within_caps obs t srcs w \<longleftrightarrow>
     (\<forall>s \<in> set srcs. s_max_active s > 0 \<longrightarrow>
        int (card (owned_now obs (t_fixed_outbounds t) (source_ns t (s_id s)) w)) \<le> s_max_active s)"

lemma cap_limits_set:
  "(n, l) \<in> set (cap_limits t srcs) \<longleftrightarrow>
   (\<exists>s \<in> set srcs. s_max_active s > 0 \<and> n = source_ns t (s_id s) \<and> l = s_max_active s)"
  by (auto simp: cap_limits_def)

lemma capped_sel [simp]:
  "list_outbounds (capped c t srcs) = list_outbounds c" "remove_outbound (capped c t srcs) = remove_outbound c"
  "list_inbounds (capped c t srcs) = list_inbounds c" "add_inbound (capped c t srcs) = add_inbound c"
  "remove_inbound (capped c t srcs) = remove_inbound c" "list_rules (capped c t srcs) = list_rules c"
  "add_rule (capped c t srcs) = add_rule c" "remove_rule (capped c t srcs) = remove_rule c"
  "get_balancer_info (capped c t srcs) = get_balancer_info c"
  "get_outbound_status (capped c t srcs) = get_outbound_status c"
  by (simp_all add: capped_def)

context xray_api
begin

lemma capped_checks_same:
  "capped_checks c fixed ns h w = (x, w') \<Longrightarrow> obs w' = obs w \<and> same_rest w w'"
proof (induction ns arbitrary: w)
  case (Cons p ns)
  obtain n limit where p: "p = (n, limit)" by fastforce
  show ?case
  proof (cases "owns n KOutbound (h_tag h)")
    case False
    then show ?thesis using Cons p by simp
  next
    case True
    obtain y w1 where cc: "check_cap c fixed (owns n) limit w = (y, w1)" by fastforce
    note s = check_cap_same [OF cc]
    show ?thesis
    proof (cases y)
      case (Some e)
      then show ?thesis using Cons.prems True p cc s by simp
    next
      case None
      then have "capped_checks c fixed ns h w1 = (x, w')" using Cons.prems True p cc by simp
      from Cons.IH [OF this] s show ?thesis using same_rest_trans by auto
    qed
  qed
qed simp

lemma capped_checks_below:
  "capped_checks c fixed ns h w = (None, w') \<Longrightarrow> (n, limit) \<in> set ns \<Longrightarrow> owns n KOutbound (h_tag h) \<Longrightarrow>
   int (card (owned_now obs fixed n w)) < limit"
proof (induction ns arbitrary: w)
  case (Cons p ns)
  obtain n1 l1 where p: "p = (n1, l1)" by fastforce
  show ?case
  proof (cases "owns n1 KOutbound (h_tag h)")
    case False
    then show ?thesis using Cons p by auto
  next
    case True
    obtain y w1 where cc: "check_cap c fixed (owns n1) l1 w = (y, w1)" by fastforce
    have y: "y = None" and rec: "capped_checks c fixed ns h w1 = (None, w')"
      using Cons.prems(1) True p cc by (auto split: option.splits)
    have same: "owned_now obs fixed m w1 = owned_now obs fixed m w" for m
      using check_cap_same [OF cc] by (simp add: owned_now_def)
    show ?thesis
    proof (cases "(n, limit) = p")
      case True
      then show ?thesis using check_cap_ok [of fixed "owns n1" l1 w w1] cc y p by (simp add: owned_now_def)
    next
      case False
      then show ?thesis using Cons.IH [OF rec] Cons.prems(2,3) same by auto
    qed
  qed
qed simp

lemma capped_add_cases:
  assumes "add_outbound (capped c t srcs) h w = (x, w')"
  shows "same_rest w w' \<and>
    (x \<noteq> None \<and> obs w' = obs w \<or>
     obs w (h_tag h) = None \<and> obs w' = (obs w)(h_tag h \<mapsto> h) \<and>
     (\<forall>(n, limit) \<in> set (cap_limits t srcs). owns n KOutbound (h_tag h) \<longrightarrow>
        int (card (owned_now obs (t_fixed_outbounds t) n w)) < limit))"
proof (cases "cap_limits t srcs = []")
  case True
  then have "add_outbound c h w = (x, w')" using assms by (simp add: capped_def)
  then show ?thesis using add_outbound_cases add_outbound_rest True by auto
next
  case False
  let ?f = "t_fixed_outbounds t" and ?ns = "cap_limits t srcs"
  obtain y w1 where ch: "capped_checks c ?f ?ns h w = (y, w1)" by fastforce
  note s = capped_checks_same [OF ch]
  show ?thesis
  proof (cases y)
    case (Some e)
    then have "x = Some e" "w' = w1" using assms False ch by (auto simp: capped_def capped_add_def)
    then show ?thesis using s by simp
  next
    case None
    then have ad: "add_outbound c h w1 = (x, w')" using assms False ch by (simp add: capped_def capped_add_def)
    have "\<forall>(n, limit) \<in> set ?ns. owns n KOutbound (h_tag h) \<longrightarrow> int (card (owned_now obs ?f n w)) < limit"
      using capped_checks_below [of ?f ?ns h w w1] ch None by auto
    then show ?thesis
      using s add_outbound_cases [OF ad] add_outbound_rest [OF ad] same_rest_trans by auto
  qed
qed

lemma capped_add_ok:
  assumes "add_outbound (capped c t srcs) h w = (None, w')"
  shows "obs w (h_tag h) = None \<and> obs w' = (obs w)(h_tag h \<mapsto> h)"
  using capped_add_cases [OF assms] by blast

text \<open>The capped client has the laws of the client it wraps.\<close>

lemma capped_api: "xray_api (capped c t srcs) obs ibs rls"
proof (unfold_locales; (unfold capped_sel)?)
  fix h w w' assume "add_outbound (capped c t srcs) h w = (None, w')"
  then show "obs w (h_tag h) = None \<and> obs w' = (obs w)(h_tag h \<mapsto> h)" by (rule capped_add_ok)
next
  fix h w e w' assume "add_outbound (capped c t srcs) h w = (Some e, w')"
  then show "obs w' = obs w \<or> obs w (h_tag h) = None \<and> obs w' = (obs w)(h_tag h \<mapsto> h)"
    using capped_add_cases by blast
next
  fix h w x w' assume "add_outbound (capped c t srcs) h w = (x, w')"
  then show "ibs w' = ibs w \<and> rls w' = rls w" using capped_add_cases by (simp add: same_rest_def)
qed (fact list_outbounds_ok list_outbounds_frame remove_outbound_ok remove_outbound_err remove_outbound_frame
    list_inbounds_ok list_inbounds_frame add_inbound_ok add_inbound_err add_inbound_frame remove_inbound_ok
    remove_inbound_err remove_inbound_frame list_rules_ok list_rules_frame add_rule_ok add_rule_err
    add_rule_frame remove_rule_ok remove_rule_err remove_rule_frame get_balancer_info_frame
    get_outbound_status_frame)+

lemma capped_step:
  assumes "xray_step (capped c t srcs) w w'" and "within_caps obs t srcs w"
  shows "within_caps obs t srcs w'"
proof -
  have change: "within_caps obs t srcs w'" if "obs w' = obs w \<or> (\<exists>u. obs w' = (obs w)(u := None))"
    using that
  proof
    assume "obs w' = obs w"
    then show ?thesis using assms(2) by (simp add: within_caps_def owned_now_def)
  next
    assume "\<exists>u. obs w' = (obs w)(u := None)"
    then obtain u where u: "obs w' = (obs w)(u := None)" by blast
    have "owned_now obs f n w' = owned_now obs f n w - {u}" for f n
      by (auto simp: owned_now_def u)
    then have "card (owned_now obs f n w') \<le> card (owned_now obs f n w)" for f n
      by (simp add: card_Diff1_le)
    then show ?thesis using assms(2) unfolding within_caps_def by (meson of_nat_mono order_trans)
  qed
  from assms(1) show ?thesis
  proof (cases rule: xray_step.cases)
    case (step_add_outbound h x)
    from capped_add_cases [OF this] show ?thesis
    proof (elim conjE disjE)
      assume "obs w' = obs w" then show ?thesis using change by blast
    next
      assume new: "obs w' = (obs w)(h_tag h \<mapsto> h)"
        and below: "\<forall>(n, limit) \<in> set (cap_limits t srcs). owns n KOutbound (h_tag h) \<longrightarrow>
          int (card (owned_now obs (t_fixed_outbounds t) n w)) < limit"
      show ?thesis
        unfolding within_caps_def
      proof (intro ballI impI)
        fix s assume s: "s \<in> set srcs" "s_max_active s > 0"
        let ?n = "source_ns t (s_id s)" and ?f = "t_fixed_outbounds t"
        have old: "int (card (owned_now obs ?f ?n w)) \<le> s_max_active s"
          using assms(2) s by (simp add: within_caps_def)
        show "int (card (owned_now obs ?f ?n w')) \<le> s_max_active s"
        proof (cases "owns ?n KOutbound (h_tag h)")
          case True
          have "owned_now obs ?f ?n w' \<subseteq> insert (h_tag h) (owned_now obs ?f ?n w)"
            and sub: "owned_now obs ?f ?n w \<subseteq> owned_now obs ?f ?n w'"
            by (auto simp: owned_now_def new split: if_splits)
          then have "owned_now obs ?f ?n w' = owned_now obs ?f ?n w \<or>
              owned_now obs ?f ?n w' = insert (h_tag h) (owned_now obs ?f ?n w)" by blast
          moreover have "card (insert (h_tag h) (owned_now obs ?f ?n w)) \<le> Suc (card (owned_now obs ?f ?n w))"
            by (cases "finite (owned_now obs ?f ?n w)") (simp_all add: card_insert_if)
          moreover have "int (card (owned_now obs ?f ?n w)) < s_max_active s"
            using below s True cap_limits_set by blast
          ultimately show ?thesis using old by auto
        next
          case False
          then have "owned_now obs ?f ?n w' = owned_now obs ?f ?n w"
            by (auto simp: owned_now_def new replaceable_def split: if_splits)
          then show ?thesis using old by simp
        qed
      qed
    qed
  next
    case (step_list_outbounds r) then show ?thesis using change list_outbounds_frame by (metis capped_sel(1))
  next
    case (step_remove_outbound u x) then show ?thesis using change remove_outbound_cases by (metis capped_sel(2))
  next
    case (step_list_inbounds r) then show ?thesis using change list_inbounds_frame by (metis capped_sel(3))
  next
    case (step_add_inbound h x) then show ?thesis using change add_inbound_frame by (metis capped_sel(4))
  next
    case (step_remove_inbound u x) then show ?thesis using change remove_inbound_frame by (metis capped_sel(5))
  next
    case (step_list_rules q) then show ?thesis using change list_rules_frame by (metis capped_sel(6))
  next
    case (step_add_rule ru x) then show ?thesis using change add_rule_frame by (metis capped_sel(7))
  next
    case (step_remove_rule u x) then show ?thesis using change remove_rule_frame by (metis capped_sel(8))
  next
    case (step_balancer u b) then show ?thesis using change get_balancer_info_frame by (metis capped_sel(9))
  next
    case (step_status s) then show ?thesis using change get_outbound_status_frame by (metis capped_sel(10))
  qed
qed

lemma capped_run:
  "xray_run (capped c t srcs) w w' \<Longrightarrow> within_caps obs t srcs w \<Longrightarrow> within_caps obs t srcs w'"
  unfolding xray_run_def by (induction rule: rtranclp_induct) (auto intro: capped_step)

end

section \<open>Lemmas: tunnels\<close>

text \<open>The rules of other tags.\<close>

definition other_rules :: "string \<Rightarrow> rule list \<Rightarrow> rule list" where
  "other_rules tag qs = filter (\<lambda>q. rl_ruletag q \<noteq> tag) qs"

lemma other_rules_simps [simp]:
  "other_rules tag (a @ b) = other_rules tag a @ other_rules tag b"
  "other_rules tag [q] = (if rl_ruletag q = tag then [] else [q])"
  "other_rules tag (filter (\<lambda>q. rl_ruletag q \<noteq> tag) qs) = other_rules tag qs"
  by (simp_all add: other_rules_def)

text \<open>A tunnel's handlers carry its tags.\<close>

definition tunnel_protos :: "(spec \<Rightarrow> err + handler) \<Rightarrow> (tunnel \<Rightarrow> err + handler) \<Rightarrow> tunnel \<Rightarrow> bool" where
  "tunnel_protos to_proto in_proto tn \<longleftrightarrow>
     (\<forall>h. to_proto (po_json (tn_out_initial tn)) = Inr h \<longrightarrow> h_tag h = tn_initial tn) \<and>
     (\<forall>h. in_proto tn = Inr h \<longrightarrow> h_tag h = tn_inbound tn)"

lemma tunnel_protosI:
  "proto_ok to_proto h_tag \<Longrightarrow> in_ok in_proto \<Longrightarrow> tunnel_wf t sid tn \<Longrightarrow> tunnel_protos to_proto in_proto tn"
  by (simp add: tunnel_protos_def proto_ok_def in_ok_def tunnel_wf_def)

lemma rule_tag_of_tunnel [simp]: "rl_ruletag (rule_of (tunnel_rule tn tag)) = tn_route tn"
  by (simp add: rule_of_def tunnel_rule_def)

context xray_api
begin

lemma remove_tags_spec:
  "remove_tags c ts w = (x, w') \<Longrightarrow>
   same_rest w w' \<and> (\<forall>t. obs w' t = obs w t \<or> obs w' t = None \<and> t \<in> set ts) \<and>
   (x = None \<longrightarrow> obs w' = (\<lambda>t. if t \<in> set ts then None else obs w t))"
proof (induction ts arbitrary: w)
  case (Cons t ts)
  obtain y w1 where rm: "remove_outbound c t w = (y, w1)" by fastforce
  note cs = remove_outbound_cases [OF rm] and rest = remove_outbound_rest [OF rm]
  show ?case
  proof (cases y)
    case (Some e)
    then show ?thesis using Cons.prems rm cs rest by (auto split: if_splits)
  next
    case None
    then have rec: "remove_tags c ts w1 = (x, w')" using Cons.prems rm by simp
    have o1: "obs w1 = (obs w)(t := None)" using cs None by simp
    have "same_rest w w'" using Cons.IH [OF rec] rest same_rest_trans by blast
    then show ?thesis using Cons.IH [OF rec] o1 by (auto intro!: ext split: if_splits)
  qed
qed auto

lemma remove_tunnel_spec:
  assumes "remove_tunnel c old w = (re, x, w')"
  shows "(\<forall>t. obs w' t = obs w t \<or> obs w' t = None \<and> t \<in> set (outbound_tags old)) \<and>
    (\<forall>t. ibs w' t = ibs w t \<or> ibs w' t = None \<and> t = tn_inbound old) \<and>
    other_rules (tn_route old) (rls w') = other_rules (tn_route old) (rls w) \<and>
    (x = None \<longrightarrow>
       obs w' = (\<lambda>t. if t \<in> set (outbound_tags old) then None else obs w t) \<and>
       ibs w' = (ibs w)(tn_inbound old := None) \<and>
       (re = None \<longrightarrow> rls w' = other_rules (tn_route old) (rls w)))"
proof -
  obtain w1 where rr: "remove_rule c (tn_route old) w = (re, w1)"
    using assms by (auto simp: remove_tunnel_def split: prod.splits option.splits)
  obtain y w2 where rt: "remove_tags c (outbound_tags old) w1 = (y, w2)" by fastforce
  have fr: "obs w1 = obs w" "ibs w1 = ibs w" using remove_rule_frame [OF rr] by auto
  have rl: "other_rules (tn_route old) (rls w1) = other_rules (tn_route old) (rls w)"
    "re = None \<longrightarrow> rls w1 = other_rules (tn_route old) (rls w)"
    using remove_rule_cases [OF rr] by (auto simp: other_rules_def)
  note sp = remove_tags_spec [OF rt]
  have fr2: "ibs w2 = ibs w1" "rls w2 = rls w1" using sp by (simp_all add: same_rest_def)
  show ?thesis
  proof (cases y)
    case (Some e)
    obtain z w3 where ad: "add_rule c (tunnel_rule old (tn_current old)) w2 = (z, w3)" by fastforce
    have "w' = w3" "x \<noteq> None" using assms rr rt Some ad by (auto simp: remove_tunnel_def)
    then show ?thesis
      using add_rule_frame [OF ad] add_rule_cases [OF ad] sp fr fr2 rl by auto
  next
    case None
    obtain z w3 where ri: "remove_inbound c (tn_inbound old) w2 = (z, w3)" by fastforce
    have "w' = w3" "x = None \<longleftrightarrow> z = None"
      using assms rr rt None ri by (auto simp: remove_tunnel_def split: option.splits)
    then show ?thesis
      using remove_inbound_frame [OF ri] remove_inbound_cases [OF ri] sp fr fr2 rl None by (auto split: if_splits)
  qed
qed

text \<open>Adding the resources of a tunnel one after another; any outcome and the success.\<close>

lemma add_three:
  assumes "tunnel_protos to_proto in_proto new"
    and "to_proto (po_json (tn_out_initial new)) = Inr h" "in_proto new = Inr hin"
    and "add_outbound c h w = (x, w1)" "add_inbound c hin w1 = (y, w2)"
    and "add_rule c (tunnel_rule new (tn_initial new)) w2 = (z, w3)"
  shows "\<forall>t. t \<noteq> tn_initial new \<longrightarrow> obs w1 t = obs w t \<and> obs w2 t = obs w t \<and> obs w3 t = obs w t"
    and "\<forall>t. t \<noteq> tn_inbound new \<longrightarrow> ibs w1 t = ibs w t \<and> ibs w2 t = ibs w t \<and> ibs w3 t = ibs w t"
    and "\<forall>ws \<in> {w1, w2, w3}. other_rules (tn_route new) (rls ws) = other_rules (tn_route new) (rls w)"
    and "x = None \<and> y = None \<and> z = None \<longrightarrow>
      obs w (tn_initial new) = None \<and> obs w3 = (obs w)(tn_initial new \<mapsto> h) \<and>
      ibs w (tn_inbound new) = None \<and> ibs w3 = (ibs w)(tn_inbound new \<mapsto> hin) \<and>
      rls w3 = rls w @ [rule_of (tunnel_rule new (tn_initial new))]"
proof -
  have tags: "h_tag h = tn_initial new" "h_tag hin = tn_inbound new"
    using assms(1-3) by (simp_all add: tunnel_protos_def)
  note f = add_outbound_frame [OF assms(4)] add_inbound_frame [OF assms(5)] add_rule_frame [OF assms(6)]
    and k = add_outbound_cases [OF assms(4)] add_inbound_cases [OF assms(5)] add_rule_cases [OF assms(6)]
  show "\<forall>t. t \<noteq> tn_initial new \<longrightarrow> obs w1 t = obs w t \<and> obs w2 t = obs w t \<and> obs w3 t = obs w t"
    using f k(1) tags by auto
  show "\<forall>t. t \<noteq> tn_inbound new \<longrightarrow> ibs w1 t = ibs w t \<and> ibs w2 t = ibs w t \<and> ibs w3 t = ibs w t"
    using f k(2) tags by auto
  show "\<forall>ws \<in> {w1, w2, w3}. other_rules (tn_route new) (rls ws) = other_rules (tn_route new) (rls w)"
    using f k(3) by auto
  show "x = None \<and> y = None \<and> z = None \<longrightarrow>
      obs w (tn_initial new) = None \<and> obs w3 = (obs w)(tn_initial new \<mapsto> h) \<and>
      ibs w (tn_inbound new) = None \<and> ibs w3 = (ibs w)(tn_inbound new \<mapsto> hin) \<and>
      rls w3 = rls w @ [rule_of (tunnel_rule new (tn_initial new))]"
    using f k tags by auto
qed

end

context xray_api
begin

lemma add_tunnel_spec:
  assumes "tunnel_protos to_proto in_proto new" "add_tunnel c to_proto in_proto new w = (x, w')"
  shows "(\<forall>t. t \<noteq> tn_initial new \<longrightarrow> obs w' t = obs w t) \<and> (\<forall>t. t \<noteq> tn_inbound new \<longrightarrow> ibs w' t = ibs w t) \<and>
    other_rules (tn_route new) (rls w') = other_rules (tn_route new) (rls w) \<and>
    (x = None \<longrightarrow> (\<exists>h hin. to_proto (po_json (tn_out_initial new)) = Inr h \<and> in_proto new = Inr hin \<and>
       obs w (tn_initial new) = None \<and> obs w' = (obs w)(tn_initial new \<mapsto> h) \<and>
       ibs w (tn_inbound new) = None \<and> ibs w' = (ibs w)(tn_inbound new \<mapsto> hin) \<and>
       rls w' = rls w @ [rule_of (tunnel_rule new (tn_initial new))]))"
proof (cases "to_proto (po_json (tn_out_initial new))")
  case (Inl e)
  then show ?thesis using assms(2) by (auto simp: add_tunnel_def)
next
  case h: (Inr h)
  show ?thesis
  proof (cases "in_proto new")
    case (Inl e)
    then show ?thesis using assms(2) h by (auto simp: add_tunnel_def)
  next
    case hin: (Inr hin)
    obtain x1 w1 where a1: "add_outbound c h w = (x1, w1)" by fastforce
    obtain x2 w2 where a2: "add_inbound c hin w1 = (x2, w2)" by fastforce
    obtain x3 w3 where a3: "add_rule c (tunnel_rule new (tn_initial new)) w2 = (x3, w3)" by fastforce
    note three = add_three [OF assms(1) h hin a1 a2 a3]
    have undo: "\<forall>t. t \<noteq> tn_initial new \<longrightarrow> obs (snd (remove_outbound c (tn_initial new) v)) t = obs v t"
      "ibs (snd (remove_outbound c (tn_initial new) v)) = ibs v"
      "rls (snd (remove_outbound c (tn_initial new) v)) = rls v" for v
      using remove_outbound_cases [of "tn_initial new" v] remove_outbound_frame [of "tn_initial new" v]
      by (cases "remove_outbound c (tn_initial new) v"; auto)+
    show ?thesis
    proof (cases x1)
      case (Some e)
      then have "x = Some (ReplaceFailed e)" "w' = snd (remove_outbound c (tn_initial new) w1)"
        using assms(2) h hin a1 by (auto simp: add_tunnel_def)
      then show ?thesis using undo [of w1] three(1-3) add_outbound_frame [OF a1] by simp
    next
      case x1: None
      show ?thesis
      proof (cases x2)
        case (Some e)
        then have "x = Some (ReplaceFailed e)" "w' = snd (remove_outbound c (tn_initial new) w2)"
          using assms(2) h hin a1 x1 a2 by (auto simp: add_tunnel_def)
        then show ?thesis using undo [of w2] three(1-3) by simp
      next
        case x2: None
        show ?thesis
        proof (cases x3)
          case None
          then have "x = None" "w' = w3" using assms(2) h hin a1 x1 a2 x2 a3 by (auto simp: add_tunnel_def)
          then show ?thesis using three x1 x2 None h hin by auto
        next
          case (Some e)
          obtain y4 w4 where r4: "remove_rule c (tn_route new) w3 = (y4, w4)" by fastforce
          obtain y5 w5 where r5: "remove_inbound c (tn_inbound new) w4 = (y5, w5)" by fastforce
          have "x = Some (ReplaceFailed e)" "w' = snd (remove_outbound c (tn_initial new) w5)"
            using assms(2) h hin a1 x1 a2 x2 a3 Some r4 r5 by (auto simp: add_tunnel_def)
          moreover have "obs w5 = obs w3" "\<forall>t. t \<noteq> tn_inbound new \<longrightarrow> ibs w5 t = ibs w3 t"
            "other_rules (tn_route new) (rls w5) = other_rules (tn_route new) (rls w3)"
            using remove_rule_frame [OF r4] remove_rule_cases [OF r4] remove_inbound_frame [OF r5]
              remove_inbound_cases [OF r5] by auto
          ultimately show ?thesis using undo [of w5] three(1-3) by simp
        qed
      qed
    qed
  qed
qed

text \<open>The outcomes of a replacement.\<close>

lemma replace_tunnel_cases:
  assumes "replace_tunnel c to_proto in_proto old new w = (re, x, w')"
  obtains (refused) "w' = w" "x \<noteq> None"
    | (stuck) e where "remove_tunnel c old w = (re, Some e, w')" "x = Some e"
    | (added) h hin w1 x1 w2 x2 w3 x3 w4 where
        "to_proto (po_json (tn_out_initial new)) = Inr h" "in_proto new = Inr hin"
        "remove_tunnel c old w = (re, None, w1)" "add_outbound c h w1 = (x1, w2)"
        "add_inbound c hin w2 = (x2, w3)" "add_rule c (tunnel_rule new (tn_initial new)) w3 = (x3, w4)"
        "w' = (if x1 \<noteq> None then w2 else if x2 \<noteq> None then w3 else w4)"
        "x = None \<longleftrightarrow> x1 = None \<and> x2 = None \<and> x3 = None"
proof (cases "to_proto (po_json (tn_out_initial new))")
  case (Inl e)
  then show thesis using assms refused by (auto simp: replace_tunnel_def)
next
  case h: (Inr h)
  show thesis
  proof (cases "in_proto new")
    case (Inl e)
    then show thesis using assms h refused by (auto simp: replace_tunnel_def)
  next
    case hin: (Inr hin)
    obtain re1 y w1 where rm: "remove_tunnel c old w = (re1, y, w1)" by (metis prod_cases3)
    show thesis
    proof (cases y)
      case (Some e)
      then show thesis using assms h hin rm stuck by (auto simp: replace_tunnel_def)
    next
      case None
      obtain x1 w2 where a1: "add_outbound c h w1 = (x1, w2)" by fastforce
      obtain x2 w3 where a2: "add_inbound c hin w2 = (x2, w3)" by fastforce
      obtain x3 w4 where a3: "add_rule c (tunnel_rule new (tn_initial new)) w3 = (x3, w4)" by fastforce
      show thesis
        using assms h hin rm None a1 a2 a3 added [OF h hin _ a1 a2 a3]
        by (cases x1; cases x2; cases x3) (auto simp: replace_tunnel_def)
    qed
  qed
qed

lemma replace_tunnel_spec:
  assumes "tunnel_protos to_proto in_proto new" "replace_tunnel c to_proto in_proto old new w = (re, x, w')"
  shows "(\<forall>t. t \<noteq> tn_initial new \<longrightarrow> obs w' t = obs w t \<or> obs w' t = None \<and> t \<in> set (outbound_tags old)) \<and>
    (obs w' = obs w \<or> (\<forall>t. obs w' t \<noteq> None \<longrightarrow> obs w t \<noteq> None) \<or>
     (\<forall>t \<in> set (outbound_tags old) - {tn_initial new}. obs w' t = None)) \<and>
    (x = None \<longrightarrow> (\<exists>h hin. to_proto (po_json (tn_out_initial new)) = Inr h \<and> in_proto new = Inr hin \<and>
       obs w' = (\<lambda>t. if t = tn_initial new then Some h else if t \<in> set (outbound_tags old) then None else obs w t) \<and>
       ibs w' = (\<lambda>t. if t = tn_inbound new then Some hin else if t = tn_inbound old then None else ibs w t) \<and>
       (re = None \<longrightarrow> rls w' = other_rules (tn_route old) (rls w) @ [rule_of (tunnel_rule new (tn_initial new))])))"
  using assms(2)
proof (cases rule: replace_tunnel_cases)
  case refused
  then show ?thesis by auto
next
  case (stuck e)
  have "obs w' t = obs w t \<or> obs w' t = None \<and> t \<in> set (outbound_tags old)" for t
    using remove_tunnel_spec [OF stuck(1)] by blast
  then have "\<forall>t. obs w' t = obs w t \<or> obs w' t = None \<and> t \<in> set (outbound_tags old)" by blast
  then show ?thesis using stuck(2) by (metis option.distinct(1))
next
  case (added h hin w1 x1 w2 x2 w3 x3 w4)
  note rm = remove_tunnel_spec [OF added(3)]
    and three = add_three [OF assms(1) added(1,2) added(4-6)]
  have o1: "obs w1 = (\<lambda>t. if t \<in> set (outbound_tags old) then None else obs w t)" using rm by blast
  have o': "\<forall>t. t \<noteq> tn_initial new \<longrightarrow> obs w' t = obs w1 t" using three(1) added(7) by auto
  have gone: "\<forall>t \<in> set (outbound_tags old) - {tn_initial new}. obs w' t = None" using o1 o' by auto
  have other: "\<forall>t. t \<noteq> tn_initial new \<longrightarrow> obs w' t = obs w t \<or> obs w' t = None \<and> t \<in> set (outbound_tags old)"
    using o1 o' by auto
  have success: "obs w' = (\<lambda>t. if t = tn_initial new then Some h else if t \<in> set (outbound_tags old) then None else obs w t)"
    "ibs w' = (\<lambda>t. if t = tn_inbound new then Some hin else if t = tn_inbound old then None else ibs w t)"
    "re = None \<longrightarrow> rls w' = other_rules (tn_route old) (rls w) @ [rule_of (tunnel_rule new (tn_initial new))]"
    if "x = None"
  proof -
    have "w' = w4" "x1 = None" "x2 = None" "x3 = None" using that added(7,8) by auto
    then show "obs w' = (\<lambda>t. if t = tn_initial new then Some h else if t \<in> set (outbound_tags old) then None else obs w t)"
      "ibs w' = (\<lambda>t. if t = tn_inbound new then Some hin else if t = tn_inbound old then None else ibs w t)"
      "re = None \<longrightarrow> rls w' = other_rules (tn_route old) (rls w) @ [rule_of (tunnel_rule new (tn_initial new))]"
      using three(4) rm o1 by (auto simp: fun_eq_iff)
  qed
  show ?thesis using gone other success added(1,2) by blast
qed

end
section \<open>Lemmas: orphans\<close>

text \<open>The tags Xray holds of a kind, and "the resources of that kind with a tag in \<open>keep\<close> are the same".\<close>

fun held ::
    "('w \<Rightarrow> string \<Rightarrow> handler option) \<Rightarrow> ('w \<Rightarrow> string \<Rightarrow> handler option) \<Rightarrow> ('w \<Rightarrow> rule list) \<Rightarrow> kind \<Rightarrow> 'w \<Rightarrow> string set" where
  "held obs ibs rls KOutbound w = dom (obs w)"
| "held obs ibs rls KInbound w = dom (ibs w)"
| "held obs ibs rls KRouting w = rl_ruletag ` set (rls w)"

fun same_on ::
    "('w \<Rightarrow> string \<Rightarrow> handler option) \<Rightarrow> ('w \<Rightarrow> string \<Rightarrow> handler option) \<Rightarrow> ('w \<Rightarrow> rule list) \<Rightarrow> kind \<Rightarrow>
     (string \<Rightarrow> bool) \<Rightarrow> 'w \<Rightarrow> 'w \<Rightarrow> bool" where
  "same_on obs ibs rls KOutbound keep w w' = (\<forall>t. keep t \<longrightarrow> obs w' t = obs w t)"
| "same_on obs ibs rls KInbound keep w w' = (\<forall>t. keep t \<longrightarrow> ibs w' t = ibs w t)"
| "same_on obs ibs rls KRouting keep w w' =
     (filter (\<lambda>q. keep (rl_ruletag q)) (rls w') = filter (\<lambda>q. keep (rl_ruletag q)) (rls w))"

lemma same_on_refl [simp]: "same_on obs ibs rls k keep w w"
  by (cases k) simp_all

lemma same_on_trans:
  "same_on obs ibs rls k keep w1 w2 \<Longrightarrow> same_on obs ibs rls k keep w2 w3 \<Longrightarrow> same_on obs ibs rls k keep w1 w3"
  by (cases k) simp_all

lemma same_on_mono:
  "same_on obs ibs rls k keep w w' \<Longrightarrow> (\<And>t. keep' t \<Longrightarrow> keep t) \<Longrightarrow> same_on obs ibs rls k keep' w w'"
proof (cases k)
  case KRouting
  assume a: "same_on obs ibs rls k keep w w'" and b: "\<And>t. keep' t \<Longrightarrow> keep t"
  have "filter (\<lambda>q. keep' (rl_ruletag q)) qs =
      filter (\<lambda>q. keep' (rl_ruletag q)) (filter (\<lambda>q. keep (rl_ruletag q)) qs)" for qs
    using b by (induction qs) auto
  then show ?thesis using a KRouting by (metis same_on.simps(3))
qed auto

lemma same_on_held:
  "same_on obs ibs rls k (\<lambda>_. True) w w' \<Longrightarrow> held obs ibs rls k w' = held obs ibs rls k w"
  by (cases k) (simp_all add: dom_def)

context xray_api
begin

abbreviation "heldx \<equiv> held obs ibs rls"
abbreviation "samex \<equiv> same_on obs ibs rls"

lemma list_tags_spec:
  assumes "list_tags c k w = (r, w')"
  shows "samex k' keep w w' \<and> (\<forall>l. r = Inr l \<longrightarrow> set l = heldx k w)"
proof (cases k)
  case KOutbound
  then obtain q where "list_outbounds c w = (q, w')" "\<forall>l. r = Inr l \<longrightarrow> (\<exists>l'. q = Inr l' \<and> l = map h_tag l')"
    using assms by (auto split: prod.splits sum.splits)
  then show ?thesis using list_outbounds_frame outbound_tags KOutbound by (cases k') auto
next
  case KInbound
  then obtain q where "list_inbounds c w = (q, w')" "\<forall>l. r = Inr l \<longrightarrow> (\<exists>l'. q = Inr l' \<and> l = map h_tag l')"
    using assms by (auto split: prod.splits sum.splits)
  then show ?thesis using list_inbounds_frame inbound_tags KInbound by (cases k') auto
next
  case KRouting
  then obtain q where "list_rules c w = (q, w')" "\<forall>l. r = Inr l \<longrightarrow> (\<exists>l'. q = Inr l' \<and> l = map rl_ruletag l')"
    using assms by (auto split: prod.splits sum.splits)
  then show ?thesis using list_rules_frame list_rules_ok KRouting by (cases k') auto
qed

lemma remove_kind_spec:
  assumes "remove_kind c k t w = (x, w')"
  shows "samex k' (\<lambda>u. k' \<noteq> k \<or> u \<noteq> t) w w' \<and> heldx k w' \<subseteq> heldx k w \<and>
    (x = None \<longrightarrow> heldx k w' = heldx k w - {t})"
proof (cases k)
  case KOutbound
  then have "remove_outbound c t w = (x, w')" using assms by simp
  from remove_outbound_cases [OF this] remove_outbound_frame [OF this] KOutbound
  show ?thesis by (cases k') (auto split: if_splits)
next
  case KInbound
  then have "remove_inbound c t w = (x, w')" using assms by simp
  from remove_inbound_cases [OF this] remove_inbound_frame [OF this] KInbound
  show ?thesis by (cases k') (auto split: if_splits)
next
  case KRouting
  then have "remove_rule c t w = (x, w')" using assms by simp
  from remove_rule_cases [OF this] remove_rule_frame [OF this] KRouting
  show ?thesis by (cases k') auto
qed

lemma remove_listed_spec:
  "remove_listed (remove_kind c k) is_orphan ts w = (x, gone, kept, w') \<Longrightarrow>
   samex k' (\<lambda>u. k' \<noteq> k \<or> \<not> is_orphan u) w w' \<and> set gone \<subseteq> {t \<in> set ts. is_orphan t} \<and>
   heldx k w' \<subseteq> heldx k w \<and>
   (x = None \<longrightarrow> gone = filter is_orphan ts \<and> kept = filter (\<lambda>t. \<not> is_orphan t) ts \<and>
      heldx k w' = heldx k w - set gone)"
proof (induction ts arbitrary: w x gone kept w')
  case (Cons t ts)
  show ?case
  proof (cases "is_orphan t")
    case False
    obtain x1 g1 k1 w1 where r: "remove_listed (remove_kind c k) is_orphan ts w = (x1, g1, k1, w1)"
      by (metis prod_cases4)
    then show ?thesis using Cons.IH [OF r] Cons.prems False by auto
  next
    case True
    obtain y w1 where rm: "remove_kind c k t w = (y, w1)" by fastforce
    note sp = remove_kind_spec [OF rm]
    have one: "samex k' (\<lambda>u. k' \<noteq> k \<or> \<not> is_orphan u) w w1"
      using sp [of k'] True by (auto elim!: same_on_mono)
    show ?thesis
    proof (cases y)
      case (Some e)
      then show ?thesis using Cons.prems True rm one sp by auto
    next
      case None
      obtain x1 g1 k1 w2 where r: "remove_listed (remove_kind c k) is_orphan ts w1 = (x1, g1, k1, w2)"
        by (metis prod_cases4)
      have res: "x = x1" "gone = t # g1" "kept = k1" "w' = w2"
        using Cons.prems True rm None r by auto
      note ih = Cons.IH [OF r]
      have "samex k' (\<lambda>u. k' \<noteq> k \<or> \<not> is_orphan u) w w'"
        using same_on_trans [OF one] ih res by simp
      moreover have "heldx k w1 = heldx k w - {t}" using sp None by simp
      ultimately show ?thesis using ih res True by auto
    qed
  qed
qed simp

lemma orphan_kinds_spec:
  "orphan_kinds c t kinds nss ks o1 w = (o2, w') \<Longrightarrow> distinct ks \<Longrightarrow> or_error o1 = None \<Longrightarrow>
   samex k (\<lambda>u. k \<notin> set ks \<inter> set kinds \<or> \<not> orphan nss k (fixed_of t k) u) w w' \<and>
   set (or_removed o2) \<subseteq>
     set (or_removed o1) \<union> {(k, u). k \<in> set ks \<inter> set kinds \<and> orphan nss k (fixed_of t k) u} \<and>
   (or_error o2 \<noteq> None \<longrightarrow> or_outbounds o2 = None) \<and>
   (or_error o2 = None \<longrightarrow>
     (k \<in> set ks \<inter> set kinds \<longrightarrow> heldx k w' = {u \<in> heldx k w. \<not> orphan nss k (fixed_of t k) u}) \<and>
     set (or_removed o2) = set (or_removed o1) \<union>
       {(k, u). k \<in> set ks \<inter> set kinds \<and> u \<in> heldx k w \<and> orphan nss k (fixed_of t k) u} \<and>
     map_option set (or_outbounds o2) =
       (if KOutbound \<in> set ks \<inter> set kinds then Some (heldx KOutbound w') else map_option set (or_outbounds o1)))"
proof (induction ks arbitrary: o1 w k)
  case Nil
  then show ?case by simp
next
  case (Cons k1 ks)
  let ?orph = "\<lambda>k. orphan nss k (fixed_of t k)"
  show ?case
  proof (cases "k1 \<in> set kinds")
    case False
    then have r: "orphan_kinds c t kinds nss ks o1 w = (o2, w')" using Cons.prems(1) by simp
    have s: "set (k1 # ks) \<inter> set kinds = set ks \<inter> set kinds" using False by auto
    show ?thesis unfolding s using Cons.IH [OF r, of k] Cons.prems(2,3) by simp
  next
    case True
    obtain lr w1 where lt: "list_tags c k1 w = (lr, w1)" by fastforce
    note ls = list_tags_spec [OF lt]
    have same1: "samex k keep w w1" for k keep using ls by blast
    have held1: "heldx k w1 = heldx k w" for k by (rule same_on_held [OF same1])
    show ?thesis
    proof (cases lr)
      case (Inl e)
      then show ?thesis using Cons.prems True lt same1 by auto
    next
      case (Inr tags)
      have tags: "set tags = heldx k1 w" using ls Inr by blast
      obtain x gone kept w2 where rl:
        "remove_listed (remove_kind c k1) (?orph k1) tags w1 = (x, gone, kept, w2)" by (metis prod_cases4)
      note rs = remove_listed_spec [OF rl]
      have same2: "samex k (\<lambda>u. k \<notin> set (k1 # ks) \<inter> set kinds \<or> \<not> ?orph k u) w w2" for k
        proof -
        have "samex k (\<lambda>u. k \<noteq> k1 \<or> \<not> ?orph k1 u) w w2"
          using same_on_trans [OF same1] rs [of k] by blast
        then show ?thesis by (rule same_on_mono) (use True in auto)
      qed
      show ?thesis
      proof (cases x)
        case (Some e)
        then have "w' = w2" "or_removed o2 = or_removed o1 @ map (Pair k1) gone" "or_outbounds o2 = None" "or_error o2 = Some e"
          using Cons.prems True lt Inr rl by auto
        then show ?thesis using same2 rs [of k] True by auto
      next
        case None
        define o1' where "o1' = o1\<lparr>or_removed := or_removed o1 @ map (Pair k1) gone,
          or_outbounds := (if k1 = KOutbound then Some kept else or_outbounds o1)\<rparr>"
        have r: "orphan_kinds c t kinds nss ks o1' w2 = (o2, w')"
          using Cons.prems True lt Inr rl None by (simp add: o1'_def)
        have o1': "or_error o1' = None" "or_removed o1' = or_removed o1 @ map (Pair k1) gone"
          "or_outbounds o1' = (if k1 = KOutbound then Some kept else or_outbounds o1)"
          using Cons.prems(3) by (simp_all add: o1'_def)
        have k1: "k1 \<notin> set ks" "distinct ks" using Cons.prems(2) by simp_all
        note ih = Cons.IH [OF r k1(2) o1'(1)]
        have gone: "set gone = {u \<in> heldx k1 w. ?orph k1 u}" "set kept = {u \<in> heldx k1 w. \<not> ?orph k1 u}"
          "heldx k1 w2 = {u \<in> heldx k1 w. \<not> ?orph k1 u}"
          using rs [of k1] None tags held1 [of k1] by auto
        have other: "heldx k w2 = heldx k w" if "k \<noteq> k1" for k
        proof -
          have "samex k (\<lambda>_. True) w w2"
            using same_on_trans [OF same1] rs [of k] that by (auto elim!: same_on_mono)
          then show ?thesis by (rule same_on_held)
        qed
        have after: "heldx k1 w' = heldx k1 w2"
          using ih [of k1] k1(1) by (intro same_on_held) (auto elim!: same_on_mono)
        have same: "samex k (\<lambda>u. k \<notin> set (k1 # ks) \<inter> set kinds \<or> \<not> ?orph k u) w w'"
          using same_on_trans [OF same2 same_on_mono] ih [of k] by auto
        have pairs: "set (or_removed o1') = set (or_removed o1) \<union> {(k, u). k = k1 \<and> u \<in> heldx k w \<and> ?orph k u}"
          using gone(1) o1'(2) by auto
        have rest: "{(k, u). k \<in> set ks \<inter> set kinds \<and> u \<in> heldx k w2 \<and> ?orph k u} =
            {(k, u). k \<in> set ks \<inter> set kinds \<and> u \<in> heldx k w \<and> ?orph k u}"
          proof (intro set_eqI, clarsimp)
            fix a b
            show "(a \<in> set ks \<and> a \<in> set kinds \<and> b \<in> heldx a w2 \<and> ?orph a b) =
              (a \<in> set ks \<and> a \<in> set kinds \<and> b \<in> heldx a w \<and> ?orph a b)"
              using other [of a] k1(1) by (cases "a = k1") simp_all
          qed
        have kept: "or_error o2 = None \<longrightarrow>
            (k \<in> set (k1 # ks) \<inter> set kinds \<longrightarrow> heldx k w' = {u \<in> heldx k w. \<not> ?orph k u})"
          using ih [of k] gone(3) after other [of k] k1(1) by (cases "k = k1") auto
        have removed: "or_error o2 = None \<longrightarrow> set (or_removed o2) = set (or_removed o1) \<union>
            {(k, u). k \<in> set (k1 # ks) \<inter> set kinds \<and> u \<in> heldx k w \<and> ?orph k u}"
          using ih [of k] pairs rest True by auto
        have some: "set (or_removed o2) \<subseteq>
            set (or_removed o1) \<union> {(k, u). k \<in> set (k1 # ks) \<inter> set kinds \<and> ?orph k u}"
          using ih [of k] pairs True by auto
        have outs: "or_error o2 = None \<longrightarrow> map_option set (or_outbounds o2) =
            (if KOutbound \<in> set (k1 # ks) \<inter> set kinds then Some (heldx KOutbound w') else map_option set (or_outbounds o1))"
          using ih [of k] gone after o1'(3) True k1(1) by (cases "k1 = KOutbound") auto
        have err: "or_error o2 \<noteq> None \<longrightarrow> or_outbounds o2 = None" using ih [of k] by simp
        show ?thesis using same some err kept removed outs by simp
      qed
    qed
  qed
qed

lemma remove_orphans_spec:
  assumes "remove_orphans c t kinds nss w = (o2, w')"
  shows "samex k (\<lambda>u. k \<notin> set kinds \<or> \<not> orphan nss k (fixed_of t k) u) w w' \<and>
    set (or_removed o2) \<subseteq> {(k, u). k \<in> set kinds \<and> orphan nss k (fixed_of t k) u} \<and>
    (or_error o2 = None \<longrightarrow>
      (k \<in> set kinds \<longrightarrow> heldx k w' = {u \<in> heldx k w. \<not> orphan nss k (fixed_of t k) u}) \<and>
      set (or_removed o2) = {(k, u). k \<in> set kinds \<and> u \<in> heldx k w \<and> orphan nss k (fixed_of t k) u} \<and>
      map_option set (or_outbounds o2) = (if KOutbound \<in> set kinds then Some (dom (obs w')) else None))"
proof -
  have all: "k \<in> set [KRouting, KInbound, KOutbound]" for k by (cases k) auto
  then have s: "set [KRouting, KInbound, KOutbound] \<inter> set kinds = set kinds" by blast
  show ?thesis
    using orphan_kinds_spec [OF assms [unfolded remove_orphans_def], unfolded s, of k] by simp
qed

end
section \<open>Lemmas: the size of a source\<close>

context xray_api
begin

lemma replace_tunnel_card:
  assumes "tunnel_protos to_proto in_proto new" "replace_tunnel c to_proto in_proto old new w = (re, x, w')"
    and "finite (dom (obs w))" "tn_current old \<in> owned_now obs fixed n w"
  shows "card (owned_now obs fixed n w') \<le> card (owned_now obs fixed n w)"
proof -
  let ?o = "owned_now obs fixed n"
  note sp = replace_tunnel_spec [OF assms(1,2)]
  have fin: "finite (?o w)" using assms(3) by (simp add: owned_now_def)
  have cur: "tn_current old \<in> set (outbound_tags old)" by (auto simp: outbound_tags_def Let_def)
  from sp have "obs w' = obs w \<or> (\<forall>t. obs w' t \<noteq> None \<longrightarrow> obs w t \<noteq> None) \<or>
     (\<forall>t \<in> set (outbound_tags old) - {tn_initial new}. obs w' t = None)" by blast
  then show ?thesis
  proof (elim disjE)
    assume "obs w' = obs w"
    then show ?thesis by (simp add: owned_now_def)
  next
    assume "\<forall>t. obs w' t \<noteq> None \<longrightarrow> obs w t \<noteq> None"
    then have "?o w' \<subseteq> ?o w" by (force simp: owned_now_def)
    then show ?thesis by (rule card_mono [OF fin])
  next
    assume gone: "\<forall>t \<in> set (outbound_tags old) - {tn_initial new}. obs w' t = None"
    have other: "obs w t \<noteq> None" if "t \<noteq> tn_initial new" "obs w' t \<noteq> None" for t using sp that by metis
    have "?o w' \<subseteq> insert (tn_initial new) (?o w - {tn_current old})"
    proof
      fix t assume t: "t \<in> ?o w'"
      show "t \<in> insert (tn_initial new) (?o w - {tn_current old})"
      proof (cases "t = tn_initial new")
        case False
        then have "t \<noteq> tn_current old" using t gone cur by (auto simp: owned_now_def)
        then show ?thesis using other [OF False] t by (auto simp: owned_now_def)
      qed simp
    qed
    then have "card (?o w') \<le> card (insert (tn_initial new) (?o w - {tn_current old}))"
      using fin by (intro card_mono) auto
    also have "\<dots> \<le> Suc (card (?o w - {tn_current old}))" by (rule card_insert_le_m1) simp_all
    also have "\<dots> = card (?o w)" using fin assms(4) by (metis card_Suc_Diff1)
    finally show ?thesis .
  qed
qed

end

lemma fold_removed:
  "fold (\<lambda>tn. note_removed (f tn)) gone r =
     r\<lparr>ar_removed := ar_removed r + length gone, ar_deleted := ar_deleted r @ map f gone,
       ar_items := ar_items r @ map (\<lambda>tn. \<lparr>it_id = f tn, it_status = SRemoved, it_message = ''''\<rparr>) gone\<rparr>"
  by (induction gone arbitrary: r) (simp_all add: note_removed_def add_item_def)

lemma fold_added:
  "fold (\<lambda>tn. note_added False (f tn)) fresh r =
     r\<lparr>ar_added := ar_added r + length fresh, ar_applied := ar_applied r @ map f fresh,
       ar_items := ar_items r @ map (\<lambda>tn. \<lparr>it_id = f tn, it_status = SAdded, it_message = ''''\<rparr>) fresh\<rparr>"
  by (induction fresh arbitrary: r) (simp_all add: note_added_def add_item_def Let_def)

section \<open>The properties\<close>

text \<open>Two sources of the world of the witnesses: one at its cap, one below it.\<close>

definition w_capped :: "source list" where
  "w_capped = [w_vl\<lparr>s_max_active := 1\<rparr>, w_wg]"

lemma w_within: "within_caps fake_obs w_target w_capped w_server"
proof -
  have "owned_now fake_obs [''direct'', ''block''] (source_ns w_target ''vl'') w_server = {''obs-vl-old''}"
    "owned_now fake_obs [''direct'', ''block''] (source_ns w_target ''wg'') w_server = {''obs-wg-1''}"
    by (auto simp: owned_now_def fake_obs_def stored_def w_server_def new_server_def replaceable_def
        w_target_def blank_defs split: if_splits)
  moreover have "t_fixed_outbounds w_target = [''direct'', ''block'']" by (simp add: w_target_def)
  ultimately show ?thesis by (simp add: within_caps_def w_capped_def w_config_defs)
qed

lemma run_add: "xray_run c w (snd (add_outbound c h w))"
  unfolding xray_run_def
  by (rule r_into_rtranclp, rule step_add_outbound [OF prod.collapse [symmetric]])

text \<open>
  C16: No sequence of calls through the capped client, whatever the calls, their order, their
  arguments and their failures, takes a source of the target above its \<^verbatim>\<open>maxActive\<close>.
\<close>

theorem cap_never_exceeded:
  assumes "xray_api c obs ibs rls" "within_caps obs t srcs w" "xray_run (capped c t srcs) w w'"
  shows "within_caps obs t srcs w'"
  by (rule xray_api.capped_run [OF assms(1,3,2)])

lemma cap_never_exceeded_witness:
  "within_caps fake_obs w_target w_capped
     (snd (add_outbound (capped w_client w_target w_capped) \<lparr>h_tag = ''obs-wg-2'', h_body = ''w''\<rparr> w_server))"
  by (rule cap_never_exceeded [OF w_api w_within run_add])

text \<open>
  At its cap a source gets no outbound: the call fails and Xray holds what it held.
\<close>

theorem cap_refuses:
  assumes "xray_api c obs ibs rls" "s \<in> set srcs" "s_max_active s > 0"
    and "owns (source_ns t (s_id s)) KOutbound (h_tag h)"
    and "int (card (owned_now obs (t_fixed_outbounds t) (source_ns t (s_id s)) w)) \<ge> s_max_active s"
    and "add_outbound (capped c t srcs) h w = (x, w')"
  shows "x \<noteq> None \<and> obs w' = obs w \<and> ibs w' = ibs w \<and> rls w' = rls w"
proof -
  have "(source_ns t (s_id s), s_max_active s) \<in> set (cap_limits t srcs)"
    using assms(2,3) cap_limits_set by blast
  then have full: "\<not> (\<forall>(n, limit) \<in> set (cap_limits t srcs). owns n KOutbound (h_tag h) \<longrightarrow>
      int (card (owned_now obs (t_fixed_outbounds t) n w)) < limit)"
    using assms(4,5) by force
  note cases = xray_api.capped_add_cases [OF assms(1,6)]
  have "x \<noteq> None \<and> obs w' = obs w" using conjunct2 [OF cases] full by argo
  moreover have "ibs w' = ibs w \<and> rls w' = rls w"
    using conjunct1 [OF cases] unfolding xray_api.same_rest_def [OF assms(1)] .
  ultimately show ?thesis by simp
qed

lemma cap_refuses_witness:
  "fake_obs (snd (add_outbound (capped w_client w_target w_capped) \<lparr>h_tag = ''obs-vl-2'', h_body = ''w''\<rparr> w_server))
     ''obs-vl-2'' = None"
proof -
  let ?h = "\<lparr>h_tag = ''obs-vl-2'', h_body = ''w''\<rparr>"
  obtain x w' where r: "add_outbound (capped w_client w_target w_capped) ?h w_server = (x, w')" by fastforce
  have "owned_now fake_obs [''direct'', ''block''] (source_ns w_target ''vl'') w_server = {''obs-vl-old''}"
    by (auto simp: owned_now_def fake_obs_def stored_def w_server_def new_server_def replaceable_def
        w_target_def blank_defs split: if_splits)
  moreover have "t_fixed_outbounds w_target = [''direct'', ''block'']" by (simp add: w_target_def)
  ultimately have "fake_obs w' = fake_obs w_server"
    using cap_refuses [OF w_api _ _ _ _ r, of "w_vl\<lparr>s_max_active := 1\<rparr>"]
    by (simp add: w_capped_def w_config_defs)
  then show ?thesis using r by (simp add: fake_obs_def stored_def w_server_def new_server_def)
qed

text \<open>
  C17: The capped client keeps every law of the client it wraps, so what is proved of an apply
  holds of an apply through it.
\<close>

theorem capped_keeps_contract:
  assumes "xray_api c obs ibs rls"
  shows "xray_api (capped c t srcs) obs ibs rls"
  by (rule xray_api.capped_api [OF assms])

lemma capped_keeps_contract_witness:
  "xray_api (capped w_client w_target w_capped) fake_obs fake_ibs fs_rules"
  by (rule capped_keeps_contract [OF w_api])
text \<open>
  A tunnel that was removed is gone from Xray: both its outbounds, its inbound and, when the
  removal of the rule did not fail, its rule. Nothing else changes, whatever fails on the way.
\<close>

theorem remove_tunnel_clears:
  assumes "xray_api c obs ibs rls" "remove_tunnel c old w = (re, x, w')"
  shows "(\<forall>t. t \<notin> set (outbound_tags old) \<longrightarrow> obs w' t = obs w t) \<and>
    (\<forall>t. t \<noteq> tn_inbound old \<longrightarrow> ibs w' t = ibs w t) \<and>
    other_rules (tn_route old) (rls w') = other_rules (tn_route old) (rls w) \<and>
    (x = None \<longrightarrow> (\<forall>t \<in> set (outbound_tags old). obs w' t = None) \<and> ibs w' (tn_inbound old) = None \<and>
       (re = None \<longrightarrow> rls w' = other_rules (tn_route old) (rls w)))"
  using xray_api.remove_tunnel_spec [OF assms] by fastforce

definition w_old :: tunnel where
  "w_old = new_tunnel (w_vless_entry ''vl-old'') ''vl'' w_target 100"

lemma remove_tunnel_clears_witness:
  "fake_obs (snd (snd (remove_tunnel w_client w_old w_server))) ''obs-wg-1'' = Some \<lparr>h_tag = ''obs-wg-1'', h_body = ''w''\<rparr>"
proof -
  obtain re x w' where r: "remove_tunnel w_client w_old w_server = (re, x, w')" by (metis prod_cases3)
  have "''obs-wg-1'' \<notin> set (outbound_tags w_old)" by code_simp
  then have "fake_obs w' ''obs-wg-1'' = fake_obs w_server ''obs-wg-1''"
    using remove_tunnel_clears [OF w_api r] by blast
  then show ?thesis using r by (simp add: fake_obs_def stored_def w_server_def new_server_def)
qed

text \<open>
  A tunnel that was added has its outbound, its SOCKS inbound and, last in router order, its
  rule in Xray, where its tags were free. A failure says so and touches no other tunnel.
\<close>

theorem add_tunnel_adds:
  assumes "xray_api c obs ibs rls" "tunnel_protos to_proto in_proto new"
    and "add_tunnel c to_proto in_proto new w = (x, w')"
  shows "(\<forall>t. t \<noteq> tn_initial new \<longrightarrow> obs w' t = obs w t) \<and> (\<forall>t. t \<noteq> tn_inbound new \<longrightarrow> ibs w' t = ibs w t) \<and>
    other_rules (tn_route new) (rls w') = other_rules (tn_route new) (rls w) \<and>
    (x = None \<longrightarrow> (\<exists>h hin. to_proto (po_json (tn_out_initial new)) = Inr h \<and> in_proto new = Inr hin \<and>
       obs w (tn_initial new) = None \<and> obs w' = (obs w)(tn_initial new \<mapsto> h) \<and>
       ibs w (tn_inbound new) = None \<and> ibs w' = (ibs w)(tn_inbound new \<mapsto> hin) \<and>
       rls w' = rls w @ [rule_of (tunnel_rule new (tn_initial new))]))"
  by (rule xray_api.add_tunnel_spec [OF assms])

lemma w_tunnel_protos: "tunnel_protos w_proto w_in w_tunnel"
  by (simp add: tunnel_protos_def w_proto_def w_in_def) code_simp

lemma add_tunnel_adds_witness:
  "fake_obs (snd (add_tunnel w_client w_proto w_in w_tunnel w_server)) ''obs-vl-new'' =
   Some \<lparr>h_tag = ''obs-vl-new'', h_body = ''b''\<rparr>"
proof -
  have "fst (add_tunnel w_client w_proto w_in w_tunnel w_server) = None" by code_simp
  then obtain w' where r: "add_tunnel w_client w_proto w_in w_tunnel w_server = (None, w')" by (metis prod.collapse)
  have t: "tn_initial w_tunnel = ''obs-vl-new''" "get_tag (po_json (tn_out_initial w_tunnel)) = ''obs-vl-new''"
    by code_simp+
  then show ?thesis using add_tunnel_adds [OF w_api w_tunnel_protos r] r by (auto simp: w_proto_def)
qed

text \<open>
  C18: A replacement that succeeded has put the new tunnel in the place of the old one: the new
  outbound and inbound are there, both old outbounds and the old inbound are gone, and the new
  rule is the last. Every outbound other than those of the two tunnels is as it was, whatever
  the outcome.
\<close>

theorem replace_tunnel_replaces:
  assumes "xray_api c obs ibs rls" "tunnel_protos to_proto in_proto new"
    and "replace_tunnel c to_proto in_proto old new w = (re, x, w')"
  shows "(\<forall>t. t \<notin> insert (tn_initial new) (set (outbound_tags old)) \<longrightarrow> obs w' t = obs w t) \<and>
    (x = None \<longrightarrow> (\<exists>h hin. to_proto (po_json (tn_out_initial new)) = Inr h \<and> in_proto new = Inr hin \<and>
       obs w' = (\<lambda>t. if t = tn_initial new then Some h else if t \<in> set (outbound_tags old) then None else obs w t) \<and>
       ibs w' = (\<lambda>t. if t = tn_inbound new then Some hin else if t = tn_inbound old then None else ibs w t) \<and>
       (re = None \<longrightarrow> rls w' = other_rules (tn_route old) (rls w) @ [rule_of (tunnel_rule new (tn_initial new))])))"
proof -
  note sp = xray_api.replace_tunnel_spec [OF assms]
  show ?thesis
  proof (intro conjI allI impI)
    fix t assume "t \<notin> insert (tn_initial new) (set (outbound_tags old))"
    then show "obs w' t = obs w t" using conjunct1 [OF sp] by blast
  qed (use conjunct2 [OF conjunct2 [OF sp]] in blast)
qed

lemma replace_tunnel_replaces_witness:
  "fs_rules (snd (snd (replace_tunnel w_client w_proto w_in w_old w_tunnel w_server))) =
     [\<lparr>rl_tag = ''direct'', rl_ruletag = ''''\<rparr>, \<lparr>rl_tag = ''obs-vl-new'', rl_ruletag = ''route-vl-new''\<rparr>]"
proof -
  let ?p = "replace_tunnel w_client w_proto w_in w_old w_tunnel w_server"
  have "fst ?p = None \<and> fst (snd ?p) = None" by code_simp
  then obtain w' where r: "?p = (None, None, w')" by (metis prod.collapse)
  have "fs_rules w' = other_rules (tn_route w_old) (fs_rules w_server) @ [rule_of (tunnel_rule w_tunnel (tn_initial w_tunnel))]"
    using replace_tunnel_replaces [OF w_api w_tunnel_protos r] by blast
  moreover have "other_rules (tn_route w_old) (fs_rules w_server) @ [rule_of (tunnel_rule w_tunnel (tn_initial w_tunnel))] =
      [\<lparr>rl_tag = ''direct'', rl_ruletag = ''''\<rparr>, \<lparr>rl_tag = ''obs-vl-new'', rl_ruletag = ''route-vl-new''\<rparr>]"
    by code_simp
  ultimately show ?thesis using r by simp
qed

text \<open>
  Remove before add: a replacement, also one that fails half way, never leaves the source with
  more outbounds than it had.
\<close>

theorem replace_tunnel_never_grows:
  assumes "xray_api c obs ibs rls" "tunnel_protos to_proto in_proto new"
    and "replace_tunnel c to_proto in_proto old new w = (re, x, w')"
    and "finite (dom (obs w))" "tn_current old \<in> owned_now obs fixed n w"
  shows "card (owned_now obs fixed n w') \<le> card (owned_now obs fixed n w)"
  by (rule xray_api.replace_tunnel_card [OF assms])

lemma replace_tunnel_never_grows_witness:
  "card (owned_now fake_obs [] (source_ns w_target ''vl'')
     (snd (snd (replace_tunnel w_client w_proto w_in w_old w_tunnel w_server)))) \<le> 1"
proof -
  obtain re x w' where r: "replace_tunnel w_client w_proto w_in w_old w_tunnel w_server = (re, x, w')"
    by (metis prod_cases3)
  have o1: "owned_now fake_obs [] (source_ns w_target ''vl'') w_server = {''obs-vl-old''}"
    by (auto simp: owned_now_def fake_obs_def stored_def w_server_def new_server_def replaceable_def
        w_target_def blank_defs split: if_splits)
  have "dom (fake_obs w_server) \<subseteq> {''direct'', ''obs-vl-old'', ''obs-wg-1''}"
    by (auto simp: fake_obs_def stored_def w_server_def new_server_def split: if_splits)
  then have fin: "finite (dom (fake_obs w_server))" by (rule finite_subset) simp
  have "tn_current w_old = ''obs-vl-old''" by code_simp
  then show ?thesis using replace_tunnel_never_grows [OF w_api w_tunnel_protos r fin, of "[]" "source_ns w_target ''vl''"] o1 r
    by simp
qed

text \<open>
  The report of slot changes counts and names what was removed and added in order, removals
  first, and only the outbound report fails.
\<close>

theorem slot_report_counts:
  "slot_report m now gone fresh failed eo k = r \<Longrightarrow>
   ar_removed r = length gone \<and> ar_deleted r = map (tunnel_id k) gone \<and>
   ar_added r = length fresh \<and> ar_applied r = map (tunnel_id k) fresh \<and> ar_replaced r = 0 \<and>
   (ar_failed r = 0 \<longleftrightarrow> eo = None \<or> k \<noteq> KOutbound) \<and>
   map it_id (ar_items r) = ar_deleted r @ ar_applied r @ (if ar_failed r = 0 then [] else [failed])"
  by (cases eo; cases k)
    (auto simp: slot_report_def fold_removed fold_added new_report_def note_failed_def add_item_def Let_def comp_def)

lemma slot_report_counts_witness:
  "ar_deleted (slot_report w_meta 0 [w_old] [w_tunnel] ''x'' None KInbound) = [tn_inbound w_old]"
  using slot_report_counts [OF refl, of w_meta 0 "[w_old]" "[w_tunnel]" "''x''" None KInbound] by simp

text \<open>
  C19: Orphan removal that succeeds leaves of every enabled kind exactly what is fixed, unnamed or in
  a namespace of the target, and reports exactly what it removed; whatever its outcome, resources
  that are no orphans and kinds that are off are not touched.
\<close>

theorem remove_orphans_exact:
  assumes "xray_api c obs ibs rls" "remove_orphans c t kinds nss w = (o2, w')"
  shows "(\<forall>k. same_on obs ibs rls k (\<lambda>u. k \<notin> set kinds \<or> \<not> orphan nss k (fixed_of t k) u) w w') \<and>
    set (or_removed o2) \<subseteq> {(k, u). k \<in> set kinds \<and> orphan nss k (fixed_of t k) u} \<and>
    (or_error o2 = None \<longrightarrow>
      (\<forall>k \<in> set kinds. held obs ibs rls k w' = {u \<in> held obs ibs rls k w. \<not> orphan nss k (fixed_of t k) u}) \<and>
      set (or_removed o2) = {(k, u). k \<in> set kinds \<and> u \<in> held obs ibs rls k w \<and> orphan nss k (fixed_of t k) u} \<and>
      map_option set (or_outbounds o2) = (if KOutbound \<in> set kinds then Some (dom (obs w')) else None))"
  using xray_api.remove_orphans_spec [OF assms] by blast

lemma remove_orphans_exact_witness:
  "held fake_obs fake_ibs fs_rules KRouting
     (snd (remove_orphans w_client w_target [KRouting, KOutbound] [source_ns w_target ''wg''] w_server)) = {''''}"
proof -
  let ?p = "remove_orphans w_client w_target [KRouting, KOutbound] [source_ns w_target ''wg''] w_server"
  obtain o2 w' where r: "?p = (o2, w')" by fastforce
  have "or_error (fst ?p) = None" by code_simp
  then have "or_error o2 = None" using r by simp
  then have "held fake_obs fake_ibs fs_rules KRouting w' =
      {u \<in> held fake_obs fake_ibs fs_rules KRouting w_server.
        \<not> orphan [source_ns w_target ''wg''] KRouting (fixed_of w_target KRouting) u}"
    using remove_orphans_exact [OF w_api r] by simp
  also have "\<dots> = {''''}"
    by (auto simp: w_server_def new_server_def orphan_def w_target_def blank_defs fixed_of_def)
  finally show ?thesis using r by simp
qed

end
