(* ===== verification/Scd_Json.thy ===== *)
theory Scd_Json
  imports Scd_Text
begin

text \<open>
  The JSON text that the hashes of \<^verbatim>\<open>internal/scd/apply\<close> are taken of: Go's \<^verbatim>\<open>encoding/json\<close> with the
  HTML escapes off and without the final newline (\<^verbatim>\<open>jsonHash\<close>). The lemmas show that values with
  plain strings can be read back from their text, so that no two of them share one.
\<close>

section \<open>Texts\<close>

text \<open>A value as the encoder sees it: a struct is an object with its fields in their order.\<close>

datatype jvalue = JString string | JInt int | JNull | JArray "jvalue list" | JObject "(string \<times> jvalue) list"

definition hex_digit :: "nat \<Rightarrow> char" where
  "hex_digit n = (if n < 10 then char_of (48 + n) else char_of (87 + n))"

text \<open>One ASCII character inside a string.\<close>

definition json_ascii :: "char \<Rightarrow> string" where
  "json_ascii ch =
     (let n = of_char ch :: nat in
      if n = 34 \<or> n = 92 then [CHR 0x5C, ch]
      else if 32 \<le> n then [ch]
      else if n = 8 then [CHR 0x5C, CHR ''b''] else if n = 12 then [CHR 0x5C, CHR ''f'']
      else if n = 10 then [CHR 0x5C, CHR ''n''] else if n = 13 then [CHR 0x5C, CHR ''r'']
      else if n = 9 then [CHR 0x5C, CHR ''t'']
      else CHR 0x5C # ''u00'' @ [hex_digit (n div 16), hex_digit (n mod 16)])"

function json_chars :: "string \<Rightarrow> string" where
  "json_chars [] = []"
| "json_chars (x # xs) =
     (if (of_char x :: nat) < 128 then json_ascii x @ json_chars xs
      else let (r, n) = decode_rune (x # xs) in
        if r = rune_error \<and> n = 1 then CHR 0x5C # ''ufffd'' @ json_chars xs
        else if r = 8232 \<or> r = 8233
        then CHR 0x5C # ''u202'' @ hex_digit (r mod 16) # json_chars (drop n (x # xs))
        else take n (x # xs) @ json_chars (drop n (x # xs)))"
  by pat_completeness auto
termination
proof (relation "measure length")
  fix x :: char and xs p r n
  assume "p = decode_rune (x # xs)" "(r, n) = p"
  then have "n = snd (decode_rune (x # xs))" by (metis snd_conv)
  then have "length (drop n (x # xs)) < length (x # xs)" using decode_rune_shorter [of "x # xs"] by simp
  then show "(drop n (x # xs), x # xs) \<in> measure length" "(drop n (x # xs), x # xs) \<in> measure length" by simp_all
qed auto

definition json_string :: "string \<Rightarrow> string" where
  "json_string s = ''\"'' @ json_chars s @ ''\"''"

fun json_text :: "jvalue \<Rightarrow> string" where
  "json_text (JString s) = json_string s"
| "json_text (JInt i) = int_text i"
| "json_text JNull = ''null''"
| "json_text (JArray vs) = ''['' @ join_with '','' (map json_text vs) @ '']''"
| "json_text (JObject fs) =
     ''{'' @ join_with '','' (map (\<lambda>(k, v). json_string k @ '':'' @ json_text v) fs) @ ''}''"

text \<open>\<^verbatim>\<open>jsonHash\<close>; \<open>lib_sha256\<close> gives the digest in hex.\<close>

definition json_hash :: "text_lib \<Rightarrow> jvalue \<Rightarrow> string" where
  "json_hash lib v = lib_sha256 lib (json_text v)"

section \<open>Reading a text back\<close>

text \<open>Strings that are copied as they are.\<close>

definition json_plain :: "string \<Rightarrow> bool" where
  "json_plain s \<longleftrightarrow> list_all (\<lambda>ch. let n = of_char ch :: nat in 32 \<le> n \<and> n < 128 \<and> n \<noteq> 34 \<and> n \<noteq> 92) s"

lemma json_chars_plain: "json_plain s \<Longrightarrow> json_chars s = s"
  by (induction s) (simp_all add: json_plain_def json_ascii_def Let_def)

lemma json_plain_quote: "json_plain s \<Longrightarrow> CHR ''\"'' \<notin> set s"
  by (auto simp: json_plain_def list_all_iff)

fun plain_value :: "jvalue \<Rightarrow> bool" where
  "plain_value (JString s) \<longleftrightarrow> json_plain s"
| "plain_value (JInt i) \<longleftrightarrow> True"
| "plain_value JNull \<longleftrightarrow> True"
| "plain_value (JArray vs) \<longleftrightarrow> (\<forall>v \<in> set vs. plain_value v)"
| "plain_value (JObject fs) \<longleftrightarrow> (\<forall>(k, v) \<in> set fs. json_plain k \<and> plain_value v)"

lemma digit_char_digit: "d < 10 \<Longrightarrow> is_digit (digit_char d)"
  by (simp add: is_digit_def digit_char_def)

lemma nat_text_digits: "list_all is_digit (nat_text n) \<and> nat_text n \<noteq> []"
proof (induction n rule: nat_text.induct)
  case (1 n)
  then show ?case by (subst (1 2) nat_text.simps) (auto simp: digit_char_digit)
qed

lemma digits_value_snoc: "digits_value (s @ [ch]) = digits_value s * 10 + (of_char ch - 48)"
  by (simp add: digits_value_def)

lemma digits_value_nat_text: "digits_value (nat_text n) = int n"
proof (induction n rule: nat_text.induct)
  case (1 n)
  have d: "(of_char (digit_char d) :: int) = 48 + int d" if "d < 10" for d
  proof -
    have "(of_char (digit_char d) :: nat) = 48 + d" using that by (simp add: digit_char_def)
    then have "int (of_char (digit_char d)) = 48 + int d" by simp
    then show ?thesis by (simp only: of_nat_of_char)
  qed
  show ?case
  proof (cases "n < 10")
    case True
    then show ?thesis by (subst nat_text.simps) (simp add: digits_value_def d)
  next
    case False
    then have "digits_value (nat_text n) = digits_value (nat_text (n div 10)) * 10 + int (n mod 10)"
      by (subst nat_text.simps) (simp add: digits_value_snoc d)
    then have "digits_value (nat_text n) = int (n div 10) * 10 + int (n mod 10)" using 1 False by simp
    also have "\<dots> = int (n div 10 * 10 + n mod 10)" by (simp only: of_nat_add of_nat_mult of_nat_numeral)
    finally show ?thesis by (simp only: div_mult_mod_eq)
  qed
qed

lemma int_text_inject: "int_text i = int_text j \<longleftrightarrow> i = j"
proof
  assume eq: "int_text i = int_text j"
  have minus: "\<not> is_digit CHR ''-''" by (simp add: is_digit_def)
  have hd: "is_digit (hd (nat_text n))" for n using nat_text_digits [of n] by (cases "nat_text n") auto
  have sgn: "hd (int_text k) = CHR ''-'' \<longleftrightarrow> k < 0" for k
    using hd [of "nat k"] minus by (auto simp: int_text_def)
  have val: "digits_value (nat_text (nat \<bar>k\<bar>)) = \<bar>k\<bar>" for k by (simp add: digits_value_nat_text)
  have "nat_text (nat \<bar>i\<bar>) = nat_text (nat \<bar>j\<bar>)" "i < 0 \<longleftrightarrow> j < 0"
    using eq sgn [of i] sgn [of j] by (auto simp: int_text_def split: if_splits)
  then show "i = j" using val [of i] val [of j] by (auto simp: abs_if split: if_splits)
qed simp

text \<open>A text up to a character that does not occur in it is determined by what it starts.\<close>

lemma upto_inject:
  assumes "a @ x # r = b @ y # r'" "\<not> P x" "\<not> P y" "list_all P a" "list_all P b"
  shows "a = b \<and> x # r = y # r'"
proof -
  have "takeWhile P (a @ x # r) = a" "takeWhile P (b @ y # r') = b"
    using assms(2-5) by (simp_all add: takeWhile_tail list_all_iff)
  then show ?thesis using assms(1) by simp
qed

lemma json_string_inject:
  assumes "json_string a @ r = json_string b @ r'" "json_plain a" "json_plain b"
  shows "a = b \<and> r = r'"
proof -
  have "a @ CHR ''\"'' # r = b @ CHR ''\"'' # r'"
    using assms by (simp add: json_string_def json_chars_plain)
  from upto_inject [OF this, of "\<lambda>c. c \<noteq> CHR ''\"''"] show ?thesis
    using json_plain_quote [OF assms(2)] json_plain_quote [OF assms(3)] by (auto simp: list_all_iff)
qed

definition number_char :: "char \<Rightarrow> bool" where
  "number_char ch \<longleftrightarrow> is_digit ch \<or> ch = CHR ''-''"

lemma int_text_chars: "list_all number_char (int_text i)" "int_text i \<noteq> []"
  using nat_text_digits by (auto simp: int_text_def number_char_def list_all_iff)

text \<open>What may follow a value: a comma or a closing bracket.\<close>

definition stops :: "string \<Rightarrow> bool" where
  "stops r \<longleftrightarrow> r = [] \<or> \<not> number_char (hd r)"

lemma stops_simps [simp]: "stops []" "stops (CHR '','' # r)" "stops (CHR '']'' # r)" "stops (CHR ''}'' # r)"
  by (simp_all add: stops_def number_char_def is_digit_def)

lemma int_text_upto:
  assumes "int_text i @ r = int_text j @ r'" "stops r" "stops r'"
  shows "i = j \<and> r = r'"
proof -
  have s: "takeWhile number_char (int_text k @ q) = int_text k" if "stops q" for k q
    using that int_text_chars(1) [of k] by (cases q) (auto simp: takeWhile_append2 list_all_iff stops_def)
  have "int_text i = int_text j" using s assms by metis
  then show ?thesis using assms(1) int_text_inject by simp
qed

text \<open>The first character tells the kind of a value.\<close>

lemma json_text_first:
  "json_text v \<noteq> [] \<and> hd (json_text v) \<notin> {CHR '']'', CHR ''}'', CHR '',''} \<and>
   (hd (json_text v) = CHR ''\"'' \<longleftrightarrow> (\<exists>s. v = JString s)) \<and>
   (hd (json_text v) = CHR ''n'' \<longleftrightarrow> v = JNull) \<and>
   (hd (json_text v) = CHR ''['' \<longleftrightarrow> (\<exists>l. v = JArray l)) \<and>
   (hd (json_text v) = CHR ''{'' \<longleftrightarrow> (\<exists>l. v = JObject l)) \<and>
   (number_char (hd (json_text v)) \<longleftrightarrow> (\<exists>i. v = JInt i))"
proof (cases v)
  case (JInt i)
  then show ?thesis using int_text_chars [of i]
    by (cases "int_text i") (auto simp: number_char_def is_digit_def)
qed (auto simp: json_string_def number_char_def is_digit_def)

text \<open>Lists of texts between commas, when the texts of single elements can be told apart.\<close>

lemma join_cons: "join_with '','' (x # xs) = x @ (if xs = [] then [] else '','' @ join_with '','' xs)"
  by (cases xs) simp_all

lemma hd_of_append: "a @ s = e # r \<Longrightarrow> a \<noteq> [] \<Longrightarrow> hd a = e"
  by (cases a) auto

lemma join_inject:
  assumes inj: "\<And>x y r r'. x \<in> set xs \<Longrightarrow> y \<in> set ys \<Longrightarrow> stops r \<Longrightarrow> stops r' \<Longrightarrow>
      f x @ r = f y @ r' \<Longrightarrow> x = y \<and> r = r'"
    and first: "\<And>x. x \<in> set xs \<union> set ys \<Longrightarrow> f x \<noteq> [] \<and> hd (f x) \<noteq> e"
    and e: "e \<in> {CHR '']'', CHR ''}''}"
    and eq: "join_with '','' (map f xs) @ e # r = join_with '','' (map f ys) @ e # r'"
  shows "xs = ys \<and> r = r'"
  using assms
proof (induction xs arbitrary: ys)
  case Nil
  then have "hd (f y) = e" if "ys = y # zs" for y zs
    using that hd_of_append [of "f y" _ e r]
    by (auto simp: join_cons simp del: join_with.simps(2,3) split: if_splits)
  then show ?case using Nil by (cases ys) auto
next
  case (Cons x xs)
  note prems = Cons.prems
  have "ys \<noteq> []"
  proof
    assume "ys = []"
    then have "f x @ ((if xs = [] then [] else '','' @ join_with '','' (map f xs)) @ e # r) = e # r'"
      using prems(4) by (simp add: join_cons del: join_with.simps(2,3))
    then show False using hd_of_append [of "f x" _ e r'] prems(2) [of x] by simp
  qed
  then obtain y zs where ys: "ys = y # zs" by (cases ys) auto
  let ?rest = "\<lambda>l q. (if l = [] then [] else '','' @ join_with '','' (map f l)) @ e # q"
  have "f x @ ?rest xs r = f y @ ?rest zs r'"
    using prems(4) by (simp add: ys join_cons del: join_with.simps(2,3))
  moreover have st: "stops (?rest l q)" for l q using prems(3) by auto
  ultimately have xy: "x = y" and rest: "?rest xs r = ?rest zs r'"
    using prems(1) [of x y "?rest xs r" "?rest zs r'"] ys by simp_all
  show ?case
  proof (cases "xs = [] \<or> zs = []")
    case True
    then show ?thesis using rest prems(3) xy ys by (auto split: if_splits)
  next
    case False
    then have eq: "join_with '','' (map f xs) @ e # r = join_with '','' (map f zs) @ e # r'" using rest by simp
    have "xs = zs \<and> r = r'"
    proof (rule Cons.IH [OF _ _ prems(3) eq])
      show "x' = y' \<and> q = q'" if "x' \<in> set xs" "y' \<in> set zs" "stops q" "stops q'" "f x' @ q = f y' @ q'" for x' y' q q'
        using prems(1) [OF _ _ that(3-5)] that(1,2) ys by simp
      show "f x' \<noteq> [] \<and> hd (f x') \<noteq> e" if "x' \<in> set xs \<union> set zs" for x' using prems(2) that ys by auto
    qed
    then show ?thesis using xy ys by simp
  qed
qed

lemmas json_kinds =
  json_text_first [THEN conjunct2, THEN conjunct2, THEN conjunct1, symmetric]
  json_text_first [THEN conjunct2, THEN conjunct2, THEN conjunct2, THEN conjunct1, symmetric]
  json_text_first [THEN conjunct2, THEN conjunct2, THEN conjunct2, THEN conjunct2, THEN conjunct1, symmetric]
  json_text_first [THEN conjunct2, THEN conjunct2, THEN conjunct2, THEN conjunct2, THEN conjunct2, THEN conjunct1, symmetric]
  json_text_first [THEN conjunct2, THEN conjunct2, THEN conjunct2, THEN conjunct2, THEN conjunct2, THEN conjunct2, symmetric]

lemma json_text_hd: "json_text v @ r = json_text w @ r' \<Longrightarrow> hd (json_text v) = hd (json_text w)"
  using json_text_first [of v] json_text_first [of w] by (metis hd_append2)

lemma json_text_kind:
  assumes "json_text v @ r = json_text w @ r'"
  shows "(\<exists>s. v = JString s) \<longleftrightarrow> (\<exists>s. w = JString s)" "v = JNull \<longleftrightarrow> w = JNull"
    "(\<exists>l. v = JArray l) \<longleftrightarrow> (\<exists>l. w = JArray l)" "(\<exists>l. v = JObject l) \<longleftrightarrow> (\<exists>l. w = JObject l)"
    "(\<exists>i. v = JInt i) \<longleftrightarrow> (\<exists>i. w = JInt i)"
  by (simp_all only: json_kinds json_text_hd [OF assms])

lemma json_text_inject:
  "plain_value v \<Longrightarrow> plain_value w \<Longrightarrow> stops r \<Longrightarrow> stops r' \<Longrightarrow> json_text v @ r = json_text w @ r' \<Longrightarrow>
   v = w \<and> r = r'"
proof (induction v arbitrary: w r r')
  case (JString s)
  then obtain s' where w: "w = JString s'" using json_text_kind(1) [OF JString.prems(5)] by blast
  have "json_string s @ r = json_string s' @ r'" using JString.prems(5) w by simp
  from json_string_inject [OF this] show ?case using JString.prems(1,2) w by simp
next
  case (JInt i)
  then obtain j where w: "w = JInt j" using json_text_kind(5) [OF JInt.prems(5)] by blast
  have "int_text i @ r = int_text j @ r'" using JInt.prems(5) w by simp
  from int_text_upto [OF this JInt.prems(3,4)] show ?case using w by simp
next
  case JNull
  then have "w = JNull" using json_text_kind(2) [OF JNull.prems(5)] by blast
  then show ?case using JNull by simp
next
  case (JArray vs)
  then obtain ws where w: "w = JArray ws"
    using json_text_kind(3) [OF JArray.prems(5)] by blast
  have "join_with '','' (map json_text vs) @ CHR '']'' # r = join_with '','' (map json_text ws) @ CHR '']'' # r'"
    using JArray.prems(5) w by simp
  then have "vs = ws \<and> r = r'"
  proof (rule join_inject [rotated 3])
    show "x = y \<and> q = q'" if "x \<in> set vs" "y \<in> set ws" "stops q" "stops q'"
      "json_text x @ q = json_text y @ q'" for x y q q'
      using JArray.IH [OF that(1) _ _ that(3,4,5)] JArray.prems(1,2) w that(1,2) by simp
    show "json_text x \<noteq> [] \<and> hd (json_text x) \<noteq> CHR '']''" for x using json_text_first [of x] by simp
  qed simp
  then show ?case using w by simp
next
  case (JObject fs)
  let ?f = "\<lambda>(k, v). json_string k @ '':'' @ json_text v"
  obtain gs where w: "w = JObject gs"
    using json_text_kind(4) [OF JObject.prems(5)] by blast
  have "join_with '','' (map ?f fs) @ CHR ''}'' # r = join_with '','' (map ?f gs) @ CHR ''}'' # r'"
    using JObject.prems(5) w by simp
  then have "fs = gs \<and> r = r'"
  proof (rule join_inject [rotated 3])
    fix x y q q' assume a: "x \<in> set fs" "y \<in> set gs" "stops q" "stops q'" "?f x @ q = ?f y @ q'"
    obtain k v l u where xy: "x = (k, v)" "y = (l, u)" by fastforce
    have pl: "json_plain k" "json_plain l" "plain_value v" "plain_value u"
      using JObject.prems(1,2) w a(1,2) xy by auto
    have "json_string k @ ('':'' @ json_text v @ q) = json_string l @ ('':'' @ json_text u @ q')"
      using a(5) xy by simp
    from json_string_inject [OF this pl(1,2)] have kl: "k = l" "json_text v @ q = json_text u @ q'" by simp_all
    have "v = u \<and> q = q'"
      using JObject.IH [of x v u q q'] a(1,3,4) xy pl(3,4) kl(2) by simp
    then show "x = y \<and> q = q'" using kl(1) xy by simp
  next
    show "?f x \<noteq> [] \<and> hd (?f x) \<noteq> CHR ''}''" for x by (cases x) (simp add: json_string_def)
  qed simp
  then show ?case using w by simp
qed

text \<open>Equal hashes mean equal values, as far as the digest tells their two texts apart.\<close>

lemma json_hash_iff:
  assumes "plain_value v" "plain_value w" "inj_on (lib_sha256 lib) S" "json_text v \<in> S" "json_text w \<in> S"
  shows "json_hash lib v = json_hash lib w \<longleftrightarrow> v = w"
proof
  assume "json_hash lib v = json_hash lib w"
  then have "json_text v = json_text w" using inj_onD [OF assms(3) _ assms(4,5)] by (simp add: json_hash_def)
  then show "v = w" using json_text_inject [OF assms(1,2), of "[]" "[]"] by simp
qed simp

end
