(* ===== verification/Scd_Plan.thy ===== *)
theory Scd_Plan
  imports Scd_Slots Scd_Json
begin

text \<open>
  The plan of a source (\<^verbatim>\<open>internal/scd/apply/plan.go\<close>): what each kind of its resources is to be on the
  target, the hash the sync loop compares, and the apply of a plan. The lemmas compose the three apply
  algorithms: what the plans of a source leave in Xray once all are applied, and that they never touch
  what belongs to another source of a valid configuration.

  A plan always has a topology here (the code's pointer is never nil). The JSON of the outbounds is
  the argument \<open>specs_json\<close>: it is Go's \<^verbatim>\<open>json.Marshal\<close> of xray-core's configuration form.
\<close>

section \<open>Plans\<close>

record plan =
  pl_kind :: kind
  pl_source :: string
  pl_hash :: string
  pl_ids :: "string list"
  pl_outbounds :: "spec list"
  pl_topology :: "tunnel list"
  pl_max_active :: int
  pl_skipped :: "skip list"
  pl_summary :: "summary option"

definition new_plan :: "kind \<Rightarrow> string \<Rightarrow> tunnel list \<Rightarrow> plan" where
  "new_plan k sid topo =
     \<lparr>pl_kind = k, pl_source = sid, pl_hash = '''', pl_ids = [], pl_outbounds = [], pl_topology = topo,
      pl_max_active = 0, pl_skipped = [], pl_summary = None\<rparr>"

text \<open>The values the hashes of inbounds and routes are taken of (\<^verbatim>\<open>item\<close> in \<^verbatim>\<open>fill\<close>).\<close>

definition inbound_item :: "tunnel \<Rightarrow> jvalue" where
  "inbound_item tn =
     JObject [(''inboundTag'', JString (tn_inbound tn)), (''listen'', JString (tn_listen tn)), (''port'', JInt (tn_port tn))]"

definition route_item :: "tunnel \<Rightarrow> jvalue" where
  "route_item tn =
     JObject [(''routeTag'', JString (tn_route tn)), (''inboundTag'', JString (tn_inbound tn)),
       (''outboundTag'', JString (tn_current tn))]"

text \<open>\<^verbatim>\<open>outbound.Hash\<close>.\<close>

definition spec_hash :: "text_lib \<Rightarrow> (spec list \<Rightarrow> string) \<Rightarrow> spec list \<Rightarrow> string" where
  "spec_hash lib specs_json l = lib_sha256 lib (specs_json l)"

definition fill :: "text_lib \<Rightarrow> (spec list \<Rightarrow> string) \<Rightarrow> plan \<Rightarrow> plan" where
  "fill lib specs_json p =
     (case pl_kind p of
        KOutbound \<Rightarrow>
          p\<lparr>pl_ids := map get_tag (pl_outbounds p), pl_hash := spec_hash lib specs_json (pl_outbounds p)\<rparr>
      | KInbound \<Rightarrow>
          p\<lparr>pl_ids := map tn_inbound (pl_topology p),
            pl_hash := json_hash lib (JArray (map inbound_item (pl_topology p)))\<rparr>
      | KRouting \<Rightarrow>
          p\<lparr>pl_ids := map tn_route (pl_topology p),
            pl_hash := json_hash lib (JArray (map route_item (pl_topology p)))\<rparr>)"

definition target_outbounds :: "entry list \<Rightarrow> target \<Rightarrow> tunnel list \<Rightarrow> bool \<Rightarrow> spec list" where
  "target_outbounds es t topo tunnelled =
     (if tunnelled then map (\<lambda>tn. po_json (tn_out_initial tn)) topo
      else map (\<lambda>e. po_json (prepare e t (t_prefix t @ en_tag e))) (sort_by entry_cmp es))"

definition plan_for_source ::
    "text_lib \<Rightarrow> (spec list \<Rightarrow> string) \<Rightarrow> kind \<Rightarrow> manifest \<Rightarrow> source \<Rightarrow> target \<Rightarrow> err + plan" where
  "plan_for_source lib specs_json k m src t =
     (if candidate_type (s_type src) \<and> s_selection src = None
      then Inl (ErrText (''source \"'' @ s_id src @ ''\" of type \"'' @ s_type src @ ''\" has no selection''))
      else
        let (topo, overflow) = build_source (mf_entries m) src t;
            summ = (mf_summary m)\<lparr>su_skipped := su_skipped (mf_summary m) + length overflow,
                                  su_port_range := length overflow\<rparr>;
            p = (new_plan k (s_id src) topo)
              \<lparr>pl_max_active := s_max_active src, pl_skipped := mf_skipped m @ overflow, pl_summary := Some summ\<rparr>
        in Inr (fill lib specs_json
             (if k = KOutbound
              then p\<lparr>pl_outbounds := target_outbounds (mf_entries m) t topo
                       (t_inbound_socks t \<noteq> None \<and> s_ports src \<noteq> None)\<rparr>
              else p)))"

definition topology_plan :: "text_lib \<Rightarrow> (spec list \<Rightarrow> string) \<Rightarrow> kind \<Rightarrow> string \<Rightarrow> tunnel list \<Rightarrow> plan" where
  "topology_plan lib specs_json k sid topo =
     fill lib specs_json
       ((new_plan k sid topo)
          \<lparr>pl_outbounds := (if k = KOutbound then map (\<lambda>tn. po_json (tn_out_initial tn)) topo else [])\<rparr>)"

text \<open>\<^verbatim>\<open>Apply\<close>: the algorithm of the kind on the namespace of the source; an error becomes a report.\<close>

definition apply_plan ::
    "'w client \<Rightarrow> ('w \<Rightarrow> time) \<Rightarrow> (spec \<Rightarrow> err + handler) \<Rightarrow> (tunnel \<Rightarrow> err + handler) \<Rightarrow> plan \<Rightarrow> target \<Rightarrow> meta \<Rightarrow> 'w \<Rightarrow>
     report \<times> 'w" where
  "apply_plan c now to_proto in_proto p t m w =
     (let m1 = m\<lparr>me_source := pl_source p, me_target := t_address t, me_max_outbounds := pl_max_active p\<rparr>;
          own = owns (source_ns t (pl_source p));
          (res, w1) = (case pl_kind p of
              KOutbound \<Rightarrow>
                (case outbounds c now to_proto (t_fixed_outbounds t) own (pl_outbounds p) m1 w of
                   (Inr r, w1) \<Rightarrow> (Inr (r\<lparr>ar_skipped := pl_skipped p\<rparr>), w1)
                 | (Inl e, w1) \<Rightarrow> (Inl e, w1))
            | KInbound \<Rightarrow> inbounds c now in_proto (t_fixed_inbounds t) own (pl_topology p) m1 w
            | KRouting \<Rightarrow> routing c now (t_fixed_routing t) own (pl_topology p) m1 w)
      in case res of
           Inl e \<Rightarrow> (failed_report (pl_kind p) m1 (now w1) (pl_skipped p) e, w1)
         | Inr r \<Rightarrow> (r, w1))"

section \<open>Lemmas\<close>

lemma new_plan_sel [simp]:
  "pl_kind (new_plan k sid topo) = k" "pl_source (new_plan k sid topo) = sid" "pl_outbounds (new_plan k sid topo) = []"
  "pl_topology (new_plan k sid topo) = topo" "pl_max_active (new_plan k sid topo) = 0"
  by (simp_all add: new_plan_def)

lemma fill_sel [simp]:
  "pl_kind (fill lib sj p) = pl_kind p" "pl_source (fill lib sj p) = pl_source p"
  "pl_outbounds (fill lib sj p) = pl_outbounds p" "pl_topology (fill lib sj p) = pl_topology p"
  "pl_max_active (fill lib sj p) = pl_max_active p" "pl_skipped (fill lib sj p) = pl_skipped p"
  "pl_summary (fill lib sj p) = pl_summary p"
  by (simp_all add: fill_def split: kind.split)

lemma plan_for_source_sel:
  assumes "plan_for_source lib sj k m src t = Inr p"
  shows "pl_kind p = k" "pl_source p = s_id src" "pl_topology p = fst (build_source (mf_entries m) src t)"
    "pl_outbounds p = (if k = KOutbound
       then target_outbounds (mf_entries m) t (pl_topology p) (t_inbound_socks t \<noteq> None \<and> s_ports src \<noteq> None) else [])"
    "pl_max_active p = s_max_active src" "pl_skipped p = mf_skipped m @ snd (build_source (mf_entries m) src t)"
  using assms by (auto simp: plan_for_source_def Let_def split: if_splits prod.splits)

text \<open>A plan whose resources lie in the namespace of its source on \<open>t\<close>.\<close>

definition plan_owned :: "target \<Rightarrow> plan \<Rightarrow> bool" where
  "plan_owned t p \<longleftrightarrow>
     (\<forall>e \<in> set (pl_outbounds p). owns (source_ns t (pl_source p)) KOutbound (get_tag e)) \<and>
     (\<forall>tn \<in> set (pl_topology p). tunnel_wf t (pl_source p) tn)"

lemma prepared_owned:
  "base_tag_of sid (en_tag e) \<Longrightarrow> owns (source_ns t sid) KOutbound (get_tag (po_json (prepare e t (t_prefix t @ en_tag e))))"
  using tunnel_wf_owns(1) [OF new_tunnel_wf, of sid e t 0] by simp

lemma target_outbounds_owned:
  assumes "\<forall>e \<in> set es. base_tag_of sid (en_tag e)" "\<forall>tn \<in> set topo. tunnel_wf t sid tn"
    and "x \<in> set (target_outbounds es t topo tunnelled)"
  shows "owns (source_ns t sid) KOutbound (get_tag x)"
proof (cases tunnelled)
  case True
  then obtain tn where tn: "tn \<in> set topo" "x = po_json (tn_out_initial tn)"
    using assms(3) by (auto simp: target_outbounds_def)
  then have wf: "tunnel_wf t sid tn" using assms(2) by blast
  then have "get_tag x = tn_initial tn" using tn(2) by (simp add: tunnel_wf_def)
  then show ?thesis using tunnel_wf_owns(1) [OF wf] by simp
next
  case False
  then obtain e where e: "e \<in> set es" "x = po_json (prepare e t (t_prefix t @ en_tag e))"
    using assms(3) by (auto simp: target_outbounds_def)
  then have "base_tag_of sid (en_tag e)" using assms(1) by blast
  then show ?thesis unfolding e(2) by (rule prepared_owned)
qed

lemma plan_for_source_owned:
  assumes "plan_for_source lib sj k m src t = Inr p"
    and "0 \<le> s_max_active src" "\<forall>e \<in> set (mf_entries m). base_tag_of (s_id src) (en_tag e)"
  shows "plan_owned t p"
proof -
  note sel = plan_for_source_sel [OF assms(1)]
  have wf: "\<forall>tn \<in> set (pl_topology p). tunnel_wf t (pl_source p) tn"
    unfolding sel(2,3) using build_source_wf [OF assms(2,3)] by blast
  moreover have "owns (source_ns t (pl_source p)) KOutbound (get_tag e)" if "e \<in> set (pl_outbounds p)" for e
    using that target_outbounds_owned [OF assms(3), of "pl_topology p" t e] wf
    unfolding sel(4) unfolding sel(2) by (auto split: if_splits)
  ultimately show ?thesis by (auto simp: plan_owned_def)
qed

lemma success_no_conflict:
  "outbounds c now to_proto fixed own es m w = (Inr r, w') \<Longrightarrow> ar_failed r = 0 \<Longrightarrow> \<forall>e \<in> set es. get_tag e \<notin> set fixed"
  "inbounds c now in_proto fixed own tns m w = (Inr r, w') \<Longrightarrow> ar_failed r = 0 \<Longrightarrow> \<forall>tn \<in> set tns. tn_inbound tn \<notin> set fixed"
  "routing c now fixed own tns m w = (Inr r, w') \<Longrightarrow> ar_failed r = 0 \<Longrightarrow> \<forall>tn \<in> set tns. tn_route tn \<notin> set fixed"
  subgoal
    by (cases "List.find (\<lambda>e. get_tag e \<in> set fixed) es") (force simp: outbounds_def Let_def find_None_set)+
  subgoal
    by (cases "List.find (\<lambda>tn. tn_inbound tn \<in> set fixed) tns") (force simp: inbounds_def Let_def find_None_set)+
  subgoal
    by (cases "List.find (\<lambda>tn. tn_route tn \<in> set fixed) tns") (force simp: routing_def Let_def find_None_set)+
  done

text \<open>The three shapes of an apply.\<close>

lemma apply_plan_outbound:
  assumes "apply_plan c now to_proto in_proto p t m w = (r, w')" "pl_kind p = KOutbound"
  obtains res m1 where "outbounds c now to_proto (t_fixed_outbounds t) (owns (source_ns t (pl_source p)))
      (pl_outbounds p) m1 w = (res, w')"
    "ar_failed r = 0 \<Longrightarrow> \<exists>q. res = Inr q \<and> ar_failed q = 0"
  using assms
  by (fastforce simp: apply_plan_def failed_report_def add_item_def Let_def split: sum.splits prod.splits)

lemma apply_plan_inbound:
  assumes "apply_plan c now to_proto in_proto p t m w = (r, w')" "pl_kind p = KInbound"
  obtains res m1 where "inbounds c now in_proto (t_fixed_inbounds t) (owns (source_ns t (pl_source p)))
      (pl_topology p) m1 w = (res, w')"
    "ar_failed r = 0 \<Longrightarrow> \<exists>q. res = Inr q \<and> ar_failed q = 0"
  using assms
  by (fastforce simp: apply_plan_def failed_report_def add_item_def Let_def split: sum.splits prod.splits)

lemma apply_plan_routing:
  assumes "apply_plan c now to_proto in_proto p t m w = (r, w')" "pl_kind p = KRouting"
  obtains res m1 where "routing c now (t_fixed_routing t) (owns (source_ns t (pl_source p)))
      (pl_topology p) m1 w = (res, w')"
    "ar_failed r = 0 \<Longrightarrow> \<exists>q. res = Inr q \<and> ar_failed q = 0"
  using assms
  by (fastforce simp: apply_plan_def failed_report_def add_item_def Let_def split: sum.splits prod.splits)

definition plan_ids :: "plan \<Rightarrow> string list" where
  "plan_ids p =
     (case pl_kind p of KOutbound \<Rightarrow> map get_tag (pl_outbounds p) | KInbound \<Rightarrow> map tn_inbound (pl_topology p)
      | KRouting \<Rightarrow> map tn_route (pl_topology p))"

lemma fill_ids [simp]: "pl_ids (fill lib sj p) = plan_ids p" "plan_ids (fill lib sj p) = plan_ids p"
  by (simp_all add: fill_def plan_ids_def split: kind.split)

lemma plan_for_source_ids: "plan_for_source lib sj k m src t = Inr p \<Longrightarrow> pl_ids p = plan_ids p"
  by (auto simp: plan_for_source_def Let_def split: if_splits prod.splits)

abbreviation plan_replaceable :: "target \<Rightarrow> string \<Rightarrow> kind \<Rightarrow> string \<Rightarrow> bool" where
  "plan_replaceable t sid k \<equiv> replaceable (fixed_of t k) (owns (source_ns t sid)) k"

lemma rules_tags_filter: "{u \<in> rl_ruletag ` set qs. P u} = rl_ruletag ` set (filter (\<lambda>q. P (rl_ruletag q)) qs)"
  by auto

context xray_api
begin

lemma apply_plan_frame:
  assumes "proto_ok to_proto h_tag" "in_ok in_proto" "plan_owned t p"
    and ap: "apply_plan c now to_proto in_proto p t m w = (r, w')"
  shows "samex k (\<lambda>u. k \<noteq> pl_kind p \<or> \<not> plan_replaceable t (pl_source p) k u) w w'"
proof -
  let ?own = "owns (source_ns t (pl_source p))"
  have o1: "\<forall>e \<in> set (pl_outbounds p). ?own KOutbound (get_tag e)"
    and o2: "\<forall>tn \<in> set (pl_topology p). ?own KInbound (tn_inbound tn)"
    and o3: "\<forall>tn \<in> set (pl_topology p). ?own KRouting (tn_route tn)"
    using assms(3) tunnel_wf_owns(4,5) by (auto simp: plan_owned_def simp del: owns.simps)
  show ?thesis
  proof (cases "pl_kind p")
    case KOutbound
    obtain res m1 where run: "outbounds c now to_proto (t_fixed_outbounds t) ?own (pl_outbounds p) m1 w = (res, w')"
      by (rule apply_plan_outbound [OF ap KOutbound])
    note fr = outbounds_frame [OF assms(1) run o1]
    have "ibs w' = ibs w \<and> rls w' = rls w" using outbounds_rest [OF assms(1) run] by blast
    then show ?thesis using fr KOutbound by (cases k) (auto simp: fixed_of_def)
  next
    case KInbound
    obtain res m1 where run: "inbounds c now in_proto (t_fixed_inbounds t) ?own (pl_topology p) m1 w = (res, w')"
      by (rule apply_plan_inbound [OF ap KInbound])
    note fr = inbounds_frame [OF assms(2) run o2]
    have "obs w' = obs w \<and> rls w' = rls w" using fr [of "''''"] by (simp add: replaceable_def)
    then show ?thesis using fr KInbound by (cases k) (auto simp: fixed_of_def)
  next
    case KRouting
    obtain res m1 where run: "routing c now (t_fixed_routing t) ?own (pl_topology p) m1 w = (res, w')"
      by (rule apply_plan_routing [OF ap KRouting])
    show ?thesis using routing_frame [OF run o3] KRouting by (cases k) (auto simp: fixed_of_def kept_rules_def)
  qed
qed

text \<open>
  A plan that was applied: in the namespace Xray holds exactly the ids of the plan, built from it.
\<close>

definition applied_ok :: "(spec \<Rightarrow> err + handler) \<Rightarrow> (tunnel \<Rightarrow> err + handler) \<Rightarrow> target \<Rightarrow> plan \<Rightarrow> 'w \<Rightarrow> bool" where
  "applied_ok to_proto in_proto t p w \<longleftrightarrow>
     {u \<in> held obs ibs rls (pl_kind p) w. plan_replaceable t (pl_source p) (pl_kind p) u} = set (plan_ids p) \<and>
     distinct (plan_ids p) \<and>
     (case pl_kind p of
        KOutbound \<Rightarrow> \<forall>e \<in> set (pl_outbounds p). \<exists>h. to_proto e = Inr h \<and> obs w (get_tag e) = Some h
      | KInbound \<Rightarrow> \<forall>tn \<in> set (pl_topology p). \<exists>h. in_proto tn = Inr h \<and> ibs w (tn_inbound tn) = Some h
      | KRouting \<Rightarrow>
          filter (\<lambda>q. plan_replaceable t (pl_source p) KRouting (rl_ruletag q)) (rls w) = tunnel_rules (pl_topology p))"

lemma applied_ok_cong:
  assumes "samex (pl_kind p) (\<lambda>_. True) w w'"
  shows "applied_ok to_proto in_proto t p w' = applied_ok to_proto in_proto t p w"
  using assms same_on_held [OF assms] by (cases "pl_kind p") (simp_all add: applied_ok_def)

lemma apply_plan_ok:
  assumes "proto_ok to_proto h_tag" "in_ok in_proto" "plan_owned t p"
    and ap: "apply_plan c now to_proto in_proto p t m w = (r, w')" and ok: "ar_failed r = 0"
    and dist: "pl_kind p = KRouting \<Longrightarrow> distinct (map tn_route (pl_topology p))"
  shows "applied_ok to_proto in_proto t p w'"
proof -
  let ?own = "owns (source_ns t (pl_source p))"
  have o1: "\<forall>e \<in> set (pl_outbounds p). ?own KOutbound (get_tag e)"
    and o2: "\<forall>tn \<in> set (pl_topology p). ?own KInbound (tn_inbound tn)"
    and o3: "\<forall>tn \<in> set (pl_topology p). ?own KRouting (tn_route tn)"
    using assms(3) tunnel_wf_owns(4,5) by (auto simp: plan_owned_def simp del: owns.simps)
  show ?thesis
  proof (cases "pl_kind p")
    case KOutbound
    obtain q m1 where run: "outbounds c now to_proto (t_fixed_outbounds t) ?own (pl_outbounds p) m1 w = (Inr q, w')"
      "ar_failed q = 0"
      using apply_plan_outbound [OF ap KOutbound] ok by metis
    note su = outbounds_success [OF assms(1) run] and nc = success_no_conflict(1) [OF run]
    have d: "distinct (map get_tag (pl_outbounds p))" using su by metis
    have repl: "plan_replaceable t (pl_source p) KOutbound u" if "u \<in> get_tag ` set (pl_outbounds p)" for u
      using that nc o1 by (auto simp: replaceable_def fixed_of_def simp del: owns.simps)
    have "u \<in> dom (obs w') \<and> plan_replaceable t (pl_source p) KOutbound u \<longleftrightarrow> u \<in> get_tag ` set (pl_outbounds p)" for u
    proof (cases "u \<in> get_tag ` set (pl_outbounds p)")
      case True
      then show ?thesis using su repl by auto
    next
      case False
      then have "obs w' u = (if replaceable (t_fixed_outbounds t) ?own KOutbound u then None else obs w u)"
        using su by blast
      then show ?thesis using False by (auto simp: fixed_of_def)
    qed
    then show ?thesis using su d KOutbound by (auto simp: applied_ok_def plan_ids_def)
  next
    case KInbound
    obtain q m1 where run: "inbounds c now in_proto (t_fixed_inbounds t) ?own (pl_topology p) m1 w = (Inr q, w')"
      "ar_failed q = 0"
      using apply_plan_inbound [OF ap KInbound] ok by metis
    note su = inbounds_success [OF assms(2) run] and nc = success_no_conflict(2) [OF run]
    have d: "distinct (map tn_inbound (pl_topology p))" using su by metis
    have repl: "plan_replaceable t (pl_source p) KInbound u" if "u \<in> tn_inbound ` set (pl_topology p)" for u
      using that nc o2 by (auto simp: replaceable_def fixed_of_def simp del: owns.simps)
    have "u \<in> dom (ibs w') \<and> plan_replaceable t (pl_source p) KInbound u \<longleftrightarrow> u \<in> tn_inbound ` set (pl_topology p)" for u
    proof (cases "u \<in> tn_inbound ` set (pl_topology p)")
      case True
      then show ?thesis using su repl by auto
    next
      case False
      then have "ibs w' u = (if replaceable (t_fixed_inbounds t) ?own KInbound u then None else ibs w u)"
        using su by blast
      then show ?thesis using False by (auto simp: fixed_of_def)
    qed
    then show ?thesis using su d KInbound by (auto simp: applied_ok_def plan_ids_def)
  next
    case KRouting
    obtain q m1 where run: "routing c now (t_fixed_routing t) ?own (pl_topology p) m1 w = (Inr q, w')"
      "ar_failed q = 0"
      using apply_plan_routing [OF ap KRouting] ok by metis
    note su = routing_success [OF run] and nc = success_no_conflict(3) [OF run]
    let ?R = "\<lambda>q. plan_replaceable t (pl_source p) KRouting (rl_ruletag q)"
    have repl: "\<forall>q \<in> set (tunnel_rules (pl_topology p)). ?R q"
      using nc o3 by (auto simp: tunnel_rules_def rule_of_def tunnel_rule_def replaceable_def fixed_of_def simp del: owns.simps)
    have rl: "rls w' = kept_rules (t_fixed_routing t) ?own (rls w) @ tunnel_rules (pl_topology p)" using su by blast
    have "filter ?R (rls w') = tunnel_rules (pl_topology p)"
      unfolding rl using repl by (simp add: kept_rules_def fixed_of_def)
    moreover from this have "{u \<in> rl_ruletag ` set (rls w'). plan_replaceable t (pl_source p) KRouting u} =
        tn_route ` set (pl_topology p)"
      by (simp only: rules_tags_filter tunnel_rules_tags)
    ultimately show ?thesis using dist KRouting by (simp add: applied_ok_def plan_ids_def)
  qed
qed

end

lemma filter_key: "distinct (map f xs) \<Longrightarrow> x \<in> set xs \<Longrightarrow> filter (\<lambda>y. f y = f x) xs = [x]"
proof (induction xs)
  case (Cons y ys)
  have "filter (\<lambda>z. f z = f x) ys = []" if "y = x"
    using Cons.prems(1) that by (auto simp: filter_empty_conv image_iff) 
  then show ?case using Cons by auto
qed simp

lemma tunnel_rules_filter:
  assumes "distinct (map tn_route tns)" "tn \<in> set tns"
  shows "filter (\<lambda>q. rl_ruletag q = tn_route tn) (tunnel_rules tns) = [\<lparr>rl_tag = tn_current tn, rl_ruletag = tn_route tn\<rparr>]"
  using filter_key [OF assms] by (simp add: tunnel_rules_def filter_map comp_def rule_of_def tunnel_rule_def)

lemma build_source_current:
  assumes "tn \<in> set (fst (build_source es src t))"
  shows "tn_current tn = tn_initial tn"
proof -
  obtain l pr where lp: "t_inbound_socks t = Some l" "s_ports src = Some pr"
    using assms build_source_None [of t src es] by fastforce
  show ?thesis using assms by (auto simp: build_source_Some [OF lp])
qed

lemma wf_distinct_routes:
  assumes "\<forall>tn \<in> set tns. tunnel_wf t sid tn" "distinct (map tn_inbound tns)"
  shows "distinct (map tn_route tns)"
proof -
  have "map tn_inbound tns = map (\<lambda>tn. ''in-'' @ tn_base_tag tn) tns"
    "map tn_route tns = map (\<lambda>tn. ''route-'' @ tn_base_tag tn) tns"
    using assms(1) by (auto simp: tunnel_wf_def)
  then show ?thesis using assms(2) by (auto simp: distinct_map inj_on_def)
qed

context xray_api
begin

lemma three_plans_installed:
  assumes ok: "proto_ok to_proto h_tag" "in_ok in_proto"
    and own: "plan_owned t p1" "plan_owned t p2" "plan_owned t p3"
    and src: "pl_source p1 = sid" "pl_source p2 = sid" "pl_source p3 = sid"
    and kinds: "pl_kind p1 = KOutbound" "pl_kind p2 = KInbound" "pl_kind p3 = KRouting"
    and topo: "pl_topology p3 = pl_topology p2"
    and run: "apply_plan c now to_proto in_proto p1 t me w = (r1, w1)" "apply_plan c now to_proto in_proto p2 t me w1 = (r2, w2)"
      "apply_plan c now to_proto in_proto p3 t me w2 = (r3, w3)"
    and good: "ar_failed r1 = 0" "ar_failed r2 = 0" "ar_failed r3 = 0"
  shows "applied_ok to_proto in_proto t p1 w3 \<and> applied_ok to_proto in_proto t p2 w3 \<and>
    applied_ok to_proto in_proto t p3 w3"
proof -
  have a1: "applied_ok to_proto in_proto t p1 w1"
    using kinds(1) by (intro apply_plan_ok [OF ok own(1) run(1) good(1)]) simp
  have a2: "applied_ok to_proto in_proto t p2 w2"
    using kinds(2) by (intro apply_plan_ok [OF ok own(2) run(2) good(2)]) simp
  have "distinct (map tn_inbound (pl_topology p2))"
    using a2 kinds(2) by (simp add: applied_ok_def plan_ids_def)
  then have d: "distinct (map tn_route (pl_topology p3))"
    using wf_distinct_routes own(2) topo by (auto simp: plan_owned_def)
  have a3: "applied_ok to_proto in_proto t p3 w3"
    by (rule apply_plan_ok [OF ok own(3) run(3) good(3) d])
  have f2: "samex KOutbound (\<lambda>_. True) w1 w2"
    using apply_plan_frame [OF ok own(2) run(2), of KOutbound] kinds(2) by simp
  have f3: "samex k (\<lambda>_. True) w2 w3" if "k \<noteq> KRouting" for k
    using apply_plan_frame [OF ok own(3) run(3), of k] kinds(3) that by simp
  have "applied_ok to_proto in_proto t p2 w3"
    using applied_ok_cong [of p2 w2 w3] f3 [of KInbound] a2 kinds(2) by simp
  moreover have "applied_ok to_proto in_proto t p1 w3"
    using applied_ok_cong [of p1 w1 w2] applied_ok_cong [of p1 w2 w3] f2 f3 [of KOutbound] a1 kinds(1) by simp
  ultimately show ?thesis using a3 by blast
qed

lemma source_installed:
  assumes ok: "proto_ok to_proto h_tag" "in_ok in_proto"
    and src: "0 \<le> s_max_active src" "\<forall>e \<in> set (mf_entries m). base_tag_of (s_id src) (en_tag e)"
    and tun: "t_inbound_socks t \<noteq> None" "s_ports src \<noteq> None"
    and plans: "map (\<lambda>k. plan_for_source lib sj k m src t) [KOutbound, KInbound, KRouting] = [Inr p1, Inr p2, Inr p3]"
    and run: "apply_plan c now to_proto in_proto p1 t me w = (r1, w1)" "apply_plan c now to_proto in_proto p2 t me w1 = (r2, w2)"
      "apply_plan c now to_proto in_proto p3 t me w2 = (r3, w3)"
    and good: "map ar_failed [r1, r2, r3] = [0, 0, 0]"
  shows "(\<forall>tn \<in> set (fst (build_source (mf_entries m) src t)).
      (\<exists>h. to_proto (po_json (tn_out_initial tn)) = Inr h \<and> obs w3 (tn_initial tn) = Some h) \<and>
      (\<exists>h. in_proto tn = Inr h \<and> ibs w3 (tn_inbound tn) = Some h) \<and>
      filter (\<lambda>q. rl_ruletag q = tn_route tn) (rls w3) = [\<lparr>rl_tag = tn_initial tn, rl_ruletag = tn_route tn\<rparr>]) \<and>
    {u \<in> dom (obs w3). plan_replaceable t (s_id src) KOutbound u} = set (pl_ids p1) \<and>
    {u \<in> dom (ibs w3). plan_replaceable t (s_id src) KInbound u} = set (pl_ids p2) \<and>
    {u \<in> rl_ruletag ` set (rls w3). plan_replaceable t (s_id src) KRouting u} = set (pl_ids p3)"
proof -
  have p: "plan_for_source lib sj KOutbound m src t = Inr p1" "plan_for_source lib sj KInbound m src t = Inr p2"
    "plan_for_source lib sj KRouting m src t = Inr p3" using plans by simp_all
  have g: "ar_failed r1 = 0" "ar_failed r2 = 0" "ar_failed r3 = 0" using good by simp_all
  let ?T = "fst (build_source (mf_entries m) src t)"
  note sel1 = plan_for_source_sel [OF p(1)] and sel2 = plan_for_source_sel [OF p(2)] and sel3 = plan_for_source_sel [OF p(3)]
  note owned = plan_for_source_owned [OF _ src]
  have all: "applied_ok to_proto in_proto t p1 w3 \<and> applied_ok to_proto in_proto t p2 w3 \<and> applied_ok to_proto in_proto t p3 w3"
    by (rule three_plans_installed [OF ok owned [OF p(1)] owned [OF p(2)] owned [OF p(3)] sel1(2) sel2(2) sel3(2)
        sel1(1) sel2(1) sel3(1) _ run g]) (simp only: sel2(3) sel3(3))
  have out: "pl_outbounds p1 = map (\<lambda>tn. po_json (tn_out_initial tn)) ?T"
    using sel1(3,4) tun by (simp add: target_outbounds_def)
  have wf: "tunnel_wf t (s_id src) tn" if "tn \<in> set ?T" for tn
    by (rule build_source_wf [OF src that])
  have ids: "set (plan_ids p1) = set (pl_ids p1)" "set (plan_ids p2) = set (pl_ids p2)" "set (plan_ids p3) = set (pl_ids p3)"
    using plan_for_source_ids p by simp_all
  have h1: "{u \<in> dom (obs w3). plan_replaceable t (s_id src) KOutbound u} = set (pl_ids p1)"
    and h2: "{u \<in> dom (ibs w3). plan_replaceable t (s_id src) KInbound u} = set (pl_ids p2)"
    and h3: "{u \<in> rl_ruletag ` set (rls w3). plan_replaceable t (s_id src) KRouting u} = set (pl_ids p3)"
    using all sel1(1,2) sel2(1,2) sel3(1,2) unfolding applied_ok_def ids by simp_all
  have d: "distinct (map tn_route ?T)"
    using all sel3(1,3) by (simp add: applied_ok_def plan_ids_def)
  have R: "filter (\<lambda>q. plan_replaceable t (s_id src) KRouting (rl_ruletag q)) (rls w3) = tunnel_rules ?T"
    using all sel3(1-3) by (simp add: applied_ok_def)
  have each: "(\<exists>h. to_proto (po_json (tn_out_initial tn)) = Inr h \<and> obs w3 (tn_initial tn) = Some h) \<and>
      (\<exists>h. in_proto tn = Inr h \<and> ibs w3 (tn_inbound tn) = Some h) \<and>
      filter (\<lambda>q. rl_ruletag q = tn_route tn) (rls w3) = [\<lparr>rl_tag = tn_initial tn, rl_ruletag = tn_route tn\<rparr>]"
    if tn: "tn \<in> set ?T" for tn
  proof (intro conjI)
    have tag: "get_tag (po_json (tn_out_initial tn)) = tn_initial tn" using wf [OF tn] by (simp add: tunnel_wf_def)
    have "po_json (tn_out_initial tn) \<in> set (pl_outbounds p1)" using out tn by simp
    then show "\<exists>h. to_proto (po_json (tn_out_initial tn)) = Inr h \<and> obs w3 (tn_initial tn) = Some h"
      using all sel1(1) tag by (fastforce simp: applied_ok_def)
    show "\<exists>h. in_proto tn = Inr h \<and> ibs w3 (tn_inbound tn) = Some h"
      using all sel2(1,3) tn by (simp add: applied_ok_def)
    have cur: "tn_current tn = tn_initial tn" using build_source_current [OF tn] .
    have "tn_route tn \<in> set (pl_ids p3)"
      using tn sel3(1,3) by (simp add: plan_for_source_ids [OF p(3)] plan_ids_def)
    then have rep1: "plan_replaceable t (s_id src) KRouting (tn_route tn)" using h3 by blast
    have "filter (\<lambda>q. rl_ruletag q = tn_route tn) (rls w3) =
        filter (\<lambda>q. rl_ruletag q = tn_route tn)
          (filter (\<lambda>q. plan_replaceable t (s_id src) KRouting (rl_ruletag q)) (rls w3))"
      using rep1 by (auto simp: filter_filter intro!: filter_cong)
    then show "filter (\<lambda>q. rl_ruletag q = tn_route tn) (rls w3) = [\<lparr>rl_tag = tn_initial tn, rl_ruletag = tn_route tn\<rparr>]"
      unfolding R using tunnel_rules_filter [OF d tn] cur by simp
  qed
  show ?thesis using each h1 h2 h3 by blast
qed

end

lemma map_eq_iff: "(\<And>x y. f x = f y \<longleftrightarrow> g x = g y) \<Longrightarrow> map f l = map f l' \<longleftrightarrow> map g l = map g l'"
proof (induction l arbitrary: l')
  case (Cons x l)
  then show ?case by (cases l') auto
qed simp

section \<open>Properties\<close>

text \<open>
  C24: When the three plans of a source with tunnels are applied without a failure, every tunnel works:
  its outbound and its SOCKS inbound are in Xray, built from the plan, and exactly one rule carries its
  route tag, sending its inbound to its outbound. Of each kind Xray then holds in the namespace exactly
  the ids the plan names (fixed tags apart).
\<close>

theorem source_plans_install:
  assumes api: "xray_api c obs ibs rls" and ok: "proto_ok to_proto h_tag" "in_ok in_proto"
    and src: "0 \<le> s_max_active src" "\<forall>e \<in> set (mf_entries m). base_tag_of (s_id src) (en_tag e)"
    and tun: "t_inbound_socks t \<noteq> None" "s_ports src \<noteq> None"
    and plans: "map (\<lambda>k. plan_for_source lib sj k m src t) [KOutbound, KInbound, KRouting] = [Inr p1, Inr p2, Inr p3]"
    and run: "apply_plan c now to_proto in_proto p1 t me w = (r1, w1)" "apply_plan c now to_proto in_proto p2 t me w1 = (r2, w2)"
      "apply_plan c now to_proto in_proto p3 t me w2 = (r3, w3)"
    and good: "map ar_failed [r1, r2, r3] = [0, 0, 0]"
  shows "(\<forall>tn \<in> set (fst (build_source (mf_entries m) src t)).
      (\<exists>h. to_proto (po_json (tn_out_initial tn)) = Inr h \<and> obs w3 (tn_initial tn) = Some h) \<and>
      (\<exists>h. in_proto tn = Inr h \<and> ibs w3 (tn_inbound tn) = Some h) \<and>
      filter (\<lambda>q. rl_ruletag q = tn_route tn) (rls w3) = [\<lparr>rl_tag = tn_initial tn, rl_ruletag = tn_route tn\<rparr>]) \<and>
    {u \<in> dom (obs w3). plan_replaceable t (s_id src) KOutbound u} = set (pl_ids p1) \<and>
    {u \<in> dom (ibs w3). plan_replaceable t (s_id src) KInbound u} = set (pl_ids p2) \<and>
    {u \<in> rl_ruletag ` set (rls w3). plan_replaceable t (s_id src) KRouting u} = set (pl_ids p3)"
  by (rule xray_api.source_installed [OF assms])

definition w_one_entry :: manifest where
  "w_one_entry = w_manifest\<lparr>mf_entries := [w_vless_entry ''vl-new'']\<rparr>"

definition w_plan :: "kind \<Rightarrow> plan" where
  "w_plan k = projr (plan_for_source w_lib (\<lambda>_. '''') k w_one_entry w_vl w_target)"

definition w_run :: "kind \<Rightarrow> server \<Rightarrow> report \<times> server" where
  "w_run k = apply_plan w_client (\<lambda>_. 0) w_proto w_in (w_plan k) w_target w_meta"

definition w_run_all :: "nat list \<times> server" where
  "w_run_all =
     (let (r1, s1) = w_run KOutbound w_server; (r2, s2) = w_run KInbound s1; (r3, s3) = w_run KRouting s2
      in (map ar_failed [r1, r2, r3], s3))"

lemma w_plan_ok: "plan_for_source w_lib (\<lambda>_. '''') k w_one_entry w_vl w_target = Inr (w_plan k)"
  by (simp add: w_plan_def plan_for_source_def w_vl_def blank_defs candidate_type_def Let_def split: prod.split)

lemma w_run_all_ok: "fst w_run_all = [0, 0, 0]"
  by code_simp

lemma w_one_tags: "\<forall>e \<in> set (mf_entries w_one_entry). base_tag_of (s_id w_vl) (en_tag e)"
  by (simp add: w_one_entry_def w_vless_entry_def w_entry_def base_tag_of_def w_config_defs)

lemma source_plans_install_witness:
  "filter (\<lambda>q. rl_ruletag q = ''route-vl-new'') (fs_rules (snd w_run_all)) =
     [\<lparr>rl_tag = ''obs-vl-new'', rl_ruletag = ''route-vl-new''\<rparr>]"
proof -
  obtain r1 s1 where 1: "w_run KOutbound w_server = (r1, s1)" by fastforce
  obtain r2 s2 where 2: "w_run KInbound s1 = (r2, s2)" by fastforce
  obtain r3 s3 where 3: "w_run KRouting s2 = (r3, s3)" by fastforce
  have all: "w_run_all = (map ar_failed [r1, r2, r3], s3)" by (simp add: w_run_all_def 1 2 3)
  then have good: "map ar_failed [r1, r2, r3] = [0, 0, 0]" using w_run_all_ok unfolding all fst_conv by blast
  have act: "0 \<le> s_max_active w_vl" and tun: "t_inbound_socks w_target \<noteq> None" "s_ports w_vl \<noteq> None"
    by (simp_all add: w_config_defs)
  have plans: "map (\<lambda>k. plan_for_source w_lib (\<lambda>_. '''') k w_one_entry w_vl w_target) [KOutbound, KInbound, KRouting] =
      [Inr (w_plan KOutbound), Inr (w_plan KInbound), Inr (w_plan KRouting)]"
    by (simp add: w_plan_ok)
  have T: "fst (build_source (mf_entries w_one_entry) w_vl w_target) = [new_tunnel (w_vless_entry ''vl-new'') ''vl'' w_target 100]"
    by (simp add: build_source_def source_entries_def candidate_type_def by_tag_def capacity_def entry_cmp_def
      cmp_ord_def w_one_entry_def w_vl_def w_target_def blank_defs)
  show ?thesis
    using source_plans_install [OF w_api w_proto_ok w_in_ok act w_one_tags tun plans 1 [unfolded w_run_def]
        2 [unfolded w_run_def] 3 [unfolded w_run_def] good]
    unfolding T all by (simp add: w_vless_entry_def w_entry_def w_target_def)
qed

text \<open>
  C25: The apply of any plan of a source of a valid configuration, whatever it returns, leaves every
  resource of every other source of the target and every fixed resource as it was.
\<close>

theorem plan_spares_sources:
  assumes api: "xray_api c obs ibs rls" and ok: "proto_ok to_proto h_tag" "in_ok in_proto"
    and conf: "sources_ok sub res" "a \<in> set (sub_sources sub)" "b \<in> set (sub_sources sub)" "a \<noteq> b"
    and src: "0 \<le> s_max_active a" "\<forall>e \<in> set (mf_entries m). base_tag_of (s_id a) (en_tag e)"
    and plan: "plan_for_source lib sj k m a (sub_target sub) = Inr p"
    and run: "apply_plan c now to_proto in_proto p (sub_target sub) me w = (r, w')"
  shows "same_on obs ibs rls k' (\<lambda>u. owns (source_ns (sub_target sub) (s_id b)) k' u \<or> u \<in> set (fixed_of (sub_target sub) k')) w w'"
proof -
  have fr: "same_on obs ibs rls k' (\<lambda>u. k' \<noteq> pl_kind p \<or> \<not> plan_replaceable (sub_target sub) (pl_source p) k' u) w w'"
    by (rule xray_api.apply_plan_frame [OF api ok plan_for_source_owned [OF plan src] run])
  have "\<not> plan_replaceable (sub_target sub) (pl_source p) k' u"
    if "owns (source_ns (sub_target sub) (s_id b)) k' u \<or> u \<in> set (fixed_of (sub_target sub) k')" for u
    using that namespaces_disjoint [OF conf(1,3,2) not_sym [OF conf(4)]] plan_for_source_sel(2) [OF plan]
    by (auto simp: replaceable_def simp del: owns.simps)
  then show ?thesis by (intro same_on_mono [OF fr]) blast
qed

lemma plan_spares_sources_witness:
  "fake_obs (snd (w_run KOutbound w_server)) ''obs-wg-1'' = Some \<lparr>h_tag = ''obs-wg-1'', h_body = ''w''\<rparr>"
proof -
  obtain r1 s1 where 1: "w_run KOutbound w_server = (r1, s1)" by fastforce
  have s: "w_vl \<in> set (sub_sources w_sub)" "w_wg \<in> set (sub_sources w_sub)" "w_vl \<noteq> w_wg" "0 \<le> s_max_active w_vl"
    by (simp_all add: w_sub_def) (simp_all add: w_config_defs)
  have t: "sub_target w_sub = w_target" by (simp add: w_sub_def)
  have "same_on fake_obs fake_ibs fs_rules KOutbound
      (\<lambda>u. owns (source_ns w_target ''wg'') KOutbound u \<or> u \<in> set (fixed_of w_target KOutbound)) w_server s1"
    using plan_spares_sources [OF w_api w_proto_ok w_in_ok w_sub_ok s w_one_tags, unfolded t,
        OF w_plan_ok 1 [unfolded w_run_def], of KOutbound]
    by (simp add: w_wg_def del: owns.simps)
  then have "fake_obs s1 ''obs-wg-1'' = fake_obs w_server ''obs-wg-1''" by (simp add: w_target_def)
  then show ?thesis
    by (simp add: 1) (simp add: w_server_def new_server_def fake_obs_def stored_def)
qed

text \<open>
  The hash of an inbound or routing plan changes exactly when the sync loop has something to
  apply: two plans of one kind have the same hash exactly when their tunnels agree in what Xray gets
  of them. (The texts of tags and addresses need no JSON escape, and SHA-256 tells the two plans'
  texts apart.)
\<close>

theorem plan_hash_tells:
  assumes plain: "\<forall>tn \<in> set topo \<union> set topo'. list_all json_plain [tn_inbound tn, tn_listen tn, tn_route tn, tn_current tn]"
    and sha: "inj_on (lib_sha256 lib) (json_text ` {JArray (map inbound_item topo), JArray (map inbound_item topo'),
        JArray (map route_item topo), JArray (map route_item topo')})"
  shows "(pl_hash (topology_plan lib sj KInbound sid topo) = pl_hash (topology_plan lib sj KInbound sid topo') \<longleftrightarrow>
      map (\<lambda>tn. (tn_inbound tn, tn_listen tn, tn_port tn)) topo = map (\<lambda>tn. (tn_inbound tn, tn_listen tn, tn_port tn)) topo') \<and>
    (pl_hash (topology_plan lib sj KRouting sid topo) = pl_hash (topology_plan lib sj KRouting sid topo') \<longleftrightarrow>
      map (\<lambda>tn. tunnel_rule tn (tn_current tn)) topo = map (\<lambda>tn. tunnel_rule tn (tn_current tn)) topo')"
proof
  have nm: "json_plain ''inboundTag''" "json_plain ''listen''" "json_plain ''port''" "json_plain ''routeTag''" "json_plain ''outboundTag''"
    by (simp_all add: json_plain_def)
  let ?I = "\<lambda>l. JArray (map inbound_item l)" and ?R = "\<lambda>l. JArray (map route_item l)"
  have inbound: "map inbound_item l = map inbound_item l' \<longleftrightarrow>
      map (\<lambda>tn. (tn_inbound tn, tn_listen tn, tn_port tn)) l = map (\<lambda>tn. (tn_inbound tn, tn_listen tn, tn_port tn)) l'" for l l'
    by (rule map_eq_iff) (simp add: inbound_item_def)
  have route: "map route_item l = map route_item l' \<longleftrightarrow>
      map (\<lambda>tn. tunnel_rule tn (tn_current tn)) l = map (\<lambda>tn. tunnel_rule tn (tn_current tn)) l'" for l l'
    by (rule map_eq_iff) (auto simp: route_item_def tunnel_rule_def)
  have pl: "plain_value (?I l)" "plain_value (?R l)" if "l \<in> {topo, topo'}" for l
  proof -
    have tn: "plain_value (inbound_item tn) \<and> plain_value (route_item tn)" if "tn \<in> set l" for tn
    proof -
      have t2: "tn \<in> set topo \<union> set topo'" using that \<open>l \<in> {topo, topo'}\<close> by blast
      have "list_all json_plain [tn_inbound tn, tn_listen tn, tn_route tn, tn_current tn]"
        by (rule bspec [OF plain t2])
      then show ?thesis using nm by (simp add: inbound_item_def route_item_def)
    qed
    show "plain_value (?I l)" "plain_value (?R l)" using tn by simp_all
  qed
  have hI: "json_hash lib (?I topo) = json_hash lib (?I topo') \<longleftrightarrow> ?I topo = ?I topo'"
    by (rule json_hash_iff [OF pl(1) pl(1) sha]) simp_all
  have hR: "json_hash lib (?R topo) = json_hash lib (?R topo') \<longleftrightarrow> ?R topo = ?R topo'"
    by (rule json_hash_iff [OF pl(2) pl(2) sha]) simp_all
  show "pl_hash (topology_plan lib sj KInbound sid topo) = pl_hash (topology_plan lib sj KInbound sid topo') \<longleftrightarrow>
      map (\<lambda>tn. (tn_inbound tn, tn_listen tn, tn_port tn)) topo = map (\<lambda>tn. (tn_inbound tn, tn_listen tn, tn_port tn)) topo'"
    using hI inbound [of topo topo'] by (simp add: topology_plan_def fill_def)
  show "pl_hash (topology_plan lib sj KRouting sid topo) = pl_hash (topology_plan lib sj KRouting sid topo') \<longleftrightarrow>
      map (\<lambda>tn. tunnel_rule tn (tn_current tn)) topo = map (\<lambda>tn. tunnel_rule tn (tn_current tn)) topo'"
    using hR route [of topo topo'] by (simp add: topology_plan_def fill_def)
qed

lemma plan_hash_tells_witness:
  "pl_hash (topology_plan (w_lib\<lparr>lib_sha256 := id\<rparr>) (\<lambda>_. '''') KInbound ''vl'' [w_tunnel]) \<noteq>
   pl_hash (topology_plan (w_lib\<lparr>lib_sha256 := id\<rparr>) (\<lambda>_. '''') KInbound ''vl'' [w_tunnel\<lparr>tn_port := 101\<rparr>])"
proof -
  have "\<forall>tn \<in> set [w_tunnel] \<union> set [w_tunnel\<lparr>tn_port := 101\<rparr>].
      list_all json_plain [tn_inbound tn, tn_listen tn, tn_route tn, tn_current tn]"
    by (simp add: w_tunnel_def w_vless_entry_def w_entry_def new_tunnel_def w_target_def blank_defs json_plain_def Let_def)
  note t = plan_hash_tells [OF this, of "w_lib\<lparr>lib_sha256 := id\<rparr>" "\<lambda>_. ''''" "''vl''"]
  show ?thesis using conjunct1 [OF t] by (simp add: w_tunnel_def)
qed

text \<open>
  The ids and the hash that the state keeps for the tunnels of a source (\<^verbatim>\<open>TopologyPlan\<close>) are
  those its own plan has, so a sync after a replaced tunnel finds nothing to apply.
\<close>

theorem topology_plan_agrees:
  assumes "plan_for_source lib sj k m src t = Inr p" "t_inbound_socks t \<noteq> None" "s_ports src \<noteq> None"
  shows "pl_ids (topology_plan lib sj k (s_id src) (pl_topology p)) = pl_ids p \<and>
    pl_hash (topology_plan lib sj k (s_id src) (pl_topology p)) = pl_hash p"
  using assms
  by (auto simp: plan_for_source_def topology_plan_def fill_def target_outbounds_def Let_def
      split: if_splits prod.splits kind.splits)

lemma topology_plan_agrees_witness:
  "pl_ids (topology_plan w_lib (\<lambda>_. '''') KInbound ''vl'' (pl_topology (w_plan KInbound))) = pl_ids (w_plan KInbound)"
  using topology_plan_agrees [OF w_plan_ok, of KInbound] by (simp add: w_config_defs)

end
