(* ===== verification/Scd_State.thy ===== *)
theory Scd_State
  imports Scd_Plan
begin

text \<open>
  The runtime state of the daemon (\<^verbatim>\<open>internal/scd/state\<close>): per target the saved hashes and topology of
  every source, the monitor state of every tunnel, the dependency waits and the episodes of failures.

  A \<^verbatim>\<open>*Target\<close> is a value here and an update returns the new one: every write of the code happens
  inside \<^verbatim>\<open>Update\<close>, under the state lock. A nil pointer is \<open>None\<close>, the zero time of a flap too. The
  locks themselves and the goroutines that wait for them are not part of the model.
\<close>

section \<open>The state\<close>

datatype tunnel_state = TIdle | THealthy | TDegraded | TRepairing

record flap_state =
  fl_times :: "time list"
  fl_since :: "time option"
  fl_count :: nat
  fl_last_fail :: "time option"

record tunnel_monitor =
  tm_state :: tunnel_state
  tm_checked :: "time option"
  tm_success :: "time option"
  tm_failure :: "time option"
  tm_status :: "int option"
  tm_latency :: "int option"
  tm_ok_status :: "int option"
  tm_ok_latency :: "int option"
  tm_error :: string
  tm_failures :: nat
  tm_in_row :: nat
  tm_failing_since :: "time option"
  tm_repair_error :: string
  tm_rejoin_error :: string
  tm_flap :: flap_state

definition no_flap :: flap_state where
  "no_flap = \<lparr>fl_times = [], fl_since = None, fl_count = 0, fl_last_fail = None\<rparr>"

text \<open>A new tunnel: \<^verbatim>\<open>TunnelMonitor{State: TunnelIdle}\<close>.\<close>

definition idle_monitor :: tunnel_monitor where
  "idle_monitor =
     \<lparr>tm_state = TIdle, tm_checked = None, tm_success = None, tm_failure = None, tm_status = None, tm_latency = None,
      tm_ok_status = None, tm_ok_latency = None, tm_error = '''', tm_failures = 0, tm_in_row = 0,
      tm_failing_since = None, tm_repair_error = '''', tm_rejoin_error = '''', tm_flap = no_flap\<rparr>"

record mtunnel =
  mt_mapping :: tunnel
  mt_monitor :: tunnel_monitor

datatype dep_status = DepHealthy | DepUnhealthy | DepUnknown

text \<open>\<open>dh_state\<close> is \<open>None\<close> before the first check.\<close>

record dep_health =
  dh_state :: "dep_status option"
  dh_since :: "time option"
  dh_recovered :: "time option"
  dh_grace :: "time option"

record source_wait =
  sw_since :: "time option"
  sw_reset_at :: "time option"
  sw_deps :: "(string, dep_health) gomap"

record source_error =
  se_code :: string
  se_message :: string
  se_at :: time

record xray_issue =
  xi_error :: string
  xi_since :: time

datatype sel_status = SelNever | SelOK | SelError

datatype sel_mode = ModeOverride | ModeSingle | ModePool | ModeNone | ModeUnknown

text \<open>\<^verbatim>\<open>SelectionState\<close>; the mode is \<open>None\<close> before the first poll.\<close>

record selection_state =
  sn_state :: sel_status
  sn_tag :: string
  sn_mode :: "sel_mode option"
  sn_selected :: string
  sn_override :: string
  sn_principle :: "string list"
  sn_since :: "time option"
  sn_previous :: string
  sn_checked :: "time option"
  sn_success :: "time option"
  sn_failure :: "time option"
  sn_error :: string
  sn_failures :: nat
  sn_not_found :: bool
  sn_observatory :: "(string, observation) gomap option"
  sn_obs_error :: string
  sn_obs_checked :: "time option"
  sn_foreign :: "string list"

datatype bal_status = BIdle | BHealthy | BDegraded

datatype push_status = PIdle | PPending | POK | PFailed

record balancer_mon =
  bm_state :: bal_status
  bm_push_state :: push_status
  bm_push_status :: string
  bm_push_msg :: string
  bm_push_ping :: "int option"
  bm_checked :: "time option"
  bm_success :: "time option"
  bm_failure :: "time option"
  bm_status :: "int option"
  bm_latency :: "int option"
  bm_ok_status :: "int option"
  bm_ok_latency :: "int option"
  bm_error :: string
  bm_push_run :: "time option"
  bm_push_success :: "time option"
  bm_push_failure :: "time option"
  bm_push_code :: "int option"
  bm_push_error :: string
  bm_failures :: nat
  bm_failing_since :: "time option"

record balancer_state =
  bs_monitor :: balancer_mon
  bs_selection :: selection_state

definition new_selection :: selection_state where
  "new_selection =
     \<lparr>sn_state = SelNever, sn_tag = '''', sn_mode = None, sn_selected = '''', sn_override = '''', sn_principle = [],
      sn_since = None, sn_previous = '''', sn_checked = None, sn_success = None, sn_failure = None, sn_error = '''',
      sn_failures = 0, sn_not_found = False, sn_observatory = None, sn_obs_error = '''', sn_obs_checked = None,
      sn_foreign = []\<rparr>"

definition new_balancer :: balancer_state where
  "new_balancer =
     \<lparr>bs_monitor =
        \<lparr>bm_state = BIdle, bm_push_state = PIdle, bm_push_status = '''', bm_push_msg = '''', bm_push_ping = None,
         bm_checked = None, bm_success = None, bm_failure = None, bm_status = None, bm_latency = None,
         bm_ok_status = None, bm_ok_latency = None, bm_error = '''', bm_push_run = None, bm_push_success = None,
         bm_push_failure = None, bm_push_code = None, bm_push_error = '''', bm_failures = 0, bm_failing_since = None\<rparr>,
      bs_selection = new_selection\<rparr>"

record source_state =
  so_hashes :: "(kind, string) gomap"
  so_topology :: "tunnel list option"
  so_warnings :: "warning list"
  so_candidate_count :: nat
  so_config_hash :: string
  so_candidates :: "entry list"
  so_selection :: sel_state
  so_no_replacement :: "string set"
  so_no_live :: "time option"

definition new_source :: source_state where
  "new_source =
     \<lparr>so_hashes = [], so_topology = None, so_warnings = [], so_candidate_count = 0, so_config_hash = '''',
      so_candidates = [], so_selection = \<lparr>ss_quarantine = [], ss_better = []\<rparr>, so_no_replacement = {},
      so_no_live = None\<rparr>"

record target_state =
  ts_sync_seen :: bool
  ts_sources :: "(string, source_state) gomap"
  ts_generation :: nat
  ts_tunnels :: "mtunnel list"
  ts_balancers :: "(string, balancer_state) gomap"
  ts_obs_error :: string
  ts_waits :: "(string, source_wait) gomap"
  ts_source_errors :: "(string, source_error) gomap"
  ts_check_failed :: "(string, string) gomap"
  ts_xray_down :: "xray_issue option"
  ts_state_lost :: "(string, time) gomap"
  ts_lost_since :: "time option"
  ts_lost_logged :: bool

definition new_target :: target_state where
  "new_target =
     \<lparr>ts_sync_seen = False, ts_sources = [], ts_generation = 0, ts_tunnels = [], ts_balancers = [],
      ts_obs_error = '''', ts_waits = [], ts_source_errors = [], ts_check_failed = [], ts_xray_down = None,
      ts_state_lost = [], ts_lost_since = None, ts_lost_logged = False\<rparr>"

record memory =
  mm_targets :: "(string, target_state) gomap"
  mm_syncing :: bool

definition new_memory :: memory where
  "new_memory = \<lparr>mm_targets = [], mm_syncing = False\<rparr>"

definition state_key :: "string \<Rightarrow> string \<Rightarrow> string" where
  "state_key sid addr = sid @ ''::'' @ addr"

section \<open>Access\<close>

text \<open>\<^verbatim>\<open>View\<close> and \<^verbatim>\<open>Update\<close>: a missing target is not created.\<close>

definition view :: "string \<Rightarrow> memory \<Rightarrow> target_state option" where
  "view key m = map_of (mm_targets m) key"

definition update :: "string \<Rightarrow> (target_state \<Rightarrow> target_state) \<Rightarrow> memory \<Rightarrow> memory" where
  "update key f m =
     (case map_of (mm_targets m) key of None \<Rightarrow> m
      | Some t \<Rightarrow> m\<lparr>mm_targets := AList.update key (f t) (mm_targets m)\<rparr>)"

definition ensure :: "string \<Rightarrow> memory \<Rightarrow> memory" where
  "ensure key m =
     (if map_of (mm_targets m) key = None
      then m\<lparr>mm_targets := AList.update key new_target (mm_targets m)\<rparr> else m)"

definition mark_synced :: "string \<Rightarrow> memory \<Rightarrow> memory" where
  "mark_synced key m = update key (\<lambda>t. t\<lparr>ts_sync_seen := True\<rparr>) (ensure key m)"

definition ensure_balancer :: "string \<Rightarrow> target_state \<Rightarrow> balancer_state \<times> target_state" where
  "ensure_balancer tag t =
     (case map_of (ts_balancers t) tag of
        Some b \<Rightarrow> (b, t)
      | None \<Rightarrow> (new_balancer, t\<lparr>ts_balancers := AList.update tag new_balancer (ts_balancers t)\<rparr>))"

definition try_start_sync :: "memory \<Rightarrow> bool \<times> memory" where
  "try_start_sync m = (if mm_syncing m then (False, m) else (True, m\<lparr>mm_syncing := True\<rparr>))"

definition end_sync :: "memory \<Rightarrow> memory" where
  "end_sync m = m\<lparr>mm_syncing := False\<rparr>"

section \<open>Topologies\<close>

abbreviation mt_source :: "mtunnel \<Rightarrow> string" where
  "mt_source tn \<equiv> tn_source (mt_mapping tn)"

abbreviation mt_id :: "mtunnel \<Rightarrow> string" where
  "mt_id tn \<equiv> tn_base_id (mt_mapping tn)"

text \<open>The loop of \<^verbatim>\<open>replaceTunnels\<close>; \<open>ins\<close> is its \<^verbatim>\<open>inserted\<close>.\<close>

fun place_tunnels :: "string \<Rightarrow> mtunnel list \<Rightarrow> bool \<Rightarrow> mtunnel list \<Rightarrow> mtunnel list" where
  "place_tunnels sid fresh ins [] = (if ins then [] else fresh)"
| "place_tunnels sid fresh ins (tn # tns) =
     (if mt_source tn = sid then place_tunnels sid fresh ins tns
      else if \<not> ins \<and> sid < mt_source tn then fresh @ tn # place_tunnels sid fresh True tns
      else tn # place_tunnels sid fresh ins tns)"

definition replace_tunnels :: "string \<Rightarrow> mtunnel list \<Rightarrow> target_state \<Rightarrow> target_state" where
  "replace_tunnels sid fresh t =
     t\<lparr>ts_generation := ts_generation t + 1, ts_tunnels := place_tunnels sid fresh False (ts_tunnels t)\<rparr>"

definition tunnels_of :: "string \<Rightarrow> target_state \<Rightarrow> mtunnel list" where
  "tunnels_of sid t = filter (\<lambda>tn. mt_source tn = sid) (ts_tunnels t)"

text \<open>The last tunnel of an id, as a map filled in a loop has it.\<close>

definition by_id :: "mtunnel list \<Rightarrow> string \<Rightarrow> mtunnel option" where
  "by_id tns i = List.find (\<lambda>tn. mt_id tn = i) (rev tns)"

definition fresh_tunnel :: "mtunnel list \<Rightarrow> tunnel \<Rightarrow> mtunnel" where
  "fresh_tunnel old tn =
     \<lparr>mt_mapping = tn, mt_monitor =
        (case by_id old (tn_base_id tn) of
           None \<Rightarrow> idle_monitor
         | Some o1 \<Rightarrow> idle_monitor
             \<lparr>tm_failing_since := tm_failing_since (mt_monitor o1), tm_flap := tm_flap (mt_monitor o1)\<rparr>)\<rparr>"

text \<open>\<^verbatim>\<open>ReplaceSourceTopology\<close>, on the target (created when it is missing).\<close>

definition replace_source_topology ::
    "string \<Rightarrow> tunnel list \<Rightarrow> (kind, string) gomap \<Rightarrow> target_state \<Rightarrow> target_state" where
  "replace_source_topology sid topo hashes t =
     (let topo1 = map (\<lambda>tn. tn\<lparr>tn_source := sid\<rparr>) topo;
          src0 = new_source\<lparr>so_hashes := hashes, so_topology := Some topo1\<rparr>;
          src = (case map_of (ts_sources t) sid of
              None \<Rightarrow> src0
            | Some o1 \<Rightarrow> src0
                \<lparr>so_selection := \<lparr>ss_quarantine = ss_quarantine (so_selection o1), ss_better = []\<rparr>,
                 so_no_replacement := so_no_replacement o1, so_no_live := so_no_live o1\<rparr>);
          old = (if map_of (ts_state_lost t) sid = None then tunnels_of sid t else [])
      in replace_tunnels sid (map (fresh_tunnel old) topo1)
           (t\<lparr>ts_sync_seen := True, ts_sources := AList.update sid src (ts_sources t)\<rparr>))"

definition mem_replace_topology ::
    "string \<Rightarrow> string \<Rightarrow> tunnel list \<Rightarrow> (kind, string) gomap \<Rightarrow> memory \<Rightarrow> memory" where
  "mem_replace_topology key sid topo hashes m =
     update key (replace_source_topology sid topo hashes) (ensure key m)"

text \<open>
  \<^verbatim>\<open>ReplaceSourceTunnel\<close>. \<open>None\<close> stands for a state with a nil tunnel: a tunnel of the topology that the
  target does not have.
\<close>

definition port_cmp :: "tunnel \<Rightarrow> tunnel \<Rightarrow> int" where
  "port_cmp a b = tn_port a - tn_port b"

definition next_topology :: "string \<Rightarrow> string \<Rightarrow> tunnel option \<Rightarrow> tunnel list \<Rightarrow> tunnel list" where
  "next_topology sid old nxt topo =
     sort_by port_cmp
       (filter (\<lambda>tn. old = '''' \<or> tn_base_id tn \<noteq> old) topo @
        (case nxt of None \<Rightarrow> [] | Some n \<Rightarrow> [n\<lparr>tn_source := sid\<rparr>]))"

definition replace_source_tunnel ::
    "text_lib \<Rightarrow> (spec list \<Rightarrow> string) \<Rightarrow> string \<Rightarrow> string \<Rightarrow> tunnel option \<Rightarrow> target_state \<Rightarrow> target_state option" where
  "replace_source_tunnel lib sj sid old nxt t =
     (case map_of (ts_sources t) sid of
        None \<Rightarrow> Some t
      | Some src \<Rightarrow>
     (case so_topology src of
        None \<Rightarrow> Some t
      | Some topo \<Rightarrow>
          let own = tunnels_of sid t @
                (case nxt of None \<Rightarrow> []
                 | Some n \<Rightarrow> [\<lparr>mt_mapping = n\<lparr>tn_source := sid\<rparr>, mt_monitor = idle_monitor\<rparr>]);
              tns = next_topology sid old nxt topo;
              src1 = src\<lparr>so_topology := Some tns,
                so_hashes := map (\<lambda>(k, h). (k, pl_hash (topology_plan lib sj k sid tns))) (so_hashes src),
                so_no_replacement := so_no_replacement src - {old}\<rparr>;
              fresh = map (\<lambda>tn. by_id own (tn_base_id tn)) tns
          in if None \<in> set fresh then None
             else Some (replace_tunnels sid (map the fresh) (t\<lparr>ts_sources := AList.update sid src1 (ts_sources t)\<rparr>))))"

text \<open>\<^verbatim>\<open>updateTunnel\<close> of the monitor: the first tunnel of the id.\<close>

fun update_first :: "string \<Rightarrow> (mtunnel \<Rightarrow> mtunnel) \<Rightarrow> mtunnel list \<Rightarrow> mtunnel list" where
  "update_first i f [] = []"
| "update_first i f (tn # tns) = (if mt_id tn = i then f tn # tns else tn # update_first i f tns)"

definition update_tunnel :: "string \<Rightarrow> (mtunnel \<Rightarrow> mtunnel) \<Rightarrow> target_state \<Rightarrow> target_state" where
  "update_tunnel i f t = t\<lparr>ts_tunnels := update_first i f (ts_tunnels t)\<rparr>"

text \<open>\<^verbatim>\<open>viewTunnel\<close>.\<close>

definition view_tunnel :: "string \<Rightarrow> target_state \<Rightarrow> mtunnel option" where
  "view_tunnel i t = List.find (\<lambda>tn. mt_id tn = i) (ts_tunnels t)"

definition drop_source_tunnels :: "string \<Rightarrow> target_state \<Rightarrow> target_state" where
  "drop_source_tunnels sid t =
     (case map_of (ts_sources t) sid of None \<Rightarrow> t
      | Some src \<Rightarrow>
          replace_tunnels sid []
            (t\<lparr>ts_sources := AList.update sid (src\<lparr>so_topology := Some [], so_hashes := []\<rparr>) (ts_sources t)\<rparr>))"

definition reset_source_hashes :: "string \<Rightarrow> target_state \<Rightarrow> target_state" where
  "reset_source_hashes sid t =
     (case map_of (ts_sources t) sid of None \<Rightarrow> t
      | Some src \<Rightarrow> t\<lparr>ts_sources := AList.update sid (src\<lparr>so_hashes := []\<rparr>) (ts_sources t)\<rparr>)"

definition drop_source :: "string \<Rightarrow> target_state \<Rightarrow> target_state" where
  "drop_source sid t =
     (let t1 = t\<lparr>ts_waits := AList.delete sid (ts_waits t), ts_check_failed := AList.delete sid (ts_check_failed t),
                 ts_source_errors := AList.delete sid (ts_source_errors t)\<rparr>
      in if map_of (ts_sources t1) sid = None then t1
         else let lost = AList.delete sid (ts_state_lost t1)
              in replace_tunnels sid []
                   (t1\<lparr>ts_sources := AList.delete sid (ts_sources t1), ts_state_lost := lost,
                       ts_lost_logged := (ts_lost_logged t1 \<and> lost \<noteq> [])\<rparr>))"

definition source_ids :: "target_state \<Rightarrow> string list" where
  "source_ids t = sorted_list_of_set (dom (map_of (ts_sources t)))"

section \<open>Waits, failures and availability\<close>

definition set_source_error :: "string \<Rightarrow> string \<Rightarrow> string \<Rightarrow> time \<Rightarrow> target_state \<Rightarrow> target_state" where
  "set_source_error i code msg now t =
     (let at1 = (case map_of (ts_source_errors t) i of Some p \<Rightarrow> se_at p | None \<Rightarrow> now)
      in t\<lparr>ts_source_errors := AList.update i \<lparr>se_code = code, se_message = msg, se_at = at1\<rparr> (ts_source_errors t)\<rparr>)"

definition new_wait :: source_wait where
  "new_wait = \<lparr>sw_since = None, sw_reset_at = None, sw_deps = []\<rparr>"

definition ensure_wait :: "string \<Rightarrow> target_state \<Rightarrow> source_wait \<times> target_state" where
  "ensure_wait i t =
     (case map_of (ts_waits t) i of
        Some w \<Rightarrow> (w, t)
      | None \<Rightarrow> (new_wait, t\<lparr>ts_waits := AList.update i new_wait (ts_waits t)\<rparr>))"

definition source_waiting :: "string \<Rightarrow> target_state \<Rightarrow> bool" where
  "source_waiting i t \<longleftrightarrow>
     (case map_of (ts_check_failed t) i of Some code \<Rightarrow> code \<noteq> '''' | None \<Rightarrow> False) \<or>
     (case map_of (ts_waits t) i of None \<Rightarrow> False | Some w \<Rightarrow> sw_since w \<noteq> None \<or> ts_xray_down t \<noteq> None)"

definition selection_health :: "string \<Rightarrow> string \<Rightarrow> (time \<Rightarrow> bool) \<Rightarrow> memory \<Rightarrow> dep_status" where
  "selection_health key tag stl m =
     (case view key m of None \<Rightarrow> DepUnknown
      | Some t \<Rightarrow>
     (case map_of (ts_balancers t) tag of None \<Rightarrow> DepUnknown
      | Some b \<Rightarrow>
          if ts_xray_down t \<noteq> None then DepUnknown
          else let s = bs_selection b in
            case sn_success s of
              None \<Rightarrow> DepUnknown
            | Some at1 \<Rightarrow>
                if sn_state s \<noteq> SelOK \<or> stl at1 then DepUnknown
                else if sn_override s \<noteq> '''' \<or> sn_principle s \<noteq> [] then DepHealthy
                else DepUnhealthy))"

definition set_xray_down :: "string \<Rightarrow> time \<Rightarrow> target_state \<Rightarrow> bool \<times> target_state" where
  "set_xray_down msg now t =
     (case ts_xray_down t of
        Some x \<Rightarrow> (False, t\<lparr>ts_xray_down := Some (x\<lparr>xi_error := msg\<rparr>)\<rparr>)
      | None \<Rightarrow> (True, t\<lparr>ts_xray_down := Some \<lparr>xi_error = msg, xi_since = now\<rparr>\<rparr>))"

text \<open>The length of the episode that ends, if one does.\<close>

definition clear_xray_down :: "time \<Rightarrow> target_state \<Rightarrow> time option \<times> target_state" where
  "clear_xray_down now t =
     (case ts_xray_down t of
        None \<Rightarrow> (None, t)
      | Some x \<Rightarrow> (Some (now - xi_since x), t\<lparr>ts_xray_down := None\<rparr>))"

definition set_state_lost :: "string \<Rightarrow> time \<Rightarrow> target_state \<Rightarrow> bool \<times> target_state" where
  "set_state_lost sid now t =
     (if map_of (ts_state_lost t) sid \<noteq> None then (False, t)
      else let t1 = (if ts_state_lost t = [] then t\<lparr>ts_lost_since := Some now\<rparr> else t)
           in (\<not> ts_lost_logged t1,
               t1\<lparr>ts_state_lost := AList.update sid now (ts_state_lost t1), ts_lost_logged := True\<rparr>))"

definition clear_state_lost :: "string \<Rightarrow> time \<Rightarrow> time \<Rightarrow> target_state \<Rightarrow> time option \<times> target_state" where
  "clear_state_lost sid mark now t =
     (case map_of (ts_state_lost t) sid of
        None \<Rightarrow> (None, t)
      | Some at1 \<Rightarrow>
          if \<not> at1 < mark then (None, t)
          else let lost = AList.delete sid (ts_state_lost t);
                   t1 = t\<lparr>ts_state_lost := lost, ts_lost_logged := False\<rparr>
               in if lost \<noteq> [] then (None, t1)
                  else (Some (now - (case ts_lost_since t1 of Some s \<Rightarrow> s | None \<Rightarrow> 0)), t1))"

text \<open>\<^verbatim>\<open>NoteXray\<close>: the two flags it returns and the memory.\<close>

definition note_xray :: "string \<Rightarrow> err option \<Rightarrow> time \<Rightarrow> memory \<Rightarrow> (bool \<times> bool) \<times> memory" where
  "note_xray key x now m =
     (case x of
        None \<Rightarrow>
          ((False, (case view key m of Some t \<Rightarrow> fst (clear_xray_down now t) \<noteq> None | None \<Rightarrow> False)),
           update key (\<lambda>t. snd (clear_xray_down now t)) m)
      | Some e \<Rightarrow>
          if is_unavailable e
          then ((True, False), update key (\<lambda>t. snd (set_xray_down (err_text e) now t)) (ensure key m))
          else ((False, False), m))"

section \<open>Lemmas\<close>

lemma place_after: "place_tunnels sid fresh True tns = filter (\<lambda>tn. mt_source tn \<noteq> sid) tns"
  by (induction tns) auto

lemma place_sorted:
  assumes "sorted_wrt (\<lambda>a b. mt_source a \<le> mt_source b) tns"
  shows "place_tunnels sid fresh False tns =
    filter (\<lambda>tn. mt_source tn < sid) tns @ fresh @ filter (\<lambda>tn. sid < mt_source tn) tns"
  using assms
proof (induction tns)
  case (Cons tn tns)
  show ?case
  proof (cases "sid < mt_source tn")
    case True
    then have gt: "\<forall>x \<in> set (tn # tns). sid < mt_source x" using Cons.prems by auto
    then have "filter (\<lambda>x. mt_source x \<noteq> sid) tns = tns" "filter (\<lambda>x. sid < mt_source x) (tn # tns) = tn # tns"
      "filter (\<lambda>x. mt_source x < sid) (tn # tns) = []"
      by (auto simp: filter_id_conv filter_empty_conv)
    then show ?thesis using True by (auto simp: place_after)
  next
    case False
    then show ?thesis using Cons by (cases "mt_source tn = sid") auto
  qed
qed simp

lemma place_others:
  "\<forall>tn \<in> set fresh. mt_source tn = sid \<Longrightarrow>
   filter (\<lambda>tn. mt_source tn = s) (place_tunnels sid fresh ins tns) =
     (if s = sid then (if ins then [] else fresh) else filter (\<lambda>tn. mt_source tn = s) tns)"
proof (induction tns arbitrary: ins)
  case Nil
  then show ?case by (auto simp: filter_empty_conv filter_id_conv)
next
  case (Cons tn tns)
  have f: "filter (\<lambda>x. mt_source x = s) fresh = (if s = sid then fresh else [])"
    using Cons.prems by (auto simp: filter_empty_conv filter_id_conv)
  show ?case using Cons.IH [OF Cons.prems] f by auto
qed

definition topo_ids :: "string \<Rightarrow> target_state \<Rightarrow> string list" where
  "topo_ids sid t =
     (case map_of (ts_sources t) sid of None \<Rightarrow> []
      | Some src \<Rightarrow> (case so_topology src of None \<Rightarrow> [] | Some topo \<Rightarrow> map tn_base_id topo))"

text \<open>
  The order and the content of the tunnels that the monitor relies on: by source, and within a source
  the tunnels of its topology, each once.
\<close>

definition state_ok :: "target_state \<Rightarrow> bool" where
  "state_ok t \<longleftrightarrow>
     sorted_wrt (\<lambda>a b. mt_source a \<le> mt_source b) (ts_tunnels t) \<and>
     (\<forall>sid. map mt_id (tunnels_of sid t) = topo_ids sid t \<and> distinct (topo_ids sid t))"

lemma state_okD:
  assumes "state_ok t"
  shows "map mt_id (tunnels_of sid t) = topo_ids sid t" "distinct (topo_ids sid t)"
    "sorted_wrt (\<lambda>a b. mt_source a \<le> mt_source b) (ts_tunnels t)"
  using assms by (simp_all add: state_ok_def)

lemma new_target_ok: "state_ok new_target"
  by (simp add: state_ok_def new_target_def tunnels_of_def topo_ids_def)

lemma tunnels_of_replace:
  "\<forall>tn \<in> set fresh. mt_source tn = sid \<Longrightarrow>
   tunnels_of s (replace_tunnels sid fresh t) = (if s = sid then fresh else tunnels_of s t)"
  by (simp add: tunnels_of_def replace_tunnels_def place_others)

lemma topo_ids_replace [simp]: "topo_ids s (replace_tunnels sid fresh t) = topo_ids s t"
  by (simp add: topo_ids_def replace_tunnels_def)

lemma topo_ids_update:
  "topo_ids s (t\<lparr>ts_sources := AList.update sid src (ts_sources t)\<rparr>) =
   (if s = sid then (case so_topology src of None \<Rightarrow> [] | Some topo \<Rightarrow> map tn_base_id topo) else topo_ids s t)"
  by (simp add: topo_ids_def)

lemma replace_tunnels_ok:
  assumes "sorted_wrt (\<lambda>a b. mt_source a \<le> mt_source b) (ts_tunnels t)"
    and "\<forall>tn \<in> set fresh. mt_source tn = sid"
    and "map mt_id fresh = topo_ids sid t" "distinct (topo_ids sid t)"
    and "\<And>s. s \<noteq> sid \<Longrightarrow> map mt_id (tunnels_of s t) = topo_ids s t \<and> distinct (topo_ids s t)"
  shows "state_ok (replace_tunnels sid fresh t)"
proof -
  let ?le = "\<lambda>a b. mt_source a \<le> mt_source b"
  have "sorted_wrt ?le (filter P (ts_tunnels t))" for P using assms(1) by (rule sorted_wrt_filter)
  moreover have "sorted_wrt ?le fresh" using assms(2) by (auto simp: sorted_wrt_iff_nth_less)
  ultimately have "sorted_wrt ?le (place_tunnels sid fresh False (ts_tunnels t))"
    unfolding place_sorted [OF assms(1)] using assms(2) by (auto simp: sorted_wrt_append)
  then show ?thesis
    using assms(3-5) by (simp add: state_ok_def tunnels_of_replace [OF assms(2)]) (simp add: replace_tunnels_def)
qed

lemma by_id_Some: "by_id tns i = Some x \<Longrightarrow> x \<in> set tns \<and> mt_id x = i"
  unfolding by_id_def by (drule find_Some_set) simp

lemma by_id_None: "by_id tns i = None \<longleftrightarrow> i \<notin> mt_id ` set tns"
  by (auto simp: by_id_def find_None_set)

lemma fresh_tunnel_sel [simp]: "mt_mapping (fresh_tunnel old tn) = tn" "tm_state (mt_monitor (fresh_tunnel old tn)) = TIdle"
  by (simp_all add: fresh_tunnel_def idle_monitor_def split: option.split)

lemma replace_source_topology_ok:
  assumes "state_ok t" "distinct (map tn_base_id topo)"
  shows "state_ok (replace_source_topology sid topo hashes t)"
proof -
  define topo1 where "topo1 = map (\<lambda>tn. tn\<lparr>tn_source := sid\<rparr>) topo"
  have ids: "map tn_base_id topo1 = map tn_base_id topo" by (simp add: topo1_def comp_def)
  obtain src old where r: "replace_source_topology sid topo hashes t =
      replace_tunnels sid (map (fresh_tunnel old) topo1)
        (t\<lparr>ts_sync_seen := True, ts_sources := AList.update sid src (ts_sources t)\<rparr>)"
    and src: "so_topology src = Some topo1"
    by (simp add: replace_source_topology_def topo1_def Let_def split: option.splits)
  let ?t = "t\<lparr>ts_sync_seen := True, ts_sources := AList.update sid src (ts_sources t)\<rparr>"
  have topo_t: "topo_ids s ?t = (if s = sid then map tn_base_id topo else topo_ids s t)" for s
    using src ids by (simp add: topo_ids_def)
  show ?thesis
    unfolding r
  proof (rule replace_tunnels_ok)
    show "map mt_id (map (fresh_tunnel old) topo1) = topo_ids sid ?t" using topo_t ids by (simp add: comp_def)
    show "map mt_id (tunnels_of s ?t) = topo_ids s ?t \<and> distinct (topo_ids s ?t)" if "s \<noteq> sid" for s
      using assms(1) topo_t that by (simp add: state_ok_def tunnels_of_def)
  qed (use assms topo_t in \<open>auto simp: state_ok_def topo1_def\<close>)
qed

interpretation port_cmp: comparator port_cmp
  by (unfold_locales) (auto simp: port_cmp_def)

lemma next_topology_set:
  "set (next_topology sid old nxt topo) =
     {tn \<in> set topo. old = '''' \<or> tn_base_id tn \<noteq> old} \<union>
     (case nxt of None \<Rightarrow> {} | Some n \<Rightarrow> {n\<lparr>tn_source := sid\<rparr>})"
  by (auto simp: next_topology_def split: option.split)

lemma next_topology_ports: "sorted_wrt (\<lambda>a b. tn_port a \<le> tn_port b) (next_topology sid old nxt topo)"
  using port_cmp.sorted_sort_by by (simp add: next_topology_def port_cmp_def)

lemma distinct_map_sort_by: "distinct (map f (sort_by c xs)) = distinct (map f xs)"
  by (rule mset_eq_imp_distinct_iff) simp

lemma next_topology_ids:
  assumes "distinct (map tn_base_id topo)"
    and "\<And>n. nxt = Some n \<Longrightarrow> tn_base_id n \<notin> set (map tn_base_id topo) \<or> tn_base_id n = old \<and> old \<noteq> ''''"
  shows "distinct (map tn_base_id (next_topology sid old nxt topo))"
proof -
  let ?l = "filter (\<lambda>tn. old = '''' \<or> tn_base_id tn \<noteq> old) topo"
  have "distinct (map tn_base_id ?l)" using assms(1) by (rule distinct_map_filter)
  moreover have "tn_base_id n \<notin> tn_base_id ` set ?l" if "nxt = Some n" for n
    using assms(2) [OF that] by auto
  ultimately show ?thesis
    by (simp add: next_topology_def distinct_map_sort_by del: map_append split: option.split)
      (simp add: image_iff)
qed

text \<open>
  A new tunnel that fits: its id is none of the source's, or that of the tunnel it replaces.
\<close>

definition fits :: "string \<Rightarrow> string \<Rightarrow> tunnel option \<Rightarrow> target_state \<Rightarrow> bool" where
  "fits sid old nxt t \<longleftrightarrow>
     (case nxt of None \<Rightarrow> True
      | Some n \<Rightarrow> tn_base_id n \<notin> set (topo_ids sid t) \<or> tn_base_id n = old \<and> old \<noteq> '''')"

text \<open>\<open>ReplaceSourceTunnel\<close> with its result spelled out.\<close>

lemma replace_source_tunnel_result:
  assumes ok: "state_ok t" and fit: "fits sid old nxt t"
    and src: "map_of (ts_sources t) sid = Some src" "so_topology src = Some topo"
  obtains fresh hs where
    "replace_source_tunnel lib sj sid old nxt t = Some (replace_tunnels sid fresh
       (t\<lparr>ts_sources := AList.update sid
          (src\<lparr>so_topology := Some (next_topology sid old nxt topo), so_hashes := hs,
               so_no_replacement := so_no_replacement src - {old}\<rparr>) (ts_sources t)\<rparr>))"
    "map mt_id fresh = map tn_base_id (next_topology sid old nxt topo)"
    "\<forall>tn \<in> set fresh. mt_source tn = sid"
    "\<forall>x \<in> set fresh. x \<in> set (tunnels_of sid t) \<or>
       (\<exists>n. nxt = Some n \<and> x = \<lparr>mt_mapping = n\<lparr>tn_source := sid\<rparr>, mt_monitor = idle_monitor\<rparr>)"
    "\<And>n. nxt = Some n \<Longrightarrow> \<lparr>mt_mapping = n\<lparr>tn_source := sid\<rparr>, mt_monitor = idle_monitor\<rparr> \<in> set fresh"
    "\<forall>x \<in> set (tunnels_of sid t). (old = '''' \<or> mt_id x \<noteq> old) \<longrightarrow> x \<in> set fresh"
proof -
  let ?new = "case nxt of None \<Rightarrow> [] | Some n \<Rightarrow> [\<lparr>mt_mapping = n\<lparr>tn_source := sid\<rparr>, mt_monitor = idle_monitor\<rparr>]"
  define own where "own = tunnels_of sid t @ ?new"
  let ?tns = "next_topology sid old nxt topo"
  define fresh where "fresh = map (\<lambda>tn. by_id own (tn_base_id tn)) ?tns"
  have ids: "map mt_id (tunnels_of sid t) = map tn_base_id topo" "distinct (map tn_base_id topo)"
    using state_okD(1,2) [OF ok, of sid] src by (simp_all add: topo_ids_def)
  have topo: "topo_ids sid t = map tn_base_id topo" using src by (simp add: topo_ids_def)
  have some: "None \<notin> set fresh"
  proof
    assume "None \<in> set fresh"
    then obtain tn where tn: "tn \<in> set ?tns" "by_id own (tn_base_id tn) = None" by (auto simp: fresh_def)
    then have "tn_base_id tn \<notin> mt_id ` set own" by (simp add: by_id_None)
    moreover have "tn_base_id tn \<in> mt_id ` set own"
    proof (cases "tn \<in> set topo")
      case True
      then have "tn_base_id tn \<in> set (map mt_id (tunnels_of sid t))" unfolding ids(1) by simp
      then show ?thesis by (auto simp: own_def)
    next
      case False
      then show ?thesis using tn(1) by (auto simp: own_def next_topology_set split: option.splits)
    qed
    ultimately show False by blast
  qed
  have srcs: "\<forall>x \<in> set own. mt_source x = sid" by (auto simp: own_def tunnels_of_def split: option.splits)
  have each: "\<exists>x. by_id own (tn_base_id tn) = Some x \<and> x \<in> set own \<and> mt_id x = tn_base_id tn" if "tn \<in> set ?tns" for tn
  proof -
    have "by_id own (tn_base_id tn) \<noteq> None" using some that by (force simp: fresh_def)
    then show ?thesis using by_id_Some by fastforce
  qed
  have mid: "map mt_id (map the fresh) = map tn_base_id ?tns"
    using each by (fastforce simp: fresh_def)
  have sub: "x \<in> set own" if "x \<in> set (map the fresh)" for x
    using that each by (fastforce simp: fresh_def)
  have dist: "distinct (map mt_id (tunnels_of sid t))" using ids by simp
  have pick: "by_id own (mt_id x) = Some x" if "x \<in> set (tunnels_of sid t)" "\<forall>n. nxt = Some n \<longrightarrow> tn_base_id n \<noteq> mt_id x" for x
  proof -
    have "x \<in> set own" using that(1) by (simp add: own_def)
    then have "by_id own (mt_id x) \<noteq> None" unfolding by_id_None by simp
    then obtain y where y: "by_id own (mt_id x) = Some y" by blast
    then have "y \<in> set own" "mt_id y = mt_id x" using by_id_Some by blast+
    then have "y \<in> set (tunnels_of sid t)" using that(2) by (auto simp: own_def split: option.splits)
    then have "y = x" using dist that(1) \<open>mt_id y = mt_id x\<close> by (metis distinct_map inj_onD)
    then show ?thesis using y by simp
  qed
  show thesis
  proof (rule that [of "map the fresh"])
    show "replace_source_tunnel lib sj sid old nxt t = Some (replace_tunnels sid (map the fresh)
       (t\<lparr>ts_sources := AList.update sid
          (src\<lparr>so_topology := Some ?tns,
               so_hashes := map (\<lambda>(k, h). (k, pl_hash (topology_plan lib sj k sid ?tns))) (so_hashes src),
               so_no_replacement := so_no_replacement src - {old}\<rparr>) (ts_sources t)\<rparr>))"
      using src some
      unfolding replace_source_tunnel_def src option.case Let_def own_def [symmetric] fresh_def [symmetric] by simp
    show "map mt_id (map the fresh) = map tn_base_id ?tns" by (rule mid)
    show "\<forall>tn \<in> set (map the fresh). mt_source tn = sid" using sub srcs by blast
    show "\<forall>x \<in> set (map the fresh). x \<in> set (tunnels_of sid t) \<or>
       (\<exists>n. nxt = Some n \<and> x = \<lparr>mt_mapping = n\<lparr>tn_source := sid\<rparr>, mt_monitor = idle_monitor\<rparr>)"
      using sub by (fastforce simp: own_def split: option.splits)
    show "\<lparr>mt_mapping = n\<lparr>tn_source := sid\<rparr>, mt_monitor = idle_monitor\<rparr> \<in> set (map the fresh)" if n: "nxt = Some n" for n
    proof -
      have "by_id own (tn_base_id n) = Some \<lparr>mt_mapping = n\<lparr>tn_source := sid\<rparr>, mt_monitor = idle_monitor\<rparr>"
        using n by (simp add: own_def by_id_def)
      moreover have "n\<lparr>tn_source := sid\<rparr> \<in> set ?tns" using n by (simp add: next_topology_set)
      ultimately show ?thesis by (force simp: fresh_def)
    qed
    show "\<forall>x \<in> set (tunnels_of sid t). (old = '''' \<or> mt_id x \<noteq> old) \<longrightarrow> x \<in> set (map the fresh)"
    proof (intro ballI impI)
      fix x assume x: "x \<in> set (tunnels_of sid t)" "old = '''' \<or> mt_id x \<noteq> old"
      then have "mt_id x \<in> set (map tn_base_id topo)" using ids(1) by (metis image_eqI list.set_map)
      then obtain tn where tn: "tn \<in> set topo" "tn_base_id tn = mt_id x" by auto
      have nn: "\<forall>n. nxt = Some n \<longrightarrow> tn_base_id n \<noteq> mt_id x"
      proof (intro allI impI notI)
        fix n assume n: "nxt = Some n" "tn_base_id n = mt_id x"
        then have "tn_base_id n \<in> set (topo_ids sid t)" using tn topo by (metis image_eqI list.set_map)
        then have "tn_base_id n = old \<and> old \<noteq> ''''" using fit n(1) by (simp add: fits_def)
        then show False using n(2) x(2) by simp
      qed
      have "tn \<in> set ?tns" using tn x(2) by (auto simp: next_topology_set)
      then show "x \<in> set (map the fresh)" using pick [OF x(1) nn] tn(2) by (force simp: fresh_def)
    qed
  qed
qed

lemma replace_source_tunnel_ok:
  assumes "state_ok t" "fits sid old nxt t"
  shows "\<exists>t'. replace_source_tunnel lib sj sid old nxt t = Some t' \<and> state_ok t'"
proof (cases "map_of (ts_sources t) sid")
  case None
  then show ?thesis using assms(1) by (simp add: replace_source_tunnel_def)
next
  case src: (Some src)
  show ?thesis
  proof (cases "so_topology src")
    case None
    then show ?thesis using assms(1) src by (simp add: replace_source_tunnel_def)
  next
    case (Some topo)
    obtain fresh hs where r: "replace_source_tunnel lib sj sid old nxt t = Some (replace_tunnels sid fresh
         (t\<lparr>ts_sources := AList.update sid
            (src\<lparr>so_topology := Some (next_topology sid old nxt topo), so_hashes := hs,
                 so_no_replacement := so_no_replacement src - {old}\<rparr>) (ts_sources t)\<rparr>))"
      "map mt_id fresh = map tn_base_id (next_topology sid old nxt topo)" "\<forall>tn \<in> set fresh. mt_source tn = sid"
      by (rule replace_source_tunnel_result [OF assms src Some])
    have ids: "topo_ids sid t = map tn_base_id topo" using src Some by (simp add: topo_ids_def)
    then have "distinct (map tn_base_id (next_topology sid old nxt topo))"
      using assms(2) state_okD(2) [OF assms(1), of sid] by (intro next_topology_ids) (auto simp: fits_def)
    note dist = this
    let ?t = "t\<lparr>ts_sources := AList.update sid
            (src\<lparr>so_topology := Some (next_topology sid old nxt topo), so_hashes := hs,
                 so_no_replacement := so_no_replacement src - {old}\<rparr>) (ts_sources t)\<rparr>"
    have "state_ok (replace_tunnels sid fresh ?t)"
    proof (rule replace_tunnels_ok)
      show "map mt_id (tunnels_of s ?t) = topo_ids s ?t \<and> distinct (topo_ids s ?t)" if "s \<noteq> sid" for s
        using state_okD [OF assms(1)] that by (simp add: topo_ids_update) (simp add: tunnels_of_def)
    qed (use r(2,3) dist state_okD(3) [OF assms(1)] in \<open>simp_all add: topo_ids_update\<close>)
    then show ?thesis using r(1) by blast
  qed
qed

lemma drop_source_tunnels_ok:
  assumes "state_ok t"
  shows "state_ok (drop_source_tunnels sid t)"
proof (cases "map_of (ts_sources t) sid")
  case None
  then show ?thesis using assms by (simp add: drop_source_tunnels_def)
next
  case (Some src)
  have "\<And>s. map mt_id (tunnels_of s t) = topo_ids s t \<and> distinct (topo_ids s t)"
    "sorted_wrt (\<lambda>a b. mt_source a \<le> mt_source b) (ts_tunnels t)"
    using assms by (simp_all add: state_ok_def)
  then show ?thesis
    unfolding drop_source_tunnels_def Some option.case
    by (intro replace_tunnels_ok) (simp_all add: topo_ids_update, simp add: tunnels_of_def)
qed

lemma reset_source_hashes_sel [simp]:
  "ts_tunnels (reset_source_hashes sid t) = ts_tunnels t" "topo_ids s (reset_source_hashes sid t) = topo_ids s t"
  "tunnels_of s (reset_source_hashes sid t) = tunnels_of s t" "ts_waits (reset_source_hashes sid t) = ts_waits t"
  "ts_check_failed (reset_source_hashes sid t) = ts_check_failed t" "ts_xray_down (reset_source_hashes sid t) = ts_xray_down t"
  by (auto simp: reset_source_hashes_def topo_ids_def tunnels_of_def split: option.splits)

lemma reset_source_hashes_ok: "state_ok t \<Longrightarrow> state_ok (reset_source_hashes sid t)"
  by (simp add: state_ok_def)

lemma drop_source_ok:
  assumes "state_ok t"
  shows "state_ok (drop_source sid t)"
proof -
  define t1 where "t1 = t\<lparr>ts_waits := AList.delete sid (ts_waits t), ts_check_failed := AList.delete sid (ts_check_failed t),
      ts_source_errors := AList.delete sid (ts_source_errors t)\<rparr>"
  have t1: "ts_tunnels t1 = ts_tunnels t" "topo_ids s t1 = topo_ids s t" "tunnels_of s t1 = tunnels_of s t" for s
    by (simp_all add: t1_def topo_ids_def tunnels_of_def)
  show ?thesis
  proof (cases "map_of (ts_sources t) sid = None")
    case True
    then have "drop_source sid t = t1" by (simp add: drop_source_def t1_def Let_def)
    then show ?thesis using assms t1 by (simp add: state_ok_def)
  next
    case False
    define lost where "lost = AList.delete sid (ts_state_lost t1)"
    let ?t2 = "t1\<lparr>ts_sources := AList.delete sid (ts_sources t1), ts_state_lost := lost,
        ts_lost_logged := (ts_lost_logged t1 \<and> lost \<noteq> [])\<rparr>"
    have d: "drop_source sid t = replace_tunnels sid [] ?t2"
      using False by (auto simp: drop_source_def Let_def lost_def t1_def)
    have ids: "topo_ids s ?t2 = (if s = sid then [] else topo_ids s t)" for s
      using t1(2) [of s] by (simp add: topo_ids_def)
    have of2: "tunnels_of s ?t2 = tunnels_of s t" for s using t1(3) [of s] by (simp add: tunnels_of_def)
    have all: "\<And>s. map mt_id (tunnels_of s t) = topo_ids s t \<and> distinct (topo_ids s t)"
      "sorted_wrt (\<lambda>a b. mt_source a \<le> mt_source b) (ts_tunnels t)"
      using assms by (simp_all add: state_ok_def)
    show ?thesis
      unfolding d by (intro replace_tunnels_ok) (use all t1 ids of2 in simp_all)
  qed
qed

text \<open>Every operation on a source leaves the tunnels of the other sources as they are.\<close>

lemma state_frame:
  assumes "s \<noteq> sid"
  shows "tunnels_of s (replace_source_topology sid topo hashes t) = tunnels_of s t"
    "tunnels_of s (drop_source_tunnels sid t) = tunnels_of s t"
    "tunnels_of s (drop_source sid t) = tunnels_of s t"
proof -
  have f: "tunnels_of s (replace_tunnels sid fresh t1) = tunnels_of s t1" if "\<forall>tn \<in> set fresh. mt_source tn = sid" for fresh t1
    using tunnels_of_replace [OF that] assms by simp
  show "tunnels_of s (replace_source_topology sid topo hashes t) = tunnels_of s t"
    unfolding replace_source_topology_def Let_def
    by (subst f) (auto simp: tunnels_of_def)
  show "tunnels_of s (drop_source_tunnels sid t) = tunnels_of s t"
    using f [of "[]"] by (simp add: drop_source_tunnels_def split: option.split) (simp add: tunnels_of_def)
  show "tunnels_of s (drop_source sid t) = tunnels_of s t"
    using f [of "[]"] by (simp add: drop_source_def Let_def) (simp add: tunnels_of_def)
qed

lemma replace_source_tunnel_frame:
  assumes "state_ok t" "fits sid old nxt t" "replace_source_tunnel lib sj sid old nxt t = Some t'" "s \<noteq> sid"
  shows "tunnels_of s t' = tunnels_of s t"
proof (cases "map_of (ts_sources t) sid")
  case None
  then show ?thesis using assms(3) by (simp add: replace_source_tunnel_def)
next
  case src: (Some src)
  show ?thesis
  proof (cases "so_topology src")
    case None
    then show ?thesis using assms(3) src by (simp add: replace_source_tunnel_def)
  next
    case (Some topo)
    obtain fresh hs where r: "replace_source_tunnel lib sj sid old nxt t = Some (replace_tunnels sid fresh
         (t\<lparr>ts_sources := AList.update sid
            (src\<lparr>so_topology := Some (next_topology sid old nxt topo), so_hashes := hs,
                 so_no_replacement := so_no_replacement src - {old}\<rparr>) (ts_sources t)\<rparr>))"
      "\<forall>tn \<in> set fresh. mt_source tn = sid"
      by (rule replace_source_tunnel_result [OF assms(1,2) src Some])
    then show ?thesis using assms(3,4) tunnels_of_replace [OF r(2), of s] by (simp add: tunnels_of_def)
  qed
qed

text \<open>An update of a tunnel that keeps its source and id, as all of the monitor's do.\<close>

definition keeps_place :: "(mtunnel \<Rightarrow> mtunnel) \<Rightarrow> bool" where
  "keeps_place f \<longleftrightarrow> (\<forall>tn. mt_source (f tn) = mt_source tn \<and> mt_id (f tn) = mt_id tn)"

lemma update_first_place:
  "keeps_place f \<Longrightarrow> map (\<lambda>tn. (mt_source tn, mt_id tn)) (update_first i f tns) = map (\<lambda>tn. (mt_source tn, mt_id tn)) tns"
  by (induction tns) (auto simp: keeps_place_def)

lemma same_place:
  assumes "map (\<lambda>tn. (mt_source tn, mt_id tn)) xs = map (\<lambda>tn. (mt_source tn, mt_id tn)) ys"
  shows "map mt_id (filter (\<lambda>tn. mt_source tn = s) xs) = map mt_id (filter (\<lambda>tn. mt_source tn = s) ys)"
    "sorted_wrt (\<lambda>a b. mt_source a \<le> mt_source b) xs = sorted_wrt (\<lambda>a b. mt_source a \<le> mt_source b) ys"
proof -
  have "map mt_id (filter (\<lambda>tn. mt_source tn = s) zs) =
      map snd (filter (\<lambda>p. fst p = s) (map (\<lambda>tn. (mt_source tn, mt_id tn)) zs))" for zs
    by (simp add: filter_map comp_def)
  then show "map mt_id (filter (\<lambda>tn. mt_source tn = s) xs) = map mt_id (filter (\<lambda>tn. mt_source tn = s) ys)"
    using assms by simp
  have "sorted_wrt (\<lambda>a b. mt_source a \<le> mt_source b) zs =
      sorted_wrt (\<lambda>p q. fst p \<le> fst q) (map (\<lambda>tn. (mt_source tn, mt_id tn)) zs)" for zs
    by (simp add: sorted_wrt_map)
  then show "sorted_wrt (\<lambda>a b. mt_source a \<le> mt_source b) xs = sorted_wrt (\<lambda>a b. mt_source a \<le> mt_source b) ys"
    using assms by simp
qed

lemma update_tunnel_ok:
  assumes "state_ok t" "keeps_place f"
  shows "state_ok (update_tunnel i f t)"
proof -
  note p = same_place [OF update_first_place [OF assms(2), of i "ts_tunnels t"]]
  show ?thesis
    using assms(1) p by (simp add: state_ok_def update_tunnel_def tunnels_of_def topo_ids_def)
qed

lemma state_ok_cong:
  "ts_tunnels t' = ts_tunnels t \<Longrightarrow> (\<And>s. topo_ids s t' = topo_ids s t) \<Longrightarrow> state_ok t \<Longrightarrow> state_ok t'"
  by (simp add: state_ok_def tunnels_of_def)

section \<open>Properties\<close>

text \<open>The states a target can get into by the operations of the sync and the monitor on its tunnels.\<close>

inductive state_reach :: "text_lib \<Rightarrow> (spec list \<Rightarrow> string) \<Rightarrow> target_state \<Rightarrow> bool" for lib sj where
  start: "state_reach lib sj new_target"
| topology: "state_reach lib sj t \<Longrightarrow> distinct (map tn_base_id topo) \<Longrightarrow>
    state_reach lib sj (replace_source_topology sid topo hashes t)"
| tunnel: "state_reach lib sj t \<Longrightarrow> fits sid old nxt t \<Longrightarrow> replace_source_tunnel lib sj sid old nxt t = Some t' \<Longrightarrow>
    state_reach lib sj t'"
| monitored: "state_reach lib sj t \<Longrightarrow> keeps_place f \<Longrightarrow> state_reach lib sj (update_tunnel i f t)"
| dropped: "state_reach lib sj t \<Longrightarrow> state_reach lib sj (drop_source_tunnels sid t)"
| reset: "state_reach lib sj t \<Longrightarrow> state_reach lib sj (reset_source_hashes sid t)"
| gone: "state_reach lib sj t \<Longrightarrow> state_reach lib sj (drop_source sid t)"

lemma state_reach_ok: "state_reach lib sj t \<Longrightarrow> state_ok t"
proof (induction rule: state_reach.induct)
  case (tunnel t sid old nxt t')
  then show ?case using replace_source_tunnel_ok [of t sid old nxt lib sj] by auto
qed (simp_all add: new_target_ok replace_source_topology_ok update_tunnel_ok drop_source_tunnels_ok
    reset_source_hashes_ok drop_source_ok)

text \<open>
  C26: Whatever the sync and the monitor do to a target, its tunnels stay ordered by source, every
  source's tunnels are those of its saved topology, each once and in its order, and replacing a tunnel
  never meets a tunnel of the topology that the target does not have (a nil pointer in the code).
\<close>

theorem state_stays_ordered:
  assumes "state_reach lib sj t"
  shows "sorted_wrt (\<lambda>a b. mt_source a \<le> mt_source b) (ts_tunnels t) \<and>
    map mt_id (tunnels_of sid t) = topo_ids sid t \<and> distinct (topo_ids sid t) \<and>
    (fits sid old nxt t \<longrightarrow> replace_source_tunnel lib sj sid old nxt t \<noteq> None)"
  using state_okD(1,2) [OF state_reach_ok [OF assms], of sid] state_okD(3) [OF state_reach_ok [OF assms]]
    replace_source_tunnel_ok [OF state_reach_ok [OF assms], of sid old nxt lib sj] by auto

lemma w_reach: "state_reach w_lib (\<lambda>_. '''') (replace_source_topology ''vl'' [w_tunnel] [] new_target)"
  by (rule state_reach.topology [OF state_reach.start]) simp

lemma state_stays_ordered_witness:
  "replace_source_tunnel w_lib (\<lambda>_. '''') ''vl'' ''vl-new'' None (replace_source_topology ''vl'' [w_tunnel] [] new_target) \<noteq> None"
  using state_stays_ordered [OF w_reach, of "''vl''" "''vl-new''" None] by (simp add: fits_def)

text \<open>What the replacement of a tunnel does to the tunnels of the source.\<close>

lemma replace_source_tunnel_effect:
  assumes ok: "state_ok t" and fit: "fits sid old nxt t"
    and src: "map_of (ts_sources t) sid = Some src" "so_topology src = Some topo"
    and run: "replace_source_tunnel lib sj sid old nxt t = Some t'"
  shows "set (tunnels_of sid t') = {x \<in> set (tunnels_of sid t). old = '''' \<or> mt_id x \<noteq> old} \<union>
      (case nxt of None \<Rightarrow> {} | Some n \<Rightarrow> {\<lparr>mt_mapping = n\<lparr>tn_source := sid\<rparr>, mt_monitor = idle_monitor\<rparr>}) \<and>
    (\<exists>src' topo'. map_of (ts_sources t') sid = Some src' \<and> so_topology src' = Some topo' \<and>
       sorted_wrt (\<lambda>a b. tn_port a \<le> tn_port b) topo' \<and> map mt_id (tunnels_of sid t') = map tn_base_id topo' \<and>
       so_no_replacement src' = so_no_replacement src - {old}) \<and>
    (\<forall>s. s \<noteq> sid \<longrightarrow> tunnels_of s t' = tunnels_of s t)"
proof (intro conjI allI impI)
  obtain fresh hs where r: "replace_source_tunnel lib sj sid old nxt t = Some (replace_tunnels sid fresh
       (t\<lparr>ts_sources := AList.update sid
          (src\<lparr>so_topology := Some (next_topology sid old nxt topo), so_hashes := hs,
               so_no_replacement := so_no_replacement src - {old}\<rparr>) (ts_sources t)\<rparr>))"
    and ids: "map mt_id fresh = map tn_base_id (next_topology sid old nxt topo)"
    and of1: "\<forall>tn \<in> set fresh. mt_source tn = sid"
    and sub: "\<forall>x \<in> set fresh. x \<in> set (tunnels_of sid t) \<or>
       (\<exists>n. nxt = Some n \<and> x = \<lparr>mt_mapping = n\<lparr>tn_source := sid\<rparr>, mt_monitor = idle_monitor\<rparr>)"
    and new: "\<And>n. nxt = Some n \<Longrightarrow> \<lparr>mt_mapping = n\<lparr>tn_source := sid\<rparr>, mt_monitor = idle_monitor\<rparr> \<in> set fresh"
    and kept: "\<forall>x \<in> set (tunnels_of sid t). (old = '''' \<or> mt_id x \<noteq> old) \<longrightarrow> x \<in> set fresh"
    by (rule replace_source_tunnel_result [OF ok fit src, of lib sj]) (rule that)
  have t': "tunnels_of s t' = (if s = sid then fresh else tunnels_of s t)" for s
  proof -
    have "t' = replace_tunnels sid fresh (t\<lparr>ts_sources := AList.update sid
          (src\<lparr>so_topology := Some (next_topology sid old nxt topo), so_hashes := hs,
               so_no_replacement := so_no_replacement src - {old}\<rparr>) (ts_sources t)\<rparr>)"
      using run r by simp
    then show ?thesis by (simp only: tunnels_of_replace [OF of1]) (simp add: tunnels_of_def)
  qed
  show "tunnels_of s t' = tunnels_of s t" if "s \<noteq> sid" for s using t' that by simp
  have "distinct (map tn_base_id topo)" using state_okD(2) [OF ok, of sid] src by (simp add: topo_ids_def)
  then have dist: "distinct (map mt_id fresh)"
    unfolding ids using fit src by (intro next_topology_ids) (auto simp: fits_def topo_ids_def)
  have "mt_id x \<noteq> old \<or> (\<exists>n. nxt = Some n \<and> x = \<lparr>mt_mapping = n\<lparr>tn_source := sid\<rparr>, mt_monitor = idle_monitor\<rparr>)"
    if x: "x \<in> set fresh" and ne: "old \<noteq> ''''" for x
  proof (cases "mt_id x = old")
    case True
    have "old \<in> tn_base_id ` set (next_topology sid old nxt topo)"
      using x True ids by (metis image_eqI list.set_map)
    then obtain n where n: "nxt = Some n" "tn_base_id n = old"
      using ne by (auto simp: next_topology_set split: option.splits)
    then have "x = \<lparr>mt_mapping = n\<lparr>tn_source := sid\<rparr>, mt_monitor = idle_monitor\<rparr>"
      using True n(2) by (intro inj_onD [OF _ _ x new [OF n(1)], of mt_id]) (use dist in \<open>simp_all add: distinct_map\<close>)
    then show ?thesis using n by blast
  qed simp
  then show "set (tunnels_of sid t') = {x \<in> set (tunnels_of sid t). old = '''' \<or> mt_id x \<noteq> old} \<union>
      (case nxt of None \<Rightarrow> {} | Some n \<Rightarrow> {\<lparr>mt_mapping = n\<lparr>tn_source := sid\<rparr>, mt_monitor = idle_monitor\<rparr>})"
    using sub new kept unfolding t' by (auto split: option.splits)
  show "\<exists>src' topo'. map_of (ts_sources t') sid = Some src' \<and> so_topology src' = Some topo' \<and>
       sorted_wrt (\<lambda>a b. tn_port a \<le> tn_port b) topo' \<and> map mt_id (tunnels_of sid t') = map tn_base_id topo' \<and>
       so_no_replacement src' = so_no_replacement src - {old}"
    using run r ids next_topology_ports by (auto simp: t' replace_tunnels_def)
qed

text \<open>
  Replacing a tunnel of a source touches exactly that slot: the source then has its other tunnels
  with their monitor state, and the new one with a fresh idle monitor; the saved topology is in port
  order; the tunnel leaves the list of those without a replacement; and no other source changes.
\<close>

theorem replace_source_tunnel_swaps:
  assumes ok: "state_ok t" and fit: "fits sid old nxt t"
    and src: "map_of (ts_sources t) sid = Some src" "so_topology src = Some topo"
    and run: "replace_source_tunnel lib sj sid old nxt t = Some t'"
  shows "set (tunnels_of sid t') = {x \<in> set (tunnels_of sid t). old = '''' \<or> mt_id x \<noteq> old} \<union>
      (case nxt of None \<Rightarrow> {} | Some n \<Rightarrow> {\<lparr>mt_mapping = n\<lparr>tn_source := sid\<rparr>, mt_monitor = idle_monitor\<rparr>}) \<and>
    (\<exists>src' topo'. map_of (ts_sources t') sid = Some src' \<and> so_topology src' = Some topo' \<and>
       sorted_wrt (\<lambda>a b. tn_port a \<le> tn_port b) topo' \<and> map mt_id (tunnels_of sid t') = map tn_base_id topo' \<and>
       so_no_replacement src' = so_no_replacement src - {old}) \<and>
    (\<forall>s. s \<noteq> sid \<longrightarrow> tunnels_of s t' = tunnels_of s t)"
  using assms by (rule replace_source_tunnel_effect)

lemma replace_source_tunnel_swaps_witness:
  "map mt_id (tunnels_of ''vl'' (the (replace_source_tunnel w_lib (\<lambda>_. '''') ''vl'' ''vl-new'' None
     (replace_source_topology ''vl'' [w_tunnel] [] new_target)))) = []"
proof -
  let ?t = "replace_source_topology ''vl'' [w_tunnel] [] new_target"
  have ok: "state_ok ?t" by (rule state_reach_ok [OF w_reach])
  have fit: "fits ''vl'' ''vl-new'' None ?t" by (simp add: fits_def)
  then obtain t' where t': "replace_source_tunnel w_lib (\<lambda>_. '''') ''vl'' ''vl-new'' None ?t = Some t'"
    using replace_source_tunnel_ok [OF ok] by blast
  obtain src where src: "map_of (ts_sources ?t) ''vl'' = Some src" "so_topology src = Some [w_tunnel\<lparr>tn_source := ''vl''\<rparr>]"
    by (simp add: replace_source_topology_def new_target_def replace_tunnels_def Let_def)
  have "map mt_id (tunnels_of ''vl'' ?t) = [''vl-new'']"
    using state_okD(1) [OF ok, of "''vl''"] src
    by (simp add: topo_ids_def w_tunnel_def w_vless_entry_def w_entry_def)
  then have ids: "\<forall>x \<in> set (tunnels_of ''vl'' ?t). mt_id x = ''vl-new''" by (cases "tunnels_of ''vl'' ?t") auto
  have "set (tunnels_of ''vl'' t') = {}"
    using replace_source_tunnel_swaps [OF ok fit src t'] ids by auto
  then show ?thesis using t' by simp
qed

end
