(* ===== verification/Scd_Repair.thy ===== *)
theory Scd_Repair
  imports Scd_State
begin

text \<open>
  Repair and rejoin of a tunnel (\<^verbatim>\<open>internal/scd/monitor/repair.go\<close>): the calls that move a tunnel to
  its outbound outside the balancer and back, what each outcome leaves in the state, and the flap
  episodes. The log lines are not modelled; the flags that only choose a log level are left out.

  The operations work on the state of the target they find the tunnel in, between the two calls of
  \<^verbatim>\<open>Update\<close> around their calls of Xray; the target lock keeps the other writers of mappings out.
\<close>

section \<open>What the monitor works with\<close>

text \<open>\<^verbatim>\<open>monitor.Deps\<close>. A probe answers with a status and a latency in milliseconds.\<close>

record response =
  rs_status :: int
  rs_latency :: int

record probe_request =
  pr_host :: string
  pr_port :: int
  pr_url :: string
  pr_method :: string
  pr_timeout :: int

record 'w deps =
  dp_dial :: "string \<Rightarrow> int \<Rightarrow> ('w, 'w client) query"
  dp_now :: "'w \<Rightarrow> time"
  dp_probe :: "probe_request \<Rightarrow> ('w, response) query"
  dp_sleep :: "int \<Rightarrow> 'w call"
  dp_cancelled :: "'w \<Rightarrow> bool"
  dp_to_proto :: "spec \<Rightarrow> err + handler"
  dp_in_proto :: "tunnel \<Rightarrow> err + handler"
  dp_subs :: "subscription list"
  dp_cron :: cron_lib
  dp_lib :: text_lib
  dp_json :: "spec list \<Rightarrow> string"

text \<open>\<^verbatim>\<open>Deps.dial\<close>: adds of a source with a limit go through the capped client.\<close>

definition dial :: "'w deps \<Rightarrow> subscription \<Rightarrow> ('w, 'w client) query" where
  "dial d sub w =
     (case dp_dial d (t_address (sub_target sub)) (t_timeout (sub_target sub)) w of
        (Inl e, w1) \<Rightarrow> (Inl e, w1)
      | (Inr c, w1) \<Rightarrow> (Inr (capped c (sub_target sub) (sub_sources sub)), w1))"

text \<open>\<open>NoteXray\<close> on a target that exists.\<close>

definition note_target :: "err option \<Rightarrow> time \<Rightarrow> target_state \<Rightarrow> target_state" where
  "note_target x now t =
     (case x of None \<Rightarrow> snd (clear_xray_down now t)
      | Some e \<Rightarrow> if is_unavailable e then snd (set_xray_down (err_text e) now t) else t)"

lemma note_xray_target:
  assumes "view key m = Some t"
  shows "view key (snd (note_xray key x now m)) = Some (note_target x now t)"
  using assms
  by (cases x) (auto simp: note_xray_def note_target_def view_def update_def ensure_def)

definition cap_refused :: "tunnel \<Rightarrow> err \<Rightarrow> target_state \<Rightarrow> target_state" where
  "cap_refused tn e t = (if is_cap_reached e then reset_source_hashes (tn_source tn) t else t)"

section \<open>Flaps\<close>

definition flap_limit :: nat where "flap_limit = 3"
definition minute_ns :: time where "minute_ns = 60000000000"
definition flap_window :: time where "flap_window = 60 * minute_ns"
definition stable_after :: time where "stable_after = 60 * minute_ns"
definition down_after :: nat where "down_after = 3"

definition fresh_series :: "tunnel_monitor \<Rightarrow> bool \<Rightarrow> time option \<Rightarrow> bool" where
  "fresh_series m waiting reset_at \<longleftrightarrow>
     \<not> waiting \<and>
     (case (reset_at, tm_failing_since m) of (Some r, Some s) \<Rightarrow> \<not> s < r | _ \<Rightarrow> True)"

text \<open>Whether the flap starts an episode, and the new counters.\<close>

definition add_flap :: "flap_state \<Rightarrow> time \<Rightarrow> bool \<times> flap_state" where
  "add_flap f now =
     (if fl_since f \<noteq> None then (False, f\<lparr>fl_count := fl_count f + 1\<rparr>)
      else let kept = filter (\<lambda>a. now - a < flap_window) (fl_times f) @ [now];
               f1 = f\<lparr>fl_times := kept\<rparr>
           in if length kept < flap_limit then (False, f1)
              else (True, f1\<lparr>fl_since := Some (hd kept), fl_count := length kept, fl_times := []\<rparr>))"

section \<open>The calls\<close>

definition should_rejoin :: "tunnel \<Rightarrow> bool" where
  "should_rejoin m \<longleftrightarrow> tn_current m \<noteq> tn_initial m \<and> tn_initial m \<noteq> po_tag (tn_out_bare m)"

definition has_inbound :: "'w client \<Rightarrow> string \<Rightarrow> ('w, bool) query" where
  "has_inbound c tag w =
     (case list_inbounds c w of
        (Inl e, w1) \<Rightarrow> (Inl e, w1)
      | (Inr l, w1) \<Rightarrow> (Inr (list_ex (\<lambda>h. h_tag h = tag) l), w1))"

text \<open>\<^verbatim>\<open>removeTunnel\<close> of the monitor: the rule (best effort) and the current outbound.\<close>

definition remove_current :: "'w client \<Rightarrow> tunnel \<Rightarrow> 'w call" where
  "remove_current c cur w =
     (let (ignored, w1) = remove_rule c (tn_route cur) w in
      case remove_outbound c (tn_current cur) w1 of
        (Some e, w2) \<Rightarrow> (Some e, snd (add_rule c (tunnel_rule cur (tn_current cur)) w2))
      | (None, w2) \<Rightarrow> (None, w2))"

text \<open>The first result tells whether the unprefixed outbound was added.\<close>

definition repair_calls ::
    "'w client \<Rightarrow> (spec \<Rightarrow> err + handler) \<Rightarrow> tunnel \<Rightarrow> tunnel \<Rightarrow> 'w \<Rightarrow> bool \<times> err option \<times> 'w" where
  "repair_calls c to_proto cur repaired w =
     (case to_proto (po_json (tn_out_bare repaired)) of
        Inl e \<Rightarrow> (False, Some e, w)
      | Inr h \<Rightarrow>
     (case remove_current c cur w of
        (Some e, w1) \<Rightarrow> (False, Some e, w1)
      | (None, w1) \<Rightarrow>
     (case add_outbound c h w1 of
        (Some e, w2) \<Rightarrow> (False, Some e, w2)
      | (None, w2) \<Rightarrow> (True, add_rule c (tunnel_rule repaired (tn_current repaired)) w2))))"

definition rejoin_calls ::
    "'w client \<Rightarrow> (spec \<Rightarrow> err + handler) \<Rightarrow> tunnel \<Rightarrow> tunnel \<Rightarrow> 'w call" where
  "rejoin_calls c to_proto cur rejoined w =
     (case to_proto (po_json (tn_out_initial rejoined)) of
        Inl e \<Rightarrow> (Some e, w)
      | Inr hi \<Rightarrow>
     (case to_proto (po_json (tn_out_bare cur)) of
        Inl e \<Rightarrow> (Some e, w)
      | Inr hb \<Rightarrow>
     (case remove_current c cur w of
        (Some e, w1) \<Rightarrow> (Some e, w1)
      | (None, w1) \<Rightarrow>
          let (x, w2) = (case add_outbound c hi w1 of
                (Some e, w2) \<Rightarrow> (Some e, w2)
              | (None, w2) \<Rightarrow> add_rule c (tunnel_rule rejoined (tn_current rejoined)) w2)
          in case x of
               None \<Rightarrow> (None, w2)
             | Some e \<Rightarrow>
                 (case remove_outbound c (tn_current rejoined) w2 of
                    (Some re, w3) \<Rightarrow> (Some (StuckOnInitial e), w3)
                  | (None, w3) \<Rightarrow>
                      let w4 = snd (add_outbound c hb w3)
                      in (Some e, snd (add_rule c (tunnel_rule cur (tn_current cur)) w4))))))"

section \<open>Repair\<close>

definition repaired_message :: string where
  "repaired_message = ''Tunnel repaired; awaiting next successful monitor check.''"

definition rejoin_failed_prefix :: string where
  "rejoin_failed_prefix = ''Tunnel healthy but balancer rejoin failed: ''"

definition state_lost_message :: string where
  "state_lost_message = ''Xray has no inbound of the tunnel; the next sync applies the source again.''"

fun is_stuck :: "err \<Rightarrow> bool" where
  "is_stuck (StuckOnInitial e) = True"
| "is_stuck (ErrWrap p e) = is_stuck e"
| "is_stuck (ReplaceFailed e) = is_stuck e"
| "is_stuck _ = False"

abbreviation on_monitor :: "(tunnel_monitor \<Rightarrow> tunnel_monitor) \<Rightarrow> mtunnel \<Rightarrow> mtunnel" where
  "on_monitor f tn \<equiv> tn\<lparr>mt_monitor := f (mt_monitor tn)\<rparr>"

text \<open>\<^verbatim>\<open>Deps.stateLost\<close>: every tunnel of the id is marked.\<close>

definition state_lost :: "time \<Rightarrow> tunnel \<Rightarrow> target_state \<Rightarrow> target_state" where
  "state_lost now tn t =
     (let t1 = snd (set_state_lost (tn_source tn) now (reset_source_hashes (tn_source tn) t))
      in t1\<lparr>ts_tunnels := map (\<lambda>x. if mt_id x = tn_base_id tn
              then on_monitor (\<lambda>m. m\<lparr>tm_state := TDegraded, tm_error := state_lost_message\<rparr>) x else x)
            (ts_tunnels t1)\<rparr>)"

definition bare_mapping :: "tunnel \<Rightarrow> tunnel" where
  "bare_mapping tn = tn\<lparr>tn_current := po_tag (tn_out_bare tn)\<rparr>"

definition initial_mapping :: "tunnel \<Rightarrow> tunnel" where
  "initial_mapping tn = tn\<lparr>tn_current := tn_initial tn\<rparr>"

definition repair_failed :: "string \<Rightarrow> tunnel \<Rightarrow> bool \<Rightarrow> err \<Rightarrow> time \<Rightarrow> target_state \<Rightarrow> target_state" where
  "repair_failed i cur added e at1 t =
     update_tunnel i
       (\<lambda>tn. (if added then tn\<lparr>mt_mapping := bare_mapping cur\<rparr> else tn)
          \<lparr>mt_monitor := (mt_monitor tn)\<lparr>tm_state := TDegraded, tm_failure := Some at1, tm_error := err_text e,
             tm_repair_error := err_text e\<rparr>\<rparr>)
       (note_target (Some e) at1 (cap_refused cur e t))"

definition repair_done :: "string \<Rightarrow> tunnel \<Rightarrow> bool \<Rightarrow> time option \<Rightarrow> time \<Rightarrow> target_state \<Rightarrow> target_state" where
  "repair_done i cur waiting reset_at now =
     update_tunnel i
       (\<lambda>tn. let m = mt_monitor tn;
                 fl = (if tm_in_row m = 1 \<and> fresh_series m waiting reset_at then snd (add_flap (tm_flap m) now)
                       else tm_flap m)
             in \<lparr>mt_mapping = bare_mapping cur,
                 mt_monitor = m\<lparr>tm_flap := fl, tm_state := TDegraded, tm_status := None, tm_latency := None,
                   tm_failures := 0, tm_error := repaired_message, tm_repair_error := ''''\<rparr>\<rparr>)"

text \<open>\<^verbatim>\<open>Repair\<close>; the error is that of the client it could not create.\<close>

definition repair ::
    "'w deps \<Rightarrow> subscription \<Rightarrow> string \<Rightarrow> target_state \<Rightarrow> 'w \<Rightarrow> err option \<times> target_state \<times> 'w" where
  "repair d sub i t w =
     (case view_tunnel i t of
        None \<Rightarrow> (None, t, w)
      | Some tn \<Rightarrow>
          let cur = mt_mapping tn in
          if should_rejoin cur then (None, t, w)
          else
            let t1 = update_tunnel i (on_monitor (\<lambda>m. m\<lparr>tm_state := TRepairing\<rparr>)) t in
            case dial d sub w of
              (Inl e, w1) \<Rightarrow> (Some e, t1, w1)
            | (Inr c, w1) \<Rightarrow>
                let waiting = source_waiting (tn_source cur) t1;
                    reset_at = (case map_of (ts_waits t1) (tn_source cur) of None \<Rightarrow> None | Some x \<Rightarrow> sw_reset_at x)
                in case has_inbound c (tn_inbound cur) w1 of
                     (Inl e, w2) \<Rightarrow> (None, repair_failed i cur False e (dp_now d w2) t1, w2)
                   | (Inr found, w2) \<Rightarrow>
                       let t2 = note_target None (dp_now d w2) t1 in
                       if \<not> found then (None, state_lost (dp_now d w2) cur t2, w2)
                       else case repair_calls c (dp_to_proto d) cur (bare_mapping cur) w2 of
                           (added, Some e, w3) \<Rightarrow> (None, repair_failed i cur added e (dp_now d w3) t2, w3)
                         | (added, None, w3) \<Rightarrow> (None, repair_done i cur waiting reset_at (dp_now d w3) t2, w3))"

section \<open>Rejoin\<close>

text \<open>\<^verbatim>\<open>noteRejoinError\<close> (its result only chooses a log level).\<close>

definition note_rejoin_error :: "err \<Rightarrow> tunnel_monitor \<Rightarrow> tunnel_monitor" where
  "note_rejoin_error e m = m\<lparr>tm_rejoin_error := err_text e\<rparr>"

definition rejoin_failed :: "string \<Rightarrow> tunnel \<Rightarrow> err \<Rightarrow> time \<Rightarrow> target_state \<Rightarrow> target_state" where
  "rejoin_failed i cur e now t =
     update_tunnel i
       (\<lambda>tn. (if is_stuck e then tn\<lparr>mt_mapping := initial_mapping cur\<rparr> else tn)
          \<lparr>mt_monitor := note_rejoin_error e ((mt_monitor tn)\<lparr>tm_error := rejoin_failed_prefix @ err_text e\<rparr>)\<rparr>)
       (note_target (Some e) now (cap_refused cur e t))"

definition rejoin_done :: "string \<Rightarrow> tunnel \<Rightarrow> target_state \<Rightarrow> target_state" where
  "rejoin_done i cur =
     update_tunnel i
       (\<lambda>tn. \<lparr>mt_mapping = initial_mapping cur,
              mt_monitor = (mt_monitor tn)\<lparr>tm_error := '''', tm_rejoin_error := ''''\<rparr>\<rparr>)"

definition rejoin ::
    "'w deps \<Rightarrow> subscription \<Rightarrow> string \<Rightarrow> target_state \<Rightarrow> 'w \<Rightarrow> err option \<times> target_state \<times> 'w" where
  "rejoin d sub i t w =
     (case view_tunnel i t of
        None \<Rightarrow> (None, t, w)
      | Some tn \<Rightarrow>
          let cur = mt_mapping tn in
          if \<not> should_rejoin cur then (None, t, w)
          else case dial d sub w of
              (Inl e, w1) \<Rightarrow> (Some e, t, w1)
            | (Inr c, w1) \<Rightarrow>
                (case rejoin_calls c (dp_to_proto d) cur (initial_mapping cur) w1 of
                   (Some e, w2) \<Rightarrow> (None, rejoin_failed i cur e (dp_now d w2) t, w2)
                 | (None, w2) \<Rightarrow> (None, rejoin_done i cur (note_target None (dp_now d w2) t), w2)))"

section \<open>Lemmas: the calls\<close>

context xray_api
begin

lemma remove_current_spec:
  assumes "remove_current c cur w = (x, w')"
  shows "ibs w' = ibs w" "t \<noteq> tn_current cur \<Longrightarrow> obs w' t = obs w t"
    "obs w' (tn_current cur) = None \<or> x \<noteq> None \<and> obs w' (tn_current cur) = obs w (tn_current cur)"
    "other_rules (tn_route cur) (rls w') = other_rules (tn_route cur) (rls w)"
proof -
  obtain y w1 where r1: "remove_rule c (tn_route cur) w = (y, w1)" by fastforce
  obtain z w2 where r2: "remove_outbound c (tn_current cur) w1 = (z, w2)" by fastforce
  obtain u w3 where r3: "add_rule c (tunnel_rule cur (tn_current cur)) w2 = (u, w3)" by fastforce
  have w': "x = z \<and> w' = (if z = None then w2 else w3)"
    using assms r1 r2 r3 by (cases z) (auto simp: remove_current_def Let_def)
  note f1 = remove_rule_frame [OF r1] and f2 = remove_outbound_frame [OF r2] and f3 = add_rule_frame [OF r3]
    and c1 = remove_rule_cases [OF r1] and c2 = remove_outbound_cases [OF r2] and c3 = add_rule_cases [OF r3]
  have ob: "obs w' = obs w2" "ibs w' = ibs w2" using w' f3 by auto
  show "ibs w' = ibs w" using ob f1 f2 by simp
  show "t \<noteq> tn_current cur \<Longrightarrow> obs w' t = obs w t" using ob c2 f1 by auto
  show "obs w' (tn_current cur) = None \<or> x \<noteq> None \<and> obs w' (tn_current cur) = obs w (tn_current cur)"
    using ob c2 f1 w' by auto
  have "other_rules (tn_route cur) (rls w1) = other_rules (tn_route cur) (rls w)" using c1 by auto
  moreover have "other_rules (tn_route cur) (rls w') = other_rules (tn_route cur) (rls w2)"
    using w' c3 by (auto simp: rule_of_def tunnel_rule_def other_rules_def)
  ultimately show "other_rules (tn_route cur) (rls w') = other_rules (tn_route cur) (rls w)" using f2 by simp
qed

lemma repair_calls_spec:
  assumes "proto_ok to_proto h_tag" "repair_calls c to_proto cur rep w = (added, x, w')"
    and rep: "get_tag (po_json (tn_out_bare rep)) = b" "tn_current rep = b" "tn_route rep = tn_route cur"
  shows "ibs w' = ibs w" "t \<noteq> tn_current cur \<Longrightarrow> t \<noteq> b \<Longrightarrow> obs w' t = obs w t"
    "other_rules (tn_route cur) (rls w') = other_rules (tn_route cur) (rls w)"
    "x = None \<Longrightarrow> added"
    "added \<Longrightarrow> obs w' b \<noteq> None \<and> (tn_current cur \<noteq> b \<longrightarrow> obs w' (tn_current cur) = None)"
    "tn_current cur \<noteq> b \<Longrightarrow> obs w' (tn_current cur) = None \<or> obs w' b = obs w b \<and> obs w' (tn_current cur) = obs w (tn_current cur)"
    "x = None \<Longrightarrow> tn_route cur \<noteq> '''' \<Longrightarrow>
       rls w' = other_rules (tn_route cur) (rls w) @ [\<lparr>rl_tag = b, rl_ruletag = tn_route cur\<rparr>]"
proof -
  have goal: "ibs w' = ibs w \<and> (t \<noteq> tn_current cur \<longrightarrow> t \<noteq> b \<longrightarrow> obs w' t = obs w t) \<and>
    other_rules (tn_route cur) (rls w') = other_rules (tn_route cur) (rls w) \<and> (x = None \<longrightarrow> added) \<and>
    (added \<longrightarrow> obs w' b \<noteq> None \<and> (tn_current cur \<noteq> b \<longrightarrow> obs w' (tn_current cur) = None)) \<and>
    (tn_current cur \<noteq> b \<longrightarrow> obs w' (tn_current cur) = None \<or> obs w' b = obs w b \<and> obs w' (tn_current cur) = obs w (tn_current cur)) \<and>
    (x = None \<longrightarrow> tn_route cur \<noteq> '''' \<longrightarrow>
       rls w' = other_rules (tn_route cur) (rls w) @ [\<lparr>rl_tag = b, rl_ruletag = tn_route cur\<rparr>])"
  proof (cases "to_proto (po_json (tn_out_bare rep))")
    case (Inl e)
    then show ?thesis using assms(2) by (auto simp: repair_calls_def)
  next
    case (Inr h)
    have tag: "h_tag h = b" using assms(1) Inr rep(1) by (auto simp: proto_ok_def)
    obtain y w1 where r1: "remove_current c cur w = (y, w1)" by fastforce
    note s1 = remove_current_spec [OF r1]
    show ?thesis
    proof (cases y)
      case (Some e)
      then have res: "added = False" "x = Some e" "w' = w1" using assms(2) Inr r1 by (auto simp: repair_calls_def)
      show ?thesis unfolding res using s1(1,3,4) s1(2) [of t] s1(2) [of b] by auto
    next
      case None
      then have gone: "obs w1 (tn_current cur) = None" using s1(3) by simp
      obtain z w2 where r2: "add_outbound c h w1 = (z, w2)" by fastforce
      note f2 = add_outbound_frame [OF r2] and c2 = add_outbound_cases [OF r2]
      show ?thesis
      proof (cases z)
        case (Some e)
        then have res: "added = False" "x = Some e" "w' = w2" using assms(2) Inr r1 None r2 by (auto simp: repair_calls_def)
        show ?thesis unfolding res using s1(1,4) s1(2) [of t] s1(2) [of b] gone f2 c2 tag by auto
      next
        case z: None
        obtain u w3 where r3: "add_rule c (tunnel_rule rep (tn_current rep)) w2 = (u, w3)" by fastforce
        have res: "added" "x = u" "w' = w3" using assms(2) Inr r1 None r2 z r3 by (auto simp: repair_calls_def)
        note f3 = add_rule_frame [OF r3] and c3 = add_rule_cases [OF r3]
        have ob: "obs w' = (obs w1)(b \<mapsto> h)" using add_outbound_ok r2 z tag f3 res by simp
        have rule: "rule_of (tunnel_rule rep (tn_current rep)) = \<lparr>rl_tag = b, rl_ruletag = tn_route cur\<rparr>"
          using rep by (simp add: rule_of_def tunnel_rule_def)
        have oth: "other_rules (tn_route cur) (rls w') = other_rules (tn_route cur) (rls w)"
          using c3 f2 s1(4) res rule by (auto simp: other_rules_def)
        have last: "rls w' = other_rules (tn_route cur) (rls w) @ [\<lparr>rl_tag = b, rl_ruletag = tn_route cur\<rparr>]"
          if "x = None" "tn_route cur \<noteq> ''''"
        proof -
          have "u = None" using res that by simp
          from add_rule_ok [OF r3 [unfolded this]] have "tn_route cur \<notin> rl_ruletag ` set (rls w2)" "rls w' = rls w2 @ [\<lparr>rl_tag = b, rl_ruletag = tn_route cur\<rparr>]"
            using that(2) rep rule res by (auto simp: tunnel_rule_def)
          moreover from this have "other_rules (tn_route cur) (rls w2) = rls w2"
            by (force simp: other_rules_def intro: filter_True)
          ultimately show ?thesis using f2 s1(4) by simp
        qed
        show ?thesis using res(1) ob oth last s1(1) s1(2) [of t] gone f2 f3 res by auto
      qed
    qed
  qed
  show "ibs w' = ibs w" "t \<noteq> tn_current cur \<Longrightarrow> t \<noteq> b \<Longrightarrow> obs w' t = obs w t"
    "other_rules (tn_route cur) (rls w') = other_rules (tn_route cur) (rls w)"
    "x = None \<Longrightarrow> added"
    "added \<Longrightarrow> obs w' b \<noteq> None \<and> (tn_current cur \<noteq> b \<longrightarrow> obs w' (tn_current cur) = None)"
    "tn_current cur \<noteq> b \<Longrightarrow> obs w' (tn_current cur) = None \<or> obs w' b = obs w b \<and> obs w' (tn_current cur) = obs w (tn_current cur)"
    "x = None \<Longrightarrow> tn_route cur \<noteq> '''' \<Longrightarrow>
       rls w' = other_rules (tn_route cur) (rls w) @ [\<lparr>rl_tag = b, rl_ruletag = tn_route cur\<rparr>]"
    using goal by blast+
qed

text \<open>
  The rejoin of a tunnel on its outbound \<open>b\<close> to its outbound \<open>a\<close>, which Xray does not have: whatever
  fails, Xray never has both, and the error tells when it may have been left on \<open>a\<close>.
\<close>

lemma rejoin_calls_spec:
  assumes "proto_ok to_proto h_tag" "rejoin_calls c to_proto cur rej w = (x, w')"
    and tags: "get_tag (po_json (tn_out_initial rej)) = a" "tn_current rej = a" "tn_route rej = tn_route cur"
      "get_tag (po_json (tn_out_bare cur)) = b" "tn_current cur = b"
    and ab: "a \<noteq> b" "obs w a = None"
  shows "ibs w' = ibs w \<and> (t \<noteq> a \<longrightarrow> t \<noteq> b \<longrightarrow> obs w' t = obs w t) \<and>
    other_rules (tn_route cur) (rls w') = other_rules (tn_route cur) (rls w) \<and>
    (obs w' a = None \<or> obs w' b = None) \<and>
    (\<forall>e. x = Some e \<longrightarrow> \<not> is_stuck e \<longrightarrow> obs w' a = None) \<and>
    (x = None \<longrightarrow> obs w' a \<noteq> None \<and> obs w' b = None \<and>
       (tn_route cur \<noteq> '''' \<longrightarrow> rls w' = other_rules (tn_route cur) (rls w) @ [\<lparr>rl_tag = a, rl_ruletag = tn_route cur\<rparr>]))"
proof (cases "to_proto (po_json (tn_out_initial rej))")
  case (Inl e)
  then show ?thesis using assms(2) ab by (auto simp: rejoin_calls_def)
next
  case hi: (Inr hi)
  show ?thesis
  proof (cases "to_proto (po_json (tn_out_bare cur))")
    case (Inl e)
    then show ?thesis using assms(2) ab hi by (auto simp: rejoin_calls_def)
  next
    case hb: (Inr hb)
    have tag: "h_tag hi = a" "h_tag hb = b" using assms(1) hi hb tags by (auto simp: proto_ok_def)
    obtain y w1 where r1: "remove_current c cur w = (y, w1)" by fastforce
    note s1 = remove_current_spec [OF r1, unfolded tags(5)]
    have a1: "obs w1 a = None" using s1(2) [of a] ab by simp
    show ?thesis
    proof (cases y)
      case (Some e)
      then have res: "x = Some e" "w' = w1" using assms(2) hi hb r1 by (auto simp: rejoin_calls_def)
      show ?thesis unfolding res using s1(1,4) s1(2) [of t] a1 by auto
    next
      case None
      then have b1: "obs w1 b = None" using s1(3) by simp
      obtain z w2 where r2: "add_outbound c hi w1 = (z, w2)" by fastforce
      note f2 = add_outbound_frame [OF r2] and c2 = add_outbound_cases [OF r2]
      obtain u w3 where u: "(case z of Some e \<Rightarrow> (Some e, w2)
          | None \<Rightarrow> add_rule c (tunnel_rule rej (tn_current rej)) w2) = (u, w3)" by fastforce
      have u3: "ibs w3 = ibs w2" "obs w3 = obs w2" "other_rules (tn_route cur) (rls w3) = other_rules (tn_route cur) (rls w2)"
        "u = None \<Longrightarrow> z = None \<and> add_rule c (tunnel_rule rej (tn_current rej)) w2 = (None, w3)"
      proof -
        have one: "ibs w3 = ibs w2 \<and> obs w3 = obs w2 \<and> other_rules (tn_route cur) (rls w3) = other_rules (tn_route cur) (rls w2) \<and>
          (u = None \<longrightarrow> z = None \<and> add_rule c (tunnel_rule rej (tn_current rej)) w2 = (None, w3))"
        proof (cases z)
          case None
          then have r3: "add_rule c (tunnel_rule rej (tn_current rej)) w2 = (u, w3)" using u by simp
          show ?thesis using None r3 add_rule_frame [OF r3] add_rule_cases [OF r3] tags
            by (auto simp: rule_of_def tunnel_rule_def other_rules_def)
        qed (use u in auto)
        then show "ibs w3 = ibs w2" "obs w3 = obs w2" "other_rules (tn_route cur) (rls w3) = other_rules (tn_route cur) (rls w2)"
          "u = None \<Longrightarrow> z = None \<and> add_rule c (tunnel_rule rej (tn_current rej)) w2 = (None, w3)" by blast+
      qed
      have o3: "obs w3 b = None" "t \<noteq> a \<longrightarrow> t \<noteq> b \<longrightarrow> obs w3 t = obs w t" "ibs w3 = ibs w"
        "other_rules (tn_route cur) (rls w3) = other_rules (tn_route cur) (rls w)"
        using u3 c2 b1 tag ab s1 f2 by auto
      have run: "rejoin_calls c to_proto cur rej w = (case u of None \<Rightarrow> (None, w3)
             | Some e \<Rightarrow>
                 (case remove_outbound c (tn_current rej) w3 of
                    (Some re, w3) \<Rightarrow> (Some (StuckOnInitial e), w3)
                  | (None, w3) \<Rightarrow>
                      let w4 = snd (add_outbound c hb w3)
                      in (Some e, snd (add_rule c (tunnel_rule cur (tn_current cur)) w4))))"
        using hi hb r1 None r2 u by (simp add: rejoin_calls_def)
      show ?thesis
      proof (cases u)
        case u0: None
        then have res: "x = None" "w' = w3" using assms(2) run by auto
        have z: "z = None" and r3: "add_rule c (tunnel_rule rej (tn_current rej)) w2 = (None, w3)" using u3(4) u0 by auto
        have "obs w3 a \<noteq> None" using add_outbound_ok [of hi w1 w2] r2 z tag u3(2) by simp
        moreover have "rls w3 = other_rules (tn_route cur) (rls w) @ [\<lparr>rl_tag = a, rl_ruletag = tn_route cur\<rparr>]" if "tn_route cur \<noteq> ''''"
        proof -
          have "tn_route cur \<notin> rl_ruletag ` set (rls w2)" "rls w3 = rls w2 @ [\<lparr>rl_tag = a, rl_ruletag = tn_route cur\<rparr>]"
            using add_rule_ok [OF r3] that tags by (auto simp: tunnel_rule_def rule_of_def)
          moreover from this have "other_rules (tn_route cur) (rls w2) = rls w2"
            by (force simp: other_rules_def intro: filter_True)
          ultimately show ?thesis using f2 s1(4) by simp
        qed
        ultimately show ?thesis unfolding res using o3 by blast
      next
        case (Some e)
        obtain v w4 where r4: "remove_outbound c a w3 = (v, w4)" by fastforce
        note f4 = remove_outbound_frame [OF r4] and c4 = remove_outbound_cases [OF r4]
        show ?thesis
        proof (cases v)
          case (Some re)
          then have res: "x = Some (StuckOnInitial e)" "w' = w4" using assms(2) run \<open>u = Some e\<close> r4 tags(2) by auto
          show ?thesis unfolding res using o3 f4 c4 by (auto split: if_splits)
        next
          case v: None
          have a4: "obs w4 a = None" using c4 v by auto
          obtain p w5 where r5: "add_outbound c hb w4 = (p, w5)" by fastforce
          obtain q w6 where r6: "add_rule c (tunnel_rule cur (tn_current cur)) w5 = (q, w6)" by fastforce
          note f5 = add_outbound_frame [OF r5] and c5 = add_outbound_cases [OF r5]
            and f6 = add_rule_frame [OF r6] and c6 = add_rule_cases [OF r6]
          have res: "x = Some e" "w' = w6" using assms(2) run \<open>u = Some e\<close> r4 v tags(2) r5 r6 by auto
          have a6: "obs w6 a = None" using f6 c5 a4 tag ab by auto
          have t6: "t \<noteq> a \<longrightarrow> t \<noteq> b \<longrightarrow> obs w6 t = obs w t" using f6 c5 c4 o3(2) tag by auto
          have "other_rules (tn_route cur) (rls w6) = other_rules (tn_route cur) (rls w5)"
            using c6 by (auto simp: rule_of_def tunnel_rule_def other_rules_def)
          then have r: "other_rules (tn_route cur) (rls w6) = other_rules (tn_route cur) (rls w)" using f5 f4 o3(4) by simp
          have i: "ibs w6 = ibs w" using f6 f5 f4 o3(3) by simp
          show ?thesis unfolding res using a6 t6 r i by simp
        qed
      qed
    qed
  qed
qed

end

section \<open>Lemmas: the state\<close>

definition mappings :: "target_state \<Rightarrow> tunnel list" where
  "mappings t = map mt_mapping (ts_tunnels t)"

lemma update_first_distinct:
  "distinct (map mt_id tns) \<Longrightarrow> update_first i f tns = map (\<lambda>x. if mt_id x = i then f x else x) tns"
proof (induction tns)
  case (Cons tn tns)
  have "map (\<lambda>x. if mt_id x = i then f x else x) tns = tns" if i: "mt_id tn = i"
  proof (rule map_idI)
    fix x assume "x \<in> set tns"
    then have "mt_id x \<in> mt_id ` set tns" by (rule imageI)
    then have "mt_id x \<noteq> i" using Cons.prems i by auto
    then show "(if mt_id x = i then f x else x) = x" by simp
  qed
  then show ?case using Cons by auto
qed simp

lemma reset_hashes_tunnels [simp]: "mappings (reset_source_hashes sid t) = mappings t"
  by (simp add: mappings_def)

lemma note_target_tunnels [simp]: "ts_tunnels (note_target x now t) = ts_tunnels t" "mappings (note_target x now t) = mappings t"
  by (auto simp: mappings_def note_target_def clear_xray_down_def set_xray_down_def split: option.splits)

lemma cap_refused_tunnels [simp]: "ts_tunnels (cap_refused tn e t) = ts_tunnels t" "mappings (cap_refused tn e t) = mappings t"
  by (simp_all add: cap_refused_def mappings_def)

lemma set_state_lost_tunnels [simp]: "ts_tunnels (snd (set_state_lost sid now t)) = ts_tunnels t"
  by (auto simp: set_state_lost_def Let_def)

lemma mappings_ids: "map mt_id (ts_tunnels t) = map tn_base_id (mappings t)"
  by (simp add: mappings_def)

lemma mappings_update:
  assumes "distinct (map tn_base_id (mappings t))" "\<And>x. mt_id x = i \<Longrightarrow> mt_mapping (f x) = g (mt_mapping x)"
  shows "mappings (update_tunnel i f t) = map (\<lambda>m. if tn_base_id m = i then g m else m) (mappings t)"
proof -
  have "distinct (map mt_id (ts_tunnels t))" using assms(1) by (simp add: mappings_ids)
  then show ?thesis
    using assms(2) by (simp add: mappings_def update_tunnel_def update_first_distinct comp_def)
qed

lemma mappings_update_same:
  assumes "distinct (map tn_base_id (mappings t))" "\<And>x. mt_mapping (f x) = mt_mapping x"
  shows "mappings (update_tunnel i f t) = mappings t"
  using mappings_update [OF assms(1), of i f "\<lambda>m. m"] assms(2) by simp

lemma mappings_update_const:
  assumes "distinct (map tn_base_id (mappings t))" "\<And>x. mt_mapping (f x) = m'"
  shows "mappings (update_tunnel i f t) = map (\<lambda>m. if tn_base_id m = i then m' else m) (mappings t)"
  by (rule mappings_update [OF assms(1)]) (simp add: assms(2))

lemma view_tunnel_mapping: "view_tunnel i t = Some tn \<Longrightarrow> mt_mapping tn \<in> set (mappings t) \<and> tn_base_id (mt_mapping tn) = i"
  unfolding view_tunnel_def by (drule find_Some_set) (simp add: mappings_def)

text \<open>Xray holds at most one of the two outbounds of a tunnel, and the recorded one when it is the bare one.\<close>

definition one_outbound :: "('w \<Rightarrow> string \<Rightarrow> handler option) \<Rightarrow> 'w \<Rightarrow> tunnel \<Rightarrow> bool" where
  "one_outbound obs w m \<longleftrightarrow>
     (tn_initial m \<noteq> tn_base_tag m \<longrightarrow>
        (obs w (tn_initial m) = None \<or> obs w (tn_base_tag m) = None) \<and>
        (tn_current m = tn_base_tag m \<longrightarrow> obs w (tn_initial m) = None))"

definition own_tags :: "tunnel \<Rightarrow> string set" where
  "own_tags m = {tn_initial m, tn_base_tag m}"

definition tags_apart :: "tunnel list \<Rightarrow> bool" where
  "tags_apart ms \<longleftrightarrow> distinct (map tn_base_id ms) \<and>
     (\<forall>m \<in> set ms. \<forall>n \<in> set ms. tn_base_id m \<noteq> tn_base_id n \<longrightarrow> own_tags m \<inter> own_tags n = {})"

definition mappings_ok :: "target \<Rightarrow> ('w \<Rightarrow> string \<Rightarrow> handler option) \<Rightarrow> 'w \<Rightarrow> tunnel list \<Rightarrow> bool" where
  "mappings_ok tgt obs w ms \<longleftrightarrow>
     tags_apart ms \<and> (\<forall>m \<in> set ms. tunnel_wf tgt (tn_source m) m \<and> one_outbound obs w m)"

lemma tunnel_wf_tags:
  assumes "tunnel_wf tgt sid m"
  shows "tn_current m = tn_initial m \<or> tn_current m = tn_base_tag m" "po_tag (tn_out_bare m) = tn_base_tag m"
    "get_tag (po_json (tn_out_bare m)) = tn_base_tag m" "get_tag (po_json (tn_out_initial m)) = tn_initial m"
  using assms unfolding tunnel_wf_def by blast+

text \<open>One tunnel moves between its outbounds: the others keep theirs.\<close>

definition switch :: "string \<Rightarrow> tunnel \<Rightarrow> tunnel list \<Rightarrow> tunnel list" where
  "switch i m' ms = map (\<lambda>m. if tn_base_id m = i then m' else m) ms"

lemma switch_same:
  assumes "distinct (map tn_base_id ms)" "m \<in> set ms" "tn_base_id m = i"
  shows "switch i m ms = ms"
  using assms by (auto simp: switch_def distinct_map dest: inj_onD intro!: map_idI)

lemma mappings_ok_switch:
  assumes ok: "mappings_ok tgt obs w ms" and m: "m \<in> set ms" "tn_base_id m = i"
    and m': "m' = m\<lparr>tn_current := cc\<rparr>" "cc \<in> own_tags m"
    and rest: "\<And>t. t \<notin> own_tags m \<Longrightarrow> obs w' t = obs w t" and one: "one_outbound obs w' m'"
  shows "mappings_ok tgt obs w' (switch i m' ms)"
proof -
  have wf: "tunnel_wf tgt (tn_source m) m" using ok m(1) by (simp add: mappings_ok_def)
  have wf': "tunnel_wf tgt (tn_source m') m'" using wf m' by (auto simp: tunnel_wf_def own_tags_def)
  have ids: "map tn_base_id (switch i m' ms) = map tn_base_id ms"
    using m(2) m'(1) by (simp add: switch_def comp_def cong: map_cong)
  have tags: "own_tags m' = own_tags m" using m'(1) by (simp add: own_tags_def)
  have mem: "x \<in> set (switch i m' ms) \<longleftrightarrow> x = m' \<or> x \<in> set ms \<and> tn_base_id x \<noteq> i" for x
    using m by (auto simp: switch_def)
  have old: "\<exists>y \<in> set ms. own_tags y = own_tags x \<and> tn_base_id y = tn_base_id x" if "x \<in> set (switch i m' ms)" for x
    using that m tags m'(1) unfolding mem by auto
  have apart: "tags_apart (switch i m' ms)"
    unfolding tags_apart_def ids
  proof (intro conjI ballI impI)
    show "distinct (map tn_base_id ms)" using ok by (simp add: mappings_ok_def tags_apart_def)
    fix x z assume "x \<in> set (switch i m' ms)" "z \<in> set (switch i m' ms)" "tn_base_id x \<noteq> tn_base_id z"
    then show "own_tags x \<inter> own_tags z = {}"
      using old [of x] old [of z] ok by (fastforce simp: mappings_ok_def tags_apart_def)
  qed
  have "tunnel_wf tgt (tn_source x) x \<and> one_outbound obs w' x" if x: "x \<in> set (switch i m' ms)" for x
  proof (cases "x = m'")
    case False
    then have x1: "x \<in> set ms" "tn_base_id x \<noteq> i" using x mem by auto
    then have "own_tags m \<inter> own_tags x = {}" using ok m by (auto simp: mappings_ok_def tags_apart_def)
    then have "obs w' u = obs w u" if "u \<in> own_tags x" for u using rest that by blast
    then show ?thesis using ok x1(1) by (simp add: mappings_ok_def one_outbound_def own_tags_def)
  qed (use wf' one in simp)
  then show ?thesis using apart by (simp add: mappings_ok_def)
qed

lemma mappings_ok_obs: "mappings_ok tgt obs w ms \<Longrightarrow> obs w' = obs w \<Longrightarrow> mappings_ok tgt obs w' ms"
  by (simp add: mappings_ok_def one_outbound_def)

text \<open>What each outcome does to the mappings.\<close>

lemma mappings_outcomes:
  assumes "distinct (map tn_base_id (mappings t))"
  shows "mappings (update_tunnel i (on_monitor f) t) = mappings t"
    "mappings (repair_failed i m added e at1 t) = (if added then switch i (bare_mapping m) (mappings t) else mappings t)"
    "mappings (repair_done i m waiting reset_at now t) = switch i (bare_mapping m) (mappings t)"
    "mappings (state_lost now m t) = mappings t"
    "mappings (rejoin_failed i m e now t) = (if is_stuck e then switch i (initial_mapping m) (mappings t) else mappings t)"
    "mappings (rejoin_done i m t) = switch i (initial_mapping m) (mappings t)"
proof -
  note d = assms
  have n: "distinct (map tn_base_id (mappings (note_target y now (cap_refused m e t))))" for y now using d by simp
  show "mappings (update_tunnel i (on_monitor f) t) = mappings t" by (rule mappings_update_same [OF d]) simp
  show "mappings (repair_failed i m added e at1 t) = (if added then switch i (bare_mapping m) (mappings t) else mappings t)"
    using mappings_update_same [OF n, of _ i] mappings_update_const [OF n, of _ "bare_mapping m" i]
    by (cases added) (simp_all add: repair_failed_def switch_def)
  show "mappings (repair_done i m waiting reset_at now t) = switch i (bare_mapping m) (mappings t)"
    unfolding repair_done_def switch_def by (rule mappings_update_const [OF d]) (simp add: Let_def)
  show "mappings (state_lost now m t) = mappings t"
    by (simp add: state_lost_def mappings_def Let_def comp_def if_distrib cong: if_cong)
  show "mappings (rejoin_failed i m e now t) = (if is_stuck e then switch i (initial_mapping m) (mappings t) else mappings t)"
    using mappings_update_same [OF n, of _ i] mappings_update_const [OF n, of _ "initial_mapping m" i]
    by (cases "is_stuck e") (simp_all add: rejoin_failed_def switch_def)
  show "mappings (rejoin_done i m t) = switch i (initial_mapping m) (mappings t)"
    unfolding rejoin_done_def switch_def by (rule mappings_update_const [OF d]) simp
qed

section \<open>The dialer\<close>

text \<open>
  What the monitor relies on of its collaborators: a client it gets has the laws of the API, dialling
  changes nothing in Xray, and the builders of handlers keep the tags.
\<close>

locale xray_dial =
  fixes d :: "'w deps"
    and obs :: "'w \<Rightarrow> string \<Rightarrow> handler option"
    and ibs :: "'w \<Rightarrow> string \<Rightarrow> handler option"
    and rls :: "'w \<Rightarrow> rule list"
  assumes dial_ok: "dp_dial d a n w = (Inr c, w') \<Longrightarrow> xray_api c obs ibs rls"
    and dial_frame: "dp_dial d a n w = (r, w') \<Longrightarrow> obs w' = obs w \<and> ibs w' = ibs w \<and> rls w' = rls w"
    and to_proto_ok: "proto_ok (dp_to_proto d) h_tag"
    and in_proto_ok: "in_ok (dp_in_proto d)"
begin

lemma dial_api:
  assumes "dial d sub w = (Inr c, w')"
  shows "xray_api c obs ibs rls"
  using assms xray_api.capped_api [OF dial_ok] by (auto simp: dial_def split: prod.splits sum.splits)

lemma dial_same: "dial d sub w = (r, w') \<Longrightarrow> obs w' = obs w \<and> ibs w' = ibs w \<and> rls w' = rls w"
  using dial_frame by (fastforce simp: dial_def split: prod.splits sum.splits)

lemma has_inbound_frame:
  assumes "xray_api c obs ibs rls" "has_inbound c tag w = (r, w')"
  shows "obs w' = obs w \<and> ibs w' = ibs w \<and> rls w' = rls w"
  using xray_api.list_inbounds_frame [OF assms(1)] assms(2)
  by (fastforce simp: has_inbound_def split: prod.splits sum.splits)

lemma repair_keeps:
  assumes ok: "mappings_ok (sub_target sub) obs w (mappings t)" and run: "repair d sub i t w = (x, t', w')"
  shows "mappings_ok (sub_target sub) obs w' (mappings t')"
proof (cases "view_tunnel i t")
  case None
  then show ?thesis using run ok by (simp add: repair_def)
next
  case (Some tn)
  let ?m = "mt_mapping tn" and ?ms = "mappings t"
  have m: "?m \<in> set ?ms" "tn_base_id ?m = i" using view_tunnel_mapping [OF Some] by blast+
  have dist: "distinct (map tn_base_id ?ms)" using ok by (simp add: mappings_ok_def tags_apart_def)
  show ?thesis
  proof (cases "should_rejoin ?m")
    case True
    then show ?thesis using run ok Some by (simp add: repair_def)
  next
    case False
    have wf: "tunnel_wf (sub_target sub) (tn_source ?m) ?m" and one: "one_outbound obs w ?m"
      using ok m(1) by (simp_all add: mappings_ok_def)
    define t1 where "t1 = update_tunnel i (on_monitor (\<lambda>m. m\<lparr>tm_state := TRepairing\<rparr>)) t"
    have t1: "mappings t1 = ?ms" unfolding t1_def by (rule mappings_outcomes(1) [OF dist])
    have d1: "distinct (map tn_base_id (mappings t1))" using t1 dist by simp
    obtain r w1 where dl: "dial d sub w = (r, w1)" by fastforce
    note f1 = dial_same [OF dl]
    show ?thesis
    proof (cases r)
      case (Inl e)
      then show ?thesis using run Some False dl mappings_ok_obs [OF ok] f1 t1
        by (simp add: repair_def Let_def t1_def)
    next
      case (Inr c)
      have api: "xray_api c obs ibs rls" using dial_api dl Inr by simp
      obtain q w2 where hi: "has_inbound c (tn_inbound ?m) w1 = (q, w2)" by fastforce
      note f2 = has_inbound_frame [OF api hi]
      define waiting where "waiting = source_waiting (tn_source ?m) t1"
      define reset_at where "reset_at = (case map_of (ts_waits t1) (tn_source ?m) of None \<Rightarrow> None | Some x \<Rightarrow> sw_reset_at x)"
      have rp: "repair d sub i t w = (case q of
           Inl e \<Rightarrow> (None, repair_failed i ?m False e (dp_now d w2) t1, w2)
         | Inr found \<Rightarrow>
             let t2 = note_target None (dp_now d w2) t1 in
             if \<not> found then (None, state_lost (dp_now d w2) ?m t2, w2)
             else case repair_calls c (dp_to_proto d) ?m (bare_mapping ?m) w2 of
                 (added, Some e, w3) \<Rightarrow> (None, repair_failed i ?m added e (dp_now d w3) t2, w3)
               | (added, None, w3) \<Rightarrow> (None, repair_done i ?m waiting reset_at (dp_now d w3) t2, w3))"
        unfolding repair_def Some option.case Let_def dl Inr if_not_P [OF False] prod.case sum.case hi
          t1_def [symmetric] waiting_def reset_at_def
        by (cases q) simp_all
      have ok2: "mappings_ok (sub_target sub) obs w2 ?ms" using mappings_ok_obs [OF ok] f1 f2 by simp
      show ?thesis
      proof (cases "q = Inr True")
        case no: False
        then have "mappings t' = ?ms \<and> w' = w2"
          using run rp mappings_outcomes(2,4) [OF d1] mappings_outcomes(4) [of "note_target None (dp_now d w2) t1"] d1 t1
          by (cases q) (auto simp: Let_def)
        then show ?thesis using ok2 by simp
      next
        case True
        let ?t2 = "note_target None (dp_now d w2) t1"
        obtain added y w3 where rc: "repair_calls c (dp_to_proto d) ?m (bare_mapping ?m) w2 = (added, y, w3)"
          by (metis prod_cases3)
        have b: "get_tag (po_json (tn_out_bare (bare_mapping ?m))) = tn_base_tag ?m"
          "tn_current (bare_mapping ?m) = tn_base_tag ?m" "tn_route (bare_mapping ?m) = tn_route ?m"
          using wf by (simp_all add: bare_mapping_def tunnel_wf_def)
        note sp = xray_api.repair_calls_spec [OF api to_proto_ok rc b]
        have d2: "distinct (map tn_base_id (mappings ?t2))" using d1 by simp
        have res: "mappings t' = (if added then switch i (bare_mapping ?m) ?ms else ?ms)" "w' = w3"
        proof -
          have "(x, t', w') = (case y of
              Some e \<Rightarrow> (None, repair_failed i ?m added e (dp_now d w3) ?t2, w3)
            | None \<Rightarrow> (None, repair_done i ?m waiting reset_at (dp_now d w3) ?t2, w3))"
            using run unfolding rp True sum.case Let_def rc by (cases y) auto
          then show "mappings t' = (if added then switch i (bare_mapping ?m) ?ms else ?ms)" "w' = w3"
            using mappings_outcomes(2) [OF d2, of i ?m added] mappings_outcomes(3) [OF d2, of i ?m waiting reset_at] sp(4) t1
            by (auto split: option.splits)
        qed
        have cur: "tn_current ?m = tn_initial ?m" if "tn_initial ?m \<noteq> tn_base_tag ?m"
          using tunnel_wf_tags [OF wf] False that unfolding should_rejoin_def by metis
        have rest: "obs w3 u = obs w2 u" if "u \<notin> own_tags ?m" for u
          using sp(2) that wf by (auto simp: own_tags_def tunnel_wf_def)
        have bare: "bare_mapping ?m = ?m\<lparr>tn_current := tn_base_tag ?m\<rparr>"
          using wf by (simp add: bare_mapping_def tunnel_wf_def)
        show ?thesis
        proof (cases added)
          case True
          have "one_outbound obs w3 (bare_mapping ?m)"
            using sp(5) [OF True] cur by (auto simp: one_outbound_def bare)
          then have "mappings_ok (sub_target sub) obs w3 (switch i (bare_mapping ?m) ?ms)"
            using mappings_ok_switch [OF ok2 m bare _ rest] by (simp add: own_tags_def)
          then show ?thesis using res True by simp
        next
          case no: False
          have "one_outbound obs w2 ?m" using ok2 m(1) by (simp add: mappings_ok_def)
          then have "one_outbound obs w3 ?m"
            using sp(6) cur by (auto simp: one_outbound_def)
          then have "mappings_ok (sub_target sub) obs w3 (switch i ?m ?ms)"
            using wf by (intro mappings_ok_switch [OF ok2 m _ _ rest, of _ "tn_current ?m"]) (auto simp: own_tags_def tunnel_wf_def)
          then show ?thesis using res no switch_same [OF dist m] by simp
        qed
      qed
    qed
  qed
qed

lemma rejoin_keeps:
  assumes ok: "mappings_ok (sub_target sub) obs w (mappings t)" and run: "rejoin d sub i t w = (x, t', w')"
  shows "mappings_ok (sub_target sub) obs w' (mappings t')"
proof (cases "view_tunnel i t")
  case None
  then show ?thesis using run ok by (simp add: rejoin_def)
next
  case (Some tn)
  let ?m = "mt_mapping tn" and ?ms = "mappings t"
  have m: "?m \<in> set ?ms" "tn_base_id ?m = i" using view_tunnel_mapping [OF Some] by blast+
  have dist: "distinct (map tn_base_id ?ms)" using ok by (simp add: mappings_ok_def tags_apart_def)
  have wf: "tunnel_wf (sub_target sub) (tn_source ?m) ?m" and one: "one_outbound obs w ?m"
    using ok m(1) by (simp_all add: mappings_ok_def)
  show ?thesis
  proof (cases "should_rejoin ?m")
    case False
    then show ?thesis using run ok Some by (simp add: rejoin_def)
  next
    case True
    obtain r w1 where dl: "dial d sub w = (r, w1)" by fastforce
    note f1 = dial_same [OF dl]
    show ?thesis
    proof (cases r)
      case (Inl e)
      then show ?thesis using run Some True dl mappings_ok_obs [OF ok] f1 by (simp add: rejoin_def)
    next
      case (Inr c)
      have api: "xray_api c obs ibs rls" using dial_api dl Inr by simp
      obtain y w2 where rc: "rejoin_calls c (dp_to_proto d) ?m (initial_mapping ?m) w1 = (y, w2)" by fastforce
      have ab: "tn_initial ?m \<noteq> tn_base_tag ?m" "tn_current ?m = tn_base_tag ?m"
        using tunnel_wf_tags [OF wf] True unfolding should_rejoin_def by metis+
      have tags: "get_tag (po_json (tn_out_initial (initial_mapping ?m))) = tn_initial ?m"
        "tn_current (initial_mapping ?m) = tn_initial ?m" "tn_route (initial_mapping ?m) = tn_route ?m"
        "get_tag (po_json (tn_out_bare ?m)) = tn_base_tag ?m"
        using wf by (simp_all add: initial_mapping_def tunnel_wf_def)
      have none: "obs w1 (tn_initial ?m) = None" using one ab f1 by (simp add: one_outbound_def)
      note sp = xray_api.rejoin_calls_spec [OF api to_proto_ok rc tags ab(2) ab(1) none]
      let ?t2 = "note_target None (dp_now d w2) t"
      have d2: "distinct (map tn_base_id (mappings ?t2))" using dist by simp
      have res: "w' = w2" "mappings t' = (case y of None \<Rightarrow> switch i (initial_mapping ?m) ?ms
          | Some e \<Rightarrow> if is_stuck e then switch i (initial_mapping ?m) ?ms else ?ms)"
      proof -
        have "(x, t', w') = (case y of
            Some e \<Rightarrow> (None, rejoin_failed i ?m e (dp_now d w2) t, w2)
          | None \<Rightarrow> (None, rejoin_done i ?m ?t2, w2))"
          using run True unfolding rejoin_def Some option.case Let_def dl Inr prod.case sum.case rc by (cases y) auto
        then show "w' = w2" "mappings t' = (case y of None \<Rightarrow> switch i (initial_mapping ?m) ?ms
          | Some e \<Rightarrow> if is_stuck e then switch i (initial_mapping ?m) ?ms else ?ms)"
          using mappings_outcomes(5) [OF dist, of i ?m] mappings_outcomes(6) [OF d2, of i ?m]
          by (auto split: option.splits)
      qed
      have ok1: "mappings_ok (sub_target sub) obs w1 ?ms" using mappings_ok_obs [OF ok] f1 by simp
      have rest: "obs w2 u = obs w1 u" if "u \<notin> own_tags ?m" for u
        using sp that by (auto simp: own_tags_def)
      have init: "initial_mapping ?m = ?m\<lparr>tn_current := tn_initial ?m\<rparr>" by (simp add: initial_mapping_def)
      have moved: "mappings_ok (sub_target sub) obs w2 (switch i (initial_mapping ?m) ?ms)"
        by (rule mappings_ok_switch [OF ok1 m init _ rest])
          (use sp ab in \<open>auto simp: own_tags_def one_outbound_def init\<close>)
      have stays: "mappings_ok (sub_target sub) obs w2 ?ms" if "y = Some e" "\<not> is_stuck e" for e
      proof -
        have "one_outbound obs w2 ?m" using sp that by (simp add: one_outbound_def)
        then have "mappings_ok (sub_target sub) obs w2 (switch i ?m ?ms)"
          using wf by (intro mappings_ok_switch [OF ok1 m _ _ rest, of _ "tn_current ?m"]) (auto simp: own_tags_def tunnel_wf_def)
        then show ?thesis using switch_same [OF dist m] by simp
      qed
      show ?thesis unfolding res using moved stays by (cases y) auto
    qed
  qed
qed

end

section \<open>Lemmas: flaps\<close>

definition flaps :: "time list \<Rightarrow> flap_state" where
  "flaps ts = foldl (\<lambda>f now. snd (add_flap f now)) no_flap ts"

lemma flaps_simps [simp]: "flaps [] = no_flap" "flaps (ts @ [now]) = snd (add_flap (flaps ts) now)"
  by (simp_all add: flaps_def)

lemma flaps_times:
  assumes "sorted ts" "ts \<noteq> []" "fl_since (flaps ts) = None"
  shows "fl_times (flaps ts) = filter (\<lambda>a. last ts - a < flap_window) ts"
  using assms
proof (induction ts rule: rev_induct)
  case (snoc now ts)
  have pos: "0 < flap_window" by (simp add: flap_window_def minute_ns_def)
  have none: "fl_since (flaps ts) = None"
    using snoc.prems(3) by (auto simp: add_flap_def Let_def split: if_splits)
  have "filter (\<lambda>a. now - a < flap_window) (fl_times (flaps ts)) = filter (\<lambda>a. now - a < flap_window) ts"
  proof (cases "ts = []")
    case True
    then show ?thesis by (simp add: no_flap_def)
  next
    case False
    have le: "last ts \<le> now" using snoc.prems(1) False by (simp add: sorted_append)
    have "fl_times (flaps ts) = filter (\<lambda>a. last ts - a < flap_window) ts"
      using snoc.IH snoc.prems(1) False none by (simp add: sorted_append)
    then show ?thesis using le by (auto intro: filter_cong)
  qed
  then show ?case
    using snoc.prems(3) none pos by (auto simp: add_flap_def Let_def split: if_splits)
qed simp

lemma add_flap_starts:
  assumes "fl_since f = None"
  shows "fl_since (snd (add_flap f now)) \<noteq> None \<longleftrightarrow> 2 \<le> length (filter (\<lambda>a. now - a < flap_window) (fl_times f))"
  using assms by (auto simp: add_flap_def flap_limit_def Let_def)

lemma sorted_two_last:
  fixes ts :: "time list"
  assumes "sorted ts"
  shows "2 \<le> length (filter (\<lambda>a. now - a < k) ts) \<longleftrightarrow> 2 \<le> length ts \<and> now - ts ! (length ts - 2) < k"
proof (cases "2 \<le> length ts")
  case False
  then show ?thesis using length_filter_le [of "\<lambda>a. now - a < k" ts] by linarith
next
  case True
  obtain vs y where v: "ts = vs @ [y]" using True by (cases ts rule: rev_cases) auto
  obtain us x where "vs = us @ [x]" using True v by (cases vs rule: rev_cases) auto
  with v have ts: "ts = us @ [x, y]" by simp
  show ?thesis
  proof (cases "now - x < k")
    case True
    then show ?thesis using assms by (auto simp: ts nth_append sorted_append)
  next
    case False
    have "filter (\<lambda>a. now - a < k) us = []"
      using assms False by (auto simp: ts sorted_append filter_empty_conv)
    then show ?thesis using False by (simp add: ts nth_append)
  qed
qed

section \<open>Properties\<close>

text \<open>
  Everything that may happen to the tunnels of a target between two applies: repairs and rejoins of
  any tunnel with any outcome, and whatever leaves the mappings and Xray's outbounds alone (probes,
  waits, reads, the other kinds of resources).
\<close>

inductive tunnel_run ::
    "'w deps \<Rightarrow> subscription \<Rightarrow> ('w \<Rightarrow> string \<Rightarrow> handler option) \<Rightarrow> target_state \<Rightarrow> 'w \<Rightarrow> target_state \<Rightarrow> 'w \<Rightarrow> bool"
  for d sub obs t0 w0 where
  nothing_yet: "tunnel_run d sub obs t0 w0 t0 w0"
| repaired: "tunnel_run d sub obs t0 w0 t w \<Longrightarrow> repair d sub i t w = (x, t', w') \<Longrightarrow> tunnel_run d sub obs t0 w0 t' w'"
| rejoined: "tunnel_run d sub obs t0 w0 t w \<Longrightarrow> rejoin d sub i t w = (x, t', w') \<Longrightarrow> tunnel_run d sub obs t0 w0 t' w'"
| watched: "tunnel_run d sub obs t0 w0 t w \<Longrightarrow> mappings t' = mappings t \<Longrightarrow> obs w' = obs w \<Longrightarrow> tunnel_run d sub obs t0 w0 t' w'"

lemma tunnel_run_ok:
  assumes "xray_dial d obs ibs rls" "mappings_ok (sub_target sub) obs w0 (mappings t0)" "tunnel_run d sub obs t0 w0 t w"
  shows "mappings_ok (sub_target sub) obs w (mappings t)"
  using assms(3)
proof (induction rule: tunnel_run.induct)
  case nothing_yet
  then show ?case by (rule assms(2))
next
  case (repaired t w i x t' w')
  show ?case by (rule xray_dial.repair_keeps [OF assms(1) repaired.IH repaired.hyps(2)])
next
  case (rejoined t w i x t' w')
  show ?case by (rule xray_dial.rejoin_keeps [OF assms(1) rejoined.IH rejoined.hyps(2)])
next
  case (watched t w t' w')
  then show ?case using mappings_ok_obs by metis
qed

text \<open>
  C27: A tunnel never runs on two outbounds at once: however repairs and rejoins follow each other and
  wherever a call of them fails or times out, Xray never holds both the outbound inside the balancer and
  the one outside it, and a tunnel recorded on the latter is gone from the balancer.
\<close>

theorem never_two_outbounds:
  assumes "xray_dial d obs ibs rls" "mappings_ok (sub_target sub) obs w0 (mappings t0)"
    and "tunnel_run d sub obs t0 w0 t w" "m \<in> set (mappings t)" "tn_initial m \<noteq> tn_base_tag m"
  shows "(obs w (tn_initial m) = None \<or> obs w (tn_base_tag m) = None) \<and>
    (tn_current m = tn_base_tag m \<longrightarrow> obs w (tn_initial m) = None)"
  using tunnel_run_ok [OF assms(1-3)] assms(4,5) by (simp add: mappings_ok_def one_outbound_def)

definition w_deps :: "server deps" where
  "w_deps =
     \<lparr>dp_dial = (\<lambda>a n s. (Inr w_client, s)), dp_now = (\<lambda>s. 0), dp_probe = (\<lambda>r s. (Inr \<lparr>rs_status = 204, rs_latency = 5\<rparr>, s)),
      dp_sleep = (\<lambda>n s. (None, s)), dp_cancelled = (\<lambda>s. False), dp_to_proto = w_proto, dp_in_proto = w_in,
      dp_subs = [], dp_cron = (\<lambda>e. Inl ''no schedule''), dp_lib = w_lib, dp_json = (\<lambda>l. '''')\<rparr>"

interpretation w_dial: xray_dial w_deps fake_obs fake_ibs fs_rules
  by (rule xray_dial.intro) (simp_all add: w_deps_def w_api w_proto_ok w_in_ok)

definition w_state :: target_state where
  "w_state = replace_source_topology ''vl'' [w_tunnel] [] new_target"

lemma w_mappings: "mappings w_state = [w_tunnel\<lparr>tn_source := ''vl''\<rparr>]"
  by (simp add: w_state_def replace_source_topology_def new_target_def replace_tunnels_def mappings_def Let_def)

lemma w_mappings_ok: "mappings_ok (sub_target w_sub) fake_obs (snd w_run_all) (mappings w_state)"
proof -
  have none: "fake_obs (snd w_run_all) ''vl-new'' = None" by code_simp
  have "tunnel_wf w_target ''vl'' w_tunnel"
    unfolding w_tunnel_def by (rule new_tunnel_wf) (simp add: base_tag_of_def w_vless_entry_def w_entry_def)
  moreover have "w_tunnel\<lparr>tn_source := ''vl''\<rparr> = w_tunnel" by (simp add: w_tunnel_def new_tunnel_def Let_def)
  ultimately have wf: "tunnel_wf w_target ''vl'' (w_tunnel\<lparr>tn_source := ''vl''\<rparr>)" by simp
  have tags: "tn_initial w_tunnel = ''obs-vl-new''" "tn_base_tag w_tunnel = ''vl-new''" "tn_current w_tunnel = ''obs-vl-new''"
    by (simp_all add: w_tunnel_def w_vless_entry_def w_entry_def w_target_def)
  show ?thesis
    using none wf by (simp add: mappings_ok_def w_mappings tags_apart_def one_outbound_def tags w_sub_def)
qed

definition w_repaired :: "err option \<times> target_state \<times> server" where
  "w_repaired = repair w_deps w_sub ''vl-new'' w_state (snd w_run_all)"

lemma w_repaired_current: "map tn_current (mappings (fst (snd w_repaired))) = [''vl-new'']"
  by code_simp

lemma w_repaired_tags: "map (\<lambda>m. (tn_initial m, tn_base_tag m)) (mappings (fst (snd w_repaired))) = [(''obs-vl-new'', ''vl-new'')]"
  by code_simp

lemma never_two_outbounds_witness: "fake_obs (snd (snd w_repaired)) ''obs-vl-new'' = None"
proof -
  obtain x t' w' where r: "w_repaired = (x, t', w')" by (metis prod_cases3)
  have run: "tunnel_run w_deps w_sub fake_obs w_state (snd w_run_all) t' w'"
    by (rule tunnel_run.repaired [OF tunnel_run.nothing_yet]) (use r in \<open>simp add: w_repaired_def\<close>)
  have t': "fst (snd w_repaired) = t'" by (simp add: r)
  obtain m where m: "mappings t' = [m]" "tn_current m = ''vl-new''" "tn_initial m = ''obs-vl-new''" "tn_base_tag m = ''vl-new''"
    using w_repaired_current w_repaired_tags unfolding t' by (cases "mappings t'") auto
  show ?thesis
    unfolding r using never_two_outbounds [OF w_dial.xray_dial_axioms w_mappings_ok run, of m] m by simp
qed

text \<open>
  The calls of a repair that succeeds leave the tunnel on its outbound outside the balancer: the
  other one is gone and the only rule of its route leads there. Any outcome leaves every inbound, every
  other outbound and every rule of another route alone, and tells whether the new outbound is there.
\<close>

theorem repair_calls_effect:
  assumes "xray_api c obs ibs rls" "proto_ok to_proto h_tag" "tunnel_wf tgt sid m"
    and "repair_calls c to_proto m (bare_mapping m) w = (added, x, w')"
  shows "ibs w' = ibs w \<and> (\<forall>t. t \<notin> {tn_current m, tn_base_tag m} \<longrightarrow> obs w' t = obs w t) \<and>
    other_rules (tn_route m) (rls w') = other_rules (tn_route m) (rls w) \<and>
    (added \<longrightarrow> obs w' (tn_base_tag m) \<noteq> None \<and> (tn_current m \<noteq> tn_base_tag m \<longrightarrow> obs w' (tn_current m) = None)) \<and>
    (x = None \<longrightarrow> added \<and>
       rls w' = other_rules (tn_route m) (rls w) @ [\<lparr>rl_tag = tn_base_tag m, rl_ruletag = tn_route m\<rparr>])"
proof -
  have b: "get_tag (po_json (tn_out_bare (bare_mapping m))) = tn_base_tag m" "tn_current (bare_mapping m) = tn_base_tag m"
    "tn_route (bare_mapping m) = tn_route m"
    using tunnel_wf_tags [OF assms(3)] by (simp_all add: bare_mapping_def)
  have "tn_route m \<noteq> ''''" using assms(3) by (simp add: tunnel_wf_def)
  then show ?thesis using xray_api.repair_calls_spec [OF assms(1,2,4) b] by blast
qed

lemma repair_calls_effect_witness:
  "fake_ibs (snd (snd (repair_calls w_client w_proto w_tunnel (bare_mapping w_tunnel) w_server))) = fake_ibs w_server"
proof -
  obtain added x w' where r: "repair_calls w_client w_proto w_tunnel (bare_mapping w_tunnel) w_server = (added, x, w')"
    by (metis prod_cases3)
  have wf: "tunnel_wf w_target ''vl'' w_tunnel"
    unfolding w_tunnel_def by (rule new_tunnel_wf) (simp add: base_tag_of_def w_vless_entry_def w_entry_def)
  show ?thesis using repair_calls_effect [OF w_api w_proto_ok wf r] r by simp
qed

text \<open>
  C28: A flap episode starts exactly when three flaps fall within sixty minutes.
\<close>

theorem flap_episode_iff:
  assumes "sorted ts"
  shows "fl_since (flaps ts) \<noteq> None \<longleftrightarrow> (\<exists>i. i + 2 < length ts \<and> ts ! (i + 2) - ts ! i < 60 * minute_ns)"
  using assms
proof (induction ts rule: rev_induct)
  case Nil
  then show ?case by (simp add: no_flap_def)
next
  case (snoc now ts)
  have s: "sorted ts" and IH: "fl_since (flaps ts) \<noteq> None \<longleftrightarrow> (\<exists>i. i + 2 < length ts \<and> ts ! (i + 2) - ts ! i < 60 * minute_ns)"
    using snoc by (simp_all add: sorted_append)
  have new: "(\<exists>i. i + 2 < length (ts @ [now]) \<and> (ts @ [now]) ! (i + 2) - (ts @ [now]) ! i < 60 * minute_ns) \<longleftrightarrow>
      (\<exists>i. i + 2 < length ts \<and> ts ! (i + 2) - ts ! i < 60 * minute_ns) \<or>
      2 \<le> length ts \<and> now - ts ! (length ts - 2) < flap_window" (is "?L \<longleftrightarrow> ?A \<or> ?B")
  proof
    assume ?L
    then obtain i where i: "i + 2 < length (ts @ [now])" "(ts @ [now]) ! (i + 2) - (ts @ [now]) ! i < 60 * minute_ns" by blast
    show "?A \<or> ?B"
    proof (cases "i + 2 < length ts")
      case True
      then show ?thesis using i(2) by (auto simp: nth_append)
    next
      case False
      then have n: "i + 2 = length ts" using i(1) by auto
      then have "(ts @ [now]) ! (i + 2) = now" "(ts @ [now]) ! i = ts ! i" "length ts - 2 = i"
        by (simp_all add: nth_append)
      then have ?B using i(2) n by (simp add: flap_window_def)
      then show ?thesis ..
    qed
  next
    assume "?A \<or> ?B"
    then show ?L
    proof
      assume ?A
      then obtain i where "i + 2 < length ts" "ts ! (i + 2) - ts ! i < 60 * minute_ns" by blast
      then show ?L by (intro exI [of _ i]) (simp add: nth_append)
    next
      assume ?B
      then obtain i where n: "length ts = i + 2" "now - ts ! i < flap_window"
        by (metis add.commute diff_add_inverse le_Suc_ex)
      then show ?L by (intro exI [of _ i]) (simp add: nth_append flap_window_def)
    qed
  qed
  show ?case
  proof (cases "fl_since (flaps ts)")
    case (Some at1)
    then show ?thesis using IH unfolding new by (simp add: add_flap_def)
  next
    case None
    have "2 \<le> length (filter (\<lambda>a. now - a < flap_window) (fl_times (flaps ts))) \<longleftrightarrow>
        2 \<le> length (filter (\<lambda>a. now - a < flap_window) ts)"
    proof (cases "ts = []")
      case True
      then show ?thesis by (simp add: no_flap_def)
    next
      case False
      have "last ts \<le> now" using snoc.prems False by (simp add: sorted_append)
      then have "filter (\<lambda>a. now - a < flap_window) (fl_times (flaps ts)) = filter (\<lambda>a. now - a < flap_window) ts"
        using flaps_times [OF s False None] by (auto intro: filter_cong)
      then show ?thesis by simp
    qed
    moreover have "\<not> (\<exists>i. i + 2 < length ts \<and> ts ! (i + 2) - ts ! i < 60 * minute_ns)" using IH None by metis
    ultimately show ?thesis
      unfolding new flaps_simps add_flap_starts [OF None] sorted_two_last [OF s] by blast
  qed
qed

lemma flap_episode_iff_witness: "fl_since (flaps [0, 10 * minute_ns, 59 * minute_ns]) \<noteq> None"
proof -
  have "sorted [0, 10 * minute_ns, 59 * minute_ns]" by (simp add: minute_ns_def)
  from flap_episode_iff [OF this] show ?thesis by (auto simp: minute_ns_def intro!: exI [of _ 0])
qed

end
