(* ===== verification/Scd_Wait.thy ===== *)
theory Scd_Wait
  imports Scd_Repair
begin

text \<open>
  The dependency waits of the monitor (\<^verbatim>\<open>internal/scd/monitor/wait.go\<close>): the health of the balancers a
  source depends on, the wait of the source, its pause after a recovery, and the quarantines a wait
  gives back. The lemmas show when a wait starts, that it lasts through the pauses, and that it ends.

  The state of the other targets, from which the balancers of other subscriptions are read, is the
  argument \<open>mem\<close>. The events that are logged are results.
\<close>

section \<open>Health\<close>

type_synonym health = "(string, dep_status) gomap"

definition dependents :: "subscription \<Rightarrow> source list" where
  "dependents sub = filter (\<lambda>s. s_depends s \<noteq> []) (enabled_sources sub)"

definition source_of :: "subscription \<Rightarrow> string \<Rightarrow> source option" where
  "source_of sub i = List.find (\<lambda>s. s_id s = i) (sub_sources sub)"

definition dependency_balancer :: "subscription \<Rightarrow> dependency \<Rightarrow> string" where
  "dependency_balancer sub dep =
     (if d_subscription dep \<noteq> '''' then ''''
      else if d_balancer dep \<noteq> '''' then d_balancer dep
      else case source_of sub (d_source dep) of Some s \<Rightarrow> s_balancer s | None \<Rightarrow> '''')"

definition health_key :: "subscription \<Rightarrow> dependency \<Rightarrow> string" where
  "health_key sub dep = (if d_subscription dep \<noteq> '''' then dep_name dep else dependency_balancer sub dep)"

definition cross_dep :: "'w deps \<Rightarrow> memory \<Rightarrow> time \<Rightarrow> dependency \<Rightarrow> health \<Rightarrow> health" where
  "cross_dep d mem now dep h =
     (if d_subscription dep = '''' \<or> map_of h (dep_name dep) \<noteq> None then h
      else AList.update (dep_name dep)
        (case find_balancer (dp_subs d) (d_subscription dep) (d_balancer dep) of
           None \<Rightarrow> DepUnknown
         | Some (other, b) \<Rightarrow>
             (case bc_selection b of
                None \<Rightarrow> DepUnknown
              | Some sel \<Rightarrow>
                  selection_health (state_key (sub_id other) (t_address (sub_target other))) (bc_tag b)
                    (\<lambda>at1. stale (dp_cron d) sel (Some at1) now) mem)) h)"

definition cross_health :: "'w deps \<Rightarrow> memory \<Rightarrow> source list \<Rightarrow> health \<Rightarrow> time \<Rightarrow> health" where
  "cross_health d mem srcs h now =
     fold (\<lambda>src. fold (cross_dep d mem now) (s_depends src)) srcs h"

definition balancer_tags :: "subscription \<Rightarrow> source list \<Rightarrow> string list" where
  "balancer_tags sub srcs =
     fold (\<lambda>src tags. fold (\<lambda>dep tags. let b = dependency_balancer sub dep in
         if b \<noteq> '''' \<and> b \<notin> set tags then tags @ [b] else tags) (s_depends src) tags) srcs []"

text \<open>The health by tag and the error for \<open>NoteXray\<close>.\<close>

fun balancer_health :: "'w client \<Rightarrow> string list \<Rightarrow> health \<Rightarrow> err option \<Rightarrow> 'w \<Rightarrow> (health \<times> err option) \<times> 'w" where
  "balancer_health c [] h note w = ((h, note), w)"
| "balancer_health c (tag # tags) h note w =
     (case get_balancer_info c tag w of
        (Inr info, w1) \<Rightarrow>
          balancer_health c tags
            (AList.update tag (if bi_override info \<noteq> '''' \<or> bi_principle info \<noteq> [] then DepHealthy else DepUnhealthy) h)
            note w1
      | (Inl e, w1) \<Rightarrow>
          balancer_health c tags (AList.update tag DepUnknown h)
            (if is_not_found e \<or> is_disabled e \<or> note \<noteq> None then note else Some e) w1)"

section \<open>Waits\<close>

definition second_ns :: time where "second_ns = 1000000000"

definition grace_ns :: "dependency \<Rightarrow> time" where
  "grace_ns dep = d_grace dep * second_ns"

definition no_health :: dep_health where
  "no_health = \<lparr>dh_state = None, dh_since = None, dh_recovered = None, dh_grace = None\<rparr>"

definition status_of :: "subscription \<Rightarrow> health \<Rightarrow> dependency \<Rightarrow> dep_status" where
  "status_of sub h dep = (case map_of h (health_key sub dep) of Some s \<Rightarrow> s | None \<Rightarrow> DepUnknown)"

definition dep_update :: "time \<Rightarrow> dep_status \<Rightarrow> bool \<Rightarrow> dependency \<Rightarrow> dep_health \<Rightarrow> dep_health" where
  "dep_update now st waiting dep dh =
     (let dh1 = (if st \<noteq> DepHealthy then dh\<lparr>dh_recovered := None, dh_grace := None\<rparr>
                 else if dh_state dh \<noteq> Some DepHealthy \<and> waiting
                 then dh\<lparr>dh_recovered := Some now, dh_grace := Some (now + grace_ns dep)\<rparr>
                 else dh)
      in if dh_state dh1 \<noteq> Some st then dh1\<lparr>dh_state := Some st, dh_since := Some now\<rparr> else dh1)"

definition in_grace :: "time \<Rightarrow> dep_health \<Rightarrow> bool" where
  "in_grace now dh \<longleftrightarrow> (case dh_grace dh of Some g \<Rightarrow> now < g | None \<Rightarrow> False)"

text \<open>The loop over the dependencies: the names that are not healthy, whether a pause is on.\<close>

fun dep_loop ::
    "subscription \<Rightarrow> time \<Rightarrow> health \<Rightarrow> bool \<Rightarrow> dependency list \<Rightarrow> (string, dep_health) gomap \<Rightarrow>
     string list \<times> bool \<times> (string, dep_health) gomap" where
  "dep_loop sub now h waiting [] m = ([], False, m)"
| "dep_loop sub now h waiting (dep # deps) m =
     (let name = dep_name dep;
          st = status_of sub h dep;
          dh = dep_update now st waiting dep (case map_of m name of Some x \<Rightarrow> x | None \<Rightarrow> no_health);
          (bad, gr, m1) = dep_loop sub now h waiting deps (AList.update name dh m)
      in (if st \<noteq> DepHealthy then name # bad else bad, in_grace now dh \<or> gr, m1))"

datatype wait_event = WaitStarted "string list" | WaitEnded time

definition wait_step ::
    "subscription \<Rightarrow> time \<Rightarrow> health \<Rightarrow> source \<Rightarrow> source_wait \<Rightarrow> wait_event option \<times> source_wait" where
  "wait_step sub now h src x =
     (let (bad, gr, m) = dep_loop sub now h (sw_since x \<noteq> None) (s_depends src) (sw_deps x);
          x1 = x\<lparr>sw_deps := m\<rparr>
      in case sw_since x of
           None \<Rightarrow>
             if bad \<noteq> [] then (Some (WaitStarted bad), x1\<lparr>sw_since := Some now\<rparr>) else (None, x1)
         | Some since \<Rightarrow>
             if bad = [] \<and> \<not> gr
             then (Some (WaitEnded (now - since)),
               x1\<lparr>sw_since := None, sw_reset_at := Some now,
                  sw_deps := map (\<lambda>(k, dh). (k, dh\<lparr>dh_recovered := None, dh_grace := None\<rparr>)) m\<rparr>)
             else (None, x1))"

text \<open>The end of a wait starts the failures of the source's tunnels over.\<close>

definition reset_failures :: "string \<Rightarrow> target_state \<Rightarrow> target_state" where
  "reset_failures sid t =
     t\<lparr>ts_tunnels := map (\<lambda>tn. if mt_source tn = sid \<and> 0 < tm_in_row (mt_monitor tn)
          then on_monitor (\<lambda>m. m\<lparr>tm_in_row := 0\<rparr>) tn else tn) (ts_tunnels t)\<rparr>"

definition wait_source ::
    "subscription \<Rightarrow> time \<Rightarrow> health \<Rightarrow> source \<Rightarrow> target_state \<Rightarrow> wait_event option \<times> target_state" where
  "wait_source sub now h src t =
     (let (x, t1) = ensure_wait (s_id src) t;
          (ev, x1) = wait_step sub now h src x;
          t2 = t1\<lparr>ts_waits := AList.update (s_id src) x1 (ts_waits t1)\<rparr>
      in (ev, case ev of Some (WaitEnded d) \<Rightarrow> reset_failures (s_id src) t2 | _ \<Rightarrow> t2))"

fun wait_sources ::
    "subscription \<Rightarrow> time \<Rightarrow> health \<Rightarrow> source list \<Rightarrow> target_state \<Rightarrow> (source \<times> wait_event) list \<times> target_state" where
  "wait_sources sub now h [] t = ([], t)"
| "wait_sources sub now h (src # srcs) t =
     (let (ev, t1) = wait_source sub now h src t;
          (evs, t2) = wait_sources sub now h srcs t1
      in (case ev of None \<Rightarrow> evs | Some e \<Rightarrow> (src, e) # evs, t2))"

definition release_quarantine :: "source \<Rightarrow> time \<Rightarrow> target_state \<Rightarrow> target_state" where
  "release_quarantine src now t =
     (case s_selection src of
        None \<Rightarrow> t
      | Some sel \<Rightarrow>
          let grace = fold (\<lambda>dep g. max g (d_grace dep)) (s_depends src) 0
          in case map_of (ts_sources t) (s_id src) of
               None \<Rightarrow> t
             | Some st \<Rightarrow>
                 t\<lparr>ts_sources := AList.update (s_id src)
                      (st\<lparr>so_selection := snd (release_since (so_selection st) (now - grace * second_ns) (sel_cooldown sel))\<rparr>)
                      (ts_sources t)\<rparr>)"

definition apply_waits :: "subscription \<Rightarrow> source list \<Rightarrow> health \<Rightarrow> time \<Rightarrow> target_state \<Rightarrow> target_state" where
  "apply_waits sub srcs h now t =
     (let t1 = fold (\<lambda>src t. snd (ensure_wait (s_id src) t)) srcs t
      in if ts_xray_down t1 \<noteq> None then t1
         else let (evs, t2) = wait_sources sub now h srcs t1
              in fold (\<lambda>(src, e). case e of WaitStarted bad \<Rightarrow> release_quarantine src now | WaitEnded x \<Rightarrow> (\<lambda>t. t)) evs t2)"

text \<open>\<^verbatim>\<open>dependencyHealth\<close>, the first step of a tick; it uses the plain client.\<close>

definition dependency_health ::
    "'w deps \<Rightarrow> memory \<Rightarrow> subscription \<Rightarrow> target_state \<Rightarrow> 'w \<Rightarrow> target_state \<times> 'w" where
  "dependency_health d mem sub t w =
     (let srcs = dependents sub; tags = balancer_tags sub srcs in
      if srcs = [] then (t, w)
      else if tags = [] then (apply_waits sub srcs (cross_health d mem srcs [] (dp_now d w)) (dp_now d w) t, w)
      else
        let ((h, note), w1) = (case dp_dial d (t_address (sub_target sub)) (t_timeout (sub_target sub)) w of
              (Inl e, w1) \<Rightarrow> (([], Some e), w1)
            | (Inr c, w1) \<Rightarrow> balancer_health c tags [] None w1)
        in if dp_cancelled d w1 then (t, w1)
           else let t1 = note_target note (dp_now d w1) t
                in (apply_waits sub srcs (cross_health d mem srcs h (dp_now d w1)) (dp_now d w1) t1, w1))"

text \<open>\<^verbatim>\<open>freshWait\<close>: whether the source now waits.\<close>

definition fresh_wait ::
    "'w deps \<Rightarrow> memory \<Rightarrow> 'w client \<Rightarrow> subscription \<Rightarrow> source \<Rightarrow> target_state \<Rightarrow> 'w \<Rightarrow> bool \<times> target_state \<times> 'w" where
  "fresh_wait d mem c sub src t w =
     (if s_depends src = [] then (False, t, w)
      else
        let tags = balancer_tags sub [src];
            ((h, note), w1) = (if tags = [] then (([], None), w) else balancer_health c tags [] None w);
            t1 = (if tags = [] then t else note_target note (dp_now d w1) t);
            h1 = cross_health d mem [src] h (dp_now d w1)
        in if list_all (\<lambda>dep. map_of h1 (health_key sub dep) = Some DepHealthy) (s_depends src)
           then (False, t1, w1)
           else (True, apply_waits sub [src] h1 (dp_now d w1) t1, w1))"

section \<open>Lemmas\<close>

definition wait_run :: "subscription \<Rightarrow> source \<Rightarrow> (time \<times> health) list \<Rightarrow> source_wait \<Rightarrow> source_wait" where
  "wait_run sub src ticks x = fold (\<lambda>(now, h) x. snd (wait_step sub now h src x)) ticks x"

lemma wait_run_simps [simp]:
  "wait_run sub src [] x = x"
  "wait_run sub src ((now, h) # ticks) x = wait_run sub src ticks (snd (wait_step sub now h src x))"
  "wait_run sub src (a @ b) x = wait_run sub src b (wait_run sub src a x)"
  by (simp_all add: wait_run_def)

definition all_healthy :: "subscription \<Rightarrow> source \<Rightarrow> health \<Rightarrow> bool" where
  "all_healthy sub src h \<longleftrightarrow> (\<forall>dep \<in> set (s_depends src). status_of sub h dep = DepHealthy)"

lemma dep_loop_bad:
  "dep_loop sub now h waiting deps m = (bad, gr, m') \<Longrightarrow>
   bad = map dep_name (filter (\<lambda>dep. status_of sub h dep \<noteq> DepHealthy) deps)"
  by (induction deps arbitrary: m bad gr m') (auto simp: Let_def split: prod.splits)

lemma dep_loop_other:
  "dep_loop sub now h waiting deps m = (bad, gr, m') \<Longrightarrow> k \<notin> dep_name ` set deps \<Longrightarrow> map_of m' k = map_of m k"
proof (induction deps arbitrary: m bad gr m')
  case (Cons dep deps)
  obtain b g m1 where r: "dep_loop sub now h waiting deps (AList.update (dep_name dep)
      (dep_update now (status_of sub h dep) waiting dep (case map_of m (dep_name dep) of Some x \<Rightarrow> x | None \<Rightarrow> no_health)) m) = (b, g, m1)"
    by (metis prod_cases3)
  then have "m' = m1" using Cons.prems(1) by (simp add: Let_def)
  then show ?case using Cons.IH [OF r] Cons.prems(2) by simp
qed simp

text \<open>With distinct names every dependency is updated once.\<close>

lemma dep_loop_entries:
  assumes "distinct (map dep_name deps)" "dep_loop sub now h waiting deps m = (bad, gr, m')"
  shows "(\<forall>dep \<in> set deps. map_of m' (dep_name dep) = Some (dep_update now (status_of sub h dep) waiting dep
      (case map_of m (dep_name dep) of Some x \<Rightarrow> x | None \<Rightarrow> no_health))) \<and>
    (gr \<longleftrightarrow> (\<exists>dep \<in> set deps. \<exists>dh. map_of m' (dep_name dep) = Some dh \<and> in_grace now dh))"
  using assms
proof (induction deps arbitrary: m bad gr m')
  case (Cons dep deps)
  let ?dh = "dep_update now (status_of sub h dep) waiting dep (case map_of m (dep_name dep) of Some x \<Rightarrow> x | None \<Rightarrow> no_health)"
  obtain b g m1 where r: "dep_loop sub now h waiting deps (AList.update (dep_name dep) ?dh m) = (b, g, m1)"
    by (metis prod_cases3)
  have res: "m' = m1" "gr = (in_grace now ?dh \<or> g)" using Cons.prems(2) r by (simp_all add: Let_def)
  have ne: "dep_name dep \<notin> dep_name ` set deps" using Cons.prems(1) by simp
  have first: "map_of m' (dep_name dep) = Some ?dh" using dep_loop_other [OF r ne] res by simp
  have ih: "(\<forall>x \<in> set deps. map_of m1 (dep_name x) = Some (dep_update now (status_of sub h x) waiting x
      (case map_of (AList.update (dep_name dep) ?dh m) (dep_name x) of Some y \<Rightarrow> y | None \<Rightarrow> no_health))) \<and>
    (g \<longleftrightarrow> (\<exists>x \<in> set deps. \<exists>dh. map_of m1 (dep_name x) = Some dh \<and> in_grace now dh))"
    using Cons.IH [OF _ r] Cons.prems(1) by simp
  have other: "dep_name x \<noteq> dep_name dep" if "x \<in> set deps" for x using ne that by (metis imageI)
  show ?case using first ih other res by auto
qed simp

lemma dep_update_healthy:
  "dh_state (dep_update now DepHealthy waiting dep dh) = Some DepHealthy"
  "dh_state dh = Some DepHealthy \<Longrightarrow> dep_update now DepHealthy waiting dep dh = dh"
  by (simp_all add: dep_update_def Let_def)

lemma dep_update_state: "dh_state (dep_update now st waiting dep dh) = Some st"
  by (simp add: dep_update_def Let_def)

text \<open>Every pause that is on ends by \<open>B\<close>.\<close>

definition pauses_by :: "time \<Rightarrow> (string, dep_health) gomap \<Rightarrow> bool" where
  "pauses_by B m \<longleftrightarrow> (\<forall>k dh g. map_of m k = Some dh \<longrightarrow> dh_grace dh = Some g \<longrightarrow> g \<le> B)"

lemma pauses_by_mono: "pauses_by B m \<Longrightarrow> B \<le> C \<Longrightarrow> pauses_by C m"
  by (fastforce simp: pauses_by_def)

lemma pauses_by_not_in_grace: "pauses_by B m \<Longrightarrow> map_of m k = Some dh \<Longrightarrow> B \<le> now \<Longrightarrow> \<not> in_grace now dh"
  by (cases "dh_grace dh") (fastforce simp: pauses_by_def in_grace_def)+

lemma pauses_by_update:
  "pauses_by B m \<Longrightarrow> (\<And>g. dh_grace dh = Some g \<Longrightarrow> g \<le> B) \<Longrightarrow> pauses_by B (AList.update k dh m)"
  by (auto simp: pauses_by_def)

lemma dep_loop_pauses:
  "dep_loop sub now h waiting deps m = (bad, gr, m') \<Longrightarrow> pauses_by B m \<Longrightarrow>
   (\<forall>dep \<in> set deps. now + grace_ns dep \<le> B) \<Longrightarrow> pauses_by B m'"
proof (induction deps arbitrary: m bad gr m')
  case (Cons dep deps)
  let ?old = "case map_of m (dep_name dep) of Some x \<Rightarrow> x | None \<Rightarrow> no_health"
  let ?dh = "dep_update now (status_of sub h dep) waiting dep ?old"
  obtain b g m1 where r: "dep_loop sub now h waiting deps (AList.update (dep_name dep) ?dh m) = (b, g, m1)"
    by (metis prod_cases3)
  have "dh_grace ?old = Some g \<Longrightarrow> g \<le> B" for g
    using Cons.prems(2) by (auto simp: pauses_by_def no_health_def split: option.splits)
  then have "dh_grace ?dh = Some g \<Longrightarrow> g \<le> B" for g
    using Cons.prems(3) by (auto simp: dep_update_def Let_def split: if_splits)
  then have "pauses_by B (AList.update (dep_name dep) ?dh m)" by (rule pauses_by_update [OF Cons.prems(2)])
  from Cons.IH [OF r this] Cons.prems(1,3) r show ?case by (simp add: Let_def)
qed simp

lemma map_of_map_snd: "map_of (map (\<lambda>(k, v). (k, f v)) m) k = map_option f (map_of m k)"
  by (induction m) auto

lemma wait_step_pauses:
  assumes "pauses_by B (sw_deps x)" "\<forall>dep \<in> set (s_depends src). now + grace_ns dep \<le> B"
  shows "pauses_by B (sw_deps (snd (wait_step sub now h src x)))"
proof -
  obtain bad gr m where r: "dep_loop sub now h (sw_since x \<noteq> None) (s_depends src) (sw_deps x) = (bad, gr, m)"
    by (metis prod_cases3)
  have m: "pauses_by B m" by (rule dep_loop_pauses [OF r assms])
  have "pauses_by B (map (\<lambda>(k, dh). (k, dh\<lparr>dh_recovered := None, dh_grace := None\<rparr>)) m)"
    by (auto simp: pauses_by_def map_of_map_snd)
  then show ?thesis using m r by (cases "sw_since x") (simp_all add: wait_step_def Let_def)
qed

text \<open>Every dependency is known to be healthy.\<close>

definition known_healthy :: "source \<Rightarrow> (string, dep_health) gomap \<Rightarrow> bool" where
  "known_healthy src m \<longleftrightarrow>
     (\<forall>dep \<in> set (s_depends src). \<exists>dh. map_of m (dep_name dep) = Some dh \<and> dh_state dh = Some DepHealthy)"

lemma dep_loop_keeps_healthy:
  "\<forall>dep \<in> set deps. status_of sub h dep = DepHealthy \<Longrightarrow> dep_loop sub now h waiting deps m = (bad, gr, m') \<Longrightarrow>
   map_of m k = Some dh \<Longrightarrow> dh_state dh = Some DepHealthy \<Longrightarrow> map_of m' k = Some dh"
proof (induction deps arbitrary: m bad gr m')
  case (Cons dep deps)
  let ?old = "case map_of m (dep_name dep) of Some x \<Rightarrow> x | None \<Rightarrow> no_health"
  let ?m1 = "AList.update (dep_name dep) (dep_update now DepHealthy waiting dep ?old) m"
  obtain b g m1 where r: "dep_loop sub now h waiting deps ?m1 = (b, g, m1)" by (metis prod_cases3)
  have "map_of ?m1 k = Some dh" using Cons.prems(3,4) dep_update_healthy(2) by auto
  from Cons.IH [OF _ r this Cons.prems(4)] Cons.prems(1,2) r show ?case by (simp add: Let_def)
qed simp

lemma dep_loop_healthy:
  assumes "\<forall>dep \<in> set deps. status_of sub h dep = DepHealthy" "dep_loop sub now h waiting deps m = (bad, gr, m')"
  shows "(\<forall>k. k \<in> dep_name ` set deps \<longrightarrow> (\<exists>dh. map_of m' k = Some dh \<and> dh_state dh = Some DepHealthy)) \<and>
    ((\<forall>k \<in> dep_name ` set deps. \<exists>dh. map_of m k = Some dh \<and> dh_state dh = Some DepHealthy) \<longrightarrow> map_of m' = map_of m) \<and>
    (pauses_by now m' \<longrightarrow> \<not> gr)"
  using assms
proof (induction deps arbitrary: m bad gr m')
  case (Cons dep deps)
  let ?old = "case map_of m (dep_name dep) of Some x \<Rightarrow> x | None \<Rightarrow> no_health"
  let ?dh = "dep_update now DepHealthy waiting dep ?old"
  let ?m1 = "AList.update (dep_name dep) ?dh m"
  obtain b g m1 where r: "dep_loop sub now h waiting deps ?m1 = (b, g, m1)" by (metis prod_cases3)
  have st: "status_of sub h dep = DepHealthy" using Cons.prems(1) by simp
  have res: "m' = m1" "gr = (in_grace now ?dh \<or> g)" using Cons.prems(2) r st by (simp_all add: Let_def)
  note ih = Cons.IH [OF _ r]
  have rest: "\<forall>dep \<in> set deps. status_of sub h dep = DepHealthy" using Cons.prems(1) by simp
  have hd: "dh_state ?dh = Some DepHealthy" by (rule dep_update_healthy)
  show ?case
  proof (intro conjI allI impI)
    fix k assume k: "k \<in> dep_name ` set (dep # deps)"
    show "\<exists>dh. map_of m' k = Some dh \<and> dh_state dh = Some DepHealthy"
    proof (cases "k \<in> dep_name ` set deps")
      case True
      then show ?thesis using ih [OF rest] res by blast
    next
      case False
      then have "map_of m' k = Some ?dh" using k dep_loop_other [OF r False] res by auto
      then show ?thesis using hd by blast
    qed
  next
    assume all: "\<forall>k \<in> dep_name ` set (dep # deps). \<exists>dh. map_of m k = Some dh \<and> dh_state dh = Some DepHealthy"
    then obtain dh where dh: "map_of m (dep_name dep) = Some dh" "dh_state dh = Some DepHealthy" by auto
    then have "?dh = dh" using dep_update_healthy(2) by simp
    then have "map_of ?m1 = map_of m" using dh(1) by (auto simp: fun_eq_iff)
    then show "map_of m' = map_of m" using ih [OF rest] all res by auto
  next
    assume p: "pauses_by now m'"
    have "\<not> in_grace now ?dh"
    proof (cases "dep_name dep \<in> dep_name ` set deps")
      case True
      have same: "map_of m1 (dep_name dep) = Some ?dh"
        by (rule dep_loop_keeps_healthy [OF rest r _ hd]) simp
      then show ?thesis using pauses_by_not_in_grace [OF p] res by simp
    next
      case False
      have "map_of m1 (dep_name dep) = Some ?dh" using dep_loop_other [OF r False] by simp
      then show ?thesis using pauses_by_not_in_grace [OF p] res by simp
    qed
    then show "\<not> gr" using ih [OF rest] p res by blast
  qed
qed simp

text \<open>A step with every dependency healthy.\<close>

lemma wait_step_healthy:
  assumes "all_healthy sub src h" "pauses_by B (sw_deps x)"
    "known_healthy src (sw_deps x) \<or> (\<forall>dep \<in> set (s_depends src). now + grace_ns dep \<le> B)"
  shows "known_healthy src (sw_deps (snd (wait_step sub now h src x))) \<and>
    pauses_by B (sw_deps (snd (wait_step sub now h src x))) \<and>
    (B \<le> now \<longrightarrow> sw_since (snd (wait_step sub now h src x)) = None)"
proof -
  obtain bad gr m where r: "dep_loop sub now h (sw_since x \<noteq> None) (s_depends src) (sw_deps x) = (bad, gr, m)"
    by (metis prod_cases3)
  have st: "\<forall>dep \<in> set (s_depends src). status_of sub h dep = DepHealthy"
    using assms(1) by (simp add: all_healthy_def)
  have bad: "bad = []" using dep_loop_bad [OF r] st by (simp add: filter_empty_conv)
  note loop = dep_loop_healthy [OF st r]
  have known: "known_healthy src m" using loop by (simp add: known_healthy_def)
  have pb: "pauses_by B m" using assms(3)
  proof
    assume "known_healthy src (sw_deps x)"
    then have "map_of m = map_of (sw_deps x)" using loop by (simp add: known_healthy_def)
    then show ?thesis using assms(2) by (simp add: pauses_by_def)
  qed (rule dep_loop_pauses [OF r assms(2)])
  let ?clear = "map (\<lambda>(k, dh). (k, dh\<lparr>dh_recovered := None, dh_grace := None\<rparr>)) m"
  have cleared: "pauses_by B ?clear" "known_healthy src ?clear"
    using known by (auto simp: pauses_by_def known_healthy_def map_of_map_snd)
  have gr: "\<not> gr" if "B \<le> now" using loop pauses_by_mono [OF pb that] by blast
  show ?thesis
    using r bad known pb cleared gr by (cases "sw_since x") (simp_all add: wait_step_def Let_def)
qed

lemma wait_run_healthy:
  assumes "\<forall>(t, h) \<in> set ticks. all_healthy sub src h" "pauses_by B (sw_deps x)" "known_healthy src (sw_deps x)"
    "ticks \<noteq> []" "B \<le> fst (last ticks)"
  shows "sw_since (wait_run sub src ticks x) = None"
  using assms
proof (induction ticks arbitrary: x)
  case (Cons tick ticks)
  obtain now h where t: "tick = (now, h)" by (cases tick)
  have ok: "all_healthy sub src h" using Cons.prems(1) t by simp
  note s = wait_step_healthy [OF ok Cons.prems(2) disjI1, OF Cons.prems(3)]
  show ?case
  proof (cases "ticks = []")
    case True
    then show ?thesis using s Cons.prems(5) t by simp
  next
    case False
    then show ?thesis using Cons.IH [of "snd (wait_step sub now h src x)"] s Cons.prems t by simp
  qed
qed simp

lemma wait_run_pauses:
  "(\<forall>(t, h) \<in> set ticks. \<forall>dep \<in> set (s_depends src). t + grace_ns dep \<le> B) \<Longrightarrow> pauses_by B (sw_deps x) \<Longrightarrow>
   pauses_by B (sw_deps (wait_run sub src ticks x))"
proof (induction ticks arbitrary: x)
  case (Cons tick ticks)
  obtain now h where t: "tick = (now, h)" by (cases tick)
  have "pauses_by B (sw_deps (snd (wait_step sub now h src x)))"
    using Cons.prems t by (intro wait_step_pauses) auto
  then show ?case using Cons t by simp
qed simp

section \<open>Properties\<close>

text \<open>
  C29: a wait ends. Whatever the dependencies did before, once every tick finds them all healthy for as
  long as the longest pause, the source no longer waits.
\<close>

theorem wait_ends:
  assumes "sorted (map fst (unstable @ healthy))" "healthy \<noteq> []"
    "\<forall>(t, h) \<in> set healthy. all_healthy sub src h"
    "\<forall>dep \<in> set (s_depends src). grace_ns dep \<le> G"
    "fst (hd healthy) + G \<le> fst (List.last healthy)"
  shows "sw_since (wait_run sub src (unstable @ healthy) new_wait) = None"
proof -
  obtain now h rest where hl: "healthy = (now, h) # rest" using assms(2) by (metis list.exhaust prod.exhaust)
  let ?B = "now + G" and ?x = "wait_run sub src unstable new_wait"
  have "t \<le> now" if "(t, h') \<in> set unstable" for t h'
    using assms(1) that hl by (force simp: sorted_append)
  then have "\<forall>(t, h') \<in> set unstable. \<forall>dep \<in> set (s_depends src). t + grace_ns dep \<le> ?B"
    using assms(4) by (auto intro: add_mono)
  moreover have "pauses_by ?B (sw_deps new_wait)" by (simp add: pauses_by_def new_wait_def)
  ultimately have p: "pauses_by ?B (sw_deps ?x)" by (rule wait_run_pauses)
  have ok: "all_healthy sub src h" using assms(3) hl by simp
  have g: "\<forall>dep \<in> set (s_depends src). now + grace_ns dep \<le> ?B" using assms(4) by simp
  note s = wait_step_healthy [OF ok p disjI2, OF g]
  show ?thesis
  proof (cases "rest = []")
    case True
    then show ?thesis using s assms(5) hl by simp
  next
    case False
    have "sw_since (wait_run sub src rest (snd (wait_step sub now h src ?x))) = None"
      by (rule wait_run_healthy [where B = ?B]) (use s assms(3,5) hl False in auto)
    then show ?thesis using hl by simp
  qed
qed

definition w_dep :: dependency where
  "w_dep = \<lparr>d_source = '''', d_subscription = '''', d_balancer = ''mid'', d_health = '''', d_grace = 5\<rparr>"

definition w_waiter :: source where
  "w_waiter = w_vl\<lparr>s_depends := [w_dep]\<rparr>"

lemma wait_ends_witness:
  "sw_since (wait_run w_sub w_waiter
     ([(0, [(''mid'', DepUnhealthy)])] @ [(1, [(''mid'', DepHealthy)]), (5 * second_ns + 1, [(''mid'', DepHealthy)])]) new_wait) = None"
  by (rule wait_ends [where G = "5 * second_ns"])
    (simp_all add: second_ns_def all_healthy_def w_waiter_def w_dep_def status_of_def health_key_def
      dependency_balancer_def grace_ns_def)

text \<open>
  what starts, holds and ends a wait. With dependencies of different names the source waits after
  a tick exactly when one of them is not healthy, or when it waited before and the pause after the
  recovery of one of them is still on.
\<close>

theorem wait_step_iff:
  assumes "distinct (map dep_name (s_depends src))" "wait_step sub now h src x = (ev, x')"
  shows "sw_since x' \<noteq> None \<longleftrightarrow>
    (\<exists>dep \<in> set (s_depends src). status_of sub h dep \<noteq> DepHealthy) \<or>
    sw_since x \<noteq> None \<and> (\<exists>dep \<in> set (s_depends src). \<exists>dh. map_of (sw_deps x') (dep_name dep) = Some dh \<and> in_grace now dh)"
proof -
  obtain bad gr m where r: "dep_loop sub now h (sw_since x \<noteq> None) (s_depends src) (sw_deps x) = (bad, gr, m)"
    by (metis prod_cases3)
  have bad: "bad = [] \<longleftrightarrow> (\<forall>dep \<in> set (s_depends src). status_of sub h dep = DepHealthy)"
    using dep_loop_bad [OF r] by (simp add: filter_empty_conv)
  have gr: "gr \<longleftrightarrow> (\<exists>dep \<in> set (s_depends src). \<exists>dh. map_of m (dep_name dep) = Some dh \<and> in_grace now dh)"
    using dep_loop_entries [OF assms(1) r] by blast
  show ?thesis
  proof (cases "sw_since x")
    case None
    then show ?thesis using assms(2) r bad by (auto simp: wait_step_def Let_def split: if_splits)
  next
    case (Some since)
    show ?thesis
    proof (cases "bad = [] \<and> \<not> gr")
      case True
      then have x': "x' = x\<lparr>sw_since := None, sw_reset_at := Some now,
          sw_deps := map (\<lambda>(k, dh). (k, dh\<lparr>dh_recovered := None, dh_grace := None\<rparr>)) m\<rparr>"
        using assms(2) r Some by (simp add: wait_step_def Let_def)
      show ?thesis using True bad unfolding x' by (auto simp: map_of_map_snd in_grace_def)
    next
      case False
      then have x': "x' = x\<lparr>sw_deps := m\<rparr>" using assms(2) r Some by (auto simp: wait_step_def Let_def)
      show ?thesis using False bad gr Some unfolding x' by auto
    qed
  qed
qed

lemma wait_step_iff_witness:
  "sw_since (snd (wait_step w_sub 1 [(''mid'', DepHealthy)] w_waiter
     (snd (wait_step w_sub 0 [(''mid'', DepUnhealthy)] w_waiter new_wait)))) \<noteq> None"
proof -
  let ?x = "snd (wait_step w_sub 0 [(''mid'', DepUnhealthy)] w_waiter new_wait)"
  have d: "distinct (map dep_name (s_depends w_waiter))" by (simp add: w_waiter_def)
  have x: "sw_since ?x = Some 0" by code_simp
  show ?thesis
    using wait_step_iff [OF d surjective_pairing, of w_sub 1 "[(''mid'', DepHealthy)]" ?x] x
    by (simp add: wait_step_def w_waiter_def w_dep_def dep_name_def status_of_def health_key_def new_wait_def
        dependency_balancer_def dep_update_def no_health_def Let_def in_grace_def grace_ns_def second_ns_def)
qed

text \<open>
  C30: a dependency seen unhealthy holds the source. After that tick the source waits, and it goes on to
  wait at every tick before the pause of the dependency could have passed, counted from the first of them,
  whatever they find.
\<close>

theorem wait_lasts:
  assumes "distinct (map dep_name (s_depends src))" "dep \<in> set (s_depends src)" "status_of sub h dep \<noteq> DepHealthy"
    "\<forall>(t, h') \<in> set ticks. t1 \<le> t \<and> t < t1 + grace_ns dep"
  shows "sw_since (wait_run sub src ((now, h) # ticks) x) \<noteq> None"
proof -
  let ?inv = "\<lambda>x. sw_since x \<noteq> None \<and> (\<exists>dh. map_of (sw_deps x) (dep_name dep) = Some dh \<and>
      (dh_state dh \<noteq> Some DepHealthy \<or> (\<exists>g. dh_grace dh = Some g \<and> t1 + grace_ns dep \<le> g)))"
  have step: "?inv (snd (wait_step sub t h' src x))"
    if "?inv x \<and> t1 \<le> t \<and> t < t1 + grace_ns dep \<or> status_of sub h' dep \<noteq> DepHealthy" for x t h'
  proof -
    obtain bad gr m where r: "dep_loop sub t h' (sw_since x \<noteq> None) (s_depends src) (sw_deps x) = (bad, gr, m)"
      by (metis prod_cases3)
    let ?old = "case map_of (sw_deps x) (dep_name dep) of Some y \<Rightarrow> y | None \<Rightarrow> no_health"
    let ?dh = "dep_update t (status_of sub h' dep) (sw_since x \<noteq> None) dep ?old"
    have m: "map_of m (dep_name dep) = Some ?dh" using dep_loop_entries [OF assms(1) r] assms(2) by blast
    show ?thesis
    proof (cases "status_of sub h' dep = DepHealthy")
      case False
      then have "bad \<noteq> []" using dep_loop_bad [OF r] assms(2) by (auto simp: filter_empty_conv)
      moreover have "dh_state ?dh \<noteq> Some DepHealthy" using False by (simp add: dep_update_state)
      ultimately show ?thesis using r m by (cases "sw_since x") (simp_all add: wait_step_def Let_def)
    next
      case True
      then have i: "?inv x" "t1 \<le> t" "t < t1 + grace_ns dep" using that by auto
      obtain dh where dh: "map_of (sw_deps x) (dep_name dep) = Some dh" "sw_since x \<noteq> None"
          "dh_state dh \<noteq> Some DepHealthy \<or> (\<exists>g. dh_grace dh = Some g \<and> t1 + grace_ns dep \<le> g)"
        using i(1) by blast
      obtain g where g: "dh_grace ?dh = Some g" "t1 + grace_ns dep \<le> g"
      proof (cases "dh_state dh = Some DepHealthy")
        case healthy: True
        then have "?dh = dh" using True dh(1) by (simp add: dep_update_healthy)
        then show ?thesis using dh(3) healthy that by auto
      next
        case False
        then have "dh_grace ?dh = Some (t + grace_ns dep)" using True dh(1,2) by (simp add: dep_update_def)
        then show ?thesis using i(2) that by simp
      qed
      have "in_grace t ?dh" using g i by (simp add: in_grace_def)
      then have "gr" using dep_loop_entries [OF assms(1) r] assms(2) m by blast
      then show ?thesis using r m g i by (cases "sw_since x") (simp_all add: wait_step_def Let_def)
    qed
  qed
  have "?inv (wait_run sub src ticks x)" if "?inv x" for x
    using that assms(4)
  proof (induction ticks arbitrary: x)
    case (Cons tick ticks)
    obtain t h' where t: "tick = (t, h')" by (cases tick)
    have b: "t1 \<le> t \<and> t < t1 + grace_ns dep" using Cons.prems(2) t by simp
    have "?inv (snd (wait_step sub t h' src x))" by (rule step) (use Cons.prems(1) b in blast)
    from Cons.IH [OF this] Cons.prems(2) t show ?case by simp
  qed simp
  moreover have "?inv (snd (wait_step sub now h src x))" by (rule step) (use assms(3) in blast)
  ultimately show ?thesis by simp
qed

lemma wait_lasts_witness:
  "sw_since (wait_run w_sub w_waiter
     ((0, [(''mid'', DepUnhealthy)]) # [(1, [(''mid'', DepHealthy)]), (5 * second_ns, [(''mid'', DepHealthy)])]) new_wait) \<noteq> None"
  by (rule wait_lasts [where dep = w_dep and ?t1.0 = 1])
    (simp_all add: second_ns_def w_waiter_def w_dep_def status_of_def health_key_def
      dependency_balancer_def grace_ns_def)

end
