(* ===== verification/Scd_Monitor.thy ===== *)
theory Scd_Monitor
  imports Scd_Wait
begin

text \<open>
  The tunnel tick of the monitor (\<^verbatim>\<open>internal/scd/monitor/tunnels.go\<close>, \<^verbatim>\<open>replace.go\<close>): the probe of a
  tunnel with its retries, what a check records, the replacement of a failed candidate, and the workers
  that share the tunnels of a target.

  A check is a sequence of sections, each atomic: what runs under the state lock, or the whole of what
  runs under the target lock. Workers interleave between sections, in the order a schedule gives.
  Log lines are left out. A result \<open>None\<close> is a panic.
\<close>

section \<open>Probes\<close>

text \<open>The host of \<^verbatim>\<open>net.SplitHostPort\<close>, when it succeeds.\<close>

definition last_colon :: "string \<Rightarrow> (string \<times> string) option" where
  "last_colon s =
     (let r = rev s; port = takeWhile (\<lambda>c. c \<noteq> CHR '':'') r in
      if length port = length r then None else Some (rev (drop (Suc (length port)) r), rev port))"

definition split_host :: "string \<Rightarrow> string option" where
  "split_host s =
     (case last_colon s of
        None \<Rightarrow> None
      | Some (pre, port) \<Rightarrow>
          if s \<noteq> '''' \<and> hd s = CHR ''[''
          then (if CHR '']'' \<in> set pre \<and> List.last pre = CHR '']'' \<and> CHR '']'' \<notin> set (butlast pre) \<and>
                   CHR ''['' \<notin> set (tl s) \<and> CHR '']'' \<notin> set port
                then Some (tl (butlast pre)) else None)
          else if CHR '':'' \<in> set pre \<or> CHR ''['' \<in> set s \<or> CHR '']'' \<in> set s then None
          else Some pre)"

definition resolve_proxy_host :: "string \<Rightarrow> string \<Rightarrow> string" where
  "resolve_proxy_host listen target_address =
     (if listen \<noteq> ''0.0.0.0'' \<and> listen \<noteq> ''::'' then listen
      else case split_host target_address of None \<Rightarrow> target_address | Some h \<Rightarrow> h)"

definition expected_text :: "int \<Rightarrow> int \<Rightarrow> string" where
  "expected_text want got = ''Expected HTTP '' @ int_text want @ '', got '' @ int_text got @ ''.''"

text \<open>The attempts that are left after this one; a check that is cancelled returns \<open>Canceled\<close>.\<close>

fun probe_attempts :: "'w deps \<Rightarrow> probe_request \<Rightarrow> int \<Rightarrow> int \<Rightarrow> nat \<Rightarrow> ('w, response) query" where
  "probe_attempts d req want ms n w =
     (let (r, w1) = dp_probe d req w in
      if dp_cancelled d w1 then (Inl Canceled, w1)
      else
        case (case r of Inl e \<Rightarrow> Inl e
              | Inr resp \<Rightarrow> if rs_status resp = want then Inr resp else Inl (ErrText (expected_text want (rs_status resp)))) of
          Inr resp \<Rightarrow> (Inr resp, w1)
        | Inl e \<Rightarrow>
            (case n of 0 \<Rightarrow> (Inl e, w1)
             | Suc m \<Rightarrow>
                 (case dp_sleep d ms w1 of
                    (Some se, w2) \<Rightarrow> (Inl se, w2)
                  | (None, w2) \<Rightarrow> probe_attempts d req want ms m w2)))"

declare probe_attempts.simps [simp del]

definition probe_with_retry :: "'w deps \<Rightarrow> string \<Rightarrow> int \<Rightarrow> monitor_request \<Rightarrow> retry \<Rightarrow> ('w, response) query" where
  "probe_with_retry d host port request rt =
     probe_attempts d
       \<lparr>pr_host = host, pr_port = port, pr_url = mr_url request, pr_method = mr_method request, pr_timeout = mr_timeout request\<rparr>
       (mr_expected request) (max 0 (rt_delay rt)) (nat (max 1 (rt_attempts rt)) - 1)"

definition source_probe :: "monitor_request \<Rightarrow> retry \<Rightarrow> source option \<Rightarrow> monitor_request \<times> retry" where
  "source_probe request rt src =
     (case src of None \<Rightarrow> (request, rt)
      | Some s \<Rightarrow>
     (case s_monitor s of None \<Rightarrow> (request, rt)
      | Some o1 \<Rightarrow>
          ((case sm_timeout o1 of None \<Rightarrow> request | Some n \<Rightarrow> request\<lparr>mr_timeout := n\<rparr>),
           (case sm_retry o1 of None \<Rightarrow> rt
            | Some (attempts, ms) \<Rightarrow>
                let rt1 = (if attempts \<noteq> 0 then rt\<lparr>rt_attempts := attempts\<rparr> else rt)
                in case ms of None \<Rightarrow> rt1 | Some n \<Rightarrow> rt1\<lparr>rt_delay := n\<rparr>))))"

section \<open>What a check records\<close>

definition mark_failed :: "time \<Rightarrow> err \<Rightarrow> tunnel_monitor \<Rightarrow> tunnel_monitor" where
  "mark_failed at1 e m =
     (let in_row = tm_in_row m + 1;
          fl = (tm_flap m)\<lparr>fl_last_fail := Some at1\<rparr>
      in m\<lparr>tm_state := TDegraded, tm_checked := Some at1, tm_failure := Some at1, tm_status := None, tm_latency := None,
           tm_error := err_text e, tm_failures := tm_failures m + 1, tm_in_row := in_row,
           tm_failing_since := (case tm_failing_since m of None \<Rightarrow> Some at1 | Some s \<Rightarrow> Some s),
           tm_flap := (if fl_since fl \<noteq> None \<and> in_row = down_after then no_flap else fl)\<rparr>)"

definition mark_ok :: "time \<Rightarrow> response \<Rightarrow> tunnel_monitor \<Rightarrow> tunnel_monitor" where
  "mark_ok at1 resp m =
     m\<lparr>tm_failing_since := None, tm_repair_error := '''', tm_state := THealthy, tm_checked := Some at1, tm_success := Some at1,
       tm_status := Some (rs_status resp), tm_latency := Some (rs_latency resp),
       tm_ok_status := Some (rs_status resp), tm_ok_latency := Some (rs_latency resp),
       tm_error := '''', tm_failures := 0, tm_in_row := 0,
       tm_flap := (let f = tm_flap m in
         if fl_since f \<noteq> None \<and> at1 - (case fl_last_fail f of Some a \<Rightarrow> a | None \<Rightarrow> 0) \<ge> stable_after then no_flap else f)\<rparr>"

text \<open>A success ends the episode of the source without a working tunnel.\<close>

definition mark_live :: "string \<Rightarrow> string \<Rightarrow> target_state \<Rightarrow> target_state" where
  "mark_live sid i t =
     (case map_of (ts_sources t) sid of None \<Rightarrow> t
      | Some st \<Rightarrow> t\<lparr>ts_sources := AList.update sid
          (st\<lparr>so_no_replacement := so_no_replacement st - {i}, so_no_live := None\<rparr>) (ts_sources t)\<rparr>)"

section \<open>Replacement of a failed candidate\<close>

definition zero_entry :: entry where
  "zero_entry =
     (let n = \<lparr>n_kind = '''', n_protocol = '''', n_profile = '''', n_tag = '''',
      n_line = 0, n_raw = '''', n_label = '''', n_address = '''', n_port = 0,
      n_uuid = '''', n_encryption = '''', n_network = '''', n_security = '''', n_flow = '''',
      n_alpn = [], n_sni = '''', n_host = '''', n_path = '''', n_fingerprint = '''', n_allow_insecure = None,
      n_header_type = None, n_public_key = '''', n_short_id = '''', n_spider_x = '''', n_mldsa65 = '''',
      n_pinned_certs = [], n_verify_names = [], n_ech = '''', n_cipher_suites = '''', n_heartbeat = 0,
      n_xhttp_mode = '''', n_xhttp_extra = None, n_final_mask = None, n_country = None, n_city = '''',
      n_query = []\<rparr>
      in \<lparr>en_kind = '''', en_protocol = '''', en_tag = '''', en_label = '''', en_profile = '''', en_line = 0,
          en_country = None, en_city = '''', en_normalized = n, en_outbound = Vless (build_vless n),
          en_warnings = [], en_selection = None\<rparr>)"

text \<open>\<^verbatim>\<open>byTag[tag]\<close>: the last entry of the tag.\<close>

definition entry_with :: "entry list \<Rightarrow> string \<Rightarrow> entry option" where
  "entry_with es tag = List.find (\<lambda>e. en_tag e = tag) (rev es)"

definition other_healthy :: "target_state \<Rightarrow> string \<Rightarrow> string \<Rightarrow> bool" where
  "other_healthy t sid i \<longleftrightarrow>
     list_ex (\<lambda>tn. mt_source tn = sid \<and> mt_id tn \<noteq> i \<and> tm_state (mt_monitor tn) = THealthy) (ts_tunnels t)"

definition quarantine_failed :: "entry list \<Rightarrow> string \<Rightarrow> selection_config option \<Rightarrow> time \<Rightarrow> sel_state \<Rightarrow> sel_state option" where
  "quarantine_failed ranked i cfg now sel =
     (case entry_with ranked i of None \<Rightarrow> Some sel
      | Some e \<Rightarrow> (case cfg of None \<Rightarrow> None
          | Some c \<Rightarrow> Some (quarantine_pair sel (selection_cand e) now (sel_cooldown c))))"

definition next_candidate :: "entry list \<Rightarrow> string \<Rightarrow> string list \<Rightarrow> sel_state \<Rightarrow> time \<Rightarrow> candidate option" where
  "next_candidate ranked i others sel now =
     replacement (map selection_cand ranked) (insert i (set others))
       {cd_key (selection_cand e) | e tag. tag \<in> set others \<and> entry_with ranked tag = Some e} sel now"

lemma next_candidate_code [code]:
  "next_candidate ranked i others sel now =
     replacement (map selection_cand ranked) (insert i (set others))
       (set (map (\<lambda>e. cd_key (selection_cand e)) (List.map_filter (entry_with ranked) others))) sel now"
proof -
  have "{cd_key (selection_cand e) | e tag. tag \<in> set others \<and> entry_with ranked tag = Some e} =
      set (map (\<lambda>e. cd_key (selection_cand e)) (List.map_filter (entry_with ranked) others))"
    by (force simp: map_filter_def)
  then show ?thesis by (simp add: next_candidate_def)
qed

definition no_candidate :: "string \<Rightarrow> string \<Rightarrow> sel_state \<Rightarrow> time \<Rightarrow> target_state \<Rightarrow> target_state" where
  "no_candidate sid i sel now t =
     (case map_of (ts_sources t) sid of None \<Rightarrow> t
      | Some st \<Rightarrow>
          let st1 = st\<lparr>so_selection := sel, so_no_replacement := insert i (so_no_replacement st)\<rparr>
          in t\<lparr>ts_sources := AList.update sid
               (if so_no_live st = None \<and> \<not> other_healthy t sid i then st1\<lparr>so_no_live := Some now\<rparr> else st1)
               (ts_sources t)\<rparr>)"

definition store_selection :: "string \<Rightarrow> sel_state \<Rightarrow> target_state \<Rightarrow> target_state" where
  "store_selection sid sel t =
     (case map_of (ts_sources t) sid of None \<Rightarrow> t
      | Some st \<Rightarrow> t\<lparr>ts_sources := AList.update sid (st\<lparr>so_selection := sel\<rparr>) (ts_sources t)\<rparr>)"

text \<open>The update after the calls: the new tunnel in the state, or an empty slot.\<close>

definition replaced ::
    "'w deps \<Rightarrow> string \<Rightarrow> string \<Rightarrow> sel_state \<Rightarrow> err option \<Rightarrow> tunnel \<Rightarrow> target_state \<Rightarrow> target_state option" where
  "replaced d sid i sel x nt t =
     (let t1 = store_selection sid sel t in
      case x of
        Some e \<Rightarrow> map_option (reset_source_hashes sid) (replace_source_tunnel (dp_lib d) (dp_json d) sid i None t1)
      | None \<Rightarrow> replace_source_tunnel (dp_lib d) (dp_json d) sid i (Some nt) t1)"

definition replace_with ::
    "'w deps \<Rightarrow> 'w client \<Rightarrow> subscription \<Rightarrow> source \<Rightarrow> string \<Rightarrow> tunnel \<Rightarrow> entry list \<Rightarrow> string list \<Rightarrow> sel_state \<Rightarrow>
     target_state \<Rightarrow> 'w \<Rightarrow> ((bool \<times> err option) \<times> target_state \<times> 'w) option" where
  "replace_with d c sub src i old ranked others sel t w =
     (let now = dp_now d w in
      case quarantine_failed ranked i (s_selection src) now sel of
        None \<Rightarrow> None
      | Some sel1 \<Rightarrow>
     (case next_candidate ranked i others sel1 now of
        None \<Rightarrow> Some ((False, None), no_candidate (s_id src) i sel1 now t, w)
      | Some cand \<Rightarrow>
          let e = (case entry_with ranked (cd_tag cand) of Some e \<Rightarrow> e | None \<Rightarrow> zero_entry);
              nt = new_tunnel e (s_id src) (sub_target sub) (tn_port old);
              (rule_err, x, w1) = replace_tunnel c (dp_to_proto d) (dp_in_proto d) old nt w;
              t1 = note_target x (dp_now d w1) t
          in map_option (\<lambda>t2. ((True, None), t2, w1)) (replaced d (s_id src) i sel1 x nt t1)))"

text \<open>
  \<^verbatim>\<open>ReplaceFailed\<close>. The first result tells that the tunnel needs no repair, the second is the error of
  a client that could not be created.
\<close>

definition replace_failed ::
    "'w deps \<Rightarrow> memory \<Rightarrow> subscription \<Rightarrow> source \<Rightarrow> string \<Rightarrow> target_state \<Rightarrow> 'w \<Rightarrow>
     ((bool \<times> err option) \<times> target_state \<times> 'w) option" where
  "replace_failed d mem sub src i t w =
     (let sid = s_id src; mine = tunnels_of sid t in
      case (map_of (ts_sources t) sid, List.find (\<lambda>tn. mt_id tn = i) (rev mine)) of
        (Some st, Some tn) \<Rightarrow>
          let old = mt_mapping tn;
              others = filter (\<lambda>u. u \<noteq> i) (map mt_id mine)
          in if so_hashes st = [] \<or> source_waiting sid t then Some ((False, None), t, w)
             else (case dial d sub w of
                 (Inl e, w1) \<Rightarrow> Some ((True, Some e), t, w1)
               | (Inr c, w1) \<Rightarrow>
                  (case has_inbound c (tn_inbound old) w1 of
                     (Inl e, w2) \<Rightarrow> Some ((False, None), t, w2)
                   | (Inr found, w2) \<Rightarrow>
                       if \<not> found then Some ((True, None), state_lost (dp_now d w2) old t, w2)
                       else let (waits, t1, w3) = fresh_wait d mem c sub src t w2 in
                         if waits then Some ((False, None), t1, w3)
                         else replace_with d c sub src i old (so_candidates st) others (so_selection st) t1 w3))
      | _ \<Rightarrow> Some ((False, None), t, w))"

section \<open>The sections of a check\<close>

record tunnel_ref =
  tr_id :: string
  tr_source :: string
  tr_listen :: string
  tr_port :: int

datatype stage = Probing | Failed nat | Replacing | Repairing | Rejoining | Finished "err option"

definition check_probe ::
    "'w deps \<Rightarrow> subscription \<Rightarrow> monitor_request \<Rightarrow> tunnel_ref \<Rightarrow> target_state \<Rightarrow> 'w \<Rightarrow> stage \<times> target_state \<times> 'w" where
  "check_probe d sub request ref t w =
     (let (req, rt) = source_probe request (tm_retry (t_monitor (sub_target sub))) (source_of sub (tr_source ref));
          (r, w1) = probe_with_retry d (resolve_proxy_host (tr_listen ref) (t_address (sub_target sub))) (tr_port ref) req rt w
      in if dp_cancelled d w1 then (Finished (Some Canceled), t, w1)
         else case r of
           Inl e \<Rightarrow>
             let t1 = update_tunnel (tr_id ref) (on_monitor (mark_failed (dp_now d w1) e)) t
             in (Failed (case view_tunnel (tr_id ref) t1 of None \<Rightarrow> 0 | Some tn \<Rightarrow> tm_in_row (mt_monitor tn)), t1, w1)
         | Inr resp \<Rightarrow>
             (Rejoining, mark_live (tr_source ref) (tr_id ref)
                (update_tunnel (tr_id ref) (on_monitor (mark_ok (dp_now d w1) resp)) t), w1))"

definition after_failure :: "subscription \<Rightarrow> tunnel_ref \<Rightarrow> nat \<Rightarrow> target_state \<Rightarrow> stage" where
  "after_failure sub ref n t =
     (case source_of sub (tr_source ref) of
        None \<Rightarrow> Repairing
      | Some src \<Rightarrow>
          (case s_selection src of
             None \<Rightarrow> Repairing
           | Some sel \<Rightarrow>
               if \<not> source_waiting (tr_source ref) t \<and> sel_replace_after sel \<le> int n then Replacing else Repairing))"

definition check_rejoin ::
    "'w deps \<Rightarrow> subscription \<Rightarrow> tunnel_ref \<Rightarrow> target_state \<Rightarrow> 'w \<Rightarrow> stage \<times> target_state \<times> 'w" where
  "check_rejoin d sub ref t w =
     (case rejoin d sub (tr_id ref) t w of
        (None, t1, w1) \<Rightarrow> (Finished None, t1, w1)
      | (Some e, t1, w1) \<Rightarrow>
          (Finished None,
           update_tunnel (tr_id ref)
             (on_monitor (\<lambda>m. note_rejoin_error e (m\<lparr>tm_error := rejoin_failed_prefix @ err_text e\<rparr>))) t1, w1))"

fun check_step ::
    "'w deps \<Rightarrow> memory \<Rightarrow> subscription \<Rightarrow> monitor_request \<Rightarrow> tunnel_ref \<Rightarrow> stage \<Rightarrow> target_state \<times> 'w \<Rightarrow>
     (stage \<times> target_state \<times> 'w) option" where
  "check_step d mem sub request ref Probing (t, w) = Some (check_probe d sub request ref t w)"
| "check_step d mem sub request ref (Failed n) (t, w) = Some (after_failure sub ref n t, t, w)"
| "check_step d mem sub request ref Replacing (t, w) =
     (case source_of sub (tr_source ref) of
        None \<Rightarrow> None
      | Some src \<Rightarrow>
          map_option (\<lambda>((ended, e), t1, w1). (if ended \<or> e \<noteq> None then Finished e else Repairing, t1, w1))
            (replace_failed d mem sub src (tr_id ref) t w))"
| "check_step d mem sub request ref Repairing (t, w) =
     (case repair d sub (tr_id ref) t w of (e, t1, w1) \<Rightarrow> Some (Finished e, t1, w1))"
| "check_step d mem sub request ref Rejoining (t, w) = Some (check_rejoin d sub ref t w)"
| "check_step d mem sub request ref (Finished e) (t, w) = Some (Finished e, t, w)"

fun finished :: "stage \<Rightarrow> err option option" where
  "finished (Finished e) = Some e"
| "finished _ = None"

section \<open>Workers\<close>

text \<open>
  \<^verbatim>\<open>runLimited\<close>: goroutines that take the next index and run the worker on it, section by section. An
  act of goroutine \<open>k\<close> is the next thing it does; a schedule is the goroutines in the order they act.
\<close>

datatype 's gor = Idle | Busy nat 's | Stopped

record ('s, 'x) pool =
  po_next :: nat
  po_gors :: "'s gor list"
  po_ended :: "(nat \<times> err option) list"
  po_world :: 'x

definition errs_of :: "('s, 'x) pool \<Rightarrow> err list" where
  "errs_of p = List.map_filter snd (po_ended p)"

definition pool_act ::
    "nat \<Rightarrow> (nat \<Rightarrow> 's) \<Rightarrow> ('s \<Rightarrow> err option option) \<Rightarrow> (nat \<Rightarrow> 's \<Rightarrow> 'x \<Rightarrow> ('s \<times> 'x) option) \<Rightarrow> nat \<Rightarrow>
     ('s, 'x) pool \<Rightarrow> ('s, 'x) pool option" where
  "pool_act n init fin stp k p =
     (if k \<ge> length (po_gors p) then Some p
      else case po_gors p ! k of
        Stopped \<Rightarrow> Some p
      | Idle \<Rightarrow>
          Some (p\<lparr>po_next := po_next p + 1,
            po_gors := (po_gors p)[k := if po_next p < n then Busy (po_next p) (init (po_next p)) else Stopped]\<rparr>)
      | Busy i s \<Rightarrow>
          (case fin s of
             Some x \<Rightarrow> Some (p\<lparr>po_gors := (po_gors p)[k := if x = None then Idle else Stopped], po_ended := po_ended p @ [(i, x)]\<rparr>)
           | None \<Rightarrow> map_option (\<lambda>(s1, w1). p\<lparr>po_gors := (po_gors p)[k := Busy i s1], po_world := w1\<rparr>) (stp i s (po_world p))))"

fun pool_run ::
    "nat \<Rightarrow> (nat \<Rightarrow> 's) \<Rightarrow> ('s \<Rightarrow> err option option) \<Rightarrow> (nat \<Rightarrow> 's \<Rightarrow> 'x \<Rightarrow> ('s \<times> 'x) option) \<Rightarrow> nat list \<Rightarrow>
     ('s, 'x) pool \<Rightarrow> ('s, 'x) pool option" where
  "pool_run n init fin stp [] p = Some p"
| "pool_run n init fin stp (k # ks) p =
     (case pool_act n init fin stp k p of None \<Rightarrow> None | Some p1 \<Rightarrow> pool_run n init fin stp ks p1)"

definition pool_start :: "nat \<Rightarrow> int \<Rightarrow> 'x \<Rightarrow> ('s, 'x) pool" where
  "pool_start n max_parallel x =
     \<lparr>po_next = 0, po_gors = replicate (if n = 0 then 0 else nat (max 1 (min max_parallel (int n)))) Idle, po_ended = [], po_world = x\<rparr>"

definition all_stopped :: "('s, 'x) pool \<Rightarrow> bool" where
  "all_stopped p \<longleftrightarrow> list_all (\<lambda>g. case g of Stopped \<Rightarrow> True | _ \<Rightarrow> False) (po_gors p)"

section \<open>The tick\<close>

definition tunnel_refs :: "target_state \<Rightarrow> tunnel_ref list" where
  "tunnel_refs t =
     map (\<lambda>tn. let m = mt_mapping tn
          in \<lparr>tr_id = tn_base_id m, tr_source = tn_source m, tr_listen = tn_listen m, tr_port = tn_port m\<rparr>) (ts_tunnels t)"

text \<open>
  \<^verbatim>\<open>TunnelTick\<close> before its workers: nothing to do, cancelled, or the tunnels to check and the pool.
\<close>

datatype 'w tick_start =
    TickSkipped
  | TickCancelled target_state 'w
  | TickRuns monitor_request "tunnel_ref list" "(stage, target_state \<times> 'w) pool"

definition tunnel_tick_start :: "'w deps \<Rightarrow> memory \<Rightarrow> subscription \<Rightarrow> target_state \<Rightarrow> 'w \<Rightarrow> 'w tick_start" where
  "tunnel_tick_start d mem sub t w =
     (let mon = t_monitor (sub_target sub); refs = tunnel_refs t in
      case tm_request mon of
        None \<Rightarrow> TickSkipped
      | Some request \<Rightarrow>
          if \<not> tm_enabled mon \<or> \<not> ts_sync_seen t then TickSkipped
          else let (t1, w1) = dependency_health d mem sub t w in
            if dp_cancelled d w1 then TickCancelled t1 w1
            else TickRuns request refs (pool_start (length refs) (tm_max_parallel mon) (t1, w1)))"

definition tunnel_tick_run ::
    "'w deps \<Rightarrow> memory \<Rightarrow> subscription \<Rightarrow> monitor_request \<Rightarrow> tunnel_ref list \<Rightarrow> nat list \<Rightarrow>
     (stage, target_state \<times> 'w) pool \<Rightarrow> (stage, target_state \<times> 'w) pool option" where
  "tunnel_tick_run d mem sub request refs =
     pool_run (length refs) (\<lambda>i. Probing) finished (\<lambda>i. check_step d mem sub request (refs ! i))"

section \<open>Lemmas: workers\<close>

lemma sum_list_map_update:
  fixes f :: "'a \<Rightarrow> 'b::comm_monoid_add"
  shows "k < length xs \<Longrightarrow> sum_list (map f (xs[k := y])) + f (xs ! k) = sum_list (map f xs) + f y"
proof (induction xs arbitrary: k)
  case (Cons x xs)
  show ?case
  proof (cases k)
    case 0
    then show ?thesis by (simp add: ac_simps)
  next
    case (Suc j)
    then have "sum_list (map f (xs[j := y])) + f (xs ! j) = sum_list (map f xs) + f y" using Cons by simp
    then show ?thesis using Suc by (simp add: add.assoc)
  qed
qed simp

lemma nth_update_other: "xs ! k \<noteq> y \<Longrightarrow> \<forall>j < length xs. xs ! j = y \<longrightarrow> xs[k := z] ! j = y"
  by (metis nth_list_update_neq)

lemma sum_list_no_mset [simp]: "sum_list (replicate n {#}) = {#}"
  by (induction n) auto

fun busy_of :: "'s gor \<Rightarrow> nat multiset" where
  "busy_of (Busy i s) = {#i#}"
| "busy_of _ = {#}"

fun stop_of :: "'s gor \<Rightarrow> nat" where
  "stop_of Stopped = 1"
| "stop_of _ = 0"

fun weight_of :: "('s \<Rightarrow> nat) \<Rightarrow> 's gor \<Rightarrow> nat" where
  "weight_of rk Idle = 1"
| "weight_of rk (Busy i s) = rk s + 2"
| "weight_of rk Stopped = 0"

lemma errs_of_append: "errs_of (p\<lparr>po_ended := es @ [(i, x)]\<rparr>) = List.map_filter snd es @ (case x of None \<Rightarrow> [] | Some e \<Rightarrow> [e])"
  by (simp add: errs_of_def map_filter_def split: option.splits)

text \<open>
  What \<open>runLimited\<close> needs of its worker: a bounded number of sections, and each section, run where the
  invariant holds, returns and keeps it.
\<close>

locale limited_worker =
  fixes init :: "nat \<Rightarrow> 's"
    and fin :: "'s \<Rightarrow> err option option"
    and stp :: "nat \<Rightarrow> 's \<Rightarrow> 'x \<Rightarrow> ('s \<times> 'x) option"
    and rk :: "'s \<Rightarrow> nat"
    and bound :: nat
    and good :: "nat \<Rightarrow> 's \<Rightarrow> bool"
    and inv :: "'x \<Rightarrow> bool"
  assumes init_ok: "rk (init i) \<le> bound \<and> good i (init i)"
    and stp_ok: "fin s = None \<Longrightarrow> good i s \<Longrightarrow> inv x \<Longrightarrow>
      \<exists>s' x'. stp i s x = Some (s', x') \<and> rk s' < rk s \<and> good i s' \<and> inv x'"
begin

definition measure_of :: "nat \<Rightarrow> ('s, 'x) pool \<Rightarrow> nat" where
  "measure_of n p = sum_list (map (weight_of rk) (po_gors p)) + (n - po_next p) * (bound + 3)"

definition pool_ok :: "nat \<Rightarrow> ('s, 'x) pool \<Rightarrow> bool" where
  "pool_ok n p \<longleftrightarrow>
     inv (po_world p) \<and>
     sum_list (map busy_of (po_gors p)) + mset (map fst (po_ended p)) = mset [0..<min (po_next p) n] \<and>
     (\<forall>k i s. k < length (po_gors p) \<longrightarrow> po_gors p ! k = Busy i s \<longrightarrow> good i s) \<and>
     length (errs_of p) \<le> sum_list (map stop_of (po_gors p)) \<and>
     (length (errs_of p) < sum_list (map stop_of (po_gors p)) \<longrightarrow> n \<le> po_next p)"

lemma pool_act_ok:
  assumes ok: "pool_ok n p"
  shows "\<exists>p'. pool_act n init fin stp k p = Some p' \<and> pool_ok n p' \<and> length (po_gors p') = length (po_gors p) \<and>
    measure_of n p' \<le> measure_of n p \<and>
    (k < length (po_gors p) \<longrightarrow> po_gors p ! k \<noteq> Stopped \<longrightarrow> measure_of n p' < measure_of n p) \<and>
    (\<forall>j < length (po_gors p). po_gors p ! j = Stopped \<longrightarrow> po_gors p' ! j = Stopped)"
proof (cases "k < length (po_gors p)")
  case False
  then show ?thesis using ok by (simp add: pool_act_def)
next
  case k: True
  have up: "sum_list (map f ((po_gors p)[k := g])) + f (po_gors p ! k) = sum_list (map f (po_gors p)) + f g"
    for f :: "'s gor \<Rightarrow> 'b::comm_monoid_add" and g by (rule sum_list_map_update [OF k])
  note b = up [of busy_of] and st = up [of stop_of] and wt = up [of "weight_of rk"]
  note okD = ok [unfolded pool_ok_def]
  show ?thesis
  proof (cases "po_gors p ! k")
    case Stopped
    then show ?thesis using ok by (simp add: pool_act_def)
  next
    case Idle
    show ?thesis
    proof (cases "po_next p < n")
      case True
      let ?g = "Busy (po_next p) (init (po_next p))"
      let ?p = "p\<lparr>po_next := po_next p + 1, po_gors := (po_gors p)[k := ?g]\<rparr>"
      have act: "pool_act n init fin stp k p = Some ?p" using Idle True k by (simp add: pool_act_def)
      have "min (po_next p + 1) n = Suc (po_next p)" "min (po_next p) n = po_next p" using True by simp_all
      then have m: "sum_list (map busy_of (po_gors ?p)) + mset (map fst (po_ended ?p)) = mset [0..<min (po_next ?p) n]"
        using okD b [of ?g] Idle by simp
      have "(n - po_next p) * (bound + 3) = (n - (po_next p + 1)) * (bound + 3) + (bound + 3)"
        using True by (metis Suc_diff_Suc Suc_eq_plus1 add.commute mult_Suc)
      then have "measure_of n ?p < measure_of n p"
        using wt [of ?g] Idle init_ok [of "po_next p"] by (simp add: measure_of_def)
      moreover have "pool_ok n ?p"
        using okD m st [of ?g] Idle True init_ok k
        by (auto simp: pool_ok_def errs_of_def nth_list_update split: if_splits)
      ultimately show ?thesis using act Idle nth_update_other [of "po_gors p" k Stopped] by simp
    next
      case False
      let ?p = "p\<lparr>po_next := po_next p + 1, po_gors := (po_gors p)[k := Stopped]\<rparr>"
      have act: "pool_act n init fin stp k p = Some ?p" using Idle False k by (simp add: pool_act_def)
      have "min (po_next p + 1) n = n" "min (po_next p) n = n" using False by simp_all
      then have m: "sum_list (map busy_of (po_gors ?p)) + mset (map fst (po_ended ?p)) = mset [0..<min (po_next ?p) n]"
        using okD b [of Stopped] Idle by simp
      have "measure_of n ?p < measure_of n p"
        using wt [of Stopped] Idle False by (simp add: measure_of_def)
      moreover have "pool_ok n ?p"
        using okD m st [of Stopped] Idle False k
        by (auto simp: pool_ok_def errs_of_def nth_list_update split: if_splits)
      ultimately show ?thesis using act Idle nth_update_other [of "po_gors p" k Stopped] by simp
    qed
  next
    case (Busy i s)
    have g: "good i s" using okD k Busy by blast
    show ?thesis
    proof (cases "fin s")
      case None
      obtain s' x' where s': "stp i s (po_world p) = Some (s', x')" "rk s' < rk s" "good i s'" "inv x'"
        using stp_ok [OF None g] okD by blast
      let ?p = "p\<lparr>po_gors := (po_gors p)[k := Busy i s'], po_world := x'\<rparr>"
      have act: "pool_act n init fin stp k p = Some ?p" using Busy None s' k by (simp add: pool_act_def)
      have "measure_of n ?p < measure_of n p"
        using wt [of "Busy i s'"] Busy s' by (simp add: measure_of_def)
      moreover have "pool_ok n ?p"
        using okD b [of "Busy i s'"] st [of "Busy i s'"] Busy s' k
        by (auto simp: pool_ok_def errs_of_def nth_list_update split: if_splits)
      ultimately show ?thesis using act Busy nth_update_other [of "po_gors p" k Stopped] by simp
    next
      case (Some x)
      let ?g = "if x = None then Idle else Stopped"
      let ?p = "p\<lparr>po_gors := (po_gors p)[k := ?g], po_ended := po_ended p @ [(i, x)]\<rparr>"
      have act: "pool_act n init fin stp k p = Some ?p" using Busy Some k by (simp add: pool_act_def)
      have e: "sum_list (map busy_of ((po_gors p)[k := ?g])) + {#i#} = sum_list (map busy_of (po_gors p))"
        using b [of ?g] Busy by (cases x) simp_all
      have "sum_list (map busy_of (po_gors ?p)) + mset (map fst (po_ended ?p)) =
          (sum_list (map busy_of ((po_gors p)[k := ?g])) + {#i#}) + mset (map fst (po_ended p))" by simp
      also have "\<dots> = mset [0..<min (po_next ?p) n]" unfolding e using okD by simp
      finally have m: "sum_list (map busy_of (po_gors ?p)) + mset (map fst (po_ended ?p)) = mset [0..<min (po_next ?p) n]" .
      have "measure_of n ?p < measure_of n p"
        using wt [of ?g] Busy by (cases x) (simp_all add: measure_of_def)
      moreover have "pool_ok n ?p"
        using okD m st [of ?g] Busy k
        by (cases x) (auto simp: pool_ok_def errs_of_def map_filter_def nth_list_update split: if_splits)
      ultimately show ?thesis using act Busy nth_update_other [of "po_gors p" k Stopped] by simp
    qed
  qed
qed

text \<open>A run returns; a goroutine that has acted often enough has stopped.\<close>

lemma pool_run_ok:
  assumes "pool_ok n p"
  shows "\<exists>p'. pool_run n init fin stp ks p = Some p' \<and> pool_ok n p' \<and> length (po_gors p') = length (po_gors p) \<and>
    measure_of n p' \<le> measure_of n p \<and>
    (\<forall>k < length (po_gors p). po_gors p ! k = Stopped \<longrightarrow> po_gors p' ! k = Stopped) \<and>
    (\<forall>k < length (po_gors p). po_gors p' ! k \<noteq> Stopped \<longrightarrow> count_list ks k + measure_of n p' \<le> measure_of n p)"
  using assms
proof (induction ks arbitrary: p)
  case (Cons k ks)
  obtain p1 where p1: "pool_act n init fin stp k p = Some p1" "pool_ok n p1" "length (po_gors p1) = length (po_gors p)"
      "measure_of n p1 \<le> measure_of n p"
      "k < length (po_gors p) \<longrightarrow> po_gors p ! k \<noteq> Stopped \<longrightarrow> measure_of n p1 < measure_of n p"
      "\<forall>j < length (po_gors p). po_gors p ! j = Stopped \<longrightarrow> po_gors p1 ! j = Stopped"
    using pool_act_ok [OF Cons.prems, of k] by blast
  obtain p' where p': "pool_run n init fin stp ks p1 = Some p'" "pool_ok n p'" "length (po_gors p') = length (po_gors p1)"
      "measure_of n p' \<le> measure_of n p1"
      "\<forall>k < length (po_gors p1). po_gors p1 ! k = Stopped \<longrightarrow> po_gors p' ! k = Stopped"
      "\<forall>k < length (po_gors p1). po_gors p' ! k \<noteq> Stopped \<longrightarrow> count_list ks k + measure_of n p' \<le> measure_of n p1"
    using Cons.IH [OF p1(2)] by blast
  have "count_list (k # ks) j + measure_of n p' \<le> measure_of n p"
    if j: "j < length (po_gors p)" "po_gors p' ! j \<noteq> Stopped" for j
  proof -
    have c: "count_list ks j + measure_of n p' \<le> measure_of n p1" using p'(6) p1(3) j by simp
    have "po_gors p ! j \<noteq> Stopped" using p'(5) p1(3,6) j by metis
    then show ?thesis using c p1(4,5) j(1) by (cases "k = j") auto
  qed
  then show ?case using p1 p' by auto
qed simp

lemma pool_start_ok: "inv x \<Longrightarrow> pool_ok n (pool_start n mp x)"
  by (simp add: pool_ok_def pool_start_def errs_of_def map_filter_def sum_list_replicate)

lemma pool_start_measure: "measure_of n (pool_start n mp x) \<le> n * (bound + 4)"
proof -
  have "nat (max 1 (min mp (int n))) \<le> n" if "n \<noteq> 0" using that by linarith
  then show ?thesis by (auto simp: measure_of_def pool_start_def sum_list_replicate algebra_simps)
qed

text \<open>The pool as a whole.\<close>

lemma pool_result:
  assumes "inv x"
  shows "\<exists>p. pool_run n init fin stp ks (pool_start n mp x) = Some p \<and> inv (po_world p) \<and>
    distinct (map fst (po_ended p)) \<and> set (map fst (po_ended p)) \<subseteq> {0..<n} \<and>
    ((\<forall>k < length (po_gors p). n * (bound + 4) < count_list ks k) \<longrightarrow> all_stopped p) \<and>
    (all_stopped p \<longrightarrow> length (errs_of p) < length (po_gors p) \<longrightarrow> set (map fst (po_ended p)) = {0..<n})"
proof -
  obtain p where p: "pool_run n init fin stp ks (pool_start n mp x) = Some p" "pool_ok n p"
      "length (po_gors p) = length (po_gors (pool_start n mp x :: ('s, 'x) pool))"
      "\<forall>k < length (po_gors (pool_start n mp x :: ('s, 'x) pool)). po_gors p ! k \<noteq> Stopped \<longrightarrow>
         count_list ks k + measure_of n p \<le> measure_of n (pool_start n mp x)"
    using pool_run_ok [OF pool_start_ok [OF assms, of n mp], of ks] by blast
  note okD = p(2) [unfolded pool_ok_def]
  have sub: "mset (map fst (po_ended p)) \<subseteq># mset [0..<min (po_next p) n]"
    using okD by (metis mset_subset_eq_add_right)
  obtain rest where "mset rest = sum_list (map busy_of (po_gors p))" using ex_mset by blast
  then have "mset (rest @ map fst (po_ended p)) = mset [0..<min (po_next p) n]" using okD by simp
  then have "distinct (rest @ map fst (po_ended p))" using mset_eq_imp_distinct_iff distinct_upt by blast
  then have "distinct (map fst (po_ended p))" by simp
  moreover have "set (map fst (po_ended p)) \<subseteq> {0..<n}"
    using set_mset_mono [OF sub] by auto
  moreover have "all_stopped p" if often: "\<forall>k < length (po_gors p). n * (bound + 4) < count_list ks k"
  proof -
    have "po_gors p ! k = Stopped" if k: "k < length (po_gors p)" for k
    proof (rule ccontr)
      assume "po_gors p ! k \<noteq> Stopped"
      then have "count_list ks k + measure_of n p \<le> measure_of n (pool_start n mp x)" using p(3,4) k by simp
      moreover have "n * (bound + 4) < count_list ks k" using often k by blast
      ultimately show False using pool_start_measure [of n mp x] by linarith
    qed
    then show ?thesis unfolding all_stopped_def list_all_length by simp
  qed
  moreover have "set (map fst (po_ended p)) = {0..<n}"
    if stopped: "all_stopped p" and few: "length (errs_of p) < length (po_gors p)"
  proof -
    have all: "g = Stopped" if "g \<in> set (po_gors p)" for g
      using stopped that by (cases g) (auto simp: all_stopped_def list_all_iff)
    have gs: "po_gors p = replicate (length (po_gors p)) Stopped" using all by (metis replicate_length_same)
    have stops: "sum_list (map stop_of (po_gors p)) = length (po_gors p)"
      by (subst gs) (simp add: sum_list_replicate)
    have "sum_list (map busy_of (po_gors p)) = {#}" by (subst gs) simp
    then have "mset (map fst (po_ended p)) = mset [0..<min (po_next p) n]" using okD by simp
    moreover have "n \<le> po_next p" using okD stops few by simp
    ultimately have "mset (map fst (po_ended p)) = mset [0..<n]" by (simp add: min_absorb2)
    then show ?thesis by (metis atLeastLessThan_upt set_mset_mset)
  qed
  ultimately show ?thesis using p(1) okD by blast
qed

end

section \<open>Lemmas: what the sections keep\<close>

definition cands_of :: "string \<Rightarrow> target_state \<Rightarrow> entry list" where
  "cands_of sid t = (case map_of (ts_sources t) sid of None \<Rightarrow> [] | Some st \<Rightarrow> so_candidates st)"

definition places :: "target_state \<Rightarrow> (string \<times> string) list" where
  "places t = map (\<lambda>tn. (mt_source tn, mt_id tn)) (ts_tunnels t)"

text \<open>The same tunnels, topologies and candidates.\<close>

definition same_shape :: "target_state \<Rightarrow> target_state \<Rightarrow> bool" where
  "same_shape t t' \<longleftrightarrow> places t' = places t \<and> (\<forall>s. topo_ids s t' = topo_ids s t) \<and> (\<forall>s. cands_of s t' = cands_of s t)"

lemma same_shape_refl [simp]: "same_shape t t"
  by (simp add: same_shape_def)

lemma same_shape_trans: "same_shape t t' \<Longrightarrow> same_shape t' t'' \<Longrightarrow> same_shape t t''"
  by (simp add: same_shape_def)

text \<open>The state the monitor works in: candidates go by the tag of their entry.\<close>

definition mon_ok :: "target_state \<Rightarrow> bool" where
  "mon_ok t \<longleftrightarrow> state_ok t \<and> (\<forall>s. \<forall>e \<in> set (cands_of s t). cd_tag (selection_cand e) = en_tag e)"

lemma same_shape_ok: "same_shape t t' \<Longrightarrow> mon_ok t \<Longrightarrow> mon_ok t'"
  using same_place [of "ts_tunnels t'" "ts_tunnels t"]
  by (simp add: same_shape_def mon_ok_def state_ok_def places_def tunnels_of_def)

lemma same_shape_plain:
  "ts_tunnels t' = ts_tunnels t \<Longrightarrow> ts_sources t' = ts_sources t \<Longrightarrow> same_shape t t'"
  by (simp add: same_shape_def places_def topo_ids_def cands_of_def)

lemma same_shape_source:
  assumes "map_of (ts_sources t) sid = Some st" "so_topology st' = so_topology st" "so_candidates st' = so_candidates st"
  shows "same_shape t (t\<lparr>ts_sources := AList.update sid st' (ts_sources t)\<rparr>)"
  using assms by (simp add: same_shape_def places_def topo_ids_def cands_of_def)

lemma same_shape_update:
  assumes "keeps_place f"
  shows "same_shape t (update_tunnel i f t)"
  using update_first_place [OF assms]
  by (simp add: same_shape_def places_def update_tunnel_def topo_ids_def cands_of_def)

lemma keeps_place_monitor [simp]: "keeps_place (on_monitor f)"
  by (simp add: keeps_place_def)

lemma view_place: "map_option (\<lambda>tn. (mt_source tn, mt_id tn)) (view_tunnel i t) = List.find (\<lambda>p. snd p = i) (places t)"
proof -
  have "map_option (\<lambda>tn. (mt_source tn, mt_id tn)) (List.find (\<lambda>tn. mt_id tn = i) tns) =
      List.find (\<lambda>p. snd p = i) (map (\<lambda>tn. (mt_source tn, mt_id tn)) tns)" for tns
    by (induction tns) auto
  then show ?thesis by (simp add: view_tunnel_def places_def)
qed

text \<open>An update that writes back the mapping it found keeps the place of the tunnel.\<close>

lemma same_shape_mapping:
  assumes "view_tunnel i t0 = Some tn" "same_shape t0 t"
    and f: "\<And>x. mt_id x = i \<Longrightarrow> mt_id (f x) = i \<and> (mt_source (f x) = mt_source tn \<or> mt_source (f x) = mt_source x)"
  shows "same_shape t (update_tunnel i f t)"
proof -
  have view: "mt_source x = mt_source tn" if "view_tunnel i t = Some x" for x
  proof -
    have "map_option (\<lambda>tn. (mt_source tn, mt_id tn)) (view_tunnel i t) = map_option (\<lambda>tn. (mt_source tn, mt_id tn)) (view_tunnel i t0)"
      unfolding view_place using assms(2) by (simp add: same_shape_def)
    then show ?thesis using assms(1) that by simp
  qed
  have "map (\<lambda>tn. (mt_source tn, mt_id tn)) (update_first i f tns) = map (\<lambda>tn. (mt_source tn, mt_id tn)) tns"
    if "\<And>x. List.find (\<lambda>tn. mt_id tn = i) tns = Some x \<Longrightarrow> mt_source x = mt_source tn" for tns
    using that
  proof (induction tns)
    case (Cons y ys)
    show ?case
    proof (cases "mt_id y = i")
      case True
      then have "mt_source y = mt_source tn" using Cons.prems [of y] by simp
      then show ?thesis using f [OF True] True by auto
    next
      case False
      have "map (\<lambda>tn. (mt_source tn, mt_id tn)) (update_first i f ys) = map (\<lambda>tn. (mt_source tn, mt_id tn)) ys"
        by (rule Cons.IH, rule Cons.prems) (simp add: False)
      then show ?thesis using False by simp
    qed
  qed simp
  then show ?thesis
    using view by (simp add: same_shape_def places_def update_tunnel_def topo_ids_def cands_of_def view_tunnel_def)
qed

named_theorems shape_intros \<open>sections that keep the shape of the state\<close>

lemma shape_steps [shape_intros]:
  "same_shape t (note_target x now t)"
  "same_shape t (reset_source_hashes sid t)"
  "same_shape t (snd (set_state_lost sid now t))"
  "same_shape t (mark_live sid i t)"
  "same_shape t (no_candidate sid i sel now t)"
  "same_shape t (store_selection sid sel t)"
  "same_shape t (snd (ensure_wait sid t))"
  "same_shape t (release_quarantine src now t)"
proof -
  show "same_shape t (note_target x now t)"
    by (rule same_shape_plain) (auto simp: note_target_def clear_xray_down_def set_xray_down_def split: option.splits)
  show "same_shape t (reset_source_hashes sid t)"
    by (auto simp: reset_source_hashes_def intro!: same_shape_source split: option.splits)
  show "same_shape t (snd (set_state_lost sid now t))"
    by (rule same_shape_plain) (auto simp: set_state_lost_def Let_def)
  show "same_shape t (mark_live sid i t)"
    by (auto simp: mark_live_def intro!: same_shape_source split: option.splits)
  show "same_shape t (no_candidate sid i sel now t)"
    by (auto simp: no_candidate_def Let_def intro!: same_shape_source split: option.splits)
  show "same_shape t (store_selection sid sel t)"
    by (auto simp: store_selection_def intro!: same_shape_source split: option.splits)
  show "same_shape t (snd (ensure_wait sid t))"
    by (rule same_shape_plain) (auto simp: ensure_wait_def split: option.splits)
  show "same_shape t (release_quarantine src now t)"
    by (auto simp: release_quarantine_def Let_def intro!: same_shape_source split: option.splits)
qed

lemma shape_cap_refused [shape_intros]: "same_shape t (cap_refused tn e t)"
  by (simp add: cap_refused_def shape_steps)

lemma shape_tunnels_map:
  assumes "\<And>x. mt_source (f x) = mt_source x \<and> mt_id (f x) = mt_id x"
  shows "same_shape t (t\<lparr>ts_tunnels := map f (ts_tunnels t)\<rparr>)"
  using assms by (simp add: same_shape_def places_def topo_ids_def cands_of_def)

lemma shape_state_lost [shape_intros]: "same_shape t (state_lost now tn t)"
proof -
  let ?t = "snd (set_state_lost (tn_source tn) now (reset_source_hashes (tn_source tn) t))"
  have "same_shape t ?t" by (meson same_shape_trans shape_steps(2,3))
  moreover have "same_shape ?t (state_lost now tn t)"
    unfolding state_lost_def Let_def by (rule shape_tunnels_map) simp
  ultimately show ?thesis by (rule same_shape_trans)
qed

lemma shape_wait_source [shape_intros]: "same_shape t (snd (wait_source sub now h src t))"
proof -
  obtain x t1 where e: "ensure_wait (s_id src) t = (x, t1)" by fastforce
  obtain ev x1 where w: "wait_step sub now h src x = (ev, x1)" by fastforce
  let ?t2 = "t1\<lparr>ts_waits := AList.update (s_id src) x1 (ts_waits t1)\<rparr>"
  have 1: "same_shape t t1" using shape_steps(7) [of t "s_id src"] e by simp
  have 2: "same_shape t1 ?t2" by (rule same_shape_plain) simp_all
  have 3: "same_shape ?t2 (reset_failures (s_id src) ?t2)"
    unfolding reset_failures_def by (rule shape_tunnels_map) simp
  have "same_shape t ?t2" using 1 2 same_shape_trans by blast
  moreover from this have "same_shape t (reset_failures (s_id src) ?t2)" using 3 same_shape_trans by blast
  ultimately show ?thesis
    by (simp add: wait_source_def e w Let_def split: option.split wait_event.split)
qed

lemma shape_wait_sources [shape_intros]: "same_shape t (snd (wait_sources sub now h srcs t))"
proof (induction srcs arbitrary: t)
  case (Cons src srcs)
  then show ?case using shape_wait_source same_shape_trans
    by (fastforce simp: case_prod_beta Let_def)
qed simp

lemma shape_fold: "(\<And>x t. same_shape t (f x t)) \<Longrightarrow> same_shape t (fold f xs t)"
  by (induction xs arbitrary: t) (auto intro: same_shape_trans)

lemma shape_apply_waits [shape_intros]: "same_shape t (apply_waits sub srcs h now t)"
proof -
  let ?t1 = "fold (\<lambda>src t. snd (ensure_wait (s_id src) t)) srcs t"
  have 1: "same_shape t ?t1" by (rule shape_fold) (rule shape_steps)
  have 2: "same_shape ?t1 (snd (wait_sources sub now h srcs ?t1))" by (rule shape_wait_sources)
  have 3: "same_shape t2 (fold (\<lambda>(src, e). case e of WaitStarted bad \<Rightarrow> release_quarantine src now | WaitEnded x \<Rightarrow> (\<lambda>t. t)) evs t2)" for evs t2
    by (rule shape_fold) (auto intro: shape_steps split: wait_event.split)
  show ?thesis
    using 1 2 3 same_shape_trans by (fastforce simp: apply_waits_def Let_def case_prod_beta)
qed

lemma shape_fresh_wait [shape_intros]:
  assumes "fresh_wait d mem c sub src t w = (x, t', w')"
  shows "same_shape t t'"
  using assms shape_steps(1) shape_apply_waits same_shape_trans
  by (fastforce simp: fresh_wait_def Let_def split: if_splits prod.splits)

lemma shape_dependency_health [shape_intros]:
  assumes "dependency_health d mem sub t w = (t', w')"
  shows "same_shape t t'"
  using assms shape_steps(1) shape_apply_waits same_shape_trans
  by (fastforce simp: dependency_health_def Let_def split: if_splits prod.splits)

lemma shape_repair [shape_intros]:
  assumes "repair d sub i t w = (x, t', w')"
  shows "same_shape t t'"
proof (cases "view_tunnel i t")
  case None
  then show ?thesis using assms by (simp add: repair_def)
next
  case (Some tn)
  let ?m = "mt_mapping tn"
  have i: "mt_id tn = i" using find_Some_set Some unfolding view_tunnel_def by fastforce
  define t1 where "t1 = update_tunnel i (on_monitor (\<lambda>m. m\<lparr>tm_state := TRepairing\<rparr>)) t"
  have t1: "same_shape t t1" unfolding t1_def by (rule same_shape_update) simp
  have bad: "same_shape t2 (repair_failed i ?m added e at1 t2)" if "same_shape t t2" for t2 added e at1
  proof -
    have n: "same_shape t2 (note_target (Some e) at1 (cap_refused ?m e t2))"
      by (meson same_shape_trans shape_cap_refused shape_steps(1))
    have "same_shape (note_target (Some e) at1 (cap_refused ?m e t2)) (repair_failed i ?m added e at1 t2)"
      unfolding repair_failed_def
      by (rule same_shape_mapping [OF Some same_shape_trans [OF that n]]) (simp add: bare_mapping_def i)
    then show ?thesis using n same_shape_trans by blast
  qed
  have good: "same_shape t2 (repair_done i ?m waiting reset_at now t2)" if "same_shape t t2" for t2 waiting reset_at now
    unfolding repair_done_def
    by (rule same_shape_mapping [OF Some that]) (simp add: bare_mapping_def i Let_def)
  have lost: "same_shape t2 (state_lost now ?m t2)" for t2 now by (rule shape_state_lost)
  have note0: "same_shape t (note_target None now t1)" for now using t1 shape_steps(1) same_shape_trans by blast
  have "same_shape t (repair_failed i ?m added e at1 t1)" "same_shape t (state_lost now ?m (note_target None now t1))"
    "same_shape t (repair_failed i ?m added e at1 (note_target None now t1))"
    "same_shape t (repair_done i ?m waiting reset_at at1 (note_target None now t1))" for added e at1 now waiting reset_at
    using bad [OF t1] bad [OF note0] good [OF note0] lost note0 t1 same_shape_trans by blast+
  then show ?thesis
    using assms t1 unfolding repair_def Some t1_def [symmetric]
    by (auto simp: Let_def t1_def [symmetric] split: if_splits prod.splits sum.splits option.splits)
qed

lemma shape_rejoin [shape_intros]:
  assumes "rejoin d sub i t w = (x, t', w')"
  shows "same_shape t t'"
proof (cases "view_tunnel i t")
  case None
  then show ?thesis using assms by (simp add: rejoin_def)
next
  case (Some tn)
  let ?m = "mt_mapping tn"
  have i: "mt_id tn = i" using find_Some_set Some unfolding view_tunnel_def by fastforce
  have "same_shape t (rejoin_failed i ?m e now t)" for e now
  proof -
    have n: "same_shape t (note_target (Some e) now (cap_refused ?m e t))"
      by (meson same_shape_trans shape_cap_refused shape_steps(1))
    have "same_shape (note_target (Some e) now (cap_refused ?m e t)) (rejoin_failed i ?m e now t)"
      unfolding rejoin_failed_def by (rule same_shape_mapping [OF Some n]) (simp add: initial_mapping_def i)
    then show ?thesis using n same_shape_trans by blast
  qed
  moreover have "same_shape t (rejoin_done i ?m (note_target None now t))" for now
  proof -
    have n: "same_shape t (note_target None now t)" by (rule shape_steps)
    have "same_shape (note_target None now t) (rejoin_done i ?m (note_target None now t))"
      unfolding rejoin_done_def by (rule same_shape_mapping [OF Some n]) (simp add: initial_mapping_def i)
    then show ?thesis using n same_shape_trans by blast
  qed
  ultimately show ?thesis
    using assms unfolding rejoin_def Some
    by (auto simp: Let_def split: if_splits prod.splits sum.splits option.splits)
qed

section \<open>Lemmas: the sections of a check\<close>

lemma find_rev_Some:
  assumes "List.find P (rev xs) = Some x"
  shows "x \<in> set xs \<and> P x"
  using find_Some_set [OF assms] by simp

lemma entry_with_Some: "entry_with es tag = Some e \<Longrightarrow> e \<in> set es \<and> en_tag e = tag"
  unfolding entry_with_def by (drule find_rev_Some) simp

lemma next_candidate_entry:
  assumes "next_candidate ranked i others sel now = Some c" "\<forall>e \<in> set ranked. cd_tag (selection_cand e) = en_tag e"
  shows "cd_tag c \<notin> insert i (set others)" "\<exists>e. entry_with ranked (cd_tag c) = Some e \<and> en_tag e = cd_tag c"
    "\<not> quarantined sel c now"
proof -
  note f = find_Some_set [OF assms(1) [unfolded next_candidate_def replacement_def]]
  show "cd_tag c \<notin> insert i (set others)" "\<not> quarantined sel c now" using f by auto
  obtain e where "e \<in> set ranked" "c = selection_cand e" using f by auto
  then have "e \<in> set (rev ranked)" "en_tag e = cd_tag c" using assms(2) by simp_all
  then have "entry_with ranked (cd_tag c) \<noteq> None"
    unfolding entry_with_def find_None_set by blast
  then obtain e' where "entry_with ranked (cd_tag c) = Some e'" by blast
  then show "\<exists>e. entry_with ranked (cd_tag c) = Some e \<and> en_tag e = cd_tag c" using entry_with_Some by blast
qed

lemma replace_source_tunnel_cands:
  assumes "replace_source_tunnel lib sj sid old nxt t = Some t'"
  shows "cands_of s t' = cands_of s t"
  using assms
  by (auto simp: replace_source_tunnel_def replace_tunnels_def cands_of_def Let_def split: option.splits if_splits)

lemma replace_source_tunnel_mon:
  assumes "mon_ok t" "fits sid old nxt t"
  shows "\<exists>t'. replace_source_tunnel lib sj sid old nxt t = Some t' \<and> mon_ok t'"
  using replace_source_tunnel_ok [of t sid old nxt lib sj] assms replace_source_tunnel_cands
  by (fastforce simp: mon_ok_def)

lemma replaced_ok:
  assumes ok: "mon_ok t" and fit: "x = None \<Longrightarrow> fits sid i (Some nt) t"
  shows "\<exists>t'. replaced d sid i sel x nt t = Some t' \<and> mon_ok t'"
proof -
  let ?t1 = "store_selection sid sel t"
  have 1: "same_shape t ?t1" by (rule shape_steps)
  have ok1: "mon_ok ?t1" using same_shape_ok [OF 1 ok] .
  have fits1: "fits sid i nxt ?t1 = fits sid i nxt t" for nxt
    using 1 by (cases nxt) (simp_all add: fits_def same_shape_def)
  show ?thesis
  proof (cases x)
    case None
    then show ?thesis using replace_source_tunnel_mon [OF ok1] fits1 fit
      by (simp add: replaced_def)
  next
    case (Some e)
    obtain t' where t': "replace_source_tunnel (dp_lib d) (dp_json d) sid i None ?t1 = Some t'" "mon_ok t'"
      using replace_source_tunnel_mon [OF ok1, of sid i None] by (auto simp: fits_def)
    have "mon_ok (reset_source_hashes sid t')" by (rule same_shape_ok [OF shape_steps(2) t'(2)])
    then show ?thesis using t'(1) Some by (simp add: replaced_def)
  qed
qed

lemma replace_with_ok:
  assumes ok: "mon_ok t" and sel: "s_selection src \<noteq> None"
    and ranked: "\<forall>e \<in> set ranked. cd_tag (selection_cand e) = en_tag e"
    and others: "set others \<union> {i} \<supseteq> set (topo_ids (s_id src) t)"
  shows "\<exists>r t' w'. replace_with d c sub src i old ranked others st t w = Some (r, t', w') \<and> mon_ok t'"
proof -
  let ?now = "dp_now d w"
  obtain sel1 where q: "quarantine_failed ranked i (s_selection src) ?now st = Some sel1"
    using sel by (cases "entry_with ranked i"; cases "s_selection src") (auto simp: quarantine_failed_def)
  show ?thesis
  proof (cases "next_candidate ranked i others sel1 ?now")
    case None
    then have "replace_with d c sub src i old ranked others st t w =
        Some ((False, None), no_candidate (s_id src) i sel1 ?now t, w)"
      using q by (simp add: replace_with_def)
    then show ?thesis using same_shape_ok [OF shape_steps(5) ok] by blast
  next
    case (Some cand)
    note cand = next_candidate_entry [OF Some ranked]
    then obtain e where e: "entry_with ranked (cd_tag cand) = Some e" "en_tag e = cd_tag cand" by blast
    let ?nt = "new_tunnel e (s_id src) (sub_target sub) (tn_port old)"
    obtain re x w1 where rt: "replace_tunnel c (dp_to_proto d) (dp_in_proto d) old ?nt w = (re, x, w1)"
      by (metis prod_cases3)
    let ?t1 = "note_target x (dp_now d w1) t"
    have s1: "same_shape t ?t1" by (rule shape_steps)
    have "tn_base_id ?nt = en_tag e" by (simp add: new_tunnel_def Let_def)
    then have "tn_base_id ?nt \<notin> set (topo_ids (s_id src) ?t1)"
      using cand(1) others e s1 by (auto simp: same_shape_def)
    then have "fits (s_id src) i (Some ?nt) ?t1" by (simp add: fits_def)
    then obtain t2 where t2: "replaced d (s_id src) i sel1 x ?nt ?t1 = Some t2" "mon_ok t2"
      using replaced_ok [OF same_shape_ok [OF s1 ok]] by blast
    have "replace_with d c sub src i old ranked others st t w = Some ((True, None), t2, w1)"
      using q Some e rt t2(1) by (simp add: replace_with_def Let_def)
    then show ?thesis using t2(2) by blast
  qed
qed

lemma replace_failed_ok:
  assumes ok: "mon_ok t" and sel: "s_selection src \<noteq> None"
  shows "\<exists>r t' w'. replace_failed d mem sub src i t w = Some (r, t', w') \<and> mon_ok t'"
proof (cases "map_of (ts_sources t) (s_id src)")
  case None
  then have "replace_failed d mem sub src i t w = Some ((False, None), t, w)" by (simp add: replace_failed_def Let_def)
  then show ?thesis using ok by blast
next
  case st: (Some st)
  show ?thesis
  proof (cases "List.find (\<lambda>tn. mt_id tn = i) (rev (tunnels_of (s_id src) t))")
    case None
    then have "replace_failed d mem sub src i t w = Some ((False, None), t, w)"
      using st by (simp add: replace_failed_def Let_def)
    then show ?thesis using ok by blast
  next
    case (Some tn)
    let ?old = "mt_mapping tn" and ?others = "filter (\<lambda>u. u \<noteq> i) (map mt_id (tunnels_of (s_id src) t))"
    have ranked: "\<forall>e \<in> set (so_candidates st). cd_tag (selection_cand e) = en_tag e"
      using ok st by (auto simp: mon_ok_def cands_of_def dest: spec [of _ "s_id src"])
    have ids: "map mt_id (tunnels_of (s_id src) t) = topo_ids (s_id src) t"
      using ok by (simp add: mon_ok_def state_ok_def)
    have "\<exists>r t' w'. replace_failed d mem sub src i t w = Some (r, t', w') \<and> mon_ok t'"
      if act: "\<not> (so_hashes st = [] \<or> source_waiting (s_id src) t)"
    proof -
      obtain r w1 where dl: "dial d sub w = (r, w1)" by fastforce
      show ?thesis
      proof (cases r)
        case (Inl e)
        then have "replace_failed d mem sub src i t w = Some ((True, Some e), t, w1)"
          using st Some act dl by (simp add: replace_failed_def Let_def)
        then show ?thesis using ok by blast
      next
        case (Inr c)
        obtain q w2 where hi: "has_inbound c (tn_inbound ?old) w1 = (q, w2)" by fastforce
        show ?thesis
        proof (cases q)
          case (Inl e)
          then have "replace_failed d mem sub src i t w = Some ((False, None), t, w2)"
            using st Some act dl Inr hi by (simp add: replace_failed_def Let_def)
          then show ?thesis using ok by blast
        next
          case found: (Inr found)
          obtain waits t1 w3 where fw: "fresh_wait d mem c sub src t w2 = (waits, t1, w3)" by (metis prod_cases3)
          have s1: "same_shape t t1" by (rule shape_fresh_wait [OF fw])
          have ids1: "set ?others \<union> {i} \<supseteq> set (topo_ids (s_id src) t1)"
            using ids s1 by (auto simp: same_shape_def)
          note rw = replace_with_ok [OF same_shape_ok [OF s1 ok] sel ranked ids1]
          obtain r' t' w' where r': "replace_with d c sub src i ?old (so_candidates st) ?others (so_selection st) t1 w3 = Some (r', t', w')"
              "mon_ok t'"
            using rw [of d c sub ?old "so_selection st" w3] by blast
          have "replace_failed d mem sub src i t w =
             (if \<not> found then Some ((True, None), state_lost (dp_now d w2) ?old t, w2)
              else if waits then Some ((False, None), t1, w3) else Some (r', t', w'))"
            using st Some act dl Inr hi found fw r' by (simp add: replace_failed_def Let_def)
          then show ?thesis
            using r'(2) same_shape_ok [OF shape_state_lost ok] same_shape_ok [OF s1 ok] by (metis (full_types))
        qed
      qed
    qed
    moreover have "replace_failed d mem sub src i t w = Some ((False, None), t, w)"
      if "so_hashes st = [] \<or> source_waiting (s_id src) t"
      using st Some that by (auto simp: replace_failed_def Let_def)
    ultimately show ?thesis using ok by blast
  qed
qed

text \<open>A check has at most five sections.\<close>

fun stage_rank :: "stage \<Rightarrow> nat" where
  "stage_rank Probing = 4"
| "stage_rank (Failed n) = 3"
| "stage_rank Replacing = 2"
| "stage_rank Repairing = 1"
| "stage_rank Rejoining = 1"
| "stage_rank (Finished e) = 0"

definition stage_ok :: "subscription \<Rightarrow> tunnel_ref \<Rightarrow> stage \<Rightarrow> bool" where
  "stage_ok sub ref s \<longleftrightarrow>
     (s = Replacing \<longrightarrow> (\<exists>src. source_of sub (tr_source ref) = Some src \<and> s_selection src \<noteq> None))"

lemma check_probe_ok:
  assumes "mon_ok t" "check_probe d sub request ref t w = (s', t', w')"
  shows "mon_ok t' \<and> stage_rank s' < 4 \<and> s' \<noteq> Replacing"
proof -
  have u: "same_shape t (update_tunnel i (on_monitor f) t)" for i f by (rule same_shape_update) simp
  then have "same_shape t (mark_live sid j (update_tunnel i (on_monitor f) t))" for sid i j f
    using shape_steps(4) same_shape_trans by blast
  then show ?thesis
    using assms u same_shape_ok [OF _ assms(1)]
    by (auto simp: check_probe_def Let_def split: if_splits prod.splits sum.splits)
qed

lemma check_rejoin_ok:
  assumes "mon_ok t" "check_rejoin d sub ref t w = (s', t', w')"
  shows "mon_ok t' \<and> s' = Finished None"
proof -
  obtain x t1 w1 where r: "rejoin d sub (tr_id ref) t w = (x, t1, w1)" by (metis prod_cases3)
  have 1: "mon_ok t1" by (rule same_shape_ok [OF shape_rejoin [OF r] assms(1)])
  have "mon_ok (update_tunnel (tr_id ref) (on_monitor f) t1)" for f
    by (rule same_shape_ok [OF same_shape_update 1]) simp
  then show ?thesis using assms(2) r 1 by (cases x) (auto simp: check_rejoin_def)
qed

lemma check_step_ok:
  assumes "finished s = None" "stage_ok sub ref s" "mon_ok (fst x)"
  shows "\<exists>s' x'. check_step d mem sub request ref s x = Some (s', x') \<and> stage_rank s' < stage_rank s \<and>
    stage_ok sub ref s' \<and> mon_ok (fst x')"
proof -
  obtain t w where x: "x = (t, w)" by (cases x)
  have ok: "mon_ok t" using assms(3) x by simp
  show ?thesis
  proof (cases s)
    case Probing
    obtain s' t' w' where r: "check_probe d sub request ref t w = (s', t', w')" by (metis prod_cases3)
    show ?thesis using check_probe_ok [OF ok r] r Probing x by (simp add: stage_ok_def)
  next
    case (Failed n)
    then show ?thesis using x ok
      by (auto simp: after_failure_def stage_ok_def split: option.split)
  next
    case Replacing
    obtain src where src: "source_of sub (tr_source ref) = Some src" "s_selection src \<noteq> None"
      using assms(2) Replacing by (auto simp: stage_ok_def)
    obtain ended e t' w' where r: "replace_failed d mem sub src (tr_id ref) t w = Some ((ended, e), t', w')" "mon_ok t'"
      using replace_failed_ok [OF ok src(2)] by (metis prod.exhaust)
    show ?thesis using r src Replacing x by (simp add: stage_ok_def)
  next
    case Repairing
    obtain e t' w' where r: "repair d sub (tr_id ref) t w = (e, t', w')" by (metis prod_cases3)
    show ?thesis using same_shape_ok [OF shape_repair [OF r] ok] r Repairing x by (simp add: stage_ok_def)
  next
    case Rejoining
    obtain s' t' w' where r: "check_rejoin d sub ref t w = (s', t', w')" by (metis prod_cases3)
    show ?thesis using check_rejoin_ok [OF ok r] r Rejoining x by (simp add: stage_ok_def)
  qed (use assms(1) in simp)
qed

text \<open>A tunnel check is a worker of the pool.\<close>

lemma tunnel_worker:
  "limited_worker (\<lambda>i. Probing) finished (\<lambda>i. check_step d mem sub request (refs ! i)) stage_rank 4
     (\<lambda>i. stage_ok sub (refs ! i)) (\<lambda>x. mon_ok (fst x))"
proof
  show "stage_rank Probing \<le> 4 \<and> stage_ok sub (refs ! i) Probing" for i by (simp add: stage_ok_def)
  fix s i and x :: "target_state \<times> 'a"
  assume "finished s = None" "stage_ok sub (refs ! i) s" "mon_ok (fst x)"
  then show "\<exists>s' x'. check_step d mem sub request (refs ! i) s x = Some (s', x') \<and> stage_rank s' < stage_rank s \<and>
      stage_ok sub (refs ! i) s' \<and> mon_ok (fst x')" by (rule check_step_ok)
qed

text \<open>Who is replaced, and by whom.\<close>

lemma shape_ids: "same_shape t t' \<Longrightarrow> map mt_id (tunnels_of s t') = map mt_id (tunnels_of s t)"
  using same_place(1) [of "ts_tunnels t'" "ts_tunnels t" s] by (simp add: same_shape_def places_def tunnels_of_def)

lemma replaced_ids:
  assumes ok: "mon_ok t" and fit: "x = None \<Longrightarrow> fits sid i (Some nt) t" and i: "i \<noteq> ''''"
    and run: "replaced d sid i sel x nt t = Some t'"
  shows "s \<noteq> sid \<Longrightarrow> map mt_id (tunnels_of s t') = map mt_id (tunnels_of s t)"
    "set (map mt_id (tunnels_of sid t')) = (if x = None then {tn_base_id nt} else {}) \<union> (set (map mt_id (tunnels_of sid t)) - {i})
       \<or> map mt_id (tunnels_of sid t') = map mt_id (tunnels_of sid t)"
proof -
  let ?t1 = "store_selection sid sel t" and ?n = "if x = None then Some nt else None"
  have 1: "same_shape t ?t1" by (rule shape_steps)
  have ok1: "mon_ok ?t1" by (rule same_shape_ok [OF 1 ok])
  have fit1: "fits sid i ?n ?t1" using fit 1 by (auto simp: fits_def same_shape_def)
  obtain t2 where t2: "replace_source_tunnel (dp_lib d) (dp_json d) sid i ?n ?t1 = Some t2" "same_shape t2 t'"
    using run shape_steps(2) by (cases x) (auto simp: replaced_def)
  have so1: "state_ok ?t1" using ok1 by (simp add: mon_ok_def)
  have ok2: "state_ok t2" using replace_source_tunnel_ok [OF so1 fit1, of "dp_lib d" "dp_json d"] t2(1) by simp
  have ids: "map mt_id (tunnels_of s u) = topo_ids s u" if "state_ok u" for s u
    using that by (simp add: state_ok_def)
  have same2: "map mt_id (tunnels_of s t') = topo_ids s t2" for s
    using shape_ids [OF t2(2)] ids [OF ok2] by simp
  have same1: "map mt_id (tunnels_of s ?t1) = map mt_id (tunnels_of s t)" for s by (rule shape_ids [OF 1])
  show "s \<noteq> sid \<Longrightarrow> map mt_id (tunnels_of s t') = map mt_id (tunnels_of s t)"
    using replace_source_tunnel_frame [OF so1 fit1 t2(1), of s] same1 same2 ids [OF ok2] by metis
  show "set (map mt_id (tunnels_of sid t')) = (if x = None then {tn_base_id nt} else {}) \<union> (set (map mt_id (tunnels_of sid t)) - {i})
       \<or> map mt_id (tunnels_of sid t') = map mt_id (tunnels_of sid t)"
  proof (cases "\<exists>src topo. map_of (ts_sources ?t1) sid = Some src \<and> so_topology src = Some topo")
    case False
    then have "t2 = ?t1" using t2(1) by (auto simp: replace_source_tunnel_def split: option.splits)
    then show ?thesis using shape_ids [OF t2(2)] same1 by simp
  next
    case True
    then obtain src topo where src: "map_of (ts_sources ?t1) sid = Some src" "so_topology src = Some topo" by blast
    have t1: "set (map mt_id (tunnels_of sid t)) = tn_base_id ` set topo"
      using ids [of ?t1 sid] ok1 same1 src by (simp add: mon_ok_def topo_ids_def flip: set_map)
    have "topo_ids sid t2 = map tn_base_id (next_topology sid i ?n topo)"
      using t2(1) src by (auto simp: replace_source_tunnel_def replace_tunnels_def topo_ids_def Let_def split: if_splits)
    moreover have "tn_base_id ` set (next_topology sid i ?n topo) =
        (if x = None then {tn_base_id nt} else {}) \<union> (tn_base_id ` set topo - {i})"
      using i unfolding next_topology_set by (auto split: option.splits)
    ultimately show ?thesis unfolding same2 t1 by simp
  qed
qed

definition picked :: "entry list \<Rightarrow> source \<Rightarrow> string \<Rightarrow> string list \<Rightarrow> sel_state \<Rightarrow> time \<Rightarrow> candidate \<Rightarrow> bool" where
  "picked ranked src i ids st now cand \<longleftrightarrow>
     (\<exists>sel. quarantine_failed ranked i (s_selection src) now st = Some sel \<and>
        next_candidate ranked i (filter (\<lambda>u. u \<noteq> i) ids) sel now = Some cand)"

text \<open>The tunnel that takes the slot over, and the ids of the source after the call of \<^verbatim>\<open>ReplaceTunnel\<close>.\<close>

definition tunnel_in_slot :: "subscription \<Rightarrow> source \<Rightarrow> entry list \<Rightarrow> tunnel \<Rightarrow> candidate \<Rightarrow> tunnel" where
  "tunnel_in_slot sub src ranked old cand =
     new_tunnel (case entry_with ranked (cd_tag cand) of Some e \<Rightarrow> e | None \<Rightarrow> zero_entry)
       (s_id src) (sub_target sub) (tn_port old)"

definition slot_after :: "string \<Rightarrow> candidate \<Rightarrow> err option \<Rightarrow> string list \<Rightarrow> string list \<Rightarrow> bool" where
  "slot_after i cand x ids ids' \<longleftrightarrow> set ids' = (if x = None then {cd_tag cand} else {}) \<union> (set ids - {i})"

lemma replace_with_ids:
  assumes ok: "mon_ok t" and i: "i \<noteq> ''''"
    and ranked: "\<forall>e \<in> set ranked. cd_tag (selection_cand e) = en_tag e"
    and ids: "set ids = set (topo_ids (s_id src) t)"
    and run: "replace_with d c sub src i old ranked (filter (\<lambda>u. u \<noteq> i) ids) st t w = Some (r, t', w')"
  shows "s \<noteq> s_id src \<Longrightarrow> map mt_id (tunnels_of s t') = map mt_id (tunnels_of s t)"
    "map mt_id (tunnels_of (s_id src) t') = map mt_id (tunnels_of (s_id src) t) \<or>
     r = (True, None) \<and> (\<exists>cand re x. picked ranked src i ids st (dp_now d w) cand \<and>
       replace_tunnel c (dp_to_proto d) (dp_in_proto d) old (tunnel_in_slot sub src ranked old cand) w = (re, x, w') \<and>
       slot_after i cand x (map mt_id (tunnels_of (s_id src) t)) (map mt_id (tunnels_of (s_id src) t')))"
proof -
  let ?others = "filter (\<lambda>u. u \<noteq> i) ids"
  obtain sel1 where q: "quarantine_failed ranked i (s_selection src) (dp_now d w) st = Some sel1"
    using run by (auto simp: replace_with_def Let_def split: option.splits)
  have goal: "(s \<noteq> s_id src \<longrightarrow> map mt_id (tunnels_of s t') = map mt_id (tunnels_of s t)) \<and>
    (map mt_id (tunnels_of (s_id src) t') = map mt_id (tunnels_of (s_id src) t) \<or>
     r = (True, None) \<and> (\<exists>cand re x. picked ranked src i ids st (dp_now d w) cand \<and>
       replace_tunnel c (dp_to_proto d) (dp_in_proto d) old (tunnel_in_slot sub src ranked old cand) w = (re, x, w') \<and>
       slot_after i cand x (map mt_id (tunnels_of (s_id src) t)) (map mt_id (tunnels_of (s_id src) t'))))"
  proof (cases "next_candidate ranked i ?others sel1 (dp_now d w)")
    case None
    then have "t' = no_candidate (s_id src) i sel1 (dp_now d w) t" using run q by (auto simp: replace_with_def)
    then show ?thesis using shape_ids [OF shape_steps(5)] by simp
  next
    case (Some cand)
    note cand = next_candidate_entry [OF Some ranked]
    then obtain e where e: "entry_with ranked (cd_tag cand) = Some e" "en_tag e = cd_tag cand" by blast
    let ?nt = "new_tunnel e (s_id src) (sub_target sub) (tn_port old)"
    obtain re x w1 where rt: "replace_tunnel c (dp_to_proto d) (dp_in_proto d) old ?nt w = (re, x, w1)"
      by (metis prod_cases3)
    let ?t1 = "note_target x (dp_now d w1) t"
    have s1: "same_shape t ?t1" by (rule shape_steps)
    have r: "r = (True, None)" "replaced d (s_id src) i sel1 x ?nt ?t1 = Some t'" "w1 = w'"
      using run q Some e rt by (auto simp: replace_with_def Let_def)
    have nt: "tunnel_in_slot sub src ranked old cand = ?nt" using e(1) by (simp add: tunnel_in_slot_def)
    have base: "tn_base_id ?nt = cd_tag cand" using e by (simp add: new_tunnel_def Let_def)
    have "tn_base_id ?nt \<notin> set (topo_ids (s_id src) ?t1)"
      using cand(1) ids s1 unfolding base by (auto simp: same_shape_def)
    then have fit: "fits (s_id src) i (Some ?nt) ?t1" by (simp add: fits_def)
    have "map mt_id (tunnels_of s ?t1) = map mt_id (tunnels_of s t)" for s by (rule shape_ids [OF s1])
    note sh = this and after = replaced_ids [OF same_shape_ok [OF s1 ok] fit i r(2), unfolded base sh]
    have p: "picked ranked src i ids st (dp_now d w) cand" using q Some by (simp add: picked_def)
    have call: "replace_tunnel c (dp_to_proto d) (dp_in_proto d) old (tunnel_in_slot sub src ranked old cand) w = (re, x, w')"
      using rt nt r(3) by simp
    from after(2) have "map mt_id (tunnels_of (s_id src) t') = map mt_id (tunnels_of (s_id src) t) \<or>
        slot_after i cand x (map mt_id (tunnels_of (s_id src) t)) (map mt_id (tunnels_of (s_id src) t'))"
      unfolding slot_after_def by (rule disj_comms(1) [THEN iffD1])
    then show ?thesis using after(1) r(1) p call by blast
  qed
  then show "s \<noteq> s_id src \<Longrightarrow> map mt_id (tunnels_of s t') = map mt_id (tunnels_of s t)"
    and "map mt_id (tunnels_of (s_id src) t') = map mt_id (tunnels_of (s_id src) t) \<or>
     r = (True, None) \<and> (\<exists>cand re x. picked ranked src i ids st (dp_now d w) cand \<and>
       replace_tunnel c (dp_to_proto d) (dp_in_proto d) old (tunnel_in_slot sub src ranked old cand) w = (re, x, w') \<and>
       slot_after i cand x (map mt_id (tunnels_of (s_id src) t)) (map mt_id (tunnels_of (s_id src) t')))"
    by blast+
qed

definition may_replace :: "entry list \<Rightarrow> source \<Rightarrow> string \<Rightarrow> string list \<Rightarrow> sel_state \<Rightarrow> time \<Rightarrow> candidate \<Rightarrow> bool" where
  "may_replace ranked src i ids st now cand \<longleftrightarrow>
     cand \<in> selection_cand ` set ranked \<and> cd_tag cand \<notin> insert i (set ids) \<and>
     (\<forall>u \<in> set ids - {i}. \<forall>e. entry_with ranked u = Some e \<longrightarrow> cd_key (selection_cand e) \<noteq> cd_key cand) \<and>
     (\<exists>sel. quarantine_failed ranked i (s_selection src) now st = Some sel \<and> \<not> quarantined sel cand now)"

lemma picked_may: "picked ranked src i ids st now cand \<Longrightarrow> may_replace ranked src i ids st now cand"
  unfolding picked_def next_candidate_def replacement_def
proof (elim exE conjE)
  fix sel assume q: "quarantine_failed ranked i (s_selection src) now st = Some sel"
    and f: "List.find (\<lambda>c. cd_tag c \<notin> insert i (set (filter (\<lambda>u. u \<noteq> i) ids)) \<and>
        cd_key c \<notin> {cd_key (selection_cand e) | e tag. tag \<in> set (filter (\<lambda>u. u \<noteq> i) ids) \<and> entry_with ranked tag = Some e} \<and>
        \<not> quarantined sel c now) (map selection_cand ranked) = Some cand"
  note c = find_Some_set [OF f]
  have "cd_tag cand \<notin> insert i (set ids)" using c by auto
  moreover have "\<forall>u \<in> set ids - {i}. \<forall>e. entry_with ranked u = Some e \<longrightarrow> cd_key (selection_cand e) \<noteq> cd_key cand"
  proof (intro ballI allI impI notI)
    fix u e assume "u \<in> set ids - {i}" "entry_with ranked u = Some e" "cd_key (selection_cand e) = cd_key cand"
    then have "cd_key cand \<in> {cd_key (selection_cand e) | e tag. tag \<in> set (filter (\<lambda>u. u \<noteq> i) ids) \<and> entry_with ranked tag = Some e}"
      by (auto intro!: exI [of _ e] exI [of _ u])
    then show False using c by blast
  qed
  ultimately show ?thesis using c q by (auto simp: may_replace_def)
qed

lemma replace_failed_waits:
  assumes "source_waiting (s_id src) t"
  shows "replace_failed d mem sub src i t w = Some ((False, None), t, w)"
  using assms by (auto simp: replace_failed_def Let_def split: option.split)

text \<open>
  What happened when a replacement changed the tunnels of its source: the calls that were made, in
  order, the time at which the candidate was picked, and the tunnels of the source afterwards. The last
  call is \<^verbatim>\<open>ReplaceTunnel\<close> of the slot; \<^verbatim>\<open>x\<close> is its error.
\<close>

definition replaced_at ::
    "'w deps \<Rightarrow> memory \<Rightarrow> subscription \<Rightarrow> source \<Rightarrow> string \<Rightarrow> target_state \<Rightarrow> 'w \<Rightarrow> target_state \<Rightarrow> 'w \<Rightarrow> bool" where
  "replaced_at d mem sub src i t w t' w' \<longleftrightarrow>
     (\<exists>st tn c w1 w2 t1 w3 cand re x.
        map_of (ts_sources t) (s_id src) = Some st \<and> so_hashes st \<noteq> [] \<and>
        List.find (\<lambda>tn. mt_id tn = i) (rev (tunnels_of (s_id src) t)) = Some tn \<and>
        dial d sub w = (Inr c, w1) \<and>
        has_inbound c (tn_inbound (mt_mapping tn)) w1 = (Inr True, w2) \<and>
        fresh_wait d mem c sub src t w2 = (False, t1, w3) \<and>
        may_replace (so_candidates st) src i (map mt_id (tunnels_of (s_id src) t)) (so_selection st) (dp_now d w3) cand \<and>
        replace_tunnel c (dp_to_proto d) (dp_in_proto d) (mt_mapping tn)
          (tunnel_in_slot sub src (so_candidates st) (mt_mapping tn) cand) w3 = (re, x, w') \<and>
        slot_after i cand x (map mt_id (tunnels_of (s_id src) t)) (map mt_id (tunnels_of (s_id src) t')))"

lemma replace_failed_ids:
  assumes ok: "mon_ok t" and i: "i \<noteq> ''''"
    and run: "replace_failed d mem sub src i t w = Some (r, t', w')"
  shows "s \<noteq> s_id src \<Longrightarrow> map mt_id (tunnels_of s t') = map mt_id (tunnels_of s t)"
    "map mt_id (tunnels_of (s_id src) t') = map mt_id (tunnels_of (s_id src) t) \<or>
     r = (True, None) \<and> replaced_at d mem sub src i t w t' w'"
proof -
  let ?sid = "s_id src"
  let ?ids = "map mt_id (tunnels_of ?sid t)"
  have goal: "(\<forall>s. s \<noteq> ?sid \<longrightarrow> map mt_id (tunnels_of s t') = map mt_id (tunnels_of s t)) \<and>
    (map mt_id (tunnels_of ?sid t') = ?ids \<or>
     r = (True, None) \<and> replaced_at d mem sub src i t w t' w')"
  proof (cases "same_shape t t'")
    case True
    then show ?thesis using shape_ids by blast
  next
    case False
    have nt: "t' \<noteq> t" using False by auto
    obtain st tn where st: "map_of (ts_sources t) ?sid = Some st"
        "List.find (\<lambda>tn. mt_id tn = i) (rev (tunnels_of ?sid t)) = Some tn"
      using run nt by (fastforce simp: replace_failed_def Let_def split: option.splits)
    let ?others = "filter (\<lambda>u. u \<noteq> i) ?ids"
    have act: "so_hashes st \<noteq> []" "\<not> source_waiting ?sid t"
      using run nt st by (auto simp: replace_failed_def Let_def split: if_splits)
    obtain q w1 where dl: "dial d sub w = (q, w1)" by fastforce
    obtain c where c: "q = Inr c" using run nt st act dl by (cases q) (auto simp: replace_failed_def Let_def)
    obtain q2 w2 where hi: "has_inbound c (tn_inbound (mt_mapping tn)) w1 = (q2, w2)" by fastforce
    obtain found where found: "q2 = Inr found"
      using run nt st act dl c hi by (cases q2) (auto simp: replace_failed_def Let_def)
    have f: "found"
    proof (rule ccontr)
      assume "\<not> found"
      then have "t' = state_lost (dp_now d w2) (mt_mapping tn) t"
        using run st act dl c hi found by (auto simp: replace_failed_def Let_def)
      then show False using False shape_state_lost by simp
    qed
    obtain waits t1 w3 where fw: "fresh_wait d mem c sub src t w2 = (waits, t1, w3)" by (metis prod_cases3)
    have s1: "same_shape t t1" by (rule shape_fresh_wait [OF fw])
    have nw: "\<not> waits"
    proof
      assume "waits"
      then have "t' = t1" using run st act dl c hi found f fw by (auto simp: replace_failed_def Let_def)
      then show False using False s1 by simp
    qed
    have rw: "replace_with d c sub src i (mt_mapping tn) (so_candidates st) ?others (so_selection st) t1 w3 = Some (r, t', w')"
      using run st act dl c hi found f fw nw by (simp add: replace_failed_def Let_def)
    have ranked: "\<forall>e \<in> set (so_candidates st). cd_tag (selection_cand e) = en_tag e"
      using ok st by (auto simp: mon_ok_def cands_of_def dest: spec [of _ ?sid])
    have "?ids = topo_ids ?sid t" using ok by (simp add: mon_ok_def state_ok_def)
    then have ids: "set ?ids = set (topo_ids ?sid t1)" using s1 unfolding same_shape_def by metis
    note g = replace_with_ids [OF same_shape_ok [OF s1 ok] i ranked ids rw]
    have sh: "map mt_id (tunnels_of s t1) = map mt_id (tunnels_of s t)" for s by (rule shape_ids [OF s1])
    have "replaced_at d mem sub src i t w t' w'" if changed: "map mt_id (tunnels_of ?sid t') \<noteq> ?ids"
    proof -
      obtain cand re x where p: "picked (so_candidates st) src i ?ids (so_selection st) (dp_now d w3) cand"
        and rt: "replace_tunnel c (dp_to_proto d) (dp_in_proto d) (mt_mapping tn)
          (tunnel_in_slot sub src (so_candidates st) (mt_mapping tn) cand) w3 = (re, x, w')"
        and after: "slot_after i cand x ?ids (map mt_id (tunnels_of ?sid t'))"
        using changed g(2) [unfolded sh] by blast
      have calls: "dial d sub w = (Inr c, w1)" "has_inbound c (tn_inbound (mt_mapping tn)) w1 = (Inr True, w2)"
        "fresh_wait d mem c sub src t w2 = (False, t1, w3)"
        using dl hi fw c found f nw by simp_all
      show ?thesis unfolding replaced_at_def
        by (intro exI conjI) (rule st act(1) calls picked_may [OF p] rt after)+
    qed
    then show ?thesis using g(1) g(2) unfolding sh by blast
  qed
  then show "s \<noteq> ?sid \<Longrightarrow> map mt_id (tunnels_of s t') = map mt_id (tunnels_of s t)"
    and "map mt_id (tunnels_of ?sid t') = ?ids \<or>
     r = (True, None) \<and> replaced_at d mem sub src i t w t' w'"
    by blast+
qed

section \<open>Properties\<close>

text \<open>
  C31: A candidate is replaced only with reason. While its source waits for a dependency nothing is
  done at all, and the tunnels of other sources always stay. When the tunnels of the source change, its
  hashes were known, the inbound of the failed tunnel was still in Xray and the dependencies, read
  again, did not ask to wait; what is brought in is a candidate of its last sync that no tunnel of it
  runs, whose key no other of them uses and whose pair is not in quarantine at the time of the decision,
  the quarantine of the failed candidate already added; and the tunnels of the source are afterwards
  exactly those it had, less the failed one, with the new one added when the call that replaces the
  tunnel succeeded.
\<close>

theorem replacement_is_allowed:
  assumes "mon_ok t" "i \<noteq> ''''" "replace_failed d mem sub src i t w = Some (r, t', w')"
  shows "(source_waiting (s_id src) t \<longrightarrow> r = (False, None) \<and> t' = t \<and> w' = w) \<and>
    (\<forall>s. s \<noteq> s_id src \<longrightarrow> map mt_id (tunnels_of s t') = map mt_id (tunnels_of s t)) \<and>
    (map mt_id (tunnels_of (s_id src) t') \<noteq> map mt_id (tunnels_of (s_id src) t) \<longrightarrow>
       r = (True, None) \<and>
       (\<exists>st tn c w1 w2 t1 w3 cand re x.
          map_of (ts_sources t) (s_id src) = Some st \<and> so_hashes st \<noteq> [] \<and>
          List.find (\<lambda>tn. mt_id tn = i) (rev (tunnels_of (s_id src) t)) = Some tn \<and>
          dial d sub w = (Inr c, w1) \<and>
          has_inbound c (tn_inbound (mt_mapping tn)) w1 = (Inr True, w2) \<and>
          fresh_wait d mem c sub src t w2 = (False, t1, w3) \<and>
          may_replace (so_candidates st) src i (map mt_id (tunnels_of (s_id src) t)) (so_selection st) (dp_now d w3) cand \<and>
          replace_tunnel c (dp_to_proto d) (dp_in_proto d) (mt_mapping tn)
            (tunnel_in_slot sub src (so_candidates st) (mt_mapping tn) cand) w3 = (re, x, w') \<and>
          set (map mt_id (tunnels_of (s_id src) t')) =
            (if x = None then {cd_tag cand} else {}) \<union> (set (map mt_id (tunnels_of (s_id src) t)) - {i})))"
proof -
  have wait: "source_waiting (s_id src) t \<longrightarrow> r = (False, None) \<and> t' = t \<and> w' = w"
    using replace_failed_waits [of src t d mem sub i w] assms(3) by simp
  have spares: "\<forall>s. s \<noteq> s_id src \<longrightarrow> map mt_id (tunnels_of s t') = map mt_id (tunnels_of s t)"
    using replace_failed_ids(1) [OF assms] by blast
  have change: "map mt_id (tunnels_of (s_id src) t') \<noteq> map mt_id (tunnels_of (s_id src) t) \<longrightarrow>
      r = (True, None) \<and> replaced_at d mem sub src i t w t' w'"
    using replace_failed_ids(2) [OF assms] by blast
  from wait spares change [unfolded replaced_at_def slot_after_def] show ?thesis by (intro conjI)
qed

definition w_cand :: "string \<Rightarrow> entry" where
  "w_cand tag = (w_vless_entry tag)\<lparr>en_selection := Some (zero_candidate\<lparr>cd_tag := tag, cd_key := tag\<rparr>)\<rparr>"

definition w_failing :: target_state where
  "w_failing =
     (let t = replace_source_topology ''wg'' [new_tunnel (w_cand ''wg-a'') ''wg'' w_target 200] [(KOutbound, ''h'')]
            (new_target\<lparr>ts_sources := [(''wg'', new_source)], ts_sync_seen := True\<rparr>)
      in t\<lparr>ts_sources := map (\<lambda>(k, st). (k, st\<lparr>so_candidates := [w_cand ''wg-a'', w_cand ''wg-b'']\<rparr>)) (ts_sources t)\<rparr>)"

definition w_failing_server :: server where
  "w_failing_server = new_server
     \<lparr>fs_outbounds := [(''obs-wg-a'', ''o'')], fs_inbounds := [(''in-wg-a'', ''i'')],
      fs_rules := [\<lparr>rl_tag = ''obs-wg-a'', rl_ruletag = ''route-wg-a''\<rparr>]\<rparr>"

definition w_replaced :: "((bool \<times> err option) \<times> target_state \<times> server) option" where
  "w_replaced = replace_failed w_deps new_memory w_sub w_wg ''wg-a'' w_failing w_failing_server"

lemma w_cand_tag: "cd_tag (selection_cand (w_cand tag)) = en_tag (w_cand tag)"
  by (simp add: w_cand_def selection_cand_def w_vless_entry_def w_entry_def)

lemma w_failing_ok: "mon_ok w_failing"
proof -
  let ?t = "replace_source_topology ''wg'' [new_tunnel (w_cand ''wg-a'') ''wg'' w_target 200] [(KOutbound, ''h'')]
            (new_target\<lparr>ts_sources := [(''wg'', new_source)], ts_sync_seen := True\<rparr>)"
  have "state_ok (new_target\<lparr>ts_sources := [(''wg'', new_source)], ts_sync_seen := True\<rparr>)"
    by (simp add: state_ok_def new_target_def tunnels_of_def topo_ids_def new_source_def)
  then have "state_ok ?t" by (rule replace_source_topology_ok) simp
  then have "state_ok w_failing"
    by (rule state_ok_cong [rotated 2])
      (simp_all add: w_failing_def Let_def topo_ids_def map_of_map_snd split: option.split)
  moreover have "set (cands_of s w_failing) \<subseteq> {w_cand ''wg-a'', w_cand ''wg-b''}" for s
    by (auto simp: cands_of_def w_failing_def Let_def map_of_map_snd split: option.splits)
  then have "cd_tag (selection_cand e) = en_tag e" if "e \<in> set (cands_of s w_failing)" for s e
    using that w_cand_tag by blast
  ultimately show ?thesis by (simp add: mon_ok_def)
qed

lemma w_replaced_ids: "map_option (\<lambda>(r, t, w). map mt_id (ts_tunnels t)) w_replaced = Some [''wg-b'']"
  by code_simp

lemma replacement_is_allowed_witness:
  "\<exists>w3 cand. may_replace [w_cand ''wg-a'', w_cand ''wg-b''] w_wg ''wg-a'' [''wg-a''] (so_selection new_source) (dp_now w_deps w3) cand"
proof -
  obtain r t' w' where r: "w_replaced = Some (r, t', w')" and ids: "map mt_id (ts_tunnels t') = [''wg-b'']"
    using w_replaced_ids by (cases w_replaced) auto
  have run: "replace_failed w_deps new_memory w_sub w_wg ''wg-a'' w_failing w_failing_server = Some (r, t', w')"
    using r by (simp add: w_replaced_def)
  have old: "map mt_id (tunnels_of (s_id w_wg) w_failing) = [''wg-a'']" by code_simp
  have st: "map_option (\<lambda>st. (so_candidates st, so_selection st)) (map_of (ts_sources w_failing) (s_id w_wg)) =
      Some ([w_cand ''wg-a'', w_cand ''wg-b''], so_selection new_source)" by code_simp
  have new: "map mt_id (tunnels_of (s_id w_wg) t') \<noteq> [''wg-a'']"
  proof
    assume "map mt_id (tunnels_of (s_id w_wg) t') = [''wg-a'']"
    then have "''wg-a'' \<in> set (map mt_id (tunnels_of (s_id w_wg) t'))" by simp
    then have "''wg-a'' \<in> set (map mt_id (ts_tunnels t'))" by (auto simp: tunnels_of_def)
    then show False unfolding ids by simp
  qed
  have "''wg-a'' \<noteq> ''''" by simp
  from replacement_is_allowed [OF w_failing_ok this run] new
  obtain st1 w3 cand where "map_of (ts_sources w_failing) (s_id w_wg) = Some st1"
      "may_replace (so_candidates st1) w_wg ''wg-a'' [''wg-a''] (so_selection st1) (dp_now w_deps w3) cand"
    unfolding old by blast
  then show ?thesis using st by auto
qed

interpretation tunnel_pool: limited_worker "\<lambda>i. Probing" finished "\<lambda>i. check_step d mem sub request (refs ! i)"
    stage_rank 4 "\<lambda>i. stage_ok sub (refs ! i)" "\<lambda>x. mon_ok (fst x)"
  for d :: "'w deps" and mem :: memory and sub :: subscription and request :: monitor_request and refs :: "tunnel_ref list"
  by (rule tunnel_worker)

lemma tick_start_runs:
  assumes "mon_ok t" "tunnel_tick_start d mem sub t w = TickRuns request refs p"
  shows "\<exists>t1 w1. mon_ok t1 \<and> p = pool_start (length refs) (tm_max_parallel (t_monitor (sub_target sub))) (t1, w1) \<and>
    refs = tunnel_refs t"
proof -
  obtain t1 w1 where h: "dependency_health d mem sub t w = (t1, w1)" by fastforce
  have "mon_ok t1" by (rule same_shape_ok [OF shape_dependency_health [OF h] assms(1)])
  then show ?thesis
    using assms(2) h by (auto simp: tunnel_tick_start_def Let_def split: option.splits if_splits)
qed

text \<open>
  C32: A tunnel tick ends. Whatever the order in which its workers act, no section of a check panics,
  every state on the way is one the monitor can work in, and once each worker has acted often enough
  (eight times per tunnel) all of them have stopped.
\<close>

theorem tunnel_tick_ends:
  assumes "mon_ok t" "tunnel_tick_start d mem sub t w = TickRuns request refs p"
  shows "\<exists>p'. tunnel_tick_run d mem sub request refs ks p = Some p' \<and> mon_ok (fst (po_world p')) \<and>
    ((\<forall>k < length (po_gors p'). length refs * 8 < count_list ks k) \<longrightarrow> all_stopped p')"
proof -
  obtain t1 w1 where p: "mon_ok t1" "p = pool_start (length refs) (tm_max_parallel (t_monitor (sub_target sub))) (t1, w1)"
    using tick_start_runs [OF assms] by blast
  have "mon_ok (fst (t1, w1))" using p(1) by simp
  from tunnel_pool.pool_result [OF this, where d = d and mem = mem and sub = sub and request = request and refs = refs
      and n = "length refs" and ks = ks and mp = "tm_max_parallel (t_monitor (sub_target sub))"]
  show ?thesis unfolding tunnel_tick_run_def p(2) by auto
qed

text \<open>
  A tunnel tick checks every tunnel once. When its workers have stopped, no tunnel was checked
  twice, and all of the tunnels the target had at its start were, unless as many checks failed to
  start a repair as there are workers.
\<close>

theorem tunnel_tick_covers:
  assumes "mon_ok t" "tunnel_tick_start d mem sub t w = TickRuns request refs p"
    and "tunnel_tick_run d mem sub request refs ks p = Some p'" "all_stopped p'"
  shows "map tr_id refs = map mt_id (ts_tunnels t) \<and> distinct (map fst (po_ended p')) \<and>
    (length (errs_of p') < length (po_gors p') \<longrightarrow> set (map fst (po_ended p')) = {0..<length refs})"
proof -
  obtain t1 w1 where p: "mon_ok t1" "p = pool_start (length refs) (tm_max_parallel (t_monitor (sub_target sub))) (t1, w1)"
      "refs = tunnel_refs t"
    using tick_start_runs [OF assms(1,2)] by blast
  have "mon_ok (fst (t1, w1))" using p(1) by simp
  from tunnel_pool.pool_result [OF this, where d = d and mem = mem and sub = sub and request = request and refs = refs
      and n = "length refs" and ks = ks and mp = "tm_max_parallel (t_monitor (sub_target sub))"]
  obtain q where q: "tunnel_tick_run d mem sub request refs ks p = Some q" "distinct (map fst (po_ended q))"
      "all_stopped q \<longrightarrow> length (errs_of q) < length (po_gors q) \<longrightarrow> set (map fst (po_ended q)) = {0..<length refs}"
    unfolding tunnel_tick_run_def p(2) by blast
  have "q = p'" using q(1) assms(3) by simp
  then show ?thesis using q(2,3) assms(4) p(3) by (simp add: tunnel_refs_def Let_def comp_def)
qed

definition w_mon_sub :: subscription where
  "w_mon_sub = w_sub\<lparr>sub_target := w_target\<lparr>t_monitor :=
     \<lparr>tm_enabled = True, tm_schedule = '''', tm_max_parallel = 2, tm_retry = \<lparr>rt_attempts = 2, rt_delay = 10\<rparr>,
      tm_request = Some \<lparr>mr_url = ''u'', mr_method = ''HEAD'', mr_expected = 204, mr_timeout = 100\<rparr>\<rparr>\<rparr>\<rparr>"

definition w_start :: "server tick_start" where
  "w_start = tunnel_tick_start w_deps new_memory w_mon_sub w_failing w_failing_server"

definition w_request :: monitor_request where
  "w_request = \<lparr>mr_url = ''u'', mr_method = ''HEAD'', mr_expected = 204, mr_timeout = 100\<rparr>"

lemma w_start_runs: "w_start = TickRuns w_request (tunnel_refs w_failing)
    (pool_start (length (tunnel_refs w_failing)) 2 (w_failing, w_failing_server))"
proof -
  have "ts_sync_seen w_failing" by code_simp
  moreover have "dependency_health w_deps new_memory w_mon_sub w_failing w_failing_server = (w_failing, w_failing_server)"
    by (simp add: dependency_health_def dependents_def enabled_sources_def w_mon_sub_def w_config_defs)
  ultimately show ?thesis
    by (simp add: w_start_def tunnel_tick_start_def w_mon_sub_def w_request_def w_deps_def Let_def)
qed

lemma tunnel_tick_ends_witness:
  "map_option all_stopped (tunnel_tick_run w_deps new_memory w_mon_sub w_request (tunnel_refs w_failing) (replicate 9 0)
     (pool_start (length (tunnel_refs w_failing)) 2 (w_failing, w_failing_server))) = Some True"
proof -
  have n: "length (tunnel_refs w_failing) = 1" by code_simp
  obtain p' where p': "tunnel_tick_run w_deps new_memory w_mon_sub w_request (tunnel_refs w_failing) (replicate 9 0)
     (pool_start (length (tunnel_refs w_failing)) 2 (w_failing, w_failing_server)) = Some p'"
    "(\<forall>k < length (po_gors p'). length (tunnel_refs w_failing) * 8 < count_list (replicate 9 0) k) \<longrightarrow> all_stopped p'"
    using tunnel_tick_ends [OF w_failing_ok w_start_runs [unfolded w_start_def], of "replicate 9 0"] by blast
  have "map_option (\<lambda>p. length (po_gors p)) (tunnel_tick_run w_deps new_memory w_mon_sub w_request (tunnel_refs w_failing) (replicate 9 0)
     (pool_start (length (tunnel_refs w_failing)) 2 (w_failing, w_failing_server))) = Some 1"
    by code_simp
  then have "length (po_gors p') = 1" using p'(1) by simp
  then show ?thesis using p' n by (simp add: numeral_eq_Suc)
qed

lemma tunnel_tick_covers_witness:
  "map_option (\<lambda>p. set (map fst (po_ended p))) (tunnel_tick_run w_deps new_memory w_mon_sub w_request (tunnel_refs w_failing) (replicate 9 0)
     (pool_start (length (tunnel_refs w_failing)) 2 (w_failing, w_failing_server))) = Some {0..<length (tunnel_refs w_failing)}"
proof -
  let ?run = "tunnel_tick_run w_deps new_memory w_mon_sub w_request (tunnel_refs w_failing) (replicate 9 0)
     (pool_start (length (tunnel_refs w_failing)) 2 (w_failing, w_failing_server))"
  have r: "map_option (\<lambda>p. (all_stopped p, length (errs_of p), length (po_gors p))) ?run = Some (True, 0, 1)"
    by code_simp
  then obtain p' where p': "?run = Some p'" "all_stopped p'" "length (errs_of p') < length (po_gors p')" by auto
  show ?thesis
    using tunnel_tick_covers [OF w_failing_ok w_start_runs [unfolded w_start_def] p'(1,2)] p'(1,3) by simp
qed

text \<open>How often a probe is tried.\<close>

lemma probe_attempts_count:
  fixes cnt :: "'w \<Rightarrow> nat"
  assumes probe: "\<And>req w. cnt (snd (dp_probe d req w)) = cnt w + 1"
    and sleep: "\<And>n w. cnt (snd (dp_sleep d n w)) = cnt w"
    and run: "probe_attempts d req want ms n w = (r, w')"
  shows "cnt w < cnt w' \<and> cnt w' \<le> cnt w + n + 1 \<and> (\<forall>resp. r = Inr resp \<longrightarrow> rs_status resp = want) \<and>
    (\<forall>e. r = Inl e \<longrightarrow> (\<forall>w. \<not> dp_cancelled d w) \<longrightarrow> (\<forall>m w. fst (dp_sleep d m w) = None) \<longrightarrow> cnt w' = cnt w + n + 1)"
  using run
proof (induction n arbitrary: w)
  case 0
  obtain q w1 where q: "dp_probe d req w = (q, w1)" by fastforce
  have "cnt w1 = cnt w + 1" using probe [of req w] q by simp
  then show ?case using 0 q
    by (auto simp: probe_attempts.simps [of _ _ _ _ 0] split: if_splits sum.splits)
next
  case (Suc n)
  obtain q w1 where q: "dp_probe d req w = (q, w1)" by fastforce
  obtain y w2 where y: "dp_sleep d ms w1 = (y, w2)" by fastforce
  have c: "cnt w1 = cnt w + 1" "cnt w2 = cnt w1" using probe [of req w] q sleep [of ms w1] y by simp_all
  let ?r = "case q of Inl e \<Rightarrow> Inl e
              | Inr resp \<Rightarrow> if rs_status resp = want then Inr resp else Inl (ErrText (expected_text want (rs_status resp)))"
  have ok: "\<exists>resp. q = Inr resp \<and> resp = x \<and> rs_status resp = want" if "?r = Inr x" for x
    using that by (auto split: sum.splits if_splits)
  have run: "(r, w') = (if dp_cancelled d w1 then (Inl Canceled, w1)
      else case ?r of Inr resp \<Rightarrow> (Inr resp, w1)
        | Inl e \<Rightarrow> (case y of Some se \<Rightarrow> (Inl se, w2) | None \<Rightarrow> probe_attempts d req want ms n w2))"
    using Suc.prems q y by (cases q; cases y) (auto simp: probe_attempts.simps [of _ _ _ _ "Suc n"])
  show ?case
  proof (cases "dp_cancelled d w1")
    case True
    then show ?thesis using run c by auto
  next
    case False
    show ?thesis
    proof (cases ?r)
      case (Inr x)
      then show ?thesis using run c ok [OF Inr] False by auto
    next
      case (Inl e)
      show ?thesis
      proof (cases y)
        case None
        then have "probe_attempts d req want ms n w2 = (r, w')" using run False Inl by simp
        from Suc.IH [OF this] c show ?thesis by auto
      next
        case (Some se)
        have "fst (dp_sleep d ms w1) \<noteq> None" using y Some by simp
        then show ?thesis using run False Inl Some c by auto
      qed
    qed
  qed
qed

text \<open>
  C33: A check probes at least once and at most max(1, attempts) times, exactly as often when it fails
  without being cancelled, and it succeeds only on the status that is expected.
\<close>

theorem probe_is_bounded:
  fixes cnt :: "'w \<Rightarrow> nat"
  assumes "\<And>req w. cnt (snd (dp_probe d req w)) = cnt w + 1" "\<And>n w. cnt (snd (dp_sleep d n w)) = cnt w"
    and "probe_with_retry d host port request rt w = (r, w')"
  shows "cnt w < cnt w' \<and> int (cnt w') \<le> int (cnt w) + max 1 (rt_attempts rt) \<and>
    (\<forall>resp. r = Inr resp \<longrightarrow> rs_status resp = mr_expected request) \<and>
    (\<forall>e. r = Inl e \<longrightarrow> (\<forall>w. \<not> dp_cancelled d w) \<longrightarrow> (\<forall>m w. fst (dp_sleep d m w) = None) \<longrightarrow>
       int (cnt w') = int (cnt w) + max 1 (rt_attempts rt))"
proof -
  have n: "int (nat (max 1 (rt_attempts rt)) - 1) + 1 = max 1 (rt_attempts rt)" by simp
  show ?thesis
    using probe_attempts_count [OF assms(1,2) assms(3) [unfolded probe_with_retry_def]] n by force
qed

definition w_counting :: "nat deps" where
  "w_counting =
     \<lparr>dp_dial = (\<lambda>a n w. (Inl Canceled, w)), dp_now = int, dp_probe = (\<lambda>r w. (Inr \<lparr>rs_status = 503, rs_latency = 5\<rparr>, w + 1)),
      dp_sleep = (\<lambda>n w. (None, w)), dp_cancelled = (\<lambda>w. False), dp_to_proto = (\<lambda>x. Inl Canceled), dp_in_proto = (\<lambda>x. Inl Canceled),
      dp_subs = [], dp_cron = (\<lambda>e. Inl ''no schedule''), dp_lib = w_lib, dp_json = (\<lambda>l. '''')\<rparr>"

lemma probe_is_bounded_witness:
  "snd (probe_with_retry w_counting ''h'' 1 w_request \<lparr>rt_attempts = 3, rt_delay = 10\<rparr> 0) = 3"
proof -
  obtain r w' where r: "probe_with_retry w_counting ''h'' 1 w_request \<lparr>rt_attempts = 3, rt_delay = 10\<rparr> 0 = (r, w')" by fastforce
  have c: "\<And>req w. id (snd (dp_probe w_counting req w)) = id w + 1" "\<And>n w. id (snd (dp_sleep w_counting n w)) = id w"
    "\<forall>w. \<not> dp_cancelled w_counting w" "\<forall>m w. fst (dp_sleep w_counting m w) = None"
    by (simp_all add: w_counting_def)
  have f: "\<exists>e. fst (probe_with_retry w_counting ''h'' 1 w_request \<lparr>rt_attempts = 3, rt_delay = 10\<rparr> 0) = Inl e"
    by (simp add: probe_with_retry_def w_counting_def w_request_def probe_attempts.simps numeral_eq_Suc)
  then obtain e where "r = Inl e" using r by auto
  then show ?thesis using probe_is_bounded [OF c(1,2) r] c(3,4) r by auto
qed

end
