(* ===== verification/Scd_Sync.thy ===== *)
theory Scd_Sync
  imports Scd_Monitor
begin

text \<open>
  The sync of one source to its target (\<^verbatim>\<open>internal/scd/syncer/wireguard.go\<close>, \<^verbatim>\<open>report.go\<close> and the part of
  \<^verbatim>\<open>syncer.go\<close> from the plans on): a source of links is applied in full when a hash changed or Xray lost
  resources; a source of candidates is applied in full or slot by slot.

  The functions work on the state of the target, as the monitor's do, and run under its lock. The
  iteration order of a Go map is an argument: \<open>se_order\<close> lists the elements of a set. A result \<open>None\<close>
  is a panic. Log lines are left out, and so are the maps that only choose a log level.
\<close>

section \<open>Environment and reports\<close>

record 'w sync_env =
  se_deps :: "'w deps"
  se_res :: resources
  se_round :: "rat \<Rightarrow> rat"
  se_order :: "string set \<Rightarrow> string list"

record target_report =
  tp_subscription :: string
  tp_target :: string
  tp_source :: string
  tp_unchanged :: "kind list"
  tp_failed :: nat
  tp_resources :: "report list"
  tp_skipped :: "skip list"

definition new_target_report ::
    "subscription \<Rightarrow> string \<Rightarrow> kind list \<Rightarrow> report list \<Rightarrow> skip list \<Rightarrow> target_report" where
  "new_target_report c sid unchanged rs skipped =
     \<lparr>tp_subscription = sub_id c, tp_target = t_address (sub_target c), tp_source = sid, tp_unchanged = unchanged,
      tp_failed = sum_list (map ar_failed rs), tp_resources = rs, tp_skipped = skipped\<rparr>"

definition enabled_kinds :: "resources \<Rightarrow> kind list" where
  "enabled_kinds r =
     filter (\<lambda>k. case k of KOutbound \<Rightarrow> res_outbounds r | KInbound \<Rightarrow> res_inbounds r | KRouting \<Rightarrow> res_routing r)
       [KOutbound, KInbound, KRouting]"

definition sync_meta :: "subscription \<Rightarrow> string \<Rightarrow> meta" where
  "sync_meta c sid =
     \<lparr>me_source = sid, me_subscription = sub_id c, me_target = t_address (sub_target c), me_max_outbounds = 0\<rparr>"

definition fail_all :: "'w sync_env \<Rightarrow> subscription \<Rightarrow> string \<Rightarrow> skip list \<Rightarrow> err \<Rightarrow> time \<Rightarrow> report list" where
  "fail_all env c sid skipped e now =
     map (\<lambda>k. failed_report k (sync_meta c sid) now skipped e) (enabled_kinds (se_res env))"

section \<open>What Xray lost\<close>

definition count_missing :: "string \<Rightarrow> string list \<Rightarrow> string list \<Rightarrow> nat" where
  "count_missing pre have ids =
     count_if (\<lambda>i. i \<notin> set have \<and> trim_prefix i pre \<notin> set have) ids"

text \<open>\<^verbatim>\<open>missingIn\<close>; an error of a list gives nil, the empty map.\<close>

fun missing_in :: "'w client \<Rightarrow> target \<Rightarrow> plan list \<Rightarrow> (kind, nat) gomap \<Rightarrow> 'w \<Rightarrow> (kind, nat) gomap \<times> 'w" where
  "missing_in c t [] acc w = (acc, w)"
| "missing_in c t (p # ps) acc w =
     (case list_tags c (pl_kind p) w of
        (Inl e, w1) \<Rightarrow> ([], w1)
      | (Inr have, w1) \<Rightarrow>
          let n = count_missing (t_prefix t) have (pl_ids p);
              old = (case map_of acc (pl_kind p) of Some k \<Rightarrow> k | None \<Rightarrow> 0)
          in missing_in c t ps (if n = 0 then acc else AList.update (pl_kind p) (old + n) acc) w1)"

definition missing_in_xray ::
    "'w sync_env \<Rightarrow> subscription \<Rightarrow> plan list \<Rightarrow> 'w \<Rightarrow> (kind, nat) gomap \<times> 'w" where
  "missing_in_xray env c plans w =
     (let d = se_deps env; t = sub_target c in
      if dp_cancelled d w then ([], w)
      else case dp_dial d (t_address t) (t_timeout t) w of
          (Inl e, w1) \<Rightarrow> ([], w1)
        | (Inr cl, w1) \<Rightarrow> missing_in cl t plans [] w1)"

definition log_drift :: "string \<Rightarrow> time \<Rightarrow> target_state \<Rightarrow> target_state" where
  "log_drift sid now t = snd (set_state_lost sid now t)"

section \<open>Plans\<close>

fun apply_plans ::
    "'w sync_env \<Rightarrow> 'w client \<Rightarrow> subscription \<Rightarrow> plan list \<Rightarrow> 'w \<Rightarrow>
     (report list \<times> (kind, string) gomap \<times> bool) \<times> 'w" where
  "apply_plans env cl c [] w = (([], [], False), w)"
| "apply_plans env cl c (p # ps) w =
     (let d = se_deps env;
          (r, w1) = apply_plan cl (dp_now d) (dp_to_proto d) (dp_in_proto d) p (sub_target c) (sync_meta c (pl_source p)) w;
          ((rs, hashes, failed), w2) = apply_plans env cl c ps w1
      in ((r # rs, (if ar_failed r > 0 then hashes else (pl_kind p, pl_hash p) # hashes), 0 < ar_failed r \<or> failed), w2))"

definition plans_changed :: "string \<Rightarrow> plan list \<Rightarrow> target_state \<Rightarrow> bool" where
  "plans_changed sid plans t \<longleftrightarrow>
     (case map_of (ts_sources t) sid of
        None \<Rightarrow> plans \<noteq> []
      | Some st \<Rightarrow> list_ex (\<lambda>p. map_of (so_hashes st) (pl_kind p) \<noteq> Some (pl_hash p)) plans)"

text \<open>
  \<^verbatim>\<open>syncPlans\<close> from the mark of the target on. The report is \<open>None\<close> after a cancellation; the flag tells
  that Xray was found to have lost resources.
\<close>

definition sync_plans ::
    "'w sync_env \<Rightarrow> subscription \<Rightarrow> string \<Rightarrow> plan list \<Rightarrow> skip list \<Rightarrow> target_state \<Rightarrow> 'w \<Rightarrow>
     target_report option \<times> bool \<times> target_state \<times> 'w" where
  "sync_plans env c sid plans skipped t w =
     (let d = se_deps env;
          changed = plans_changed sid plans t;
          (lost, w1) = (if changed then ([], w) else missing_in_xray env c plans w);
          drift = (lost \<noteq> []);
          t1 = (if drift then log_drift sid (dp_now d w1) t else t)
      in if \<not> changed \<and> \<not> drift
         then (Some (new_target_report c sid (map pl_kind plans) [] skipped), False, t1, w1)
         else if dp_cancelled d w1 then (None, drift, t1, w1)
         else case dial d c w1 of
             (Inl e, w2) \<Rightarrow>
               (Some (new_target_report c sid []
                  (map (\<lambda>p. failed_report (pl_kind p) (sync_meta c (pl_source p)) (dp_now d w2) (pl_skipped p) e) plans) skipped),
                drift, t1, w2)
           | (Inr cl, w2) \<Rightarrow>
               (let ((rs, hashes, failed), w3) = apply_plans env cl c plans w2
                in (Some (new_target_report c sid [] rs skipped), drift,
                    (if failed then t1 else replace_source_topology sid (pl_topology (List.last plans)) hashes t1), w3)))"

section \<open>Candidate sources: full apply\<close>

definition config_hash :: "text_lib \<Rightarrow> source \<Rightarrow> target \<Rightarrow> string" where
  "config_hash lib src t =
     json_hash lib (JObject
       ([(''Type'', JString (s_type src)),
         (''Listen'', JString (case t_inbound_socks t of Some l \<Rightarrow> l | None \<Rightarrow> '''')),
         (''Prefix'', JString (t_prefix t)),
         (''DomainStrategy'', JString (case s_wireguard src of Some x \<Rightarrow> x | None \<Rightarrow> '''')),
         (''PortRange'', (case s_ports src of None \<Rightarrow> JNull
            | Some pr \<Rightarrow> JObject [(''start'', JInt (pr_start pr)), (''end'', JInt (pr_end pr))])),
         (''MaxActive'', JInt (s_max_active src))] @
        (if s_dialer_proxy src = '''' then [] else [(''DialerProxy'', JString (s_dialer_proxy src))])))"

text \<open>The selection view of the tunnels of the source (\<^verbatim>\<open>slots\<close>).\<close>

definition known_cand :: "entry list \<Rightarrow> string \<Rightarrow> candidate option" where
  "known_cand es tag = map_option selection_cand (entry_with es tag)"

definition wg_slot :: "entry list \<Rightarrow> entry list \<Rightarrow> mtunnel \<Rightarrow> slot" where
  "wg_slot before1 ranked tn =
     \<lparr>sl_cand = (case known_cand (before1 @ ranked) (mt_id tn) of
         Some c \<Rightarrow> c | None \<Rightarrow> zero_candidate\<lparr>cd_tag := mt_id tn\<rparr>),
      sl_healthy = (tm_state (mt_monitor tn) \<noteq> TDegraded \<and> tm_state (mt_monitor tn) \<noteq> TRepairing \<and>
         tn_current (mt_mapping tn) = tn_initial (mt_mapping tn))\<rparr>"

text \<open>The transports that active tunnels keep, by key: the last entry of a key counts.\<close>

definition kept_transports :: "entry list \<Rightarrow> mtunnel list \<Rightarrow> (string, string) gomap" where
  "kept_transports es active =
     fold (\<lambda>e m. let x = selection_cand e in
        if cd_transport x \<noteq> '''' \<and> list_ex (\<lambda>tn. mt_id tn = en_tag e) active
        then AList.update (cd_key x) (cd_transport x) m else m) es []"

definition eligible_entries :: "sel_state \<Rightarrow> time \<Rightarrow> mtunnel list \<Rightarrow> entry list \<Rightarrow> entry list" where
  "eligible_entries sel now active es =
     (let ok = filter (\<lambda>e. \<not> quarantined sel (selection_cand e) now) es;
          kept = kept_transports ok active
      in filter (\<lambda>e. case map_of kept (cd_key (selection_cand e)) of
           None \<Rightarrow> True | Some x \<Rightarrow> cd_transport (selection_cand e) = x) ok)"

text \<open>\<^verbatim>\<open>pruneNoReplacement\<close>: the loop over the tags in the order of the map.\<close>

fun prune_tags :: "string set \<Rightarrow> int \<Rightarrow> string list \<Rightarrow> string list" where
  "prune_tags active empty1 [] = []"
| "prune_tags active empty1 (tag # tags) =
     (if tag \<in> active then tag # prune_tags active empty1 tags
      else if empty1 > 0 then tag # prune_tags active (empty1 - 1) tags
      else prune_tags active empty1 tags)"

definition prune_no_replacement :: "(string set \<Rightarrow> string list) \<Rightarrow> int \<Rightarrow> source_state \<Rightarrow> source_state option" where
  "prune_no_replacement order max_active st =
     (case so_topology st of None \<Rightarrow> None
      | Some topo \<Rightarrow> Some (st\<lparr>so_no_replacement :=
          set (prune_tags (tn_base_id ` set topo) (max_active - int (length topo)) (order (so_no_replacement st)))\<rparr>))"

text \<open>The update at the end of a full apply.\<close>

definition full_done ::
    "'w sync_env \<Rightarrow> subscription \<Rightarrow> source \<Rightarrow> sel_state \<Rightarrow> entry list \<Rightarrow> bool \<Rightarrow> target_state \<Rightarrow> target_state option" where
  "full_done env c src sel ranked failed t =
     (case map_of (ts_sources t) (s_id src) of
        None \<Rightarrow> Some t
      | Some st0 \<Rightarrow>
          (let t1 = (if failed then drop_source_tunnels (s_id src) t else t) in
           case map_of (ts_sources t1) (s_id src) of None \<Rightarrow> None
           | Some st \<Rightarrow>
               map_option (\<lambda>st1. t1\<lparr>ts_sources := AList.update (s_id src)
                    (st1\<lparr>so_selection := sel, so_candidates := ranked\<rparr>) (ts_sources t1)\<rparr>)
                 (if failed then Some st
                  else prune_no_replacement (se_order env) (s_max_active src)
                    (st\<lparr>so_config_hash := config_hash (dp_lib (se_deps env)) src (sub_target c)\<rparr>))))"

fun plans_for :: "'w sync_env \<Rightarrow> manifest \<Rightarrow> source \<Rightarrow> target \<Rightarrow> kind list \<Rightarrow> err + plan list" where
  "plans_for env m src t [] = Inr []"
| "plans_for env m src t (k # ks) =
     (case plan_for_source (dp_lib (se_deps env)) (dp_json (se_deps env)) k m src t of
        Inl e \<Rightarrow> Inl e
      | Inr p \<Rightarrow> (case plans_for env m src t ks of Inl e \<Rightarrow> Inl e | Inr ps \<Rightarrow> Inr (p # ps)))"

definition wg_full ::
    "'w sync_env \<Rightarrow> 'w client \<Rightarrow> subscription \<Rightarrow> source \<Rightarrow> manifest \<Rightarrow> entry list \<Rightarrow> sel_state \<Rightarrow> time \<Rightarrow> skip list \<Rightarrow>
     mtunnel list \<Rightarrow> target_state \<Rightarrow> 'w \<Rightarrow> (target_report \<times> target_state \<times> 'w) option" where
  "wg_full env cl c src m ranked sel now skipped active t w =
     (case plans_for env (m\<lparr>mf_entries := eligible_entries sel now active (mf_entries m)\<rparr>) src (sub_target c)
             (enabled_kinds (se_res env)) of
        Inl e \<Rightarrow> Some (new_target_report c (s_id src) []
            (fail_all env c (s_id src) [] (ErrText (err_text e)) (dp_now (se_deps env) w)) skipped, t, w)
      | Inr plans \<Rightarrow>
          (let ((rs, hashes, failed), w1) = apply_plans env cl c plans w in
           if \<not> failed \<and> plans = [] then None
           else
             let t1 = (if failed then t else replace_source_topology (s_id src) (pl_topology (List.last plans)) hashes t)
             in map_option (\<lambda>t2. (new_target_report c (s_id src) [] rs skipped, t2, w1))
                  (full_done env c src sel ranked failed t1)))"

section \<open>Candidate sources: slot by slot\<close>

text \<open>The variables of \<^verbatim>\<open>decide\<close>.\<close>

record 'w slot_run =
  sr_state :: target_state
  sr_world :: 'w
  sr_removed :: "tunnel list"
  sr_added :: "tunnel list"
  sr_failure :: "(string \<times> err) option"

definition mark_no_replacement :: "string \<Rightarrow> string \<Rightarrow> target_state \<Rightarrow> target_state" where
  "mark_no_replacement sid tag t =
     (case map_of (ts_sources t) sid of None \<Rightarrow> t
      | Some st \<Rightarrow> t\<lparr>ts_sources := AList.update sid
          (st\<lparr>so_no_replacement := insert tag (so_no_replacement st)\<rparr>) (ts_sources t)\<rparr>)"

definition entry_or_zero :: "entry list \<Rightarrow> string \<Rightarrow> entry" where
  "entry_or_zero es tag = (case entry_with es tag of Some e \<Rightarrow> e | None \<Rightarrow> zero_entry)"

definition slot_remove ::
    "'w sync_env \<Rightarrow> 'w client \<Rightarrow> source \<Rightarrow> tunnel \<Rightarrow> 'w slot_run \<Rightarrow> 'w slot_run option" where
  "slot_remove env cl src old r =
     (let d = se_deps env; sid = s_id src;
          (rule_err, x, w1) = remove_tunnel cl old (sr_world r)
      in case replace_source_tunnel (dp_lib d) (dp_json d) sid (tn_base_id old) None (sr_state r) of
           None \<Rightarrow> None
         | Some t1 \<Rightarrow>
             Some (case x of
                 None \<Rightarrow> r\<lparr>sr_state := mark_no_replacement sid (tn_base_id old) t1, sr_world := w1,
                          sr_removed := sr_removed r @ [old]\<rparr>
               | Some e \<Rightarrow> r\<lparr>sr_state := reset_source_hashes sid t1, sr_world := w1, sr_failure := Some (tn_current old, e)\<rparr>))"

definition slot_replace ::
    "'w sync_env \<Rightarrow> 'w client \<Rightarrow> subscription \<Rightarrow> source \<Rightarrow> entry list \<Rightarrow> tunnel \<Rightarrow> string \<Rightarrow> 'w slot_run \<Rightarrow> 'w slot_run option" where
  "slot_replace env cl c src ranked old tag r =
     (let d = se_deps env; sid = s_id src;
          nt = new_tunnel (entry_or_zero ranked tag) sid (sub_target c) (tn_port old);
          (rule_err, x, w1) = replace_tunnel cl (dp_to_proto d) (dp_in_proto d) old nt (sr_world r)
      in case replace_source_tunnel (dp_lib d) (dp_json d) sid (tn_base_id old)
             (if x = None then Some nt else None) (sr_state r) of
           None \<Rightarrow> None
         | Some t1 \<Rightarrow>
             Some (case x of
                 None \<Rightarrow> r\<lparr>sr_state := t1, sr_world := w1, sr_removed := sr_removed r @ [old], sr_added := sr_added r @ [nt]\<rparr>
               | Some e \<Rightarrow> r\<lparr>sr_state := reset_source_hashes sid t1, sr_world := w1, sr_failure := Some (tn_initial nt, e)\<rparr>))"

text \<open>The loop over the actions; it stops at the first failure.\<close>

fun slot_actions ::
    "'w sync_env \<Rightarrow> 'w client \<Rightarrow> subscription \<Rightarrow> source \<Rightarrow> entry list \<Rightarrow> mtunnel list \<Rightarrow> action list \<Rightarrow> 'w slot_run \<Rightarrow>
     'w slot_run option" where
  "slot_actions env cl c src ranked slots [] r = Some r"
| "slot_actions env cl c src ranked slots (a # as) r =
     (if sr_failure r \<noteq> None then Some r
      else if ac_slot a \<ge> length slots then None
      else
        let old = mt_mapping (slots ! ac_slot a)
        in case (case ac_kind a of
               Keep \<Rightarrow> Some r
             | Remove \<Rightarrow> slot_remove env cl src old r
             | Replace \<Rightarrow> slot_replace env cl c src ranked old (cd_tag (ac_to a)) r) of
             None \<Rightarrow> None
           | Some r1 \<Rightarrow> slot_actions env cl c src ranked slots as r1)"

text \<open>The lowest free port from a port on.\<close>

function free_port :: "int \<Rightarrow> int list \<Rightarrow> int" where
  "free_port p ports = (if p \<in> set ports then free_port (p + 1) ports else p)"
  by pat_completeness auto
termination
proof (relation "measure (\<lambda>(p, ports). card {q \<in> set ports. p \<le> q})")
  fix p :: int and ports
  assume p: "p \<in> set ports"
  have "p \<in> {q \<in> set ports. p \<le> q} - {q \<in> set ports. p + 1 \<le> q}" using p by simp
  then have "{q \<in> set ports. p + 1 \<le> q} \<subset> {q \<in> set ports. p \<le> q}" by (auto simp del: Diff_iff)
  then have "card {q \<in> set ports. p + 1 \<le> q} < card {q \<in> set ports. p \<le> q}"
    by (intro psubset_card_mono) auto
  then show "((p + 1, ports), p, ports) \<in> measure (\<lambda>(p, ports). card {q \<in> set ports. p \<le> q})" by simp
qed simp

declare free_port.simps [simp del]

text \<open>One filled slot drops one tag without replacement.\<close>

definition drop_no_replacement :: "(string set \<Rightarrow> string list) \<Rightarrow> string \<Rightarrow> string set \<Rightarrow> string set \<Rightarrow> string set" where
  "drop_no_replacement order new_tag in_use nr =
     (if new_tag \<in> nr then nr - {new_tag}
      else case List.find (\<lambda>tag. tag \<notin> in_use) (order nr) of None \<Rightarrow> nr | Some tag \<Rightarrow> nr - {tag})"

definition filled ::
    "'w sync_env \<Rightarrow> string \<Rightarrow> tunnel \<Rightarrow> string set \<Rightarrow> target_state \<Rightarrow> target_state option" where
  "filled env sid nt in_use t =
     (let d = se_deps env in
      case replace_source_tunnel (dp_lib d) (dp_json d) sid '''' (Some nt) t of
        None \<Rightarrow> None
      | Some t1 \<Rightarrow>
          (case map_of (ts_sources t1) sid of
             None \<Rightarrow> None
           | Some st \<Rightarrow> Some (t1\<lparr>ts_sources := AList.update sid
               (st\<lparr>so_no_replacement := drop_no_replacement (se_order env) (tn_base_id nt) in_use (so_no_replacement st)\<rparr>)
               (ts_sources t1)\<rparr>)))"

text \<open>
  \<^verbatim>\<open>fill\<close>: what the next round does. It ends, fails, or adds a tunnel.
\<close>

definition fill_next ::
    "source \<Rightarrow> entry list \<Rightarrow> sel_state \<Rightarrow> time \<Rightarrow> target_state \<Rightarrow> (candidate \<times> string set \<times> int) option option" where
  "fill_next src ranked sel now t =
     (let mine = map mt_mapping (tunnels_of (s_id src) t);
          in_use = tn_base_id ` set mine;
          keys = set (List.map_filter (\<lambda>m. map_option cd_key (known_cand ranked (tn_base_id m))) mine)
      in if s_max_active src \<le> int (card in_use) then Some None
         else case replacement (map selection_cand ranked) in_use keys sel now of
             None \<Rightarrow> Some None
           | Some cand \<Rightarrow>
               (case s_ports src of None \<Rightarrow> None
                | Some pr \<Rightarrow> Some (Some (cand, in_use, free_port (pr_start pr) (map tn_port mine)))))"

text \<open>\<open>n\<close> bounds the rounds; out of rounds, the result is \<open>None\<close>.\<close>

fun fill_slots ::
    "'w sync_env \<Rightarrow> 'w client \<Rightarrow> subscription \<Rightarrow> source \<Rightarrow> entry list \<Rightarrow> sel_state \<Rightarrow> time \<Rightarrow> nat \<Rightarrow> 'w slot_run \<Rightarrow>
     'w slot_run option" where
  "fill_slots env cl c src ranked sel now n r =
     (case fill_next src ranked sel now (sr_state r) of
        None \<Rightarrow> None
      | Some None \<Rightarrow> Some r
      | Some (Some (cand, in_use, port)) \<Rightarrow>
          (case n of 0 \<Rightarrow> None
           | Suc m \<Rightarrow>
               let d = se_deps env;
                   nt = new_tunnel (entry_or_zero ranked (cd_tag cand)) (s_id src) (sub_target c) port
               in case add_tunnel cl (dp_to_proto d) (dp_in_proto d) nt (sr_world r) of
                    (Some e, w1) \<Rightarrow>
                      Some (r\<lparr>sr_state := reset_source_hashes (s_id src) (sr_state r), sr_world := w1,
                              sr_failure := Some (tn_initial nt, e)\<rparr>)
                  | (None, w1) \<Rightarrow>
                      (case filled env (s_id src) nt in_use (sr_state r) of
                         None \<Rightarrow> None
                       | Some t1 \<Rightarrow>
                           fill_slots env cl c src ranked sel now m
                             (r\<lparr>sr_state := t1, sr_world := w1, sr_added := sr_added r @ [nt]\<rparr>))))"

declare fill_slots.simps [simp del]

definition store_candidates :: "string \<Rightarrow> sel_state \<Rightarrow> entry list \<Rightarrow> target_state \<Rightarrow> target_state" where
  "store_candidates sid sel ranked t =
     (case map_of (ts_sources t) sid of None \<Rightarrow> t
      | Some st \<Rightarrow> t\<lparr>ts_sources := AList.update sid (st\<lparr>so_selection := sel, so_candidates := ranked\<rparr>) (ts_sources t)\<rparr>)"

definition wg_decide ::
    "'w sync_env \<Rightarrow> 'w client \<Rightarrow> subscription \<Rightarrow> source \<Rightarrow> entry list \<Rightarrow> entry list \<Rightarrow> sel_state \<Rightarrow> time \<Rightarrow> skip list \<Rightarrow>
     mtunnel list \<Rightarrow> target_state \<Rightarrow> 'w \<Rightarrow> (target_report \<times> target_state \<times> 'w) option" where
  "wg_decide env cl c src before1 ranked sel now skipped slots t w =
     (case s_selection src of
        None \<Rightarrow> None
      | Some cfg \<Rightarrow>
          (let kinds = enabled_kinds (se_res env);
               (actions, sel1) = decide (se_round env) (map (wg_slot before1 ranked) slots) (map selection_cand ranked) sel now cfg
           in case slot_actions env cl c src ranked slots actions
                     \<lparr>sr_state = t, sr_world = w, sr_removed = [], sr_added = [], sr_failure = None\<rparr> of
                None \<Rightarrow> None
              | Some r1 \<Rightarrow>
             (case (if sr_failure r1 = None
                    then fill_slots env cl c src ranked sel1 now (nat (s_max_active src)) r1 else Some r1) of
                None \<Rightarrow> None
              | Some r2 \<Rightarrow>
                  let t1 = store_candidates (s_id src) sel1 ranked (sr_state r2) in
                  if sr_removed r2 = [] \<and> sr_added r2 = [] \<and> sr_failure r2 = None
                  then Some (new_target_report c (s_id src) kinds [] skipped, t1, sr_world r2)
                  else
                    let (fid, fe) = (case sr_failure r2 of None \<Rightarrow> ('''', None) | Some (i, e) \<Rightarrow> (i, Some e))
                    in Some (new_target_report c (s_id src) []
                         (slot_reports kinds (sync_meta c (s_id src)) (dp_now (se_deps env) (sr_world r2))
                            (sr_removed r2) (sr_added r2) fid fe) skipped, t1, sr_world r2))))"

text \<open>
  \<^verbatim>\<open>syncWireGuard\<close> from the mark of the target on; the report is \<open>None\<close> after a cancellation.
\<close>

definition sync_wireguard ::
    "'w sync_env \<Rightarrow> subscription \<Rightarrow> source \<Rightarrow> manifest \<Rightarrow> skip list \<Rightarrow> target_state \<Rightarrow> 'w \<Rightarrow>
     (target_report option \<times> bool \<times> target_state \<times> 'w) option" where
  "sync_wireguard env c src m skipped t w =
     (let d = se_deps env; tgt = sub_target c; sid = s_id src; kinds = enabled_kinds (se_res env) in
      if dp_cancelled d w then Some (None, False, t, w)
      else case s_selection src of None \<Rightarrow> None
      | Some cfg \<Rightarrow>
      let now = dp_now d w;
          ranked = rank (sel_strategy cfg) selection_cand (mf_entries m);
          cur = map_of (ts_sources t) sid;
          sel = (case cur of None \<Rightarrow> \<lparr>ss_quarantine = [], ss_better = []\<rparr> | Some st \<Rightarrow> so_selection st);
          slots = (case cur of None \<Rightarrow> [] | Some st \<Rightarrow> tunnels_of sid t)
      in case dial d c w of
        (Inl e, w1) \<Rightarrow>
          Some (Some (new_target_report c sid []
            (map (\<lambda>k. failed_report k (sync_meta c sid) (dp_now d w1) skipped e) kinds) skipped), False, t, w1)
      | (Inr cl, w1) \<Rightarrow>
          let run_full = (\<lambda>drift t w. map_option (\<lambda>(r, t1, w1). (Some r, drift, t1, w1))
                (wg_full env cl c src m ranked sel now skipped slots t w))
          in case cur of
               None \<Rightarrow> run_full False t w1
             | Some st \<Rightarrow>
                 if so_hashes st = [] \<or> so_config_hash st \<noteq> config_hash (dp_lib d) src tgt then run_full False t w1
                 else case so_topology st of
                     None \<Rightarrow> None
                   | Some topo \<Rightarrow>
                       (let (lost, w2) = missing_in cl tgt (map (\<lambda>k. topology_plan (dp_lib d) (dp_json d) k sid topo) kinds) [] w1
                        in if lost \<noteq> [] then run_full True (log_drift sid (dp_now d w2) t) w2
                           else map_option (\<lambda>(r, t1, w3). (Some r, False, t1, w3))
                             (wg_decide env cl c src (so_candidates st) ranked sel now skipped slots t w2)))"

section \<open>Lemmas: decisions and topologies\<close>

text \<open>What a decision asks of the slots: the candidates brought in are of the file, no slot had them.\<close>

definition acts_fit :: "candidate list \<Rightarrow> string set \<Rightarrow> action list \<Rightarrow> bool" where
  "acts_fit ranked A acts \<longleftrightarrow>
     distinct (map cd_tag (news acts)) \<and> (\<forall>c \<in> set (news acts). c \<in> set ranked \<and> cd_tag c \<notin> A)"

lemma decide_better_news:
  assumes "decide_better rnd ranked st now cfg use keys better prs = (acts, better')"
    and "acts_fit ranked A (map snd prs)" "A \<subseteq> use" "cd_tag ` set (news (map snd prs)) \<subseteq> use"
  shows "acts_fit ranked A acts \<and>
    set (news acts) \<subseteq> set (news (map snd prs)) \<union> {c \<in> set ranked. cd_tag c \<notin> use}"
  using assms
proof (induction prs arbitrary: use keys better acts better')
  case (Cons p rest)
  obtain a act where p: "p = (a, act)" by fastforce
  from Cons.prems(1) [unfolded p] show ?case
  proof (cases rule: decide_better_step)
    case (stay acts0 keys1 better1)
    have fit: "acts_fit ranked A (map snd rest)" using Cons.prems(2) p by (auto simp: acts_fit_def split: if_splits)
    have sub: "cd_tag ` set (news (map snd rest)) \<subseteq> use" using Cons.prems(4) p by (auto split: if_splits)
    note ih = Cons.IH [OF stay(3) fit Cons.prems(3) sub]
    have "cd_tag (ac_to act) \<notin> cd_tag ` set (news acts0)" if r: "ac_kind act = Replace"
    proof
      assume "cd_tag (ac_to act) \<in> cd_tag ` set (news acts0)"
      then obtain c where c: "c \<in> set (news acts0)" "cd_tag c = cd_tag (ac_to act)" by auto
      moreover have "cd_tag (ac_to act) \<in> use" using Cons.prems(4) p r by auto
      ultimately have "c \<in> set (news (map snd rest))" using ih by auto
      then have "cd_tag (ac_to act) \<in> cd_tag ` set (news (map snd rest))" using c(2) by (metis imageI)
      then show False using Cons.prems(2) p r by (simp add: acts_fit_def)
    qed
    then show ?thesis using ih Cons.prems(2) p stay(1) by (auto simp: acts_fit_def split: if_splits)
  next
    case (switch acts0 c k)
    note c = contender_Some [OF switch(5)]
    have fit: "acts_fit ranked A (map snd rest)" using Cons.prems(2) p by (auto simp: acts_fit_def split: if_splits)
    have sub: "cd_tag ` set (news (map snd rest)) \<subseteq> insert (cd_tag c) use" using Cons.prems(4) p by (auto split: if_splits)
    have A: "A \<subseteq> insert (cd_tag c) use" using Cons.prems(3) by blast
    note ih = Cons.IH [OF switch(7) fit A sub]
    have "cd_tag c \<notin> cd_tag ` set (news acts0)"
    proof
      assume "cd_tag c \<in> cd_tag ` set (news acts0)"
      then obtain d where "d \<in> set (news acts0)" "cd_tag d = cd_tag c" by auto
      then have "d \<in> set (news (map snd rest))" using ih by auto
      then have "cd_tag c \<in> use" using Cons.prems(4) p \<open>cd_tag d = cd_tag c\<close> by (auto split: if_splits)
      then show False using c by blast
    qed
    then show ?thesis using ih c Cons.prems(3) p switch(1,2) by (auto simp: acts_fit_def)
  qed
qed (simp add: acts_fit_def)

lemma decide_acts_fit:
  assumes "decide rnd active ranked st now cfg = (acts, st')"
  shows "acts_fit ranked ((cd_tag \<circ> sl_cand) ` set active) acts" "map ac_slot acts = [0..<length active]"
proof -
  let ?A = "(cd_tag \<circ> sl_cand) ` set active"
  obtain st1 acts1 use1 keys1 better where
    gone: "decide_gone ranked st1 now 0 (cd_tag ` sl_cand ` set active)
       (cd_key ` sl_cand ` set (filter (present ranked) active)) active = (acts1, use1, keys1)"
    and bet: "decide_better rnd ranked st1 now cfg use1 keys1 [] (zip active acts1) = (acts, better)"
    using decide_loops [OF assms] by metis
  note g = decide_gone_spec [OF gone]
  have z: "map snd (zip active acts1) = acts1" using g by (simp add: map_snd_zip)
  have "acts_fit ranked ?A acts1" using g by (auto simp: acts_fit_def image_comp)
  then show "acts_fit ranked ?A acts"
    using decide_better_news [OF bet, of ?A] g unfolding z by (auto simp: image_comp)
  note b = decide_better_acts [OF bet]
  show "map ac_slot acts = [0..<length active]"
  proof (rule nth_equalityI)
    show "length (map ac_slot acts) = length [0..<length active]" using b g by simp
    fix j assume "j < length (map ac_slot acts)"
    then have j: "j < length acts" "j < length active" using b g by simp_all
    then have "ac_slot (acts1 ! j) = j" using g by simp
    then show "map ac_slot acts ! j = [0..<length active] ! j"
      using b j g by (fastforce simp: better_action_def)
  qed
qed

lemma decide_keeps_present:
  assumes "decide rnd active ranked st now cfg = (acts, st')" "a \<in> set acts" "ac_kind a = Keep"
  shows "present ranked (active ! ac_slot a)"
proof -
  obtain st1 acts1 use1 keys1 better where
    gone: "decide_gone ranked st1 now 0 (cd_tag ` sl_cand ` set active)
       (cd_key ` sl_cand ` set (filter (present ranked) active)) active = (acts1, use1, keys1)"
    and bet: "decide_better rnd ranked st1 now cfg use1 keys1 [] (zip active acts1) = (acts, better)"
    using decide_loops [OF assms(1)] by metis
  note g = decide_gone_spec [OF gone] and b = decide_better_acts [OF bet]
  obtain j where j: "j < length acts" "acts ! j = a" using assms(2) by (auto simp: in_set_conv_nth)
  have len: "j < length active" "j < length acts1" using j b g by simp_all
  have "ac_slot a = j" using decide_acts_fit(2) [OF assms(1)] j by (metis (no_types, lifting) add_0 diff_zero length_map length_upt nth_map nth_upt)
  moreover have "ac_kind (acts1 ! j) = Keep"
    using b j len assms(3) by (fastforce simp: better_action_def)
  then have "present ranked (active ! j)" using g len by blast
  ultimately show ?thesis by simp
qed

lemma pick_rank_distinct:
  assumes "distinct (map en_tag es)" "0 \<le> mx"
  shows "distinct (map en_tag (pick selection_cand (rank st selection_cand es) mx))"
proof -
  let ?l = "pick selection_cand (rank st selection_cand es) mx"
  have "distinct (map (cd_key \<circ> selection_cand) ?l)" by (rule pick_keys [OF assms(2)])
  then have "distinct ?l" using distinct_map by blast
  moreover have "set ?l \<subseteq> set es" using pick_set [OF assms(2), of selection_cand "rank st selection_cand es"] by simp
  ultimately show ?thesis using assms(1) by (auto simp: distinct_map intro: inj_on_subset)
qed

lemma source_entries_distinct:
  assumes "distinct (map en_tag es)" "0 \<le> s_max_active src"
  shows "distinct (map en_tag (fst (source_entries es src pr)))"
proof -
  have "distinct (map en_tag (sort_by entry_cmp es))"
    using assms(1) by (simp add: distinct_map_sort_by)
  then have "distinct (map en_tag (take n (sort_by entry_cmp es)))" for n
    by (metis distinct_take take_map)
  then show ?thesis
    using pick_rank_distinct [OF assms] by (auto simp: source_entries_def by_tag_fst split: option.split)
qed

lemma build_source_distinct:
  assumes "distinct (map en_tag es)" "0 \<le> s_max_active src"
  shows "distinct (map tn_base_id (fst (build_source es src t)))"
proof (cases "t_inbound_socks t = None \<or> s_ports src = None")
  case True
  then show ?thesis by (simp add: build_source_None)
next
  case False
  then obtain l pr where lp: "t_inbound_socks t = Some l" "s_ports src = Some pr" by auto
  have "map tn_base_id (fst (build_source es src t)) = map en_tag (fst (source_entries es src pr))"
    by (rule nth_equalityI) (simp_all add: build_source_length [OF lp] build_source_nth [OF lp])
  then show ?thesis using source_entries_distinct [OF assms] by simp
qed

lemma fill_topology [simp]: "pl_topology (fill lib sj p) = pl_topology p" "pl_kind (fill lib sj p) = pl_kind p"
  by (simp_all add: fill_def split: kind.split)

lemma plan_for_source_topology:
  assumes "plan_for_source lib sj k m src t = Inr p"
  shows "pl_topology p = fst (build_source (mf_entries m) src t)" "pl_kind p = k"
  using assms by (auto simp: plan_for_source_def new_plan_def Let_def split: if_splits prod.splits)

lemma plans_for_topology:
  "plans_for env m src t ks = Inr ps \<Longrightarrow>
   map pl_kind ps = ks \<and> (\<forall>p \<in> set ps. pl_topology p = fst (build_source (mf_entries m) src t))"
  by (induction ks arbitrary: ps) (auto split: sum.splits dest: plan_for_source_topology)

section \<open>Lemmas: the steps keep the state\<close>

text \<open>The state of a source that was applied: its tunnels have names and ports of their own.\<close>

definition applied_ok :: "string \<Rightarrow> target_state \<Rightarrow> bool" where
  "applied_ok sid t \<longleftrightarrow> mon_ok t \<and>
     (\<exists>st topo. map_of (ts_sources t) sid = Some st \<and> so_topology st = Some topo) \<and>
     '''' \<notin> set (topo_ids sid t) \<and> inj_on (\<lambda>x. tn_port (mt_mapping x)) (set (tunnels_of sid t))"

definition tags_ok :: "entry list \<Rightarrow> bool" where
  "tags_ok es \<longleftrightarrow> (\<forall>e \<in> set es. cd_tag (selection_cand e) = en_tag e \<and> en_tag e \<noteq> '''')"

lemma tags_ok_filter: "tags_ok es \<Longrightarrow> set es' \<subseteq> set es \<Longrightarrow> tags_ok es'"
  by (auto simp: tags_ok_def)

lemma entry_or_zero_tag:
  assumes "tags_ok ranked" "c \<in> selection_cand ` set ranked"
  shows "en_tag (entry_or_zero ranked (cd_tag c)) = cd_tag c"
proof -
  obtain e where "e \<in> set (rev ranked)" "en_tag e = cd_tag c" using assms by (auto simp: tags_ok_def)
  then have "entry_with ranked (cd_tag c) \<noteq> None" unfolding entry_with_def find_None_set by blast
  then obtain e' where "entry_with ranked (cd_tag c) = Some e'" by blast
  then show ?thesis using entry_with_Some by (simp add: entry_or_zero_def)
qed


lemma topo_ids_tunnels: "mon_ok t \<Longrightarrow> set (topo_ids sid t) = mt_id ` set (tunnels_of sid t)"
  using state_okD(1) [of t sid] by (metis mon_ok_def list.set_map)

lemma tunnels_distinct: "mon_ok t \<Longrightarrow> distinct (map mt_id (tunnels_of sid t))"
  using state_okD(1,2) [of t sid] by (simp add: mon_ok_def)

lemma tunnels_count:
  assumes "mon_ok t"
  shows "length (tunnels_of sid t) = card (set (tunnels_of sid t))" "length (tunnels_of sid t) = card (mt_id ` set (tunnels_of sid t))"
  using tunnels_distinct [OF assms, of sid]
  by (metis distinct_card distinct_map) (metis distinct_card length_map list.set_map tunnels_distinct [OF assms])

lemma applied_update:
  assumes "applied_ok sid t" "map_of (ts_sources t) sid = Some st" "so_topology st' = so_topology st"
    "\<forall>e \<in> set (so_candidates st'). cd_tag (selection_cand e) = en_tag e"
  shows "applied_ok sid (t\<lparr>ts_sources := AList.update sid st' (ts_sources t)\<rparr>)"
proof -
  let ?t = "t\<lparr>ts_sources := AList.update sid st' (ts_sources t)\<rparr>"
  have ids: "topo_ids s ?t = topo_ids s t" for s using assms(2,3) by (simp add: topo_ids_def)
  have tns: "tunnels_of s ?t = tunnels_of s t" for s by (simp add: tunnels_of_def)
  have "mon_ok ?t"
    using assms unfolding applied_ok_def mon_ok_def state_ok_def ids tns by (auto simp: cands_of_def)
  then show ?thesis using assms unfolding applied_ok_def ids tns by auto
qed

lemma applied_cands:
  assumes "applied_ok sid t" "map_of (ts_sources t) sid = Some st"
  shows "\<forall>e \<in> set (so_candidates st). cd_tag (selection_cand e) = en_tag e"
  using assms by (auto simp: applied_ok_def mon_ok_def cands_of_def dest: spec [of _ sid])

lemma tunnels_of_sources [simp]: "tunnels_of s (t\<lparr>ts_sources := x\<rparr>) = tunnels_of s t"
  by (simp add: tunnels_of_def)

lemma reset_sid_tunnels [simp]: "tunnels_of s (reset_source_hashes sid t) = tunnels_of s t"
  by (simp add: reset_source_hashes_def split: option.split)

lemma mark_tunnels [simp]: "tunnels_of s (mark_no_replacement sid tag t) = tunnels_of s t"
  by (simp add: mark_no_replacement_def split: option.split)

lemma applied_reset: "applied_ok sid t \<Longrightarrow> applied_ok sid (reset_source_hashes sid t)"
  using applied_update applied_cands by (fastforce simp: reset_source_hashes_def split: option.split)

lemma applied_mark: "applied_ok sid t \<Longrightarrow> applied_ok sid (mark_no_replacement sid tag t)"
  using applied_update applied_cands by (fastforce simp: mark_no_replacement_def split: option.split)

abbreviation idle_tunnel :: "string \<Rightarrow> tunnel \<Rightarrow> mtunnel" where
  "idle_tunnel sid n \<equiv> \<lparr>mt_mapping = n\<lparr>tn_source := sid\<rparr>, mt_monitor = idle_monitor\<rparr>"

text \<open>A tunnel that may enter the state in place of \<open>old\<close>: a new name and a port of its own.\<close>

definition may_enter :: "string \<Rightarrow> string \<Rightarrow> tunnel \<Rightarrow> target_state \<Rightarrow> bool" where
  "may_enter sid old n t \<longleftrightarrow> tn_base_id n \<notin> set (topo_ids sid t) \<and> tn_base_id n \<noteq> '''' \<and>
     (\<forall>x \<in> set (tunnels_of sid t). (old = '''' \<or> mt_id x \<noteq> old) \<longrightarrow> tn_port (mt_mapping x) \<noteq> tn_port n)"

lemma replace_applied:
  assumes ok: "applied_ok sid t" and enter: "\<And>n. nxt = Some n \<Longrightarrow> may_enter sid old n t"
  obtains t' where "replace_source_tunnel lib sj sid old nxt t = Some t'" "applied_ok sid t'"
    "set (tunnels_of sid t') = {x \<in> set (tunnels_of sid t). old = '''' \<or> mt_id x \<noteq> old} \<union>
      (case nxt of None \<Rightarrow> {} | Some n \<Rightarrow> {idle_tunnel sid n})"
proof -
  obtain st topo where st: "map_of (ts_sources t) sid = Some st" "so_topology st = Some topo"
    using ok by (auto simp: applied_ok_def)
  have m: "mon_ok t" and s: "state_ok t" using ok by (simp_all add: applied_ok_def mon_ok_def)
  have fit: "fits sid old nxt t" using enter by (auto simp: fits_def may_enter_def split: option.split)
  obtain t' where t': "replace_source_tunnel lib sj sid old nxt t = Some t'" "mon_ok t'"
    using replace_source_tunnel_mon [OF m fit] by blast
  note e = replace_source_tunnel_effect [OF s fit st t'(1)]
  let ?T = "{x \<in> set (tunnels_of sid t). old = '''' \<or> mt_id x \<noteq> old} \<union>
      (case nxt of None \<Rightarrow> {} | Some n \<Rightarrow> {idle_tunnel sid n})"
  have set1: "set (tunnels_of sid t') = ?T" using e by blast
  have "inj_on (\<lambda>x. tn_port (mt_mapping x)) ?T"
    using ok enter by (cases nxt) (fastforce simp: applied_ok_def may_enter_def inj_on_def)+
  moreover have "'''' \<notin> mt_id ` ?T"
    using ok enter topo_ids_tunnels [OF m, of sid] by (cases nxt) (auto simp: applied_ok_def may_enter_def)
  ultimately have "applied_ok sid t'"
    using t'(2) e topo_ids_tunnels [OF t'(2), of sid] set1 by (auto simp: applied_ok_def)
  then show thesis using that t'(1) set1 by blast
qed

section \<open>Lemmas: slot by slot\<close>

lemma applied_named: "applied_ok sid t \<Longrightarrow> x \<in> set (tunnels_of sid t) \<Longrightarrow> mt_id x \<noteq> ''''"
  using topo_ids_tunnels [of t sid] by (metis applied_ok_def imageI)

lemma acts_fit_tail:
  assumes "acts_fit ranked A (a # acts)"
  shows "acts_fit ranked (if ac_kind a = Replace then insert (cd_tag (ac_to a)) A else A) acts"
proof -
  have "cd_tag c \<noteq> cd_tag (ac_to a)" if "ac_kind a = Replace" "c \<in> set (news acts)" for c
  proof -
    have "cd_tag (ac_to a) \<notin> cd_tag ` set (news acts)" using assms that(1) by (simp add: acts_fit_def)
    then show ?thesis using that(2) by (metis imageI)
  qed
  then show ?thesis using assms by (auto simp: acts_fit_def split: if_splits)
qed

text \<open>What a step of a slot keeps: the other tunnels, and at most as many.\<close>

definition step_keeps :: "string \<Rightarrow> string \<Rightarrow> target_state \<Rightarrow> target_state \<Rightarrow> bool" where
  "step_keeps sid old t t' \<longleftrightarrow> applied_ok sid t' \<and>
     length (tunnels_of sid t') \<le> length (tunnels_of sid t) \<and>
     (\<forall>x \<in> set (tunnels_of sid t). mt_id x \<noteq> old \<longrightarrow> x \<in> set (tunnels_of sid t'))"

lemma replace_keeps:
  assumes ok: "applied_ok sid t" and old: "x \<in> set (tunnels_of sid t)"
    and enter: "\<And>n. nxt = Some n \<Longrightarrow> may_enter sid (mt_id x) n t"
  obtains t' where "replace_source_tunnel lib sj sid (mt_id x) nxt t = Some t'" "step_keeps sid (mt_id x) t t'"
    "set (topo_ids sid t') = set (topo_ids sid t) - {mt_id x} \<union> (case nxt of None \<Rightarrow> {} | Some n \<Rightarrow> {tn_base_id n})"
proof -
  obtain t' where t': "replace_source_tunnel lib sj sid (mt_id x) nxt t = Some t'" "applied_ok sid t'"
    "set (tunnels_of sid t') = {y \<in> set (tunnels_of sid t). mt_id x = '''' \<or> mt_id y \<noteq> mt_id x} \<union>
      (case nxt of None \<Rightarrow> {} | Some n \<Rightarrow> {idle_tunnel sid n})"
    using replace_applied [OF ok enter] by blast
  have m: "mon_ok t" "mon_ok t'" using ok t'(2) by (simp_all add: applied_ok_def)
  have ne: "mt_id x \<noteq> ''''" by (rule applied_named [OF ok old])
  have ids: "set (topo_ids sid t') = set (topo_ids sid t) - {mt_id x} \<union> (case nxt of None \<Rightarrow> {} | Some n \<Rightarrow> {tn_base_id n})"
    unfolding topo_ids_tunnels [OF m(1)] topo_ids_tunnels [OF m(2)] t'(3) using ne
    by (cases nxt) (auto simp: image_def)
  have "mt_id x \<in> set (topo_ids sid t)" using old topo_ids_tunnels [OF m(1)] by simp
  then have "Suc (card (set (topo_ids sid t) - {mt_id x})) = card (set (topo_ids sid t))"
    by (intro card_Suc_Diff1) simp
  then have "card (set (topo_ids sid t')) \<le> card (set (topo_ids sid t))"
    unfolding ids by (cases nxt) (simp_all add: card_insert_if)
  then have "length (tunnels_of sid t') \<le> length (tunnels_of sid t)"
    using tunnels_count(2) m topo_ids_tunnels by metis
  then have "step_keeps sid (mt_id x) t t'" using t'(2,3) by (auto simp: step_keeps_def)
  then show thesis using that t'(1) ids by blast
qed

lemma slot_remove_ok:
  assumes ok: "applied_ok (s_id src) (sr_state r)" and x: "x \<in> set (tunnels_of (s_id src) (sr_state r))"
  shows "\<exists>r'. slot_remove env cl src (mt_mapping x) r = Some r' \<and>
    step_keeps (s_id src) (mt_id x) (sr_state r) (sr_state r') \<and>
    set (topo_ids (s_id src) (sr_state r')) \<subseteq> set (topo_ids (s_id src) (sr_state r)) - {mt_id x}"
proof -
  let ?sid = "s_id src"
  obtain re e w1 where rm: "remove_tunnel cl (mt_mapping x) (sr_world r) = (re, e, w1)" by (metis prod_cases3)
  obtain t' where t': "replace_source_tunnel (dp_lib (se_deps env)) (dp_json (se_deps env)) ?sid (mt_id x) None (sr_state r) = Some t'"
    "step_keeps ?sid (mt_id x) (sr_state r) t'" "set (topo_ids ?sid t') = set (topo_ids ?sid (sr_state r)) - {mt_id x}"
    using replace_keeps [OF ok x, of None] by auto
  have ok': "applied_ok ?sid t'" using t'(2) by (simp add: step_keeps_def)
  have sub: "set (topo_ids ?sid u) \<subseteq> set (topo_ids ?sid (sr_state r)) - {mt_id x}"
    if "applied_ok ?sid u" "tunnels_of ?sid u = tunnels_of ?sid t'" for u
  proof -
    have "set (topo_ids ?sid u) = set (topo_ids ?sid t')"
      using that ok' by (simp add: topo_ids_tunnels applied_ok_def)
    then show ?thesis using t'(3) by auto
  qed
  show ?thesis
    using rm t' applied_mark [OF ok'] applied_reset [OF ok'] sub
    by (cases e) (auto simp: slot_remove_def Let_def step_keeps_def)
qed

lemma slot_replace_ok:
  assumes ok: "applied_ok (s_id src) (sr_state r)" and x: "x \<in> set (tunnels_of (s_id src) (sr_state r))"
    and ranked: "tags_ok ranked" "cand \<in> selection_cand ` set ranked" "cd_tag cand \<notin> set (topo_ids (s_id src) (sr_state r))"
  shows "\<exists>r'. slot_replace env cl c src ranked (mt_mapping x) (cd_tag cand) r = Some r' \<and>
    step_keeps (s_id src) (mt_id x) (sr_state r) (sr_state r') \<and>
    set (topo_ids (s_id src) (sr_state r')) \<subseteq> insert (cd_tag cand) (set (topo_ids (s_id src) (sr_state r)) - {mt_id x})"
proof -
  let ?sid = "s_id src"
  let ?nt = "new_tunnel (entry_or_zero ranked (cd_tag cand)) ?sid (sub_target c) (tn_port (mt_mapping x))"
  obtain re e w1 where rt: "replace_tunnel cl (dp_to_proto (se_deps env)) (dp_in_proto (se_deps env)) (mt_mapping x) ?nt (sr_world r) = (re, e, w1)"
    by (metis prod_cases3)
  have tag: "tn_base_id ?nt = cd_tag cand" using entry_or_zero_tag [OF ranked(1,2)] by simp
  have "cd_tag cand \<noteq> ''''" using ranked(1,2) by (auto simp: tags_ok_def)
  moreover have "tn_port (mt_mapping y) \<noteq> tn_port ?nt"
    if "y \<in> set (tunnels_of ?sid (sr_state r))" "mt_id x = '''' \<or> mt_id y \<noteq> mt_id x" for y
  proof -
    have "y \<noteq> x" using that(2) applied_named [OF ok x] by auto
    then show ?thesis using ok x that(1) by (auto simp: applied_ok_def dest: inj_onD)
  qed
  ultimately have enter: "may_enter ?sid (mt_id x) ?nt (sr_state r)" using tag ranked(3) by (simp add: may_enter_def)
  let ?nxt = "if e = None then Some ?nt else None"
  obtain t' where t': "replace_source_tunnel (dp_lib (se_deps env)) (dp_json (se_deps env)) ?sid (mt_id x) ?nxt (sr_state r) = Some t'"
    "step_keeps ?sid (mt_id x) (sr_state r) t'"
    "set (topo_ids ?sid t') = set (topo_ids ?sid (sr_state r)) - {mt_id x} \<union> (case ?nxt of None \<Rightarrow> {} | Some n \<Rightarrow> {tn_base_id n})"
  proof -
    have en: "may_enter ?sid (mt_id x) n (sr_state r)" if "?nxt = Some n" for n
      using enter that by (auto split: if_splits)
    show thesis by (rule replace_keeps [OF ok x en]) (assumption | rule that)+
  qed
  have ok': "applied_ok ?sid t'" using t'(2) by (simp add: step_keeps_def)
  show ?thesis
  proof (cases e)
    case None
    then show ?thesis using rt t' tag by (auto simp: slot_replace_def Let_def)
  next
    case (Some e1)
    have r': "applied_ok ?sid (reset_source_hashes ?sid t')" by (rule applied_reset [OF ok'])
    then have "set (topo_ids ?sid (reset_source_hashes ?sid t')) = set (topo_ids ?sid t')"
      using ok' by (simp add: topo_ids_tunnels applied_ok_def)
    then show ?thesis using rt t' Some r' by (auto simp: slot_replace_def Let_def step_keeps_def)
  qed
qed

lemma slot_actions_ok:
  assumes "applied_ok (s_id src) (sr_state r)" "tags_ok ranked" "acts_fit (map selection_cand ranked) A acts"
    and "set (topo_ids (s_id src) (sr_state r)) \<subseteq> A" "distinct (map ac_slot acts)" "distinct (map mt_id slots)"
    and "\<forall>a \<in> set acts. ac_slot a < length slots \<and> slots ! ac_slot a \<in> set (tunnels_of (s_id src) (sr_state r))"
  shows "\<exists>r'. slot_actions env cl c src ranked slots acts r = Some r' \<and> applied_ok (s_id src) (sr_state r') \<and>
    length (tunnels_of (s_id src) (sr_state r')) \<le> length (tunnels_of (s_id src) (sr_state r)) \<and>
    set (topo_ids (s_id src) (sr_state r')) \<subseteq> set (topo_ids (s_id src) (sr_state r)) \<union> en_tag ` set ranked \<and>
    (sr_failure r' = None \<longrightarrow> (\<forall>a \<in> set acts. ac_kind a \<noteq> Keep \<longrightarrow>
       mt_id (slots ! ac_slot a) \<notin> set (topo_ids (s_id src) (sr_state r')) - en_tag ` set ranked))"
  using assms
proof (induction acts arbitrary: r A)
  case Nil
  then show ?case by simp
next
  case (Cons a acts)
  let ?sid = "s_id src" and ?x = "slots ! ac_slot a"
  let ?step = "case ac_kind a of Keep \<Rightarrow> Some r | Remove \<Rightarrow> slot_remove env cl src (mt_mapping ?x) r
     | Replace \<Rightarrow> slot_replace env cl c src ranked (mt_mapping ?x) (cd_tag (ac_to a)) r"
  let ?B = "if ac_kind a = Replace then insert (cd_tag (ac_to a)) A else A"
  have x: "?x \<in> set (tunnels_of ?sid (sr_state r))" "ac_slot a < length slots" using Cons.prems(7) by auto
  have fit: "acts_fit (map selection_cand ranked) ?B acts" by (rule acts_fit_tail [OF Cons.prems(3)])
  obtain r1 where r1: "?step = Some r1" "step_keeps ?sid (mt_id ?x) (sr_state r) (sr_state r1)"
    "set (topo_ids ?sid (sr_state r1)) \<subseteq> ?B"
    "set (topo_ids ?sid (sr_state r1)) \<subseteq> set (topo_ids ?sid (sr_state r)) \<union> en_tag ` set ranked"
    "ac_kind a \<noteq> Keep \<Longrightarrow> mt_id ?x \<notin> set (topo_ids ?sid (sr_state r1)) - en_tag ` set ranked"
  proof (cases "ac_kind a")
    case Keep
    then show thesis using that [of r] Cons.prems(1,4) by (simp add: step_keeps_def)
  next
    case Remove
    then show thesis using that slot_remove_ok [OF Cons.prems(1) x(1), of env cl] Cons.prems(4) by auto
  next
    case Replace
    have to: "ac_to a \<in> selection_cand ` set ranked" "cd_tag (ac_to a) \<notin> set (topo_ids ?sid (sr_state r))"
      using Cons.prems(3,4) Replace by (auto simp: acts_fit_def)
    have tag: "cd_tag (ac_to a) \<in> en_tag ` set ranked" using to(1) Cons.prems(2) by (auto simp: tags_ok_def)
    from slot_replace_ok [OF Cons.prems(1) x(1) Cons.prems(2) to, of env cl c] obtain r1 where
      step: "slot_replace env cl c src ranked (mt_mapping ?x) (cd_tag (ac_to a)) r = Some r1"
        "step_keeps ?sid (mt_id ?x) (sr_state r) (sr_state r1)"
      and ids: "set (topo_ids ?sid (sr_state r1)) \<subseteq> insert (cd_tag (ac_to a)) (set (topo_ids ?sid (sr_state r)) - {mt_id ?x})"
      by blast
    show thesis
    proof (rule that [of r1])
      show "set (topo_ids ?sid (sr_state r1)) \<subseteq> ?B" using ids Cons.prems(4) Replace by auto
      show "set (topo_ids ?sid (sr_state r1)) \<subseteq> set (topo_ids ?sid (sr_state r)) \<union> en_tag ` set ranked" using ids tag by auto
      show "mt_id ?x \<notin> set (topo_ids ?sid (sr_state r1)) - en_tag ` set ranked" using ids tag by auto
    qed (use step Replace in simp_all)
  qed
  have keep: "\<forall>b \<in> set acts. ac_slot b < length slots \<and> slots ! ac_slot b \<in> set (tunnels_of ?sid (sr_state r1))"
  proof
    fix b assume b: "b \<in> set acts"
    then have "ac_slot b \<noteq> ac_slot a" using Cons.prems(5) by (auto simp: image_iff)
    moreover have "ac_slot b < length slots" using Cons.prems(7) b by simp
    ultimately have "mt_id (slots ! ac_slot b) \<noteq> mt_id ?x"
      using Cons.prems(6) x(2) by (metis (no_types, lifting) length_map nth_eq_iff_index_eq nth_map)
    then show "ac_slot b < length slots \<and> slots ! ac_slot b \<in> set (tunnels_of ?sid (sr_state r1))"
      using r1(2) Cons.prems(7) b by (auto simp: step_keeps_def)
  qed
  have ok1: "applied_ok ?sid (sr_state r1)" using r1(2) by (simp add: step_keeps_def)
  have "distinct (map ac_slot acts)" using Cons.prems(5) by simp
  from Cons.IH [OF ok1 Cons.prems(2) fit r1(3) this Cons.prems(6) keep]
  obtain r' where r': "slot_actions env cl c src ranked slots acts r1 = Some r'" "applied_ok ?sid (sr_state r')"
    "length (tunnels_of ?sid (sr_state r')) \<le> length (tunnels_of ?sid (sr_state r1))"
    "set (topo_ids ?sid (sr_state r')) \<subseteq> set (topo_ids ?sid (sr_state r1)) \<union> en_tag ` set ranked"
    "sr_failure r' = None \<Longrightarrow> b \<in> set acts \<Longrightarrow> ac_kind b \<noteq> Keep \<Longrightarrow>
       mt_id (slots ! ac_slot b) \<notin> set (topo_ids ?sid (sr_state r')) - en_tag ` set ranked" for b
    by (elim exE conjE) (rule that; blast)
  have sub: "set (topo_ids ?sid (sr_state r')) \<subseteq> set (topo_ids ?sid (sr_state r)) \<union> en_tag ` set ranked"
    using r'(4) r1(4) by blast
  have left: "mt_id (slots ! ac_slot b) \<notin> set (topo_ids ?sid (sr_state r')) - en_tag ` set ranked"
    if "sr_failure r' = None" "b \<in> set (a # acts)" "ac_kind b \<noteq> Keep" for b
    using that r'(4) r'(5) [of b] r1(5) by (cases "b = a") auto
  show ?case
  proof (cases "sr_failure r = None")
    case True
    then have "slot_actions env cl c src ranked slots (a # acts) r = Some r'"
      using r1(1) r'(1) x(2) by (simp add: Let_def)
    moreover have "length (tunnels_of ?sid (sr_state r')) \<le> length (tunnels_of ?sid (sr_state r))"
      using r'(3) r1(2) by (simp add: step_keeps_def)
    ultimately show ?thesis using r'(2) sub left by blast
  next
    case False
    then show ?thesis using Cons.prems(1) by auto
  qed
qed

section \<open>Lemmas: filling the empty slots\<close>

lemma free_port_lowest:
  "p \<le> free_port p ports \<and> free_port p ports \<notin> set ports \<and> (\<forall>q. p \<le> q \<and> q < free_port p ports \<longrightarrow> q \<in> set ports)"
proof (induction p ports rule: free_port.induct)
  case (1 p ports)
  show ?case
  proof (cases "p \<in> set ports")
    case True
    have "q \<in> set ports" if "p \<le> q" "q < free_port (p + 1) ports" for q
      using 1 [OF True] True that by (cases "q = p") auto
    then show ?thesis using 1 [OF True] True by (simp add: free_port.simps [of p])
  next
    case False
    then show ?thesis by (auto simp: free_port.simps [of p])
  qed
qed

lemma free_port_bound: "free_port p ports \<le> p + int (length ports)"
proof -
  have "{p..<free_port p ports} \<subseteq> set ports" using free_port_lowest by auto
  then have "card {p..<free_port p ports} \<le> card (set ports)" by (intro card_mono) simp_all
  also have "\<dots> \<le> length ports" by (rule card_length)
  finally show ?thesis by simp
qed

text \<open>What a round of \<open>fill\<close> finds: a candidate that may take a slot, and a port.\<close>

lemma fill_next_Some:
  assumes ok: "applied_ok (s_id src) t" and tags: "tags_ok ranked"
    and nxt: "fill_next src ranked sel now t = Some (Some (cand, in_use, port))" and pr: "s_ports src = Some pr"
    and nt_def: "nt = new_tunnel (entry_or_zero ranked (cd_tag cand)) (s_id src) tgt port"
  shows "may_enter (s_id src) '''' nt t" "int (length (tunnels_of (s_id src) t)) < s_max_active src"
    "pr_start pr \<le> port" "port < pr_start pr + s_max_active src"
    "cand \<in> selection_cand ` set ranked" "\<not> quarantined sel cand now"
proof -
  let ?mine = "map mt_mapping (tunnels_of (s_id src) t)"
  have m: "mon_ok t" using ok by (simp add: applied_ok_def)
  have use: "tn_base_id ` set ?mine = set (topo_ids (s_id src) t)"
    unfolding topo_ids_tunnels [OF m] by (simp add: image_comp comp_def)
  have n: "length (tunnels_of (s_id src) t) = card (tn_base_id ` set ?mine)"
    unfolding use topo_ids_tunnels [OF m] by (rule tunnels_count(2) [OF m])
  obtain keys where rep: "replacement (map selection_cand ranked) (tn_base_id ` set ?mine) keys sel now = Some cand"
    and port: "port = free_port (pr_start pr) (map tn_port ?mine)"
    and few: "int (card (tn_base_id ` set ?mine)) < s_max_active src"
    using nxt pr by (auto simp: fill_next_def Let_def not_le split: if_splits option.splits)
  note c = replacement_Some [OF rep]
  show "cand \<in> selection_cand ` set ranked" "\<not> quarantined sel cand now" using c by simp_all
  then have tag: "tn_base_id nt = cd_tag cand" using entry_or_zero_tag [OF tags] by (simp add: nt_def)
  have "cd_tag cand \<noteq> ''''" using c tags by (auto simp: tags_ok_def)
  moreover have "tn_port (mt_mapping x) \<noteq> port" if "x \<in> set (tunnels_of (s_id src) t)" for x
  proof -
    have "tn_port (mt_mapping x) \<in> set (map tn_port ?mine)" using that by auto
    moreover have "port \<notin> set (map tn_port ?mine)" unfolding port using free_port_lowest by blast
    ultimately show ?thesis by metis
  qed
  ultimately show "may_enter (s_id src) '''' nt t"
    using c tag use by (auto simp: may_enter_def nt_def)
  show "int (length (tunnels_of (s_id src) t)) < s_max_active src" using few n by simp
  then show "pr_start pr \<le> port" "port < pr_start pr + s_max_active src"
    using free_port_lowest [of "pr_start pr" "map tn_port ?mine"] free_port_bound [of "pr_start pr" "map tn_port ?mine"] port
    by auto
qed

lemma fill_next_ends:
  "s_ports src \<noteq> None \<Longrightarrow> fill_next src ranked sel now t \<noteq> None"
  by (auto simp: fill_next_def Let_def split: option.split)

lemma filled_ok:
  assumes ok: "applied_ok sid t" and enter: "may_enter sid '''' nt t"
  shows "\<exists>t'. filled env sid nt in_use t = Some t' \<and> applied_ok sid t' \<and>
    length (tunnels_of sid t') = Suc (length (tunnels_of sid t)) \<and>
    set (tunnels_of sid t') = insert (idle_tunnel sid nt) (set (tunnels_of sid t))"
proof -
  obtain t1 where t1: "replace_source_tunnel (dp_lib (se_deps env)) (dp_json (se_deps env)) sid '''' (Some nt) t = Some t1"
    "applied_ok sid t1"
    "set (tunnels_of sid t1) = insert (idle_tunnel sid nt) (set (tunnels_of sid t))"
  proof -
    have en: "may_enter sid '''' n t" if "Some nt = Some n" for n using enter that by simp
    show thesis by (rule replace_applied [OF ok en]) (assumption | rule that | simp)+
  qed
  obtain st where st: "map_of (ts_sources t1) sid = Some st" using t1(2) by (auto simp: applied_ok_def)
  let ?t = "t1\<lparr>ts_sources := AList.update sid
       (st\<lparr>so_no_replacement := drop_no_replacement (se_order env) (tn_base_id nt) in_use (so_no_replacement st)\<rparr>)
       (ts_sources t1)\<rparr>"
  have f: "filled env sid nt in_use t = Some ?t" using t1(1) st by (simp add: filled_def Let_def)
  have ok': "applied_ok sid ?t" using applied_cands [OF t1(2) st] by (intro applied_update [OF t1(2) st]) simp_all
  have set1: "set (tunnels_of sid ?t) = insert (idle_tunnel sid nt) (set (tunnels_of sid t))" using t1(3) by simp
  have m: "mon_ok t" "mon_ok ?t" using ok ok' by (simp_all add: applied_ok_def)
  have new: "tn_base_id nt \<notin> mt_id ` set (tunnels_of sid t)"
    using enter topo_ids_tunnels [OF m(1), of sid] by (simp add: may_enter_def)
  have "card (mt_id ` set (tunnels_of sid ?t)) = Suc (card (mt_id ` set (tunnels_of sid t)))"
    unfolding set1 using new by simp
  then have "length (tunnels_of sid ?t) = Suc (length (tunnels_of sid t))"
    using tunnels_count(2) [OF m(1), of sid] tunnels_count(2) [OF m(2), of sid] by simp
  then show ?thesis using f ok' set1 by blast
qed

text \<open>\<open>fill\<close> ends: it fails, or no candidate may take a slot.\<close>

lemma fill_slots_ok:
  assumes "applied_ok (s_id src) (sr_state r)" "tags_ok ranked" "s_ports src = Some pr"
    and "s_max_active src \<le> int (length (tunnels_of (s_id src) (sr_state r))) + int n"
  shows "\<exists>r' new. fill_slots env cl c src ranked sel now n r = Some r' \<and> applied_ok (s_id src) (sr_state r') \<and>
    int (length (tunnels_of (s_id src) (sr_state r'))) \<le>
      max (s_max_active src) (int (length (tunnels_of (s_id src) (sr_state r)))) \<and>
    sr_added r' = sr_added r @ new \<and>
    (\<forall>tn \<in> set new. pr_start pr \<le> tn_port tn \<and> tn_port tn < pr_start pr + s_max_active src) \<and>
    (sr_failure r' = None \<longrightarrow> fill_next src ranked sel now (sr_state r') = Some None) \<and>
    set (topo_ids (s_id src) (sr_state r')) \<subseteq> set (topo_ids (s_id src) (sr_state r)) \<union> en_tag ` set ranked"
  using assms
proof (induction n arbitrary: r)
  case 0
  obtain x where x: "fill_next src ranked sel now (sr_state r) = Some x"
    using fill_next_ends [of src ranked sel now "sr_state r"] "0.prems"(3) by auto
  have "x = None"
  proof (cases x)
    case (Some y)
    obtain cand in_use port where "y = (cand, in_use, port)" by (metis prod_cases3)
    then show ?thesis
      using fill_next_Some(2) [OF "0.prems"(1,2) _ "0.prems"(3) refl] x Some "0.prems"(4) by fastforce
  qed
  then have "fill_next src ranked sel now (sr_state r) = Some None" using x by simp
  then show ?case using "0.prems"(1) by (simp add: fill_slots.simps)
next
  case (Suc n)
  let ?sid = "s_id src"
  consider (stop) "fill_next src ranked sel now (sr_state r) = Some None"
    | (go) cand in_use port where "fill_next src ranked sel now (sr_state r) = Some (Some (cand, in_use, port))"
    using fill_next_ends [of src ranked sel now "sr_state r"] Suc.prems(3) by fastforce
  then show ?case
  proof cases
    case stop
    then show ?thesis using Suc.prems(1) by (simp add: fill_slots.simps)
  next
    case go
    note f = fill_next_Some [OF Suc.prems(1,2) go Suc.prems(3), where tgt = "sub_target c", OF refl]
    let ?nt = "new_tunnel (entry_or_zero ranked (cd_tag cand)) ?sid (sub_target c) port"
    obtain x w1 where add: "add_tunnel cl (dp_to_proto (se_deps env)) (dp_in_proto (se_deps env)) ?nt (sr_world r) = (x, w1)"
      by fastforce
    show ?thesis
    proof (cases x)
      case (Some e)
      have r': "applied_ok ?sid (reset_source_hashes ?sid (sr_state r))" by (rule applied_reset [OF Suc.prems(1)])
      then have "set (topo_ids ?sid (reset_source_hashes ?sid (sr_state r))) = set (topo_ids ?sid (sr_state r))"
        using Suc.prems(1) by (simp add: topo_ids_tunnels applied_ok_def)
      then show ?thesis using go add r' Some by (simp add: fill_slots.simps Let_def)
    next
      case None
      obtain t1 where t1: "filled env ?sid ?nt in_use (sr_state r) = Some t1" "applied_ok ?sid t1"
        "length (tunnels_of ?sid t1) = Suc (length (tunnels_of ?sid (sr_state r)))"
        "set (tunnels_of ?sid t1) = insert (idle_tunnel ?sid ?nt) (set (tunnels_of ?sid (sr_state r)))"
        using filled_ok [OF Suc.prems(1) f(1)] by blast
      let ?r1 = "r\<lparr>sr_state := t1, sr_world := w1, sr_added := sr_added r @ [?nt]\<rparr>"
      have "s_max_active src \<le> int (length (tunnels_of ?sid (sr_state ?r1))) + int n" using Suc.prems(4) t1(3) by simp
      from Suc.IH [OF _ Suc.prems(2,3) this] t1(2)
      obtain r' new where r': "fill_slots env cl c src ranked sel now n ?r1 = Some r'" "applied_ok ?sid (sr_state r')"
        "int (length (tunnels_of ?sid (sr_state r'))) \<le> max (s_max_active src) (int (length (tunnels_of ?sid t1)))"
        "sr_added r' = sr_added r @ ?nt # new"
        "\<forall>tn \<in> set new. pr_start pr \<le> tn_port tn \<and> tn_port tn < pr_start pr + s_max_active src"
        "sr_failure r' = None \<longrightarrow> fill_next src ranked sel now (sr_state r') = Some None"
        "set (topo_ids ?sid (sr_state r')) \<subseteq> set (topo_ids ?sid t1) \<union> en_tag ` set ranked"
        by auto
      have "mon_ok t1" "mon_ok (sr_state r)" using t1(2) Suc.prems(1) by (simp_all add: applied_ok_def)
      then have "set (topo_ids ?sid t1) = insert (tn_base_id ?nt) (set (topo_ids ?sid (sr_state r)))"
        using t1(4) by (simp add: topo_ids_tunnels)
      moreover have "tn_base_id ?nt \<in> en_tag ` set ranked"
        using entry_or_zero_tag [OF Suc.prems(2) f(5)] f(5) Suc.prems(2) by (auto simp: tags_ok_def)
      ultimately have sub: "set (topo_ids ?sid (sr_state r')) \<subseteq> set (topo_ids ?sid (sr_state r)) \<union> en_tag ` set ranked"
        using r'(7) by auto
      have "fill_slots env cl c src ranked sel now (Suc n) r = Some r'"
        using go add None t1(1) r'(1) by (simp add: fill_slots.simps [of _ _ _ _ _ _ _ "Suc n"] Let_def)
      moreover have "int (length (tunnels_of ?sid (sr_state r'))) \<le>
          max (s_max_active src) (int (length (tunnels_of ?sid (sr_state r))))"
        using r'(3) t1(3) f(2) by linarith
      moreover have "\<forall>tn \<in> set (?nt # new). pr_start pr \<le> tn_port tn \<and> tn_port tn < pr_start pr + s_max_active src"
        using r'(5) f(3,4) by simp
      ultimately show ?thesis using r'(2,4,6) sub by (intro exI [of _ r'] exI [of _ "?nt # new"] conjI)
    qed
  qed
qed

section \<open>Lemmas: the sync of a candidate source\<close>

text \<open>A source that is applied, or was never.\<close>

definition source_ok :: "string \<Rightarrow> target_state \<Rightarrow> bool" where
  "source_ok sid t \<longleftrightarrow> mon_ok t \<and> (map_of (ts_sources t) sid \<noteq> None \<longrightarrow> applied_ok sid t)"

text \<open>The tunnels of a source after a sync are at most these many.\<close>

definition at_most :: "source \<Rightarrow> target_state \<Rightarrow> target_state \<Rightarrow> bool" where
  "at_most src t t' \<longleftrightarrow> int (length (tunnels_of (s_id src) t')) \<le>
     max (s_max_active src) (int (length (tunnels_of (s_id src) t)))"

text \<open>
  The tunnels of a source after a sync are of the file (\<open>E\<close> are its tags) or were there before; after a
  sync without a failure all of them are of the file.
\<close>

definition of_file :: "source \<Rightarrow> string set \<Rightarrow> bool \<Rightarrow> target_state \<Rightarrow> target_state \<Rightarrow> bool" where
  "of_file src E failed t t' \<longleftrightarrow>
     mt_id ` set (tunnels_of (s_id src) t') \<subseteq> E \<union> mt_id ` set (tunnels_of (s_id src) t) \<and>
     (\<not> failed \<longrightarrow> mt_id ` set (tunnels_of (s_id src) t') \<subseteq> E)"

lemma of_file_same: "tunnels_of (s_id src) t' = tunnels_of (s_id src) t \<Longrightarrow> of_file src E True t t'"
  by (simp add: of_file_def)

lemma failed_reports:
  "k \<in> set ks \<Longrightarrow> 0 < ar_failed (f k) \<Longrightarrow> tp_failed (new_target_report c sid u (map f ks) sk) \<noteq> 0"
  by (auto simp: new_target_report_def)

lemma failed_report_pos: "0 < ar_failed (failed_report k m now skipped e)"
  by (simp add: failed_report_def add_item_def)

lemma slot_report_failed: "0 < ar_failed (slot_report m now gone fresh i (Some e) KOutbound)"
  by (simp add: slot_report_def note_failed_def add_item_def Let_def)

lemma outbounds_enabled: "res_outbounds r \<Longrightarrow> KOutbound \<in> set (enabled_kinds r)"
  by (simp add: enabled_kinds_def)

lemma known_cand_tag:
  assumes "\<forall>e \<in> set es. cd_tag (selection_cand e) = en_tag e" "known_cand es tag = Some c"
  shows "cd_tag c = tag"
  using assms entry_with_Some [of es tag] by (auto simp: known_cand_def)

lemma wg_slot_tag:
  assumes "\<forall>e \<in> set es. cd_tag (selection_cand e) = en_tag e" "\<forall>e \<in> set ranked. cd_tag (selection_cand e) = en_tag e"
  shows "cd_tag (sl_cand (wg_slot es ranked tn)) = mt_id tn"
proof -
  have all1: "\<forall>e \<in> set (es @ ranked). cd_tag (selection_cand e) = en_tag e" using assms by auto
  show ?thesis using known_cand_tag [OF all1] by (simp add: wg_slot_def split: option.split)
qed

lemma store_candidates_ok:
  assumes "applied_ok sid t" "tags_ok ranked"
  shows "applied_ok sid (store_candidates sid sel ranked t)" "tunnels_of s (store_candidates sid sel ranked t) = tunnels_of s t"
proof -
  obtain st where st: "map_of (ts_sources t) sid = Some st" using assms(1) by (auto simp: applied_ok_def)
  show "applied_ok sid (store_candidates sid sel ranked t)"
    using applied_update [OF assms(1) st, of "st\<lparr>so_selection := sel, so_candidates := ranked\<rparr>"] st assms(2)
    by (simp add: store_candidates_def tags_ok_def)
  show "tunnels_of s (store_candidates sid sel ranked t) = tunnels_of s t" using st by (simp add: store_candidates_def)
qed

lemma wg_decide_ok:
  assumes ok: "applied_ok (s_id src) t" and ranked: "tags_ok ranked" and cfg: "s_selection src = Some cfg"
    and pr: "s_ports src = Some pr" and before1: "\<forall>e \<in> set before1. cd_tag (selection_cand e) = en_tag e"
  shows "\<exists>rep t' w'. wg_decide env cl c src before1 ranked sel now skipped (tunnels_of (s_id src) t) t w = Some (rep, t', w') \<and>
    applied_ok (s_id src) t' \<and> at_most src t t' \<and>
    of_file src (en_tag ` set ranked) (tp_failed rep \<noteq> 0 \<or> \<not> res_outbounds (se_res env)) t t'"
proof -
  let ?sid = "s_id src" and ?slots = "tunnels_of (s_id src) t"
  let ?active = "map (wg_slot before1 ranked) ?slots"
  let ?r = "\<lparr>sr_state = t, sr_world = w, sr_removed = [], sr_added = [], sr_failure = None\<rparr>"
  have m: "mon_ok t" using ok by (simp add: applied_ok_def)
  obtain acts sel1 where d: "decide (se_round env) ?active (map selection_cand ranked) sel now cfg = (acts, sel1)" by fastforce
  have "cd_tag \<circ> sl_cand \<circ> wg_slot before1 ranked = (\<lambda>x. mt_id x)"
    using wg_slot_tag before1 ranked by (auto simp: tags_ok_def)
  then have A: "(cd_tag \<circ> sl_cand) ` set ?active = set (topo_ids ?sid t)"
    unfolding topo_ids_tunnels [OF m] by (metis image_comp list.set_map)
  note fit = decide_acts_fit [OF d, unfolded A length_map]
  have in1: "\<forall>a \<in> set acts. ac_slot a < length ?slots \<and> ?slots ! ac_slot a \<in> set (tunnels_of ?sid (sr_state ?r))"
  proof
    fix a assume "a \<in> set acts"
    then have "ac_slot a \<in> set (map ac_slot acts)" by simp
    then have "ac_slot a < length ?slots" unfolding fit(2) by simp
    then show "ac_slot a < length ?slots \<and> ?slots ! ac_slot a \<in> set (tunnels_of ?sid (sr_state ?r))" by simp
  qed
  obtain r1 where r1: "slot_actions env cl c src ranked ?slots acts ?r = Some r1" "applied_ok ?sid (sr_state r1)"
    "length (tunnels_of ?sid (sr_state r1)) \<le> length ?slots"
    "set (topo_ids ?sid (sr_state r1)) \<subseteq> set (topo_ids ?sid t) \<union> en_tag ` set ranked"
    "sr_failure r1 = None \<Longrightarrow> a \<in> set acts \<Longrightarrow> ac_kind a \<noteq> Keep \<Longrightarrow>
       mt_id (?slots ! ac_slot a) \<notin> set (topo_ids ?sid (sr_state r1)) - en_tag ` set ranked" for a
    using slot_actions_ok [where r = ?r, OF _ ranked fit(1) _ _ tunnels_distinct [OF m] in1, of env cl c] ok fit(2) by auto
  have clean: "set (topo_ids ?sid (sr_state r1)) \<subseteq> en_tag ` set ranked" if "sr_failure r1 = None"
  proof
    fix i assume i: "i \<in> set (topo_ids ?sid (sr_state r1))"
    show "i \<in> en_tag ` set ranked"
    proof (rule ccontr)
      assume no: "i \<notin> en_tag ` set ranked"
      then have "i \<in> set (topo_ids ?sid t)" using i r1(4) by blast
      then have "i \<in> mt_id ` set ?slots" using topo_ids_tunnels [OF m] by blast
      then obtain j where j: "j < length ?slots" "mt_id (?slots ! j) = i" by (auto simp: in_set_conv_nth)
      then have "j \<in> set (map ac_slot acts)" unfolding fit(2) by simp
      then obtain a where a: "a \<in> set acts" "ac_slot a = j" by auto
      have keep: "ac_kind a = Keep" using r1(5) [OF that a(1)] a(2) j(2) i no by auto
      have "present (map selection_cand ranked) (?active ! j)" using decide_keeps_present [OF d a(1) keep] a(2) by simp
      moreover have "cd_tag (sl_cand (?active ! j)) = i"
        using j wg_slot_tag [of before1 ranked "?slots ! j"] before1 ranked by (simp add: tags_ok_def)
      ultimately show False using no ranked by (auto simp: present_def tags_ok_def)
    qed
  qed
  obtain r2 where r2: "(if sr_failure r1 = None
      then fill_slots env cl c src ranked sel1 now (nat (s_max_active src)) r1 else Some r1) = Some r2"
    "applied_ok ?sid (sr_state r2)"
    "int (length (tunnels_of ?sid (sr_state r2))) \<le> max (s_max_active src) (int (length ?slots))"
    "set (topo_ids ?sid (sr_state r2)) \<subseteq> set (topo_ids ?sid (sr_state r1)) \<union> en_tag ` set ranked"
    "sr_failure r2 = None \<Longrightarrow> sr_failure r1 = None"
  proof (cases "sr_failure r1 = None")
    case True
    have "s_max_active src \<le> int (length (tunnels_of ?sid (sr_state r1))) + int (nat (s_max_active src))" by simp
    from fill_slots_ok [OF r1(2) ranked pr this, of env cl c sel1 now] r1(3) True
    show thesis using that by fastforce
  next
    case False
    show thesis by (rule that [OF if_not_P [OF False] r1(2)]) (use r1(3) in \<open>linarith | simp\<close>)+
  qed
  let ?t' = "store_candidates ?sid sel1 ranked (sr_state r2)"
  have t': "applied_ok ?sid ?t'" "at_most src t ?t'"
    using store_candidates_ok [OF r2(2) ranked] r2(3) by (simp_all add: at_most_def)
  obtain rep where rep: "wg_decide env cl c src before1 ranked sel now skipped ?slots t w = Some (rep, ?t', sr_world r2)"
    "sr_failure r2 \<noteq> None \<Longrightarrow> res_outbounds (se_res env) \<Longrightarrow> tp_failed rep \<noteq> 0"
  proof (cases "sr_failure r2")
    case None
    then have "\<exists>rep. wg_decide env cl c src before1 ranked sel now skipped ?slots t w = Some (rep, ?t', sr_world r2)"
      unfolding wg_decide_def cfg option.case d Let_def prod.case r1(1) r2(1) by (simp add: case_prod_beta)
    then show thesis using that None by blast
  next
    case (Some f)
    obtain i e where f: "f = (i, e)" by fastforce
    have rep: "wg_decide env cl c src before1 ranked sel now skipped ?slots t w = Some (new_target_report c ?sid []
        (map (slot_report (sync_meta c ?sid) (dp_now (se_deps env) (sr_world r2)) (sr_removed r2) (sr_added r2) i (Some e))
          (enabled_kinds (se_res env))) skipped, ?t', sr_world r2)"
      unfolding wg_decide_def cfg option.case d Let_def prod.case r1(1) r2(1) using Some f by (simp add: slot_reports_def)
    show thesis by (rule that [OF rep]) (rule failed_reports [where k = KOutbound], erule outbounds_enabled, rule slot_report_failed)
  qed
  have m2: "mon_ok (sr_state r2)" using r2(2) by (simp add: applied_ok_def)
  have ids: "mt_id ` set (tunnels_of ?sid ?t') = set (topo_ids ?sid (sr_state r2))"
    using store_candidates_ok(2) [OF r2(2) ranked] topo_ids_tunnels [OF m2] by metis
  have "of_file src (en_tag ` set ranked) (tp_failed rep \<noteq> 0 \<or> \<not> res_outbounds (se_res env)) t ?t'"
    unfolding of_file_def ids
  proof (intro conjI impI)
    show "set (topo_ids ?sid (sr_state r2)) \<subseteq> en_tag ` set ranked \<union> mt_id ` set ?slots"
      using r2(4) r1(4) topo_ids_tunnels [OF m, of ?sid] by auto
    assume "\<not> (tp_failed rep \<noteq> 0 \<or> \<not> res_outbounds (se_res env))"
    then have "sr_failure r1 = None" using rep(2) r2(5) by blast
    then show "set (topo_ids ?sid (sr_state r2)) \<subseteq> en_tag ` set ranked" using clean r2(4) by blast
  qed
  then show ?thesis using rep(1) t' by blast
qed

lemma full_topology_ok:
  assumes m: "mon_ok t" and ids: "distinct (map tn_base_id topo)" "'''' \<notin> tn_base_id ` set topo" "distinct (map tn_port topo)"
  shows "applied_ok sid (replace_source_topology sid topo hashes t)"
    "length (tunnels_of sid (replace_source_topology sid topo hashes t)) = length topo"
    "mt_id ` set (tunnels_of sid (replace_source_topology sid topo hashes t)) = tn_base_id ` set topo"
proof -
  let ?t = "replace_source_topology sid topo hashes t"
  define topo1 where "topo1 = map (\<lambda>tn. tn\<lparr>tn_source := sid\<rparr>) topo"
  obtain src old where r: "?t = replace_tunnels sid (map (fresh_tunnel old) topo1)
        (t\<lparr>ts_sync_seen := True, ts_sources := AList.update sid src (ts_sources t)\<rparr>)"
    and src: "so_topology src = Some topo1" "so_candidates src = []"
    by (simp add: replace_source_topology_def topo1_def Let_def new_source_def split: option.splits)
  have s: "state_ok ?t" using replace_source_topology_ok [OF _ ids(1)] m by (simp add: mon_ok_def)
  have "cands_of s ?t = (if s = sid then [] else cands_of s t)" for s
    unfolding r using src by (simp add: cands_of_def replace_tunnels_def)
  then have m': "mon_ok ?t" using s m by (simp add: mon_ok_def)
  have tns: "tunnels_of sid ?t = map (fresh_tunnel old) topo1"
    unfolding r by (subst tunnels_of_replace) (auto simp: topo1_def)
  have st: "map_of (ts_sources ?t) sid = Some src" unfolding r by (simp add: replace_tunnels_def)
  show names: "mt_id ` set (tunnels_of sid ?t) = tn_base_id ` set topo" unfolding tns topo1_def by (force simp: image_comp)
  have "'''' \<notin> set (topo_ids sid ?t)" using ids(2) names topo_ids_tunnels [OF m', of sid] by simp
  moreover have "distinct (map (\<lambda>x. tn_port (mt_mapping x)) (tunnels_of sid ?t))"
    unfolding tns topo1_def using ids(3) by (simp add: comp_def)
  then have "inj_on (\<lambda>x. tn_port (mt_mapping x)) (set (tunnels_of sid ?t))" by (simp add: distinct_map)
  ultimately show "applied_ok sid ?t" using m' st src(1) by (auto simp: applied_ok_def)
  show "length (tunnels_of sid ?t) = length topo" unfolding tns topo1_def by simp
qed

definition manifest_ok :: "manifest \<Rightarrow> bool" where
  "manifest_ok m \<longleftrightarrow> distinct (map en_tag (mf_entries m)) \<and> tags_ok (mf_entries m)"

text \<open>What a configured candidate source has.\<close>

definition candidate_source :: "source \<Rightarrow> bool" where
  "candidate_source src \<longleftrightarrow> candidate_type (s_type src) \<and> s_selection src \<noteq> None \<and> s_ports src \<noteq> None \<and> 0 \<le> s_max_active src"

lemma build_source_candidate:
  assumes src: "candidate_source src" and es: "distinct (map en_tag es)" "tags_ok es"
    and topo_def: "topo = fst (build_source es src tgt)"
  shows "distinct (map tn_base_id topo)" "'''' \<notin> tn_base_id ` set topo" "distinct (map tn_port topo)"
    "int (length topo) \<le> s_max_active src" "tn_base_id ` set topo \<subseteq> en_tag ` set es"
proof -
  have mx: "0 \<le> s_max_active src" using src by (simp add: candidate_source_def)
  show "distinct (map tn_base_id topo)" unfolding topo_def by (rule build_source_distinct [OF es(1) mx])
  obtain pr where pr: "s_ports src = Some pr" using src by (auto simp: candidate_source_def)
  have "'''' \<notin> tn_base_id ` set topo \<and> distinct (map tn_port topo) \<and> int (length topo) \<le> s_max_active src \<and>
      tn_base_id ` set topo \<subseteq> en_tag ` set es"
  proof (cases "t_inbound_socks tgt")
    case None
    then show ?thesis using mx by (simp add: topo_def build_source_None)
  next
    case (Some l)
    note b = build_source_nth [OF Some pr, of _ es] and n = build_source_length [OF Some pr, of es]
    have sub: "set (fst (source_entries es src pr)) \<subseteq> set es" by (rule source_entries_subset [OF mx])
    have "tn_base_id tn \<noteq> '''' \<and> tn_base_id tn \<in> en_tag ` set es" if tn: "tn \<in> set topo" for tn
    proof -
      obtain i where i: "i < length topo" "tn = topo ! i"
        using tn by (metis in_set_conv_nth)
      then have "tn_base_id tn = en_tag (fst (source_entries es src pr) ! i)" using b [of i] by (simp only: topo_def new_tunnel_sel)
      moreover have "fst (source_entries es src pr) ! i \<in> set es" using i n sub by (metis nth_mem subsetD topo_def)
      ultimately show ?thesis using es(2) by (simp add: tags_ok_def)
    qed
    moreover have ports: "map tn_port topo = map (\<lambda>i. pr_start pr + int i) [0..<length topo]"
    proof (rule nth_equalityI)
      fix i assume "i < length (map tn_port topo)"
      then have i: "i < length topo" by simp
      then have "tn_port (topo ! i) = pr_start pr + int i" using b [of i] by (simp only: topo_def new_tunnel_sel)
      then show "map tn_port topo ! i = map (\<lambda>i. pr_start pr + int i) [0..<length topo] ! i" using i by simp
    qed simp
    have "distinct (map tn_port topo)" unfolding ports by (simp add: distinct_map inj_on_def)
    moreover have "int (length topo) \<le> s_max_active src"
      using src n pick_length [OF mx] by (auto simp: topo_def source_entries_def candidate_source_def)
    ultimately show ?thesis by (intro conjI) (metis (no_types, lifting) imageE, blast+)
  qed
  then show "'''' \<notin> tn_base_id ` set topo" "distinct (map tn_port topo)" "int (length topo) \<le> s_max_active src"
    "tn_base_id ` set topo \<subseteq> en_tag ` set es" by auto
qed

lemma applied_plain:
  assumes "ts_tunnels t' = ts_tunnels t" "ts_sources t' = ts_sources t"
  shows "mon_ok t' = mon_ok t" "applied_ok sid t' = applied_ok sid t" "source_ok sid t' = source_ok sid t"
    "tunnels_of s t' = tunnels_of s t"
proof -
  have tns: "tunnels_of s t' = tunnels_of s t" and ids: "topo_ids s t' = topo_ids s t" and cs: "cands_of s t' = cands_of s t" for s
    using assms by (simp_all add: tunnels_of_def topo_ids_def cands_of_def)
  then show "mon_ok t' = mon_ok t" "tunnels_of s t' = tunnels_of s t" by (simp_all add: mon_ok_def state_ok_def assms(1))
  then show "applied_ok sid t' = applied_ok sid t" by (simp add: applied_ok_def tns ids assms(2))
  then show "source_ok sid t' = source_ok sid t" using \<open>mon_ok t' = mon_ok t\<close> by (simp add: source_ok_def assms(2))
qed

lemma log_drift_plain [simp]: "ts_tunnels (log_drift sid now t) = ts_tunnels t" "ts_sources (log_drift sid now t) = ts_sources t"
  by (simp_all add: log_drift_def set_state_lost_def Let_def)

lemma drop_tunnels_ok:
  assumes m: "mon_ok t" and st: "map_of (ts_sources t) sid = Some st"
  shows "applied_ok sid (drop_source_tunnels sid t)" "tunnels_of sid (drop_source_tunnels sid t) = []"
proof -
  let ?t = "drop_source_tunnels sid t"
  let ?st = "st\<lparr>so_topology := Some [], so_hashes := []\<rparr>"
  let ?u = "t\<lparr>ts_sources := AList.update sid ?st (ts_sources t)\<rparr>"
  have r: "?t = replace_tunnels sid [] ?u" using st by (simp add: drop_source_tunnels_def)
  have s: "state_ok t" and cs: "\<forall>s. \<forall>e \<in> set (cands_of s t). cd_tag (selection_cand e) = en_tag e"
    using m by (simp_all add: mon_ok_def)
  have "state_ok ?t"
    unfolding r using state_okD [OF s]
    by (intro replace_tunnels_ok) (auto simp: topo_ids_update)
  moreover have "cands_of s ?t = cands_of s t" for s
    unfolding r using st by (simp add: cands_of_def replace_tunnels_def)
  ultimately have "mon_ok ?t" using cs by (simp add: mon_ok_def)
  moreover show tns: "tunnels_of sid ?t = []" unfolding r by (subst tunnels_of_replace) simp_all
  moreover have "map_of (ts_sources ?t) sid = Some ?st" unfolding r by (simp add: replace_tunnels_def)
  ultimately show "applied_ok sid ?t" by (auto simp: applied_ok_def topo_ids_def)
qed

lemma full_done_ok:
  assumes m: "mon_ok t" and ap: "\<not> failed \<Longrightarrow> applied_ok (s_id src) t" and ranked: "tags_ok ranked"
  shows "\<exists>t'. full_done env c src sel ranked failed t = Some t' \<and> source_ok (s_id src) t' \<and>
    tunnels_of (s_id src) t' = (if failed \<and> map_of (ts_sources t) (s_id src) \<noteq> None then [] else tunnels_of (s_id src) t)"
proof (cases "map_of (ts_sources t) (s_id src)")
  case None
  then show ?thesis using m by (simp add: full_done_def source_ok_def)
next
  case (Some st0)
  let ?sid = "s_id src"
  let ?t1 = "if failed then drop_source_tunnels ?sid t else t"
  have ok1: "applied_ok ?sid ?t1" using drop_tunnels_ok(1) [OF m Some] ap by simp
  have tns: "tunnels_of ?sid ?t1 = (if failed then [] else tunnels_of ?sid t)" using drop_tunnels_ok(2) [OF m Some] by simp
  obtain st topo where st: "map_of (ts_sources ?t1) ?sid = Some st" "so_topology st = Some topo"
    using ok1 by (auto simp: applied_ok_def)
  obtain st1 where st1: "(if failed then Some st
      else prune_no_replacement (se_order env) (s_max_active src)
        (st\<lparr>so_config_hash := config_hash (dp_lib (se_deps env)) src (sub_target c)\<rparr>)) = Some st1" "so_topology st1 = so_topology st"
    using st(2) by (cases failed) (simp_all add: prune_no_replacement_def)
  let ?t' = "?t1\<lparr>ts_sources := AList.update ?sid (st1\<lparr>so_selection := sel, so_candidates := ranked\<rparr>) (ts_sources ?t1)\<rparr>"
  have "full_done env c src sel ranked failed t = Some ?t'"
    unfolding full_done_def Some option.case Let_def st(1) st1(1) by simp
  moreover have "applied_ok ?sid ?t'"
    using st1(2) ranked by (intro applied_update [OF ok1 st(1)]) (simp_all add: tags_ok_def)
  ultimately show ?thesis using tns Some by (auto simp: source_ok_def applied_ok_def)
qed

lemma apply_plans_result:
  assumes "apply_plans env cl c ps w = ((rs, hashes, failed), w')"
  shows "failed \<longleftrightarrow> 0 < sum_list (map ar_failed rs)"
    "\<not> failed \<Longrightarrow> distinct (map pl_kind ps) \<Longrightarrow> p \<in> set ps \<Longrightarrow> map_of hashes (pl_kind p) = Some (pl_hash p)"
proof -
  have "(failed \<longleftrightarrow> 0 < sum_list (map ar_failed rs)) \<and>
    (\<not> failed \<longrightarrow> hashes = map (\<lambda>p. (pl_kind p, pl_hash p)) ps)"
    using assms
  proof (induction ps arbitrary: rs hashes failed w w')
    case (Cons p ps)
    obtain r w1 where r: "apply_plan cl (dp_now (se_deps env)) (dp_to_proto (se_deps env)) (dp_in_proto (se_deps env)) p
        (sub_target c) (sync_meta c (pl_source p)) w = (r, w1)" by fastforce
    obtain res w2 where "apply_plans env cl c ps w1 = (res, w2)" by fastforce
    moreover obtain rs2 hs2 f2 where "res = (rs2, hs2, f2)" by (metis prod_cases3)
    ultimately have rec: "apply_plans env cl c ps w1 = ((rs2, hs2, f2), w2)" by simp
    show ?case using Cons.IH [OF rec] Cons.prems r rec by (auto simp: Let_def)
  qed simp
  then show "failed \<longleftrightarrow> 0 < sum_list (map ar_failed rs)"
    "\<not> failed \<Longrightarrow> distinct (map pl_kind ps) \<Longrightarrow> p \<in> set ps \<Longrightarrow> map_of hashes (pl_kind p) = Some (pl_hash p)"
    by (auto simp: map_of_eq_Some_iff comp_def)
qed

lemma wg_full_ok:
  assumes ok: "source_ok (s_id src) t" and src: "candidate_source src" and m: "manifest_ok m" and ranked: "tags_ok ranked"
    and kinds: "enabled_kinds (se_res env) \<noteq> []"
  shows "\<exists>rep t' w'. wg_full env cl c src m ranked sel now skipped active t w = Some (rep, t', w') \<and>
    source_ok (s_id src) t' \<and> at_most src t t' \<and> of_file src (en_tag ` set (mf_entries m)) (tp_failed rep \<noteq> 0) t t'"
proof -
  let ?es = "eligible_entries sel now active (mf_entries m)"
  let ?m = "m\<lparr>mf_entries := ?es\<rparr>"
  have sub: "set ?es \<subseteq> set (mf_entries m)" by (auto simp: eligible_entries_def Let_def)
  have dist: "distinct (map en_tag ?es)"
    using m by (simp add: eligible_entries_def Let_def manifest_ok_def distinct_map_filter)
  have tags: "tags_ok ?es" using m sub by (auto simp: manifest_ok_def tags_ok_def)
  have mon: "mon_ok t" using ok by (simp add: source_ok_def)
  show ?thesis
  proof (cases "plans_for env ?m src (sub_target c) (enabled_kinds (se_res env))")
    case (Inl e)
    obtain k where "k \<in> set (enabled_kinds (se_res env))" using kinds by (cases "enabled_kinds (se_res env)") auto
    then have "tp_failed (new_target_report c (s_id src) []
        (fail_all env c (s_id src) [] (ErrText (err_text e)) (dp_now (se_deps env) w)) skipped) \<noteq> 0"
      unfolding fail_all_def by (rule failed_reports) (rule failed_report_pos)
    then show ?thesis using ok Inl by (simp add: wg_full_def at_most_def of_file_def)
  next
    case (Inr plans)
    note pt = plans_for_topology [OF Inr]
    have ne: "plans \<noteq> []" using pt kinds by auto
    then have topo: "pl_topology (List.last plans) = fst (build_source ?es src (sub_target c))" using pt by simp
    obtain res w1 where "apply_plans env cl c plans w = (res, w1)" by fastforce
    moreover obtain rs hashes failed where "res = (rs, hashes, failed)" by (metis prod_cases3)
    ultimately have ap: "apply_plans env cl c plans w = ((rs, hashes, failed), w1)" by simp
    let ?t1 = "if failed then t else replace_source_topology (s_id src) (pl_topology (List.last plans)) hashes t"
    note b = build_source_candidate [OF src dist tags refl, of "sub_target c"]
    have full: "applied_ok (s_id src) ?t1 \<and> int (length (tunnels_of (s_id src) ?t1)) \<le> s_max_active src \<and>
        mt_id ` set (tunnels_of (s_id src) ?t1) \<subseteq> en_tag ` set ?es" if "\<not> failed"
      using that full_topology_ok [OF mon b(1-3)] b(4,5) by (simp add: topo)
    then have "mon_ok ?t1" using mon by (cases failed) (auto simp: applied_ok_def)
    then obtain t2 where t2: "full_done env c src sel ranked failed ?t1 = Some t2" "source_ok (s_id src) t2"
      "tunnels_of (s_id src) t2 = (if failed \<and> map_of (ts_sources ?t1) (s_id src) \<noteq> None then [] else tunnels_of (s_id src) ?t1)"
      using full_done_ok [of ?t1 failed src ranked env c sel] full ranked by blast
    have "wg_full env cl c src m ranked sel now skipped active t w = Some (new_target_report c (s_id src) [] rs skipped, t2, w1)"
      using Inr ap ne t2(1) by (simp add: wg_full_def Let_def)
    moreover have "at_most src t t2" using t2(3) full by (cases failed) (auto simp: at_most_def)
    moreover have "of_file src (en_tag ` set (mf_entries m)) (tp_failed (new_target_report c (s_id src) [] rs skipped) \<noteq> 0) t t2"
    proof (cases failed)
      case True
      then have "tp_failed (new_target_report c (s_id src) [] rs skipped) \<noteq> 0"
        using apply_plans_result(1) [OF ap] unfolding new_target_report_def target_report.simps by linarith
      then show ?thesis using t2(3) True by (auto simp: of_file_def)
    next
      case False
      have "tunnels_of (s_id src) t2 = tunnels_of (s_id src) ?t1" using t2(3) False by simp
      moreover have "mt_id ` set (tunnels_of (s_id src) ?t1) \<subseteq> en_tag ` set ?es" using full False by blast
      ultimately have "mt_id ` set (tunnels_of (s_id src) t2) \<subseteq> en_tag ` set (mf_entries m)"
        using image_mono [OF sub, of en_tag] by (metis subset_trans)
      then show ?thesis by (auto simp: of_file_def)
    qed
    ultimately show ?thesis using t2(2) by blast
  qed
qed

lemma rank_tags_ok: "tags_ok es \<Longrightarrow> tags_ok (rank st selection_cand es)"
  by (simp add: tags_ok_def)

text \<open>The report of a sync without a failure; a failed slot is counted with the outbounds.\<close>

definition clean :: "'w sync_env \<Rightarrow> target_report option \<Rightarrow> bool" where
  "clean env rep \<longleftrightarrow> res_outbounds (se_res env) \<and> (\<exists>r. rep = Some r \<and> tp_failed r = 0)"

lemma of_file_clean: "of_file src E (tp_failed r \<noteq> 0) t t' \<Longrightarrow> of_file src E (\<not> clean env (Some r)) t t'"
  "of_file src E (tp_failed r \<noteq> 0 \<or> \<not> res_outbounds (se_res env)) t t' \<Longrightarrow> of_file src E (\<not> clean env (Some r)) t t'"
  by (auto simp: of_file_def clean_def)

lemma sync_wireguard_keeps:
  assumes ok: "source_ok (s_id src) t" and src: "candidate_source src" and m: "manifest_ok m"
    and kinds: "enabled_kinds (se_res env) \<noteq> []"
  shows "\<exists>rep drift t' w'. sync_wireguard env c src m skipped t w = Some (rep, drift, t', w') \<and>
    source_ok (s_id src) t' \<and> at_most src t t' \<and>
    of_file src (en_tag ` set (mf_entries m)) (\<not> clean env rep) t t'"
proof (cases "dp_cancelled (se_deps env) w")
  case True
  then have "sync_wireguard env c src m skipped t w = Some (None, False, t, w)" by (simp add: sync_wireguard_def)
  then show ?thesis using ok by (auto simp: at_most_def of_file_def clean_def)
next
  case go: False
  let ?d = "se_deps env" and ?sid = "s_id src" and ?E = "en_tag ` set (mf_entries m)"
  obtain cfg pr where cfg: "s_selection src = Some cfg" "s_ports src = Some pr" using src by (auto simp: candidate_source_def)
  obtain q w1 where dl: "dial ?d c w = (q, w1)" by fastforce
  define cur where "cur = map_of (ts_sources t) ?sid"
  let ?sel = "case cur of None \<Rightarrow> \<lparr>ss_quarantine = [], ss_better = []\<rparr> | Some st \<Rightarrow> so_selection st"
  let ?slots = "case cur of None \<Rightarrow> [] | Some st \<Rightarrow> tunnels_of ?sid t"
  let ?ranked = "rank (sel_strategy cfg) selection_cand (mf_entries m)"
  let ?run = "\<lambda>cl drift t w. map_option (\<lambda>(r, t1, w1). (Some r, drift, t1, w1))
      (wg_full env cl c src m ?ranked ?sel (dp_now ?d w) skipped ?slots t w)"
  have ranked: "tags_ok ?ranked" using m by (simp add: manifest_ok_def rank_tags_ok)
  show ?thesis
  proof (cases q)
    case (Inl e)
    then have run: "sync_wireguard env c src m skipped t w = Some (Some (new_target_report c ?sid []
        (map (\<lambda>k. failed_report k (sync_meta c ?sid) (dp_now ?d w1) skipped e) (enabled_kinds (se_res env))) skipped), False, t, w1)"
      using go cfg dl by (simp add: sync_wireguard_def Let_def)
    obtain k where "k \<in> set (enabled_kinds (se_res env))" using kinds by (cases "enabled_kinds (se_res env)") auto
    then have "tp_failed (new_target_report c ?sid []
        (map (\<lambda>k. failed_report k (sync_meta c ?sid) (dp_now ?d w1) skipped e) (enabled_kinds (se_res env))) skipped) \<noteq> 0"
      by (rule failed_reports) (rule failed_report_pos)
    then show ?thesis using ok run by (auto simp: at_most_def of_file_def clean_def)
  next
    case (Inr cl)
    let ?now = "dp_now ?d w"
    have full: "\<exists>rep t' w'. map_option (\<lambda>(r, t1, w1). (Some r, drift, t1, w1))
        (wg_full env cl c src m ?ranked ?sel ?now skipped ?slots u w2) = Some (rep, drift, t', w') \<and>
      source_ok ?sid t' \<and> at_most src u t' \<and> of_file src ?E (\<not> clean env rep) u t'" if u: "source_ok ?sid u" for drift u w2
    proof -
      obtain rep t' w' where "wg_full env cl c src m ?ranked ?sel ?now skipped ?slots u w2 = Some (rep, t', w')"
        "source_ok ?sid t'" "at_most src u t'" "of_file src ?E (tp_failed rep \<noteq> 0) u t'"
        using wg_full_ok [OF u src m ranked kinds, of cl c ?sel ?now skipped ?slots w2] by blast
      then show ?thesis using of_file_clean(1) by auto
    qed
    show ?thesis
    proof (cases "cur = None \<or> (\<exists>st. cur = Some st \<and> (so_hashes st = [] \<or> so_config_hash st \<noteq> config_hash (dp_lib ?d) src (sub_target c)))")
      case True
      then have "sync_wireguard env c src m skipped t w = map_option (\<lambda>(r, t1, w1). (Some r, False, t1, w1))
          (wg_full env cl c src m ?ranked ?sel ?now skipped ?slots t w1)"
        using go cfg dl Inr by (auto simp: sync_wireguard_def Let_def cur_def)
      then show ?thesis using full [OF ok, of False w1] by metis
    next
      case False
      then obtain st where st: "cur = Some st" "so_hashes st \<noteq> []" "so_config_hash st = config_hash (dp_lib ?d) src (sub_target c)"
        by (cases cur) auto
      then have ap: "applied_ok ?sid t" using ok by (simp add: source_ok_def cur_def)
      obtain topo where topo: "so_topology st = Some topo" using ap st(1) by (auto simp: applied_ok_def cur_def)
      obtain lost w2 where lost: "missing_in cl (sub_target c)
          (map (\<lambda>k. topology_plan (dp_lib ?d) (dp_json ?d) k ?sid topo) (enabled_kinds (se_res env))) [] w1 = (lost, w2)" by fastforce
      let ?dr = "log_drift ?sid (dp_now ?d w2) t"
      have eq: "sync_wireguard env c src m skipped t w =
         (if lost \<noteq> [] then map_option (\<lambda>(r, t1, w1). (Some r, True, t1, w1))
            (wg_full env cl c src m ?ranked ?sel ?now skipped ?slots ?dr w2)
          else map_option (\<lambda>(r, t1, w3). (Some r, False, t1, w3))
            (wg_decide env cl c src (so_candidates st) ?ranked ?sel ?now skipped ?slots t w2))"
        using go cfg dl Inr st topo lost by (simp add: sync_wireguard_def Let_def cur_def)
      have dr: "source_ok ?sid ?dr" using ok applied_plain(3) [of ?dr t ?sid] by simp
      have am: "at_most src ?dr t' = at_most src t t'" "of_file src E f ?dr t' = of_file src E f t t'" for t' E f
        using applied_plain(4) [of ?dr t] by (simp_all add: at_most_def of_file_def)
      have cands: "\<forall>e \<in> set (so_candidates st). cd_tag (selection_cand e) = en_tag e"
        using applied_cands [OF ap] st(1) by (simp add: cur_def)
      obtain rep t' w' where dec: "wg_decide env cl c src (so_candidates st) ?ranked ?sel ?now skipped (tunnels_of ?sid t) t w2 = Some (rep, t', w')"
        "applied_ok ?sid t'" "at_most src t t'" "of_file src (en_tag ` set ?ranked) (tp_failed rep \<noteq> 0 \<or> \<not> res_outbounds (se_res env)) t t'"
        using wg_decide_ok [OF ap ranked cfg cands, of env cl c ?sel ?now skipped w2] by blast
      have "source_ok ?sid t'" using dec(2) by (auto simp: source_ok_def applied_ok_def)
      moreover have "of_file src ?E (\<not> clean env (Some rep)) t t'" using of_file_clean(2) [OF dec(4)] by simp
      ultimately have dec': "\<exists>rep drift t' w'. map_option (\<lambda>(r, t1, w3). (Some r, False, t1, w3))
            (wg_decide env cl c src (so_candidates st) ?ranked ?sel ?now skipped ?slots t w2) = Some (rep, drift, t', w') \<and>
         source_ok ?sid t' \<and> at_most src t t' \<and> of_file src ?E (\<not> clean env rep) t t'"
        using dec(1,3) st(1) by auto
      show ?thesis using eq full [OF dr, of True w2] am dec' by (cases "lost \<noteq> []") auto
    qed
  qed
qed

section \<open>Lemmas: other sources\<close>

definition others_same :: "string \<Rightarrow> target_state \<Rightarrow> target_state \<Rightarrow> bool" where
  "others_same sid t t' \<longleftrightarrow>
     (\<forall>s. s \<noteq> sid \<longrightarrow> map_of (ts_sources t') s = map_of (ts_sources t) s \<and> tunnels_of s t' = tunnels_of s t)"

lemma others_refl [simp]: "others_same sid t t"
  by (simp add: others_same_def)

lemma others_trans: "others_same sid t t' \<Longrightarrow> others_same sid t' t'' \<Longrightarrow> others_same sid t t''"
  by (simp add: others_same_def)

lemma others_update: "others_same sid t u \<Longrightarrow> others_same sid t (u\<lparr>ts_sources := AList.update sid st (ts_sources u)\<rparr>)"
  by (simp add: others_same_def)

lemma others_tunnels:
  "\<forall>tn \<in> set fresh. mt_source tn = sid \<Longrightarrow> others_same sid t u \<Longrightarrow> others_same sid t (replace_tunnels sid fresh u)"
  by (simp add: others_same_def tunnels_of_replace) (simp add: replace_tunnels_def)

lemma others_steps:
  "others_same sid t (reset_source_hashes sid t)" "others_same sid t (mark_no_replacement sid tag t)"
  "others_same sid t (store_candidates sid sel ranked t)" "others_same sid t (log_drift sid now t)"
  "others_same sid t (drop_source_tunnels sid t)"
  using others_tunnels [of "[]" sid t] others_update
  by (auto simp: reset_source_hashes_def mark_no_replacement_def store_candidates_def drop_source_tunnels_def
      log_drift_def set_state_lost_def Let_def others_same_def tunnels_of_def split: option.splits)

lemma others_topology: "others_same sid t (replace_source_topology sid topo hashes t)"
  unfolding replace_source_topology_def Let_def
  by (rule others_tunnels) (auto simp: others_same_def tunnels_of_def)

lemma others_replace_tunnel:
  assumes "replace_source_tunnel lib sj sid old nxt t = Some t'"
  shows "others_same sid t t'"
proof (cases "map_of (ts_sources t) sid")
  case None
  then show ?thesis using assms by (simp add: replace_source_tunnel_def)
next
  case src: (Some src)
  show ?thesis
  proof (cases "so_topology src")
    case None
    then show ?thesis using assms src by (simp add: replace_source_tunnel_def)
  next
    case (Some topo)
    define own where "own = tunnels_of sid t @ (case nxt of None \<Rightarrow> [] | Some n \<Rightarrow> [idle_tunnel sid n])"
    define fresh where "fresh = map (\<lambda>tn. by_id own (tn_base_id tn)) (next_topology sid old nxt topo)"
    have own: "\<forall>x \<in> set own. mt_source x = sid" by (auto simp: own_def tunnels_of_def split: option.splits)
    have some: "None \<notin> set fresh"
      using assms unfolding replace_source_tunnel_def src Some option.case Let_def own_def [symmetric] fresh_def [symmetric]
      by (auto split: if_splits)
    have "mt_source x = sid" if "x \<in> set (map the fresh)" for x
    proof -
      obtain y where y: "y \<in> set fresh" "x = the y" using \<open>x \<in> _\<close> by auto
      then have "y \<noteq> None" using some by metis
      then have "y = Some x" using y(2) by force
      then obtain i where "by_id own i = Some x" using y(1) by (auto simp: fresh_def)
      then show ?thesis using by_id_Some own by blast
    qed
    then show ?thesis
      using assms some
      unfolding replace_source_tunnel_def src Some option.case Let_def own_def [symmetric] fresh_def [symmetric]
      by (auto intro!: others_tunnels others_update)
  qed
qed

lemma others_slot:
  "slot_remove env cl src old r = Some r' \<Longrightarrow> others_same (s_id src) (sr_state r) (sr_state r')"
  "slot_replace env cl c src ranked old tag r = Some r' \<Longrightarrow> others_same (s_id src) (sr_state r) (sr_state r')"
  using others_replace_tunnel others_steps(1,2) others_trans
  by (auto simp: slot_remove_def slot_replace_def Let_def split: prod.splits option.splits; blast)+

lemma others_actions:
  "slot_actions env cl c src ranked slots acts r = Some r' \<Longrightarrow> others_same (s_id src) (sr_state r) (sr_state r')"
proof (induction acts arbitrary: r)
  case (Cons a acts)
  then show ?case
    using others_slot others_trans
    by (auto simp: Let_def split: if_splits option.splits action_kind.splits; blast)
qed simp

lemma others_filled: "filled env sid nt in_use t = Some t' \<Longrightarrow> others_same sid t t'"
  using others_replace_tunnel others_update by (auto simp: filled_def Let_def split: option.splits)

lemma others_fill:
  "fill_slots env cl c src ranked sel now n r = Some r' \<Longrightarrow> others_same (s_id src) (sr_state r) (sr_state r')"
proof (induction n arbitrary: r)
  case 0
  then show ?case by (auto simp: fill_slots.simps split: option.splits)
next
  case (Suc n)
  show ?case
    using Suc.prems Suc.IH others_filled others_trans others_steps(1)
    by (subst (asm) fill_slots.simps) (fastforce simp: Let_def split: option.splits prod.splits)
qed

lemma others_decide:
  assumes "wg_decide env cl c src before1 ranked sel now skipped slots t w = Some (rep, t', w')"
  shows "others_same (s_id src) t t'"
proof -
  obtain cfg where cfg: "s_selection src = Some cfg" using assms by (auto simp: wg_decide_def split: option.splits)
  obtain acts sel1 where d: "decide (se_round env) (map (wg_slot before1 ranked) slots) (map selection_cand ranked) sel now cfg = (acts, sel1)"
    by fastforce
  let ?r = "\<lparr>sr_state = t, sr_world = w, sr_removed = [], sr_added = [], sr_failure = None\<rparr>"
  obtain r1 r2 where r: "slot_actions env cl c src ranked slots acts ?r = Some r1"
    "(if sr_failure r1 = None then fill_slots env cl c src ranked sel1 now (nat (s_max_active src)) r1 else Some r1) = Some r2"
    "t' = store_candidates (s_id src) sel1 ranked (sr_state r2)"
    using assms unfolding wg_decide_def cfg option.case d Let_def prod.case
    by (auto simp: case_prod_beta split: option.splits if_splits)
  have "others_same (s_id src) t (sr_state r1)" using others_actions [OF r(1)] by simp
  moreover have "others_same (s_id src) (sr_state r1) (sr_state r2)"
    using r(2) others_fill by (auto split: if_splits)
  ultimately show ?thesis using r(3) others_steps(3) others_trans by metis
qed

lemma others_full_done:
  assumes "full_done env c src sel ranked failed t = Some t'"
  shows "others_same (s_id src) t t'"
  using assms others_update [OF others_steps(5), where t = t] others_update [OF others_refl]
  by (auto simp: full_done_def Let_def split: option.splits if_splits)

lemma others_full:
  assumes "wg_full env cl c src m ranked sel now skipped active t w = Some (rep, t', w')"
  shows "others_same (s_id src) t t'"
proof -
  consider "t' = t" | failed u where "full_done env c src sel ranked failed u = Some t'" "others_same (s_id src) t u"
    using assms others_topology
    by (fastforce simp: wg_full_def Let_def split: sum.splits prod.splits if_splits)
  then show ?thesis using others_full_done others_trans by cases (simp, blast)
qed

lemma others_wireguard:
  assumes "sync_wireguard env c src m skipped t w = Some (rep, drift, t', w')"
  shows "others_same (s_id src) t t'"
  using assms others_full others_decide others_steps(4) others_trans
  by (fastforce simp: sync_wireguard_def Let_def split: if_splits option.splits sum.splits prod.splits)

section \<open>Lemmas: sources of links\<close>

lemma changed_after_topology:
  assumes "\<forall>p \<in> set plans. map_of hashes (pl_kind p) = Some (pl_hash p)"
  shows "\<not> plans_changed sid plans (replace_source_topology sid topo hashes t)"
proof -
  obtain src where "map_of (ts_sources (replace_source_topology sid topo hashes t)) sid = Some src" "so_hashes src = hashes"
    by (auto simp: replace_source_topology_def replace_tunnels_def Let_def split: option.split)
  then show ?thesis using assms by (auto simp: plans_changed_def list_ex_iff)
qed

lemma plans_changed_plain: "ts_sources t' = ts_sources t \<Longrightarrow> plans_changed sid plans t' = plans_changed sid plans t"
  by (simp add: plans_changed_def)

lemma missing_in_none: "missing_in cl t [] [] w = ([], w)"
  by simp

lemma failed_report_one: "ar_failed (failed_report k m now skipped e) = 1"
  by (simp add: failed_report_def add_item_def)

lemma sync_plans_cases:
  assumes run: "sync_plans env c sid plans skipped t w = (Some rep, drift, t', w')" and kinds: "distinct (map pl_kind plans)"
  shows "(tp_failed rep = 0 \<longrightarrow> \<not> plans_changed sid plans t') \<and>
    (tp_failed rep \<noteq> 0 \<longrightarrow> ts_sources t' = ts_sources t \<and> ts_tunnels t' = ts_tunnels t)"
proof -
  let ?d = "se_deps env" and ?changed = "plans_changed sid plans t"
  obtain lost w1 where lost: "(if ?changed then ([], w) else missing_in_xray env c plans w) = (lost, w1)" by fastforce
  let ?t1 = "if lost \<noteq> [] then log_drift sid (dp_now ?d w1) t else t"
  have t1: "ts_sources ?t1 = ts_sources t" "ts_tunnels ?t1 = ts_tunnels t" by simp_all
  show ?thesis
  proof (cases "\<not> ?changed \<and> lost = []")
    case True
    then show ?thesis using run lost by (auto simp: sync_plans_def Let_def new_target_report_def)
  next
    case go: False
    then have ne: "plans \<noteq> []"
      using lost by (auto simp: plans_changed_def missing_in_xray_def Let_def split: option.splits if_splits sum.splits prod.splits)
    obtain q w2 where dl: "dial ?d c w1 = (q, w2)" by fastforce
    have nc: "\<not> dp_cancelled ?d w1" using run lost go by (auto simp: sync_plans_def Let_def)
    show ?thesis
    proof (cases q)
      case (Inl e)
      then have "rep = new_target_report c sid []
          (map (\<lambda>p. failed_report (pl_kind p) (sync_meta c (pl_source p)) (dp_now ?d w2) (pl_skipped p) e) plans) skipped" "t' = ?t1"
        using run lost go nc dl by (auto simp: sync_plans_def Let_def)
      then show ?thesis using t1 ne by (cases plans) (simp_all add: new_target_report_def failed_report_one)
    next
      case (Inr cl)
      obtain res w3 where "apply_plans env cl c plans w2 = (res, w3)" by fastforce
      moreover obtain rs hashes failed where "res = (rs, hashes, failed)" by (metis prod_cases3)
      ultimately have ap: "apply_plans env cl c plans w2 = ((rs, hashes, failed), w3)" by simp
      have "rep = new_target_report c sid [] rs skipped"
        "t' = (if failed then ?t1 else replace_source_topology sid (pl_topology (List.last plans)) hashes ?t1)"
        using run lost go nc dl Inr ap by (auto simp: sync_plans_def Let_def)
      then have f: "tp_failed rep = sum_list (map ar_failed rs)" and t': "failed \<Longrightarrow> t' = ?t1"
        "\<not> failed \<Longrightarrow> t' = replace_source_topology sid (pl_topology (List.last plans)) hashes ?t1"
        by (simp_all add: new_target_report_def)
      show ?thesis
      proof (cases failed)
        case True
        then have "tp_failed rep \<noteq> 0" using apply_plans_result(1) [OF ap] f by linarith
        then show ?thesis using t' True t1 by simp
      next
        case False
        then have "tp_failed rep = 0" using apply_plans_result(1) [OF ap] f by linarith
        moreover have "\<not> plans_changed sid plans t'"
          unfolding t'(2) [OF False] using apply_plans_result(2) [OF ap False kinds] by (intro changed_after_topology) blast
        ultimately show ?thesis by simp
      qed
    qed
  qed
qed

text \<open>A drift is found only when nothing had changed; after a failure only its mark stays.\<close>

lemma sync_plans_failed:
  assumes run: "sync_plans env c sid plans skipped t w = (Some rep, drift, t', w')" and "tp_failed rep \<noteq> 0"
  shows "(\<not> drift \<longrightarrow> t' = t) \<and> (drift \<longrightarrow> \<not> plans_changed sid plans t \<and>
    (\<exists>lost w1. missing_in_xray env c plans w = (lost, w1) \<and> lost \<noteq> [] \<and> t' = log_drift sid (dp_now (se_deps env) w1) t))"
proof -
  let ?d = "se_deps env" and ?changed = "plans_changed sid plans t"
  obtain lost w1 where lost: "(if ?changed then ([], w) else missing_in_xray env c plans w) = (lost, w1)" by fastforce
  let ?t1 = "if lost \<noteq> [] then log_drift sid (dp_now ?d w1) t else t"
  have go: "?changed \<or> lost \<noteq> []"
    using run lost assms(2) by (auto simp: sync_plans_def Let_def new_target_report_def)
  have dr: "drift = (lost \<noteq> [])"
    using run lost go by (auto simp: sync_plans_def Let_def split: if_splits prod.splits sum.splits)
  obtain q w2 where dl: "dial ?d c w1 = (q, w2)" by fastforce
  have nc: "\<not> dp_cancelled ?d w1" using run lost go by (auto simp: sync_plans_def Let_def)
  have t': "t' = ?t1"
  proof (cases q)
    case (Inl e)
    then show ?thesis using run lost go nc dl by (auto simp: sync_plans_def Let_def)
  next
    case (Inr cl)
    obtain res w3 where "apply_plans env cl c plans w2 = (res, w3)" by fastforce
    moreover obtain rs hashes failed where "res = (rs, hashes, failed)" by (metis prod_cases3)
    ultimately have ap: "apply_plans env cl c plans w2 = ((rs, hashes, failed), w3)" by simp
    have rep: "rep = new_target_report c sid [] rs skipped"
      "t' = (if failed then ?t1 else replace_source_topology sid (pl_topology (List.last plans)) hashes ?t1)"
      using run lost go nc dl Inr ap by (auto simp: sync_plans_def Let_def)
    have "failed"
    proof (rule ccontr)
      assume "\<not> failed"
      then show False using apply_plans_result(1) [OF ap] rep(1) assms(2) by (simp add: new_target_report_def)
    qed
    then show ?thesis using rep(2) by simp
  qed
  have "drift \<longrightarrow> \<not> ?changed \<and> missing_in_xray env c plans w = (lost, w1)"
    using dr lost by (simp split: if_splits)
  then show ?thesis using t' dr by auto
qed

text \<open>The next sync: nothing to apply when nothing changed and nothing is missing, else every plan again.\<close>

lemma sync_plans_idle:
  assumes "\<not> plans_changed sid plans t" "missing_in_xray env c plans w = ([], w')"
  shows "sync_plans env c sid plans skipped t w =
    (Some (new_target_report c sid (map pl_kind plans) [] skipped), False, t, w')"
  using assms by (simp add: sync_plans_def Let_def)

lemma sync_plans_again:
  assumes "plans_changed sid plans t" "\<not> dp_cancelled (se_deps env) w" "dial (se_deps env) c w = (Inr cl, w1)"
  shows "fst (sync_plans env c sid plans skipped t w) =
    Some (new_target_report c sid [] (fst (fst (apply_plans env cl c plans w1))) skipped)"
  using assms by (simp add: sync_plans_def Let_def split: prod.split)

lemma others_plans:
  assumes "sync_plans env c sid plans skipped t w = (rep, drift, t', w')"
  shows "others_same sid t t'"
proof -
  have "t' = t \<or> (\<exists>now. t' = log_drift sid now t) \<or> (\<exists>topo hashes. t' = replace_source_topology sid topo hashes t) \<or>
    (\<exists>now topo hashes. t' = replace_source_topology sid topo hashes (log_drift sid now t))"
    using assms unfolding sync_plans_def Let_def by (clarsimp split: if_splits sum.splits prod.splits) blast+
  then show ?thesis using others_steps(4) others_topology others_trans others_refl by metis
qed

section \<open>The properties\<close>

text \<open>
  C34: A sync of a candidate source never panics, from any state in which the source was applied or
  never was: afterwards it again is one or the other, its tunnels are those of its saved topology,
  each with a name and a port of its own, there are at most maxActive of them or as many as before,
  whichever is more, and no other source has changed. Each of its tunnels is one it had before or a
  candidate of the file; after a sync whose report counts no failure (the outbounds are enabled, as
  the validation asks of candidate sources), all of them are candidates of the file.
\<close>

theorem sync_wireguard_safe:
  assumes "source_ok (s_id src) t" "candidate_source src" "manifest_ok m" "enabled_kinds (se_res env) \<noteq> []"
  shows "\<exists>rep drift t' w'. sync_wireguard env c src m skipped t w = Some (rep, drift, t', w') \<and>
    source_ok (s_id src) t' \<and> others_same (s_id src) t t' \<and>
    int (length (tunnels_of (s_id src) t')) \<le> max (s_max_active src) (int (length (tunnels_of (s_id src) t))) \<and>
    mt_id ` set (tunnels_of (s_id src) t') \<subseteq> en_tag ` set (mf_entries m) \<union> mt_id ` set (tunnels_of (s_id src) t) \<and>
    (\<forall>r. rep = Some r \<and> tp_failed r = 0 \<and> res_outbounds (se_res env) \<longrightarrow>
       mt_id ` set (tunnels_of (s_id src) t') \<subseteq> en_tag ` set (mf_entries m))"
proof -
  obtain rep drift t' w' where run: "sync_wireguard env c src m skipped t w = Some (rep, drift, t', w')"
    and ok: "source_ok (s_id src) t'" and "at_most src t t'"
    and "of_file src (en_tag ` set (mf_entries m)) (\<not> clean env rep) t t'"
    using sync_wireguard_keeps [OF assms] by blast
  then show ?thesis using others_wireguard [OF run] unfolding at_most_def of_file_def clean_def by blast
qed

definition w_env :: "server sync_env" where
  "w_env = \<lparr>se_deps = w_deps, se_res = w_res, se_round = (\<lambda>x. x), se_order = (\<lambda>S. [])\<rparr>"

definition w_wg_manifest :: manifest where
  "w_wg_manifest = w_manifest\<lparr>mf_entries := [w_cand ''wg-a'', w_cand ''wg-b'']\<rparr>"

lemma w_wg_manifest_ok: "manifest_ok w_wg_manifest"
  by (simp add: manifest_ok_def tags_ok_def w_wg_manifest_def w_cand_tag)
    (simp add: w_cand_def w_vless_entry_def w_entry_def)

lemma w_wg_candidate: "candidate_source w_wg"
  by (simp add: candidate_source_def candidate_type_def w_config_defs)

lemma w_env_kinds: "enabled_kinds (se_res w_env) \<noteq> []"
  by (simp add: enabled_kinds_def w_env_def w_res_def)

lemma new_target_source_ok: "source_ok sid new_target"
  using new_target_ok by (simp add: source_ok_def mon_ok_def cands_of_def) (simp add: new_target_def)

lemma sync_wireguard_safe_witness:
  "\<exists>rep drift t' w'. sync_wireguard w_env w_sub w_wg w_wg_manifest [] new_target new_server = Some (rep, drift, t', w') \<and>
     int (length (tunnels_of ''wg'' t')) \<le> 2 \<and> mt_id ` set (tunnels_of ''wg'' t') \<subseteq> {''wg-a'', ''wg-b''}"
proof -
  have w: "s_id w_wg = ''wg''" "s_max_active w_wg = 2" by (simp_all add: w_config_defs)
  have n: "tunnels_of ''wg'' new_target = []" by (simp add: tunnels_of_def new_target_def)
  have e: "en_tag ` set (mf_entries w_wg_manifest) = {''wg-a'', ''wg-b''}"
    by (simp add: w_wg_manifest_def w_cand_def w_vless_entry_def w_entry_def)
  note safe = sync_wireguard_safe [OF new_target_source_ok w_wg_candidate w_wg_manifest_ok w_env_kinds, of w_sub "[]" new_server,
      unfolded w n e]
  from safe show ?thesis
    by (elim exE conjE, intro exI conjI) (assumption | simp)+
qed

text \<open>
  C36: Filling the empty slots ends within maxActive rounds: the source then has at most maxActive
  tunnels (or as many as before), the ports of the new ones are among the first maxActive of its
  range, and it stops only after a failure, with every slot taken, or when no candidate of the file
  may take one.
\<close>

theorem fill_slots_ends:
  assumes "applied_ok (s_id src) (sr_state r)" "tags_ok ranked" "s_ports src = Some pr"
  shows "\<exists>r' new. fill_slots env cl c src ranked sel now (nat (s_max_active src)) r = Some r' \<and>
    applied_ok (s_id src) (sr_state r') \<and>
    int (length (tunnels_of (s_id src) (sr_state r'))) \<le>
      max (s_max_active src) (int (length (tunnels_of (s_id src) (sr_state r)))) \<and>
    sr_added r' = sr_added r @ new \<and>
    (\<forall>tn \<in> set new. pr_start pr \<le> tn_port tn \<and> tn_port tn < pr_start pr + s_max_active src) \<and>
    (sr_failure r' = None \<longrightarrow>
       s_max_active src \<le> int (length (tunnels_of (s_id src) (sr_state r'))) \<or>
       (\<forall>e \<in> set ranked. en_tag e \<in> set (topo_ids (s_id src) (sr_state r')) \<or>
          cd_key (selection_cand e) \<in> (cd_key \<circ> selection_cand) ` {x \<in> set ranked. en_tag x \<in> set (topo_ids (s_id src) (sr_state r'))} \<or>
          quarantined sel (selection_cand e) now))"
proof -
  let ?sid = "s_id src"
  have "s_max_active src \<le> int (length (tunnels_of ?sid (sr_state r))) + int (nat (s_max_active src))" by simp
  from fill_slots_ok [OF assms this, of env cl c sel now] obtain r' new where
    r': "fill_slots env cl c src ranked sel now (nat (s_max_active src)) r = Some r'" "applied_ok ?sid (sr_state r')"
    "int (length (tunnels_of ?sid (sr_state r'))) \<le> max (s_max_active src) (int (length (tunnels_of ?sid (sr_state r))))"
    "sr_added r' = sr_added r @ new"
    "\<forall>tn \<in> set new. pr_start pr \<le> tn_port tn \<and> tn_port tn < pr_start pr + s_max_active src"
    and stop: "sr_failure r' = None \<longrightarrow> fill_next src ranked sel now (sr_state r') = Some None"
    by (elim exE conjE) (rule that)
  let ?full = "s_max_active src \<le> int (length (tunnels_of ?sid (sr_state r')))"
  let ?mine = "map mt_mapping (tunnels_of ?sid (sr_state r'))"
  have m: "mon_ok (sr_state r')" using r'(2) by (simp add: applied_ok_def)
  have use: "tn_base_id ` set ?mine = set (topo_ids ?sid (sr_state r'))"
    unfolding topo_ids_tunnels [OF m] by (simp add: image_comp comp_def)
  have n: "length (tunnels_of ?sid (sr_state r')) = card (tn_base_id ` set ?mine)"
    unfolding use topo_ids_tunnels [OF m] by (rule tunnels_count(2) [OF m])
  have none: "en_tag e \<in> set (topo_ids ?sid (sr_state r')) \<or>
      cd_key (selection_cand e) \<in> (cd_key \<circ> selection_cand) ` {x \<in> set ranked. en_tag x \<in> set (topo_ids ?sid (sr_state r'))} \<or>
      quarantined sel (selection_cand e) now"
    if "sr_failure r' = None" "\<not> ?full" and e: "e \<in> set ranked" for e
  proof -
    let ?keys = "set (List.map_filter (\<lambda>m. map_option cd_key (known_cand ranked (tn_base_id m))) ?mine)"
    have "replacement (map selection_cand ranked) (tn_base_id ` set ?mine) ?keys sel now = None"
      using stop that(1,2) n assms(3) by (auto simp: fill_next_def Let_def split: if_splits option.splits)
    then have "cd_tag (selection_cand e) \<in> tn_base_id ` set ?mine \<or> cd_key (selection_cand e) \<in> ?keys \<or>
        quarantined sel (selection_cand e) now" using e unfolding replacement_None by auto
    moreover have "cd_tag (selection_cand e) = en_tag e" using assms(2) e by (simp add: tags_ok_def)
    moreover have "k \<in> (cd_key \<circ> selection_cand) ` {x \<in> set ranked. en_tag x \<in> set (topo_ids ?sid (sr_state r'))}" if "k \<in> ?keys" for k
    proof -
      obtain tn c1 where mc: "tn \<in> set (tunnels_of ?sid (sr_state r'))" "known_cand ranked (mt_id tn) = Some c1" "k = cd_key c1"
        using \<open>k \<in> ?keys\<close> by (auto simp: List.map_filter_def)
      then obtain x where "x \<in> set ranked" "en_tag x = mt_id tn" "c1 = selection_cand x"
        using entry_with_Some by (auto simp: known_cand_def)
      moreover have "mt_id tn \<in> set (topo_ids ?sid (sr_state r'))" using mc(1) topo_ids_tunnels [OF m] by blast
      ultimately show ?thesis using mc(3) by (intro image_eqI [of _ _ x]) simp_all
    qed
    ultimately show ?thesis using use by auto
  qed
  show ?thesis using r' none by (intro exI [of _ r'] exI [of _ new]) blast
qed

lemma w_failing_applied: "applied_ok ''wg'' w_failing"
proof -
  have "map mt_id (tunnels_of ''wg'' w_failing) = [''wg-a'']" by code_simp
  moreover from this obtain x where "tunnels_of ''wg'' w_failing = [x]" by auto
  ultimately have t: "topo_ids ''wg'' w_failing = [''wg-a'']" "tunnels_of ''wg'' w_failing = [x]"
    using w_failing_ok state_okD(1) [of w_failing "''wg''"] by (simp_all add: mon_ok_def)
  have "map_option (\<lambda>st. so_topology st = None) (map_of (ts_sources w_failing) ''wg'') = Some False" by code_simp
  then show ?thesis using w_failing_ok t by (auto simp: applied_ok_def)
qed

lemma fill_slots_ends_witness:
  "map_option (\<lambda>r. sr_failure r) (fill_slots w_env w_client w_sub w_wg [w_cand ''wg-a'', w_cand ''wg-b''] \<lparr>ss_quarantine = [], ss_better = []\<rparr> 0 2
     \<lparr>sr_state = w_failing, sr_world = w_failing_server, sr_removed = [], sr_added = [], sr_failure = None\<rparr>) \<noteq> None"
proof -
  let ?r = "\<lparr>sr_state = w_failing, sr_world = w_failing_server, sr_removed = [], sr_added = [], sr_failure = None\<rparr>"
  have a: "applied_ok (s_id w_wg) (sr_state ?r)" using w_failing_applied by (simp add: w_config_defs)
  have tags: "tags_ok [w_cand ''wg-a'', w_cand ''wg-b'']" using w_wg_manifest_ok by (simp add: manifest_ok_def w_wg_manifest_def)
  have p: "s_ports w_wg = Some \<lparr>pr_start = 200, pr_end = 202\<rparr>" "nat (s_max_active w_wg) = 2" by (simp_all add: w_config_defs)
  show ?thesis
    using fill_slots_ends [OF a tags p(1), of w_env w_client w_sub "\<lparr>ss_quarantine = [], ss_better = []\<rparr>" 0] unfolding p(2) by auto
qed

text \<open>
  C35: The hashes of a source tell what was applied. After a sync without a failure nothing counts as
  changed, and a next sync of the same plans that finds nothing missing in Xray does nothing: every kind
  is reported as skipped and the state stays. After a sync in which any kind failed, the state is that
  of before, hashes, topology and tunnels included, except that a drift, which is looked for only when
  the plans had not changed, leaves its mark in the lost state; so when the plans had changed they still
  count as changed, and the next sync that can dial applies every plan again. No other source changes.
\<close>

theorem sync_plans_converges:
  assumes "sync_plans env c sid plans skipped t w = (Some rep, drift, t', w')" "distinct (map pl_kind plans)"
  shows "(tp_failed rep = 0 \<longrightarrow> \<not> plans_changed sid plans t' \<and>
      (\<forall>skipped2 w2 w3. missing_in_xray env c plans w2 = ([], w3) \<longrightarrow>
         sync_plans env c sid plans skipped2 t' w2 =
           (Some (new_target_report c sid (map pl_kind plans) [] skipped2), False, t', w3))) \<and>
    (tp_failed rep \<noteq> 0 \<longrightarrow> ts_sources t' = ts_sources t \<and> ts_tunnels t' = ts_tunnels t \<and>
      (\<not> drift \<longrightarrow> t' = t) \<and>
      (drift \<longrightarrow> \<not> plans_changed sid plans t \<and>
        (\<exists>lost w1. missing_in_xray env c plans w = (lost, w1) \<and> lost \<noteq> [] \<and>
           t' = log_drift sid (dp_now (se_deps env) w1) t)) \<and>
      (\<forall>skipped2 w2 cl w3. plans_changed sid plans t \<and> \<not> dp_cancelled (se_deps env) w2 \<and>
         dial (se_deps env) c w2 = (Inr cl, w3) \<longrightarrow>
         fst (sync_plans env c sid plans skipped2 t' w2) =
           Some (new_target_report c sid [] (fst (fst (apply_plans env cl c plans w3))) skipped2))) \<and>
    others_same sid t t'"
proof -
  note cases = sync_plans_cases [OF assms]
  have again: "fst (sync_plans env c sid plans skipped2 t' w2) =
      Some (new_target_report c sid [] (fst (fst (apply_plans env cl c plans w3))) skipped2)"
    if "tp_failed rep \<noteq> 0" "plans_changed sid plans t" "\<not> dp_cancelled (se_deps env) w2"
      "dial (se_deps env) c w2 = (Inr cl, w3)" for skipped2 w2 cl w3
    using cases that plans_changed_plain [of t' t] by (intro sync_plans_again) simp_all
  show ?thesis
    using cases again sync_plans_failed [OF assms(1)] others_plans [OF assms(1)]
      sync_plans_idle [of sid plans t' env c] by blast
qed

definition w_plans :: "plan list" where
  "w_plans = map (\<lambda>k. topology_plan w_lib (\<lambda>_. '''') k ''vl'' [w_tunnel]) [KOutbound, KInbound, KRouting]"

lemma w_plans_sync:
  "case sync_plans w_env w_sub ''vl'' w_plans [] new_target new_server of
     (Some rep, drift, t', w') \<Rightarrow> tp_failed rep = 0 | _ \<Rightarrow> False"
  by code_simp

lemma sync_plans_converges_witness:
  "\<exists>rep drift t' w'. sync_plans w_env w_sub ''vl'' w_plans [] new_target new_server = (Some rep, drift, t', w') \<and>
     (\<forall>w2 w3. missing_in_xray w_env w_sub w_plans w2 = ([], w3) \<longrightarrow>
        fst (snd (snd (sync_plans w_env w_sub ''vl'' w_plans [] t' w2))) = t')"
proof -
  obtain rep drift t' w' where r: "sync_plans w_env w_sub ''vl'' w_plans [] new_target new_server = (Some rep, drift, t', w')"
    "tp_failed rep = 0"
    using w_plans_sync by (auto split: prod.splits option.splits)
  have k: "distinct (map pl_kind w_plans)"
    by (simp add: w_plans_def topology_plan_def new_plan_def)
  from sync_plans_converges [OF r(1) k, THEN conjunct1] r(2)
  have "missing_in_xray w_env w_sub w_plans w2 = ([], w3) \<Longrightarrow> sync_plans w_env w_sub ''vl'' w_plans [] t' w2 =
      (Some (new_target_report w_sub ''vl'' (map pl_kind w_plans) [] []), False, t', w3)" for w2 w3 by blast
  then show ?thesis using r(1) by (intro exI conjI) auto
qed

end
