(* ===== verification/Scd_Candidate.thy ===== *)
theory Scd_Candidate
  imports Scd_Manifest
begin

text \<open>
  Candidate lines of WireGuard and MASQUE (\<^verbatim>\<open>internal/common/candidate\<close>), the outbounds of
  \<^verbatim>\<open>internal/scd/outbound\<close> built from them, and the manifest of a candidate file
  (\<^verbatim>\<open>internal/scd/manifest/candidates.go\<close>, \<^verbatim>\<open>masque.go\<close>, \<^verbatim>\<open>subscriptions.go\<close>).

  Bytes and text are strings. What \<^verbatim>\<open>net/url\<close>, \<^verbatim>\<open>net/netip\<close>, \<^verbatim>\<open>crypto\<close>, \<^verbatim>\<open>time\<close> and the float functions of
  \<^verbatim>\<open>strconv\<close> do is the argument \<open>cand_lib\<close>; escaping, base64, host and port splitting and integers are
  written out.
\<close>

section \<open>Library functions\<close>

datatype ip = IP4 nat | IP6 nat string

text \<open>\<^verbatim>\<open>url.Parse\<close>; a user with its password, if one is set.\<close>

record cand_url =
  cu_scheme :: string
  cu_opaque :: string
  cu_path :: string
  cu_user :: "(string \<times> string option) option"
  cu_host :: string
  cu_query :: string

text \<open>
  Elliptic curve keys are abstract values in text form: \<open>cl_pkcs8\<close> and \<open>cl_pkix_key\<close> parse DER bytes to a
  P-256 key, \<open>cl_pkcs8_bytes\<close>, \<open>cl_sec1\<close> and \<open>cl_pkix\<close> write them. \<open>cl_float\<close> gives finite numbers only.
\<close>

record cand_lib =
  cl_url :: "string \<Rightarrow> cand_url option"
  cl_ip :: "string \<Rightarrow> ip option"
  cl_ip_text :: "ip \<Rightarrow> string"
  cl_prefix :: "string \<Rightarrow> (ip \<times> nat) option"
  cl_prefix_text :: "ip \<times> nat \<Rightarrow> string"
  cl_float :: "string \<Rightarrow> rat option"
  cl_float_text :: "rat \<Rightarrow> string"
  cl_time :: "string \<Rightarrow> time option"
  cl_time_text :: "time \<Rightarrow> string"
  cl_print :: "nat \<Rightarrow> bool"
  cl_x25519 :: "string \<Rightarrow> string"
  cl_pkcs8 :: "string \<Rightarrow> string option"
  cl_pkcs8_bytes :: "string \<Rightarrow> string"
  cl_sec1 :: "string \<Rightarrow> string"
  cl_public :: "string \<Rightarrow> string"
  cl_pkix_key :: "string \<Rightarrow> string option"
  cl_pkix :: "string \<Rightarrow> string"
  cl_pem :: "string \<Rightarrow> string"

text \<open>The zero time: the first of January of the year 1.\<close>

definition zero_time :: time where "zero_time = - 62135596800 * 1000000000"

text \<open>\<^verbatim>\<open>url.QueryEscape\<close>, \<^verbatim>\<open>url.PathEscape\<close> and the escaping of a user name.\<close>

datatype escape_mode = EscQuery | EscPath | EscUser

definition unreserved :: "char \<Rightarrow> bool" where
  "unreserved ch \<longleftrightarrow> (let n = of_char ch :: nat in
     48 \<le> n \<and> n \<le> 57 \<or> 65 \<le> n \<and> n \<le> 90 \<or> 97 \<le> n \<and> n \<le> 122) \<or> ch \<in> {CHR ''-'', CHR ''_'', CHR ''.'', CHR ''~''}"

fun literal :: "escape_mode \<Rightarrow> char \<Rightarrow> bool" where
  "literal EscQuery ch = unreserved ch"
| "literal EscPath ch \<longleftrightarrow> unreserved ch \<or> ch \<in> {CHR ''$'', CHR ''&'', CHR ''+'', CHR '':'', CHR ''='', CHR ''@''}"
| "literal EscUser ch \<longleftrightarrow> unreserved ch \<or> ch \<in> {CHR ''$'', CHR ''&'', CHR ''+'', CHR '','', CHR '';'', CHR ''=''}"

definition percent_digit :: "nat \<Rightarrow> char" where
  "percent_digit n = char_of (if n < 10 then n + 48 else n + 55)"

definition escape_char :: "escape_mode \<Rightarrow> char \<Rightarrow> string" where
  "escape_char mode ch =
     (if mode = EscQuery \<and> ch = CHR '' '' then ''+''
      else if literal mode ch then [ch]
      else [CHR ''%'', percent_digit (of_char ch div 16), percent_digit (of_char ch mod 16)])"

definition escape :: "escape_mode \<Rightarrow> string \<Rightarrow> string" where
  "escape mode s = concat (map (escape_char mode) s)"

text \<open>The replacer \<^verbatim>\<open>queryEscape\<close>.\<close>

definition kept_escapes :: "(string \<times> char) list" where
  "kept_escapes = [(''%2C'', CHR '',''), (''%2F'', CHR ''/''), (''%3A'', CHR '':''), (''%3D'', CHR ''='')]"

fun keep_literal :: "string \<Rightarrow> string" where
  "keep_literal (a # b # c # s) =
     (case map_of kept_escapes [a, b, c] of Some ch \<Rightarrow> ch # keep_literal s | None \<Rightarrow> a # keep_literal (b # c # s))"
| "keep_literal s = s"

text \<open>\<^verbatim>\<open>encoding/base64\<close>, strict: the padded standard and the raw URL encoding. \<close>

definition b64_char :: "bool \<Rightarrow> nat \<Rightarrow> char" where
  "b64_char std n =
     (if n < 26 then char_of (n + 65) else if n < 52 then char_of (n + 71) else if n < 62 then char_of (n - 4)
      else if n = 62 then (if std then CHR ''+'' else CHR ''-'') else (if std then CHR ''/'' else CHR ''_''))"

definition b64_value :: "bool \<Rightarrow> char \<Rightarrow> nat option" where
  "b64_value std ch =
     (let n = of_char ch :: nat in
      if 65 \<le> n \<and> n \<le> 90 then Some (n - 65) else if 97 \<le> n \<and> n \<le> 122 then Some (n - 71)
      else if 48 \<le> n \<and> n \<le> 57 then Some (n + 4)
      else if ch = (if std then CHR ''+'' else CHR ''-'') then Some 62
      else if ch = (if std then CHR ''/'' else CHR ''_'') then Some 63 else None)"

fun b64_encode :: "bool \<Rightarrow> string \<Rightarrow> string" where
  "b64_encode std [] = []"
| "b64_encode std [a] =
     (let x = of_char a in
      [b64_char std (x div 4), b64_char std (x mod 4 * 16)] @ (if std then ''=='' else ''''))"
| "b64_encode std [a, b] =
     (let x = of_char a; y = of_char b in
      [b64_char std (x div 4), b64_char std (x mod 4 * 16 + y div 16), b64_char std (y mod 16 * 4)] @
      (if std then ''='' else ''''))"
| "b64_encode std (a # b # c # s) =
     (let x = of_char a; y = of_char b; z = of_char c in
      [b64_char std (x div 4), b64_char std (x mod 4 * 16 + y div 16), b64_char std (y mod 16 * 4 + z div 64),
       b64_char std (z mod 64)] @ b64_encode std s)"

definition b64_tail2 :: "bool \<Rightarrow> char \<Rightarrow> char \<Rightarrow> string option" where
  "b64_tail2 std a b =
     (case (b64_value std a, b64_value std b) of
        (Some x, Some y) \<Rightarrow> if y mod 16 = 0 then Some [char_of (x * 4 + y div 16)] else None
      | _ \<Rightarrow> None)"

definition b64_tail3 :: "bool \<Rightarrow> char \<Rightarrow> char \<Rightarrow> char \<Rightarrow> string option" where
  "b64_tail3 std a b c =
     (case (b64_value std a, b64_value std b, b64_value std c) of
        (Some x, Some y, Some z) \<Rightarrow>
          if z mod 4 = 0 then Some [char_of (x * 4 + y div 16), char_of (y mod 16 * 16 + z div 4)] else None
      | _ \<Rightarrow> None)"

fun b64_groups :: "bool \<Rightarrow> string \<Rightarrow> string option" where
  "b64_groups std [] = Some []"
| "b64_groups std [a] = None"
| "b64_groups std [a, b] = (if std then None else b64_tail2 std a b)"
| "b64_groups std [a, b, c] = (if std then None else b64_tail3 std a b c)"
| "b64_groups std (a # b # c # d # s) =
     (if std \<and> s = [] \<and> d = CHR ''='' then
        (if c = CHR ''='' then b64_tail2 std a b else b64_tail3 std a b c)
      else case (b64_value std a, b64_value std b, b64_value std c, b64_value std d) of
          (Some x, Some y, Some z, Some v) \<Rightarrow>
            map_option (\<lambda>r. char_of (x * 4 + y div 16) # char_of (y mod 16 * 16 + z div 4) # char_of (z mod 4 * 64 + v) # r)
              (b64_groups std s)
        | _ \<Rightarrow> None)"

text \<open>Line breaks in the text are ignored.\<close>

definition b64_decode :: "bool \<Rightarrow> string \<Rightarrow> string option" where
  "b64_decode std s = b64_groups std (filter (\<lambda>ch. ch \<noteq> CHR 0x0A \<and> ch \<noteq> CHR 0x0D) s)"

text \<open>\<^verbatim>\<open>net.SplitHostPort\<close>: \<open>None\<close> is an error. \<^verbatim>\<open>net.JoinHostPort\<close>.\<close>

definition last_cut :: "char \<Rightarrow> string \<Rightarrow> (string \<times> string) option" where
  "last_cut c s =
     (if c \<in> set s then let (b, a) = cut_at c (rev s) in Some (rev a, rev b) else None)"

definition split_host_port :: "string \<Rightarrow> (string \<times> string) option" where
  "split_host_port s =
     (case last_cut CHR '':'' s of
        None \<Rightarrow> None
      | Some (h, port) \<Rightarrow>
          if s \<noteq> '''' \<and> hd s = CHR ''['' then
            (if CHR '']'' \<notin> set s then None
             else let (host, rest) = cut_at CHR '']'' (tl s)
               in if rest = CHR '':'' # port \<and> CHR ''['' \<notin> set host \<and> CHR ''['' \<notin> set port \<and> CHR '']'' \<notin> set port
                  then Some (host, port) else None)
          else if CHR '':'' \<in> set h \<or> CHR ''['' \<in> set s \<or> CHR '']'' \<in> set s then None
          else Some (h, port))"

definition join_host_port :: "string \<Rightarrow> string \<Rightarrow> string" where
  "join_host_port host port =
     (if CHR '':'' \<in> set host then ''['' @ host @ '']:'' @ port else host @ '':'' @ port)"

section \<open>Candidates\<close>

datatype cand_kind = KindWireGuard | KindMasque

fun cand_kind_text :: "cand_kind \<Rightarrow> string" where
  "cand_kind_text KindWireGuard = ''wireguard''"
| "cand_kind_text KindMasque = ''masque''"

fun provider_fields :: "cand_kind \<Rightarrow> (string \<times> string list) list" where
  "provider_fields KindWireGuard = [(''proton'', [''dns'']), (''warp'', [''dns'', ''reserved'']), (''static'', [])]"
| "provider_fields KindMasque = [(''warp'', [])]"

definition wg_required :: "string list" where
  "wg_required = [''publickey'', ''address'', ''mtu'', ''allowedips'']"

definition meta_params :: "string list" where
  "meta_params = [''server'', ''entry'', ''exit'', ''load'', ''score'', ''expires'']"

definition wg_params :: "string list" where
  "wg_params = [''provider'', ''publickey'', ''address'', ''dns'', ''mtu'', ''allowedips'', ''reserved'', ''keepalive'',
     ''presharedkey''] @ meta_params"

definition masque_required :: "string list" where
  "masque_required = [''peerkey'', ''address'', ''sni'', ''transport'', ''dns'', ''priority'']"

definition masque_params :: "string list" where
  "masque_params = [''provider'', ''peerkey'', ''address'', ''sni'', ''transport'', ''dns'', ''priority''] @ meta_params"

record field_error =
  fe_field :: string
  fe_rule :: string

definition field_err :: "string \<Rightarrow> string \<Rightarrow> field_error" where
  "field_err f r = \<lparr>fe_field = f, fe_rule = r\<rparr>"

definition field_error_text :: "field_error \<Rightarrow> string" where
  "field_error_text e = ''candidate field '' @ fe_field e @ '': '' @ fe_rule e"

record cand_meta =
  cm_server :: string
  cm_entry :: string
  cm_exit :: string
  cm_load :: "int option"
  cm_score :: "rat option"
  cm_expires :: time

definition no_meta :: cand_meta where
  "no_meta = \<lparr>cm_server = '''', cm_entry = '''', cm_exit = '''', cm_load = None, cm_score = None, cm_expires = zero_time\<rparr>"

record wireguard =
  wg_provider :: string
  wg_private :: string
  wg_endpoint :: string
  wg_public :: string
  wg_address :: "(ip \<times> nat) list"
  wg_dns :: "ip list"
  wg_mtu :: int
  wg_allowed :: "(ip \<times> nat) list"
  wg_reserved :: "(int \<times> int \<times> int) option"
  wg_keepalive :: int
  wg_preshared :: "string option"
  wg_label :: string
  wg_meta :: cand_meta

record masque =
  mq_provider :: string
  mq_private :: string
  mq_endpoint :: "ip \<times> int"
  mq_peer :: string
  mq_address :: "(ip \<times> nat) list"
  mq_sni :: string
  mq_transport :: string
  mq_dns :: "ip list"
  mq_priority :: int
  mq_label :: string
  mq_meta :: cand_meta

section \<open>Field parsers\<close>

text \<open>A rule violation is \<open>Inl\<close> its text.\<close>

definition range_text :: "int \<Rightarrow> int \<Rightarrow> string" where
  "range_text lo hi = ''must be an integer '' @ int_text lo @ ''..'' @ int_text hi"

definition parse_uint :: "string \<Rightarrow> int \<Rightarrow> int \<Rightarrow> string + int" where
  "parse_uint s lo hi =
     (case atoi s of
        None \<Rightarrow> Inl (range_text lo hi)
      | Some n \<Rightarrow> if hd s \<in> {CHR ''+'', CHR ''-''} \<or> n < lo \<or> n > hi then Inl (range_text lo hi) else Inr n)"

definition parse_key :: "string \<Rightarrow> string + string" where
  "parse_key s =
     (case b64_decode True s of
        Some b \<Rightarrow> if length b = 32 then Inr b else Inl ''must be base64 of 32 bytes''
      | None \<Rightarrow> Inl ''must be base64 of 32 bytes'')"

definition host_label_ok :: "string \<Rightarrow> bool" where
  "host_label_ok l \<longleftrightarrow>
     l \<noteq> '''' \<and> length l \<le> 63 \<and> hd l \<noteq> CHR ''-'' \<and> List.last l \<noteq> CHR ''-'' \<and>
     list_all (\<lambda>ch. let n = of_char ch :: nat in
       97 \<le> n \<and> n \<le> 122 \<or> 65 \<le> n \<and> n \<le> 90 \<or> 48 \<le> n \<and> n \<le> 57 \<or> ch = CHR ''-'') l"

definition is_hostname :: "string \<Rightarrow> bool" where
  "is_hostname s \<longleftrightarrow> s \<noteq> '''' \<and> length s \<le> 253 \<and> list_all host_label_ok (split_on CHR ''.'' s)"

definition parse_ip :: "cand_lib \<Rightarrow> string \<Rightarrow> ip option" where
  "parse_ip cl s = (case cl_ip cl s of Some (IP6 n z) \<Rightarrow> if z = '''' then Some (IP6 n z) else None | r \<Rightarrow> r)"

definition parse_endpoint :: "cand_lib \<Rightarrow> string \<Rightarrow> string + string" where
  "parse_endpoint cl s =
     (case split_host_port s of
        None \<Rightarrow> Inl ''must be host:port, IPv6 in brackets''
      | Some (host, port) \<Rightarrow>
     (case parse_uint port 1 65535 of
        Inl e \<Rightarrow> Inl ''port must be 1..65535''
      | Inr p \<Rightarrow>
          if parse_ip cl host = None \<and> \<not> is_hostname host then Inl ''host must be an IP or a domain''
          else Inr (join_host_port host (int_text p))))"

fun parse_items :: "(string \<Rightarrow> 'a option) \<Rightarrow> string list \<Rightarrow> 'a list option" where
  "parse_items f [] = Some []"
| "parse_items f (x # xs) = (case f x of None \<Rightarrow> None | Some v \<Rightarrow> map_option (Cons v) (parse_items f xs))"

definition parse_list :: "string \<Rightarrow> (string \<Rightarrow> 'a option) \<Rightarrow> string \<Rightarrow> string + 'a list" where
  "parse_list s f msg = (case parse_items f (split_on CHR '','' s) of None \<Rightarrow> Inl msg | Some l \<Rightarrow> Inr l)"

definition bit_len :: "ip \<Rightarrow> nat" where
  "bit_len a = (case a of IP4 n \<Rightarrow> 32 | IP6 n z \<Rightarrow> 128)"

definition parse_address :: "cand_lib \<Rightarrow> string \<Rightarrow> (ip \<times> nat) option" where
  "parse_address cl s =
     (if CHR ''/'' \<in> set s then cl_prefix cl s else map_option (\<lambda>a. (a, bit_len a)) (parse_ip cl s))"

definition parse_reserved :: "string \<Rightarrow> string + int \<times> int \<times> int" where
  "parse_reserved v =
     (case split_on CHR '','' v of
        [a, b, c] \<Rightarrow>
          (case (parse_uint a 0 255, parse_uint b 0 255, parse_uint c 0 255) of
             (Inr x, Inr y, Inr z) \<Rightarrow> Inr (x, y, z)
           | _ \<Rightarrow> Inl ''must be 3 numbers 0..255'')
      | _ \<Rightarrow> Inl ''must be 3 numbers 0..255'')"

text \<open>\<^verbatim>\<open>utf8.ValidString\<close>.\<close>

definition utf8_ok :: "string \<Rightarrow> bool" where
  "utf8_ok s \<longleftrightarrow> valid_utf8 False s = s"

definition meta_set :: "cand_lib \<Rightarrow> string \<Rightarrow> string \<Rightarrow> cand_meta \<Rightarrow> string + cand_meta" where
  "meta_set cl k v m =
     (if k = ''server'' then
        (if \<not> utf8_ok v \<or> list_ex (\<lambda>r. \<not> cl_print cl r) (runes v) then Inl ''must be printable'' else Inr (m\<lparr>cm_server := v\<rparr>))
      else if k = ''entry'' \<or> k = ''exit'' then
        (if length v \<noteq> 2 \<or> \<not> list_all upper_letter v then Inl ''must be an upper-case ISO2 code''
         else if k = ''entry'' then Inr (m\<lparr>cm_entry := v\<rparr>) else Inr (m\<lparr>cm_exit := v\<rparr>))
      else if k = ''load'' then
        (case parse_uint v 0 100 of Inl e \<Rightarrow> Inl e | Inr n \<Rightarrow> Inr (m\<lparr>cm_load := Some n\<rparr>))
      else if k = ''score'' then
        (case cl_float cl v of
           Some f \<Rightarrow> if 0 \<le> f then Inr (m\<lparr>cm_score := Some f\<rparr>) else Inl ''must be a number >= 0''
         | None \<Rightarrow> Inl ''must be a number >= 0'')
      else if k = ''expires'' then
        (case cl_time cl v of Some t \<Rightarrow> Inr (m\<lparr>cm_expires := t\<rparr>) | None \<Rightarrow> Inl ''must be RFC 3339'')
      else Inr m)"

definition wg_set :: "cand_lib \<Rightarrow> string \<Rightarrow> string \<Rightarrow> wireguard \<Rightarrow> string + wireguard" where
  "wg_set cl k v w =
     (if k = ''publickey'' then (case parse_key v of Inl e \<Rightarrow> Inl e | Inr b \<Rightarrow> Inr (w\<lparr>wg_public := b\<rparr>))
      else if k = ''address'' then
        (case parse_list v (parse_address cl) ''each must be an IP or CIDR'' of Inl e \<Rightarrow> Inl e | Inr l \<Rightarrow> Inr (w\<lparr>wg_address := l\<rparr>))
      else if k = ''dns'' then
        (case parse_list v (parse_ip cl) ''each must be an IP'' of Inl e \<Rightarrow> Inl e | Inr l \<Rightarrow> Inr (w\<lparr>wg_dns := l\<rparr>))
      else if k = ''mtu'' then (case parse_uint v 576 1500 of Inl e \<Rightarrow> Inl e | Inr n \<Rightarrow> Inr (w\<lparr>wg_mtu := n\<rparr>))
      else if k = ''allowedips'' then
        (case parse_list v (cl_prefix cl) ''each must be a CIDR'' of Inl e \<Rightarrow> Inl e | Inr l \<Rightarrow> Inr (w\<lparr>wg_allowed := l\<rparr>))
      else if k = ''reserved'' then
        (case parse_reserved v of Inl e \<Rightarrow> Inl e | Inr r \<Rightarrow> Inr (w\<lparr>wg_reserved := Some r\<rparr>))
      else if k = ''keepalive'' then
        (case parse_uint v 0 65535 of Inl e \<Rightarrow> Inl e | Inr n \<Rightarrow> Inr (w\<lparr>wg_keepalive := n\<rparr>))
      else if k = ''presharedkey'' then
        (case parse_key v of Inl e \<Rightarrow> Inl e | Inr b \<Rightarrow> Inr (w\<lparr>wg_preshared := Some b\<rparr>))
      else (case meta_set cl k v (wg_meta w) of Inl e \<Rightarrow> Inl e | Inr m \<Rightarrow> Inr (w\<lparr>wg_meta := m\<rparr>)))"

text \<open>\<^verbatim>\<open>parseQuery\<close>; a value that is stored is not empty.\<close>

fun cand_query :: "string list \<Rightarrow> string list \<Rightarrow> (string, string) gomap \<Rightarrow> field_error + (string, string) gomap" where
  "cand_query known [] q = Inr q"
| "cand_query known (seg # segs) q =
     (let (k, v) = cut_at CHR ''='' seg in
      case (unescape True k, unescape True v) of
        (Some key, Some val) \<Rightarrow>
          if key \<notin> set known then Inl (field_err ''uri'' ''unknown or empty parameter'')
          else if map_of q key \<noteq> None then Inl (field_err key ''repeated'')
          else if val = '''' then Inl (field_err key ''empty value'')
          else cand_query known segs (AList.update key val q)
      | _ \<Rightarrow> Inl (field_err ''uri'' ''invalid query escape''))"

definition parse_cand_query :: "string \<Rightarrow> string list \<Rightarrow> field_error + (string, string) gomap" where
  "parse_cand_query raw known = (if raw = '''' then Inr [] else cand_query known (split_on CHR ''&'' raw) [])"

definition check_provider :: "cand_kind \<Rightarrow> (string, string) gomap \<Rightarrow> string list \<Rightarrow> field_error + string" where
  "check_provider kind q required =
     (case map_of q ''provider'' of
        None \<Rightarrow> Inl (field_err ''provider'' ''required'')
      | Some p \<Rightarrow>
     (case map_of (provider_fields kind) p of
        None \<Rightarrow> Inl (field_err ''provider'' ''unknown provider'')
      | Some extra \<Rightarrow>
     (case List.find (\<lambda>k. map_of q k = None) (required @ extra) of
        Some k \<Rightarrow> Inl (field_err k ''required'')
      | None \<Rightarrow> Inr p)))"

text \<open>The loop over the known parameters.\<close>

fun set_params ::
    "(string \<Rightarrow> string \<Rightarrow> 'a \<Rightarrow> string + 'a) \<Rightarrow> string list \<Rightarrow> (string, string) gomap \<Rightarrow> 'a \<Rightarrow> field_error + 'a" where
  "set_params set1 [] q w = Inr w"
| "set_params set1 (k # ks) q w =
     (case map_of q k of
        None \<Rightarrow> set_params set1 ks q w
      | Some v \<Rightarrow>
          (case set1 k v w of Inl e \<Rightarrow> Inl (field_err k e) | Inr w1 \<Rightarrow> set_params set1 ks q w1))"

definition new_wireguard :: wireguard where
  "new_wireguard =
     \<lparr>wg_provider = '''', wg_private = replicate 32 CHR 0x00, wg_endpoint = '''', wg_public = replicate 32 CHR 0x00,
      wg_address = [], wg_dns = [], wg_mtu = 0, wg_allowed = [], wg_reserved = None, wg_keepalive = 0,
      wg_preshared = None, wg_label = '''', wg_meta = no_meta\<rparr>"

text \<open>The start of both parsers: the URL, the label and the user.\<close>

definition cand_uri :: "cand_lib \<Rightarrow> cand_kind \<Rightarrow> string \<Rightarrow> field_error + cand_url \<times> string \<times> string" where
  "cand_uri cl kind s =
     (let (rest, frag) = cut_at CHR ''#'' s; bad = Inl (field_err ''uri'' (''not a '' @ cand_kind_text kind @ '':// URI'')) in
      case cl_url cl rest of
        None \<Rightarrow> bad
      | Some u \<Rightarrow>
          if cu_scheme u \<noteq> cand_kind_text kind \<or> cu_opaque u \<noteq> '''' \<or> cu_path u \<noteq> '''' then bad
          else case cu_user u of
              None \<Rightarrow> bad
            | Some (user1, password) \<Rightarrow>
                (case unescape False frag of
                   None \<Rightarrow> Inl (field_err ''label'' ''invalid percent-encoding'')
                 | Some label \<Rightarrow>
                     if password \<noteq> None then Inl (field_err ''privatekey'' ''must not have a password'')
                     else Inr (u, valid_utf8 False label, user1)))"

definition parse_wireguard :: "cand_lib \<Rightarrow> string \<Rightarrow> field_error + wireguard" where
  "parse_wireguard cl s =
     (case cand_uri cl KindWireGuard s of
        Inl e \<Rightarrow> Inl e
      | Inr (u, label, user1) \<Rightarrow>
     (case parse_key user1 of
        Inl e \<Rightarrow> Inl (field_err ''privatekey'' e)
      | Inr key \<Rightarrow>
     (case parse_endpoint cl (cu_host u) of
        Inl e \<Rightarrow> Inl (field_err ''endpoint'' e)
      | Inr ep \<Rightarrow>
     (case parse_cand_query (cu_query u) wg_params of
        Inl e \<Rightarrow> Inl e
      | Inr q \<Rightarrow>
     (case check_provider KindWireGuard q wg_required of
        Inl e \<Rightarrow> Inl e
      | Inr p \<Rightarrow>
          set_params (wg_set cl) (tl wg_params) q
            (new_wireguard\<lparr>wg_label := label, wg_private := key, wg_endpoint := ep, wg_provider := p\<rparr>))))))"

section \<open>Formatting\<close>

definition format_params :: "(string \<times> string) list \<Rightarrow> string" where
  "format_params params =
     (case filter (\<lambda>(k, v). v \<noteq> '''') params of
        [] \<Rightarrow> ''''
      | ps \<Rightarrow> ''?'' @ join_with ''&'' (map (\<lambda>(k, v). k @ ''='' @ keep_literal (escape EscQuery v)) ps))"

definition format_line :: "cand_kind \<Rightarrow> string \<Rightarrow> string \<Rightarrow> (string \<times> string) list \<Rightarrow> string \<Rightarrow> string" where
  "format_line kind user1 endpoint params label =
     cand_kind_text kind @ ''://'' @ escape EscUser user1 @ ''@'' @ endpoint @ format_params params @
     (if label = '''' then '''' else ''#'' @ escape EscPath label)"

definition meta_format :: "cand_lib \<Rightarrow> cand_meta \<Rightarrow> (string \<times> string) list" where
  "meta_format cl m =
     [(''server'', cm_server m), (''entry'', cm_entry m), (''exit'', cm_exit m)] @
     (case cm_load m of None \<Rightarrow> [] | Some n \<Rightarrow> [(''load'', int_text n)]) @
     (case cm_score m of None \<Rightarrow> [] | Some x \<Rightarrow> [(''score'', cl_float_text cl x)]) @
     (if cm_expires m = zero_time then [] else [(''expires'', cl_time_text cl (cm_expires m))])"

definition wg_tunnel_params :: "cand_lib \<Rightarrow> wireguard \<Rightarrow> (string \<times> string) list" where
  "wg_tunnel_params cl w =
     [(''publickey'', b64_encode True (wg_public w)),
      (''address'', join_with '','' (map (cl_prefix_text cl) (wg_address w))),
      (''dns'', join_with '','' (map (cl_ip_text cl) (wg_dns w))),
      (''mtu'', int_text (wg_mtu w)),
      (''allowedips'', join_with '','' (map (cl_prefix_text cl) (wg_allowed w)))] @
     (case wg_reserved w of None \<Rightarrow> [] | Some (a, b, c) \<Rightarrow> [(''reserved'', join_with '','' (map int_text [a, b, c]))]) @
     (if wg_keepalive w = 0 then [] else [(''keepalive'', int_text (wg_keepalive w))])"

definition wg_format :: "cand_lib \<Rightarrow> wireguard \<Rightarrow> string \<Rightarrow> string \<Rightarrow> string" where
  "wg_format cl w private psk =
     format_line KindWireGuard private (wg_endpoint w)
       ((''provider'', wg_provider w) # wg_tunnel_params cl w @ [(''presharedkey'', psk)] @ meta_format cl (wg_meta w)) (wg_label w)"

definition format_wireguard :: "cand_lib \<Rightarrow> wireguard \<Rightarrow> string" where
  "format_wireguard cl w =
     wg_format cl w (b64_encode True (wg_private w))
       (case wg_preshared w of None \<Rightarrow> '''' | Some k \<Rightarrow> b64_encode True k)"

definition wg_redacted :: "cand_lib \<Rightarrow> wireguard \<Rightarrow> string" where
  "wg_redacted cl w = wg_format cl w ''redacted'' (if wg_preshared w = None then '''' else ''redacted'')"

text \<open>\<open>lib_sha256\<close> is the hex text of the sum.\<close>

definition wg_public_hash :: "text_lib \<Rightarrow> cand_lib \<Rightarrow> wireguard \<Rightarrow> string" where
  "wg_public_hash lib cl w =
     take 8 (lib_sha256 lib (format_line KindWireGuard (b64_encode True (cl_x25519 cl (wg_private w))) (wg_endpoint w)
       (wg_tunnel_params cl w @ (case wg_preshared w of None \<Rightarrow> [] | Some k \<Rightarrow> [(''presharedkey'', lib_sha256 lib k)])) ''''))"

section \<open>MASQUE\<close>

definition addr_port_text :: "cand_lib \<Rightarrow> ip \<times> int \<Rightarrow> string" where
  "addr_port_text cl e = join_host_port (cl_ip_text cl (fst e)) (int_text (snd e))"

definition parse_addr_port :: "cand_lib \<Rightarrow> string \<Rightarrow> string + ip \<times> int" where
  "parse_addr_port cl s =
     (case split_host_port s of
        None \<Rightarrow> Inl ''must be IP:port, IPv6 in brackets''
      | Some (host, port) \<Rightarrow>
     (case parse_uint port 1 65535 of
        Inl e \<Rightarrow> Inl ''port must be 1..65535''
      | Inr p \<Rightarrow> (case parse_ip cl host of None \<Rightarrow> Inl ''host must be an IP'' | Some a \<Rightarrow> Inr (a, p))))"

definition parse_private_key :: "cand_lib \<Rightarrow> string \<Rightarrow> string + string" where
  "parse_private_key cl s =
     (case b64_decode False s of
        None \<Rightarrow> Inl ''must be base64url''
      | Some b \<Rightarrow> (case cl_pkcs8 cl b of Some k \<Rightarrow> Inr k | None \<Rightarrow> Inl ''must be a PKCS#8 ECDSA P-256 key''))"

definition parse_public_key :: "cand_lib \<Rightarrow> string \<Rightarrow> string + string" where
  "parse_public_key cl s =
     (case b64_decode False s of
        None \<Rightarrow> Inl ''must be base64url''
      | Some b \<Rightarrow> (case cl_pkix_key cl b of Some k \<Rightarrow> Inr k | None \<Rightarrow> Inl ''must be a PKIX ECDSA P-256 key''))"

text \<open>An IPv4 address, or an IPv6 address that maps one.\<close>

definition counts_as_v4 :: "ip \<Rightarrow> bool" where
  "counts_as_v4 a \<longleftrightarrow> (case a of IP4 n \<Rightarrow> True | IP6 n z \<Rightarrow> n div 2 ^ 32 = 65535)"

definition mq_set :: "cand_lib \<Rightarrow> string \<Rightarrow> string \<Rightarrow> masque \<Rightarrow> string + masque" where
  "mq_set cl k v m =
     (if k = ''peerkey'' then (case parse_public_key cl v of Inl e \<Rightarrow> Inl e | Inr p \<Rightarrow> Inr (m\<lparr>mq_peer := p\<rparr>))
      else if k = ''address'' then
        (case parse_list v (parse_address cl) ''each must be an IP or CIDR'' of
           Inl e \<Rightarrow> Inl e
         | Inr l \<Rightarrow>
             let v4 = count_if (\<lambda>p. counts_as_v4 (fst p)) l
             in if v4 > 1 \<or> length l - v4 > 1 then Inl ''at most one IPv4 and one IPv6'' else Inr (m\<lparr>mq_address := l\<rparr>))
      else if k = ''sni'' then
        (case parse_ip cl v of
           Some a \<Rightarrow>
             if a \<noteq> fst (mq_endpoint m) then Inl ''an IP must be the endpoint IP'' else Inr (m\<lparr>mq_sni := cl_ip_text cl a\<rparr>)
         | None \<Rightarrow> if is_hostname v then Inr (m\<lparr>mq_sni := v\<rparr>) else Inl ''must be a hostname or the endpoint IP'')
      else if k = ''transport'' then
        (if v \<noteq> ''h3'' \<and> v \<noteq> ''h2'' then Inl ''must be h3 or h2'' else Inr (m\<lparr>mq_transport := v\<rparr>))
      else if k = ''dns'' then
        (case parse_list v (parse_ip cl) ''each must be an IP'' of Inl e \<Rightarrow> Inl e | Inr l \<Rightarrow> Inr (m\<lparr>mq_dns := l\<rparr>))
      else if k = ''priority'' then
        (case parse_uint v 0 (2 ^ 31 - 1) of Inl e \<Rightarrow> Inl ''must be an integer >= 0'' | Inr n \<Rightarrow> Inr (m\<lparr>mq_priority := n\<rparr>))
      else (case meta_set cl k v (mq_meta m) of Inl e \<Rightarrow> Inl e | Inr x \<Rightarrow> Inr (m\<lparr>mq_meta := x\<rparr>)))"

definition parse_masque :: "cand_lib \<Rightarrow> string \<Rightarrow> field_error + masque" where
  "parse_masque cl s =
     (case cand_uri cl KindMasque s of
        Inl e \<Rightarrow> Inl e
      | Inr (u, label, user1) \<Rightarrow>
     (case parse_private_key cl user1 of
        Inl e \<Rightarrow> Inl (field_err ''privatekey'' e)
      | Inr key \<Rightarrow>
     (case parse_addr_port cl (cu_host u) of
        Inl e \<Rightarrow> Inl (field_err ''endpoint'' e)
      | Inr ep \<Rightarrow>
     (case parse_cand_query (cu_query u) masque_params of
        Inl e \<Rightarrow> Inl e
      | Inr q \<Rightarrow>
     (case check_provider KindMasque q masque_required of
        Inl e \<Rightarrow> Inl e
      | Inr p \<Rightarrow>
          set_params (mq_set cl) (tl masque_params) q
            \<lparr>mq_provider = p, mq_private = key, mq_endpoint = ep, mq_peer = '''', mq_address = [], mq_sni = '''',
             mq_transport = '''', mq_dns = [], mq_priority = 0, mq_label = label, mq_meta = no_meta\<rparr>)))))"

definition mq_tunnel_params :: "cand_lib \<Rightarrow> masque \<Rightarrow> (string \<times> string) list" where
  "mq_tunnel_params cl m =
     [(''peerkey'', b64_encode False (cl_pkix cl (mq_peer m))),
      (''address'', join_with '','' (map (cl_prefix_text cl) (mq_address m))), (''sni'', mq_sni m),
      (''transport'', mq_transport m), (''dns'', join_with '','' (map (cl_ip_text cl) (mq_dns m)))]"

definition mq_format :: "cand_lib \<Rightarrow> masque \<Rightarrow> string \<Rightarrow> string" where
  "mq_format cl m private =
     format_line KindMasque private (addr_port_text cl (mq_endpoint m))
       ((''provider'', mq_provider m) # mq_tunnel_params cl m @ [(''priority'', int_text (mq_priority m))] @
        meta_format cl (mq_meta m)) (mq_label m)"

definition format_masque :: "cand_lib \<Rightarrow> masque \<Rightarrow> string" where
  "format_masque cl m = mq_format cl m (b64_encode False (cl_pkcs8_bytes cl (mq_private m)))"

definition mq_redacted :: "cand_lib \<Rightarrow> masque \<Rightarrow> string" where
  "mq_redacted cl m = mq_format cl m ''redacted''"

definition mq_public_hash :: "text_lib \<Rightarrow> cand_lib \<Rightarrow> masque \<Rightarrow> string" where
  "mq_public_hash lib cl m =
     take 8 (lib_sha256 lib (format_line KindMasque (b64_encode False (cl_pkix cl (cl_public cl (mq_private m))))
       (addr_port_text cl (mq_endpoint m)) (mq_tunnel_params cl m) ''''))"

section \<open>Outbounds\<close>

definition build_wireguard :: "cand_lib \<Rightarrow> wireguard \<Rightarrow> string \<Rightarrow> string \<Rightarrow> string \<Rightarrow> wg_outbound" where
  "build_wireguard cl w tag strat dialer =
     \<lparr>wo_tag = tag, wo_protocol = ''wireguard'', wo_secret_key = b64_encode True (wg_private w),
      wo_address = map (cl_prefix_text cl) (wg_address w),
      wo_peers =
        [\<lparr>wp_public_key = b64_encode True (wg_public w),
          wp_preshared = (case wg_preshared w of None \<Rightarrow> '''' | Some k \<Rightarrow> b64_encode True k),
          wp_endpoint = wg_endpoint w, wp_keepalive = wg_keepalive w,
          wp_allowed_ips = map (cl_prefix_text cl) (wg_allowed w)\<rparr>],
      wo_mtu = wg_mtu w, wo_reserved = (case wg_reserved w of None \<Rightarrow> [] | Some (a, b, c) \<Rightarrow> [a, b, c]),
      wo_no_kernel_tun = True, wo_remote_dns = map (cl_ip_text cl) (wg_dns w),
      wo_domain_strategy = strat, wo_dialer_proxy = dialer\<rparr>"

definition build_masque :: "cand_lib \<Rightarrow> masque \<Rightarrow> string \<Rightarrow> string \<Rightarrow> masque_outbound" where
  "build_masque cl m tag dialer =
     \<lparr>mo_tag = tag, mo_protocol = ''masque'', mo_address = cl_ip_text cl (fst (mq_endpoint m)), mo_port = snd (mq_endpoint m),
      mo_remote_dns = map (cl_ip_text cl) (mq_dns m), mo_network = ''masque'',
      mo_private_key = b64_encode True (cl_sec1 cl (mq_private m)), mo_public_key = cl_pem cl (cl_pkix cl (mq_peer m)),
      mo_device_address = map (cl_prefix_text cl) (mq_address m), mo_security = ''tls'', mo_server_name = mq_sni m,
      mo_alpn = (if mq_transport m = ''h2'' then [''h2''] else []),
      mo_dialer_proxy = (if dialer = '''' then None else Some dialer)\<rparr>"

section \<open>The manifest of a candidate file\<close>

definition blank_normalized :: normalized where
  "blank_normalized =
     \<lparr>n_kind = '''', n_protocol = '''', n_profile = '''', n_tag = '''', n_line = 0, n_raw = '''', n_label = '''', n_address = '''',
      n_port = 0, n_uuid = '''', n_encryption = '''', n_network = '''', n_security = '''', n_flow = '''', n_alpn = [],
      n_sni = '''', n_host = '''', n_path = '''', n_fingerprint = '''', n_allow_insecure = None, n_header_type = None,
      n_public_key = '''', n_short_id = '''', n_spider_x = '''', n_mldsa65 = '''', n_pinned_certs = [],
      n_verify_names = [], n_ech = '''', n_cipher_suites = '''', n_heartbeat = 0, n_xhttp_mode = '''',
      n_xhttp_extra = None, n_final_mask = None, n_country = None, n_city = '''', n_query = []\<rparr>"

text \<open>\<^verbatim>\<open>newCandidateEntry\<close>; the outbound and the selection view are set by its callers.\<close>

definition new_candidate_entry ::
    "text_lib \<Rightarrow> string \<Rightarrow> string \<Rightarrow> string \<Rightarrow> string \<Rightarrow> string \<Rightarrow> string \<Rightarrow> int \<Rightarrow> int \<Rightarrow> string \<Rightarrow> string \<Rightarrow>
     string \<Rightarrow> spec \<Rightarrow> entry" where
  "new_candidate_entry lib proto profile label exit endpoint host port num pre hash raw ob =
     (let shown = (if label = '''' then endpoint else label);
          tag = build_candidate_tag lib pre label host profile hash;
          info = (case from_iso2 exit of Some i \<Rightarrow> Some i | None \<Rightarrow> from_label shown);
          city = (case infer_city lib label of Some c \<Rightarrow> c | None \<Rightarrow> '''');
          n = blank_normalized\<lparr>n_kind := ''outbound'', n_protocol := proto, n_profile := profile, n_tag := tag, n_line := num,
            n_raw := raw, n_label := shown, n_address := host, n_port := port, n_country := info, n_city := city\<rparr>
      in \<lparr>en_kind = n_kind n, en_protocol = proto, en_tag = tag, en_label = shown, en_profile = profile, en_line = num,
          en_country = info, en_city = city, en_normalized = n, en_outbound = ob, en_warnings = [], en_selection = None\<rparr>)"

record candidate_options =
  co_strategy :: string
  co_dialer :: string

definition wg_entry ::
    "text_lib \<Rightarrow> cand_lib \<Rightarrow> wireguard \<Rightarrow> int \<Rightarrow> string \<Rightarrow> candidate_options \<Rightarrow> entry" where
  "wg_entry lib cl w num pre opts =
     (let (host, port) = (case split_host_port (wg_endpoint w) of Some hp \<Rightarrow> hp | None \<Rightarrow> ('''', ''''));
          e = new_candidate_entry lib ''wireguard'' ''wg'' (wg_label w) (cm_exit (wg_meta w)) (wg_endpoint w) host
            (case atoi port of Some p \<Rightarrow> p | None \<Rightarrow> 0) num pre (wg_public_hash lib cl w) (wg_redacted cl w)
            (WireGuard (build_wireguard cl w '''' (co_strategy opts) (co_dialer opts)))
      in e\<lparr>en_outbound := WireGuard (build_wireguard cl w (en_tag e) (co_strategy opts) (co_dialer opts)),
           en_selection := Some
             \<lparr>cd_tag = en_tag e, cd_label = wg_label w, cd_entry = cm_entry (wg_meta w), cd_exit = cm_exit (wg_meta w),
              cd_load = cm_load (wg_meta w), cd_score = cm_score (wg_meta w), cd_key = cl_x25519 cl (wg_private w),
              cd_endpoint = wg_endpoint w, cd_transport = '''', cd_priority = 0\<rparr>\<rparr>)"

text \<open>The key of a MASQUE candidate is the SHA-256 of the device public key, in hex here.\<close>

definition mq_entry :: "text_lib \<Rightarrow> cand_lib \<Rightarrow> masque \<Rightarrow> int \<Rightarrow> string \<Rightarrow> string \<Rightarrow> entry" where
  "mq_entry lib cl m num pre dialer =
     (let ep = addr_port_text cl (mq_endpoint m);
          e = new_candidate_entry lib ''masque'' ''mq'' (mq_label m) (cm_exit (mq_meta m)) ep
            (cl_ip_text cl (fst (mq_endpoint m))) (snd (mq_endpoint m)) num pre (mq_public_hash lib cl m) (mq_redacted cl m)
            (Masque (build_masque cl m '''' dialer));
          ob = build_masque cl m (en_tag e) dialer
      in e\<lparr>en_outbound := Masque ob,
           en_normalized := (en_normalized e)\<lparr>n_network := ''masque'', n_security := ''tls'', n_sni := mq_sni m,
             n_alpn := mo_alpn ob\<rparr>,
           en_selection := Some
             \<lparr>cd_tag = en_tag e, cd_label = mq_label m, cd_entry = cm_entry (mq_meta m), cd_exit = cm_exit (mq_meta m),
              cd_load = cm_load (mq_meta m), cd_score = cm_score (mq_meta m),
              cd_key = lib_sha256 lib (cl_pkix cl (cl_public cl (mq_private m))),
              cd_endpoint = ep, cd_transport = mq_transport m, cd_priority = mq_priority m\<rparr>\<rparr>)"

definition candidate_entry ::
    "text_lib \<Rightarrow> cand_lib \<Rightarrow> cand_kind \<Rightarrow> string \<Rightarrow> int \<Rightarrow> string \<Rightarrow> candidate_options \<Rightarrow> field_error + entry" where
  "candidate_entry lib cl kind s num pre opts =
     (case kind of
        KindMasque \<Rightarrow>
          (case parse_masque cl s of Inl e \<Rightarrow> Inl e | Inr m \<Rightarrow> Inr (mq_entry lib cl m num pre (co_dialer opts)))
      | KindWireGuard \<Rightarrow>
          (case parse_wireguard cl s of Inl e \<Rightarrow> Inl e | Inr w \<Rightarrow> Inr (wg_entry lib cl w num pre opts)))"

definition bare_skip :: "int \<Rightarrow> string \<Rightarrow> string \<Rightarrow> string list \<Rightarrow> skip" where
  "bare_skip num code reason details =
     \<lparr>sk_line = num, sk_raw = '''', sk_label = None, sk_code = code, sk_reason = reason, sk_details = details\<rparr>"

text \<open>The loop of \<^verbatim>\<open>BuildCandidates\<close>.\<close>

fun build_cand_lines ::
    "text_lib \<Rightarrow> cand_lib \<Rightarrow> (spec \<Rightarrow> err + handler) \<Rightarrow> cand_kind \<Rightarrow> string \<Rightarrow> candidate_options \<Rightarrow> line list \<Rightarrow>
     string set \<Rightarrow> manifest \<Rightarrow> manifest" where
  "build_cand_lines lib cl to_proto kind pre opts [] seen m = m"
| "build_cand_lines lib cl to_proto kind pre opts (l # lns) seen m =
     (if \<not> prefix (cand_kind_text kind @ ''://'') (ln_trimmed l)
      then build_cand_lines lib cl to_proto kind pre opts lns seen
             (add_skip (bare_skip (ln_number l) ''unsupported_scheme''
                (''The line is not a '' @ cand_kind_text kind @ '':// candidate.'') []) m)
      else case candidate_entry lib cl kind (ln_trimmed l) (ln_number l) pre opts of
          Inl e \<Rightarrow>
            build_cand_lines lib cl to_proto kind pre opts lns seen
              (add_skip (bare_skip (ln_number l) (cand_kind_text kind @ ''_invalid'')
                 (''The '' @ cand_kind_text kind @ '' candidate line is invalid.'') [field_error_text e]) m)
        | Inr e \<Rightarrow>
            if en_tag e \<in> seen
            then build_cand_lines lib cl to_proto kind pre opts lns seen
                   (add_skip ((duplicate_skip (en_normalized e))\<lparr>sk_line := ln_number l\<rparr>) m)
            else case to_proto (en_outbound e) of
                Inl x \<Rightarrow>
                  build_cand_lines lib cl to_proto kind pre opts lns seen
                    (add_skip ((rejected_skip (en_normalized e) x)\<lparr>sk_line := ln_number l\<rparr>) m)
              | Inr h \<Rightarrow>
                  build_cand_lines lib cl to_proto kind pre opts lns (insert (en_tag e) seen) (add_entry e m))"

definition build_candidates ::
    "text_lib \<Rightarrow> cand_lib \<Rightarrow> (spec \<Rightarrow> err + handler) \<Rightarrow> cand_kind \<Rightarrow> string \<Rightarrow> string \<Rightarrow> string \<Rightarrow> candidate_options \<Rightarrow>
     time \<Rightarrow> manifest" where
  "build_candidates lib cl to_proto kind content sfile pre opts now =
     (let lns = scan_lines content
      in build_cand_lines lib cl to_proto kind pre opts lns {} (start_manifest sfile now (length lns)))"

section \<open>The manifest of a source\<close>

definition policy_for :: "source \<Rightarrow> policy" where
  "policy_for s = \<lparr>po_allow_insecure = (s_allow_insecure s = ''allow''), po_tag_prefix = s_id s\<rparr>"

definition kind_of_type :: "string \<Rightarrow> cand_kind" where
  "kind_of_type ty = (if ty = ''masque'' then KindMasque else KindWireGuard)"

text \<open>\<^verbatim>\<open>FromSource\<close>: the manifest and the validation error; \<open>None\<close> is the panic of the normalizer.\<close>

definition from_source ::
    "text_lib \<Rightarrow> cand_lib \<Rightarrow> (spec \<Rightarrow> err + handler) \<Rightarrow> source \<Rightarrow> string \<Rightarrow> time \<Rightarrow> (manifest \<times> err option) option" where
  "from_source lib cl to_proto src content now =
     (if candidate_type (s_type src) then
        let opts = \<lparr>co_strategy = (case s_wireguard src of Some x \<Rightarrow> x | None \<Rightarrow> ''''), co_dialer = s_dialer_proxy src\<rparr>;
            m = apply_candidate_filters
              (build_candidates lib cl to_proto (kind_of_type (s_type src)) (trim_space content) (s_id src) (s_id src) opts now)
              (s_filters src)
        in Some (m, if su_total (mf_summary m) = 0 then None else validate m (s_id src))
      else
        map_option (\<lambda>m0. let m = apply_filters m0 (s_filters src) in (m, validate m (s_id src)))
          (build lib to_proto (trim_space content) (s_id src) (policy_for src) now))"

section \<open>Lemmas: escaping\<close>

text \<open>What the replacer makes of an escaped character.\<close>

definition kept_char :: "char \<Rightarrow> string" where
  "kept_char ch = (if ch \<in> {CHR '','', CHR ''/'', CHR '':'', CHR ''=''} then [ch] else escape_char EscQuery ch)"

lemma below_16: "k < (16 :: nat) \<Longrightarrow> k \<in> {0, 1, 2, 3, 4, 5, 6, 7, 8, 9, 10, 11, 12, 13, 14, 15}"
  by simp presburger

lemma percent_digit_value: "k < 16 \<Longrightarrow> hex_value (percent_digit k) = Some k"
  by (drule below_16) (auto simp: percent_digit_def hex_value_def)

lemma percent_digit_inj: "j < 16 \<Longrightarrow> k < 16 \<Longrightarrow> percent_digit j = percent_digit k \<longleftrightarrow> j = k"
  using percent_digit_value by (metis option.inject)

definition graphic :: "char \<Rightarrow> bool" where
  "graphic ch \<longleftrightarrow> (let n = of_char ch :: nat in 33 \<le> n \<and> n \<le> 126)"

lemma percent_digit_alnum: "k < 16 \<Longrightarrow> unreserved (percent_digit k)"
  by (drule below_16) (auto simp: percent_digit_def unreserved_def)

lemma char_halves: "of_char (ch :: char) div 16 < (16 :: nat)" "of_char ch mod 16 < (16 :: nat)"
  using nat_of_char_less_256 [of ch] by (simp_all add: less_mult_imp_div_less)

lemmas char_hex = percent_digit_value [OF char_halves(1)] percent_digit_value [OF char_halves(2)]
  percent_digit_alnum [OF char_halves(1)] percent_digit_alnum [OF char_halves(2)]

lemma unreserved_plain: "unreserved ch \<Longrightarrow> graphic ch \<and> ch \<notin> {CHR ''%'', CHR ''+'', CHR ''#'', CHR ''&'', CHR ''@'', CHR ''='', CHR '','', CHR ''/'', CHR '':'', CHR ''?''}"
  by (auto simp: unreserved_def graphic_def Let_def)

lemma literal_char: "literal mode ch \<Longrightarrow> ch \<noteq> CHR ''%'' \<and> (mode = EscQuery \<longrightarrow> ch \<noteq> CHR ''+'')"
  using unreserved_plain [of ch] by (cases mode) auto

definition percent :: "char \<Rightarrow> string" where
  "percent ch = [CHR ''%'', percent_digit (of_char ch div 16), percent_digit (of_char ch mod 16)]"

lemma percent_inj: "percent x = percent y \<longleftrightarrow> x = y"
proof
  assume "percent x = percent y"
  then have "of_char x div 16 = (of_char y div 16 :: nat)" "of_char x mod 16 = (of_char y mod 16 :: nat)"
    by (simp_all add: percent_def percent_digit_inj char_halves)
  then have "of_char x = (of_char y :: nat)" by (metis mult_div_mod_eq)
  then show "x = y" by (metis char_of_char)
qed simp

lemma map_of_tabulate: "(\<And>x y. f x = f y \<longleftrightarrow> x = y) \<Longrightarrow> map_of (map (\<lambda>x. (f x, x)) xs) (f y) = (if y \<in> set xs then Some y else None)"
  by (induction xs) auto

lemma kept_escapes_percent: "kept_escapes = map (\<lambda>ch. (percent ch, ch)) [CHR '','', CHR ''/'', CHR '':'', CHR ''='']"
  by (simp add: kept_escapes_def percent_def percent_digit_def char_of_def bit_numeral_rec bit_Suc_0_iff)

lemma kept_lookup:
  "map_of kept_escapes [CHR ''%'', percent_digit (of_char ch div 16), percent_digit (of_char ch mod 16)] =
   (if ch \<in> {CHR '','', CHR ''/'', CHR '':'', CHR ''=''} then Some ch else None)"
  using map_of_tabulate [of percent "[CHR '','', CHR ''/'', CHR '':'', CHR ''='']" ch, OF percent_inj]
  unfolding kept_escapes_percent by (simp add: percent_def)

lemma keep_plain: "x \<noteq> CHR ''%'' \<Longrightarrow> keep_literal (x # s) = x # keep_literal s"
  by (cases s; cases "tl s") (auto simp: kept_escapes_def)

lemma keep_literal_escape: "keep_literal (escape_char EscQuery ch @ s) = kept_char ch @ keep_literal s"
proof (cases "ch = CHR '' '' \<or> unreserved ch")
  case True
  then show ?thesis using unreserved_plain [of ch] by (auto simp: escape_char_def kept_char_def keep_plain)
next
  case False
  then show ?thesis using kept_lookup [of ch] char_hex(3,4) [of ch] unreserved_plain
    by (auto simp: escape_char_def kept_char_def keep_plain)
qed

lemma keep_literal_all: "keep_literal (escape EscQuery s) = concat (map kept_char s)"
proof (induction s)
  case (Cons ch s)
  then show ?case using keep_literal_escape [of ch "escape EscQuery s"] by (simp add: escape_def)
qed (simp add: escape_def)


lemma unescape_step:
  "ch \<noteq> CHR ''%'' \<Longrightarrow> unescape query (ch # s) = map_option (Cons (if query \<and> ch = CHR ''+'' then CHR '' '' else ch)) (unescape query s)"
  "unescape query (CHR ''%'' # percent_digit (of_char ch div 16) # percent_digit (of_char ch mod 16) # s) = map_option (Cons ch) (unescape query s)"
  by (simp_all add: char_hex)

lemma unescape_kept: "unescape True (kept_char ch @ s) = map_option (Cons ch) (unescape True s)"
proof (cases "ch \<in> {CHR '','', CHR ''/'', CHR '':'', CHR ''='', CHR '' ''} \<or> unreserved ch")
  case True
  then show ?thesis using literal_char [of EscQuery ch] by (auto simp: kept_char_def escape_char_def unescape_step(1))
next
  case False
  then show ?thesis by (simp add: kept_char_def escape_char_def unescape_step(2) del: unescape.simps)
qed

lemma unescape_query_value: "unescape True (keep_literal (escape EscQuery s)) = Some s"
  unfolding keep_literal_all by (induction s) (simp_all add: unescape_kept)

lemma unescape_path: "unescape False (escape EscPath s) = Some s"
proof (induction s)
  case (Cons ch s)
  have "unescape False (escape_char EscPath ch @ t) = map_option (Cons ch) (unescape False t)" for t
    using literal_char [of EscPath ch] unescape_step(1) [of ch False t] unescape_step(2) [of False ch t]
    by (auto simp: escape_char_def simp del: unescape.simps)
  then show ?case using Cons by (simp add: escape_def)
qed (simp add: escape_def)

text \<open>The characters of an escaped text.\<close>

lemma escaped_chars:
  "x \<in> set (kept_char ch) \<Longrightarrow> graphic x \<and> x \<noteq> CHR ''#'' \<and> x \<noteq> CHR ''&''"
  "x \<in> set (escape_char EscUser ch) \<Longrightarrow> graphic x \<and> x \<noteq> CHR ''#''"
  "x \<in> set (escape_char EscPath ch) \<Longrightarrow> graphic x \<and> x \<noteq> CHR ''#''"
proof -
  have p: "graphic (CHR ''%'')" "graphic (CHR '','')" "graphic (CHR ''/'')" "graphic (CHR '':'')" "graphic (CHR ''='')"
    "graphic (CHR ''+'')" "graphic (CHR ''$'')" "graphic (CHR ''&'')" "graphic (CHR '';'')" "graphic (CHR ''@'')"
    by (simp_all add: graphic_def)
  have u: "unreserved CHR ''#'' = False" "unreserved CHR ''&'' = False" by (simp_all add: unreserved_def)
  have g: "unreserved y \<Longrightarrow> graphic y" for y using unreserved_plain by blast
  have h: "graphic (percent_digit (of_char ch div 16))" "graphic (percent_digit (of_char ch mod 16))"
    "percent_digit (of_char ch div 16) \<notin> {CHR ''#'', CHR ''&''}" "percent_digit (of_char ch mod 16) \<notin> {CHR ''#'', CHR ''&''}"
    using unreserved_plain [OF char_hex(3) [of ch]] unreserved_plain [OF char_hex(4) [of ch]] by simp_all
  have l: "literal mode ch \<Longrightarrow> graphic ch \<and> ch \<noteq> CHR ''#'' \<and> (mode = EscQuery \<longrightarrow> ch \<noteq> CHR ''&'')" for mode
    using p u g by (cases mode) auto
  show "x \<in> set (kept_char ch) \<Longrightarrow> graphic x \<and> x \<noteq> CHR ''#'' \<and> x \<noteq> CHR ''&''"
    using p h l [of EscQuery] by (auto simp: kept_char_def escape_char_def simp del: literal.simps split: if_splits)
  show "x \<in> set (escape_char EscUser ch) \<Longrightarrow> graphic x \<and> x \<noteq> CHR ''#''"
    using p h l [of EscUser] by (auto simp: escape_char_def simp del: literal.simps split: if_splits)
  show "x \<in> set (escape_char EscPath ch) \<Longrightarrow> graphic x \<and> x \<noteq> CHR ''#''"
    using p h l [of EscPath] by (auto simp: escape_char_def simp del: literal.simps split: if_splits)
qed

lemma kept_value: "x \<in> set (keep_literal (escape EscQuery s)) \<Longrightarrow> graphic x \<and> x \<noteq> CHR ''#'' \<and> x \<noteq> CHR ''&''"
  unfolding keep_literal_all using escaped_chars(1) by auto

lemma user_chars: "x \<in> set (escape EscUser s) \<Longrightarrow> graphic x \<and> x \<noteq> CHR ''#''"
  using escaped_chars(2) by (auto simp: escape_def)

section \<open>Lemmas: base64\<close>

lemma of_char_of: "n < 256 \<Longrightarrow> of_char (char_of (n :: nat) :: char) = n"
  by simp

lemma b64_value_char: "n < 64 \<Longrightarrow> b64_value std (b64_char std n) = Some n"
proof -
  have p: "of_char (CHR ''+'') = (43::nat)" "of_char (CHR ''-'') = (45::nat)" "of_char (CHR ''/'') = (47::nat)" "of_char (CHR ''_'') = (95::nat)"
    by simp_all
  assume n: "n < 64"
  consider "n < 26" | "26 \<le> n" "n < 52" | "52 \<le> n" "n < 62" | "n = 62" | "n = 63" using n by linarith
  then show ?thesis
    by cases (auto simp: b64_value_def b64_char_def Let_def simp del: char_of_nat)
qed

lemma b64_char_plain: "n < 64 \<Longrightarrow> b64_char std n \<noteq> CHR ''='' \<and> b64_char std n \<noteq> CHR 0x0A \<and> b64_char std n \<noteq> CHR 0x0D"
proof -
  assume n: "n < 64"
  have "b64_value std (CHR ''='') = None" "b64_value std (CHR 0x0A) = None" "b64_value std (CHR 0x0D) = None"
    by (simp_all add: b64_value_def)
  then show ?thesis using b64_value_char [OF n, of std] by auto
qed

lemma byte_bounds:
  "(of_char (a::char) :: nat) div 4 < 64" "(of_char a :: nat) mod 4 * 16 < 64" "(of_char a :: nat) mod 16 * 4 < 64"
  "(of_char a :: nat) mod 64 < 64" "(of_char a :: nat) mod 4 * 16 + of_char (b::char) div 16 < 64"
  "(of_char a :: nat) mod 16 * 4 + of_char b div 64 < 64"
proof -
  have d: "(of_char b :: nat) div 16 < 16" "(of_char b :: nat) div 64 < 4" "(of_char a :: nat) div 4 < 64"
    using nat_of_char_less_256 [of b] nat_of_char_less_256 [of a] by (simp_all add: less_mult_imp_div_less)
  have m: "(of_char a :: nat) mod 4 < 4" "(of_char a :: nat) mod 16 < 16" "(of_char a :: nat) mod 64 < 64" by simp_all
  show "(of_char (a::char) :: nat) div 4 < 64" "(of_char a :: nat) mod 4 * 16 < 64" "(of_char a :: nat) mod 16 * 4 < 64"
    "(of_char a :: nat) mod 64 < 64" "(of_char a :: nat) mod 4 * 16 + of_char (b::char) div 16 < 64"
    "(of_char a :: nat) mod 16 * 4 + of_char b div 64 < 64" using d m by linarith+
qed

lemma byte_join:
  "char_of ((of_char (a::char) :: nat) div 4 * 4 + (of_char a mod 4 * 16 + of_char (b::char) div 16) div 16) = a"
  "char_of ((of_char a mod 4 * 16 + (of_char b :: nat) div 16) mod 16 * 16 + (of_char b mod 16 * 4 + of_char (c::char) div 64) div 4) = b"
  "char_of ((of_char b mod 16 * 4 + (of_char c :: nat) div 64) mod 4 * 64 + of_char c mod 64) = c"
proof -
  have lt: "(of_char b :: nat) div 16 < 16" "(of_char c :: nat) div 64 < 4"
    using nat_of_char_less_256 [of b] nat_of_char_less_256 [of c] by (simp_all add: less_mult_imp_div_less)
  have "(of_char a :: nat) div 4 * 4 + (of_char a mod 4 * 16 + of_char b div 16) div 16 = of_char a" using lt(1) by simp
  then show "char_of ((of_char (a::char) :: nat) div 4 * 4 + (of_char a mod 4 * 16 + of_char (b::char) div 16) div 16) = a" by (simp only: char_of_char)
  have "(of_char a mod 4 * 16 + (of_char b :: nat) div 16) mod 16 * 16 + (of_char b mod 16 * 4 + of_char c div 64) div 4 = of_char b"
    using lt by simp
  then show "char_of ((of_char a mod 4 * 16 + (of_char b :: nat) div 16) mod 16 * 16 + (of_char b mod 16 * 4 + of_char (c::char) div 64) div 4) = b"
    by (simp only: char_of_char)
  have "(of_char b mod 16 * 4 + (of_char c :: nat) div 64) mod 4 * 64 + of_char c mod 64 = of_char c" using lt(2) by simp
  then show "char_of ((of_char b mod 16 * 4 + (of_char c :: nat) div 64) mod 4 * 64 + of_char c mod 64) = c" by (simp only: char_of_char)
qed

lemma byte_tail:
  "char_of ((of_char (a::char) :: nat) div 4 * 4 + of_char a mod 4 * 16 div 16) = a"
  "char_of ((of_char a mod 4 * 16 + (of_char (b::char) :: nat) div 16) mod 16 * 16 + of_char b mod 16 * 4 div 4) = b"
proof -
  have "(of_char a :: nat) div 4 * 4 + of_char a mod 4 * 16 div 16 = of_char a" by simp
  then show "char_of ((of_char (a::char) :: nat) div 4 * 4 + of_char a mod 4 * 16 div 16) = a" by (simp only: char_of_char)
  have "(of_char b :: nat) div 16 < 16" using nat_of_char_less_256 [of b] by (simp add: less_mult_imp_div_less)
  then have "(of_char a mod 4 * 16 + (of_char b :: nat) div 16) mod 16 * 16 + of_char b mod 16 * 4 div 4 = of_char b" by simp
  then show "char_of ((of_char a mod 4 * 16 + (of_char b :: nat) div 16) mod 16 * 16 + of_char b mod 16 * 4 div 4) = b" by (simp only: char_of_char)
qed

lemmas b64_values = byte_bounds [THEN b64_value_char]

lemmas b64_plains = byte_bounds [THEN b64_char_plain]

lemma b64_groups_encode: "b64_groups std (b64_encode std s) = Some s"
proof (induction std s rule: b64_encode.induct)
  case (2 std a)
  then show ?case using byte_tail(1) [of a] by (cases std) (simp_all add: Let_def b64_tail2_def b64_values)
next
  case (3 std a b)
  then show ?case using byte_join(1) [of a b] byte_tail(2) [of a b]
    by (cases std) (simp_all add: Let_def b64_tail3_def b64_values b64_plains)
next
  case (4 std a b c s)
  then show ?case using byte_join(1) [of a b] byte_join(2) [of a b c] byte_join(3) [of b c] by (simp add: Let_def b64_values b64_plains)
qed simp

lemma b64_encode_plain: "ch \<in> set (b64_encode std s) \<Longrightarrow> ch \<noteq> CHR 0x0A \<and> ch \<noteq> CHR 0x0D"
  by (induction std s rule: b64_encode.induct) (auto simp: Let_def b64_plains)

lemma b64_decode_encode: "b64_decode std (b64_encode std s) = Some s"
proof -
  have "filter (\<lambda>ch. ch \<noteq> CHR 0x0A \<and> ch \<noteq> CHR 0x0D) (b64_encode std s) = b64_encode std s"
    using b64_encode_plain by (simp add: filter_id_conv)
  then show ?thesis by (simp add: b64_decode_def b64_groups_encode)
qed

end
