(* ===== verification/Scd_Format.thy ===== *)
theory Scd_Format
  imports Scd_Candidate Scd_Json
begin

text \<open>
  Reading back a formatted WireGuard candidate: the laws of the library functions (\<open>cand_law\<close>), the
  query of a formatted line, and one lemma for each parameter, that the text of a parsed field sets
  the field again.
\<close>

section \<open>Texts\<close>

lemma decode_bytes_local:
  assumes "decode_bytes bs = (r, n)" "\<not> (r = rune_error \<and> n = 1)" "bs \<noteq> []"
  shows "n \<le> length bs \<and> n \<le> 4 \<and> decode_bytes (take n bs @ x) = (r, n)"
  using assms by (cases bs rule: decode_bytes.cases) (auto split: if_splits list.splits)

lemma decode_rune_local:
  assumes "decode_rune s = (r, n)" "\<not> (r = rune_error \<and> n = 1)" "s \<noteq> ''''"
  shows "n \<le> length s \<and> decode_rune (take n s @ t) = (r, n)"
proof -
  let ?b = "\<lambda>s. map of_char s :: nat list"
  have d: "n \<le> length (?b (take 4 s))" "n \<le> 4" "decode_bytes (take n (?b (take 4 s)) @ x) = (r, n)" for x
    using decode_bytes_local [of "?b (take 4 s)" r n x] assms by (simp_all add: decode_rune_def)
  have "?b (take 4 (take n s @ t)) = take n (?b (take 4 s)) @ ?b (take (4 - n) t)"
    using d(1,2) by (auto simp: take_map min_def split: if_splits)
  then show ?thesis using d by (simp add: decode_rune_def)
qed

lemma valid_utf8_step:
  "decode_rune s = (r, n) \<Longrightarrow> \<not> (r = rune_error \<and> n = 1) \<Longrightarrow> s \<noteq> '''' \<Longrightarrow> valid_utf8 b s = take n s @ valid_utf8 False (drop n s)"
  by (subst valid_utf8.simps) auto

lemma valid_utf8_again: "valid_utf8 b' (valid_utf8 b s) = valid_utf8 b s"
proof (induction b s arbitrary: b' rule: valid_utf8.induct)
  case (1 b s)
  obtain r n where d: "decode_rune s = (r, n)" by fastforce
  show ?case
  proof (cases "s = ''''")
    case True
    then show ?thesis by (simp add: valid_utf8.simps)
  next
    case s: False
    show ?thesis
    proof (cases "r = rune_error \<and> n = 1")
      case True
      have step: "valid_utf8 b s = (if b then '''' else encode_rune rune_error) @ valid_utf8 True (drop 1 s)"
        using s d True by (subst valid_utf8.simps) simp
      have ih: "valid_utf8 b' (valid_utf8 True (drop 1 s)) = valid_utf8 True (drop 1 s)" for b'
        using "1.IH"(1) [OF s _ refl] d True by auto
      have e: "decode_rune (encode_rune rune_error @ t) = (rune_error, 3)" for t
        by (simp add: decode_rune_def encode_rune_def rune_error_def in_range_def second_ok_def)
      have "valid_utf8 b' (encode_rune rune_error @ valid_utf8 True (drop 1 s)) =
        encode_rune rune_error @ valid_utf8 True (drop 1 s)" for b'
        using valid_utf8_step [OF e, of "valid_utf8 True (drop 1 s)" b'] ih
        by (simp add: encode_rune_def rune_error_def in_range_def)
      then show ?thesis using step ih by simp
    next
      case False
      have step: "valid_utf8 b s = take n s @ valid_utf8 False (drop n s)" by (rule valid_utf8_step [OF d False s])
      have ih: "valid_utf8 b' (valid_utf8 False (drop n s)) = valid_utf8 False (drop n s)" for b'
        using "1.IH"(2) [OF s _ refl] d False by auto
      have w: "0 < n" using decode_rune_width [OF s] d by simp
      have n: "n \<le> length s" "decode_rune (take n s @ t) = (r, n)" for t using decode_rune_local [OF d False s] by auto
      have "take n s @ valid_utf8 False (drop n s) \<noteq> ''''" using s w by simp
      then show ?thesis using valid_utf8_step [OF n(2) False] step ih n(1) by simp
    qed
  qed
qed

lemma atoi_int_text: "0 \<le> i \<Longrightarrow> i < 2 ^ 63 \<Longrightarrow> atoi (int_text i) = Some i"
proof -
  assume i: "0 \<le> i" "i < 2 ^ 63"
  have t: "int_text i = nat_text (nat i)" using i by (simp add: int_text_def)
  have d: "list_all is_digit (nat_text (nat i))" "nat_text (nat i) \<noteq> []" using nat_text_digits by simp_all
  obtain ch cs where c: "nat_text (nat i) = ch # cs" using d(2) by (cases "nat_text (nat i)") auto
  have "ch \<noteq> CHR ''-''" "ch \<noteq> CHR ''+''" using d(1) c by (auto simp: is_digit_def)
  then show ?thesis using d digits_value_nat_text [of "nat i"] i by (simp add: atoi_def t c)
qed

lemma int_text_head: "0 \<le> i \<Longrightarrow> hd (int_text i) \<notin> {CHR ''+'', CHR ''-''}"
  using nat_text_digits [of "nat i"] by (cases "nat_text (nat i)") (auto simp: int_text_def is_digit_def)

lemma parse_uint_text: "0 \<le> lo \<Longrightarrow> hi < 2 ^ 63 \<Longrightarrow> lo \<le> i \<Longrightarrow> i \<le> hi \<Longrightarrow> parse_uint (int_text i) lo hi = Inr i"
  using atoi_int_text [of i] int_text_head [of i] by (simp add: parse_uint_def)

lemma parse_uint_Inr: "parse_uint s lo hi = Inr i \<Longrightarrow> lo \<le> i \<and> i \<le> hi"
  by (auto simp: parse_uint_def split: option.splits if_splits)

lemma int_text_no_comma: "0 \<le> i \<Longrightarrow> c \<in> set (int_text i) \<Longrightarrow> is_digit c"
  using nat_text_digits [of "nat i"] by (auto simp: int_text_def list_all_iff)

lemma split_on_plain: "c \<notin> set s \<Longrightarrow> split_on c s = [s]"
  by (induction s) auto

lemma split_on_cons: "c \<notin> set x \<Longrightarrow> split_on c (x @ c # r) = x # split_on c r"
  by (induction x) auto

lemma split_on_join_with: "xs \<noteq> [] \<Longrightarrow> \<forall>x \<in> set xs. c \<notin> set x \<Longrightarrow> split_on c (join_with [c] xs) = xs"
proof (induction xs)
  case (Cons x xs)
  then show ?case by (cases xs) (auto simp: split_on_plain split_on_cons)
qed simp

lemma cut_at_cons: "c \<notin> set a \<Longrightarrow> cut_at c (a @ c # b) = (a, b)"
  by (induction a) auto

lemma cut_at_plain: "c \<notin> set a \<Longrightarrow> cut_at c a = (a, '''')"
  by (induction a) auto

lemma join_with_chars: "x \<in> set (join_with sep xs) \<Longrightarrow> x \<in> set sep \<or> (\<exists>y \<in> set xs. x \<in> set y)"
  by (induction sep xs rule: join_with.induct) auto

section \<open>The library's laws\<close>

definition ip_char :: "char \<Rightarrow> bool" where
  "ip_char ch \<longleftrightarrow> (let n = of_char ch :: nat in
     48 \<le> n \<and> n \<le> 57 \<or> 65 \<le> n \<and> n \<le> 70 \<or> 97 \<le> n \<and> n \<le> 102) \<or> ch = CHR ''.'' \<or> ch = CHR '':''"

definition query_text :: "string \<Rightarrow> bool" where
  "query_text q \<longleftrightarrow> q \<noteq> '''' \<and> (\<forall>x \<in> set q. graphic x \<and> x \<noteq> CHR ''#'')"

definition known_host :: "cand_lib \<Rightarrow> string \<Rightarrow> bool" where
  "known_host cl h \<longleftrightarrow> parse_ip cl h \<noteq> None \<or> is_hostname h"

text \<open>\<^verbatim>\<open>url.Parse\<close> splits an authority URL and unescapes its user.\<close>

definition url_law :: "cand_lib \<Rightarrow> bool" where
  "url_law cl \<longleftrightarrow> (\<forall>k user1 h n q. known_host cl h \<and> 1 \<le> n \<and> n \<le> 65535 \<and> query_text q \<longrightarrow>
     cl_url cl (cand_kind_text k @ ''://'' @ escape EscUser user1 @ ''@'' @ join_host_port h (int_text n) @ ''?'' @ q) =
       Some \<lparr>cu_scheme = cand_kind_text k, cu_opaque = '''', cu_path = '''', cu_user = Some (user1, None),
         cu_host = join_host_port h (int_text n), cu_query = q\<rparr>)"

text \<open>Addresses, prefixes, numbers and times are read back from their texts.\<close>

definition ip_law :: "cand_lib \<Rightarrow> bool" where
  "ip_law cl \<longleftrightarrow> (\<forall>s a. parse_ip cl s = Some a \<longrightarrow>
     s \<noteq> '''' \<and> list_all ip_char s \<and> parse_ip cl (cl_ip_text cl a) = Some a)"

definition prefix_law :: "cand_lib \<Rightarrow> bool" where
  "prefix_law cl \<longleftrightarrow>
     (\<forall>s x. cl_prefix cl s = Some x \<longrightarrow> CHR ''/'' \<in> set s \<and> CHR '','' \<notin> set s \<and> cl_prefix cl (cl_prefix_text cl x) = Some x) \<and>
     (\<forall>s a. parse_ip cl s = Some a \<longrightarrow> cl_prefix cl (cl_prefix_text cl (a, bit_len a)) = Some (a, bit_len a))"

definition float_law :: "cand_lib \<Rightarrow> bool" where
  "float_law cl \<longleftrightarrow> (\<forall>s f. cl_float cl s = Some f \<longrightarrow> s \<noteq> '''' \<and> cl_float cl (cl_float_text cl f) = Some f)"

text \<open>The years 0 to 9999, which RFC 3339 can write.\<close>

definition written_time :: "time \<Rightarrow> bool" where
  "written_time t \<longleftrightarrow> - 62167219200 * 1000000000 \<le> t \<and> t < 253402300800 * 1000000000"

definition time_law :: "cand_lib \<Rightarrow> bool" where
  "time_law cl \<longleftrightarrow> (\<forall>s t. cl_time cl s = Some t \<longrightarrow> s \<noteq> '''' \<and> (written_time t \<longrightarrow> cl_time cl (cl_time_text cl t) = Some t))"

definition cand_law :: "cand_lib \<Rightarrow> bool" where
  "cand_law cl \<longleftrightarrow> url_law cl \<and> ip_law cl \<and> prefix_law cl \<and> float_law cl \<and> time_law cl"

lemma ip_lawD:
  assumes "cand_law cl" "parse_ip cl s = Some a"
  shows "s \<noteq> ''''" "list_all ip_char s" "parse_ip cl (cl_ip_text cl a) = Some a"
  using assms unfolding cand_law_def ip_law_def by blast+

lemma prefix_lawD:
  assumes "cand_law cl"
  shows "cl_prefix cl s = Some x \<Longrightarrow> CHR ''/'' \<in> set s" "cl_prefix cl s = Some x \<Longrightarrow> CHR '','' \<notin> set s"
    "cl_prefix cl s = Some x \<Longrightarrow> cl_prefix cl (cl_prefix_text cl x) = Some x"
    "parse_ip cl s = Some a \<Longrightarrow> cl_prefix cl (cl_prefix_text cl (a, bit_len a)) = Some (a, bit_len a)"
  using assms unfolding cand_law_def prefix_law_def by blast+

section \<open>Lists in a value\<close>

lemma parse_items_Some: "parse_items f xs = Some ys \<Longrightarrow> length ys = length xs \<and> (\<forall>y \<in> set ys. \<exists>x. f x = Some y)"
  by (induction xs arbitrary: ys) (auto split: option.splits)

lemma parse_items_texts: "\<forall>y \<in> set ys. f (g y) = Some y \<Longrightarrow> parse_items f (map g ys) = Some ys"
  by (induction ys) auto

lemma parse_list_Inr: "parse_list s f msg = Inr l \<Longrightarrow> l \<noteq> [] \<and> (\<forall>y \<in> set l. \<exists>x. f x = Some y)"
  using parse_items_Some [of f "split_on CHR '','' s" l] split_on_nonempty [of "CHR '',''" s]
  by (auto simp: parse_list_def split: option.splits)

lemma parse_list_text:
  assumes "l \<noteq> []" "\<And>y. y \<in> set l \<Longrightarrow> f (g y) = Some y" "\<And>y. y \<in> set l \<Longrightarrow> CHR '','' \<notin> set (g y)"
  shows "parse_list (join_with '','' (map g l)) f msg = Inr l"
proof -
  have "split_on CHR '','' (join_with '','' (map g l)) = map g l"
    using assms(1,3) by (intro split_on_join_with) auto
  then show ?thesis using assms(2) by (simp add: parse_list_def parse_items_texts)
qed

lemma join_with_nonempty: "xs \<noteq> [] \<Longrightarrow> \<forall>x \<in> set xs. x \<noteq> '''' \<Longrightarrow> join_with sep xs \<noteq> ''''"
  by (cases xs; cases "tl xs") auto

text \<open>An address list, a prefix list and the list of name servers.\<close>

lemma ip_no_comma: "list_all ip_char s \<Longrightarrow> CHR '','' \<notin> set s \<and> CHR ''/'' \<notin> set s"
  by (auto simp: list_all_iff ip_char_def)

lemma ips_text:
  assumes "cand_law cl" "parse_list v (parse_ip cl) msg = Inr l"
  shows "parse_list (join_with '','' (map (cl_ip_text cl) l)) (parse_ip cl) msg = Inr l"
    "join_with '','' (map (cl_ip_text cl) l) \<noteq> ''''"
proof -
  note l = parse_list_Inr [OF assms(2)]
  have p: "parse_ip cl (cl_ip_text cl a) = Some a" if "a \<in> set l" for a using l that ip_lawD(3) [OF assms(1)] by blast
  have c: "cl_ip_text cl a \<noteq> ''''" "CHR '','' \<notin> set (cl_ip_text cl a)" if "a \<in> set l" for a
    using ip_lawD(1,2) [OF assms(1) p [OF that]] ip_no_comma by auto
  show "parse_list (join_with '','' (map (cl_ip_text cl) l)) (parse_ip cl) msg = Inr l"
    by (rule parse_list_text) (use l p c in auto)
  show "join_with '','' (map (cl_ip_text cl) l) \<noteq> ''''" using l c(1) by (intro join_with_nonempty) auto
qed

lemma prefixes_text:
  assumes "cand_law cl" "parse_list v f msg = Inr l"
    and f: "\<And>s x. f s = Some x \<Longrightarrow> f (cl_prefix_text cl x) = Some x \<and> cl_prefix cl (cl_prefix_text cl x) = Some x"
  shows "parse_list (join_with '','' (map (cl_prefix_text cl) l)) f msg = Inr l"
    "join_with '','' (map (cl_prefix_text cl) l) \<noteq> ''''"
proof -
  note l = parse_list_Inr [OF assms(2)]
  have p: "f (cl_prefix_text cl a) = Some a" "cl_prefix cl (cl_prefix_text cl a) = Some a" if "a \<in> set l" for a
    using l that f by blast+
  have c: "CHR ''/'' \<in> set (cl_prefix_text cl a)" "CHR '','' \<notin> set (cl_prefix_text cl a)" if "a \<in> set l" for a
    using prefix_lawD(1,2) [OF assms(1) p(2) [OF that]] by auto
  show "parse_list (join_with '','' (map (cl_prefix_text cl) l)) f msg = Inr l"
    by (rule parse_list_text) (use l p c in auto)
  show "join_with '','' (map (cl_prefix_text cl) l) \<noteq> ''''" using l c(1) by (intro join_with_nonempty) force+
qed

lemma address_text:
  assumes "cand_law cl" "parse_address cl s = Some x"
  shows "parse_address cl (cl_prefix_text cl x) = Some x \<and> cl_prefix cl (cl_prefix_text cl x) = Some x"
proof -
  have p: "cl_prefix cl (cl_prefix_text cl x) = Some x"
    using assms prefix_lawD(3,4) [OF assms(1)] by (auto simp: parse_address_def split: if_splits option.splits)
  then show ?thesis using prefix_lawD(1) [OF assms(1) p] by (simp add: parse_address_def)
qed

section \<open>One parameter\<close>

datatype wg_key = PublicKey | Address | Dns | Mtu | AllowedIps | Reserved | Keepalive | PresharedKey
  | Server | Entry | Exit | Load | Score | Expires

fun key_name :: "wg_key \<Rightarrow> string" where
  "key_name PublicKey = ''publickey''"
| "key_name Address = ''address''"
| "key_name Dns = ''dns''"
| "key_name Mtu = ''mtu''"
| "key_name AllowedIps = ''allowedips''"
| "key_name Reserved = ''reserved''"
| "key_name Keepalive = ''keepalive''"
| "key_name PresharedKey = ''presharedkey''"
| "key_name Server = ''server''"
| "key_name Entry = ''entry''"
| "key_name Exit = ''exit''"
| "key_name Load = ''load''"
| "key_name Score = ''score''"
| "key_name Expires = ''expires''"

definition wg_keys :: "wg_key list" where
  "wg_keys = [PublicKey, Address, Dns, Mtu, AllowedIps, Reserved, Keepalive, PresharedKey, Server, Entry, Exit, Load,
     Score, Expires]"

lemma wg_keys_names: "wg_params = ''provider'' # map key_name wg_keys"
  by (simp add: wg_params_def wg_keys_def meta_params_def)

lemma wg_keys_all: "set wg_keys = UNIV" "distinct wg_keys"
proof -
  have "k \<in> set wg_keys" for k by (cases k) (simp_all add: wg_keys_def)
  then show "set wg_keys = UNIV" by auto
  show "distinct wg_keys" by (simp add: wg_keys_def)
qed

lemma wg_params_distinct: "distinct wg_params"
  by code_simp

lemma key_name_inj: "key_name j = key_name k \<longleftrightarrow> j = k"
proof -
  have "inj_on key_name (set wg_keys)" using wg_params_distinct unfolding wg_keys_names by (simp add: distinct_map)
  then show ?thesis by (auto simp: inj_on_def wg_keys_all)
qed

lemma key_name_params: "key_name k \<in> set wg_params" "key_name k \<noteq> ''provider''"
proof -
  show "key_name k \<in> set wg_params" using wg_keys_all(1) by (auto simp: wg_keys_names)
  have "''provider'' \<notin> range key_name" using wg_params_distinct wg_keys_all(1) by (simp add: wg_keys_names)
  then show "key_name k \<noteq> ''provider''" by (metis rangeI)
qed

text \<open>The text of a parameter (empty: not written), and the candidate \<open>u\<close> with its field taken from \<open>w\<close>.\<close>

fun wg_text :: "cand_lib \<Rightarrow> wireguard \<Rightarrow> wg_key \<Rightarrow> string" where
  "wg_text cl w PublicKey = b64_encode True (wg_public w)"
| "wg_text cl w Address = join_with '','' (map (cl_prefix_text cl) (wg_address w))"
| "wg_text cl w Dns = join_with '','' (map (cl_ip_text cl) (wg_dns w))"
| "wg_text cl w Mtu = int_text (wg_mtu w)"
| "wg_text cl w AllowedIps = join_with '','' (map (cl_prefix_text cl) (wg_allowed w))"
| "wg_text cl w Reserved =
     (case wg_reserved w of None \<Rightarrow> '''' | Some (a, b, c) \<Rightarrow> join_with '','' (map int_text [a, b, c]))"
| "wg_text cl w Keepalive = (if wg_keepalive w = 0 then '''' else int_text (wg_keepalive w))"
| "wg_text cl w PresharedKey = (case wg_preshared w of None \<Rightarrow> '''' | Some b \<Rightarrow> b64_encode True b)"
| "wg_text cl w Server = cm_server (wg_meta w)"
| "wg_text cl w Entry = cm_entry (wg_meta w)"
| "wg_text cl w Exit = cm_exit (wg_meta w)"
| "wg_text cl w Load = (case cm_load (wg_meta w) of None \<Rightarrow> '''' | Some n \<Rightarrow> int_text n)"
| "wg_text cl w Score = (case cm_score (wg_meta w) of None \<Rightarrow> '''' | Some x \<Rightarrow> cl_float_text cl x)"
| "wg_text cl w Expires =
     (if cm_expires (wg_meta w) = zero_time then '''' else cl_time_text cl (cm_expires (wg_meta w)))"

fun wg_copy :: "wg_key \<Rightarrow> wireguard \<Rightarrow> wireguard \<Rightarrow> wireguard" where
  "wg_copy PublicKey w u = u\<lparr>wg_public := wg_public w\<rparr>"
| "wg_copy Address w u = u\<lparr>wg_address := wg_address w\<rparr>"
| "wg_copy Dns w u = u\<lparr>wg_dns := wg_dns w\<rparr>"
| "wg_copy Mtu w u = u\<lparr>wg_mtu := wg_mtu w\<rparr>"
| "wg_copy AllowedIps w u = u\<lparr>wg_allowed := wg_allowed w\<rparr>"
| "wg_copy Reserved w u = u\<lparr>wg_reserved := wg_reserved w\<rparr>"
| "wg_copy Keepalive w u = u\<lparr>wg_keepalive := wg_keepalive w\<rparr>"
| "wg_copy PresharedKey w u = u\<lparr>wg_preshared := wg_preshared w\<rparr>"
| "wg_copy Server w u = u\<lparr>wg_meta := (wg_meta u)\<lparr>cm_server := cm_server (wg_meta w)\<rparr>\<rparr>"
| "wg_copy Entry w u = u\<lparr>wg_meta := (wg_meta u)\<lparr>cm_entry := cm_entry (wg_meta w)\<rparr>\<rparr>"
| "wg_copy Exit w u = u\<lparr>wg_meta := (wg_meta u)\<lparr>cm_exit := cm_exit (wg_meta w)\<rparr>\<rparr>"
| "wg_copy Load w u = u\<lparr>wg_meta := (wg_meta u)\<lparr>cm_load := cm_load (wg_meta w)\<rparr>\<rparr>"
| "wg_copy Score w u = u\<lparr>wg_meta := (wg_meta u)\<lparr>cm_score := cm_score (wg_meta w)\<rparr>\<rparr>"
| "wg_copy Expires w u = u\<lparr>wg_meta := (wg_meta u)\<lparr>cm_expires := cm_expires (wg_meta w)\<rparr>\<rparr>"

text \<open>What \<^verbatim>\<open>set\<close> does for each parameter.\<close>

lemma meta_set_key:
  "meta_set cl (key_name Server) v m =
     (if \<not> utf8_ok v \<or> list_ex (\<lambda>r. \<not> cl_print cl r) (runes v) then Inl ''must be printable'' else Inr (m\<lparr>cm_server := v\<rparr>))"
  "meta_set cl (key_name Entry) v m =
     (if length v \<noteq> 2 \<or> \<not> list_all upper_letter v then Inl ''must be an upper-case ISO2 code'' else Inr (m\<lparr>cm_entry := v\<rparr>))"
  "meta_set cl (key_name Exit) v m =
     (if length v \<noteq> 2 \<or> \<not> list_all upper_letter v then Inl ''must be an upper-case ISO2 code'' else Inr (m\<lparr>cm_exit := v\<rparr>))"
  "meta_set cl (key_name Load) v m = (case parse_uint v 0 100 of Inl e \<Rightarrow> Inl e | Inr n \<Rightarrow> Inr (m\<lparr>cm_load := Some n\<rparr>))"
  "meta_set cl (key_name Score) v m =
     (case cl_float cl v of
        Some f \<Rightarrow> if 0 \<le> f then Inr (m\<lparr>cm_score := Some f\<rparr>) else Inl ''must be a number >= 0''
      | None \<Rightarrow> Inl ''must be a number >= 0'')"
  "meta_set cl (key_name Expires) v m =
     (case cl_time cl v of Some t \<Rightarrow> Inr (m\<lparr>cm_expires := t\<rparr>) | None \<Rightarrow> Inl ''must be RFC 3339'')"
  by (simp_all add: meta_set_def)

lemma wg_set_key:
  "wg_set cl (key_name PublicKey) v w = (case parse_key v of Inl e \<Rightarrow> Inl e | Inr b \<Rightarrow> Inr (w\<lparr>wg_public := b\<rparr>))"
  "wg_set cl (key_name Address) v w =
     (case parse_list v (parse_address cl) ''each must be an IP or CIDR'' of Inl e \<Rightarrow> Inl e | Inr l \<Rightarrow> Inr (w\<lparr>wg_address := l\<rparr>))"
  "wg_set cl (key_name Dns) v w =
     (case parse_list v (parse_ip cl) ''each must be an IP'' of Inl e \<Rightarrow> Inl e | Inr l \<Rightarrow> Inr (w\<lparr>wg_dns := l\<rparr>))"
  "wg_set cl (key_name Mtu) v w = (case parse_uint v 576 1500 of Inl e \<Rightarrow> Inl e | Inr n \<Rightarrow> Inr (w\<lparr>wg_mtu := n\<rparr>))"
  "wg_set cl (key_name AllowedIps) v w =
     (case parse_list v (cl_prefix cl) ''each must be a CIDR'' of Inl e \<Rightarrow> Inl e | Inr l \<Rightarrow> Inr (w\<lparr>wg_allowed := l\<rparr>))"
  "wg_set cl (key_name Reserved) v w = (case parse_reserved v of Inl e \<Rightarrow> Inl e | Inr r \<Rightarrow> Inr (w\<lparr>wg_reserved := Some r\<rparr>))"
  "wg_set cl (key_name Keepalive) v w = (case parse_uint v 0 65535 of Inl e \<Rightarrow> Inl e | Inr n \<Rightarrow> Inr (w\<lparr>wg_keepalive := n\<rparr>))"
  "wg_set cl (key_name PresharedKey) v w = (case parse_key v of Inl e \<Rightarrow> Inl e | Inr b \<Rightarrow> Inr (w\<lparr>wg_preshared := Some b\<rparr>))"
  by (simp_all add: wg_set_def)

lemma wg_set_meta:
  assumes "k \<in> {Server, Entry, Exit, Load, Score, Expires}"
  shows "wg_set cl (key_name k) v w = (case meta_set cl (key_name k) v (wg_meta w) of Inl e \<Rightarrow> Inl e | Inr m \<Rightarrow> Inr (w\<lparr>wg_meta := m\<rparr>))"
  using assms by (auto simp: wg_set_def)

declare key_name.simps [simp del]

lemmas wg_set_rules = wg_set_key wg_set_meta meta_set_key

lemma wg_set_copies: "wg_set cl (key_name k) v w0 = Inr w1 \<Longrightarrow> w1 = wg_copy k w1 w0"
  by (cases k) (auto simp: wg_set_rules split: sum.splits if_splits option.splits)

lemma wg_copy_other:
  assumes "j \<noteq> k"
  shows "wg_copy j (wg_copy k x w) u = wg_copy j w u" "wg_text cl (wg_copy k x w) j = wg_text cl w j"
    "wg_copy j x (wg_copy k y u) = wg_copy k y (wg_copy j x u)"
proof -
  show "wg_copy j (wg_copy k x w) u = wg_copy j w u" using assms by (cases j; cases k) simp_all
  show "wg_text cl (wg_copy k x w) j = wg_text cl w j" using assms by (cases j; cases k) simp_all
  show "wg_copy j x (wg_copy k y u) = wg_copy k y (wg_copy j x u)" using assms by (cases j; cases k) simp_all
qed

text \<open>A field is what its text sets, or has no text and the value of an absent parameter.\<close>

definition field_back :: "cand_lib \<Rightarrow> wireguard \<Rightarrow> wg_key \<Rightarrow> bool" where
  "field_back cl w k \<longleftrightarrow>
     (if wg_text cl w k = '''' then \<forall>u. wg_copy k w u = wg_copy k new_wireguard u
      else \<forall>u. wg_set cl (key_name k) (wg_text cl w k) u = Inr (wg_copy k w u))"

lemma parse_key_text: "length b = 32 \<Longrightarrow> parse_key (b64_encode True b) = Inr b"
  by (simp add: parse_key_def b64_decode_encode)

lemma parse_key_Inr: "parse_key s = Inr b \<Longrightarrow> length b = 32"
  by (auto simp: parse_key_def split: option.splits if_splits)

lemma b64_encode_nonempty: "s \<noteq> '''' \<Longrightarrow> b64_encode std s \<noteq> ''''"
  by (cases "(std, s)" rule: b64_encode.cases) (auto simp: Let_def)

lemma key_text: "parse_key s = Inr b \<Longrightarrow> parse_key (b64_encode True b) = Inr b \<and> b64_encode True b \<noteq> ''''"
  using parse_key_text [OF parse_key_Inr] parse_key_Inr [of s b] b64_encode_nonempty [of b True] by fastforce

lemma parse_reserved_text:
  assumes "parse_reserved v = Inr (a, b, c)"
  shows "parse_reserved (join_with '','' (map int_text [a, b, c])) = Inr (a, b, c)" "join_with '','' (map int_text [a, b, c]) \<noteq> ''''"
proof -
  have r: "0 \<le> x \<and> x \<le> 255" if "x \<in> {a, b, c}" for x
    using assms that by (auto simp: parse_reserved_def split: list.splits sum.splits dest!: parse_uint_Inr)
  have c: "CHR '','' \<notin> set (int_text x)" if "x \<in> {a, b, c}" for x
    using int_text_no_comma [of x "CHR '',''"] r [OF that] by (auto simp: is_digit_def)
  have "split_on CHR '','' (join_with '','' (map int_text [a, b, c])) = map int_text [a, b, c]"
    using c by (intro split_on_join_with) auto
  then show "parse_reserved (join_with '','' (map int_text [a, b, c])) = Inr (a, b, c)"
    using r by (simp add: parse_reserved_def parse_uint_text)
  show "join_with '','' (map int_text [a, b, c]) \<noteq> ''''" by simp
qed

lemma parse_uint_back: "parse_uint v lo hi = Inr n \<Longrightarrow> 0 \<le> lo \<Longrightarrow> hi < 2 ^ 63 \<Longrightarrow> parse_uint (int_text n) lo hi = Inr n \<and> int_text n \<noteq> ''''"
  using parse_uint_Inr [of v lo hi n] int_text_chars(2) by (auto simp: parse_uint_text)


text \<open>A time that is left out or is read back from its text.\<close>

definition time_back :: "cand_lib \<Rightarrow> time \<Rightarrow> bool" where
  "time_back cl t \<longleftrightarrow> t = zero_time \<or> cl_time cl (cl_time_text cl t) = Some t"

lemma wg_set_back:
  assumes "cand_law cl" "wg_set cl (key_name k) v w0 = Inr w1" "v \<noteq> ''''" "k = Expires \<longrightarrow> time_back cl (cm_expires (wg_meta w1))"
  shows "field_back cl w1 k \<and> (k \<noteq> Keepalive \<and> k \<noteq> Expires \<longrightarrow> wg_text cl w1 k \<noteq> '''')"
proof (cases k)
  case Address
  then obtain l where "parse_list v (parse_address cl) ''each must be an IP or CIDR'' = Inr l" "w1 = w0\<lparr>wg_address := l\<rparr>"
    using assms(2) by (auto simp: wg_set_rules split: sum.splits)
  then show ?thesis using Address prefixes_text [OF assms(1) _ address_text [OF assms(1)]]
    by (simp add: field_back_def wg_set_rules)
next
  case Dns
  then show ?thesis using assms(2) ips_text [OF assms(1)]
    by (auto simp: field_back_def wg_set_rules split: sum.splits)
next
  case AllowedIps
  then obtain l where "parse_list v (cl_prefix cl) ''each must be a CIDR'' = Inr l" "w1 = w0\<lparr>wg_allowed := l\<rparr>"
    using assms(2) by (auto simp: wg_set_rules split: sum.splits)
  then show ?thesis using AllowedIps prefixes_text [OF assms(1), of v "cl_prefix cl"] prefix_lawD(3) [OF assms(1)]
    by (simp add: field_back_def wg_set_rules)
next
  case Reserved
  then obtain a b c where "parse_reserved v = Inr (a, b, c)" "w1 = w0\<lparr>wg_reserved := Some (a, b, c)\<rparr>"
    using assms(2) by (auto simp: wg_set_rules split: sum.splits)
  then show ?thesis using Reserved parse_reserved_text [of v a b c]
    by (simp add: field_back_def wg_set_rules del: list.map join_with.simps)
next
  case Load
  then obtain n where "parse_uint v 0 100 = Inr n" "wg_meta w1 = (wg_meta w0)\<lparr>cm_load := Some n\<rparr>"
    using assms(2) by (auto simp: wg_set_rules split: sum.splits)
  then show ?thesis using Load parse_uint_back [of v 0 100 n]
    by (simp add: field_back_def wg_set_rules)
next
  case Score
  then obtain f where f: "cl_float cl v = Some f" "0 \<le> f" "wg_meta w1 = (wg_meta w0)\<lparr>cm_score := Some f\<rparr>"
    using assms(2) by (auto simp: wg_set_rules split: sum.splits option.splits if_splits)
  have "cl_float cl (cl_float_text cl f) = Some f" "cl_float_text cl f \<noteq> ''''"
    using f(1) assms(1) unfolding cand_law_def float_law_def by blast+
  then show ?thesis using Score f by (simp add: field_back_def wg_set_rules)
next
  case Expires
  then obtain t where t: "cl_time cl v = Some t" "wg_meta w1 = (wg_meta w0)\<lparr>cm_expires := t\<rparr>"
    using assms(2) by (auto simp: wg_set_rules split: sum.splits option.splits)
  show ?thesis
  proof (cases "t = zero_time")
    case True
    then show ?thesis using Expires t by (simp add: field_back_def wg_set_rules new_wireguard_def no_meta_def)
  next
    case False
    then have "cl_time cl (cl_time_text cl t) = Some t" using t assms(4) Expires by (simp add: time_back_def)
    moreover have "cl_time_text cl t \<noteq> ''''"
      using calculation assms(1) unfolding cand_law_def time_law_def by blast
    ultimately show ?thesis using Expires t by (simp add: field_back_def wg_set_rules new_wireguard_def no_meta_def)
  qed
next
  case PublicKey
  then show ?thesis using assms(2) key_text [of v] by (auto simp: field_back_def wg_set_rules split: sum.splits)
next
  case PresharedKey
  then show ?thesis using assms(2) key_text [of v] by (auto simp: field_back_def wg_set_rules split: sum.splits)
next
  case Mtu
  then show ?thesis using assms(2) parse_uint_back [of v 576 1500] by (auto simp: field_back_def wg_set_rules split: sum.splits)
next
  case Keepalive
  then show ?thesis using assms(2) parse_uint_back [of v 0 65535]
    by (auto simp: field_back_def wg_set_rules new_wireguard_def split: sum.splits)
qed (use assms(2,3) in \<open>auto simp: field_back_def wg_set_rules split: if_splits\<close>)

section \<open>All parameters\<close>

lemma wg_set_others:
  assumes "wg_set cl (key_name k) v w0 = Inr w1" "j \<noteq> k"
  shows "wg_copy j w1 u = wg_copy j w0 u" "wg_text cl w1 j = wg_text cl w0 j"
  using wg_copy_other(1) [OF assms(2), of w1 w0 u] wg_copy_other(2) [OF assms(2), of cl w1 w0] wg_set_copies [OF assms(1)]
  by metis+

lemma set_params_rest:
  assumes "set_params (wg_set cl) (map key_name ks) q w0 = Inr w" "j \<notin> set ks"
  shows "wg_copy j w u = wg_copy j w0 u \<and> wg_text cl w j = wg_text cl w0 j"
  using assms
proof (induction ks arbitrary: w0)
  case (Cons k ks)
  show ?case
  proof (cases "map_of q (key_name k)")
    case None
    then show ?thesis using Cons by simp
  next
    case (Some v)
    then obtain w1 where w1: "wg_set cl (key_name k) v w0 = Inr w1" "set_params (wg_set cl) (map key_name ks) q w1 = Inr w"
      using Cons.prems(1) by (auto split: sum.splits)
    have "wg_copy j w1 u = wg_copy j w0 u" "wg_text cl w1 j = wg_text cl w0 j"
      using wg_set_others [OF w1(1)] Cons.prems(2) by auto
    then show ?thesis using Cons.IH [OF w1(2)] Cons.prems(2) by simp
  qed
qed simp

lemma field_back_cong:
  assumes "\<forall>u. wg_copy k w u = wg_copy k w0 u" "wg_text cl w k = wg_text cl w0 k"
  shows "field_back cl w k = field_back cl w0 k"
  using assms by (simp add: field_back_def)

lemma expires_cong: "\<forall>u. wg_copy Expires w u = wg_copy Expires w0 u \<Longrightarrow> cm_expires (wg_meta w) = cm_expires (wg_meta w0)"
  by (drule spec [of _ new_wireguard]) (simp add: new_wireguard_def no_meta_def)

lemma set_params_back:
  assumes "cand_law cl" "set_params (wg_set cl) (map key_name ks) q w0 = Inr w" "distinct ks"
    and "\<forall>k v. map_of q k = Some v \<longrightarrow> v \<noteq> ''''"
    and "\<forall>k \<in> set ks. map_of q (key_name k) = None \<longrightarrow> field_back cl w0 k"
  shows "\<forall>k \<in> set ks. (k = Expires \<longrightarrow> time_back cl (cm_expires (wg_meta w))) \<longrightarrow> field_back cl w k \<and>
    (map_of q (key_name k) \<noteq> None \<and> k \<noteq> Keepalive \<and> k \<noteq> Expires \<longrightarrow> wg_text cl w k \<noteq> '''')"
  using assms(2,3,5)
proof (induction ks arbitrary: w0)
  case (Cons k ks)
  have k: "k \<notin> set ks" using Cons.prems(2) by simp
  show ?case
  proof (cases "map_of q (key_name k)")
    case None
    then have run: "set_params (wg_set cl) (map key_name ks) q w0 = Inr w" using Cons.prems(1) by simp
    have "field_back cl w k"
      using field_back_cong [of k w w0 cl] set_params_rest [OF run k] Cons.prems(3) None by simp
    then show ?thesis using None Cons.IH [OF run] Cons.prems(2,3) by auto
  next
    case (Some v)
    then obtain w1 where w1: "wg_set cl (key_name k) v w0 = Inr w1" and run: "set_params (wg_set cl) (map key_name ks) q w1 = Inr w"
      using Cons.prems(1) by (auto split: sum.splits)
    have rest: "\<forall>u. wg_copy k w u = wg_copy k w1 u" "wg_text cl w k = wg_text cl w1 k"
      using set_params_rest [OF run k] by auto
    have rt: "field_back cl w1 k \<and> (k \<noteq> Keepalive \<and> k \<noteq> Expires \<longrightarrow> wg_text cl w1 k \<noteq> '''')"
      if "k = Expires \<longrightarrow> time_back cl (cm_expires (wg_meta w))"
    proof -
      have "k = Expires \<longrightarrow> time_back cl (cm_expires (wg_meta w1))" using expires_cong [of w w1] rest(1) that by metis
      then show ?thesis using wg_set_back [OF assms(1) w1] assms(4) Some by blast
    qed
    have "map_of q (key_name j) = None \<longrightarrow> field_back cl w1 j" if "j \<in> set ks" for j
    proof -
      have "j \<noteq> k" using that k by auto
      then have "\<forall>u. wg_copy j w1 u = wg_copy j w0 u" "wg_text cl w1 j = wg_text cl w0 j"
        using wg_set_others [OF w1] by auto
      then show ?thesis using field_back_cong [of j w1 w0 cl] Cons.prems(3) that by simp
    qed
    then show ?thesis using Cons.IH [OF run] Cons.prems(2) rt field_back_cong [OF rest] rest(2) by auto
  qed
qed simp

text \<open>The expiry of a candidate is read from its parameter, or it has none.\<close>

lemma set_params_expires:
  assumes "set_params (wg_set cl) (map key_name ks) q w0 = Inr w" "distinct ks" "Expires \<in> set ks"
  shows "case map_of q (key_name Expires) of None \<Rightarrow> cm_expires (wg_meta w) = cm_expires (wg_meta w0)
    | Some v \<Rightarrow> cl_time cl v = Some (cm_expires (wg_meta w))"
  using assms
proof (induction ks arbitrary: w0)
  case (Cons k ks)
  show ?case
  proof (cases "map_of q (key_name k)")
    case None
    then have run: "set_params (wg_set cl) (map key_name ks) q w0 = Inr w" using Cons.prems(1) by simp
    show ?thesis
    proof (cases "k = Expires")
      case True
      then have "Expires \<notin> set ks" using Cons.prems(2) by auto
      then have "\<forall>u. wg_copy Expires w u = wg_copy Expires w0 u" using set_params_rest [OF run] by blast
      then have "cm_expires (wg_meta w) = cm_expires (wg_meta w0)" by (rule expires_cong)
      then show ?thesis using None True by simp
    next
      case False
      then show ?thesis using Cons.IH [OF run] Cons.prems(2,3) by simp
    qed
  next
    case (Some v)
    then obtain w1 where w1: "wg_set cl (key_name k) v w0 = Inr w1" and run: "set_params (wg_set cl) (map key_name ks) q w1 = Inr w"
      using Cons.prems(1) by (auto split: sum.splits)
    show ?thesis
    proof (cases "k = Expires")
      case True
      then have "Expires \<notin> set ks" using Cons.prems(2) by auto
      then have "\<forall>u. wg_copy Expires w u = wg_copy Expires w1 u" using set_params_rest [OF run] by blast
      then have "cm_expires (wg_meta w) = cm_expires (wg_meta w1)" by (rule expires_cong)
      moreover have "cl_time cl v = Some (cm_expires (wg_meta w1))"
        using w1 True by (auto simp: wg_set_rules split: sum.splits option.splits)
      ultimately show ?thesis using Some True by simp
    next
      case False
      have "\<forall>u. wg_copy Expires w1 u = wg_copy Expires w0 u" using wg_set_others(1) [OF w1] False by metis
      then have "cm_expires (wg_meta w1) = cm_expires (wg_meta w0)" by (rule expires_cong)
      then show ?thesis using Cons.IH [OF run] Cons.prems(2,3) False by (simp split: option.splits)
    qed
  qed
qed simp

lemma set_params_texts:
  assumes "\<forall>k \<in> set ks. field_back cl w k \<and>
      map_of q (key_name k) = (if wg_text cl w k = '''' then None else Some (wg_text cl w k))"
    and "distinct ks" "\<forall>k \<in> set ks. wg_copy k new_wireguard u = u"
  shows "set_params (wg_set cl) (map key_name ks) q u = Inr (fold (\<lambda>k. wg_copy k w) ks u)"
  using assms
proof (induction ks arbitrary: u)
  case (Cons k ks)
  have blank: "\<forall>j \<in> set ks. wg_copy j new_wireguard (wg_copy k w u) = wg_copy k w u"
    using wg_copy_other(3) Cons.prems(2,3) by (metis distinct.simps(2) list.set_intros(2))
  have ih: "set_params (wg_set cl) (map key_name ks) q (wg_copy k w u) = Inr (fold (\<lambda>k. wg_copy k w) ks (wg_copy k w u))"
    using Cons.IH [OF _ _ blank] Cons.prems by simp
  show ?case
  proof (cases "wg_text cl w k = ''''")
    case True
    then have "wg_copy k w u = u" using Cons.prems(1,3) by (simp add: field_back_def)
    then show ?thesis using ih True Cons.prems(1) by simp
  next
    case False
    then have "wg_set cl (key_name k) (wg_text cl w k) u = Inr (wg_copy k w u)" using Cons.prems(1) by (simp add: field_back_def)
    then show ?thesis using ih False Cons.prems(1) by simp
  qed
qed simp

text \<open>A new candidate with the four fields that are not parameters of the query.\<close>

definition wg_start :: "wireguard \<Rightarrow> wireguard" where
  "wg_start w = new_wireguard\<lparr>wg_label := wg_label w, wg_private := wg_private w, wg_endpoint := wg_endpoint w,
     wg_provider := wg_provider w\<rparr>"

lemma wg_start_blank: "wg_copy k new_wireguard (wg_start w) = wg_start w"
  by (cases k) (simp_all add: wg_start_def new_wireguard_def no_meta_def)

lemma wg_copy_all: "fold (\<lambda>k. wg_copy k w) wg_keys (wg_start w) = w"
  by (simp add: wg_keys_def wg_start_def new_wireguard_def no_meta_def)

section \<open>The query of a line\<close>

definition plain_key :: "string \<Rightarrow> bool" where
  "plain_key k \<longleftrightarrow> list_all (\<lambda>x. 97 \<le> (of_char x :: nat) \<and> (of_char x :: nat) \<le> 122) k"

definition segment :: "string \<times> string \<Rightarrow> string" where
  "segment kv = fst kv @ ''='' @ keep_literal (escape EscQuery (snd kv))"

lemma plain_key_chars: "plain_key k \<Longrightarrow> x \<in> set k \<Longrightarrow> graphic x \<and> x \<notin> {CHR ''%'', CHR ''+'', CHR ''='', CHR ''&'', CHR ''#''}"
  by (auto simp: plain_key_def list_all_iff graphic_def Let_def)

lemma unescape_id: "CHR ''%'' \<notin> set k \<Longrightarrow> CHR ''+'' \<notin> set k \<Longrightarrow> unescape True k = Some k"
  by (induction k) auto

lemma segment_cut:
  assumes "plain_key (fst kv)"
  shows "cut_at CHR ''='' (segment kv) = (fst kv, keep_literal (escape EscQuery (snd kv)))" "unescape True (fst kv) = Some (fst kv)"
  using plain_key_chars [OF assms] cut_at_cons [of "CHR ''=''" "fst kv"] unescape_id [of "fst kv"] by (auto simp: segment_def)

lemma segment_chars:
  assumes "plain_key (fst kv)" "x \<in> set (segment kv)"
  shows "graphic x \<and> x \<noteq> CHR ''#'' \<and> x \<noteq> CHR ''&''"
proof -
  have "x \<in> set (fst kv) \<or> x = CHR ''='' \<or> x \<in> set (keep_literal (escape EscQuery (snd kv)))"
    using assms(2) by (auto simp: segment_def)
  then show ?thesis using plain_key_chars [OF assms(1), of x] kept_value [of x "snd kv"] by (auto simp: graphic_def)
qed

lemma cand_query_segments:
  assumes "distinct (map fst ps)" "\<forall>kv \<in> set ps. fst kv \<in> set known \<and> plain_key (fst kv) \<and> snd kv \<noteq> ''''"
    and "\<forall>kv \<in> set ps. map_of q (fst kv) = None"
  shows "\<exists>q'. cand_query known (map segment ps) q = Inr q' \<and>
    (\<forall>k. map_of q' k = (case map_of ps k of Some v \<Rightarrow> Some v | None \<Rightarrow> map_of q k))"
  using assms
proof (induction ps arbitrary: q)
  case (Cons kv ps)
  let ?q = "AList.update (fst kv) (snd kv) q"
  have fresh: "\<forall>x \<in> set ps. map_of ?q (fst x) = None"
    using Cons.prems by (auto simp: map_of_update rev_image_eqI)
  then obtain q' where q': "cand_query known (map segment ps) ?q = Inr q'"
    "\<forall>k. map_of q' k = (case map_of ps k of Some v \<Rightarrow> Some v | None \<Rightarrow> map_of ?q k)"
    using Cons.IH [OF _ _ fresh] Cons.prems(1,2) by auto
  have kv: "fst kv \<in> set known" "plain_key (fst kv)" "snd kv \<noteq> ''''" "map_of q (fst kv) = None" using Cons.prems(2,3) by simp_all
  have step: "cand_query known (segment kv # map segment ps) q = cand_query known (map segment ps) ?q"
    unfolding cand_query.simps segment_cut(1) [OF kv(2)] Let_def prod.case segment_cut(2) [OF kv(2)] unescape_query_value option.case
    using kv by simp
  have "map_of ps (fst kv) = None" using Cons.prems(1) by (simp add: map_of_eq_None_iff)
  then have "map_of q' k = (case map_of (kv # ps) k of Some v \<Rightarrow> Some v | None \<Rightarrow> map_of q k)" for k
    using q'(2) by (cases kv) (auto simp: map_of_update split: option.splits)
  then show ?case using q'(1) step by auto
qed simp

lemma cand_query_values:
  "cand_query known segs q = Inr q' \<Longrightarrow> \<forall>k v. map_of q k = Some v \<longrightarrow> v \<noteq> '''' \<Longrightarrow> \<forall>k v. map_of q' k = Some v \<longrightarrow> v \<noteq> ''''"
proof (induction known segs q rule: cand_query.induct)
  case (2 known seg segs q)
  obtain k v where kv: "cut_at CHR ''='' seg = (k, v)" by fastforce
  then obtain key val where u: "unescape True k = Some key" "unescape True v = Some val" "key \<in> set known"
    "map_of q key = None" "val \<noteq> ''''" "cand_query known segs (AList.update key val q) = Inr q'"
    using "2.prems"(1) unfolding cand_query.simps kv Let_def prod.case
    by (cases "unescape True k"; cases "unescape True v") (simp_all split: if_split_asm)
  have "\<forall>k v. map_of (AList.update key val q) k = Some v \<longrightarrow> v \<noteq> ''''" using "2.prems"(2) u(5) by (auto simp: map_of_update)
  then show ?case using "2.IH" [OF refl kv [symmetric] refl u(1,2) _ _ u(5,6)] u(3,4) by blast
qed simp

lemma parse_cand_query_values: "parse_cand_query raw known = Inr q \<Longrightarrow> map_of q k = Some v \<Longrightarrow> v \<noteq> ''''"
  using cand_query_values [of known "split_on CHR ''&'' raw" "[]" q] by (auto simp: parse_cand_query_def split: if_splits)

lemma parse_segments:
  assumes "distinct (map fst ps)" "\<forall>kv \<in> set ps. fst kv \<in> set known \<and> plain_key (fst kv) \<and> snd kv \<noteq> ''''" "ps \<noteq> []"
  shows "query_text (join_with ''&'' (map segment ps))"
    "\<exists>q'. parse_cand_query (join_with ''&'' (map segment ps)) known = Inr q' \<and> map_of q' = map_of ps"
proof -
  have chars: "graphic x \<and> x \<noteq> CHR ''#'' \<and> x \<noteq> CHR ''&''" if "x \<in> set (segment kv)" "kv \<in> set ps" for x kv
    using segment_chars that assms(2) by blast
  have split: "split_on CHR ''&'' (join_with ''&'' (map segment ps)) = map segment ps"
    using assms(3) chars by (intro split_on_join_with) auto
  have ne: "join_with ''&'' (map segment ps) \<noteq> ''''"
    using assms(3) by (intro join_with_nonempty) (auto simp: segment_def)
  show "query_text (join_with ''&'' (map segment ps))"
    unfolding query_text_def
  proof (intro conjI ballI ne)
    fix x assume "x \<in> set (join_with ''&'' (map segment ps))"
    then consider "x = CHR ''&''" | kv where "kv \<in> set ps" "x \<in> set (segment kv)"
      using join_with_chars [of x "''&''" "map segment ps"] by auto
    then show "graphic x" "x \<noteq> CHR ''#''" using chars by (cases; auto simp: graphic_def)+
  qed
  obtain q' where "cand_query known (map segment ps) [] = Inr q'"
    "\<forall>k. map_of q' k = (case map_of ps k of Some v \<Rightarrow> Some v | None \<Rightarrow> map_of [] k)"
    using cand_query_segments [OF assms(1,2), of "[]"] by auto
  then show "\<exists>q'. parse_cand_query (join_with ''&'' (map segment ps)) known = Inr q' \<and> map_of q' = map_of ps"
    using ne split by (auto simp: parse_cand_query_def fun_eq_iff split: option.splits)
qed

text \<open>The parameters of a formatted WireGuard candidate.\<close>

lemma wg_params_plain: "k \<in> set wg_params \<Longrightarrow> plain_key k"
proof -
  have "list_all plain_key wg_params" by code_simp
  then show "k \<in> set wg_params \<Longrightarrow> plain_key k" by (simp add: list_all_iff)
qed

definition written_params :: "cand_lib \<Rightarrow> wireguard \<Rightarrow> (string \<times> string) list" where
  "written_params cl w = map (\<lambda>k. (key_name k, wg_text cl w k)) (filter (\<lambda>k. wg_text cl w k \<noteq> '''') wg_keys)"

lemma format_params_written:
  assumes "wg_provider w \<noteq> ''''"
  shows "format_wireguard cl w = ''wireguard://'' @ escape EscUser (b64_encode True (wg_private w)) @ ''@'' @ wg_endpoint w @
    ''?'' @ join_with ''&'' (map segment ((''provider'', wg_provider w) # written_params cl w)) @
    (if wg_label w = '''' then '''' else ''#'' @ escape EscPath (wg_label w))"
proof -
  let ?ne = "\<lambda>(k, v). v \<noteq> (''''::string)"
  let ?kv = "\<lambda>k. (key_name k, wg_text cl w k)"
  let ?psk = "case wg_preshared w of None \<Rightarrow> '''' | Some k \<Rightarrow> b64_encode True k"
  have all: "map ?kv wg_keys = map ?kv [PublicKey, Address, Dns, Mtu, AllowedIps] @ [?kv Reserved] @ [?kv Keepalive] @
    [?kv PresharedKey] @ map ?kv [Server, Entry, Exit] @ [?kv Load] @ [?kv Score] @ [?kv Expires]"
    by (simp add: wg_keys_def)
  have opt: "filter ?ne (case wg_reserved w of None \<Rightarrow> [] | Some (a, b, c) \<Rightarrow> [(''reserved'', join_with '','' (map int_text [a, b, c]))]) =
      filter ?ne [?kv Reserved]"
    "filter ?ne (if wg_keepalive w = 0 then [] else [(''keepalive'', int_text (wg_keepalive w))]) = filter ?ne [?kv Keepalive]"
    "filter ?ne (case cm_load (wg_meta w) of None \<Rightarrow> [] | Some n \<Rightarrow> [(''load'', int_text n)]) = filter ?ne [?kv Load]"
    "filter ?ne (case cm_score (wg_meta w) of None \<Rightarrow> [] | Some x \<Rightarrow> [(''score'', cl_float_text cl x)]) = filter ?ne [?kv Score]"
    "filter ?ne (if cm_expires (wg_meta w) = zero_time then [] else [(''expires'', cl_time_text cl (cm_expires (wg_meta w)))]) =
      filter ?ne [?kv Expires]"
    by (auto simp: key_name.simps split: option.splits prod.splits)
  have names: "[(''publickey'', b64_encode True (wg_public w)),
      (''address'', join_with '','' (map (cl_prefix_text cl) (wg_address w))),
      (''dns'', join_with '','' (map (cl_ip_text cl) (wg_dns w))), (''mtu'', int_text (wg_mtu w)),
      (''allowedips'', join_with '','' (map (cl_prefix_text cl) (wg_allowed w)))] = map ?kv [PublicKey, Address, Dns, Mtu, AllowedIps]"
    "[(''presharedkey'', ?psk)] = [?kv PresharedKey]"
    "[(''server'', cm_server (wg_meta w)), (''entry'', cm_entry (wg_meta w)), (''exit'', cm_exit (wg_meta w))] = map ?kv [Server, Entry, Exit]"
    by (simp_all add: key_name.simps)
  have "filter ?ne (wg_tunnel_params cl w @ [(''presharedkey'', ?psk)] @ meta_format cl (wg_meta w)) = filter ?ne (map ?kv wg_keys)"
    unfolding wg_tunnel_params_def meta_format_def all names filter_append opt append_assoc by (rule refl)
  also have "\<dots> = written_params cl w" by (simp add: written_params_def filter_map comp_def)
  finally have "filter ?ne ((''provider'', wg_provider w) # wg_tunnel_params cl w @ [(''presharedkey'', ?psk)] @ meta_format cl (wg_meta w)) =
    (''provider'', wg_provider w) # written_params cl w" using assms by simp
  moreover have "(\<lambda>(k, v). k @ ''='' @ keep_literal (escape EscQuery v)) = segment" by (auto simp: segment_def)
  ultimately show ?thesis
    unfolding format_wireguard_def wg_format_def format_line_def format_params_def by simp
qed

lemma written_params_lookup: "map_of (written_params cl w) (key_name k) = (if wg_text cl w k = '''' then None else Some (wg_text cl w k))"
proof -
  have "map_of (map (\<lambda>k. (key_name k, f k)) ks) (key_name k) = (if k \<in> set ks then Some (f k) else None)" for f :: "wg_key \<Rightarrow> string" and ks
    by (induction ks) (auto simp: key_name_inj)
  then show ?thesis by (simp add: written_params_def wg_keys_all)
qed

lemma written_params_ok:
  assumes "p \<noteq> ''''"
  shows "distinct (map fst ((''provider'', p) # written_params cl w))"
    "\<forall>kv \<in> set ((''provider'', p) # written_params cl w). fst kv \<in> set wg_params \<and> plain_key (fst kv) \<and> snd kv \<noteq> ''''"
proof -
  have d: "distinct (map fst (written_params cl w))"
    using wg_keys_all(2) by (simp add: written_params_def comp_def distinct_map inj_on_def key_name_inj)
  then show "distinct (map fst ((''provider'', p) # written_params cl w))"
    using key_name_params(2) by (auto simp: written_params_def) metis
  have k: "fst kv \<in> set wg_params \<and> snd kv \<noteq> ''''" if "kv \<in> set (written_params cl w)" for kv
    using that key_name_params(1) by (auto simp: written_params_def)
  have "''provider'' \<in> set wg_params" by (simp add: wg_keys_names)
  then show "\<forall>kv \<in> set ((''provider'', p) # written_params cl w). fst kv \<in> set wg_params \<and> plain_key (fst kv) \<and> snd kv \<noteq> ''''"
    using k wg_params_plain assms by auto
qed

section \<open>The endpoint\<close>

definition bare_host :: "string \<Rightarrow> bool" where
  "bare_host h \<longleftrightarrow> (\<forall>x \<in> set h. graphic x \<and> x \<notin> {CHR ''['', CHR '']'', CHR ''#'', CHR ''@'', CHR ''?'', CHR ''/''})"

lemma bare_chars:
  "ip_char x \<Longrightarrow> graphic x \<and> x \<notin> {CHR ''['', CHR '']'', CHR ''#'', CHR ''@'', CHR ''?'', CHR ''/''}"
  "host_label_ok l \<Longrightarrow> x \<in> set l \<Longrightarrow> graphic x \<and> x \<notin> {CHR ''['', CHR '']'', CHR ''#'', CHR ''@'', CHR ''?'', CHR ''/''}"
  by (auto simp: ip_char_def host_label_ok_def list_all_iff graphic_def Let_def)

lemma known_host_bare:
  assumes "ip_law cl" "known_host cl h"
  shows "bare_host h"
proof (cases "parse_ip cl h")
  case (Some a)
  then have "list_all ip_char h" using assms(1) unfolding ip_law_def by blast
  then show ?thesis using bare_chars(1) by (simp add: list_all_iff bare_host_def)
next
  case None
  then have "is_hostname h" using assms(2) by (simp add: known_host_def)
  then have l: "\<forall>l \<in> set (split_on CHR ''.'' h). \<forall>x \<in> set l. graphic x \<and> x \<notin> {CHR ''['', CHR '']'', CHR ''#'', CHR ''@'', CHR ''?'', CHR ''/''}"
    using bare_chars(2) unfolding is_hostname_def list_all_iff by blast
  have "x = CHR ''.'' \<or> (\<exists>l \<in> set (split_on CHR ''.'' h). x \<in> set l)" if "x \<in> set h" for x
    using that join_with_chars [of x "''.''" "split_on CHR ''.'' h"] by (simp add: split_on_join)
  then show ?thesis using l by (fastforce simp: bare_host_def graphic_def)
qed

lemma last_cut_at: "c \<notin> set b \<Longrightarrow> last_cut c (a @ c # b) = Some (a, b)"
  using cut_at_cons [of c "rev b" "rev a"] by (simp add: last_cut_def)

lemma split_join_host_port:
  assumes "bare_host h" "CHR '':'' \<notin> set p" "CHR ''['' \<notin> set p" "CHR '']'' \<notin> set p"
  shows "split_host_port (join_host_port h p) = Some (h, p)"
proof (cases "CHR '':'' \<in> set h")
  case True
  have "last_cut CHR '':'' (''['' @ h @ '']:'' @ p) = Some (''['' @ h @ '']'', p)"
    using last_cut_at [OF assms(2), of "''['' @ h @ '']''"] by simp
  moreover have "cut_at CHR '']'' (h @ '']:'' @ p) = (h, CHR '':'' # p)"
    using cut_at_cons [of "CHR '']''" h "CHR '':'' # p"] assms(1) by (auto simp: bare_host_def)
  ultimately show ?thesis using True assms by (auto simp: split_host_port_def join_host_port_def bare_host_def)
next
  case False
  have "h @ '':'' @ p = '''' \<or> hd (h @ '':'' @ p) \<noteq> CHR ''[''" using assms(1) by (cases h) (auto simp: bare_host_def)
  then show ?thesis using False assms last_cut_at [OF assms(2), of h]
    by (auto simp: split_host_port_def join_host_port_def bare_host_def)
qed

lemma parse_endpoint_Inr:
  assumes "cand_law cl" "parse_endpoint cl s = Inr ep"
  obtains h n where "ep = join_host_port h (int_text n)" "known_host cl h" "1 \<le> n" "n \<le> 65535" "parse_endpoint cl ep = Inr ep"
    "\<forall>x \<in> set ep. graphic x \<and> x \<noteq> CHR ''#''"
proof -
  obtain h port n where e: "parse_uint port 1 65535 = Inr n" "ep = join_host_port h (int_text n)" "known_host cl h"
    using assms(2) by (auto simp: parse_endpoint_def known_host_def split: option.splits sum.splits if_splits)
  have n: "1 \<le> n" "n \<le> 65535" using parse_uint_Inr [OF e(1)] by simp_all
  have bare: "bare_host h" using assms(1) by (intro known_host_bare [OF _ e(3)]) (simp add: cand_law_def)
  have d: "graphic x \<and> x \<notin> {CHR '':'', CHR ''['', CHR '']'', CHR ''#''}" if "x \<in> set (int_text n)" for x
    using int_text_no_comma [OF _ that] n(1) by (auto simp: is_digit_def graphic_def Let_def)
  have "split_host_port ep = Some (h, int_text n)"
    unfolding e(2) by (rule split_join_host_port [OF bare]) (use d in blast)+
  then have "parse_endpoint cl ep = Inr ep"
    using e(2,3) parse_uint_text [of 1 65535 n] n by (auto simp: parse_endpoint_def known_host_def)
  moreover have "\<forall>x \<in> set ep. graphic x \<and> x \<noteq> CHR ''#''"
    using bare d unfolding e(2) by (auto simp: join_host_port_def bare_host_def graphic_def)
  ultimately show thesis using that e n by blast
qed

section \<open>Round trip\<close>

lemma set_params_fixed:
  assumes "set_params (wg_set cl) (map key_name ks) q w0 = Inr w"
  shows "wg_label w = wg_label w0 \<and> wg_private w = wg_private w0 \<and> wg_endpoint w = wg_endpoint w0 \<and> wg_provider w = wg_provider w0"
  using assms
proof (induction ks arbitrary: w0)
  case (Cons k ks)
  show ?case
  proof (cases "map_of q (key_name k)")
    case (Some v)
    then obtain w1 where w1: "wg_set cl (key_name k) v w0 = Inr w1" "set_params (wg_set cl) (map key_name ks) q w1 = Inr w"
      using Cons.prems by (auto split: sum.splits)
    have "wg_label (wg_copy k w1 w0) = wg_label w0 \<and> wg_private (wg_copy k w1 w0) = wg_private w0 \<and>
      wg_endpoint (wg_copy k w1 w0) = wg_endpoint w0 \<and> wg_provider (wg_copy k w1 w0) = wg_provider w0" by (cases k) simp_all
    then show ?thesis using Cons.IH [OF w1(2)] wg_set_copies [OF w1(1)] by simp
  qed (use Cons in simp)
qed simp

text \<open>What a parsed candidate is like.\<close>
lemma parse_wireguard_Inr:
  assumes "parse_wireguard cl s = Inr w"
  obtains user1 host q l where "parse_key user1 = Inr (wg_private w)" "parse_endpoint cl host = Inr (wg_endpoint w)"
    "\<forall>k v. map_of q k = Some v \<longrightarrow> v \<noteq> ''''" "check_provider KindWireGuard q wg_required = Inr (wg_provider w)"
    "wg_label w = valid_utf8 False l" "set_params (wg_set cl) (map key_name wg_keys) q (wg_start w) = Inr w"
proof -
  obtain u l user1 key ep q p where r: "cand_uri cl KindWireGuard s = Inr (u, l, user1)" "parse_key user1 = Inr key"
    "parse_endpoint cl (cu_host u) = Inr ep" "parse_cand_query (cu_query u) wg_params = Inr q"
    "check_provider KindWireGuard q wg_required = Inr p"
    "set_params (wg_set cl) (tl wg_params) q
       (new_wireguard\<lparr>wg_label := l, wg_private := key, wg_endpoint := ep, wg_provider := p\<rparr>) = Inr w"
    using assms by (auto simp: parse_wireguard_def split: sum.splits prod.splits)
  have run: "set_params (wg_set cl) (map key_name wg_keys) q
     (new_wireguard\<lparr>wg_label := l, wg_private := key, wg_endpoint := ep, wg_provider := p\<rparr>) = Inr w"
    using r(6) by (simp add: wg_keys_names)
  have w: "wg_label w = l" "wg_private w = key" "wg_endpoint w = ep" "wg_provider w = p"
    using set_params_fixed [OF run] by simp_all
  obtain l0 where "l = valid_utf8 False l0"
    using r(1) by (auto simp: cand_uri_def Let_def split: prod.splits option.splits if_splits)
  then show thesis
    using that [of user1 "cu_host u" q l0] r(2,3,5) parse_cand_query_values [OF r(4)] run unfolding wg_start_def w by blast
qed

lemma provider_known:
  assumes "check_provider KindWireGuard q wg_required = Inr p"
  obtains extra where "map_of (provider_fields KindWireGuard) p = Some extra" "p \<noteq> ''''"
    "\<forall>k \<in> set (wg_required @ extra). map_of q k \<noteq> None" "set extra \<subseteq> {''dns'', ''reserved''}"
proof -
  obtain extra where e: "map_of (provider_fields KindWireGuard) p = Some extra"
    "List.find (\<lambda>k. map_of q k = None) (wg_required @ extra) = None"
    using assms by (auto simp: check_provider_def split: option.splits)
  have "p \<noteq> ''''" "set extra \<subseteq> {''dns'', ''reserved''}" using e(1) by (auto split: if_splits)
  moreover have "\<forall>k \<in> set (wg_required @ extra). map_of q k \<noteq> None"
    using e(2) unfolding find_None_iff by (intro ballI notI) blast
  ultimately show thesis using that e(1) by blast
qed

lemma required_names: "wg_required @ [''dns'', ''reserved''] = map key_name [PublicKey, Address, Mtu, AllowedIps, Dns, Reserved]"
  by (simp add: wg_required_def key_name.simps)

lemma cand_uri_format:
  assumes "cand_law cl" "wg_provider w \<noteq> ''''" "parse_endpoint cl host = Inr (wg_endpoint w)" "wg_label w = valid_utf8 False l"
  shows "cand_uri cl KindWireGuard (format_wireguard cl w) =
    Inr (\<lparr>cu_scheme = ''wireguard'', cu_opaque = '''', cu_path = '''', cu_user = Some (b64_encode True (wg_private w), None),
      cu_host = wg_endpoint w,
      cu_query = join_with ''&'' (map segment ((''provider'', wg_provider w) # written_params cl w))\<rparr>, wg_label w,
      b64_encode True (wg_private w))"
proof -
  let ?q = "join_with ''&'' (map segment ((''provider'', wg_provider w) # written_params cl w))"
  let ?rest = "''wireguard://'' @ escape EscUser (b64_encode True (wg_private w)) @ ''@'' @ wg_endpoint w @ ''?'' @ ?q"
  obtain h n where e: "wg_endpoint w = join_host_port h (int_text n)" "known_host cl h" "1 \<le> n" "n \<le> 65535"
    "\<forall>x \<in> set (wg_endpoint w). graphic x \<and> x \<noteq> CHR ''#''"
    using parse_endpoint_Inr [OF assms(1,3)] by metis
  have q: "query_text ?q" using parse_segments(1) [OF written_params_ok [OF assms(2)]] by simp
  have free: "CHR ''#'' \<notin> set ?rest" using user_chars e(5) q by (auto simp: query_text_def)
  have f: "format_wireguard cl w = ?rest @ (if wg_label w = '''' then '''' else ''#'' @ escape EscPath (wg_label w))"
    unfolding format_params_written [OF assms(2)] by simp
  have cut: "cut_at CHR ''#'' (format_wireguard cl w) = (?rest, escape EscPath (wg_label w))"
    unfolding f using cut_at_plain [OF free] cut_at_cons [OF free, of "escape EscPath (wg_label w)"] by (simp add: escape_def)
  have "cl_url cl ?rest = Some \<lparr>cu_scheme = ''wireguard'', cu_opaque = '''', cu_path = '''',
      cu_user = Some (b64_encode True (wg_private w), None), cu_host = wg_endpoint w, cu_query = ?q\<rparr>"
    using assms(1) e(2,3,4) q unfolding cand_law_def url_law_def e(1)
    by (elim conjE) (drule spec [of _ KindWireGuard], simp)
  then show ?thesis unfolding cand_uri_def cut using assms(4) by (simp add: unescape_path valid_utf8_again)
qed

section \<open>The world of the witnesses\<close>

text \<open>A library whose addresses, numbers and times are digit texts, with a parser of the URLs of candidates.\<close>

definition w_digits :: "string \<Rightarrow> int option" where
  "w_digits s = (if s \<noteq> '''' \<and> list_all is_digit s then Some (digits_value s) else None)"

definition w_ip_text :: "ip \<Rightarrow> string" where
  "w_ip_text a = (case a of IP4 n \<Rightarrow> nat_text n | IP6 n z \<Rightarrow> '''')"

definition w_ip :: "string \<Rightarrow> ip option" where
  "w_ip s = map_option (\<lambda>n. IP4 (nat n)) (w_digits s)"

definition w_prefix :: "string \<Rightarrow> (ip \<times> nat) option" where
  "w_prefix s =
     (let (a, b) = cut_at CHR ''/'' s in
      case (w_ip a, w_digits b) of (Some x, Some n) \<Rightarrow> Some (x, nat n) | _ \<Rightarrow> None)"

definition w_url_of :: "cand_kind \<Rightarrow> string \<Rightarrow> cand_url option" where
  "w_url_of k s =
     (let (authority, q) = cut_at CHR ''?'' s; (user1, host) = cut_at CHR ''@'' authority in
      map_option (\<lambda>u. \<lparr>cu_scheme = cand_kind_text k, cu_opaque = '''', cu_path = '''', cu_user = Some (u, None),
        cu_host = host, cu_query = q\<rparr>) (unescape False user1))"

definition w_url :: "string \<Rightarrow> cand_url option" where
  "w_url s =
     (case cut_prefix s ''wireguard://'' of
        Some r \<Rightarrow> w_url_of KindWireGuard r
      | None \<Rightarrow> (case cut_prefix s ''masque://'' of Some r \<Rightarrow> w_url_of KindMasque r | None \<Rightarrow> None))"

definition w_cl :: cand_lib where
  "w_cl = \<lparr>cl_url = w_url, cl_ip = w_ip, cl_ip_text = w_ip_text, cl_prefix = w_prefix,
     cl_prefix_text = (\<lambda>(a, n). w_ip_text a @ ''/'' @ nat_text n), cl_float = (\<lambda>s. map_option of_int (w_digits s)),
     cl_float_text = (\<lambda>f. int_text \<lfloor>f\<rfloor>), cl_time = w_digits, cl_time_text = int_text, cl_print = (\<lambda>r. 32 \<le> r),
     cl_x25519 = id, cl_pkcs8 = Some, cl_pkcs8_bytes = id, cl_sec1 = id, cl_public = id, cl_pkix_key = Some, cl_pkix = id,
     cl_pem = id\<rparr>"

lemma w_digits_Some: "w_digits s = Some n \<Longrightarrow> s \<noteq> '''' \<and> list_all is_digit s \<and> 0 \<le> n"
  using digits_value_nonneg by (auto simp: w_digits_def split: if_splits)

lemma w_digits_text: "w_digits (nat_text n) = Some (int n)"
  using nat_text_digits [of n] digits_value_nat_text [of n] by (simp add: w_digits_def)

lemma w_digits_int: "0 \<le> i \<Longrightarrow> w_digits (int_text i) = Some i"
  using w_digits_text [of "nat i"] by (simp add: int_text_def)

lemma w_ip_Some: "w_ip s = Some a \<Longrightarrow> (\<exists>n. a = IP4 n) \<and> s \<noteq> '''' \<and> list_all is_digit s"
  using w_digits_Some by (auto simp: w_ip_def)

lemma w_parse_ip: "parse_ip w_cl s = w_ip s"
  by (auto simp: parse_ip_def w_cl_def w_ip_def split: option.splits ip.splits)

lemma w_ip_back: "w_ip (w_ip_text (IP4 n)) = Some (IP4 n)"
  by (simp add: w_ip_def w_ip_text_def w_digits_text)

lemma w_ip_law: "ip_law w_cl"
  unfolding ip_law_def w_parse_ip
proof (intro allI impI)
  fix s a assume "w_ip s = Some a"
  then obtain n where "a = IP4 n" "s \<noteq> ''''" "list_all is_digit s" using w_ip_Some by blast
  moreover have "is_digit x \<Longrightarrow> ip_char x" for x by (auto simp: is_digit_def ip_char_def Let_def)
  ultimately show "s \<noteq> '''' \<and> list_all ip_char s \<and> w_ip (cl_ip_text w_cl a) = Some a"
    using w_ip_back by (auto simp: w_cl_def list_all_iff)
qed

lemma w_prefix_back: "w_prefix (w_ip_text (IP4 m) @ ''/'' @ nat_text n) = Some (IP4 m, n)"
proof -
  have "CHR ''/'' \<notin> set (nat_text m)" using nat_text_digits [of m] by (auto simp: list_all_iff is_digit_def)
  then have "cut_at CHR ''/'' (w_ip_text (IP4 m) @ ''/'' @ nat_text n) = (w_ip_text (IP4 m), nat_text n)"
    using cut_at_cons [of "CHR ''/''" "w_ip_text (IP4 m)"] by (simp add: w_ip_text_def)
  then show ?thesis by (simp add: w_prefix_def w_ip_back w_digits_text)
qed

lemma w_prefix_law: "prefix_law w_cl"
proof -
  have p: "CHR ''/'' \<in> set s \<and> CHR '','' \<notin> set s \<and> (\<exists>m n. x = (IP4 m, n))" if x: "w_prefix s = Some x" for s x
  proof -
    obtain a b where cut: "cut_at CHR ''/'' s = (a, b)" by fastforce
    then obtain y n where y: "w_ip a = Some y" "w_digits b = Some n" "x = (y, nat n)"
      using x by (auto simp: w_prefix_def split: option.splits)
    have "b \<noteq> ''''" "CHR '','' \<notin> set a" "CHR '','' \<notin> set b"
      using w_ip_Some [OF y(1)] w_digits_Some [OF y(2)] by (auto simp: list_all_iff is_digit_def)
    then show ?thesis using cut_at_append [OF cut] w_ip_Some [OF y(1)] y(3) by auto
  qed
  have "cl_prefix w_cl (cl_prefix_text w_cl x) = Some x" if "w_prefix s = Some x" for s x
    using p [OF that] w_prefix_back by (auto simp: w_cl_def)
  moreover have "cl_prefix w_cl (cl_prefix_text w_cl (a, bit_len a)) = Some (a, bit_len a)" if "w_ip s = Some a" for s a
    using w_ip_Some [OF that] w_prefix_back by (auto simp: w_cl_def)
  ultimately show ?thesis using p unfolding prefix_law_def w_parse_ip by (auto simp: w_cl_def)
qed

lemma is_digit_plain: "is_digit x \<Longrightarrow> x \<notin> {CHR ''?'', CHR ''@''}"
  by (auto simp: is_digit_def)

lemma user_free:
  assumes "x \<in> set (escape EscUser s)"
  shows "x \<notin> {CHR ''?'', CHR ''@''}"
proof -
  obtain ch where x: "x \<in> set (escape_char EscUser ch)" using assms by (auto simp: escape_def)
  have q: "unreserved CHR ''?'' = False" "unreserved CHR ''@'' = False" by (simp_all add: unreserved_def)
  have "literal EscUser ch \<Longrightarrow> ch \<notin> {CHR ''?'', CHR ''@''}" using q by auto
  moreover have "percent_digit (of_char ch div 16) \<notin> {CHR ''?'', CHR ''@''}" "percent_digit (of_char ch mod 16) \<notin> {CHR ''?'', CHR ''@''}"
    using unreserved_plain [OF char_hex(3) [of ch]] unreserved_plain [OF char_hex(4) [of ch]] by simp_all
  ultimately show ?thesis using x by (auto simp: escape_char_def simp del: literal.simps split: if_splits)
qed

lemma unescape_user: "unescape False (escape EscUser s) = Some s"
proof (induction s)
  case (Cons ch s)
  have "unescape False (escape_char EscUser ch @ t) = map_option (Cons ch) (unescape False t)" for t
    using literal_char [of EscUser ch] unescape_step(1) [of ch False t] unescape_step(2) [of False ch t]
    by (auto simp: escape_char_def simp del: unescape.simps)
  then show ?case using Cons by (simp add: escape_def)
qed (simp add: escape_def)

lemma w_cand_url_law: "url_law w_cl"
  unfolding url_law_def
proof (intro allI impI; elim conjE)
  fix k user1 h n q
  assume h: "known_host w_cl h" and n: "1 \<le> (n :: int)" "n \<le> 65535"
  let ?h = "join_host_port h (int_text n)"
  have d: "\<forall>x \<in> set (int_text n). x \<noteq> CHR ''?'' \<and> x \<noteq> CHR ''@''"
    using int_text_no_comma [of n] n(1) is_digit_plain by fastforce
  have "\<forall>x \<in> set ?h. x \<noteq> CHR ''?'' \<and> x \<noteq> CHR ''@''"
    using known_host_bare [OF w_ip_law h] d by (auto simp: bare_host_def join_host_port_def)
  then have free: "CHR ''?'' \<notin> set (escape EscUser user1 @ ''@'' @ ?h)" "CHR ''@'' \<notin> set (escape EscUser user1)"
    using user_free by auto
  have "w_url_of k ((escape EscUser user1 @ ''@'' @ ?h) @ CHR ''?'' # q) =
      Some \<lparr>cu_scheme = cand_kind_text k, cu_opaque = '''', cu_path = '''', cu_user = Some (user1, None), cu_host = ?h, cu_query = q\<rparr>"
    using cut_at_cons [OF free(1), of q] cut_at_cons [OF free(2), of ?h]
    by (simp add: w_url_of_def unescape_user del: append_assoc)
  then show "cl_url w_cl (cand_kind_text k @ ''://'' @ escape EscUser user1 @ ''@'' @ ?h @ ''?'' @ q) =
      Some \<lparr>cu_scheme = cand_kind_text k, cu_opaque = '''', cu_path = '''', cu_user = Some (user1, None), cu_host = ?h, cu_query = q\<rparr>"
    by (cases k) (simp_all add: w_cl_def w_url_def cut_prefix_def)
qed

lemma w_cand_law: "cand_law w_cl"
proof -
  have "float_law w_cl" using w_digits_Some w_digits_int by (fastforce simp: float_law_def w_cl_def)
  moreover have "time_law w_cl" using w_digits_Some w_digits_int by (fastforce simp: time_law_def w_cl_def)
  ultimately show ?thesis using w_cand_url_law w_ip_law w_prefix_law by (simp add: cand_law_def)
qed

definition w_key :: string where
  "w_key = replicate 43 CHR ''A'' @ ''=''"

definition w_query :: string where
  "w_query = ''mtu=1400&provider=static&address=10&allowedips=0/0&publickey='' @ w_key"

definition w_rest :: string where
  "w_rest = ''wireguard://'' @ w_key @ ''@h:53?'' @ w_query"

definition w_line :: string where
  "w_line = w_rest @ ''#x%20y''"

definition w_params :: "(string \<times> string) list" where
  "w_params = [(''mtu'', ''1400''), (''provider'', ''static''), (''address'', ''10''), (''allowedips'', ''0/0''), (''publickey'', w_key)]"

definition w_wireguard :: wireguard where
  "w_wireguard = new_wireguard\<lparr>wg_provider := ''static'', wg_endpoint := ''h:53'', wg_address := [(IP4 10, 32)], wg_mtu := 1400,
     wg_allowed := [(IP4 0, 0)], wg_label := ''x y''\<rparr>"

lemma w_line_url: "cl_url w_cl w_rest = Some \<lparr>cu_scheme = ''wireguard'', cu_opaque = '''',
    cu_path = '''', cu_user = Some (w_key, None), cu_host = ''h:53'', cu_query = w_query\<rparr>"
  by code_simp

lemma w_line_cut: "cut_at CHR ''#'' w_line = (w_rest, ''x%20y'')"
proof -
  have "CHR ''#'' \<notin> set w_rest"
    by (simp add: w_rest_def w_key_def w_query_def)
  from cut_at_cons [OF this, of "''x%20y''"] show ?thesis
    by (simp add: w_line_def)
qed

lemma w_line_uri: "cand_uri w_cl KindWireGuard w_line = Inr (\<lparr>cu_scheme = ''wireguard'', cu_opaque = '''', cu_path = '''',
    cu_user = Some (w_key, None), cu_host = ''h:53'', cu_query = w_query\<rparr>, ''x y'', w_key)"
proof -
  have "unescape False ''x%20y'' = Some ''x y''" by code_simp
  moreover have "valid_utf8 False ''x y'' = ''x y''" by (simp add: valid_utf8.simps decode_rune_def rune_error_def)
  ultimately show ?thesis
    by (simp only: cand_uri_def w_line_cut w_line_url Let_def prod.case option.case cand_url.simps cand_kind_text.simps
        not_True_eq_False simp_thms if_True if_False)
qed

lemma w_line_key: "parse_key w_key = Inr (wg_private new_wireguard)"
  by code_simp

lemma w_line_endpoint: "parse_endpoint w_cl ''h:53'' = Inr ''h:53''"
  by code_simp

lemma w_line_query: "parse_cand_query w_query wg_params = Inr w_params"
  by code_simp

lemma w_line_provider: "check_provider KindWireGuard w_params wg_required = Inr ''static''"
  by code_simp

lemma w_line_params: "set_params (wg_set w_cl) (tl wg_params) w_params
    (new_wireguard\<lparr>wg_label := ''x y'', wg_private := wg_private new_wireguard, wg_endpoint := ''h:53'', wg_provider := ''static''\<rparr>) =
    Inr w_wireguard"
  by code_simp

lemma w_parse_line: "parse_wireguard w_cl w_line = Inr w_wireguard"
  by (simp only: parse_wireguard_def w_line_uri w_line_key w_line_endpoint w_line_query w_line_provider w_line_params
      sum.case prod.case cand_url.simps)

text \<open>
  C5: A WireGuard candidate that was parsed from a line is written to a line from which the same
  candidate is parsed: the keys, the endpoint, every parameter, the label and the metadata survive the
  escaping and the order of the parameters. This holds exactly when the candidate has no expiry or an
  expiry that is read back from its written text, and so whenever the expiry lies in the years 0 to 9999
  in UTC. The code does not check that: a line may carry an offset that moves the expiry to the year
  10000 or before the year 0, and the line written for it does not give the candidate back.
\<close>

theorem format_parse_wireguard:
  assumes law: "cand_law cl" and parsed: "parse_wireguard cl s = Inr w"
  shows "(parse_wireguard cl (format_wireguard cl w) = Inr w \<longleftrightarrow>
      cm_expires (wg_meta w) = zero_time \<or>
      cl_time cl (cl_time_text cl (cm_expires (wg_meta w))) = Some (cm_expires (wg_meta w))) \<and>
    (written_time (cm_expires (wg_meta w)) \<longrightarrow> parse_wireguard cl (format_wireguard cl w) = Inr w)"
proof -
  obtain user1 host q l where p: "parse_key user1 = Inr (wg_private w)" "parse_endpoint cl host = Inr (wg_endpoint w)"
    "\<forall>k v. map_of q k = Some v \<longrightarrow> v \<noteq> ''''" "check_provider KindWireGuard q wg_required = Inr (wg_provider w)"
    "wg_label w = valid_utf8 False l" "set_params (wg_set cl) (map key_name wg_keys) q (wg_start w) = Inr w"
    using parse_wireguard_Inr [OF parsed] .
  obtain extra where prov: "map_of (provider_fields KindWireGuard) (wg_provider w) = Some extra" "wg_provider w \<noteq> ''''"
    "\<forall>k \<in> set (wg_required @ extra). map_of q k \<noteq> None" "set extra \<subseteq> {''dns'', ''reserved''}"
    using provider_known [OF p(4)] .
  have "map_of q (key_name k) = None \<longrightarrow> field_back cl (wg_start w) k" for k
    using prov(3) by (cases k) (auto simp: field_back_def wg_start_def new_wireguard_def no_meta_def wg_required_def key_name.simps)
  then have fields: "\<forall>k. (k = Expires \<longrightarrow> time_back cl (cm_expires (wg_meta w))) \<longrightarrow> field_back cl w k \<and>
      (map_of q (key_name k) \<noteq> None \<and> k \<noteq> Keepalive \<and> k \<noteq> Expires \<longrightarrow> wg_text cl w k \<noteq> '''')"
    using set_params_back [OF law p(6) wg_keys_all(2) p(3)] by (simp add: wg_keys_all)
  let ?ps = "(''provider'', wg_provider w) # written_params cl w"
  note ok = written_params_ok [OF prov(2), of cl w]
  obtain q' where q': "parse_cand_query (join_with ''&'' (map segment ?ps)) wg_params = Inr q'" "map_of q' = map_of ?ps"
    using parse_segments(2) [OF ok] by auto
  have look: "map_of q' (key_name k) = (if wg_text cl w k = '''' then None else Some (wg_text cl w k))" for k
    using q'(2) written_params_lookup key_name_params(2) by simp
  have "\<forall>k \<in> set (wg_required @ extra). map_of q' k \<noteq> None"
  proof
    fix k assume k: "k \<in> set (wg_required @ extra)"
    then have "k \<in> set (wg_required @ [''dns'', ''reserved''])" using prov(4) by auto
    then obtain j where j: "k = key_name j" "j \<in> {PublicKey, Address, Mtu, AllowedIps, Dns, Reserved}" unfolding required_names by auto
    have "map_of q (key_name j) \<noteq> None" using prov(3) k j(1) by blast
    then have "wg_text cl w j \<noteq> ''''" using fields j(2) by auto
    then show "map_of q' k \<noteq> None" using look j(1) by simp
  qed
  then have "List.find (\<lambda>k. map_of q' k = None) (wg_required @ extra) = None" unfolding find_None_iff by blast
  then have check: "check_provider KindWireGuard q' wg_required = Inr (wg_provider w)"
    using q'(2) prov(1) by (simp add: check_provider_def)
  have ep: "parse_endpoint cl (wg_endpoint w) = Inr (wg_endpoint w)" using parse_endpoint_Inr [OF law p(2)] by metis
  have set: "set_params (wg_set cl) (tl wg_params) q' (wg_start w) = Inr w" if "time_back cl (cm_expires (wg_meta w))"
    using set_params_texts [of wg_keys cl w q' "wg_start w"] fields that look wg_keys_all wg_start_blank wg_copy_all
    by (simp add: wg_keys_names)
  have uri: "cand_uri cl KindWireGuard (format_wireguard cl w) =
      Inr (\<lparr>cu_scheme = ''wireguard'', cu_opaque = '''', cu_path = '''', cu_user = Some (b64_encode True (wg_private w), None),
        cu_host = wg_endpoint w, cu_query = join_with ''&'' (map segment ?ps)\<rparr>, wg_label w, b64_encode True (wg_private w))"
    by (rule cand_uri_format [OF law prov(2) p(2,5)])
  have parse: "parse_wireguard cl (format_wireguard cl w) = set_params (wg_set cl) (tl wg_params) q' (wg_start w)"
    using key_text [OF p(1)] ep unfolding wg_start_def
    by (simp only: parse_wireguard_def uri q'(1) check sum.case prod.case cand_url.simps)
  have from_parse: "time_back cl (cm_expires (wg_meta w))" if "parse_wireguard cl (format_wireguard cl w) = Inr w"
  proof -
    have "set_params (wg_set cl) (map key_name wg_keys) q' (wg_start w) = Inr w" using that parse by (simp add: wg_keys_names)
    note e = set_params_expires [OF this wg_keys_all(2)]
    show ?thesis
    proof (cases "wg_text cl w Expires = ''''")
      case True
      then have "cm_expires (wg_meta w) = cm_expires (wg_meta (wg_start w))" using e look wg_keys_all(1) by simp
      then show ?thesis by (simp add: time_back_def wg_start_def new_wireguard_def no_meta_def)
    next
      case False
      then show ?thesis using e look wg_keys_all(1) by (auto simp: time_back_def split: if_splits)
    qed
  qed
  have "time_back cl (cm_expires (wg_meta w))" if written: "written_time (cm_expires (wg_meta w))"
  proof (cases "cm_expires (wg_meta w) = zero_time")
    case False
    have "case map_of q (key_name Expires) of None \<Rightarrow> cm_expires (wg_meta w) = cm_expires (wg_meta (wg_start w))
        | Some v \<Rightarrow> cl_time cl v = Some (cm_expires (wg_meta w))"
      using set_params_expires [OF p(6) wg_keys_all(2)] wg_keys_all(1) by simp
    then obtain v where "cl_time cl v = Some (cm_expires (wg_meta w))"
      using False by (auto simp: wg_start_def new_wireguard_def no_meta_def split: option.splits)
    then show ?thesis using law written unfolding cand_law_def time_law_def time_back_def by blast
  qed (simp add: time_back_def)
  then show ?thesis using set from_parse parse unfolding time_back_def by auto
qed

lemma format_parse_wireguard_witness: "parse_wireguard w_cl (format_wireguard w_cl w_wireguard) = Inr w_wireguard"
proof -
  have "written_time (cm_expires (wg_meta w_wireguard))"
    by (simp add: w_wireguard_def new_wireguard_def no_meta_def zero_time_def written_time_def)
  then show ?thesis using format_parse_wireguard [OF w_cand_law w_parse_line] by blast
qed

end
