(* ===== verification/Scd_Candfile.thy ===== *)
theory Scd_Candfile
  imports Scd_Format
begin

text \<open>
  The properties of a candidate file (\<^verbatim>\<open>scd/manifest/candidates.go\<close>): which errors the parsers give,
  every line is one entry or one skip, the tags of the entries, and that no private or preshared key is
  shown.
\<close>

section \<open>Errors of the parsers\<close>

definition candidate_fields :: "string set" where
  "candidate_fields = {''uri'', ''label'', ''privatekey'', ''endpoint''} \<union> set wg_params \<union> set masque_params"

definition candidate_rules :: "string set" where
  "candidate_rules = {''not a wireguard:// URI'', ''not a masque:// URI'', ''invalid percent-encoding'',
     ''must not have a password'', ''must be base64 of 32 bytes'', ''must be host:port, IPv6 in brackets'',
     ''port must be 1..65535'', ''host must be an IP or a domain'', ''must be IP:port, IPv6 in brackets'',
     ''host must be an IP'', ''must be base64url'', ''must be a PKCS#8 ECDSA P-256 key'',
     ''must be a PKIX ECDSA P-256 key'', ''invalid query escape'', ''unknown or empty parameter'', ''repeated'',
     ''empty value'', ''required'', ''unknown provider'', ''each must be an IP or CIDR'', ''each must be an IP'',
     ''each must be a CIDR'', ''must be 3 numbers 0..255'', range_text 576 1500, range_text 0 65535, range_text 0 100,
     ''must be an integer >= 0'', ''must be printable'', ''must be an upper-case ISO2 code'',
     ''must be a number >= 0'', ''must be RFC 3339'', ''at most one IPv4 and one IPv6'',
     ''an IP must be the endpoint IP'', ''must be a hostname or the endpoint IP'', ''must be h3 or h2''}"

definition known_error :: "field_error \<Rightarrow> bool" where
  "known_error e \<longleftrightarrow> fe_field e \<in> candidate_fields \<and> fe_rule e \<in> candidate_rules"

named_theorems rule_errors

lemma parse_uint_error [rule_errors]: "parse_uint s lo hi = Inl e \<Longrightarrow> e = range_text lo hi"
  by (auto simp: parse_uint_def split: option.splits if_splits)

lemma parse_key_error [rule_errors]: "parse_key s = Inl e \<Longrightarrow> e = ''must be base64 of 32 bytes''"
  by (auto simp: parse_key_def split: option.splits if_splits)

lemma parse_list_error [rule_errors]: "parse_list s f msg = Inl e \<Longrightarrow> e = msg"
  by (auto simp: parse_list_def split: option.splits)

lemma parse_reserved_error [rule_errors]: "parse_reserved s = Inl e \<Longrightarrow> e = ''must be 3 numbers 0..255''"
  by (auto simp: parse_reserved_def split: list.splits sum.splits)

lemma parse_public_key_error [rule_errors]:
  "parse_public_key cl s = Inl e \<Longrightarrow> e = ''must be base64url'' \<or> e = ''must be a PKIX ECDSA P-256 key''"
  by (auto simp: parse_public_key_def split: option.splits)

lemma parse_private_key_error:
  "parse_private_key cl s = Inl e \<Longrightarrow> e = ''must be base64url'' \<or> e = ''must be a PKCS#8 ECDSA P-256 key''"
  by (auto simp: parse_private_key_def split: option.splits)

lemma parse_endpoint_error:
  "parse_endpoint cl s = Inl e \<Longrightarrow>
   e \<in> {''must be host:port, IPv6 in brackets'', ''port must be 1..65535'', ''host must be an IP or a domain''}"
  by (auto simp: parse_endpoint_def split: option.splits sum.splits if_splits)

lemma parse_addr_port_error:
  "parse_addr_port cl s = Inl e \<Longrightarrow>
   e \<in> {''must be IP:port, IPv6 in brackets'', ''port must be 1..65535'', ''host must be an IP''}"
  by (auto simp: parse_addr_port_def split: option.splits sum.splits)

lemma meta_set_error [rule_errors]:
  "meta_set cl k v m = Inl e \<Longrightarrow>
   e \<in> {''must be printable'', ''must be an upper-case ISO2 code'', range_text 0 100, ''must be a number >= 0'', ''must be RFC 3339''}"
  unfolding meta_set_def by (auto split: if_splits sum.splits option.splits dest: rule_errors)

lemma wg_set_error: "wg_set cl k v w = Inl e \<Longrightarrow> e \<in> candidate_rules"
  unfolding wg_set_def
  by (auto split: if_splits sum.splits dest!: rule_errors simp: candidate_rules_def)

lemma mq_set_error: "mq_set cl k v m = Inl e \<Longrightarrow> e \<in> candidate_rules"
  unfolding mq_set_def Let_def
  by (auto split: if_splits sum.splits option.splits dest!: rule_errors simp: candidate_rules_def)

lemma set_params_error:
  "set_params f ks q w = Inl e \<Longrightarrow> (\<And>k v w r. f k v w = Inl r \<Longrightarrow> r \<in> candidate_rules) \<Longrightarrow>
   set ks \<subseteq> candidate_fields \<Longrightarrow> known_error e"
  by (induction ks arbitrary: w) (auto simp: known_error_def field_err_def split: option.splits sum.splits)

lemma cand_query_error: "cand_query known segs q = Inl e \<Longrightarrow> set known \<subseteq> candidate_fields \<Longrightarrow> known_error e"
proof (induction known segs q rule: cand_query.induct)
  case (2 known seg segs q)
  obtain k v where kv: "cut_at CHR ''='' seg = (k, v)" by fastforce
  show ?case
    using "2.prems" "2.IH" [OF refl kv [symmetric] refl]
    unfolding cand_query.simps kv Let_def prod.case
    by (cases "unescape True k"; cases "unescape True v")
      (auto simp: known_error_def field_err_def candidate_rules_def candidate_fields_def split: if_split_asm)
qed simp

lemma parse_cand_query_error: "parse_cand_query raw known = Inl e \<Longrightarrow> set known \<subseteq> candidate_fields \<Longrightarrow> known_error e"
  using cand_query_error [of known "split_on CHR ''&'' raw" "[]" e] by (auto simp: parse_cand_query_def split: if_splits)

lemma find_Some_in: "List.find P xs = Some k \<Longrightarrow> k \<in> set xs"
  by (auto simp: find_Some_iff)

lemma wg_fields: "set wg_params \<subseteq> candidate_fields" "set (tl wg_params) \<subseteq> candidate_fields" "set wg_required \<subseteq> candidate_fields"
  "set masque_params \<subseteq> candidate_fields" "set (tl masque_params) \<subseteq> candidate_fields" "set masque_required \<subseteq> candidate_fields"
  by (auto simp: candidate_fields_def wg_params_def masque_params_def wg_required_def masque_required_def meta_params_def)

lemma provider_fields_known: "map_of (provider_fields kind) p = Some extra \<Longrightarrow> set extra \<subseteq> candidate_fields \<and> ''provider'' \<in> candidate_fields"
  by (cases kind) (auto simp: candidate_fields_def wg_params_def split: if_splits)

lemma provider_rules: "''required'' \<in> candidate_rules" "''unknown provider'' \<in> candidate_rules" "''provider'' \<in> candidate_fields"
  by (simp_all add: candidate_rules_def candidate_fields_def wg_params_def)

lemma check_provider_error:
  assumes e: "check_provider kind q required = Inl e" and r: "set required \<subseteq> candidate_fields"
  shows "known_error e"
proof (cases "map_of q ''provider''")
  case None
  then show ?thesis using e provider_rules by (auto simp: check_provider_def known_error_def field_err_def)
next
  case (Some p)
  show ?thesis
  proof (cases "map_of (provider_fields kind) p")
    case None
    then show ?thesis using e Some provider_rules by (auto simp: check_provider_def known_error_def field_err_def)
  next
    case extra: (Some extra)
    obtain k where k: "List.find (\<lambda>k. map_of q k = None) (required @ extra) = Some k" "e = field_err k ''required''"
      using e Some extra by (auto simp: check_provider_def split: option.splits)
    then have "k \<in> candidate_fields" using find_Some_in [OF k(1)] provider_fields_known [OF extra] r by auto
    then show ?thesis using k(2) provider_rules(1) by (simp add: known_error_def field_err_def)
  qed
qed

lemma cand_uri_error: "cand_uri cl kind s = Inl e \<Longrightarrow> known_error e"
  by (cases kind)
    (auto simp: cand_uri_def Let_def known_error_def field_err_def candidate_rules_def candidate_fields_def
      split: prod.splits option.splits if_splits)

lemma rule_errors_known:
  "parse_key s = Inl e \<Longrightarrow> known_error (field_err ''privatekey'' e)"
  "parse_private_key cl s = Inl e \<Longrightarrow> known_error (field_err ''privatekey'' e)"
  "parse_endpoint cl s = Inl e \<Longrightarrow> known_error (field_err ''endpoint'' e)"
  "parse_addr_port cl s = Inl e \<Longrightarrow> known_error (field_err ''endpoint'' e)"
  using parse_key_error [of s e] parse_private_key_error [of cl s e] parse_endpoint_error [of cl s e] parse_addr_port_error [of cl s e]
  by (auto simp: known_error_def field_err_def candidate_fields_def candidate_rules_def)

lemma parse_wireguard_error:
  assumes "parse_wireguard cl s = Inl e"
  shows "known_error e"
proof -
  have "\<And>k v w r. wg_set cl k v w = Inl r \<Longrightarrow> r \<in> candidate_rules" by (rule wg_set_error)
  note set = set_params_error [of "wg_set cl", OF _ this wg_fields(2)]
  show ?thesis using assms unfolding parse_wireguard_def
    by (auto split: sum.splits prod.splits
      intro: cand_uri_error rule_errors_known parse_cand_query_error [OF _ wg_fields(1)]
        check_provider_error [OF _ wg_fields(3)] set)
qed

lemma parse_masque_error:
  assumes "parse_masque cl s = Inl e"
  shows "known_error e"
proof -
  have "\<And>k v w r. mq_set cl k v w = Inl r \<Longrightarrow> r \<in> candidate_rules" by (rule mq_set_error)
  note set = set_params_error [of "mq_set cl", OF _ this wg_fields(5)]
  show ?thesis using assms unfolding parse_masque_def
    by (auto split: sum.splits prod.splits
      intro: cand_uri_error rule_errors_known parse_cand_query_error [OF _ wg_fields(4)]
        check_provider_error [OF _ wg_fields(6)] set)
qed

lemma candidate_entry_error: "candidate_entry lib cl kind s num pre opts = Inl e \<Longrightarrow> known_error e"
  using parse_wireguard_error parse_masque_error
  by (cases kind) (auto simp: candidate_entry_def split: sum.splits)

section \<open>What is shown of a line\<close>

text \<open>A shown text is empty or the line of a candidate in which no key can be told from another.\<close>

definition keyless :: "cand_lib \<Rightarrow> string \<Rightarrow> bool" where
  "keyless cl raw \<longleftrightarrow> raw = '''' \<or>
     (\<exists>w. \<forall>k p. raw = wg_redacted cl (w\<lparr>wg_private := k, wg_preshared := map_option (\<lambda>_. p) (wg_preshared w)\<rparr>)) \<or>
     (\<exists>m. \<forall>k. raw = mq_redacted cl (m\<lparr>mq_private := k\<rparr>))"

lemma redacted_keyless: "keyless cl (wg_redacted cl w)" "keyless cl (mq_redacted cl m)"
proof -
  have "wg_redacted cl w = wg_redacted cl (w\<lparr>wg_private := k, wg_preshared := map_option (\<lambda>_. p) (wg_preshared w)\<rparr>)" for k p
    by (simp add: wg_redacted_def wg_format_def wg_tunnel_params_def)
  then show "keyless cl (wg_redacted cl w)" unfolding keyless_def by blast
  have "mq_redacted cl m = mq_redacted cl (m\<lparr>mq_private := k\<rparr>)" for k
    by (simp add: mq_redacted_def mq_format_def mq_tunnel_params_def)
  then show "keyless cl (mq_redacted cl m)" unfolding keyless_def by blast
qed

text \<open>
  An entry whose private and preshared keys show nowhere but in its outbound: with other keys of the
  same public hash, which are the eight digits in the tag, everything else of the entry is the same, up
  to the public key by which the selection compares candidates. Whether there is a preshared key shows.
\<close>

definition wg_hides_keys :: "text_lib \<Rightarrow> cand_lib \<Rightarrow> int \<Rightarrow> string \<Rightarrow> candidate_options \<Rightarrow> wireguard \<Rightarrow> bool" where
  "wg_hides_keys lib cl num pre opts w \<longleftrightarrow>
     (\<forall>k p. let w1 = w\<lparr>wg_private := k, wg_preshared := map_option (\<lambda>_. p) (wg_preshared w)\<rparr>;
                e = wg_entry lib cl w num pre opts; e1 = wg_entry lib cl w1 num pre opts
            in wg_public_hash lib cl w1 = wg_public_hash lib cl w \<longrightarrow>
               e = e1\<lparr>en_outbound := en_outbound e,
                 en_selection := map_option (\<lambda>c. c\<lparr>cd_key := cl_x25519 cl (wg_private w)\<rparr>) (en_selection e1)\<rparr>)"

definition mq_hides_keys :: "text_lib \<Rightarrow> cand_lib \<Rightarrow> int \<Rightarrow> string \<Rightarrow> string \<Rightarrow> masque \<Rightarrow> bool" where
  "mq_hides_keys lib cl num pre dialer m \<longleftrightarrow>
     (\<forall>k. let m1 = m\<lparr>mq_private := k\<rparr>; e = mq_entry lib cl m num pre dialer; e1 = mq_entry lib cl m1 num pre dialer
          in mq_public_hash lib cl m1 = mq_public_hash lib cl m \<longrightarrow>
             e = e1\<lparr>en_outbound := en_outbound e,
               en_selection := map_option (\<lambda>c. c\<lparr>cd_key := lib_sha256 lib (cl_pkix cl (cl_public cl (mq_private m)))\<rparr>)
                 (en_selection e1)\<rparr>)"

lemma wg_entry_hides: "wg_hides_keys lib cl num pre opts w"
proof -
  have r: "wg_redacted cl (w\<lparr>wg_private := k, wg_preshared := map_option (\<lambda>_. p) (wg_preshared w)\<rparr>) = wg_redacted cl w" for k p
    by (simp add: wg_redacted_def wg_format_def wg_tunnel_params_def)
  show ?thesis unfolding wg_hides_keys_def Let_def
  proof (intro allI impI)
    fix k p
    let ?w1 = "w\<lparr>wg_private := k, wg_preshared := map_option (\<lambda>_. p) (wg_preshared w)\<rparr>"
    assume h: "wg_public_hash lib cl ?w1 = wg_public_hash lib cl w"
    show "wg_entry lib cl w num pre opts = (wg_entry lib cl ?w1 num pre opts)
      \<lparr>en_outbound := en_outbound (wg_entry lib cl w num pre opts),
       en_selection := map_option (\<lambda>c. c\<lparr>cd_key := cl_x25519 cl (wg_private w)\<rparr>) (en_selection (wg_entry lib cl ?w1 num pre opts))\<rparr>"
      unfolding wg_entry_def Let_def h r by (simp add: new_candidate_entry_def Let_def split: prod.split)
  qed
qed

lemma mq_entry_hides: "mq_hides_keys lib cl num pre dialer m"
proof -
  have r: "mq_redacted cl (m\<lparr>mq_private := k\<rparr>) = mq_redacted cl m" for k
    by (simp add: mq_redacted_def mq_format_def mq_tunnel_params_def)
  show ?thesis unfolding mq_hides_keys_def Let_def
  proof (intro allI impI)
    fix k
    let ?m1 = "m\<lparr>mq_private := k\<rparr>"
    assume h: "mq_public_hash lib cl ?m1 = mq_public_hash lib cl m"
    show "mq_entry lib cl m num pre dialer = (mq_entry lib cl ?m1 num pre dialer)
      \<lparr>en_outbound := en_outbound (mq_entry lib cl m num pre dialer),
       en_selection := map_option (\<lambda>c. c\<lparr>cd_key := lib_sha256 lib (cl_pkix cl (cl_public cl (mq_private m)))\<rparr>)
         (en_selection (mq_entry lib cl ?m1 num pre dialer))\<rparr>"
      unfolding mq_entry_def Let_def h r by (simp add: new_candidate_entry_def build_masque_def Let_def)
  qed
qed

text \<open>The entry of a candidate that was parsed and hides its keys.\<close>

definition hiding_entry :: "text_lib \<Rightarrow> cand_lib \<Rightarrow> int \<Rightarrow> string \<Rightarrow> candidate_options \<Rightarrow> entry \<Rightarrow> bool" where
  "hiding_entry lib cl num pre opts e \<longleftrightarrow>
     (\<exists>w. e = wg_entry lib cl w num pre opts \<and> wg_hides_keys lib cl num pre opts w) \<or>
     (\<exists>m. e = mq_entry lib cl m num pre (co_dialer opts) \<and> mq_hides_keys lib cl num pre (co_dialer opts) m)"

lemma candidate_entry_hides: "candidate_entry lib cl kind s num pre opts = Inr e \<Longrightarrow> hiding_entry lib cl num pre opts e"
  using wg_entry_hides mq_entry_hides
  by (auto simp: candidate_entry_def hiding_entry_def split: cand_kind.splits sum.splits)

text \<open>The skips of a line \<open>x\<close>: four shapes, each with fixed texts or the texts of a hiding entry.\<close>

definition candidate_skip_ok ::
    "text_lib \<Rightarrow> cand_lib \<Rightarrow> (spec \<Rightarrow> err + handler) \<Rightarrow> cand_kind \<Rightarrow> string \<Rightarrow> candidate_options \<Rightarrow> line \<Rightarrow> skip \<Rightarrow> bool" where
  "candidate_skip_ok lib cl to_proto kind pre opts x s \<longleftrightarrow>
     s = bare_skip (ln_number x) ''unsupported_scheme'' (''The line is not a '' @ cand_kind_text kind @ '':// candidate.'') [] \<or>
     (\<exists>e. known_error e \<and> s = bare_skip (ln_number x) (cand_kind_text kind @ ''_invalid'')
        (''The '' @ cand_kind_text kind @ '' candidate line is invalid.'') [field_error_text e]) \<or>
     (\<exists>e. hiding_entry lib cl (ln_number x) pre opts e \<and> s = (duplicate_skip (en_normalized e))\<lparr>sk_line := ln_number x\<rparr>) \<or>
     (\<exists>e y. hiding_entry lib cl (ln_number x) pre opts e \<and> to_proto (en_outbound e) = Inl y \<and>
        s = (rejected_skip (en_normalized e) y)\<lparr>sk_line := ln_number x\<rparr>)"

definition candidate_entry_ok :: "cand_lib \<Rightarrow> (spec \<Rightarrow> err + handler) \<Rightarrow> string \<Rightarrow> entry \<Rightarrow> bool" where
  "candidate_entry_ok cl to_proto pre e \<longleftrightarrow>
     prefix (pre @ ''-'') (en_tag e) \<and> (\<exists>h. to_proto (en_outbound e) = Inr h) \<and> get_tag (en_outbound e) = en_tag e \<and>
     (\<exists>c. en_selection e = Some c \<and> cd_tag c = en_tag e) \<and> n_tag (en_normalized e) = en_tag e \<and>
     keyless cl (n_raw (en_normalized e))"

lemma candidate_tag_prefix: "prefix (pre @ ''-'') (build_candidate_tag lib pre label host profile hash)"
  by (simp add: build_candidate_tag_def tag_of_def Let_def prefix_def)

lemma new_entry_facts:
  defines "e \<equiv> new_candidate_entry"
  shows "prefix (pre @ ''-'') (en_tag (e lib proto profile label exit ep host port num pre hash raw ob))"
    "n_tag (en_normalized (e lib proto profile label exit ep host port num pre hash raw ob)) =
     en_tag (e lib proto profile label exit ep host port num pre hash raw ob)"
    "n_raw (en_normalized (e lib proto profile label exit ep host port num pre hash raw ob)) = raw"
    "en_line (e lib proto profile label exit ep host port num pre hash raw ob) = num"
    "n_line (en_normalized (e lib proto profile label exit ep host port num pre hash raw ob)) = num"
  by (simp_all add: e_def new_candidate_entry_def Let_def candidate_tag_prefix)

lemma built_tag: "wo_tag (build_wireguard cl w tag strat dialer) = tag" "mo_tag (build_masque cl m tag dialer) = tag"
  by (simp_all add: build_wireguard_def build_masque_def)

definition entry_shape :: "cand_lib \<Rightarrow> string \<Rightarrow> int \<Rightarrow> entry \<Rightarrow> bool" where
  "entry_shape cl pre num e \<longleftrightarrow>
     prefix (pre @ ''-'') (en_tag e) \<and> get_tag (en_outbound e) = en_tag e \<and>
     (\<exists>c. en_selection e = Some c \<and> cd_tag c = en_tag e) \<and> n_tag (en_normalized e) = en_tag e \<and>
     keyless cl (n_raw (en_normalized e)) \<and> en_line e = num \<and> n_line (en_normalized e) = num"

lemma wg_entry_shape: "entry_shape cl pre num (wg_entry lib cl w num pre opts)"
  unfolding wg_entry_def Let_def entry_shape_def
  by (simp add: new_entry_facts built_tag redacted_keyless split: prod.split)

lemma mq_entry_shape: "entry_shape cl pre num (mq_entry lib cl m num pre dialer)"
  unfolding mq_entry_def Let_def entry_shape_def
  by (simp add: new_entry_facts built_tag redacted_keyless)

lemma candidate_entry_Inr: "candidate_entry lib cl kind s num pre opts = Inr e \<Longrightarrow> entry_shape cl pre num e"
  using wg_entry_shape mq_entry_shape by (auto simp: candidate_entry_def split: cand_kind.splits sum.splits)

section \<open>The loop\<close>

lemma build_cand_step:
  obtains (skipped) s where "skip_of (ln_number x) s" "candidate_skip_ok lib cl to_proto kind pre opts x s"
      "build_cand_lines lib cl to_proto kind pre opts (x # xs) seen m =
       build_cand_lines lib cl to_proto kind pre opts xs seen (add_skip s m)"
    | (entry) e where "candidate_entry_ok cl to_proto pre e \<and> hiding_entry lib cl (ln_number x) pre opts e"
      "en_line e = ln_number x" "en_tag e \<notin> seen"
      "build_cand_lines lib cl to_proto kind pre opts (x # xs) seen m =
       build_cand_lines lib cl to_proto kind pre opts xs (insert (en_tag e) seen) (add_entry e m)"
proof (cases "prefix (cand_kind_text kind @ ''://'') (ln_trimmed x)")
  case False
  show thesis
    by (rule skipped [of "bare_skip (ln_number x) ''unsupported_scheme''
          (''The line is not a '' @ cand_kind_text kind @ '':// candidate.'') []"])
      (use False in \<open>simp_all add: skip_of_def skip_codes_def bare_skip_def candidate_skip_ok_def\<close>)
next
  case ok: True
  show thesis
  proof (cases "candidate_entry lib cl kind (ln_trimmed x) (ln_number x) pre opts")
    case (Inl e)
    let ?s = "bare_skip (ln_number x) (cand_kind_text kind @ ''_invalid'')
            (''The '' @ cand_kind_text kind @ '' candidate line is invalid.'') [field_error_text e]"
    show thesis
    proof (rule skipped)
      show "skip_of (ln_number x) ?s" by (cases kind) (simp_all add: skip_of_def skip_codes_def bare_skip_def)
      show "candidate_skip_ok lib cl to_proto kind pre opts x ?s"
        unfolding candidate_skip_ok_def using candidate_entry_error [OF Inl] by blast
    qed (use ok Inl in simp)
  next
    case (Inr e)
    note e = candidate_entry_Inr [OF Inr, unfolded entry_shape_def] and hides = candidate_entry_hides [OF Inr]
    show thesis
    proof (cases "en_tag e \<in> seen")
      case True
      let ?s = "(duplicate_skip (en_normalized e))\<lparr>sk_line := ln_number x\<rparr>"
      show thesis
      proof (rule skipped)
        show "skip_of (ln_number x) ?s" by (simp add: skip_of_def skip_codes_def duplicate_skip_def)
        show "candidate_skip_ok lib cl to_proto kind pre opts x ?s"
          unfolding candidate_skip_ok_def using hides by blast
      qed (use ok Inr True in simp)
    next
      case new: False
      show thesis
      proof (cases "to_proto (en_outbound e)")
        case (Inl y)
        let ?s = "(rejected_skip (en_normalized e) y)\<lparr>sk_line := ln_number x\<rparr>"
        show thesis
        proof (rule skipped)
          show "skip_of (ln_number x) ?s" by (simp add: skip_of_def skip_codes_def rejected_skip_def)
          show "candidate_skip_ok lib cl to_proto kind pre opts x ?s"
            unfolding candidate_skip_ok_def using hides Inl by blast
        qed (use ok Inr new Inl in simp)
      next
        case (Inr h)
        show thesis
          by (rule entry [of e])
            (use ok \<open>candidate_entry lib cl kind (ln_trimmed x) (ln_number x) pre opts = Inr e\<close> new e hides Inr
              in \<open>auto simp: candidate_entry_ok_def\<close>)
      qed
    qed
  qed
qed

lemma build_cand_spec:
  "counts_ok m \<Longrightarrow>
   \<exists>es sks. mf_entries (build_cand_lines lib cl to_proto kind pre opts xs seen m) = mf_entries m @ es \<and>
     mf_skipped (build_cand_lines lib cl to_proto kind pre opts xs seen m) = mf_skipped m @ sks \<and>
     counts_ok (build_cand_lines lib cl to_proto kind pre opts xs seen m) \<and>
     su_total (mf_summary (build_cand_lines lib cl to_proto kind pre opts xs seen m)) = su_total (mf_summary m) \<and>
     mset (map en_line es) + mset (map sk_line sks) = mset (map ln_number xs) \<and>
     (\<forall>e \<in> set es. candidate_entry_ok cl to_proto pre e \<and> hiding_entry lib cl (en_line e) pre opts e) \<and>
     (\<forall>s \<in> set sks. \<exists>x \<in> set xs. candidate_skip_ok lib cl to_proto kind pre opts x s) \<and>
     distinct (map en_tag es) \<and> set (map en_tag es) \<inter> seen = {}"
proof (induction xs arbitrary: seen m)
  case (Cons x xs)
  show ?case
  proof (cases rule: build_cand_step [of x lib cl to_proto kind pre opts xs seen m])
    case (skipped s)
    note ih = Cons.IH [OF counts_add_skip [OF Cons.prems skipped(1)], of seen]
    have "sk_line s = ln_number x" using skipped(1) by (simp add: skip_of_def)
    then show ?thesis using ih skipped(2) unfolding skipped(3)
      by (elim exE conjE, intro exI conjI) (assumption | force)+
  next
    case (entry e)
    from Cons.IH [OF counts_add_entry [OF Cons.prems], of "insert (en_tag e) seen" e]
    obtain es sks where ih: "mf_entries (build_cand_lines lib cl to_proto kind pre opts xs (insert (en_tag e) seen) (add_entry e m)) = mf_entries m @ [e] @ es"
      "mf_skipped (build_cand_lines lib cl to_proto kind pre opts xs (insert (en_tag e) seen) (add_entry e m)) = mf_skipped m @ sks"
      "counts_ok (build_cand_lines lib cl to_proto kind pre opts xs (insert (en_tag e) seen) (add_entry e m))"
      "su_total (mf_summary (build_cand_lines lib cl to_proto kind pre opts xs (insert (en_tag e) seen) (add_entry e m))) = su_total (mf_summary m)"
      "mset (map en_line es) + mset (map sk_line sks) = mset (map ln_number xs)"
      "\<forall>e \<in> set es. candidate_entry_ok cl to_proto pre e \<and> hiding_entry lib cl (en_line e) pre opts e"
      "\<forall>s \<in> set sks. \<exists>x \<in> set xs. candidate_skip_ok lib cl to_proto kind pre opts x s"
      "distinct (map en_tag es)" "set (map en_tag es) \<inter> insert (en_tag e) seen = {}" by auto
    show ?thesis unfolding entry(4)
      by (rule exI [of _ "e # es"], rule exI [of _ sks]) (use ih entry(1,2,3) in auto)
  qed
qed simp

section \<open>Properties\<close>

lemma build_candidates_spec:
  "\<exists>es sks. mf_entries (build_candidates lib cl to_proto kind content sfile pre opts now) = es \<and>
     mf_skipped (build_candidates lib cl to_proto kind content sfile pre opts now) = sks \<and>
     counts_ok (build_candidates lib cl to_proto kind content sfile pre opts now) \<and>
     su_total (mf_summary (build_candidates lib cl to_proto kind content sfile pre opts now)) = length (scan_lines content) \<and>
     mset (map en_line es) + mset (map sk_line sks) = mset (map ln_number (scan_lines content)) \<and>
     (\<forall>e \<in> set es. candidate_entry_ok cl to_proto pre e \<and> hiding_entry lib cl (en_line e) pre opts e) \<and>
     (\<forall>s \<in> set sks. \<exists>x \<in> set (scan_lines content). candidate_skip_ok lib cl to_proto kind pre opts x s) \<and>
     distinct (map en_tag es)"
  using build_cand_spec [of "start_manifest sfile now (length (scan_lines content))" lib cl to_proto kind pre opts "scan_lines content" "{}"]
  by (fastforce simp: build_candidates_def Let_def counts_ok_def start_manifest_def zero_summary_def code_sum_def)

text \<open>
  C6: No line of a candidate file is lost: every non-blank line is exactly one entry or one skip, the
  entries have different tags in the namespace of the source, each carries the candidate of the selection
  under its tag and an outbound under its tag that Xray accepts, and the counters of the summary are the
  lengths of the two lists.
\<close>

theorem candidates_accounted:
  "let m = build_candidates lib cl to_proto kind content sfile pre opts now
   in mset (map en_line (mf_entries m)) + mset (map sk_line (mf_skipped m)) = mset (map ln_number (scan_lines content)) \<and>
      distinct (map en_tag (mf_entries m)) \<and> list_all (candidate_entry_ok cl to_proto pre) (mf_entries m) \<and>
      su_total (mf_summary m) = length (scan_lines content) \<and> su_parsed (mf_summary m) = length (mf_entries m) \<and>
      su_skipped (mf_summary m) = length (mf_skipped m) \<and> code_sum (mf_summary m) = length (mf_skipped m)"
  using build_candidates_spec [of lib cl to_proto kind content sfile pre opts now]
  by (auto simp: Let_def list_all_iff counts_ok_def)


end
