(* ===== verification/Scd_Run.thy ===== *)
theory Scd_Run
  imports Scd_Sync Scd_Candfile
begin

text \<open>
  One sync of the whole configuration (\<^verbatim>\<open>internal/scd/syncer/syncer.go\<close>, \<^verbatim>\<open>check.go\<close>, \<^verbatim>\<open>report.go\<close> and the
  loading of \<^verbatim>\<open>internal/scd/manifest/subscriptions.go\<close>): the sources are loaded, orphans are removed, and
  the sources of a target are checked and synced in the order of their dependencies.

  The state of a run is a record \<open>run\<close>: the memory, the world and the fields of \<^verbatim>\<open>Syncer\<close> that a sync
  fills. The maps that only choose the level of a log line are left out, as the log lines are. A result
  \<open>None\<close> is a panic. \<open>%q\<close> writes a name between quotes; the names of a configuration need no escapes.
\<close>

section \<open>The run\<close>

text \<open>
  The loaders are arguments: \<open>re_load\<close> is \<^verbatim>\<open>inputsrc.Load\<close>, \<open>re_private\<close> is \<^verbatim>\<open>securefile.ReadPrivate\<close>, whose
  error tells whether it is \<^verbatim>\<open>ErrRefused\<close>.
\<close>

record load_options =
  lo_format :: string
  lo_timeout :: int
  lo_user_agent :: string
  lo_headers :: "(string \<times> string) list"
  lo_max_bytes :: int

record loaded_input =
  li_source :: string
  li_content :: string
  li_encoding :: string

record load_error =
  le_text :: string
  le_refused :: bool

record 'w run_env =
  re_sync :: "'w sync_env"
  re_cand :: cand_lib
  re_load :: "string \<Rightarrow> load_options \<Rightarrow> 'w \<Rightarrow> (load_error + loaded_input) \<times> 'w"
  re_private :: "string \<Rightarrow> int \<Rightarrow> 'w \<Rightarrow> (load_error + string) \<times> 'w"

record 'w run =
  rn_memory :: memory
  rn_world :: 'w
  rn_noted :: "string set"
  rn_outbounds :: "(string, string list option) gomap"
  rn_drifted :: "string set"
  rn_started :: time

record loaded_source =
  ls_sub :: subscription
  ls_config :: source
  ls_source :: string
  ls_content :: string
  ls_encoding :: string

record failed_source =
  fs_sub :: subscription
  fs_config :: source
  fs_error :: string
  fs_code :: string

abbreviation re_deps :: "'w run_env \<Rightarrow> 'w deps" where
  "re_deps env \<equiv> se_deps (re_sync env)"

definition run_now :: "'w run_env \<Rightarrow> 'w run \<Rightarrow> time" where
  "run_now env r = dp_now (re_deps env) (rn_world r)"

definition run_cancelled :: "'w run_env \<Rightarrow> 'w run \<Rightarrow> bool" where
  "run_cancelled env r \<longleftrightarrow> dp_cancelled (re_deps env) (rn_world r)"

definition error_key :: "string \<Rightarrow> string \<Rightarrow> string" where
  "error_key sub sid = sub @ CHR 0x00 # sid"

definition sub_key :: "subscription \<Rightarrow> string" where
  "sub_key c = state_key (sub_id c) (t_address (sub_target c))"

definition run_update :: "subscription \<Rightarrow> (target_state \<Rightarrow> target_state) \<Rightarrow> 'w run \<Rightarrow> 'w run" where
  "run_update c f r = r\<lparr>rn_memory := update (sub_key c) f (rn_memory r)\<rparr>"

section \<open>Loading\<close>

definition load_options_of :: "source \<Rightarrow> load_options" where
  "load_options_of s =
     \<lparr>lo_format = s_format s, lo_timeout = s_fetch_timeout s * 1000000, lo_user_agent = s_user_agent s,
      lo_headers = s_headers s, lo_max_bytes = s_max_bytes s\<rparr>"

definition load_private ::
    "'w run_env \<Rightarrow> string \<Rightarrow> int \<Rightarrow> 'w \<Rightarrow> (load_error + loaded_input) \<times> 'w" where
  "load_private env path max_bytes w =
     (if \<not> prefix ''/'' path
      then (Inl \<lparr>le_text = ''input '' @ path @ '' must be an absolute file path'', le_refused = False\<rparr>, w)
      else case re_private env path max_bytes w of
          (Inl e, w1) \<Rightarrow> (Inl e, w1)
        | (Inr b, w1) \<Rightarrow> (Inr \<lparr>li_source = path, li_content = b, li_encoding = ''plain''\<rparr>, w1))"

definition load_one :: "'w run_env \<Rightarrow> source \<Rightarrow> 'w \<Rightarrow> (load_error + loaded_input) \<times> 'w" where
  "load_one env s w =
     (if candidate_type (s_type s) then load_private env (s_input s) (s_max_bytes s) w
      else re_load env (s_input s) (load_options_of s) w)"

text \<open>The loop of \<^verbatim>\<open>LoadSources\<close>.\<close>

fun load_loop ::
    "'w run_env \<Rightarrow> subscription \<Rightarrow> source list \<Rightarrow> 'w \<Rightarrow> loaded_source list \<times> failed_source list \<times> 'w" where
  "load_loop env c [] w = ([], [], w)"
| "load_loop env c (s # ss) w =
     (if dp_cancelled (re_deps env) w then ([], [], w)
      else case load_one env s w of
          (Inl e, w1) \<Rightarrow>
            if dp_cancelled (re_deps env) w1 then ([], [], w1)
            else let (ls, fs, w2) = load_loop env c ss w1
              in (ls, \<lparr>fs_sub = c, fs_config = s, fs_error = le_text e,
                   fs_code = (if le_refused e then s_type s @ ''_input_refused'' else '''')\<rparr> # fs, w2)
        | (Inr l, w1) \<Rightarrow>
            let (ls, fs, w2) = load_loop env c ss w1
            in (\<lparr>ls_sub = c, ls_config = s, ls_source = li_source l, ls_content = li_content l,
                  ls_encoding = li_encoding l\<rparr> # ls, fs, w2))"

definition load_sources :: "'w run_env \<Rightarrow> subscription \<Rightarrow> 'w \<Rightarrow> loaded_source list \<times> failed_source list \<times> 'w" where
  "load_sources env c w = load_loop env c (sort_by (\<lambda>a b. cmp_ord (s_id a) (s_id b)) (enabled_sources c)) w"

section \<open>Redaction of inputs\<close>

text \<open>The regular expression \<^verbatim>\<open>^https?://\<close> without regard to case, and the redaction of what it matches.\<close>

definition ascii_lower :: "string \<Rightarrow> string" where
  "ascii_lower s = map (\<lambda>ch. let n = of_char ch :: nat in if 65 \<le> n \<and> n \<le> 90 then char_of (n + 32) else ch) s"

definition redact_url :: "cand_lib \<Rightarrow> string \<Rightarrow> string" where
  "redact_url cl s =
     (case cl_url cl s of
        None \<Rightarrow> ''<redacted>''
      | Some u \<Rightarrow>
          if cu_scheme u = '''' \<or> cu_host u = '''' then ''<redacted>''
          else cu_scheme u @ ''://'' @ cu_host u @ ''/<redacted>'')"

definition redact_input :: "cand_lib \<Rightarrow> string \<Rightarrow> string" where
  "redact_input cl s =
     (if prefix ''http://'' (ascii_lower s) \<or> prefix ''https://'' (ascii_lower s) then redact_url cl s else s)"

text \<open>\<^verbatim>\<open>strings.ReplaceAll\<close> of a text that is not empty.\<close>

function replace_all :: "string \<Rightarrow> string \<Rightarrow> string \<Rightarrow> string" where
  "replace_all old new s =
     (if old = '''' \<or> s = '''' then s
      else if prefix old s then new @ replace_all old new (drop (length old) s)
      else hd s # replace_all old new (tl s))"
  by pat_completeness auto
termination
  by (relation "measure (\<lambda>(old, new, s). length s)") (auto simp: prefix_def)

declare replace_all.simps [simp del]

definition redact_input_in :: "cand_lib \<Rightarrow> string \<Rightarrow> string \<Rightarrow> string" where
  "redact_input_in cl msg input =
     (if input = '''' \<or> redact_input cl input = input then msg else replace_all input (redact_input cl input) msg)"

section \<open>Failures in the state\<close>

definition note_error :: "'w run_env \<Rightarrow> subscription \<Rightarrow> string \<Rightarrow> string \<Rightarrow> string \<Rightarrow> 'w run \<Rightarrow> 'w run" where
  "note_error env c sid code msg r =
     (let key = error_key (sub_id c) sid in
      if key \<in> rn_noted r then r
      else run_update c (set_source_error sid code msg (run_now env r))
        (r\<lparr>rn_noted := insert key (rn_noted r), rn_memory := ensure (sub_key c) (rn_memory r)\<rparr>))"

definition clear_error :: "subscription \<Rightarrow> string \<Rightarrow> 'w run \<Rightarrow> 'w run" where
  "clear_error c sid r = run_update c (\<lambda>t. t\<lparr>ts_source_errors := AList.delete sid (ts_source_errors t)\<rparr>) r"

definition first_failure :: "target_report \<Rightarrow> string" where
  "first_failure tp =
     (case List.find (\<lambda>it. it_status it = SFailed \<and> it_message it \<noteq> '''') (concat (map ar_items (tp_resources tp))) of
        Some it \<Rightarrow> it_message it
      | None \<Rightarrow> ''apply failed'')"

text \<open>The report of a source that is not applied.\<close>

definition failed_report_of :: "'w run_env \<Rightarrow> subscription \<Rightarrow> string \<Rightarrow> string \<Rightarrow> 'w run \<Rightarrow> target_report" where
  "failed_report_of env c sid msg r =
     new_target_report c sid [] (fail_all (re_sync env) c sid [] (ErrText msg) (run_now env r)) []"

definition failed_load :: "'w run_env \<Rightarrow> failed_source \<Rightarrow> 'w run \<Rightarrow> target_report \<times> 'w run" where
  "failed_load env f r =
     (let c = fs_sub f; src = fs_config f; msg = redact_input_in (re_cand env) (fs_error f) (s_input src);
          r1 = note_error env c (s_id src) (if fs_code f \<noteq> '''' then fs_code f else ''fetch_failed'') msg r
      in (failed_report_of env c (s_id src) msg r1, r1))"

section \<open>The order of sources\<close>

text \<open>The loop of \<^verbatim>\<open>dependencyOrder\<close>; \<open>pending\<close> holds the ids whose entry in the map is true.\<close>

definition next_source :: "string list \<Rightarrow> loaded_source list \<Rightarrow> loaded_source option" where
  "next_source pending sorted1 =
     List.find (\<lambda>l. s_id (ls_config l) \<in> set pending \<and> \<not> list_ex (\<lambda>d. d_source d \<in> set pending) (s_depends (ls_config l))) sorted1"

function order_loop :: "loaded_source list \<Rightarrow> string list \<Rightarrow> loaded_source list \<Rightarrow> loaded_source list" where
  "order_loop sorted1 pending out =
     (if length sorted1 \<le> length out then out
      else case next_source pending sorted1 of
          None \<Rightarrow> out @ filter (\<lambda>l. s_id (ls_config l) \<in> set pending) sorted1
        | Some l \<Rightarrow> order_loop sorted1 (removeAll (s_id (ls_config l)) pending) (out @ [l]))"
  by pat_completeness auto
termination
proof (relation "measure (\<lambda>(sorted1, pending, out). length pending)")
  fix sorted1 :: "loaded_source list" and pending out l
  assume "next_source pending sorted1 = Some l"
  then have "s_id (ls_config l) \<in> set pending" by (auto simp: next_source_def find_Some_iff)
  then show "((sorted1, removeAll (s_id (ls_config l)) pending, out @ [l]), sorted1, pending, out) \<in>
      measure (\<lambda>(sorted1, pending, out). length pending)"
    by (simp add: length_removeAll_less)
qed simp

declare order_loop.simps [simp del]

definition dependency_order :: "loaded_source list \<Rightarrow> loaded_source list" where
  "dependency_order loaded =
     (let sorted1 = sort_by (\<lambda>a b. cmp_ord (s_id (ls_config a)) (s_id (ls_config b))) loaded
      in order_loop sorted1 (map (\<lambda>l. s_id (ls_config l)) sorted1) [])"

section \<open>Checks\<close>

text \<open>The verdict of \<^verbatim>\<open>runChecks\<close>: passed, a failed check (code and text), another error, or a cancellation.\<close>

datatype verdict = Passed | CheckFailed string string | CheckError string | CheckCancelled

fun as_balancer_error :: "err \<Rightarrow> string option" where
  "as_balancer_error (BalancerNotFound t) = Some ''balancer_not_found''"
| "as_balancer_error (ServiceDisabled s) = Some ''routing_service_disabled''"
| "as_balancer_error (ErrWrap p e) = as_balancer_error e"
| "as_balancer_error (ReplaceFailed e) = as_balancer_error e"
| "as_balancer_error (StuckOnInitial e) = as_balancer_error e"
| "as_balancer_error e = None"

definition note_run :: "'w run_env \<Rightarrow> subscription \<Rightarrow> err option \<Rightarrow> 'w run \<Rightarrow> 'w run" where
  "note_run env c x r = r\<lparr>rn_memory := snd (note_xray (sub_key c) x (run_now env r) (rn_memory r))\<rparr>"

text \<open>The loop over the balancers; \<open>cl\<close> is the client or the error of the dial, \<open>own\<close> marks the source's balancer.\<close>

fun check_source_balancers ::
    "'w run_env \<Rightarrow> subscription \<Rightarrow> err + 'w client \<Rightarrow> (bool \<times> string) list \<Rightarrow> 'w run \<Rightarrow> verdict \<times> 'w run" where
  "check_source_balancers env c cl [] r = (Passed, r)"
| "check_source_balancers env c cl ((own, tag) # tags) r =
     (let (x, w1) = (case cl of
            Inl e \<Rightarrow> (Some e, rn_world r)
          | Inr client \<Rightarrow> (case get_balancer_info client tag (rn_world r) of (Inl e, w) \<Rightarrow> (Some e, w) | (Inr b, w) \<Rightarrow> (None, w)));
          r1 = r\<lparr>rn_world := w1\<rparr>
      in case x of
          None \<Rightarrow> if run_cancelled env r1 then (CheckCancelled, r1) else check_source_balancers env c cl tags (note_run env c None r1)
        | Some e \<Rightarrow>
            (case as_balancer_error e of
               Some code \<Rightarrow>
                 (CheckFailed code ((if own then '''' else ''dependency balancer \"'' @ tag @ ''\": '') @ err_text e),
                  note_run env c None r1)
             | None \<Rightarrow>
                 if run_cancelled env r1 then (CheckCancelled, r1)
                 else (CheckError (if own then ''balancer check: '' @ err_text e
                        else ''dependency balancer \"'' @ tag @ ''\" check: '' @ err_text e), note_run env c (Some e) r1)))"

definition cross_msg :: "'w run_env \<Rightarrow> dependency \<Rightarrow> 'w run \<Rightarrow> string" where
  "cross_msg env d r =
     (case find_balancer (dp_subs (re_deps env)) (d_subscription d) (d_balancer d) of
        None \<Rightarrow> ''''
      | Some (other, b) \<Rightarrow>
     (case bc_selection b of
        None \<Rightarrow> ''''
      | Some sc \<Rightarrow>
     (case view (sub_key other) (rn_memory r) of
        None \<Rightarrow> ''''
      | Some t \<Rightarrow>
     (case map_of (ts_balancers t) (bc_tag b) of
        None \<Rightarrow> ''''
      | Some st \<Rightarrow>
          let sel = bs_selection st in
          if sn_state sel = SelError \<and> sn_not_found sel \<and> sn_checked sel \<noteq> None \<and>
             \<not> stale (dp_cron (re_deps env)) sc (sn_checked sel) (run_now env r)
          then sn_error sel else ''''))))"

fun cross_checks :: "'w run_env \<Rightarrow> dependency list \<Rightarrow> 'w run \<Rightarrow> verdict" where
  "cross_checks env [] r = Passed"
| "cross_checks env (d # ds) r =
     (let msg = (if d_subscription d = '''' then '''' else cross_msg env d r) in
      if msg \<noteq> ''''
      then CheckFailed ''balancer_not_found''
             (''dependency balancer \"'' @ d_subscription d @ ''/'' @ d_balancer d @ ''\": '' @ msg)
      else cross_checks env ds r)"

definition missing_dependency :: "source \<Rightarrow> target_state option \<Rightarrow> string option" where
  "missing_dependency src t =
     (let ids = filter (\<lambda>i. i \<noteq> '''') (map d_source (s_depends src)) in
      case t of
        None \<Rightarrow> (case ids of [] \<Rightarrow> None | i # is1 \<Rightarrow> Some i)
      | Some st \<Rightarrow> List.find (\<lambda>i. map_of (ts_sources st) i = None) ids)"

definition source_balancer_tags :: "source \<Rightarrow> (bool \<times> string) list" where
  "source_balancer_tags src =
     (if s_balancer src = '''' then [] else [(True, s_balancer src)]) @
     map (\<lambda>d. (False, d_balancer d)) (filter (\<lambda>d. d_balancer d \<noteq> '''' \<and> d_subscription d = '''') (s_depends src))"

definition check_dialer :: "subscription \<Rightarrow> source \<Rightarrow> 'w run \<Rightarrow> verdict" where
  "check_dialer c src r =
     (if s_dialer_proxy src = '''' then Passed
      else case map_of (rn_outbounds r) (sub_id c) of
          Some (Some tags) \<Rightarrow>
            if s_dialer_proxy src \<in> set tags then Passed
            else CheckFailed ''dialer_proxy_missing''
              (''dialerProxy \"'' @ s_dialer_proxy src @ ''\" is not an outbound of the target'')
        | _ \<Rightarrow> CheckError ''dialerProxy check: the outbound list of the target is not available'')"

definition run_checks :: "'w run_env \<Rightarrow> subscription \<Rightarrow> source \<Rightarrow> 'w run \<Rightarrow> verdict \<times> 'w run" where
  "run_checks env c src r =
     (case missing_dependency src (view (sub_key c) (rn_memory r)) of
        Some i \<Rightarrow> (CheckFailed ''dependency_not_applied'' (''dependency \"'' @ i @ ''\" is not applied to the target''), r)
      | None \<Rightarrow>
          let tags = source_balancer_tags src;
              (v, r1) =
                (if tags = [] then (Passed, r)
                 else let (cl, w1) = dp_dial (re_deps env) (t_address (sub_target c)) (t_timeout (sub_target c)) (rn_world r)
                      in check_source_balancers env c cl tags (r\<lparr>rn_world := w1\<rparr>))
          in if v \<noteq> Passed then (v, r1)
             else case cross_checks env (s_depends src) r1 of
                 Passed \<Rightarrow> (check_dialer c src r1, r1)
               | v1 \<Rightarrow> (v1, r1))"

text \<open>\<^verbatim>\<open>checkSource\<close>: the source may be applied, is reported failed, or the run is cancelled.\<close>

datatype gate = Go | Refuse target_report | Stop

definition check_source :: "'w run_env \<Rightarrow> subscription \<Rightarrow> source \<Rightarrow> 'w run \<Rightarrow> gate \<times> 'w run" where
  "check_source env c src r =
     (let (v, r1) = run_checks env c src r; sid = s_id src in
      if run_cancelled env r1 then (Stop, r1)
      else case v of
          CheckError msg \<Rightarrow>
            let r2 = note_error env c sid ''apply_failed'' msg r1 in (Refuse (failed_report_of env c sid msg r2), r2)
        | CheckFailed code msg \<Rightarrow>
            let r2 = note_error env c sid code msg
                  (run_update c (\<lambda>t. t\<lparr>ts_check_failed := AList.update sid code (ts_check_failed t)\<rparr>) r1)
            in (Refuse (failed_report_of env c sid (code @ '': '' @ msg) r2), r2)
        | _ \<Rightarrow> (Go, run_update c (\<lambda>t. t\<lparr>ts_check_failed := AList.delete sid (ts_check_failed t)\<rparr>) r1))"


section \<open>Orphans\<close>

definition drop_stale :: "string set \<Rightarrow> string \<Rightarrow> memory \<Rightarrow> memory" where
  "drop_stale enabled key m =
     (case view key m of None \<Rightarrow> m
      | Some t \<Rightarrow> fold (\<lambda>i. update key (drop_source i)) (filter (\<lambda>i. i \<notin> enabled) (source_ids t)) m)"

text \<open>\<^verbatim>\<open>removeOrphans\<close>: \<open>None\<close> after a cancellation, else the error.\<close>

definition run_orphans :: "'w run_env \<Rightarrow> subscription \<Rightarrow> 'w run \<Rightarrow> err option option \<times> 'w run" where
  "run_orphans env c r =
     (let kinds = enabled_kinds (se_res (re_sync env)); t = sub_target c in
      if kinds = [] then (Some None, r)
      else if run_cancelled env r then (None, r)
      else
        let (o1, w1) = (case dp_dial (re_deps env) (t_address t) (t_timeout t) (rn_world r) of
              (Inl e, w) \<Rightarrow> (\<lparr>or_removed = [], or_outbounds = None, or_error = Some e\<rparr>, w)
            | (Inr cl, w) \<Rightarrow> remove_orphans cl t kinds (map (\<lambda>s. source_ns t (s_id s)) (enabled_sources c)) w);
            r1 = note_run env c (or_error o1)
              (r\<lparr>rn_world := w1, rn_outbounds := AList.update (sub_id c) (or_outbounds o1) (rn_outbounds r)\<rparr>)
        in if or_error o1 \<noteq> None then (Some (or_error o1), r1)
           else (Some None, r1\<lparr>rn_memory := drop_stale (s_id ` set (enabled_sources c)) (sub_key c) (rn_memory r1)\<rparr>))"

section \<open>One source\<close>

definition port_range_warnings :: "skip list \<Rightarrow> warning list" where
  "port_range_warnings skipped =
     (let n = length (filter (\<lambda>s. sk_code s = ''port_range_exhausted'') skipped)
      in if n = 0 then []
         else [\<lparr>wn_code = ''port_range_exhausted'',
           wn_message = nat_text n @ '' lines were skipped: the source portRange has no free port for them.''\<rparr>])"

text \<open>The sync of the plans or of the candidates, on the target that \<^verbatim>\<open>MarkSynced\<close> made.\<close>

definition sync_kind ::
    "'w run_env \<Rightarrow> subscription \<Rightarrow> source \<Rightarrow> manifest \<Rightarrow> plan list \<Rightarrow> skip list \<Rightarrow> 'w run \<Rightarrow>
     (target_report option \<times> 'w run) option" where
  "sync_kind env c src m plans skipped r =
     (let mem1 = mark_synced (sub_key c) (rn_memory r) in
      case view (sub_key c) mem1 of
        None \<Rightarrow> None
      | Some t \<Rightarrow>
          map_option (\<lambda>(rep, drift, t1, w1).
              (rep, r\<lparr>rn_memory := update (sub_key c) (\<lambda>_. t1) mem1, rn_world := w1,
                 rn_drifted := (if drift then insert (error_key (sub_id c) (s_id src)) (rn_drifted r) else rn_drifted r)\<rparr>))
            (if candidate_type (s_type src) then sync_wireguard (re_sync env) c src m skipped t (rn_world r)
             else Some (sync_plans (re_sync env) c (s_id src) plans skipped t (rn_world r))))"

text \<open>What a source without failures records.\<close>

definition store_warnings :: "source \<Rightarrow> manifest \<Rightarrow> warning list \<Rightarrow> target_state \<Rightarrow> target_state" where
  "store_warnings src m ws t =
     (case map_of (ts_sources t) (s_id src) of
        None \<Rightarrow> t
      | Some st \<Rightarrow>
          let st1 = st\<lparr>so_warnings := ws\<rparr>;
              st2 = (if candidate_type (s_type src) then st1\<lparr>so_candidate_count := length (mf_entries m)\<rparr> else st1)
          in t\<lparr>ts_sources := AList.update (s_id src) st2 (ts_sources t)\<rparr>)"

text \<open>\<^verbatim>\<open>syncSource\<close>: the report and the skipped lines, or \<open>None\<close> inside after a cancellation.\<close>

definition sync_source ::
    "'w run_env \<Rightarrow> loaded_source \<Rightarrow> 'w run \<Rightarrow> ((target_report \<times> skip list) option \<times> 'w run) option" where
  "sync_source env l r =
     (let c = ls_sub l; src = ls_config l; d = re_deps env; sid = s_id src in
      if run_cancelled env r then Some (None, r)
      else case from_source (dp_lib d) (re_cand env) (dp_to_proto d) src (ls_content l) (run_now env r) of
          None \<Rightarrow> None
        | Some (m, Some e) \<Rightarrow>
            let r1 = note_error env c sid ''manifest_invalid'' (err_text e) r
            in Some (Some (failed_report_of env c sid (err_text e) r1, []), r1)
        | Some (m, None) \<Rightarrow>
            (case plans_for (re_sync env) m src (sub_target c) (enabled_kinds (se_res (re_sync env))) of
               Inl e \<Rightarrow>
                 Some (Some (new_target_report c sid []
                   (fail_all (re_sync env) c sid [] (ErrText (err_text e)) (run_now env r)) (mf_skipped m), mf_skipped m), r)
             | Inr plans \<Rightarrow>
                 (let skipped = (case plans of [] \<Rightarrow> mf_skipped m | p # ps \<Rightarrow> pl_skipped p);
                      warnings = (if plans = [] then [] else port_range_warnings skipped)
                  in map_option (\<lambda>(rep, r1). case rep of
                         None \<Rightarrow> (None, r1)
                       | Some tp \<Rightarrow>
                           (Some (tp, skipped),
                            if tp_failed tp = 0 then run_update c (store_warnings src m warnings) r1 else r1))
                       (sync_kind env c src m plans skipped r))))"

section \<open>One subscription\<close>

text \<open>The loop over the sources: reports, skipped lines, the sources applied, and whether it was not cancelled.\<close>

record sub_result =
  sb_reports :: "target_report list"
  sb_skipped :: "skip list"
  sb_applied :: "string list"
  sb_done :: bool

fun sync_sources ::
    "'w run_env \<Rightarrow> subscription \<Rightarrow> loaded_source list \<Rightarrow> sub_result \<Rightarrow> 'w run \<Rightarrow> (sub_result \<times> 'w run) option" where
  "sync_sources env c [] b r = Some (b, r)"
| "sync_sources env c (l # ls) b r =
     (if run_cancelled env r then Some (b\<lparr>sb_done := False\<rparr>, r)
      else case check_source env c (ls_config l) r of
          (Stop, r1) \<Rightarrow> Some (b\<lparr>sb_done := False\<rparr>, r1)
        | (Refuse tp, r1) \<Rightarrow> sync_sources env c ls (b\<lparr>sb_reports := sb_reports b @ [tp]\<rparr>) r1
        | (Go, r1) \<Rightarrow>
            (case sync_source env l r1 of
               None \<Rightarrow> None
             | Some (None, r2) \<Rightarrow> Some (b\<lparr>sb_done := False\<rparr>, r2)
             | Some (Some (tp, sk), r2) \<Rightarrow>
                 let sid = s_id (ls_config l);
                     r3 = (if tp_failed tp = 0 then clear_error c sid r2
                           else note_error env c sid ''apply_failed'' (first_failure tp) r2)
                 in sync_sources env c ls
                      (b\<lparr>sb_reports := sb_reports b @ [tp], sb_skipped := sb_skipped b @ sk,
                         sb_applied := (if tp_failed tp = 0 then sb_applied b @ [sid] else sb_applied b)\<rparr>) r3))"

definition state_restored :: "'w run_env \<Rightarrow> subscription \<Rightarrow> string list \<Rightarrow> 'w run \<Rightarrow> 'w run" where
  "state_restored env c applied r =
     (let now = run_now env r in
      run_update c (fold (\<lambda>i t. snd (clear_state_lost i
        (if error_key (sub_id c) i \<in> rn_drifted r then now else rn_started r) now t)) applied) r)"

text \<open>The sources of a failed orphan removal.\<close>

fun refuse_all :: "'w run_env \<Rightarrow> subscription \<Rightarrow> string \<Rightarrow> loaded_source list \<Rightarrow> 'w run \<Rightarrow> target_report list \<times> 'w run" where
  "refuse_all env c msg [] r = ([], r)"
| "refuse_all env c msg (l # ls) r =
     (let tp = failed_report_of env c (s_id (ls_config l)) msg r;
          (tps, r1) = refuse_all env c msg ls (note_error env c (s_id (ls_config l)) ''orphan_remove_failed'' msg r)
      in (tp # tps, r1))"

definition sync_subscription ::
    "'w run_env \<Rightarrow> subscription \<Rightarrow> loaded_source list \<Rightarrow> 'w run \<Rightarrow> (sub_result \<times> 'w run) option" where
  "sync_subscription env c loaded r =
     (case run_orphans env c r of
        (None, r1) \<Rightarrow> Some (\<lparr>sb_reports = [], sb_skipped = [], sb_applied = [], sb_done = False\<rparr>, r1)
      | (Some (Some e), r1) \<Rightarrow>
          (let (tps, r2) = refuse_all env c (''orphan removal: '' @ err_text e) loaded r1
           in Some (\<lparr>sb_reports = tps, sb_skipped = [], sb_applied = [], sb_done = True\<rparr>, r2))
      | (Some None, r1) \<Rightarrow>
          map_option (\<lambda>(b, r2). (b, if sb_done b then state_restored env c (sb_applied b) r2 else r2))
            (sync_sources env c (dependency_order loaded)
               \<lparr>sb_reports = [], sb_skipped = [], sb_applied = [], sb_done = True\<rparr> r1))"

section \<open>The whole sync\<close>

record sync_report =
  sr_at :: time
  sr_duration :: int
  sr_added_n :: nat
  sr_replaced_n :: nat
  sr_removed_n :: nat
  sr_unchanged_n :: nat
  sr_failed_n :: nat
  sr_targets :: "target_report list"
  sr_skips :: "skip list"
  sr_cancelled :: string

definition empty_report :: "time \<Rightarrow> sync_report" where
  "empty_report now =
     \<lparr>sr_at = now, sr_duration = 0, sr_added_n = 0, sr_replaced_n = 0, sr_removed_n = 0, sr_unchanged_n = 0,
      sr_failed_n = 0, sr_targets = [], sr_skips = [], sr_cancelled = ''''\<rparr>"

definition aggregate :: "target_report list \<Rightarrow> skip list \<Rightarrow> time \<Rightarrow> time \<Rightarrow> sync_report" where
  "aggregate targets skipped started now =
     (let rs = concat (map tp_resources targets) in
      (empty_report now)\<lparr>sr_duration := millis (now - started), sr_targets := targets, sr_skips := skipped,
        sr_unchanged_n := sum_list (map (\<lambda>t. length (tp_unchanged t)) targets),
        sr_added_n := sum_list (map ar_added rs), sr_replaced_n := sum_list (map ar_replaced rs),
        sr_removed_n := sum_list (map ar_removed rs), sr_failed_n := sum_list (map ar_failed rs)\<rparr>)"

text \<open>What was loaded of each subscription, until a cancellation.\<close>

fun load_all ::
    "'w run_env \<Rightarrow> subscription list \<Rightarrow> 'w \<Rightarrow> (subscription \<times> loaded_source list \<times> failed_source list) list \<times> 'w" where
  "load_all env [] w = ([], w)"
| "load_all env (c # cs) w =
     (if dp_cancelled (re_deps env) w then ([], w)
      else let (ls, fs, w1) = load_sources env c w; (rest, w2) = load_all env cs w1 in ((c, ls, fs) # rest, w2))"

fun report_failed :: "'w run_env \<Rightarrow> failed_source list \<Rightarrow> 'w run \<Rightarrow> target_report list \<times> 'w run" where
  "report_failed env [] r = ([], r)"
| "report_failed env (f # fs) r =
     (let (tp, r1) = failed_load env f r; (tps, r2) = report_failed env fs r1 in (tp # tps, r2))"

text \<open>The loop over the targets; the result is the reports, the skipped lines and the phase of a cancellation.\<close>

fun sync_all ::
    "'w run_env \<Rightarrow> (subscription \<times> loaded_source list \<times> failed_source list) list \<Rightarrow> target_report list \<Rightarrow>
     skip list \<Rightarrow> 'w run \<Rightarrow> (target_report list \<times> skip list \<times> string \<times> 'w run) option" where
  "sync_all env [] tps sks r = Some (tps, sks, '''', r)"
| "sync_all env ((c, ls, fs) # rest) tps sks r =
     (case sync_subscription env c ls r of
        None \<Rightarrow> None
      | Some (b, r1) \<Rightarrow>
          if \<not> sb_done b then Some (tps @ sb_reports b, sks @ sb_skipped b, ''targets'', r1)
          else sync_all env rest (tps @ sb_reports b) (sks @ sb_skipped b) r1)"

definition perform :: "'w run_env \<Rightarrow> memory \<Rightarrow> 'w \<Rightarrow> (sync_report \<times> memory \<times> 'w) option" where
  "perform env mem w =
     (let started = dp_now (re_deps env) w;
          subs = sort_by (\<lambda>a b. cmp_ord (sub_id a) (sub_id b)) (filter sub_enabled (dp_subs (re_deps env)));
          (loads, w1) = load_all env subs w;
          r0 = \<lparr>rn_memory = mem, rn_world = w1, rn_noted = {}, rn_outbounds = [], rn_drifted = {}, rn_started = started\<rparr>;
          (tps, r1) = report_failed env (concat (map (\<lambda>(c, ls, fs). fs) loads)) r0
      in map_option (\<lambda>(tps1, sks, phase, r2).
             ((aggregate tps1 sks started (run_now env r2))\<lparr>sr_cancelled := phase\<rparr>, rn_memory r2, rn_world r2))
           (if run_cancelled env r1 then Some (tps, [], ''load'', r1) else sync_all env loads tps [] r1))"

text \<open>\<^verbatim>\<open>Run\<close>.\<close>

definition run_sync :: "'w run_env \<Rightarrow> memory \<Rightarrow> 'w \<Rightarrow> (sync_report \<times> memory \<times> 'w) option" where
  "run_sync env mem w =
     (let (fresh, mem1) = try_start_sync mem in
      if \<not> fresh then Some (empty_report (dp_now (re_deps env) w), mem1, w)
      else map_option (\<lambda>(rep, mem2, w1). (rep, end_sync mem2, w1)) (perform env mem1 w))"

end
