(* ===== verification/Scd_Order.thy ===== *)
theory Scd_Order
  imports Scd_Run
begin

text \<open>
  The order in which the sources of a target are synced (\<^verbatim>\<open>dependencyOrder\<close> of
  \<^verbatim>\<open>internal/scd/syncer/check.go\<close>): the loop only permutes the sources, and always takes the first of them,
  by id, that waits for no other.
\<close>

section \<open>The loop\<close>

abbreviation lid :: "loaded_source \<Rightarrow> string" where
  "lid l \<equiv> s_id (ls_config l)"

text \<open>A source that may be next after \<open>xs\<close>: it is not among them and the loaded sources it depends on are.\<close>

definition ready :: "loaded_source list \<Rightarrow> loaded_source list \<Rightarrow> loaded_source \<Rightarrow> bool" where
  "ready loaded xs l \<longleftrightarrow> l \<in> set loaded \<and> lid l \<notin> lid ` set xs \<and>
     (\<forall>d \<in> set (s_depends (ls_config l)). d_source d \<in> lid ` set loaded \<longrightarrow> d_source d \<in> lid ` set xs)"

text \<open>Every source is the first one ready after those before it.\<close>

definition in_order :: "loaded_source list \<Rightarrow> loaded_source list \<Rightarrow> bool" where
  "in_order loaded out \<longleftrightarrow>
     (\<forall>xs l ys. out = xs @ l # ys \<longrightarrow> ready loaded xs l \<and> (\<forall>l'. ready loaded xs l' \<longrightarrow> lid l \<le> lid l'))"

text \<open>No source waits for itself, through others: the dependencies can be ranked.\<close>

definition acyclic_by :: "(string \<Rightarrow> nat) \<Rightarrow> loaded_source list \<Rightarrow> bool" where
  "acyclic_by rnk loaded \<longleftrightarrow>
     (\<forall>l \<in> set loaded. \<forall>d \<in> set (s_depends (ls_config l)). d_source d \<in> lid ` set loaded \<longrightarrow> rnk (d_source d) < rnk (lid l))"

lemma pending_split:
  assumes "distinct (map lid sorted1)" "l \<in> set sorted1" "lid l \<in> set pending"
  shows "mset (filter (\<lambda>x. lid x \<in> set pending) sorted1) =
    add_mset l (mset (filter (\<lambda>x. lid x \<in> set (removeAll (lid l) pending)) sorted1))"
proof -
  obtain xs ys where s: "sorted1 = xs @ l # ys" using split_list [OF assms(2)] by blast
  have "lid l \<notin> lid ` set xs" "lid l \<notin> lid ` set ys" using assms(1) by (simp_all add: s)
  then have "lid x \<noteq> lid l" if "x \<in> set xs \<union> set ys" for x using that by (metis UnE imageI)
  then have "filter (\<lambda>x. lid x \<in> set (removeAll (lid l) pending)) zs = filter (\<lambda>x. lid x \<in> set pending) zs"
    if "set zs \<subseteq> set xs \<union> set ys" for zs using that by (intro filter_cong) auto
  from this [of xs] this [of ys] show ?thesis using assms(3) by (simp add: s)
qed

lemma next_source_Some:
  "next_source pending sorted1 = Some l \<Longrightarrow> l \<in> set sorted1 \<and> lid l \<in> set pending"
  by (auto simp: next_source_def find_Some_iff)

lemma order_loop_mset:
  "distinct (map lid sorted1) \<Longrightarrow>
   mset out + mset (filter (\<lambda>l. lid l \<in> set pending) sorted1) = mset sorted1 \<Longrightarrow>
   mset (order_loop sorted1 pending out) = mset sorted1"
proof (induction sorted1 pending out rule: order_loop.induct)
  case (1 sorted1 pending out)
  have size: "length out + length (filter (\<lambda>l. lid l \<in> set pending) sorted1) = length sorted1"
    using arg_cong [OF 1(3), of size] by (simp only: size_union size_mset)
  show ?case
  proof (cases "length sorted1 \<le> length out")
    case True
    then have "filter (\<lambda>l. lid l \<in> set pending) sorted1 = []" using size by (metis add_cancel_right_right le_add1 le_antisym length_0_conv)
    then have "mset out = mset sorted1" using 1(3) by (metis add.right_neutral mset.simps(1))
    then show ?thesis using True by (simp add: order_loop.simps)
  next
    case False
    show ?thesis
    proof (cases "next_source pending sorted1")
      case None
      then show ?thesis using False 1(3) by (subst order_loop.simps) simp
    next
      case (Some l)
      have l: "l \<in> set sorted1" "lid l \<in> set pending" using next_source_Some [OF Some] by auto
      have "mset (out @ [l]) + mset (filter (\<lambda>x. lid x \<in> set (removeAll (lid l) pending)) sorted1) = mset sorted1"
        using pending_split [OF 1(2) l(1) l(2)] 1(3) by simp
      from 1(1) [OF False Some 1(2) this] show ?thesis using False Some by (subst order_loop.simps) simp
    qed
  qed
qed

lemma find_first:
  assumes "List.find P xs = Some x" "sorted_wrt (\<lambda>x y. c x y \<le> (0 :: int)) xs" "y \<in> set xs" "P y" "c x x \<le> 0"
  shows "c x y \<le> 0"
  using assms by (induction xs) (auto split: if_splits)

text \<open>While the loop runs, the pending ids are those of the sources that are not out.\<close>

lemma next_source_ready:
  assumes "\<forall>l \<in> set sorted1. lid l \<in> set pending \<longleftrightarrow> lid l \<notin> lid ` set out" "set pending \<subseteq> lid ` set sorted1"
    and "l \<in> set sorted1"
  shows "(lid l \<in> set pending \<and> \<not> list_ex (\<lambda>d. d_source d \<in> set pending) (s_depends (ls_config l))) = ready sorted1 out l"
proof -
  have "i \<in> set pending \<longleftrightarrow> i \<in> lid ` set sorted1 \<and> i \<notin> lid ` set out" for i
  proof
    assume "i \<in> set pending"
    then obtain x where x: "x \<in> set sorted1" "i = lid x" using assms(2) by blast
    then have "i \<notin> lid ` set out" using bspec [OF assms(1) x(1)] \<open>i \<in> set pending\<close> by simp
    then show "i \<in> lid ` set sorted1 \<and> i \<notin> lid ` set out" using x by blast
  next
    assume i: "i \<in> lid ` set sorted1 \<and> i \<notin> lid ` set out"
    then obtain x where x: "x \<in> set sorted1" "i = lid x" by blast
    then show "i \<in> set pending" using bspec [OF assms(1) x(1)] i by simp
  qed
  then show ?thesis using assms(1,3) by (auto simp: ready_def list_ex_iff)
qed

lemma ready_cong: "set a = set b \<Longrightarrow> ready a = ready b"
  by (intro ext) (simp add: ready_def)

lemma in_order_snoc:
  assumes "in_order loaded out" "ready loaded out l" "\<forall>l'. ready loaded out l' \<longrightarrow> lid l \<le> lid l'"
  shows "in_order loaded (out @ [l])"
  unfolding in_order_def
proof (intro allI impI)
  fix xs x ys assume e: "out @ [l] = xs @ x # ys"
  show "ready loaded xs x \<and> (\<forall>l'. ready loaded xs l' \<longrightarrow> lid x \<le> lid l')"
  proof (cases ys rule: rev_cases)
    case Nil
    then show ?thesis using e assms(2,3) by simp
  next
    case (snoc zs z)
    then show ?thesis using e assms(1) by (auto simp: in_order_def)
  qed
qed

text \<open>Without a cycle something is ready as long as something is pending: a source of the least rank.\<close>

lemma some_ready:
  assumes "acyclic_by rnk loaded" "x \<in> set loaded" "lid x \<notin> lid ` set out"
  shows "\<exists>l. ready loaded out l"
proof -
  let ?P = "\<lambda>l. l \<in> set loaded \<and> lid l \<notin> lid ` set out"
  obtain l where l: "?P l" "\<forall>y. rnk (lid y) < rnk (lid l) \<longrightarrow> \<not> ?P y"
    using exists_least_iff [of "\<lambda>n. \<exists>l. ?P l \<and> rnk (lid l) = n"] assms(2,3) by metis
  have "d_source d \<in> lid ` set out" if d: "d \<in> set (s_depends (ls_config l))" "d_source d \<in> lid ` set loaded" for d
  proof -
    obtain y where y: "y \<in> set loaded" "lid y = d_source d" using d(2) by force
    then have "rnk (lid y) < rnk (lid l)" using assms(1) d l(1) by (simp add: acyclic_by_def)
    then have "lid y \<in> lid ` set out" using l(2) y(1) by blast
    then show ?thesis using y(2) by simp
  qed
  then have "ready loaded out l" using l(1) by (simp add: ready_def)
  then show ?thesis by blast
qed

lemma pending_iff:
  assumes dist: "distinct (map lid sorted1)" and all: "mset out + mset (filter (\<lambda>l. lid l \<in> set pending) sorted1) = mset sorted1"
    and l: "l \<in> set sorted1"
  shows "lid l \<in> set pending \<longleftrightarrow> lid l \<notin> lid ` set out" "lid l \<notin> set pending \<Longrightarrow> l \<in> set out"
proof -
  let ?rest = "filter (\<lambda>l. lid l \<in> set pending) sorted1"
  have "mset (map lid out) + mset (map lid ?rest) = mset (map lid sorted1)"
    using arg_cong [OF all, of "image_mset lid"] by simp
  then have "distinct (map lid out @ map lid ?rest)" using dist by (metis mset_append mset_eq_imp_distinct_iff)
  then have disj: "lid ` set out \<inter> lid ` set ?rest = {}" by (simp only: distinct_append set_map)
  have "set sorted1 = set out \<union> set ?rest" using arg_cong [OF all, of set_mset] by simp
  then have one: "l \<in> set out \<or> l \<in> set ?rest" using l by blast
  then show "lid l \<notin> set pending \<Longrightarrow> l \<in> set out" by simp
  show "lid l \<in> set pending \<longleftrightarrow> lid l \<notin> lid ` set out"
  proof
    assume "lid l \<in> set pending"
    then have "l \<in> set ?rest" using l by simp
    then show "lid l \<notin> lid ` set out" using disj by blast
  next
    assume "lid l \<notin> lid ` set out"
    then have "l \<in> set ?rest" using one by blast
    then show "lid l \<in> set pending" by simp
  qed
qed

lemma order_loop_in_order:
  "acyclic_by rnk sorted1 \<Longrightarrow> sorted_wrt (\<lambda>x y. cmp_ord (lid x) (lid y) \<le> 0) sorted1 \<Longrightarrow> distinct (map lid sorted1) \<Longrightarrow>
   mset out + mset (filter (\<lambda>l. lid l \<in> set pending) sorted1) = mset sorted1 \<Longrightarrow> set pending \<subseteq> lid ` set sorted1 \<Longrightarrow>
   in_order sorted1 out \<Longrightarrow> in_order sorted1 (order_loop sorted1 pending out)"
proof (induction sorted1 pending out rule: order_loop.induct)
  case (1 sorted1 pending out)
  have pend: "\<forall>l \<in> set sorted1. lid l \<in> set pending \<longleftrightarrow> lid l \<notin> lid ` set out"
    using pending_iff(1) [OF 1(4,5)] by blast
  note next1 = next_source_ready [OF pend 1(6)]
  show ?case
  proof (cases "length sorted1 \<le> length out")
    case True
    then show ?thesis using 1(7) by (simp add: order_loop.simps)
  next
    case False
    show ?thesis
    proof (cases "next_source pending sorted1")
      case None
      have "\<not> set sorted1 \<subseteq> set out"
      proof
        assume "set sorted1 \<subseteq> set out"
        then have "card (set sorted1) \<le> card (set out)" by (intro card_mono) auto
        moreover have "card (set sorted1) = length sorted1" using 1(4) by (intro distinct_card) (simp add: distinct_map)
        ultimately show False using False card_length [of out] by linarith
      qed
      then obtain x where x: "x \<in> set sorted1" "x \<notin> set out" by blast
      then have "lid x \<notin> lid ` set out" using pending_iff [OF 1(4,5) x(1)] by blast
      then obtain l where l: "ready sorted1 out l" using some_ready [OF 1(2) x(1)] by blast
      then have "l \<in> set sorted1" by (simp add: ready_def)
      then show ?thesis using None next1 l by (auto simp: next_source_def find_None_iff)
    next
      case (Some l)
      have l: "l \<in> set sorted1" "lid l \<in> set pending" using next_source_Some [OF Some] by auto
      have r: "ready sorted1 out l" using Some next1 [OF l(1)] by (auto simp: next_source_def find_Some_iff)
      have "lid l \<le> lid l'" if "ready sorted1 out l'" for l'
      proof -
        have l': "l' \<in> set sorted1" using that by (simp add: ready_def)
        have "cmp_ord (lid l) (lid l') \<le> 0"
          by (rule find_first [OF Some [unfolded next_source_def] 1(3) l' iffD2 [OF next1 [OF l'] that]]) (simp add: cmp_ord_def)
        then show ?thesis by (auto simp: cmp_ord_def split: if_splits)
      qed
      then have ord: "in_order sorted1 (out @ [l])" using in_order_snoc [OF 1(7) r] by blast
      have "mset (out @ [l]) + mset (filter (\<lambda>x. lid x \<in> set (removeAll (lid l) pending)) sorted1) = mset sorted1"
        using pending_split [OF 1(4) l] 1(5) by simp
      moreover have "set (removeAll (lid l) pending) \<subseteq> lid ` set sorted1" using 1(6) by auto
      ultimately show ?thesis using 1(1) [OF False Some 1(2,3,4) _ _ ord] False Some by (subst order_loop.simps) simp
    qed
  qed
qed

interpretation by_source_id: comparator "\<lambda>a b. cmp_ord (lid a) (lid b)"
  by (rule comparator_cmp_ord)

lemma order_start:
  assumes "distinct (map lid loaded)"
  defines "s1 \<equiv> sort_by (\<lambda>a b. cmp_ord (lid a) (lid b)) loaded"
  shows "mset [] + mset (filter (\<lambda>l. lid l \<in> set (map lid s1)) s1) = mset s1" "distinct (map lid s1)"
    "sorted_wrt (\<lambda>x y. cmp_ord (lid x) (lid y) \<le> 0) s1" "set s1 = set loaded" "mset s1 = mset loaded"
proof -
  have "mset (map lid s1) = mset (map lid loaded)" by (simp add: s1_def)
  then show "distinct (map lid s1)" using assms(1) mset_eq_imp_distinct_iff by blast
  have "filter (\<lambda>l. lid l \<in> set (map lid s1)) s1 = s1" by (rule filter_True) simp
  then show "mset [] + mset (filter (\<lambda>l. lid l \<in> set (map lid s1)) s1) = mset s1" by simp
qed (simp_all add: s1_def by_source_id.sorted_sort_by)

lemma dependency_order_mset: "distinct (map lid loaded) \<Longrightarrow> mset (dependency_order loaded) = mset loaded"
  using order_loop_mset [OF order_start(2,1)] order_start(5) unfolding dependency_order_def Let_def by metis

lemma dependency_order_in_order:
  assumes "distinct (map lid loaded)" "acyclic_by rnk loaded"
  shows "in_order loaded (dependency_order loaded)"
proof -
  let ?s = "sort_by (\<lambda>a b. cmp_ord (lid a) (lid b)) loaded"
  note s = order_start [OF assms(1)]
  have "acyclic_by rnk ?s" using assms(2) by (simp add: acyclic_by_def)
  moreover have "in_order ?s []" by (simp add: in_order_def)
  ultimately have "in_order ?s (dependency_order loaded)"
    unfolding dependency_order_def Let_def
    by (intro order_loop_in_order [OF _ s(3,2,1)]) auto
  then show "in_order loaded (dependency_order loaded)"
    unfolding in_order_def using ready_cong [OF s(4)] by simp
qed

text \<open>
  C3: The sources of a target are synced in the order of their dependencies, whatever order they were
  loaded in: the order holds every loaded source once, and each is the first one by id among those that
  wait for no later one, so a source always comes after the loaded sources it depends on.
\<close>

theorem dependency_order_correct:
  assumes "distinct (map (\<lambda>l. s_id (ls_config l)) loaded)" "acyclic_by rnk loaded"
  shows "mset (dependency_order loaded) = mset loaded \<and> in_order loaded (dependency_order loaded)"
  using dependency_order_mset [OF assms(1)] dependency_order_in_order [OF assms] by blast

definition w_loaded :: "string \<Rightarrow> string list \<Rightarrow> loaded_source" where
  "w_loaded i ds =
     \<lparr>ls_sub = w_sub, ls_config = w_vl\<lparr>s_id := i,
        s_depends := map (\<lambda>x. \<lparr>d_source = x, d_subscription = '''', d_balancer = '''', d_health = '''', d_grace = 0\<rparr>) ds\<rparr>,
      ls_source = '''', ls_content = '''', ls_encoding = ''''\<rparr>"

definition w_loads :: "loaded_source list" where
  "w_loads = [w_loaded ''a'' [''b'', ''x''], w_loaded ''c'' [], w_loaded ''b'' [''c'']]"

lemma dependency_order_correct_witness:
  "mset (dependency_order w_loads) = mset w_loads \<and> in_order w_loads (dependency_order w_loads)"
  by (rule dependency_order_correct [of _ "\<lambda>i. if i = ''a'' then 2 else if i = ''b'' then 1 else 0"])
    (simp_all add: w_loads_def w_loaded_def acyclic_by_def)

end
