(* ===== verification/Scd_Runs.thy ===== *)
theory Scd_Runs
  imports Scd_Order
begin

text \<open>
  The properties of a whole sync (\<^verbatim>\<open>internal/scd/syncer/syncer.go\<close>): the checks before a source is applied
  change nothing of what is applied, every enabled source is reported once, and a run returns from any
  state that runs leave.
\<close>

section \<open>What is applied\<close>

definition applied_of :: "string \<Rightarrow> memory \<Rightarrow> (string, source_state) gomap \<times> mtunnel list" where
  "applied_of key m = (case view key m of None \<Rightarrow> ([], []) | Some t \<Rightarrow> (ts_sources t, ts_tunnels t))"

definition applied_same :: "memory \<Rightarrow> memory \<Rightarrow> bool" where
  "applied_same m m' \<longleftrightarrow> (\<forall>key. applied_of key m' = applied_of key m)"

named_theorems frame

lemma applied_same_refl [frame]: "applied_same m m"
  by (simp add: applied_same_def)

lemma applied_same_trans: "applied_same m m' \<Longrightarrow> applied_same m' m'' \<Longrightarrow> applied_same m m''"
  by (simp add: applied_same_def)

lemma view_update: "view key (update k f m) = (if key = k then map_option f (view k m) else view key m)"
  by (auto simp: view_def update_def update_conv' split: option.split)

lemma view_ensure: "view key (ensure k m) = (if key = k \<and> view k m = None then Some new_target else view key m)"
  by (simp add: view_def ensure_def update_conv')

lemma update_same [frame]:
  "(\<And>t. ts_sources (f t) = ts_sources t \<and> ts_tunnels (f t) = ts_tunnels t) \<Longrightarrow> applied_same m (update k f m)"
  by (auto simp: applied_same_def applied_of_def view_update split: option.split)

lemma ensure_same [frame]: "applied_same m (ensure k m)"
  by (auto simp: applied_same_def applied_of_def view_ensure new_target_def split: option.split)

lemma note_error_same [frame]: "applied_same (rn_memory r) (rn_memory (note_error env c sid code msg r))"
proof -
  have "applied_same (rn_memory r) (update k (set_source_error sid code msg now) (ensure k (rn_memory r)))" for k now
    by (rule applied_same_trans [OF ensure_same update_same]) (simp add: set_source_error_def Let_def)
  then show ?thesis by (simp add: note_error_def run_update_def Let_def applied_same_refl)
qed

lemma note_error_rest [simp]: "rn_world (note_error env c sid code msg r) = rn_world r"
  "rn_outbounds (note_error env c sid code msg r) = rn_outbounds r"
  "rn_drifted (note_error env c sid code msg r) = rn_drifted r" "rn_started (note_error env c sid code msg r) = rn_started r"
  by (simp_all add: note_error_def run_update_def Let_def)

lemma note_run_same [frame]: "applied_same (rn_memory r) (rn_memory (note_run env c x r))"
proof -
  have "applied_same m (snd (note_xray key x now m))" for key now m
  proof (cases x)
    case None
    then show ?thesis by (auto simp: note_xray_def clear_xray_down_def Let_def intro!: update_same split: option.split)
  next
    case (Some e)
    have "applied_same m (update key (\<lambda>t. snd (set_xray_down (err_text e) now t)) (ensure key m))"
      by (rule applied_same_trans [OF ensure_same update_same]) (simp add: set_xray_down_def Let_def split: option.split)
    then show ?thesis using Some by (simp add: note_xray_def applied_same_refl)
  qed
  then show ?thesis by (simp add: note_run_def)
qed

lemma note_run_rest [simp]: "rn_world (note_run env c x r) = rn_world r" "rn_outbounds (note_run env c x r) = rn_outbounds r"
  "rn_noted (note_run env c x r) = rn_noted r"
  by (simp_all add: note_run_def)

lemma run_update_rest [simp]: "rn_world (run_update c f r) = rn_world r" "rn_outbounds (run_update c f r) = rn_outbounds r"
  "rn_noted (run_update c f r) = rn_noted r"
  by (simp_all add: run_update_def)

section \<open>The checks\<close>

lemma check_balancers_same:
  "check_source_balancers env c cl tags r = (v, r') \<Longrightarrow> applied_same (rn_memory r) (rn_memory r') \<and> rn_outbounds r' = rn_outbounds r"
proof (induction env c cl tags r arbitrary: v r' rule: check_source_balancers.induct)
  case (2 env c cl own tag tags r)
  obtain x w1 where x: "(case cl of Inl e \<Rightarrow> (Some e, rn_world r)
      | Inr client \<Rightarrow> (case get_balancer_info client tag (rn_world r) of (Inl e, w) \<Rightarrow> (Some e, w) | (Inr b, w) \<Rightarrow> (None, w))) = (x, w1)"
    by fastforce
  note noted = note_run_same [of "r\<lparr>rn_world := w1\<rparr>" env c, simplified]
  show ?case
    using "2.prems" "2.IH" [OF x [symmetric] refl] noted applied_same_refl applied_same_trans
    unfolding check_source_balancers.simps x Let_def prod.case
    by (cases x) (fastforce split: if_splits option.splits)+
qed (auto intro: frame)

lemma run_checks_same:
  "run_checks env c src r = (v, r') \<Longrightarrow> applied_same (rn_memory r) (rn_memory r') \<and> rn_outbounds r' = rn_outbounds r"
  unfolding run_checks_def Let_def
  by (auto split: option.splits if_splits prod.splits verdict.splits intro: frame dest!: check_balancers_same)

lemma check_balancers_cancelled: "check_source_balancers env c cl tags r = (CheckCancelled, r') \<Longrightarrow> run_cancelled env r'"
  by (induction env c cl tags r rule: check_source_balancers.induct) (auto simp: Let_def split: prod.splits option.splits if_splits sum.splits)

lemma cross_checks_verdict [simp]: "cross_checks env ds r \<noteq> CheckCancelled" "check_dialer c src r \<noteq> CheckCancelled"
  by (induction ds) (auto simp: Let_def check_dialer_def split: option.splits)

lemma run_checks_cancelled: "run_checks env c src r = (CheckCancelled, r') \<Longrightarrow> run_cancelled env r'"
  unfolding run_checks_def Let_def
  by (auto split: option.splits if_splits prod.splits verdict.splits dest: check_balancers_cancelled)

lemma run_checks_passed:
  assumes "run_checks env c src r = (Passed, r')"
  shows "missing_dependency src (view (sub_key c) (rn_memory r)) = None \<and> check_dialer c src r' = Passed"
  using assms unfolding run_checks_def Let_def by (auto split: option.splits if_splits prod.splits verdict.splits)

text \<open>What a source needs to be applied: state of its dependencies on the target, and its dialer proxy.\<close>

definition deps_applied :: "subscription \<Rightarrow> source \<Rightarrow> memory \<Rightarrow> bool" where
  "deps_applied c src m \<longleftrightarrow>
     (\<forall>d \<in> set (s_depends src). d_source d \<noteq> '''' \<longrightarrow> map_of (fst (applied_of (sub_key c) m)) (d_source d) \<noteq> None)"

definition dialer_present :: "subscription \<Rightarrow> source \<Rightarrow> (string, string list option) gomap \<Rightarrow> bool" where
  "dialer_present c src outs \<longleftrightarrow>
     s_dialer_proxy src = '''' \<or> (\<exists>tags. map_of outs (sub_id c) = Some (Some tags) \<and> s_dialer_proxy src \<in> set tags)"

lemma missing_dependency_None:
  "missing_dependency src (view (sub_key c) m) = None \<longleftrightarrow> deps_applied c src m"
proof (cases "view (sub_key c) m")
  case None
  have "filter (\<lambda>i. i \<noteq> '''') (map d_source (s_depends src)) = [] \<longleftrightarrow> (\<forall>d \<in> set (s_depends src). d_source d = '''')"
    by (simp add: filter_empty_conv)
  then show ?thesis using None by (auto simp: missing_dependency_def deps_applied_def applied_of_def Let_def split: list.split)
next
  case (Some t)
  then show ?thesis by (auto simp: missing_dependency_def deps_applied_def applied_of_def Let_def find_None_iff)
qed

lemma check_dialer_Passed: "check_dialer c src r = Passed \<longleftrightarrow> dialer_present c src (rn_outbounds r)"
  by (auto simp: check_dialer_def dialer_present_def split: option.splits)

lemma failed_reports_sum: "sum_list (map ar_failed (fail_all env c sid sks e now)) = length (enabled_kinds (se_res env))"
  by (induction "enabled_kinds (se_res env)") (simp_all add: fail_all_def failed_report_one comp_def sum_list_triv)

definition refused_report :: "'w run_env \<Rightarrow> subscription \<Rightarrow> string \<Rightarrow> target_report \<Rightarrow> bool" where
  "refused_report env c sid tp \<longleftrightarrow> tp_subscription tp = sub_id c \<and> tp_source tp = sid \<and> tp_unchanged tp = [] \<and>
     tp_failed tp = length (enabled_kinds (se_res (re_sync env)))"

lemma failed_report_of_refused: "refused_report env c sid (failed_report_of env c sid msg r)"
  by (simp add: refused_report_def failed_report_of_def new_target_report_def failed_reports_sum)

lemma note_error_noted: "error_key (sub_id c) sid \<in> rn_noted (note_error env c sid code msg r)"
  by (simp add: note_error_def Let_def)

lemma check_source_effect:
  assumes "check_source env c src r = (g, r1)"
  shows "applied_same (rn_memory r) (rn_memory r1) \<and>
    (g = Go \<longrightarrow> deps_applied c src (rn_memory r) \<and> dialer_present c src (rn_outbounds r)) \<and>
    (\<forall>tp. g = Refuse tp \<longrightarrow> refused_report env c (s_id src) tp \<and> error_key (sub_id c) (s_id src) \<in> rn_noted r1)"
proof -
  obtain v r' where v: "run_checks env c src r = (v, r')" by fastforce
  note same = run_checks_same [OF v]
  have plain: "applied_same (rn_memory r) (rn_memory (run_update c f r'))"
    if "\<And>t. ts_sources (f t) = ts_sources t \<and> ts_tunnels (f t) = ts_tunnels t" for f
    using applied_same_trans [OF conjunct1 [OF same] update_same [OF that]] by (simp add: run_update_def)
  show ?thesis
  proof (cases "run_cancelled env r'")
    case True
    then show ?thesis using assms same by (simp add: check_source_def v)
  next
    case False
    show ?thesis
    proof (cases v)
      case Passed
      then show ?thesis using assms False plain run_checks_passed [of env c src r r'] v same
        by (auto simp: check_source_def missing_dependency_None check_dialer_Passed Let_def)
    next
      case (CheckFailed code msg)
      then show ?thesis using assms False failed_report_of_refused note_error_noted
        by (auto simp: check_source_def v Let_def intro!: applied_same_trans [OF plain note_error_same])
    next
      case (CheckError msg)
      then show ?thesis using assms False failed_report_of_refused note_error_noted
        by (auto simp: check_source_def v Let_def intro!: applied_same_trans [OF conjunct1 [OF same] note_error_same])
    next
      case CheckCancelled
      then show ?thesis using False run_checks_cancelled v by blast
    qed
  qed
qed

text \<open>A run of the witnesses: no input loads, and Xray answers.\<close>

definition w_run_env :: "server run_env" where
  "w_run_env =
     \<lparr>re_sync = w_env\<lparr>se_deps := w_deps\<lparr>dp_subs := [w_sub]\<rparr>\<rparr>, re_cand = w_cl,
      re_load = (\<lambda>i opts w. (Inl \<lparr>le_text = ''no such file'', le_refused = False\<rparr>, w)),
      re_private = (\<lambda>i n w. (Inl \<lparr>le_text = ''no such file'', le_refused = False\<rparr>, w))\<rparr>"

definition w_memory :: memory where
  "w_memory = new_memory\<lparr>mm_targets := [(sub_key w_sub, new_target)]\<rparr>"

definition w_sync_run :: "server run" where
  "w_sync_run = \<lparr>rn_memory = w_memory, rn_world = new_server, rn_noted = {}, rn_outbounds = [], rn_drifted = {}, rn_started = 0\<rparr>"

lemma source_ids_code [code]: "source_ids t = sorted_list_of_set (fst ` set (ts_sources t))"
  by (simp add: source_ids_def dom_map_of_conv_image_fst)

lemma w_refused: "case check_source w_run_env w_sub (ls_config (w_loaded ''a'' [''b''])) w_sync_run of (g, r1) \<Rightarrow> g \<noteq> Go \<and> g \<noteq> Stop"
  by code_simp

text \<open>
  C4: A source is applied only when every source it depends on has state on the target and its dialer proxy
  is an outbound of the target; otherwise it is reported failed for every kind and its failure is recorded.
  The checks themselves change nothing of what is applied to any target.
\<close>

theorem check_source_gates:
  assumes "check_source env c src r = (g, r1)"
  shows "applied_same (rn_memory r) (rn_memory r1) \<and>
    (g = Go \<longrightarrow> deps_applied c src (rn_memory r) \<and> dialer_present c src (rn_outbounds r)) \<and>
    (\<forall>tp. g = Refuse tp \<longrightarrow> refused_report env c (s_id src) tp \<and> error_key (sub_id c) (s_id src) \<in> rn_noted r1)"
  by (rule check_source_effect [OF assms])

lemma check_source_gates_witness:
  "case check_source w_run_env w_sub (ls_config (w_loaded ''a'' [''b''])) w_sync_run of (g, r1) \<Rightarrow>
     g \<noteq> Go \<and> applied_same w_memory (rn_memory r1) \<and> error_key ''s'' ''a'' \<in> rn_noted r1"
proof -
  obtain g r1 where g: "check_source w_run_env w_sub (ls_config (w_loaded ''a'' [''b''])) w_sync_run = (g, r1)" by fastforce
  then have "g \<noteq> Go" "g \<noteq> Stop" using w_refused by simp_all
  then obtain tp where "g = Refuse tp" by (cases g) auto
  then show ?thesis using check_source_gates [OF g] g by (simp add: w_sync_run_def w_loaded_def w_sub_def)
qed

section \<open>One report for each source\<close>

abbreviation report_key :: "target_report \<Rightarrow> string \<times> string" where
  "report_key tp \<equiv> (tp_subscription tp, tp_source tp)"

abbreviation loaded_key :: "loaded_source \<Rightarrow> string \<times> string" where
  "loaded_key l \<equiv> (sub_id (ls_sub l), s_id (ls_config l))"

abbreviation failed_key :: "failed_source \<Rightarrow> string \<times> string" where
  "failed_key f \<equiv> (sub_id (fs_sub f), s_id (fs_config f))"

definition source_keys :: "subscription \<Rightarrow> (string \<times> string) list" where
  "source_keys c = map (\<lambda>s. (sub_id c, s_id s)) (enabled_sources c)"

lemma new_target_report_key [simp]:
  "tp_subscription (new_target_report c sid un rs sk) = sub_id c" "tp_source (new_target_report c sid un rs sk) = sid"
  by (simp_all add: new_target_report_def)

lemma failed_report_of_key [simp]:
  "tp_subscription (failed_report_of env c sid msg r) = sub_id c" "tp_source (failed_report_of env c sid msg r) = sid"
  by (simp_all add: failed_report_of_def)

lemma load_loop_all:
  "load_loop env c ss w = (ls, fs, w') \<Longrightarrow>
   (\<forall>l \<in> set ls. ls_sub l = c) \<and> (\<forall>f \<in> set fs. fs_sub f = c) \<and>
   mset (map ls_config ls) + mset (map fs_config fs) \<subseteq># mset ss \<and>
   (\<not> dp_cancelled (re_deps env) w' \<longrightarrow> mset (map ls_config ls) + mset (map fs_config fs) = mset ss)"
proof (induction ss arbitrary: w ls fs w')
  case (Cons s ss)
  show ?case
  proof (cases "dp_cancelled (re_deps env) w")
    case True
    then show ?thesis using Cons.prems by auto
  next
    case False
    obtain q w1 where q: "load_one env s w = (q, w1)" by fastforce
    obtain ls1 fs1 w2 where rec: "load_loop env c ss w1 = (ls1, fs1, w2)" by (metis prod_cases3)
    show ?thesis using Cons.prems Cons.IH [OF rec] False q rec
      by (cases q) (auto split: if_splits)
  qed
qed simp

definition load_ok :: "subscription \<times> loaded_source list \<times> failed_source list \<Rightarrow> bool" where
  "load_ok x \<longleftrightarrow> (case x of (c, ls, fs) \<Rightarrow> (\<forall>l \<in> set ls. ls_sub l = c) \<and> (\<forall>f \<in> set fs. fs_sub f = c) \<and>
     mset (map ls_config ls) + mset (map fs_config fs) \<subseteq># mset (enabled_sources c))"

definition load_full :: "subscription \<times> loaded_source list \<times> failed_source list \<Rightarrow> bool" where
  "load_full x \<longleftrightarrow> (case x of (c, ls, fs) \<Rightarrow> mset (map ls_config ls) + mset (map fs_config fs) = mset (enabled_sources c))"

lemma load_all_ok:
  "load_all env cs w = (loads, w') \<Longrightarrow>
   list_all load_ok loads \<and> (\<exists>rest. cs = map fst loads @ rest) \<and>
   (\<not> dp_cancelled (re_deps env) w' \<longrightarrow> map fst loads = cs \<and> list_all load_full loads)"
proof (induction cs arbitrary: w loads w')
  case (Cons c cs)
  show ?case
  proof (cases "dp_cancelled (re_deps env) w")
    case True
    then show ?thesis using Cons.prems by auto
  next
    case False
    obtain ls fs w1 where l: "load_sources env c w = (ls, fs, w1)" by (metis prod_cases3)
    obtain rest w2 where rec: "load_all env cs w1 = (rest, w2)" by fastforce
    have r: "loads = (c, ls, fs) # rest" "w' = w2" using Cons.prems False l rec by auto
    have "dp_cancelled (re_deps env) w1 \<Longrightarrow> w2 = w1" using rec by (cases cs) auto
    then show ?thesis
      using load_loop_all [OF l [unfolded load_sources_def]] Cons.IH [OF rec] r by (auto simp: load_ok_def load_full_def)
  qed
qed simp

lemma report_failed_keys:
  "report_failed env fs r = (tps, r') \<Longrightarrow> map report_key tps = map failed_key fs \<and> rn_world r' = rn_world r"
  by (induction env fs r arbitrary: tps r' rule: report_failed.induct)
    (auto simp: failed_load_def Let_def split: prod.splits)

lemma sync_plans_key: "sync_plans env c sid plans sk t w = (Some tp, drift, t', w') \<Longrightarrow> report_key tp = (sub_id c, sid)"
  unfolding sync_plans_def Let_def by (auto split: if_splits prod.splits sum.splits)

lemma wg_full_key: "wg_full env cl c src m ranked sel now sk slots t w = Some (tp, t', w') \<Longrightarrow> report_key tp = (sub_id c, s_id src)"
  unfolding wg_full_def Let_def by (auto split: if_splits prod.splits sum.splits option.splits)

lemma wg_decide_key: "wg_decide env cl c src cands ranked sel now sk slots t w = Some (tp, t', w') \<Longrightarrow> report_key tp = (sub_id c, s_id src)"
  unfolding wg_decide_def Let_def by (auto split: if_splits prod.splits sum.splits option.splits)

lemma sync_wireguard_key:
  "sync_wireguard env c src m sk t w = Some (Some tp, drift, t', w') \<Longrightarrow> report_key tp = (sub_id c, s_id src)"
  unfolding sync_wireguard_def Let_def
  by (auto split: if_splits prod.splits sum.splits option.splits dest: wg_full_key wg_decide_key)

lemma sync_kind_key: "sync_kind env c src m plans sk r = Some (Some tp, r') \<Longrightarrow> report_key tp = (sub_id c, s_id src)"
  unfolding sync_kind_def Let_def
  by (auto split: if_splits prod.splits option.splits dest: sync_wireguard_key sync_plans_key)

lemma sync_source_key: "sync_source env l r = Some (Some (tp, sk), r') \<Longrightarrow> report_key tp = loaded_key l"
  unfolding sync_source_def Let_def
  by (auto split: if_splits prod.splits option.splits sum.splits dest!: sync_kind_key)

lemma check_source_key: "check_source env c src r = (Refuse tp, r') \<Longrightarrow> report_key tp = (sub_id c, s_id src)"
  unfolding check_source_def Let_def by (auto split: if_splits prod.splits verdict.splits)

lemma sync_sources_step:
  assumes run: "sync_sources env c (l # ls) b r = Some (b', r')" and ok: "sb_done b'" "ls_sub l = c"
  obtains tp b1 r1 where "sync_sources env c ls b1 r1 = Some (b', r')" "sb_reports b1 = sb_reports b @ [tp]"
    "report_key tp = loaded_key l"
proof -
  have nc: "\<not> run_cancelled env r" using run ok(1) by (cases "run_cancelled env r") auto
  obtain g r1 where g: "check_source env c (ls_config l) r = (g, r1)" by fastforce
  show thesis
  proof (cases g)
    case Stop
    then show thesis using run nc g ok(1) by auto
  next
    case (Refuse tp)
    then show thesis using that [of "b\<lparr>sb_reports := sb_reports b @ [tp]\<rparr>" r1 tp] run nc g ok(2) check_source_key [of env c "ls_config l" r tp r1]
      by simp
  next
    case Go
    obtain q r2 where q: "sync_source env l r1 = Some (q, r2)" using run nc g Go by (auto split: option.splits)
    obtain tp sk where x: "q = Some (tp, sk)" using run nc g Go q ok(1) by (cases q) auto
    show thesis
      by (rule that [of "b\<lparr>sb_reports := sb_reports b @ [tp], sb_skipped := sb_skipped b @ sk,
            sb_applied := (if tp_failed tp = 0 then sb_applied b @ [lid l] else sb_applied b)\<rparr>" _ tp])
        (use run nc g Go q x sync_source_key [of env l r1 tp sk r2] in \<open>simp_all add: Let_def\<close>)
  qed
qed

lemma sync_sources_keys:
  "sync_sources env c ls b r = Some (b', r') \<Longrightarrow> \<forall>l \<in> set ls. ls_sub l = c \<Longrightarrow> sb_done b' \<Longrightarrow>
   map report_key (sb_reports b') = map report_key (sb_reports b) @ map loaded_key ls"
proof (induction ls arbitrary: b r)
  case (Cons l ls)
  have sub: "ls_sub l = c" "\<forall>l \<in> set ls. ls_sub l = c" using Cons.prems(2) by simp_all
  obtain tp b1 r1 where s: "sync_sources env c ls b1 r1 = Some (b', r')" "sb_reports b1 = sb_reports b @ [tp]"
    "report_key tp = loaded_key l"
    using sync_sources_step [OF Cons.prems(1,3) sub(1)] .
  show ?case using Cons.IH [OF s(1) sub(2) Cons.prems(3)] s(2,3) by simp
qed simp

lemma refuse_all_keys:
  "refuse_all env c msg ls r = (tps, r') \<Longrightarrow> \<forall>l \<in> set ls. ls_sub l = c \<Longrightarrow> map report_key tps = map loaded_key ls"
proof (induction ls arbitrary: r tps r')
  case (Cons l ls)
  obtain tps1 r1 where rec: "refuse_all env c msg ls (note_error env c (lid l) ''orphan_remove_failed'' msg r) = (tps1, r1)" by fastforce
  then show ?case using Cons.prems Cons.IH [OF rec] by (auto simp: Let_def)
qed simp

lemma sync_subscription_keys:
  assumes run: "sync_subscription env c ls r = Some (b, r')" and ok: "sb_done b" "\<forall>l \<in> set ls. ls_sub l = c" "distinct (map lid ls)"
  shows "mset (map report_key (sb_reports b)) = mset (map loaded_key ls)"
proof -
  obtain q r1 where q: "run_orphans env c r = (q, r1)" by fastforce
  show ?thesis
  proof (cases q)
    case None
    then show ?thesis using run q ok(1) by (auto simp: sync_subscription_def)
  next
    case (Some x)
    show ?thesis
    proof (cases x)
      case None
      have m: "mset (dependency_order ls) = mset ls" by (rule dependency_order_mset [OF ok(3)])
      then have "\<forall>l \<in> set (dependency_order ls). ls_sub l = c" using ok(2) by (metis mset_eq_setD)
      moreover obtain b1 r2 where s: "sync_sources env c (dependency_order ls)
          \<lparr>sb_reports = [], sb_skipped = [], sb_applied = [], sb_done = True\<rparr> r1 = Some (b1, r2)" "b = b1"
        using run q Some None by (auto simp: sync_subscription_def)
      ultimately have "map report_key (sb_reports b) = map loaded_key (dependency_order ls)"
        using sync_sources_keys [OF s(1)] ok(1) by simp
      then show ?thesis using m by simp
    next
      case e: (Some e)
      obtain tps r2 where t: "refuse_all env c (''orphan removal: '' @ err_text e) ls r1 = (tps, r2)" by fastforce
      then have "sb_reports b = tps" using run q Some e by (auto simp: sync_subscription_def Let_def)
      then show ?thesis using refuse_all_keys [OF t ok(2)] by simp
    qed
  qed
qed

lemma sync_all_keys:
  "sync_all env loads tps sks r = Some (tps', sks', '''', r') \<Longrightarrow>
   \<forall>(c, ls, fs) \<in> set loads. (\<forall>l \<in> set ls. ls_sub l = c) \<and> distinct (map lid ls) \<Longrightarrow>
   mset (map report_key tps') = mset (map report_key tps) + mset (concat (map (\<lambda>(c, ls, fs). map loaded_key ls) loads))"
proof (induction loads arbitrary: tps sks r)
  case (Cons x loads)
  obtain c ls fs where x: "x = (c, ls, fs)" by (metis prod_cases3)
  obtain b r1 where b: "sync_subscription env c ls r = Some (b, r1)" "sb_done b"
    "sync_all env loads (tps @ sb_reports b) (sks @ sb_skipped b) r1 = Some (tps', sks', '''', r')"
    using Cons.prems(1) x by (auto split: option.splits if_splits)
  have "(\<forall>l \<in> set ls. ls_sub l = c) \<and> distinct (map lid ls)"
    "\<forall>(c, ls, fs) \<in> set loads. (\<forall>l \<in> set ls. ls_sub l = c) \<and> distinct (map lid ls)"
    using Cons.prems(2) x by auto
  then show ?case using Cons.IH [OF b(3)] sync_subscription_keys [OF b(1,2)] x by simp
qed simp

lemma distinct_part:
  assumes "mset xs + m \<subseteq># mset ys" "distinct (map f ys)"
  shows "distinct (map f xs)"
proof -
  obtain zs where "mset ys = mset xs + mset zs"
    using assms(1) by (metis ex_mset mset_subset_eq_exists_conv union_assoc)
  then have "mset (map f ys) = mset (map f xs @ map f zs)" by simp
  then show ?thesis using assms(2) by (metis distinct_append mset_eq_imp_distinct_iff)
qed

lemma load_parts:
  assumes "load_ok (c, ls, fs)" "distinct (map s_id (enabled_sources c))"
  shows "(\<forall>l \<in> set ls. ls_sub l = c) \<and> (\<forall>f \<in> set fs. fs_sub f = c) \<and> distinct (map lid ls)"
  using assms distinct_part [of "map ls_config ls" "mset (map fs_config fs)" "enabled_sources c" s_id]
  by (simp add: load_ok_def comp_def)

lemma load_full_keys:
  assumes "load_ok (c, ls, fs)" "load_full (c, ls, fs)"
  shows "mset (map loaded_key ls) + mset (map failed_key fs) = mset (source_keys c)"
proof -
  have k: "map loaded_key ls = map (\<lambda>s. (sub_id c, s_id s)) (map ls_config ls)" "map failed_key fs = map (\<lambda>s. (sub_id c, s_id s)) (map fs_config fs)"
    using assms(1) by (simp_all add: load_ok_def)
  have "mset (map loaded_key ls) + mset (map failed_key fs) =
      image_mset (\<lambda>s. (sub_id c, s_id s)) (mset (map ls_config ls) + mset (map fs_config fs))"
    by (simp only: k mset_map image_mset_union)
  also have "mset (map ls_config ls) + mset (map fs_config fs) = mset (enabled_sources c)"
    using assms(2) by (simp only: load_full_def prod.case)
  finally show ?thesis by (simp add: source_keys_def)
qed

lemma loads_full_keys:
  "list_all load_ok loads \<Longrightarrow> list_all load_full loads \<Longrightarrow>
   mset (concat (map (\<lambda>(c, ls, fs). map loaded_key ls) loads)) + mset (map failed_key (concat (map (\<lambda>(c, ls, fs). fs) loads))) =
   mset (concat (map source_keys (map fst loads)))"
proof (induction loads)
  case (Cons x loads)
  obtain c ls fs where x: "x = (c, ls, fs)" by (metis prod_cases3)
  show ?case using Cons load_full_keys [of c ls fs] x by (simp add: ac_simps)
qed simp

lemma mset_concat_map: "mset (concat (map g xs)) = sum_mset (image_mset (mset \<circ> g) (mset xs))"
  by (induction xs) simp_all

definition configured_keys :: "'w run_env \<Rightarrow> (string \<times> string) list" where
  "configured_keys env = concat (map source_keys (filter sub_enabled (dp_subs (re_deps env))))"

lemma perform_keys:
  assumes run: "perform env mem w = Some (rep, mem', w')" and cancel: "sr_cancelled rep = ''''"
    and ids: "\<forall>c \<in> set (dp_subs (re_deps env)). distinct (map s_id (enabled_sources c))"
  shows "mset (map report_key (sr_targets rep)) = mset (configured_keys env)"
proof -
  let ?subs = "sort_by (\<lambda>a b. cmp_ord (sub_id a) (sub_id b)) (filter sub_enabled (dp_subs (re_deps env)))"
  obtain loads w1 where l: "load_all env ?subs w = (loads, w1)" by fastforce
  define r0 where "r0 = \<lparr>rn_memory = mem, rn_world = w1, rn_noted = {}, rn_outbounds = [], rn_drifted = {},
      rn_started = dp_now (re_deps env) w\<rparr>"
  obtain tps r1 where f: "report_failed env (concat (map (\<lambda>(c, ls, fs). fs) loads)) r0 = (tps, r1)" by fastforce
  note fk = report_failed_keys [OF f]
  have nc: "\<not> run_cancelled env r1"
    using run cancel l f by (auto simp: perform_def Let_def r0_def [symmetric])
  then obtain tps1 sks r2 where s: "sync_all env loads tps [] r1 = Some (tps1, sks, '''', r2)" "sr_targets rep = tps1"
    using run cancel l f by (auto simp: perform_def Let_def r0_def [symmetric] aggregate_def)
  have nw: "\<not> dp_cancelled (re_deps env) w1" using nc fk by (simp add: run_cancelled_def r0_def)
  note la = load_all_ok [OF l]
  have ok: "list_all load_ok loads" "list_all load_full loads" "map fst loads = ?subs" using la nw by auto
  have "\<forall>(c, ls, fs) \<in> set loads. (\<forall>l \<in> set ls. ls_sub l = c) \<and> distinct (map lid ls)"
  proof (clarify)
    fix c ls fs assume x: "(c, ls, fs) \<in> set loads"
    then have "c \<in> set (map fst loads)" by force
    then have "distinct (map s_id (enabled_sources c))" using ids ok(3) by simp
    then show "(\<forall>l \<in> set ls. ls_sub l = c) \<and> distinct (map lid ls)" using load_parts ok(1) x by (auto simp: list_all_iff)
  qed
  then have "mset (map report_key tps1) = mset (map report_key tps) + mset (concat (map (\<lambda>(c, ls, fs). map loaded_key ls) loads))"
    by (rule sync_all_keys [OF s(1)])
  then have "mset (map report_key tps1) = mset (concat (map source_keys ?subs))"
    using loads_full_keys [OF ok(1,2)] fk ok(3) by (simp add: ac_simps)
  also have "\<dots> = mset (configured_keys env)"
    by (simp add: configured_keys_def mset_concat_map)
  finally show ?thesis using s(2) by simp
qed

text \<open>
  C2: A sync that is not cancelled reports every enabled source of every enabled subscription exactly once,
  whether its input failed to load, it was refused, or it was applied, and nothing else.
\<close>

theorem run_reports_each_once:
  assumes "run_sync env mem w = Some (rep, mem', w')" "\<not> mm_syncing mem" "sr_cancelled rep = ''''"
    and "\<forall>c \<in> set (dp_subs (re_deps env)). distinct (map s_id (enabled_sources c))"
  shows "mset (map (\<lambda>tp. (tp_subscription tp, tp_source tp)) (sr_targets rep)) = mset (configured_keys env)"
  using assms perform_keys [of env _ w rep _ w'] by (auto simp: run_sync_def try_start_sync_def)

lemma w_run_complete: "case run_sync w_run_env w_memory new_server of None \<Rightarrow> False
    | Some (rep, mem', w') \<Rightarrow> sr_cancelled rep = '''' \<and> length (sr_targets rep) = 2"
  by code_simp

lemma run_reports_each_once_witness:
  "\<exists>rep mem' w'. run_sync w_run_env w_memory new_server = Some (rep, mem', w') \<and>
     mset (map (\<lambda>tp. (tp_subscription tp, tp_source tp)) (sr_targets rep)) = {#(''s'', ''vl''), (''s'', ''wg'')#}"
proof -
  obtain rep mem' w' where run: "run_sync w_run_env w_memory new_server = Some (rep, mem', w')" "sr_cancelled rep = ''''"
    using w_run_complete by (auto split: option.splits)
  have k: "configured_keys w_run_env = [(''s'', ''vl''), (''s'', ''wg'')]" by code_simp
  have "\<not> mm_syncing w_memory" "\<forall>c \<in> set (dp_subs (re_deps w_run_env)). distinct (map s_id (enabled_sources c))"
    by (simp_all add: w_memory_def new_memory_def w_run_env_def w_sub_def enabled_sources_def w_vl_def w_wg_def blank_source_def)
  from run_reports_each_once [OF run(1) this(1) run(2) this(2)] show ?thesis using run(1) k by simp
qed

end
