(* ===== verification/Scd_Whole.thy ===== *)
theory Scd_Whole
  imports Scd_Runs
begin

text \<open>
  A whole sync returns: the invariant of the memory that the sync of every source keeps, from the orphan
  removal to the last target, whatever Xray answers and the inputs hold.
\<close>

section \<open>Targets\<close>

text \<open>The state of a target is fit for the next sync: of every enabled candidate source, applied or never applied.\<close>

definition target_ok :: "subscription \<Rightarrow> target_state \<Rightarrow> bool" where
  "target_ok c t \<longleftrightarrow> mon_ok t \<and> (\<forall>src \<in> set (enabled_sources c). candidate_type (s_type src) \<longrightarrow> source_ok (s_id src) t)"

definition enabled_subs :: "'w run_env \<Rightarrow> subscription list" where
  "enabled_subs env = filter sub_enabled (dp_subs (re_deps env))"

definition memory_ok :: "'w run_env \<Rightarrow> memory \<Rightarrow> bool" where
  "memory_ok env m \<longleftrightarrow> (\<forall>c \<in> set (enabled_subs env). \<forall>t. view (sub_key c) m = Some t \<longrightarrow> target_ok c t)"

text \<open>
  What the validation of the configuration gives: ids and state keys tell sources apart, and a candidate
  source has its settings and kinds to apply (\<^verbatim>\<open>rules.go\<close> asks for inbounds and routing where there is
  one, and for outbounds where there are inbounds). A configuration with VLESS sources only may have every
  kind disabled.
\<close>

definition settings_ok :: "'w run_env \<Rightarrow> bool" where
  "settings_ok env \<longleftrightarrow> inj_on sub_key (set (enabled_subs env)) \<and>
     (\<forall>c \<in> set (enabled_subs env). distinct (map s_id (enabled_sources c)) \<and>
        (\<forall>src \<in> set (enabled_sources c). s_id src \<noteq> '''' \<and> 0 \<le> s_max_active src \<and>
           (candidate_type (s_type src) \<longrightarrow> candidate_source src \<and> enabled_kinds (se_res (re_sync env)) \<noteq> [])))"

lemma others_source_ok:
  assumes "others_same i t t'" "mon_ok t'" "sid \<noteq> i" "source_ok sid t"
  shows "source_ok sid t'"
proof -
  have e: "map_of (ts_sources t') sid = map_of (ts_sources t) sid" "tunnels_of sid t' = tunnels_of sid t"
    using assms(1,3) by (simp_all add: others_same_def)
  then have "topo_ids sid t' = topo_ids sid t" by (simp add: topo_ids_def)
  then show ?thesis using assms(2,4) e by (simp add: source_ok_def applied_ok_def)
qed

lemma source_ok_mon: "source_ok sid t \<Longrightarrow> mon_ok t"
  by (simp add: source_ok_def)

lemma target_plain:
  assumes "ts_tunnels t' = ts_tunnels t" "ts_sources t' = ts_sources t"
  shows "target_ok c t' = target_ok c t"
  using applied_plain [OF assms] by (simp add: target_ok_def)

lemma target_new: "ts_tunnels t = [] \<Longrightarrow> ts_sources t = [] \<Longrightarrow> target_ok c t"
  using target_plain [of t new_target c] new_target_source_ok source_ok_mon
  by (simp add: target_ok_def new_target_def)

lemma drop_source_keeps:
  assumes "mon_ok t"
  shows "mon_ok (drop_source i t)" "others_same i t (drop_source i t)"
proof -
  have "ts_sources (drop_source i t) = (if map_of (ts_sources t) i = None then ts_sources t else AList.delete i (ts_sources t))"
    by (simp add: drop_source_def Let_def replace_tunnels_def)
  then have src: "map_of (ts_sources (drop_source i t)) s = (if s = i then None else map_of (ts_sources t) s)" for s
    by (simp add: delete_conv')
  then have "cands_of s (drop_source i t) = (if s = i then [] else cands_of s t)" for s by (simp add: cands_of_def)
  then show "mon_ok (drop_source i t)" using assms drop_source_ok by (simp add: mon_ok_def)
  show "others_same i t (drop_source i t)" using src state_frame(3) by (simp add: others_same_def)
qed

lemma target_drop:
  assumes t: "target_ok c t" and i: "i \<notin> s_id ` set (enabled_sources c)"
  shows "target_ok c (drop_source i t)"
proof -
  have m: "mon_ok t" using t by (simp add: target_ok_def)
  have "source_ok (s_id src) (drop_source i t)" if src: "src \<in> set (enabled_sources c)" "candidate_type (s_type src)" for src
  proof (rule others_source_ok [OF drop_source_keeps(2,1) [OF m]])
    show "s_id src \<noteq> i" using i src(1) by blast
    show "source_ok (s_id src) t" using t src by (simp add: target_ok_def)
  qed
  then show ?thesis using drop_source_keeps(1) [OF m] by (simp add: target_ok_def)
qed

lemma target_after:
  assumes t: "target_ok c t" and o: "others_same (s_id src) t t'" and m: "mon_ok t'"
    and src: "src \<in> set (enabled_sources c)" "distinct (map s_id (enabled_sources c))"
    and s: "candidate_type (s_type src) \<Longrightarrow> source_ok (s_id src) t'"
  shows "target_ok c t'"
  unfolding target_ok_def
proof (intro conjI m ballI impI)
  fix x assume x: "x \<in> set (enabled_sources c)" "candidate_type (s_type x)"
  show "source_ok (s_id x) t'"
  proof (cases "s_id x = s_id src")
    case True
    then have "x = src" using x(1) src by (metis distinct_map inj_onD)
    then show ?thesis using s x(2) by simp
  next
    case False
    then show ?thesis using others_source_ok [OF o m False] t x by (simp add: target_ok_def)
  qed
qed

lemma warnings_target:
  assumes "target_ok c t"
  shows "target_ok c (store_warnings src m ws t)"
proof (cases "map_of (ts_sources t) (s_id src)")
  case None
  then show ?thesis using assms by (simp add: store_warnings_def)
next
  case (Some st)
  define st' where "st' = (let st1 = st\<lparr>so_warnings := ws\<rparr> in
      if candidate_type (s_type src) then st1\<lparr>so_candidate_count := length (mf_entries m)\<rparr> else st1)"
  have t': "store_warnings src m ws t = t\<lparr>ts_sources := AList.update (s_id src) st' (ts_sources t)\<rparr>" (is "_ = ?t")
    using Some by (simp add: store_warnings_def st'_def Let_def)
  have st': "so_topology st' = so_topology st" "so_candidates st' = so_candidates st" by (simp_all add: st'_def Let_def)
  have ids: "topo_ids s ?t = topo_ids s t" for s using Some st' by (simp add: topo_ids_def)
  have cs: "cands_of s ?t = cands_of s t" for s using Some st' by (simp add: cands_of_def)
  have mon: "mon_ok ?t = mon_ok t" by (simp add: mon_ok_def state_ok_def ids cs)
  have "applied_ok s ?t = applied_ok s t" for s
    unfolding applied_ok_def mon ids using Some st'(1) by auto
  then have "source_ok s ?t = source_ok s t" for s using Some unfolding source_ok_def mon by auto
  then show ?thesis using assms mon unfolding t' target_ok_def by simp
qed

section \<open>Memories\<close>

lemma memory_same: "applied_same m m' \<Longrightarrow> memory_ok env m \<Longrightarrow> memory_ok env m'"
  unfolding memory_ok_def
proof (intro ballI allI impI)
  fix c t' assume s: "applied_same m m'" and ok: "\<forall>c \<in> set (enabled_subs env). \<forall>t. view (sub_key c) m = Some t \<longrightarrow> target_ok c t"
    and c: "c \<in> set (enabled_subs env)" and t': "view (sub_key c) m' = Some t'"
  have e: "applied_of (sub_key c) m = (ts_sources t', ts_tunnels t')"
    using s t' unfolding applied_same_def applied_of_def [of _ m'] by (metis option.case(2))
  show "target_ok c t'"
  proof (cases "view (sub_key c) m")
    case None
    then show ?thesis using e by (intro target_new) (simp_all add: applied_of_def)
  next
    case (Some t)
    then show ?thesis using e ok c target_plain [of t' t c] by (simp add: applied_of_def)
  qed
qed

lemma memory_update:
  assumes "settings_ok env" "memory_ok env m" "c \<in> set (enabled_subs env)" "\<And>t. target_ok c t \<Longrightarrow> target_ok c (f t)"
  shows "memory_ok env (update (sub_key c) f m)"
  unfolding memory_ok_def
proof (intro ballI allI impI)
  fix x t assume x: "x \<in> set (enabled_subs env)" "view (sub_key x) (update (sub_key c) f m) = Some t"
  show "target_ok x t"
  proof (cases "x = c")
    case True
    then show ?thesis using x assms(2,3,4) by (auto simp: view_update memory_ok_def)
  next
    case False
    then have "sub_key x \<noteq> sub_key c" using assms(1,3) x(1) by (auto simp: settings_ok_def inj_on_def)
    then show ?thesis using x assms(2) by (simp add: view_update memory_ok_def)
  qed
qed

lemma mark_synced_same: "applied_same m (mark_synced k m)"
  unfolding mark_synced_def by (rule applied_same_trans [OF ensure_same update_same]) simp

lemma mark_synced_view: "\<exists>t. view k (mark_synced k m) = Some t"
  by (cases "view k m") (simp_all add: mark_synced_def view_update view_ensure)

lemma drop_stale_ok:
  assumes "settings_ok env" "memory_ok env m" "c \<in> set (enabled_subs env)"
  shows "memory_ok env (drop_stale (s_id ` set (enabled_sources c)) (sub_key c) m)"
proof -
  have "memory_ok env (fold (\<lambda>i. update (sub_key c) (drop_source i)) is1 m)"
    if "\<forall>i \<in> set is1. i \<notin> s_id ` set (enabled_sources c)" "memory_ok env m" for is1 m
    using that
    by (induction is1 arbitrary: m) (auto intro!: memory_update [OF assms(1) _ assms(3)] target_drop)
  then show ?thesis using assms(2) by (simp add: drop_stale_def split: option.split)
qed

lemma run_orphans_ok:
  assumes "settings_ok env" "memory_ok env (rn_memory r)" "c \<in> set (enabled_subs env)" "run_orphans env c r = (q, r')"
  shows "memory_ok env (rn_memory r')"
proof -
  have noted: "memory_ok env (rn_memory (note_run env c x r1))" if "rn_memory r1 = rn_memory r" for x r1
    using memory_same [OF note_run_same, of env r1] assms(2) that by simp
  then show ?thesis using assms(2,4) drop_stale_ok [OF assms(1) _ assms(3)]
    unfolding run_orphans_def Let_def by (auto split: if_splits prod.splits)
qed

section \<open>Manifests\<close>

lemma filtered_distinct: "distinct (map f xs) \<Longrightarrow> distinct (map f (filter P xs))"
  by (simp add: distinct_map_filter)

lemma candidate_manifest_ok:
  "manifest_ok (apply_candidate_filters (build_candidates lib cl to_proto kind content sfile pre opts now) fo)"
proof -
  define m where "m = build_candidates lib cl to_proto kind content sfile pre opts now"
  have spec: "distinct (map en_tag (mf_entries m))" "\<forall>e \<in> set (mf_entries m). candidate_entry_ok cl to_proto pre e"
    using build_candidates_spec [of lib cl to_proto kind content sfile pre opts now] by (auto simp: m_def)
  have tags: "tags_ok (mf_entries m)"
    using spec(2) by (force simp: tags_ok_def candidate_entry_ok_def selection_cand_def prefix_def)
  obtain P where "mf_entries (apply_candidate_filters m fo) = filter P (mf_entries m)"
  proof (cases fo)
    case None
    then show thesis using that [of "\<lambda>_. True"] by (simp add: apply_candidate_filters_def)
  next
    case (Some f)
    then show thesis using that by (auto simp: apply_candidate_filters_def cand_filter_loop_eq set_filtered_def)
  qed
  then show ?thesis using filtered_distinct [OF spec(1)] tags_ok_filter [OF tags] by (simp add: manifest_ok_def m_def)
qed

lemma link_manifest_distinct:
  assumes "build lib to_proto content sfile p now = Some m"
  shows "distinct (map en_tag (mf_entries (apply_filters m fo)))"
proof -
  have d: "distinct (map en_tag (mf_entries m))"
    using build_lines_spec [OF assms [unfolded build_def Let_def]]
    by (auto simp: counts_ok_def start_manifest_def zero_summary_def code_sum_def)
  obtain P where "mf_entries (apply_filters m fo) = filter P (mf_entries m)"
  proof (cases fo)
    case None
    then show thesis using that [of "\<lambda>_. True"] by (simp add: apply_filters_def)
  next
    case (Some f)
    show thesis
    proof (cases "sf_countries f = [] \<and> lf_include (sf_label f) = [] \<and> lf_exclude (sf_label f) = []")
      case True
      then show thesis using that [of "\<lambda>_. True"] Some by (simp add: apply_filters_def)
    next
      case False
      then show thesis
        using that [of "\<lambda>e. \<not> country_dropped f e \<and> label_match (sf_label f) (en_label e)"] Some
        by (auto simp: apply_filters_def filter_loop_eq set_filtered_def)
    qed
  qed
  then show ?thesis using filtered_distinct [OF d] by simp
qed

lemma from_source_ok:
  assumes "s_id src \<noteq> ''''"
  obtains m e where "from_source lib cl to_proto src content now = Some (m, e)"
    "candidate_type (s_type src) \<Longrightarrow> manifest_ok m" "distinct (map en_tag (mf_entries m))"
proof (cases "candidate_type (s_type src)")
  case True
  let ?m = "apply_candidate_filters (build_candidates lib cl to_proto (kind_of_type (s_type src)) (trim_space content) (s_id src) (s_id src)
      \<lparr>co_strategy = (case s_wireguard src of Some x \<Rightarrow> x | None \<Rightarrow> ''''), co_dialer = s_dialer_proxy src\<rparr> now) (s_filters src)"
  have "manifest_ok ?m" by (rule candidate_manifest_ok)
  then show thesis using that [of ?m] True by (simp add: from_source_def manifest_ok_def Let_def)
next
  case False
  have "po_tag_prefix (policy_for src) \<noteq> ''''" using assms by (simp add: policy_for_def)
  then obtain m where m: "build lib to_proto (trim_space content) (s_id src) (policy_for src) now = Some m"
    using build_lines_total unfolding build_def Let_def by blast
  show thesis using that [of "apply_filters m (s_filters src)"] False m link_manifest_distinct [OF m] by (simp add: from_source_def Let_def)
qed

section \<open>One source\<close>

lemma topology_mon:
  assumes "mon_ok t" "distinct (map tn_base_id topo)"
  shows "mon_ok (replace_source_topology sid topo hashes t)"
proof -
  have "cands_of s (replace_source_topology sid topo hashes t) = (if s = sid then [] else cands_of s t)" for s
    by (simp add: replace_source_topology_def new_source_def cands_of_def replace_tunnels_def Let_def split: option.split)
  then show ?thesis using assms replace_source_topology_ok [OF _ assms(2)] by (simp add: mon_ok_def)
qed

lemma sync_plans_mon:
  assumes "sync_plans env c sid plans skipped t w = (rep, drift, t', w')" "mon_ok t"
    and "\<forall>p \<in> set plans. distinct (map tn_base_id (pl_topology p))"
  shows "mon_ok t'"
proof (cases "plans = []")
  case True
  then have "\<not> plans_changed sid plans t" "fst (missing_in_xray env c plans w) = []"
    by (simp_all add: plans_changed_def missing_in_xray_def Let_def split: option.split sum.split prod.split)
  then have "t' = t" using assms(1) by (cases "missing_in_xray env c plans w") (simp add: sync_plans_def Let_def)
  then show ?thesis using assms(2) by simp
next
  case False
  let ?topo = "pl_topology (List.last plans)"
  have d: "distinct (map tn_base_id ?topo)" using assms(3) False by simp
  have l: "mon_ok (log_drift sid now t)" for now using assms(2) applied_plain(1) [of "log_drift sid now t" t] by simp
  have "t' = t \<or> (\<exists>now. t' = log_drift sid now t) \<or> (\<exists>hashes. t' = replace_source_topology sid ?topo hashes t) \<or>
    (\<exists>now hashes. t' = replace_source_topology sid ?topo hashes (log_drift sid now t))"
    using assms(1) unfolding sync_plans_def Let_def by (clarsimp split: if_splits sum.splits prod.splits) blast+
  then show ?thesis using assms(2) l topology_mon [OF _ d] by blast
qed

lemma sync_kind_ok:
  assumes env: "settings_ok env" "c \<in> set (enabled_subs env)" "src \<in> set (enabled_sources c)"
    and m: "candidate_type (s_type src) \<Longrightarrow> manifest_ok m"
    and plans: "\<forall>p \<in> set plans. distinct (map tn_base_id (pl_topology p))"
    and ok: "memory_ok env (rn_memory r)"
  shows "\<exists>rep r'. sync_kind env c src m plans skipped r = Some (rep, r') \<and> memory_ok env (rn_memory r')"
proof -
  let ?mem = "mark_synced (sub_key c) (rn_memory r)"
  obtain t where t: "view (sub_key c) ?mem = Some t" using mark_synced_view by blast
  have mem: "memory_ok env ?mem" by (rule memory_same [OF mark_synced_same ok])
  then have tok: "target_ok c t" using t env(2) by (simp add: memory_ok_def)
  have src: "distinct (map s_id (enabled_sources c))" "candidate_type (s_type src) \<Longrightarrow> candidate_source src"
    "candidate_type (s_type src) \<Longrightarrow> enabled_kinds (se_res (re_sync env)) \<noteq> []" using env by (auto simp: settings_ok_def)
  have "\<exists>rep drift t' w'. (if candidate_type (s_type src) then sync_wireguard (re_sync env) c src m skipped t (rn_world r)
      else Some (sync_plans (re_sync env) c (s_id src) plans skipped t (rn_world r))) = Some (rep, drift, t', w') \<and> target_ok c t'"
  proof (cases "candidate_type (s_type src)")
    case True
    then have "source_ok (s_id src) t" using tok env(3) by (simp add: target_ok_def)
    from sync_wireguard_keeps [OF this src(2) [OF True] m [OF True] src(3) [OF True], of c skipped "rn_world r"]
    obtain rep drift t' w' where w: "sync_wireguard (re_sync env) c src m skipped t (rn_world r) = Some (rep, drift, t', w')"
      "source_ok (s_id src) t'" by blast
    have "target_ok c t'"
      by (rule target_after [OF tok others_wireguard [OF w(1)] source_ok_mon [OF w(2)] env(3) src(1) w(2)])
    then show ?thesis using True w(1) by auto
  next
    case False
    obtain rep drift t' w' where p: "sync_plans (re_sync env) c (s_id src) plans skipped t (rn_world r) = (rep, drift, t', w')"
      by (metis prod_cases4)
    have "mon_ok t" using tok by (simp add: target_ok_def)
    then have "mon_ok t'" by (rule sync_plans_mon [OF p _ plans])
    then have "target_ok c t'" using target_after [OF tok others_plans [OF p] _ env(3) src(1)] False by blast
    then show ?thesis using False p by auto
  qed
  then obtain rep drift t' w' where s: "(if candidate_type (s_type src) then sync_wireguard (re_sync env) c src m skipped t (rn_world r)
      else Some (sync_plans (re_sync env) c (s_id src) plans skipped t (rn_world r))) = Some (rep, drift, t', w')" "target_ok c t'"
    by blast
  have "memory_ok env (update (sub_key c) (\<lambda>_. t') ?mem)" by (rule memory_update [OF env(1) mem env(2)]) (rule s(2))
  then show ?thesis using t s(1) by (auto simp: sync_kind_def Let_def)
qed

lemma noted_ok: "memory_ok env (rn_memory r) \<Longrightarrow> memory_ok env (rn_memory (note_error env c sid code msg r))"
  by (rule memory_same [OF note_error_same])

lemma run_update_ok:
  "settings_ok env \<Longrightarrow> c \<in> set (enabled_subs env) \<Longrightarrow> (\<And>t. target_ok c t \<Longrightarrow> target_ok c (f t)) \<Longrightarrow>
   memory_ok env (rn_memory r) \<Longrightarrow> memory_ok env (rn_memory (run_update c f r))"
  by (simp add: run_update_def memory_update)

lemma cleared_ok: "memory_ok env (rn_memory r) \<Longrightarrow> memory_ok env (rn_memory (clear_error c sid r))"
  by (rule memory_same) (auto simp: clear_error_def run_update_def intro!: update_same)

lemma plans_distinct:
  assumes "plans_for env m src t ks = Inr ps" "distinct (map en_tag (mf_entries m))" "0 \<le> s_max_active src"
  shows "\<forall>p \<in> set ps. distinct (map tn_base_id (pl_topology p))"
  using plans_for_topology [OF assms(1)] build_source_distinct [OF assms(2,3), of t] by simp

lemma sync_source_ok:
  assumes env: "settings_ok env" "ls_sub l \<in> set (enabled_subs env)" "ls_config l \<in> set (enabled_sources (ls_sub l))"
    and ok: "memory_ok env (rn_memory r)"
  shows "\<exists>q r'. sync_source env l r = Some (q, r') \<and> memory_ok env (rn_memory r')"
proof (cases "run_cancelled env r")
  case True
  then show ?thesis using ok by (simp add: sync_source_def)
next
  case False
  let ?c = "ls_sub l" and ?src = "ls_config l" and ?d = "re_deps env"
  have src: "s_id ?src \<noteq> ''''" "0 \<le> s_max_active ?src"
    using env by (auto simp: settings_ok_def)
  obtain m e where m: "from_source (dp_lib ?d) (re_cand env) (dp_to_proto ?d) ?src (ls_content l) (run_now env r) = Some (m, e)"
    "candidate_type (s_type ?src) \<Longrightarrow> manifest_ok m" "distinct (map en_tag (mf_entries m))"
    using from_source_ok [OF src(1)] by blast
  show ?thesis
  proof (cases e)
    case (Some x)
    then show ?thesis using False m(1) noted_ok [OF ok] by (simp add: sync_source_def Let_def)
  next
    case None
    show ?thesis
    proof (cases "plans_for (re_sync env) m ?src (sub_target ?c) (enabled_kinds (se_res (re_sync env)))")
      case (Inl x)
      then show ?thesis using False m(1) None ok by (simp add: sync_source_def Let_def)
    next
      case (Inr plans)
      define sk where "sk = (case plans of [] \<Rightarrow> mf_skipped m | p # ps \<Rightarrow> pl_skipped p)"
      obtain rep r' where k: "sync_kind env ?c ?src m plans sk r = Some (rep, r')" "memory_ok env (rn_memory r')"
        using sync_kind_ok [OF env m(2) plans_distinct [OF Inr m(3) src(2)] ok] by blast
      have "memory_ok env (rn_memory (run_update ?c (store_warnings ?src m ws) r'))" for ws
        by (rule run_update_ok [OF env(1,2) warnings_target k(2)])
      then show ?thesis using False m(1) None Inr k
        by (cases rep) (simp_all add: sync_source_def Let_def sk_def [symmetric])
    qed
  qed
qed

section \<open>The loops\<close>

definition loaded_ok :: "'w run_env \<Rightarrow> subscription \<Rightarrow> loaded_source list \<Rightarrow> bool" where
  "loaded_ok env c ls \<longleftrightarrow> c \<in> set (enabled_subs env) \<and> (\<forall>l \<in> set ls. ls_sub l = c \<and> ls_config l \<in> set (enabled_sources c))"

lemma checked_ok: "check_source env c src r = (g, r') \<Longrightarrow> memory_ok env (rn_memory r) \<Longrightarrow> memory_ok env (rn_memory r')"
  using check_source_effect memory_same by blast

lemma sync_sources_ok:
  assumes env: "settings_ok env"
  shows "loaded_ok env c ls \<Longrightarrow> memory_ok env (rn_memory r) \<Longrightarrow>
    \<exists>b' r'. sync_sources env c ls b r = Some (b', r') \<and> memory_ok env (rn_memory r')"
proof (induction ls arbitrary: b r)
  case (Cons l ls)
  have l: "ls_sub l = c" "c \<in> set (enabled_subs env)" "ls_config l \<in> set (enabled_sources c)" and ls: "loaded_ok env c ls"
    using Cons.prems(1) by (simp_all add: loaded_ok_def)
  obtain g r1 where g: "check_source env c (ls_config l) r = (g, r1)" by fastforce
  note r1 = checked_ok [OF g Cons.prems(2)]
  show ?case
  proof (cases "run_cancelled env r \<or> g = Stop")
    case True
    then show ?thesis using g r1 Cons.prems(2) by auto
  next
    case False
    show ?thesis
    proof (cases g)
      case (Refuse tp)
      then show ?thesis using False g Cons.IH [OF ls r1] by simp
    next
      case Go
      obtain q r2 where q: "sync_source env l r1 = Some (q, r2)" "memory_ok env (rn_memory r2)"
        using sync_source_ok [OF env _ _ r1, of l] l by auto
      show ?thesis
      proof (cases q)
        case None
        then show ?thesis using False g Go q by simp
      next
        case (Some x)
        obtain tp sk where x: "x = (tp, sk)" by fastforce
        let ?r3 = "if tp_failed tp = 0 then clear_error c (lid l) r2 else note_error env c (lid l) ''apply_failed'' (first_failure tp) r2"
        have "memory_ok env (rn_memory ?r3)" using cleared_ok [OF q(2)] noted_ok [OF q(2)] by simp
        from Cons.IH [OF ls this] show ?thesis using False g Go q(1) Some x by (simp add: Let_def)
      qed
    qed (use False in simp)
  qed
qed simp

lemma refuse_all_ok: "memory_ok env (rn_memory r) \<Longrightarrow> refuse_all env c msg ls r = (tps, r') \<Longrightarrow> memory_ok env (rn_memory r')"
proof (induction ls arbitrary: r tps r')
  case (Cons l ls)
  obtain tps1 r1 where rec: "refuse_all env c msg ls (note_error env c (lid l) ''orphan_remove_failed'' msg r) = (tps1, r1)" by fastforce
  have "r1 = r'" using Cons.prems(2) rec by (simp add: Let_def)
  then show ?case using Cons.IH [OF noted_ok [OF Cons.prems(1)] rec] by simp
qed simp

lemma clear_state_lost_plain: "ts_sources (snd (clear_state_lost i mark now t)) = ts_sources t"
  "ts_tunnels (snd (clear_state_lost i mark now t)) = ts_tunnels t"
  by (simp_all add: clear_state_lost_def Let_def split: option.split)

lemma state_restored_ok: "memory_ok env (rn_memory r) \<Longrightarrow> memory_ok env (rn_memory (state_restored env c applied r))"
proof (rule memory_same)
  have "ts_sources (fold (\<lambda>i t. snd (clear_state_lost i (mark i) now t)) is1 t) = ts_sources t \<and>
    ts_tunnels (fold (\<lambda>i t. snd (clear_state_lost i (mark i) now t)) is1 t) = ts_tunnels t" for mark now is1 t
    by (induction is1 arbitrary: t) (simp_all add: clear_state_lost_plain)
  then show "applied_same (rn_memory r) (rn_memory (state_restored env c applied r))"
    by (auto simp: state_restored_def Let_def run_update_def intro!: update_same)
qed

lemma sync_subscription_ok:
  assumes env: "settings_ok env" and ls: "loaded_ok env c ls" "distinct (map lid ls)" and ok: "memory_ok env (rn_memory r)"
  shows "\<exists>b r'. sync_subscription env c ls r = Some (b, r') \<and> memory_ok env (rn_memory r')"
proof -
  have c: "c \<in> set (enabled_subs env)" using ls(1) by (simp add: loaded_ok_def)
  obtain q r1 where q: "run_orphans env c r = (q, r1)" by fastforce
  note r1 = run_orphans_ok [OF env ok c q]
  show ?thesis
  proof (cases q)
    case None
    then show ?thesis using q r1 by (simp add: sync_subscription_def)
  next
    case (Some x)
    show ?thesis
    proof (cases x)
      case None
      have "loaded_ok env c (dependency_order ls)"
        using ls(1) mset_eq_setD [OF dependency_order_mset [OF ls(2)]] by (simp add: loaded_ok_def)
      from sync_sources_ok [OF env this r1]
      obtain b r2 where s: "sync_sources env c (dependency_order ls)
          \<lparr>sb_reports = [], sb_skipped = [], sb_applied = [], sb_done = True\<rparr> r1 = Some (b, r2)" "memory_ok env (rn_memory r2)" by blast
      then show ?thesis using q Some None state_restored_ok [OF s(2)] by (simp add: sync_subscription_def)
    next
      case e: (Some e)
      obtain tps r2 where t: "refuse_all env c (''orphan removal: '' @ err_text e) ls r1 = (tps, r2)" by fastforce
      then show ?thesis using q Some e refuse_all_ok [OF r1 t] by (simp add: sync_subscription_def Let_def)
    qed
  qed
qed

lemma sync_all_ok:
  assumes env: "settings_ok env"
  shows "\<forall>(c, ls, fs) \<in> set loads. loaded_ok env c ls \<and> distinct (map lid ls) \<Longrightarrow> memory_ok env (rn_memory r) \<Longrightarrow>
    \<exists>x sk p r'. sync_all env loads tps sks r = Some (x, sk, p, r') \<and> memory_ok env (rn_memory r')"
proof (induction loads arbitrary: tps sks r)
  case (Cons x loads)
  obtain c ls fs where x: "x = (c, ls, fs)" by (metis prod_cases3)
  have "loaded_ok env c ls" "distinct (map lid ls)" using Cons.prems(1) x by auto
  from sync_subscription_ok [OF env this Cons.prems(2)]
  obtain b r1 where b: "sync_subscription env c ls r = Some (b, r1)" "memory_ok env (rn_memory r1)" by blast
  have "\<forall>(c, ls, fs) \<in> set loads. loaded_ok env c ls \<and> distinct (map lid ls)" using Cons.prems(1) by simp
  then show ?case using Cons.IH [OF _ b(2)] b x by simp
qed simp

lemma report_failed_ok:
  "memory_ok env (rn_memory r) \<Longrightarrow> report_failed env fs r = (tps, r') \<Longrightarrow> memory_ok env (rn_memory r')"
proof (induction fs arbitrary: r tps r')
  case (Cons f fs)
  obtain tp r1 where f: "failed_load env f r = (tp, r1)" by fastforce
  obtain tps1 r2 where rec: "report_failed env fs r1 = (tps1, r2)" by fastforce
  have "memory_ok env (rn_memory r1)" using f noted_ok [OF Cons.prems(1)] by (auto simp: failed_load_def Let_def)
  from Cons.IH [OF this rec] show ?case using Cons.prems(2) f rec by simp
qed simp

lemma load_ok_loaded: "load_ok (c, ls, fs) \<Longrightarrow> c \<in> set (enabled_subs env) \<Longrightarrow> loaded_ok env c ls"
  using mset_subset_eqD [of "mset (map ls_config ls) + mset (map fs_config fs)" "mset (enabled_sources c)"]
  by (fastforce simp: load_ok_def loaded_ok_def)

lemma perform_ok:
  assumes env: "settings_ok env" and ok: "memory_ok env mem"
  shows "\<exists>rep mem' w'. perform env mem w = Some (rep, mem', w') \<and> memory_ok env mem'"
proof -
  let ?subs = "sort_by (\<lambda>a b. cmp_ord (sub_id a) (sub_id b)) (filter sub_enabled (dp_subs (re_deps env)))"
  obtain loads w1 where l: "load_all env ?subs w = (loads, w1)" by fastforce
  define r0 where "r0 = \<lparr>rn_memory = mem, rn_world = w1, rn_noted = {}, rn_outbounds = [], rn_drifted = {},
      rn_started = dp_now (re_deps env) w\<rparr>"
  obtain tps r1 where f: "report_failed env (concat (map (\<lambda>(c, ls, fs). fs) loads)) r0 = (tps, r1)" by fastforce
  have r1: "memory_ok env (rn_memory r1)" by (rule report_failed_ok [OF _ f]) (use ok in \<open>simp add: r0_def\<close>)
  have la: "list_all load_ok loads" "\<exists>rest. ?subs = map fst loads @ rest" using load_all_ok [OF l] by auto
  have "\<forall>(c, ls, fs) \<in> set loads. loaded_ok env c ls \<and> distinct (map lid ls)"
  proof (clarify)
    fix c ls fs assume x: "(c, ls, fs) \<in> set loads"
    then have "c \<in> set (map fst loads)" by force
    then have "c \<in> set ?subs" using la(2) by (metis Un_iff set_append)
    then have c: "c \<in> set (enabled_subs env)" by (simp add: enabled_subs_def)
    have lo: "load_ok (c, ls, fs)" using la(1) x by (auto simp: list_all_iff)
    have "distinct (map s_id (enabled_sources c))" using env c by (auto simp: settings_ok_def)
    then show "loaded_ok env c ls \<and> distinct (map lid ls)" using load_ok_loaded [OF lo c] load_parts [OF lo] by blast
  qed
  from sync_all_ok [OF env this r1]
  obtain x sk p r2 where s: "sync_all env loads tps [] r1 = Some (x, sk, p, r2)" "memory_ok env (rn_memory r2)" by blast
  then show ?thesis using l f r1 by (auto simp: perform_def Let_def r0_def [symmetric])
qed

text \<open>
  C1: A sync of the whole configuration always returns a report, from every state that a sync may find,
  whatever the inputs hold, Xray answers and the loaders do: no source makes it panic, and the state it
  leaves is again one from which a sync returns.
\<close>

theorem run_sync_returns:
  assumes "settings_ok env" "memory_ok env mem"
  shows "\<exists>rep mem' w'. run_sync env mem w = Some (rep, mem', w') \<and> memory_ok env mem'"
proof (cases "mm_syncing mem")
  case True
  then show ?thesis using assms(2) by (simp add: run_sync_def try_start_sync_def)
next
  case False
  have "memory_ok env (mem\<lparr>mm_syncing := True\<rparr>)" using assms(2) by (simp add: memory_ok_def view_def)
  from perform_ok [OF assms(1) this, of w]
  obtain rep mem' w' where p: "perform env (mem\<lparr>mm_syncing := True\<rparr>) w = Some (rep, mem', w')" "memory_ok env mem'" by blast
  have "memory_ok env (end_sync mem')" using p(2) by (simp add: end_sync_def memory_ok_def view_def)
  then show ?thesis using False p(1) by (simp add: run_sync_def try_start_sync_def)
qed

lemma w_settings: "settings_ok w_run_env"
  by (simp add: settings_ok_def enabled_subs_def w_run_env_def w_env_kinds [unfolded w_env_def, simplified] w_env_def w_sub_def
      enabled_sources_def w_vl_def w_wg_def blank_source_def candidate_type_def candidate_source_def)

lemma run_sync_returns_witness:
  "\<exists>rep mem' w'. run_sync w_run_env w_memory new_server = Some (rep, mem', w') \<and> memory_ok w_run_env mem'"
proof (rule run_sync_returns [OF w_settings])
  have "target_ok w_sub new_target" by (rule target_new) (simp_all add: new_target_def)
  then show "memory_ok w_run_env w_memory"
    by (simp add: memory_ok_def enabled_subs_def w_run_env_def w_memory_def view_def)
qed

end
