(* ===== verification/Scd_Balancer.thy ===== *)
theory Scd_Balancer
  imports Scd_Runs
begin

text \<open>
  The selection of a balancer (\<^verbatim>\<open>internal/scd/balancer/selection.go\<close>, \<^verbatim>\<open>tick.go\<close>): what a poll of
  \<^verbatim>\<open>GetBalancerInfo\<close> and of the observatory records, and how outbound tags are mapped to tunnels. The log
  events of a tick are left out. The two calls of a tick run in parallel: \<open>info_first\<close> tells which is
  answered first.
\<close>

section \<open>Selections and tunnels\<close>

definition resolve_selection :: "balancer_info \<Rightarrow> sel_mode \<times> string \<times> string list" where
  "resolve_selection info =
     (if bi_override info \<noteq> '''' then (ModeOverride, bi_override info, bi_principle info)
      else if \<not> bi_known info then (ModeUnknown, '''', [])
      else case bi_principle info of
          [] \<Rightarrow> (ModeNone, '''', [])
        | [t] \<Rightarrow> (ModeSingle, t, [t])
        | ts \<Rightarrow> (ModePool, '''', ts))"

definition map_tag :: "string \<Rightarrow> string \<Rightarrow> mtunnel list \<Rightarrow> string option" where
  "map_tag tag pre tunnels =
     (if tag = '''' then None
      else case List.find (\<lambda>tn. tn_current (mt_mapping tn) = tag) tunnels of
          Some tn \<Rightarrow> Some (mt_id tn)
        | None \<Rightarrow>
      (case List.find (\<lambda>tn. tn_initial (mt_mapping tn) = tag \<and> tn_current (mt_mapping tn) \<noteq> tn_initial (mt_mapping tn)) tunnels of
          Some tn \<Rightarrow> Some (mt_id tn)
        | None \<Rightarrow>
            if pre = '''' then None
            else case cut_prefix tag pre of
                None \<Rightarrow> None
              | Some base \<Rightarrow> if list_ex (\<lambda>tn. mt_id tn = base) tunnels then Some base else None))"

datatype obs_status = ObsAlive | ObsDead | ObsAwaiting | ObsNA

record tunnel_view =
  tv_selected :: bool
  tv_candidate :: bool
  tv_observation :: "observation option"
  tv_status :: obs_status

definition view_tunnel_selection :: "mtunnel \<Rightarrow> selection_state \<Rightarrow> tunnel_view" where
  "view_tunnel_selection tn s =
     (let tag = tn_current (mt_mapping tn);
          v = \<lparr>tv_selected = (sn_selected s \<noteq> '''' \<and> sn_selected s = tag), tv_candidate = (tag \<in> set (sn_principle s)),
               tv_observation = None, tv_status = ObsNA\<rparr>
      in case sn_observatory s of
          None \<Rightarrow> v
        | Some obs \<Rightarrow>
      (case map_of obs tag of
          Some o1 \<Rightarrow> v\<lparr>tv_observation := Some o1, tv_status := (if ob_alive o1 then ObsAlive else ObsDead)\<rparr>
        | None \<Rightarrow>
            let in_selector = (case cut_suffix (tn_initial (mt_mapping tn)) (tn_base_tag (mt_mapping tn)) of
                  Some pre \<Rightarrow> if pre \<noteq> '''' then prefix pre tag else tv_candidate v
                | None \<Rightarrow> tv_candidate v)
            in if in_selector then v\<lparr>tv_status := ObsAwaiting\<rparr> else v))"

section \<open>What a poll records\<close>

fun not_found_error :: "err \<Rightarrow> bool" where
  "not_found_error (BalancerNotFound t) = True"
| "not_found_error (ErrWrap p e) = not_found_error e"
| "not_found_error (ReplaceFailed e) = not_found_error e"
| "not_found_error (StuckOnInitial e) = not_found_error e"
| "not_found_error e = False"

definition record_info :: "string \<Rightarrow> time \<Rightarrow> err + balancer_info \<Rightarrow> selection_state \<Rightarrow> selection_state" where
  "record_info tag now r s =
     (let s1 = s\<lparr>sn_tag := tag, sn_checked := Some now\<rparr> in
      case r of
        Inl e \<Rightarrow>
          s1\<lparr>sn_state := SelError, sn_not_found := not_found_error e, sn_error := err_text e, sn_failure := Some now,
             sn_failures := sn_failures s + 1\<rparr>
      | Inr info \<Rightarrow>
          let (mode, selected, pool) = resolve_selection info;
              moved = (sn_state s = SelNever \<or> selected \<noteq> sn_selected s);
              s2 = (if moved
                    then s1\<lparr>sn_previous := (if sn_state s \<noteq> SelNever then sn_selected s else sn_previous s), sn_since := Some now\<rparr>
                    else s1)
          in s2\<lparr>sn_state := SelOK, sn_mode := Some mode, sn_selected := selected, sn_override := bi_override info,
                sn_principle := bi_principle info, sn_success := Some now, sn_error := '''', sn_not_found := False,
                sn_failures := 0\<rparr>)"

definition record_foreign :: "subscription \<Rightarrow> string \<Rightarrow> balancer_info \<Rightarrow> selection_state \<Rightarrow> selection_state" where
  "record_foreign sub tag info s =
     (let owners = map (\<lambda>src. source_ns (sub_target sub) (s_id src)) (filter (\<lambda>src. s_balancer src = tag) (enabled_sources sub));
          selected = (if bi_override info \<noteq> '''' then [bi_override info] else bi_principle info);
          foreign = (if owners = [] then [] else filter (\<lambda>t. \<not> list_ex (\<lambda>n. owns n KOutbound t) owners) selected)
      in if selected = [] then s else s\<lparr>sn_foreign := sort foreign\<rparr>)"

text \<open>The last observation of a tag counts.\<close>

definition observation_map :: "observation list \<Rightarrow> (string, observation) gomap" where
  "observation_map obs = fold (\<lambda>o1. AList.update (ob_tag o1) o1) obs []"

definition record_observatory :: "bool \<Rightarrow> time \<Rightarrow> err + observation list \<Rightarrow> selection_state \<Rightarrow> selection_state" where
  "record_observatory enabled now r s =
     (if \<not> enabled then s\<lparr>sn_observatory := None, sn_obs_error := '''', sn_obs_checked := None\<rparr>
      else case r of
          Inl e \<Rightarrow> s\<lparr>sn_observatory := None, sn_obs_error := err_text e\<rparr>
        | Inr obs \<Rightarrow> s\<lparr>sn_observatory := Some (observation_map obs), sn_obs_error := '''', sn_obs_checked := Some now\<rparr>)"

section \<open>The tick\<close>

text \<open>The answers of a poll; \<open>None\<close>: the observatory was not asked.\<close>

definition poll ::
    "bool \<Rightarrow> 'w client \<Rightarrow> string \<Rightarrow> bool \<Rightarrow> 'w \<Rightarrow> (err + balancer_info) \<times> (err + observation list) option \<times> 'w" where
  "poll info_first cl tag observatory w =
     (if \<not> observatory then let (r, w1) = get_balancer_info cl tag w in (r, None, w1)
      else if info_first then
        let (r, w1) = get_balancer_info cl tag w; (q, w2) = get_outbound_status cl w1 in (r, Some q, w2)
      else let (q, w1) = get_outbound_status cl w; (r, w2) = get_balancer_info cl tag w1 in (r, Some q, w2))"

definition record_tick ::
    "subscription \<Rightarrow> balancer_config \<Rightarrow> bool \<Rightarrow> time \<Rightarrow> err + balancer_info \<Rightarrow> (err + observation list) option \<Rightarrow>
     target_state \<Rightarrow> target_state" where
  "record_tick sub b observatory now r q t =
     (let (bal, t1) = ensure_balancer (bc_tag b) t;
          s1 = record_info (bc_tag b) now r (bs_selection bal);
          s2 = (case r of Inl e \<Rightarrow> s1 | Inr info \<Rightarrow> record_foreign sub (bc_tag b) info s1);
          s3 = (case q of
                  Some q1 \<Rightarrow> record_observatory observatory now q1 s2
                | None \<Rightarrow> if observatory then s2 else record_observatory False now (Inr []) s2);
          t2 = t1\<lparr>ts_balancers := AList.update (bc_tag b) (bal\<lparr>bs_selection := s3\<rparr>) (ts_balancers t1)\<rparr>
      in if q \<noteq> None then t2\<lparr>ts_obs_error := sn_obs_error s3\<rparr> else t2)"

text \<open>\<^verbatim>\<open>Tick\<close>: whether it was cancelled, and the memory.\<close>

definition selection_tick ::
    "'w deps \<Rightarrow> bool \<Rightarrow> subscription \<Rightarrow> balancer_config \<Rightarrow> memory \<Rightarrow> 'w \<Rightarrow> bool \<times> memory \<times> 'w" where
  "selection_tick d info_first sub b m w =
     (case bc_selection b of
        None \<Rightarrow> (False, m, w)
      | Some bs \<Rightarrow>
          if \<not> bs_enabled bs then (False, m, w)
          else
            let t = sub_target sub;
                (cl, w1) = dp_dial d (t_address t) (t_timeout t) w;
                (r, q, w2) = (case cl of
                    Inl e \<Rightarrow> (Inl e, None, w1)
                  | Inr client \<Rightarrow> poll info_first client (bc_tag b) (bs_observatory bs) w1)
            in if dp_cancelled d w2 then (True, m, w2)
               else
                 let now = dp_now d w2; key = sub_key sub; m1 = ensure key m;
                     m2 = snd (note_xray key (case r of Inl e \<Rightarrow> Some e | Inr info \<Rightarrow> None) now m1)
                 in (False, update key (record_tick sub b (bs_observatory bs) now r q) m2, w2))"

section \<open>Lemmas\<close>

text \<open>What the polls of a balancer leave, in every order of answers and errors.\<close>

definition selection_ok :: "selection_state \<Rightarrow> bool" where
  "selection_ok s \<longleftrightarrow>
     (sn_state s = SelNever \<longrightarrow> sn_checked s = None \<and> sn_success s = None \<and> sn_failures s = 0 \<and> sn_selected s = '''' \<and> sn_mode s = None) \<and>
     (sn_state s = SelOK \<longrightarrow> sn_success s \<noteq> None \<and> sn_success s = sn_checked s \<and> sn_failures s = 0 \<and> sn_error s = '''') \<and>
     (sn_state s = SelError \<longrightarrow> sn_failure s \<noteq> None \<and> sn_failure s = sn_checked s \<and> 0 < sn_failures s) \<and>
     (sn_not_found s \<longrightarrow> sn_state s = SelError) \<and>
     (sn_selected s \<noteq> '''' \<longrightarrow> sn_mode s = Some ModeOverride \<and> sn_selected s = sn_override s \<or>
        sn_mode s = Some ModeSingle \<and> sn_principle s = [sn_selected s] \<and> sn_override s = '''')"

inductive polled :: "selection_state \<Rightarrow> bool" where
  never: "polled new_selection"
| info: "polled s \<Longrightarrow> polled (record_info tag now r s)"
| foreign: "polled s \<Longrightarrow> polled (record_foreign sub tag info s)"
| observatory: "polled s \<Longrightarrow> polled (record_observatory enabled now q s)"

lemma resolve_cases:
  assumes "resolve_selection info = (mode, selected, pool)"
  shows "selected \<noteq> '''' \<Longrightarrow> mode = ModeOverride \<and> selected = bi_override info \<or>
    mode = ModeSingle \<and> bi_principle info = [selected] \<and> bi_override info = ''''"
  using assms by (auto simp: resolve_selection_def split: if_splits list.splits)

lemma record_info_ok:
  assumes "selection_ok s"
  shows "selection_ok (record_info tag now r s)"
proof (cases r)
  case (Inl e)
  then show ?thesis using assms by (simp add: record_info_def selection_ok_def)
next
  case (Inr info)
  obtain mode selected pool where m: "resolve_selection info = (mode, selected, pool)" by (metis prod_cases3)
  show ?thesis using Inr resolve_cases [OF m] by (auto simp: record_info_def selection_ok_def m Let_def)
qed

lemma record_foreign_rest [simp]:
  "selection_ok (record_foreign sub tag info s) = selection_ok s" "sn_state (record_foreign sub tag info s) = sn_state s"
  "sn_success (record_foreign sub tag info s) = sn_success s" "sn_override (record_foreign sub tag info s) = sn_override s"
  "sn_principle (record_foreign sub tag info s) = sn_principle s"
  by (simp_all add: record_foreign_def selection_ok_def Let_def)

lemma record_observatory_rest [simp]:
  "selection_ok (record_observatory enabled now q s) = selection_ok s" "sn_state (record_observatory enabled now q s) = sn_state s"
  "sn_success (record_observatory enabled now q s) = sn_success s" "sn_override (record_observatory enabled now q s) = sn_override s"
  "sn_principle (record_observatory enabled now q s) = sn_principle s"
  by (simp_all add: record_observatory_def selection_ok_def split: sum.split)

text \<open>
  C40: Whatever the polls of a balancer answered, in any order of answers and errors, its recorded state is
  consistent: a balancer that is said to be missing is in error, an error counts at least one failure at the
  time of the last check, a success clears the error and the count, and a selected tag is either the override
  or the only principle target.
\<close>

theorem polled_selection_consistent:
  assumes "polled s"
  shows "selection_ok s"
  using assms by induction (simp_all add: record_info_ok, simp add: selection_ok_def new_selection_def)

definition w_polled :: selection_state where
  "w_polled = record_info ''b'' 7 (Inl (BalancerNotFound ''b''))
     (record_info ''b'' 5 (Inr \<lparr>bi_override = '''', bi_principle = [''p-vl-a''], bi_known = True\<rparr>) new_selection)"

lemma polled_selection_consistent_witness: "selection_ok w_polled \<and> sn_not_found w_polled \<and> sn_selected w_polled = ''p-vl-a''"
proof -
  have "polled w_polled" unfolding w_polled_def by (intro polled.intros)
  then show ?thesis using polled_selection_consistent
    by (simp add: w_polled_def record_info_def resolve_selection_def new_selection_def)
qed

lemma note_xray_balancers:
  assumes "view key m = Some t"
  shows "\<exists>t'. view key (snd (note_xray key x now m)) = Some t' \<and> ts_balancers t' = ts_balancers t \<and>
    (x = None \<longrightarrow> ts_xray_down t' = None)"
proof (cases x)
  case None
  then show ?thesis using assms by (auto simp: note_xray_def view_update clear_xray_down_def split: option.split)
next
  case (Some e)
  then show ?thesis using assms
    by (auto simp: note_xray_def view_update view_ensure set_xray_down_def split: option.split)
qed

lemma ensure_balancer_parts:
  assumes "ensure_balancer tag t = (b, t1)"
  shows "map_of (ts_balancers t1) s = (if s = tag then Some b else map_of (ts_balancers t) s)" "ts_xray_down t1 = ts_xray_down t"
    "ts_sources t1 = ts_sources t" "ts_tunnels t1 = ts_tunnels t"
  using assms by (auto simp: ensure_balancer_def update_conv' split: option.splits)

lemma record_tick_parts:
  obtains s where "map_of (ts_balancers (record_tick sub b obs now r q t)) (bc_tag b) = Some s"
    "sn_state (bs_selection s) = (case r of Inl e \<Rightarrow> SelError | Inr i \<Rightarrow> SelOK)"
    "\<And>i. r = Inr i \<Longrightarrow> sn_success (bs_selection s) = Some now \<and> sn_override (bs_selection s) = bi_override i \<and>
       sn_principle (bs_selection s) = bi_principle i"
    "ts_xray_down (record_tick sub b obs now r q t) = ts_xray_down t"
proof -
  obtain bal t1 where e: "ensure_balancer (bc_tag b) t = (bal, t1)" by fastforce
  note parts = ensure_balancer_parts [OF e]
  define s1 where "s1 = record_info (bc_tag b) now r (bs_selection bal)"
  define s2 where "s2 = (case r of Inl e \<Rightarrow> s1 | Inr info \<Rightarrow> record_foreign sub (bc_tag b) info s1)"
  define s3 where "s3 = (case q of Some q1 \<Rightarrow> record_observatory obs now q1 s2
      | None \<Rightarrow> if obs then s2 else record_observatory False now (Inr []) s2)"
  have same: "sn_state s3 = sn_state s1" "sn_success s3 = sn_success s1" "sn_override s3 = sn_override s1" "sn_principle s3 = sn_principle s1"
    by (simp_all add: s3_def s2_def split: option.split sum.split)
  show thesis
  proof (rule that [of "bal\<lparr>bs_selection := s3\<rparr>"])
    show "map_of (ts_balancers (record_tick sub b obs now r q t)) (bc_tag b) = Some (bal\<lparr>bs_selection := s3\<rparr>)"
      unfolding record_tick_def e Let_def prod.case s1_def [symmetric] s2_def [symmetric] s3_def [symmetric] by simp
    show "sn_state (bs_selection (bal\<lparr>bs_selection := s3\<rparr>)) = (case r of Inl e \<Rightarrow> SelError | Inr i \<Rightarrow> SelOK)"
      by (simp add: same s1_def record_info_def Let_def split: sum.split prod.split)
    show "sn_success (bs_selection (bal\<lparr>bs_selection := s3\<rparr>)) = Some now \<and>
        sn_override (bs_selection (bal\<lparr>bs_selection := s3\<rparr>)) = bi_override i \<and>
        sn_principle (bs_selection (bal\<lparr>bs_selection := s3\<rparr>)) = bi_principle i" if "r = Inr i" for i
      using that by (simp add: same s1_def record_info_def Let_def split: prod.split)
    show "ts_xray_down (record_tick sub b obs now r q t) = ts_xray_down t"
      using parts(2) by (simp add: record_tick_def e Let_def)
  qed
qed

text \<open>The answer of a poll about the balancer, and that it was not cancelled.\<close>

definition answered :: "'w deps \<Rightarrow> bool \<Rightarrow> subscription \<Rightarrow> balancer_config \<Rightarrow> 'w \<Rightarrow> (err + balancer_info) option" where
  "answered d info_first sub b w =
     (case bc_selection b of
        None \<Rightarrow> None
      | Some bs \<Rightarrow>
          let (cl, w1) = dp_dial d (t_address (sub_target sub)) (t_timeout (sub_target sub)) w;
              (r, q, w2) = (case cl of Inl e \<Rightarrow> (Inl e, None, w1) | Inr client \<Rightarrow> poll info_first client (bc_tag b) (bs_observatory bs) w1)
          in if bs_enabled bs \<and> \<not> dp_cancelled d w2 then Some r else None)"

lemma selection_tick_memory:
  assumes "answered d info_first sub b w = Some r" "selection_tick d info_first sub b m w = (canc, m', w')"
  obtains t q obs where "\<not> canc" "view (sub_key sub) m' = Some (record_tick sub b obs (dp_now d w') r q t)"
    "\<And>i. r = Inr i \<Longrightarrow> ts_xray_down t = None"
proof -
  obtain bs where bs: "bc_selection b = Some bs" "bs_enabled bs" using assms(1)
    by (auto simp: answered_def Let_def split: option.splits prod.splits if_splits)
  obtain cl w1 where cl: "dp_dial d (t_address (sub_target sub)) (t_timeout (sub_target sub)) w = (cl, w1)" by fastforce
  obtain r1 q w2 where p: "(case cl of Inl e \<Rightarrow> (Inl e, None, w1)
      | Inr client \<Rightarrow> poll info_first client (bc_tag b) (bs_observatory bs) w1) = (r1, q, w2)" by (metis prod_cases3)
  have r: "r1 = r" "\<not> dp_cancelled d w2" using assms(1) bs cl p by (auto simp: answered_def split: if_splits)
  let ?x = "case r of Inl e \<Rightarrow> Some e | Inr info \<Rightarrow> None"
  obtain t0 where t0: "view (sub_key sub) (ensure (sub_key sub) m) = Some t0"
    by (cases "view (sub_key sub) m") (auto simp: view_ensure)
  from note_xray_balancers [OF t0, of ?x "dp_now d w2"]
  obtain t where t: "view (sub_key sub) (snd (note_xray (sub_key sub) ?x (dp_now d w2) (ensure (sub_key sub) m))) = Some t"
    "?x = None \<longrightarrow> ts_xray_down t = None"
    by (elim exE conjE)
  have "canc = False" "w' = w2"
    "m' = update (sub_key sub) (record_tick sub b (bs_observatory bs) (dp_now d w2) r q)
      (snd (note_xray (sub_key sub) ?x (dp_now d w2) (ensure (sub_key sub) m)))"
    using assms(2) bs cl p r by (auto simp: selection_tick_def Let_def)
  then show thesis using that [of "bs_observatory bs" q t] t by (simp add: view_update)
qed

text \<open>
  C39: A poll decides what the sources that depend on the balancer see of it: after an answer the balancer is
  healthy exactly when Xray has an override or a principle target for it (while the answer is not stale),
  and an unavailability of Xray is over; after an error its health is unknown, never healthy.
\<close>

theorem selection_tick_health:
  assumes "answered d info_first sub b w = Some r" "selection_tick d info_first sub b m w = (canc, m', w')"
    and "\<not> stl (dp_now d w')"
  shows "selection_health (sub_key sub) (bc_tag b) stl m' =
    (case r of Inl e \<Rightarrow> DepUnknown
     | Inr info \<Rightarrow> if bi_override info \<noteq> '''' \<or> bi_principle info \<noteq> [] then DepHealthy else DepUnhealthy)"
proof -
  obtain t q obs where t: "view (sub_key sub) m' = Some (record_tick sub b obs (dp_now d w') r q t)"
    "\<And>i. r = Inr i \<Longrightarrow> ts_xray_down t = None"
    using selection_tick_memory [OF assms(1,2)] by metis
  obtain s where s: "map_of (ts_balancers (record_tick sub b obs (dp_now d w') r q t)) (bc_tag b) = Some s"
    "sn_state (bs_selection s) = (case r of Inl e \<Rightarrow> SelError | Inr i \<Rightarrow> SelOK)"
    "\<And>i. r = Inr i \<Longrightarrow> sn_success (bs_selection s) = Some (dp_now d w') \<and> sn_override (bs_selection s) = bi_override i \<and>
       sn_principle (bs_selection s) = bi_principle i"
    "ts_xray_down (record_tick sub b obs (dp_now d w') r q t) = ts_xray_down t"
    using record_tick_parts by metis
  show ?thesis
  proof (cases r)
    case (Inl e)
    then show ?thesis using t(1) s by (simp add: selection_health_def Let_def split: option.split)
  next
    case (Inr info)
    then show ?thesis using t s(1,2,4) s(3) [OF Inr] assms(3) by (simp add: selection_health_def)
  qed
qed

definition w_balancer :: balancer_config where
  "w_balancer = \<lparr>bc_tag = ''b'', bc_monitor = None,
     bc_selection = Some \<lparr>bs_enabled = True, bs_schedule = '''', bs_observatory = True, bs_strategy = ''random''\<rparr>\<rparr>"

lemma selection_tick_health_witness:
  "case selection_tick w_deps True w_sub w_balancer w_memory new_server of (canc, m', w') \<Rightarrow>
     selection_health (sub_key w_sub) ''b'' (\<lambda>_. False) m' = DepUnknown"
proof -
  have a: "case answered w_deps True w_sub w_balancer new_server of Some (Inl e) \<Rightarrow> True | _ \<Rightarrow> False" by code_simp
  then obtain e where e: "answered w_deps True w_sub w_balancer new_server = Some (Inl e)" by (auto split: option.splits sum.splits)
  obtain canc m' w' where t: "selection_tick w_deps True w_sub w_balancer w_memory new_server = (canc, m', w')" by (metis prod_cases3)
  show ?thesis using selection_tick_health [OF e t, of "\<lambda>_. False"] t by (simp add: w_balancer_def)
qed

section \<open>Tags\<close>

lemma find_distinct_current:
  assumes "distinct (map (\<lambda>tn. tn_current (mt_mapping tn)) tns)" "tn \<in> set tns"
  shows "List.find (\<lambda>x. tn_current (mt_mapping x) = tn_current (mt_mapping tn)) tns = Some tn"
  using assms by (induction tns) (auto simp: image_iff)

text \<open>
  The outbound tag of a tunnel is shown as that tunnel, and only tunnels of the target are shown as
  managed: among tunnels with different outbounds the tag of each is mapped to its own id, a tag that is
  mapped belongs to a tunnel of the target, and a tunnel is marked as selected only when the selected tag is
  mapped to it.
\<close>

theorem map_tag_own_tunnel:
  assumes "distinct (map (\<lambda>tn. tn_current (mt_mapping tn)) tns)" "tn \<in> set tns" "tn_current (mt_mapping tn) \<noteq> ''''"
  shows "map_tag (tn_current (mt_mapping tn)) pre tns = Some (mt_id tn) \<and>
    (\<forall>tag i. map_tag tag pre tns = Some i \<longrightarrow> i \<in> mt_id ` set tns) \<and>
    (tv_selected (view_tunnel_selection tn s) \<longrightarrow> map_tag (sn_selected s) pre tns = Some (mt_id tn))"
proof -
  have own: "map_tag (tn_current (mt_mapping tn)) pre tns = Some (mt_id tn)"
    using find_distinct_current [OF assms(1,2)] assms(3) by (simp add: map_tag_def)
  have "i \<in> mt_id ` set tns" if "map_tag tag pre tns = Some i" for tag i
    using that find_Some_in by (force simp: map_tag_def list_ex_iff split: if_splits option.splits)
  moreover have "tv_selected (view_tunnel_selection tn s) \<Longrightarrow> sn_selected s = tn_current (mt_mapping tn)"
    by (simp add: view_tunnel_selection_def Let_def split: option.splits if_splits)
  ultimately show ?thesis using own by auto
qed

lemma map_tag_own_tunnel_witness:
  "map_tag (tn_current w_tunnel) ''p-'' (ts_tunnels Scd_Repair.w_state) = Some (tn_base_id w_tunnel)"
proof -
  obtain tn where tn: "ts_tunnels Scd_Repair.w_state = [tn]" "mt_mapping tn = w_tunnel\<lparr>tn_source := ''vl''\<rparr>"
    using w_mappings by (auto simp: mappings_def map_eq_Cons_conv)
  have "tn_current w_tunnel \<noteq> ''''" by code_simp
  then show ?thesis using map_tag_own_tunnel [of "ts_tunnels Scd_Repair.w_state" tn "''p-''"] tn by simp
qed

end
