(* ===== verification/Scd_Push.thy ===== *)
theory Scd_Push
  imports Scd_Balancer
begin

text \<open>
  The balancer monitor and its remote push (\<^verbatim>\<open>internal/scd/monitor/balancer.go\<close>, \<^verbatim>\<open>remoteping.go\<close>,
  \<^verbatim>\<open>pingurl.go\<close>): what a check of a balancer records, the URL of a push, and the pushes that run beside the
  ticks. The log lines are left out.
\<close>

section \<open>The URL of a push\<close>

text \<open>
  A parsed URL: \<open>pu_rest\<close> is everything but the query. \<open>pe_url\<close> is \<^verbatim>\<open>url.Parse\<close> with the text of the
  cause of its error, \<open>pe_url_text\<close> is \<^verbatim>\<open>URL.String\<close>, \<open>pe_direct\<close> is \<^verbatim>\<open>PushDirect\<close> (net/http), and \<open>pe_cause\<close>
  is the text of an error reduced to its cause, without a local address.
\<close>

record push_url =
  pu_absolute :: bool
  pu_host :: string
  pu_query :: string
  pu_force_query :: bool
  pu_rest :: string

record 'w push_env =
  pe_deps :: "'w deps"
  pe_url :: "string \<Rightarrow> string + push_url"
  pe_url_text :: "push_url \<Rightarrow> string"
  pe_direct :: "string \<Rightarrow> int \<Rightarrow> ('w, int) query"
  pe_cause :: "err \<Rightarrow> string"

type_synonym ping_query = "(string \<times> string) list"

definition unescape_lenient :: "string \<Rightarrow> string" where
  "unescape_lenient s =
     (case unescape True s of Some t \<Rightarrow> t | None \<Rightarrow> map (\<lambda>ch. if ch = CHR ''+'' then CHR '' '' else ch) s)"

definition parse_ping_query :: "string \<Rightarrow> ping_query" where
  "parse_ping_query raw =
     map (\<lambda>part. let (k, v) = cut_at CHR ''='' part in (unescape_lenient k, unescape_lenient v))
       (filter (\<lambda>part. part \<noteq> '''') (split_on CHR ''&'' raw))"

fun query_set :: "string \<Rightarrow> string \<Rightarrow> ping_query \<Rightarrow> ping_query" where
  "query_set k v [] = [(k, v)]"
| "query_set k v ((k1, v1) # q) =
     (if k1 = k then (k, v) # filter (\<lambda>p. fst p \<noteq> k) q else (k1, v1) # query_set k v q)"

definition encode_query :: "ping_query \<Rightarrow> string" where
  "encode_query q = join_with ''&'' (map (\<lambda>(k, v). escape EscQuery k @ ''='' @ escape EscQuery v) q)"

definition parse_absolute :: "'w push_env \<Rightarrow> string \<Rightarrow> string + push_url" where
  "parse_absolute env raw =
     (case pe_url env raw of
        Inl e \<Rightarrow> Inl (''invalid remote ping URL: '' @ e)
      | Inr u \<Rightarrow> if pu_absolute u then Inr u else Inl ''invalid remote ping URL: not an absolute URL'')"

record ping_payload =
  pp_status :: string
  pp_msg :: string
  pp_ping :: "int option"

definition ping_query_of :: "ping_payload \<Rightarrow> ping_query \<Rightarrow> ping_query" where
  "ping_query_of p q =
     (let q1 = filter (\<lambda>x. fst x \<noteq> ''ping'') (query_set ''msg'' (pp_msg p) (query_set ''status'' (pp_status p) q))
      in case pp_ping p of None \<Rightarrow> q1 | Some n \<Rightarrow> query_set ''ping'' (int_text n) q1)"

definition remote_ping_url :: "'w push_env \<Rightarrow> string \<Rightarrow> ping_payload \<Rightarrow> string + string" where
  "remote_ping_url env raw p =
     (case parse_absolute env raw of
        Inl e \<Rightarrow> Inl e
      | Inr u \<Rightarrow> Inr (pe_url_text env
          (u\<lparr>pu_query := encode_query (ping_query_of p (parse_ping_query (pu_query u))), pu_force_query := False\<rparr>)))"

section \<open>The check of a balancer\<close>

definition check_failed_at :: "time \<Rightarrow> string \<Rightarrow> balancer_mon \<Rightarrow> balancer_mon" where
  "check_failed_at now msg m =
     m\<lparr>bm_failing_since := (if bm_state m \<noteq> BDegraded then Some now else bm_failing_since m), bm_state := BDegraded,
       bm_checked := Some now, bm_failure := Some now, bm_status := None, bm_latency := None, bm_error := msg,
       bm_failures := bm_failures m + 1\<rparr>"

definition check_passed_at :: "time \<Rightarrow> response \<Rightarrow> balancer_mon \<Rightarrow> balancer_mon" where
  "check_passed_at now resp m =
     m\<lparr>bm_failing_since := None, bm_state := BHealthy, bm_checked := Some now, bm_success := Some now,
       bm_status := Some (rs_status resp), bm_latency := Some (rs_latency resp), bm_ok_status := Some (rs_status resp),
       bm_ok_latency := Some (rs_latency resp), bm_error := '''', bm_failures := 0\<rparr>"

definition on_balancer :: "string \<Rightarrow> (balancer_mon \<Rightarrow> balancer_mon) \<Rightarrow> target_state \<Rightarrow> target_state" where
  "on_balancer tag f t =
     (let (b, t1) = ensure_balancer tag t
      in t1\<lparr>ts_balancers := AList.update tag (b\<lparr>bs_monitor := f (bs_monitor b)\<rparr>) (ts_balancers t1)\<rparr>)"

text \<open>\<^verbatim>\<open>BalancerTick\<close> up to the push: whether it was cancelled, what is to be pushed, and the memory.\<close>

definition balancer_tick ::
    "'w push_env \<Rightarrow> subscription \<Rightarrow> balancer_config \<Rightarrow> memory \<Rightarrow> 'w \<Rightarrow> bool \<times> ping_payload option \<times> memory \<times> 'w" where
  "balancer_tick env sub b m w =
     (case bc_monitor b of
        None \<Rightarrow> (False, None, m, w)
      | Some bm \<Rightarrow>
     (case (bm_socks5 bm, bm_request bm) of
        (Some (host, port), Some req) \<Rightarrow>
          let key = sub_key sub; d = pe_deps env in
          if \<not> bm_enabled bm \<or> \<not> (case view key m of None \<Rightarrow> False | Some t \<Rightarrow> ts_sync_seen t) then (False, None, m, w)
          else
            let (r, w1) = probe_with_retry d host port req (bm_retry bm) w; now = dp_now d w1 in
            if dp_cancelled d w1 then (True, None, m, w1)
            else (case r of
                Inl e \<Rightarrow>
                  (False, Some \<lparr>pp_status = ''down'', pp_msg = err_text e, pp_ping = None\<rparr>,
                   update key (on_balancer (bc_tag b) (check_failed_at now (err_text e))) m, w1)
              | Inr resp \<Rightarrow>
                  (False, Some \<lparr>pp_status = ''up'', pp_msg = ''OK'', pp_ping = Some (rs_latency resp)\<rparr>,
                   update key (on_balancer (bc_tag b) (check_passed_at now resp)) m, w1))
      | _ \<Rightarrow> (False, None, m, w)))"

section \<open>The push\<close>

text \<open>\<^verbatim>\<open>scheduleRemotePing\<close>: whether a push starts.\<close>

definition mark_pending :: "time \<Rightarrow> ping_payload \<Rightarrow> balancer_mon \<Rightarrow> balancer_mon" where
  "mark_pending now p m =
     m\<lparr>bm_push_state := PPending, bm_push_run := Some now, bm_push_error := '''', bm_push_status := pp_status p,
       bm_push_msg := pp_msg p, bm_push_ping := pp_ping p\<rparr>"

definition schedule_ping ::
    "'w push_env \<Rightarrow> subscription \<Rightarrow> balancer_config \<Rightarrow> ping_payload \<Rightarrow> memory \<Rightarrow> 'w \<Rightarrow> bool \<times> memory" where
  "schedule_ping env sub b p m w =
     (case bc_monitor b of
        None \<Rightarrow> (False, m)
      | Some bm \<Rightarrow>
          if \<not> rp_enabled (bm_remote_ping bm) \<or> rp_url (bm_remote_ping bm) = '''' \<or> bm_socks5 bm = None then (False, m)
          else case view (sub_key sub) m of
              None \<Rightarrow> (False, m)
            | Some t \<Rightarrow>
                let (bal, t1) = ensure_balancer (bc_tag b) t in
                if bm_push_state (bs_monitor bal) = PPending then (False, update (sub_key sub) (\<lambda>_. t1) m)
                else (True, update (sub_key sub) (on_balancer (bc_tag b) (mark_pending (dp_now (pe_deps env) w) p)) m))"

definition ping_error_text :: "'w push_env \<Rightarrow> err \<Rightarrow> string list \<Rightarrow> string" where
  "ping_error_text env e urls =
     fold (\<lambda>u msg. if u = '''' then msg else replace_all u ''<redacted>'' msg) urls (pe_cause env e)"

text \<open>\<^verbatim>\<open>sendRemotePing\<close>: the text of the error or the status code.\<close>

definition send_ping ::
    "'w push_env \<Rightarrow> balancer_monitor \<Rightarrow> ping_payload \<Rightarrow> 'w \<Rightarrow> (string + int) \<times> 'w" where
  "send_ping env bm p w =
     (let rp = bm_remote_ping bm in
      case remote_ping_url env (rp_url rp) p of
        Inl e \<Rightarrow> (Inl (ping_error_text env (ErrText e) [rp_url rp, '''']), w)
      | Inr url \<Rightarrow>
          let (r, w1) =
            (case (rp_via_socks rp, bm_socks5 bm) of
               (True, Some (host, port)) \<Rightarrow>
                 (case dp_probe (pe_deps env) \<lparr>pr_host = host, pr_port = port, pr_url = url, pr_method = ''GET'',
                      pr_timeout = rp_timeout rp\<rparr> w of
                    (Inl e, w1) \<Rightarrow> (Inl e, w1)
                  | (Inr resp, w1) \<Rightarrow> (Inr (rs_status resp), w1))
             | _ \<Rightarrow> pe_direct env url (rp_timeout rp) w)
          in (case r of Inl e \<Rightarrow> Inl (ping_error_text env e [rp_url rp, url]) | Inr code \<Rightarrow> Inr code, w1))"

definition record_push :: "time \<Rightarrow> string + int \<Rightarrow> balancer_mon \<Rightarrow> balancer_mon" where
  "record_push now r m =
     (case r of
        Inl msg \<Rightarrow> m\<lparr>bm_push_state := PFailed, bm_push_failure := Some now, bm_push_code := None, bm_push_error := msg\<rparr>
      | Inr code \<Rightarrow>
          if code < 200 \<or> 300 \<le> code
          then m\<lparr>bm_push_state := PFailed, bm_push_failure := Some now, bm_push_code := Some code,
                 bm_push_error := ''Remote ping returned HTTP '' @ int_text code @ ''.''\<rparr>
          else m\<lparr>bm_push_state := POK, bm_push_success := Some now, bm_push_code := Some code, bm_push_error := ''''\<rparr>)"

section \<open>Pushes beside ticks\<close>

text \<open>
  A push is first to be scheduled by its tick, then runs in its own goroutine: it is sent, and its answer is
  recorded under the lock of the memory. Between these steps any other step of the program may happen.
\<close>

datatype push_stage = Due | Sending | Got "string + int"

record push =
  ps_balancer :: balancer_config
  ps_payload :: ping_payload
  ps_stage :: push_stage

definition push_pending :: "string \<Rightarrow> string \<Rightarrow> memory \<Rightarrow> bool" where
  "push_pending key tag m \<longleftrightarrow>
     (case view key m of None \<Rightarrow> False
      | Some t \<Rightarrow> (case map_of (ts_balancers t) tag of None \<Rightarrow> False | Some b \<Rightarrow> bm_push_state (bs_monitor b) = PPending))"

inductive push_step ::
    "'w push_env \<Rightarrow> subscription \<Rightarrow> memory \<times> push list \<times> 'w \<Rightarrow> memory \<times> push list \<times> 'w \<Rightarrow> bool"
  for env :: "'w push_env" and sub :: subscription where
  check: "balancer_tick env sub b m w = (False, Some p, m', w') \<Longrightarrow>
    push_step env sub (m, js, w) (m', js @ [\<lparr>ps_balancer = b, ps_payload = p, ps_stage = Due\<rparr>], w')"
| schedule: "ps_stage j = Due \<Longrightarrow> schedule_ping env sub (ps_balancer j) (ps_payload j) m w = (True, m') \<Longrightarrow>
    push_step env sub (m, xs @ j # ys, w) (m', xs @ j\<lparr>ps_stage := Sending\<rparr> # ys, w)"
| skip: "ps_stage j = Due \<Longrightarrow> schedule_ping env sub (ps_balancer j) (ps_payload j) m w = (False, m') \<Longrightarrow>
    push_step env sub (m, xs @ j # ys, w) (m', xs @ ys, w)"
| send: "ps_stage j = Sending \<Longrightarrow> bc_monitor (ps_balancer j) = Some bm \<Longrightarrow> send_ping env bm (ps_payload j) w = (r, w') \<Longrightarrow>
    push_step env sub (m, xs @ j # ys, w) (m, xs @ j\<lparr>ps_stage := Got r\<rparr> # ys, w')"
| finish: "ps_stage j = Got r \<Longrightarrow>
    push_step env sub (m, xs @ j # ys, w)
      (update (sub_key sub) (on_balancer (bc_tag (ps_balancer j)) (record_push (dp_now (pe_deps env) w) r)) m, xs @ ys, w)"
| other: "(\<And>tag. push_pending (sub_key sub) tag m' = push_pending (sub_key sub) tag m) \<Longrightarrow>
    push_step env sub (m, js, w) (m', js, w')"

inductive_cases push_stepE: "push_step env sub s s'"

section \<open>Lemmas: one push at a time\<close>

definition in_flight :: "string \<Rightarrow> push list \<Rightarrow> nat" where
  "in_flight tag js = length (filter (\<lambda>j. bc_tag (ps_balancer j) = tag \<and> ps_stage j \<noteq> Due) js)"

definition pushes_ok :: "string \<Rightarrow> memory \<Rightarrow> push list \<Rightarrow> bool" where
  "pushes_ok key m js \<longleftrightarrow> (\<forall>tag. in_flight tag js = (if push_pending key tag m then 1 else 0))"

lemma in_flight_parts [simp]:
  "in_flight tag [] = 0" "in_flight tag (xs @ ys) = in_flight tag xs + in_flight tag ys"
  "in_flight tag (j # ys) = (if bc_tag (ps_balancer j) = tag \<and> ps_stage j \<noteq> Due then 1 else 0) + in_flight tag ys"
  by (simp_all add: in_flight_def)

lemma on_balancer_pending:
  "push_pending key s (update key (on_balancer tag f) m) =
     (if s = tag
      then (case view key m of None \<Rightarrow> False
            | Some t \<Rightarrow> bm_push_state (f (bs_monitor (fst (ensure_balancer tag t)))) = PPending)
      else push_pending key s m)"
proof (cases "view key m")
  case None
  then show ?thesis by (simp add: push_pending_def view_update)
next
  case (Some t)
  obtain b t1 where e: "ensure_balancer tag t = (b, t1)" by fastforce
  then show ?thesis using Some ensure_balancer_parts(1) [OF e, of s]
    by (simp add: push_pending_def view_update on_balancer_def update_conv')
qed

lemma ensured_pending:
  "view key m = Some t \<Longrightarrow> (bm_push_state (bs_monitor (fst (ensure_balancer tag t))) = PPending) = push_pending key tag m"
  by (simp add: ensure_balancer_def push_pending_def new_balancer_def split: option.split)

lemma keeps_pending:
  assumes "\<And>x. bm_push_state (f x) = bm_push_state x"
  shows "push_pending key s (update key (on_balancer tag f) m) = push_pending key s m"
proof (cases "view key m")
  case None
  then show ?thesis by (simp add: push_pending_def view_update)
next
  case (Some t)
  then show ?thesis using ensured_pending [OF Some, of tag] by (simp add: on_balancer_pending assms)
qed

lemma balancer_tick_pending:
  assumes "balancer_tick env sub b m w = (canc, p, m', w')"
  shows "push_pending (sub_key sub) s m' = push_pending (sub_key sub) s m"
proof -
  have "m' = m \<or> (\<exists>now msg. m' = update (sub_key sub) (on_balancer (bc_tag b) (check_failed_at now msg)) m) \<or>
    (\<exists>now resp. m' = update (sub_key sub) (on_balancer (bc_tag b) (check_passed_at now resp)) m)"
    using assms unfolding balancer_tick_def Let_def by (auto split: option.splits prod.splits sum.splits if_splits)
  then show ?thesis
    using keeps_pending [of "check_failed_at now msg" for now msg] keeps_pending [of "check_passed_at now resp" for now resp]
    by (auto simp: check_failed_at_def check_passed_at_def)
qed

lemma schedule_started:
  assumes "schedule_ping env sub b p m w = (True, m')"
  shows "\<not> push_pending (sub_key sub) (bc_tag b) m" "push_pending (sub_key sub) s m' = (s = bc_tag b \<or> push_pending (sub_key sub) s m)"
proof -
  obtain t where t: "view (sub_key sub) m = Some t" "bm_push_state (bs_monitor (fst (ensure_balancer (bc_tag b) t))) \<noteq> PPending"
    "m' = update (sub_key sub) (on_balancer (bc_tag b) (mark_pending (dp_now (pe_deps env) w) p)) m"
    using assms by (auto simp: schedule_ping_def Let_def split: option.splits prod.splits if_splits)
  show "\<not> push_pending (sub_key sub) (bc_tag b) m" using t(2) ensured_pending [OF t(1)] by simp
  show "push_pending (sub_key sub) s m' = (s = bc_tag b \<or> push_pending (sub_key sub) s m)"
    unfolding t(3) on_balancer_pending using t(1) by (simp add: mark_pending_def)
qed

lemma schedule_skipped:
  assumes "schedule_ping env sub b p m w = (False, m')"
  shows "push_pending (sub_key sub) s m' = push_pending (sub_key sub) s m"
proof -
  have "m' = m \<or> (\<exists>t. view (sub_key sub) m = Some t \<and> m' = update (sub_key sub) (\<lambda>_. snd (ensure_balancer (bc_tag b) t)) m)"
    using assms by (auto simp: schedule_ping_def Let_def split: option.splits prod.splits if_splits)
  then show ?thesis
  proof (elim disjE exE conjE)
    fix t assume t: "view (sub_key sub) m = Some t" "m' = update (sub_key sub) (\<lambda>_. snd (ensure_balancer (bc_tag b) t)) m"
    have "map_of (ts_balancers (snd (ensure_balancer (bc_tag b) t))) s =
        (if s = bc_tag b then Some (fst (ensure_balancer (bc_tag b) t)) else map_of (ts_balancers t) s)"
      using ensure_balancer_parts(1) [of "bc_tag b" t] by (metis prod.collapse)
    then show ?thesis using t ensured_pending [OF t(1), of "bc_tag b"]
      by (auto simp: push_pending_def view_update split: option.split)
  qed simp
qed

lemma record_push_done: "bm_push_state (record_push now r m) \<noteq> PPending"
  by (simp add: record_push_def split: sum.split)

lemma push_step_ok:
  assumes "push_step env sub s s'" "pushes_ok (sub_key sub) (fst s) (fst (snd s))"
  shows "pushes_ok (sub_key sub) (fst s') (fst (snd s'))"
  using assms
proof (cases rule: push_step.cases)
  case (check b m w p m' w' js)
  then show ?thesis using assms(2) balancer_tick_pending [OF check(3)] by (simp add: pushes_ok_def)
next
  case (schedule j m w m' xs ys)
  have "in_flight tag (xs @ j\<lparr>ps_stage := Sending\<rparr> # ys) = (if push_pending (sub_key sub) tag m' then 1 else 0)" for tag
    using assms(2) schedule(1,3) schedule_started [OF schedule(4)]
    unfolding pushes_ok_def by (auto dest: spec [of _ tag] split: if_splits)
  then show ?thesis using schedule(2) by (simp add: pushes_ok_def)
next
  case (skip j m w m' xs ys)
  then show ?thesis using assms(2) schedule_skipped [OF skip(4)] by (simp add: pushes_ok_def)
next
  case (send j bm w r w' m xs ys)
  then show ?thesis using assms(2) by (simp add: pushes_ok_def)
next
  case (finish j r m xs ys w)
  let ?tag = "bc_tag (ps_balancer j)"
  have "in_flight s (xs @ ys) = (if s \<noteq> ?tag \<and> push_pending (sub_key sub) s m then 1 else 0)" for s
    using assms(2) finish(1,3) unfolding pushes_ok_def by (auto dest: spec [of _ s] split: if_splits)
  moreover have "push_pending (sub_key sub) s (update (sub_key sub) (on_balancer ?tag (record_push (dp_now (pe_deps env) w) r)) m) =
      (s \<noteq> ?tag \<and> push_pending (sub_key sub) s m)" for s
    by (simp add: on_balancer_pending record_push_done split: option.split)
  ultimately show ?thesis using finish(2) by (simp add: pushes_ok_def)
next
  case (other m' m js w w')
  then show ?thesis using assms(2) by (simp add: pushes_ok_def)
qed

text \<open>
  C37: At most one push of a balancer is under way at any time, however ticks, pushes and the other parts of
  the program interleave, and the state of the balancer says that a push is pending exactly while one is: a
  push that ends always leaves an outcome, and none is started before that.
\<close>

theorem one_push_at_a_time:
  assumes "(push_step env sub)\<^sup>*\<^sup>* (m0, [], w0) (m, js, w)" "\<And>tag. \<not> push_pending (sub_key sub) tag m0"
  shows "in_flight tag js \<le> 1 \<and> (push_pending (sub_key sub) tag m \<longleftrightarrow> in_flight tag js = 1)"
proof -
  have "pushes_ok (sub_key sub) m0 []" using assms(2) by (simp add: pushes_ok_def)
  moreover have "pushes_ok (sub_key sub) (fst s) (fst (snd s)) \<Longrightarrow> pushes_ok (sub_key sub) (fst s') (fst (snd s'))"
    if "(push_step env sub)\<^sup>*\<^sup>* s s'" for s s'
    using that by induction (auto intro: push_step_ok)
  ultimately have "pushes_ok (sub_key sub) m js" using assms(1) by fastforce
  then show ?thesis by (simp add: pushes_ok_def)
qed

definition w_push_env :: "server push_env" where
  "w_push_env =
     \<lparr>pe_deps = w_deps,
      pe_url = (\<lambda>s. let (r, q) = cut_at CHR ''?'' s in
         Inr \<lparr>pu_absolute = True, pu_host = ''h'', pu_query = q, pu_force_query = False, pu_rest = r\<rparr>),
      pe_url_text = (\<lambda>u. pu_rest u @ ''?'' @ pu_query u), pe_direct = (\<lambda>u n s. (Inr 200, s)), pe_cause = err_text\<rparr>"

definition w_pushed :: balancer_config where
  "w_pushed = \<lparr>bc_tag = ''b'',
     bc_monitor = Some \<lparr>bm_enabled = True, bm_schedule = '''', bm_socks5 = Some (''p'', 1),
       bm_request = Some \<lparr>mr_url = ''u'', mr_method = ''HEAD'', mr_expected = 204, mr_timeout = 100\<rparr>,
       bm_retry = \<lparr>rt_attempts = 1, rt_delay = 0\<rparr>,
       bm_remote_ping = \<lparr>rp_enabled = True, rp_url = ''r?token=x'', rp_timeout = 9, rp_via_socks = False\<rparr>\<rparr>,
     bc_selection = None\<rparr>"

definition w_synced :: memory where
  "w_synced = new_memory\<lparr>mm_targets := [(sub_key w_sub, new_target\<lparr>ts_sync_seen := True\<rparr>)]\<rparr>"

definition w_checked :: "bool \<times> ping_payload option \<times> memory \<times> server" where
  "w_checked = balancer_tick w_push_env w_sub w_pushed w_synced new_server"

definition w_due :: push where
  "w_due = \<lparr>ps_balancer = w_pushed, ps_payload = \<lparr>pp_status = ''up'', pp_msg = ''OK'', pp_ping = Some 5\<rparr>, ps_stage = Due\<rparr>"

definition w_scheduled :: "bool \<times> memory" where
  "w_scheduled = schedule_ping w_push_env w_sub w_pushed (ps_payload w_due) (fst (snd (snd w_checked))) (snd (snd (snd w_checked)))"

lemma w_pushes:
  "(push_step w_push_env w_sub)\<^sup>*\<^sup>* (w_synced, [], new_server)
     (snd w_scheduled, [w_due\<lparr>ps_stage := Sending\<rparr>], snd (snd (snd w_checked)))"
proof -
  have c: "\<not> fst w_checked" "fst (snd w_checked) = Some (ps_payload w_due)" by code_simp+
  have s: "fst w_scheduled" by code_simp
  have "balancer_tick w_push_env w_sub w_pushed w_synced new_server =
      (False, Some (ps_payload w_due), fst (snd (snd w_checked)), snd (snd (snd w_checked)))"
    using c unfolding w_checked_def by (metis prod.collapse)
  from push_step.check [OF this, of "[]"]
  have 1: "push_step w_push_env w_sub (w_synced, [], new_server) (fst (snd (snd w_checked)), [w_due], snd (snd (snd w_checked)))"
    by (simp add: w_due_def)
  have "schedule_ping w_push_env w_sub (ps_balancer w_due) (ps_payload w_due) (fst (snd (snd w_checked))) (snd (snd (snd w_checked))) =
      (True, snd w_scheduled)"
    using s unfolding w_scheduled_def by (simp add: w_due_def prod_eq_iff)
  from push_step.schedule [OF _ this, of "[]" "[]"]
  have "push_step w_push_env w_sub (fst (snd (snd w_checked)), [w_due], snd (snd (snd w_checked)))
      (snd w_scheduled, [w_due\<lparr>ps_stage := Sending\<rparr>], snd (snd (snd w_checked)))"
    by (simp add: w_due_def)
  with 1 show ?thesis by (meson rtranclp.rtrancl_into_rtrancl rtranclp.rtrancl_refl)
qed

lemma one_push_at_a_time_witness:
  "in_flight ''b'' [w_due\<lparr>ps_stage := Sending\<rparr>] = 1 \<and> push_pending (sub_key w_sub) ''b'' (snd w_scheduled)"
proof -
  have n: "\<not> push_pending (sub_key w_sub) tag w_synced" for tag
    by (simp add: push_pending_def w_synced_def view_def new_target_def)
  show ?thesis using one_push_at_a_time [OF w_pushes n, of "''b''"] by (simp add: w_due_def w_pushed_def)
qed

section \<open>Lemmas: the URL of a push\<close>

lemma unescape_query_char: "unescape True (escape_char EscQuery ch @ s) = map_option (Cons ch) (unescape True s)"
proof (cases "ch = CHR '' '' \<or> unreserved ch")
  case True
  then show ?thesis using literal_char [of EscQuery ch] by (auto simp: escape_char_def unescape_step(1))
next
  case False
  then show ?thesis by (simp add: escape_char_def unescape_step(2) del: unescape.simps)
qed

lemma unescape_query_text: "unescape_lenient (escape EscQuery s) = s"
proof -
  have "unescape True (escape EscQuery s) = Some s"
    unfolding escape_def by (induction s) (simp_all add: unescape_query_char)
  then show ?thesis by (simp add: unescape_lenient_def)
qed

lemma query_text_chars: "x \<in> set (escape EscQuery s) \<Longrightarrow> x \<noteq> CHR ''='' \<and> x \<noteq> CHR ''&''"
proof -
  have "x \<noteq> CHR ''='' \<and> x \<noteq> CHR ''&''" if "x \<in> set (escape_char EscQuery ch)" for ch
    using that unreserved_plain [OF char_hex(3) [of ch]] unreserved_plain [OF char_hex(4) [of ch]] unreserved_plain [of ch]
    by (auto simp: escape_char_def split: if_splits)
  then show "x \<in> set (escape EscQuery s) \<Longrightarrow> x \<noteq> CHR ''='' \<and> x \<noteq> CHR ''&''"
    by (auto simp: escape_def)
qed

lemma parse_encode_query: "parse_ping_query (encode_query q) = q"
proof (cases "q = []")
  case True
  then show ?thesis by (simp add: parse_ping_query_def encode_query_def)
next
  case False
  let ?part = "\<lambda>(k, v). escape EscQuery k @ ''='' @ escape EscQuery v"
  have "split_on CHR ''&'' (encode_query q) = map ?part q"
    unfolding encode_query_def using False query_text_chars
    by (intro split_on_join_with) auto
  moreover have "filter (\<lambda>part. part \<noteq> '''') (map ?part q) = map ?part q" by (auto simp: filter_id_conv)
  moreover have "cut_at CHR ''='' (?part (k, v)) = (escape EscQuery k, escape EscQuery v)" for k v
    using query_text_chars [of _ k] cut_at_cons by fastforce
  ultimately show ?thesis by (auto simp: parse_ping_query_def unescape_query_text intro!: map_idI)
qed

lemma query_set_values:
  "map snd (filter (\<lambda>p. fst p = k') (query_set k v q)) = (if k' = k then [v] else map snd (filter (\<lambda>p. fst p = k') q))"
  by (induction k v q rule: query_set.induct) (auto simp: filter_empty_conv intro: arg_cong [of _ _ "map snd"] filter_cong)

lemma query_set_others:
  "\<not> P k \<Longrightarrow> filter (\<lambda>p. P (fst p)) (query_set k v q) = filter (\<lambda>p. P (fst p)) q"
  by (induction k v q rule: query_set.induct) (auto intro!: filter_cong)

lemma drop_key:
  "map snd (filter (\<lambda>x. fst x = k) (filter (\<lambda>x. fst x \<noteq> k') r)) = (if k = k' then [] else map snd (filter (\<lambda>x. fst x = k) r))"
  by (induction r) auto

lemma ping_query_values:
  "map snd (filter (\<lambda>x. fst x = k) (ping_query_of p q)) =
    (if k = ''status'' then [pp_status p] else if k = ''msg'' then [pp_msg p]
     else if k = ''ping'' then (case pp_ping p of None \<Rightarrow> [] | Some n \<Rightarrow> [int_text n])
     else map snd (filter (\<lambda>x. fst x = k) q))"
proof -
  have "''status'' \<noteq> ''ping''" "''msg'' \<noteq> ''ping''" "''status'' \<noteq> ''msg''" by simp_all
  then show ?thesis unfolding ping_query_of_def Let_def
    by (cases "pp_ping p"; cases "k = ''ping''"; cases "k = ''msg''"; cases "k = ''status''")
      (simp_all only: option.case query_set_values drop_key if_True if_False simp_thms)
qed

lemma ping_query_kept:
  assumes "\<not> P ''status''" "\<not> P ''msg''" "\<not> P ''ping''"
  shows "filter (\<lambda>x. P (fst x)) (ping_query_of p q) = filter (\<lambda>x. P (fst x)) q"
proof -
  have "filter (\<lambda>x. P (fst x)) (filter (\<lambda>x. fst x \<noteq> ''ping'') r) = filter (\<lambda>x. P (fst x)) r" for r :: ping_query
    using assms(3) by (induction r) auto
  then show ?thesis using assms unfolding ping_query_of_def Let_def
    by (cases "pp_ping p") (simp_all only: option.case query_set_others simp_thms)
qed

lemma ping_query_others:
  "filter (\<lambda>x. fst x \<notin> {''status'', ''msg'', ''ping''}) (ping_query_of p q) =
   filter (\<lambda>x. fst x \<notin> {''status'', ''msg'', ''ping''}) q"
  by (rule ping_query_kept) simp_all

text \<open>
  C38: The URL that is pushed reports the check and touches nothing else: parsed again, its query says the
  status and the message exactly once and the latency exactly when there is one, whatever the configured URL
  said of them, and keeps every other parameter with its value in the configured order; the rest of the URL
  is the configured one.
\<close>

theorem ping_url_reports:
  assumes "pe_url env raw = Inr u" "remote_ping_url env raw p = Inr url"
  shows "\<exists>q. url = pe_url_text env (u\<lparr>pu_query := q, pu_force_query := False\<rparr>) \<and>
    (\<forall>k. map snd (filter (\<lambda>x. fst x = k) (parse_ping_query q)) =
      (if k = ''status'' then [pp_status p] else if k = ''msg'' then [pp_msg p]
       else if k = ''ping'' then (case pp_ping p of None \<Rightarrow> [] | Some n \<Rightarrow> [int_text n])
       else map snd (filter (\<lambda>x. fst x = k) (parse_ping_query (pu_query u))))) \<and>
    filter (\<lambda>x. fst x \<notin> {''status'', ''msg'', ''ping''}) (parse_ping_query q) =
    filter (\<lambda>x. fst x \<notin> {''status'', ''msg'', ''ping''}) (parse_ping_query (pu_query u))"
proof -
  let ?q = "ping_query_of p (parse_ping_query (pu_query u))"
  have "url = pe_url_text env (u\<lparr>pu_query := encode_query ?q, pu_force_query := False\<rparr>)"
    using assms by (simp add: remote_ping_url_def parse_absolute_def split: if_splits)
  then show ?thesis
    by (intro exI [of _ "encode_query ?q"]) (simp only: parse_encode_query ping_query_values ping_query_others simp_thms)
qed

lemma ping_url_reports_witness:
  "\<exists>q. remote_ping_url w_push_env ''r?token=x&ping=3'' (ps_payload w_due) = Inr (''r?'' @ q) \<and>
     map snd (filter (\<lambda>x. fst x = ''ping'') (parse_ping_query q)) = [''5'']"
proof -
  have "case pe_url w_push_env ''r?token=x&ping=3'' of Inr u \<Rightarrow> pu_rest u = ''r'' \<and> pu_absolute u | Inl _ \<Rightarrow> False" by code_simp
  then obtain u where u: "pe_url w_push_env ''r?token=x&ping=3'' = Inr u" "pu_rest u = ''r''" "pu_absolute u"
    by (auto split: sum.splits)
  then obtain url where url: "remote_ping_url w_push_env ''r?token=x&ping=3'' (ps_payload w_due) = Inr url"
    by (simp add: remote_ping_url_def parse_absolute_def)
  from ping_url_reports [OF u(1) url] obtain q where "url = ''r?'' @ q"
      "map snd (filter (\<lambda>x. fst x = ''ping'') (parse_ping_query q)) = [int_text 5]"
    using u(2) by (auto simp: w_push_env_def w_due_def)
  moreover have "int_text 5 = ''5''" by code_simp
  ultimately show ?thesis using url by auto
qed

end
