(* ===== verification/Scd_Cycles.thy ===== *)
theory Scd_Cycles
  imports Scd_Order
begin

text \<open>
  The dependencies between sources in the configuration (\<^verbatim>\<open>findCycles\<close>, \<^verbatim>\<open>checkDependencies\<close>, \<^verbatim>\<open>checkCycles\<close>,
  \<^verbatim>\<open>dependencies\<close> of \<^verbatim>\<open>internal/scd/config/rules.go\<close>): the depth-first search for cycles, which is exact, and
  what a configuration without issues guarantees to the sync.
\<close>

section \<open>Edges\<close>

type_synonym edges = "(string, string list) gomap"

definition succs :: "edges \<Rightarrow> string \<Rightarrow> string list" where
  "succs edges x = (case map_of edges x of None \<Rightarrow> [] | Some ys \<Rightarrow> ys)"

abbreviation edge :: "edges \<Rightarrow> string \<Rightarrow> string \<Rightarrow> bool" where
  "edge edges x y \<equiv> y \<in> set (succs edges x)"

definition add_edge :: "string \<Rightarrow> string \<Rightarrow> edges \<Rightarrow> edges" where
  "add_edge x y edges = AList.update x (succs edges x @ [y]) edges"

section \<open>The search for cycles\<close>

datatype mark = Unseen | Active | Finished

text \<open>\<^verbatim>\<open>reported\<close> holds the texts of the cycles, so it is not a field of its own.\<close>

record dfs =
  df_marks :: "(string, mark) gomap"
  df_cycles :: "string list list"

definition mark_of :: "dfs \<Rightarrow> string \<Rightarrow> mark" where
  "mark_of st x = (case map_of (df_marks st) x of None \<Rightarrow> Unseen | Some m \<Rightarrow> m)"

definition set_mark :: "mark \<Rightarrow> string \<Rightarrow> dfs \<Rightarrow> dfs" where
  "set_mark m x st = st\<lparr>df_marks := AList.update x m (df_marks st)\<rparr>"

definition order_index :: "string list \<Rightarrow> string \<Rightarrow> nat" where
  "order_index order x = (if x \<in> set order then length (takeWhile (\<lambda>y. y \<noteq> x) order) else 0)"

definition first_of_cycle :: "string list \<Rightarrow> string list \<Rightarrow> nat" where
  "first_of_cycle order cycle =
     fold (\<lambda>i first. if order_index order (cycle ! i) < order_index order (cycle ! first) then i else first)
       [0..<length cycle] 0"

definition report_cycle :: "string list \<Rightarrow> string list \<Rightarrow> string \<Rightarrow> dfs \<Rightarrow> dfs" where
  "report_cycle order path1 nxt st =
     (let c = dropWhile (\<lambda>x. x \<noteq> nxt) path1;
          first = first_of_cycle order c;
          cycle = drop first c @ take first c
      in if join_with '' '' cycle \<in> set (map (join_with '' '') (df_cycles st)) then st
         else st\<lparr>df_cycles := df_cycles st @ [cycle]\<rparr>)"

text \<open>The loop of \<^verbatim>\<open>visit\<close> over the successors of the last node of the path.\<close>

function visit_all :: "string list \<Rightarrow> edges \<Rightarrow> string list \<Rightarrow> string list \<Rightarrow> dfs \<Rightarrow> dfs" where
  "visit_all order edges path1 [] st = st"
| "visit_all order edges path1 (nxt # rest) st =
     (case mark_of st nxt of
        Unseen \<Rightarrow>
          visit_all order edges path1 rest
            (set_mark Finished nxt
              (visit_all order edges (path1 @ [nxt]) (succs edges nxt) (set_mark Active nxt st)))
      | Active \<Rightarrow> visit_all order edges path1 rest (report_cycle order path1 nxt st)
      | Finished \<Rightarrow> visit_all order edges path1 rest st)"
  by pat_completeness auto

lemma mark_of_set [simp]: "mark_of (set_mark m x st) y = (if y = x then m else mark_of st y)"
  by (simp add: mark_of_def set_mark_def update_conv')

lemma mark_of_report [simp]: "mark_of (report_cycle order path1 nxt st) = mark_of st"
  by (simp add: report_cycle_def Let_def mark_of_def fun_eq_iff)

text \<open>What may still be visited: each visit of a node makes it smaller.\<close>

definition unseen :: "edges \<Rightarrow> string list \<Rightarrow> dfs \<Rightarrow> string set" where
  "unseen edges nexts st = {x \<in> set (concat (map snd edges)) \<union> set nexts. mark_of st x = Unseen}"

lemma unseen_finite [simp]: "finite (unseen edges nexts st)"
  by (simp add: unseen_def)

lemma succs_known: "set (succs edges x) \<subseteq> set (concat (map snd edges))"
proof (cases "map_of edges x")
  case (Some ys)
  then show ?thesis using map_of_SomeD [OF Some] by (force simp: succs_def)
qed (simp add: succs_def)

lemma visit_all_marks:
  "visit_all_dom (order, edges, path1, nexts, st) \<Longrightarrow>
   mark_of (visit_all order edges path1 nexts st) x = Unseen \<Longrightarrow> mark_of st x = Unseen"
proof (induction order edges path1 nexts st rule: visit_all.pinduct)
  case (2 order edges path1 nxt rest st)
  note e = visit_all.psimps(2) [OF 2(1)]
  show ?case
  proof (cases "mark_of st nxt")
    case Unseen
    then have "mark_of (set_mark Finished nxt (visit_all order edges (path1 @ [nxt]) (succs edges nxt) (set_mark Active nxt st))) x = Unseen"
      using 2(3) [OF Unseen] 2(6) by (simp add: e)
    then have "mark_of (set_mark Active nxt st) x = Unseen" using 2(2) [OF Unseen] by (simp split: if_splits)
    then show ?thesis by (simp split: if_splits)
  next
    case Active
    then show ?thesis using 2(4) [OF Active] 2(6) by (simp add: e)
  next
    case Finished
    then show ?thesis using 2(5) [OF Finished] 2(6) by (simp add: e)
  qed
qed (simp add: visit_all.psimps)

lemma unseen_less:
  assumes "mark_of st nxt = Unseen" "\<And>x. mark_of st' x = Unseen \<Longrightarrow> x \<noteq> nxt \<and> mark_of st x = Unseen"
    and "set nexts' \<subseteq> set (concat (map snd edges)) \<union> set (nxt # rest)"
  shows "card (unseen edges nexts' st') < card (unseen edges (nxt # rest) st)"
proof (rule psubset_card_mono)
  have "nxt \<in> unseen edges (nxt # rest) st" "nxt \<notin> unseen edges nexts' st'" using assms(1,2) by (auto simp: unseen_def)
  moreover have "unseen edges nexts' st' \<subseteq> unseen edges (nxt # rest) st" using assms(2,3) by (auto simp: unseen_def)
  ultimately show "unseen edges nexts' st' \<subset> unseen edges (nxt # rest) st" by blast
qed simp

lemma unseen_rest: "mark_of st' = mark_of st \<Longrightarrow> card (unseen edges rest st') \<le> card (unseen edges (nxt # rest) st)"
  by (rule card_mono) (auto simp: unseen_def)

termination visit_all
proof (relation "measures [\<lambda>(order, edges, path1, nexts, st). card (unseen edges nexts st), \<lambda>(order, edges, path1, nexts, st). length nexts]")
  fix order :: "string list" and edges path1 nxt rest st
  assume u: "mark_of st nxt = Unseen"
  have "card (unseen edges (succs edges nxt) (set_mark Active nxt st)) < card (unseen edges (nxt # rest) st)"
    using succs_known [of edges nxt] by (intro unseen_less [OF u]) (auto split: if_splits)
  then show "((order, edges, path1 @ [nxt], succs edges nxt, set_mark Active nxt st), (order, edges, path1, nxt # rest, st))
      \<in> measures [\<lambda>(order, edges, path1, nexts, st). card (unseen edges nexts st), \<lambda>(order, edges, path1, nexts, st). length nexts]"
    by simp
next
  fix order :: "string list" and edges path1 nxt rest st
  assume u: "mark_of st nxt = Unseen"
    and d: "visit_all_dom (order, edges, path1 @ [nxt], succs edges nxt, set_mark Active nxt st)"
  have "card (unseen edges rest (set_mark Finished nxt (visit_all order edges (path1 @ [nxt]) (succs edges nxt) (set_mark Active nxt st))))
      < card (unseen edges (nxt # rest) st)"
  proof (rule unseen_less [OF u])
    fix x assume "mark_of (set_mark Finished nxt (visit_all order edges (path1 @ [nxt]) (succs edges nxt) (set_mark Active nxt st))) x = Unseen"
    then show "x \<noteq> nxt \<and> mark_of st x = Unseen" using visit_all_marks [OF d, of x] by (simp split: if_splits)
  qed auto
  then show "((order, edges, path1, rest, set_mark Finished nxt (visit_all order edges (path1 @ [nxt]) (succs edges nxt) (set_mark Active nxt st))),
      (order, edges, path1, nxt # rest, st))
      \<in> measures [\<lambda>(order, edges, path1, nexts, st). card (unseen edges nexts st), \<lambda>(order, edges, path1, nexts, st). length nexts]"
    by simp
next
  fix order :: "string list" and edges path1 nxt rest st
  show "((order, edges, path1, rest, report_cycle order path1 nxt st), (order, edges, path1, nxt # rest, st))
      \<in> measures [\<lambda>(order, edges, path1, nexts, st). card (unseen edges nexts st), \<lambda>(order, edges, path1, nexts, st). length nexts]"
    using unseen_rest [of "report_cycle order path1 nxt st" st edges rest nxt] by auto
next
  fix order :: "string list" and edges path1 nxt rest st
  show "((order, edges, path1, rest, st), (order, edges, path1, nxt # rest, st))
      \<in> measures [\<lambda>(order, edges, path1, nexts, st). card (unseen edges nexts st), \<lambda>(order, edges, path1, nexts, st). length nexts]"
    using unseen_rest [of st st edges rest nxt] by auto
qed simp

definition visit_node :: "string list \<Rightarrow> edges \<Rightarrow> string \<Rightarrow> dfs \<Rightarrow> dfs" where
  "visit_node order edges i st =
     (if mark_of st i = Unseen
      then set_mark Finished i (visit_all order edges [i] (succs edges i) (set_mark Active i st)) else st)"

definition find_cycles :: "string list \<Rightarrow> edges \<Rightarrow> string list list" where
  "find_cycles order edges = df_cycles (fold (visit_node order edges) order \<lparr>df_marks = [], df_cycles = []\<rparr>)"

section \<open>Lemmas: the search is exact\<close>

definition is_cycle :: "edges \<Rightarrow> string list \<Rightarrow> bool" where
  "is_cycle edges c \<longleftrightarrow> c \<noteq> [] \<and> (\<forall>i < length c. edge edges (c ! i) (c ! (Suc i mod length c)))"

abbreviation graph :: "edges \<Rightarrow> (string \<times> string) set" where
  "graph edges \<equiv> {(x, y). edge edges x y}"

text \<open>While no cycle is reported, what is finished leads only to what is finished, and never back to itself.\<close>

definition finished_ok :: "edges \<Rightarrow> dfs \<Rightarrow> bool" where
  "finished_ok edges st \<longleftrightarrow>
     (\<forall>x. mark_of st x = Finished \<longrightarrow>
        (\<forall>y \<in> set (succs edges x). mark_of st y = Finished) \<and> (x, x) \<notin> (graph edges)\<^sup>+)"

lemma finished_reach:
  assumes "finished_ok edges st" "(x, y) \<in> (graph edges)\<^sup>*" "mark_of st x = Finished"
  shows "mark_of st y = Finished"
  using assms(2,3) by (induction rule: rtrancl_induct) (use assms(1) in \<open>auto simp: finished_ok_def\<close>)

lemma is_cycle_rotate:
  assumes "is_cycle edges c" "n < length c"
  shows "is_cycle edges (drop n c @ take n c)"
proof -
  let ?l = "length c"
  have r: "drop n c @ take n c = rotate n c" using assms(2) by (simp add: rotate_drop_take)
  have "edge edges (rotate n c ! i) (rotate n c ! (Suc i mod ?l))" if "i < ?l" for i
  proof -
    have l: "0 < ?l" using that by auto
    have "rotate n c ! i = c ! ((n + i) mod ?l)" using that by (simp add: nth_rotate)
    moreover have "rotate n c ! (Suc i mod ?l) = c ! (Suc ((n + i) mod ?l) mod ?l)"
      using l by (simp add: nth_rotate mod_simps)
    moreover have "(n + i) mod ?l < ?l" using l by simp
    ultimately show ?thesis using assms(1) unfolding is_cycle_def by metis
  qed
  then show ?thesis using assms unfolding r by (auto simp: is_cycle_def)
qed

lemma closed_path_is_cycle:
  assumes "successively (edge edges) (x # xs)" "edge edges (last (x # xs)) x"
  shows "is_cycle edges (x # xs)"
  unfolding is_cycle_def
proof (intro conjI allI impI)
  fix i assume i: "i < length (x # xs)"
  let ?c = "x # xs"
  show "edge edges (?c ! i) (?c ! (Suc i mod length ?c))"
  proof (cases "Suc i < length ?c")
    case True
    then show ?thesis using assms(1) by (simp add: successively_conv_nth)
  next
    case False
    then have "i = length ?c - 1" using i by simp
    then have "?c ! i = last ?c" "Suc i mod length ?c = 0" by (simp_all add: last_conv_nth)
    then show ?thesis using assms(2) by simp
  qed
qed simp

lemma first_of_cycle_least:
  assumes "c \<noteq> []"
  shows "first_of_cycle order c < length c \<and>
    (\<forall>x \<in> set c. order_index order (c ! first_of_cycle order c) \<le> order_index order x)"
proof -
  let ?f = "\<lambda>i first. if order_index order (c ! i) < order_index order (c ! first) then i else first"
  have "fold ?f [0..<n] 0 < length c \<and> (\<forall>i < n. order_index order (c ! fold ?f [0..<n] 0) \<le> order_index order (c ! i))"
    if "n \<le> length c" for n
    using that
  proof (induction n)
    case (Suc n)
    let ?p = "fold ?f [0..<n] 0"
    have p: "?p < length c" "\<forall>i < n. order_index order (c ! ?p) \<le> order_index order (c ! i)" using Suc by auto
    have "fold ?f [0..<Suc n] 0 = ?f n ?p" by simp
    then show ?case using p Suc(2) by (fastforce simp: less_Suc_eq)
  qed (use assms in simp)
  from this [of "length c"] have "first_of_cycle order c < length c"
    "\<forall>i < length c. order_index order (c ! first_of_cycle order c) \<le> order_index order (c ! i)"
    unfolding first_of_cycle_def by auto
  then show ?thesis by (auto simp: in_set_conv_nth)
qed

text \<open>What holds of a reported cycle.\<close>

definition cycle_ok :: "string list \<Rightarrow> edges \<Rightarrow> string list \<Rightarrow> bool" where
  "cycle_ok order edges c \<longleftrightarrow> is_cycle edges c \<and> (\<forall>x \<in> set c. order_index order (hd c) \<le> order_index order x)"

lemma report_cycle_cycles:
  assumes "nxt \<in> set path1" "successively (edge edges) path1" "edge edges (last path1) nxt"
    and "\<forall>c \<in> set (df_cycles st). cycle_ok order edges c"
  shows "df_cycles (report_cycle order path1 nxt st) \<noteq> []"
    and "\<forall>c \<in> set (df_cycles (report_cycle order path1 nxt st)). cycle_ok order edges c"
proof -
  obtain xs ys where p: "path1 = xs @ nxt # ys" "nxt \<notin> set xs" using split_list_first [OF assms(1)] by blast
  then have d: "dropWhile (\<lambda>x. x \<noteq> nxt) path1 = nxt # ys" by (induction xs arbitrary: path1) auto
  have "is_cycle edges (nxt # ys)"
    using assms(2,3) unfolding p(1) by (intro closed_path_is_cycle) (auto simp: successively_append_iff)
  note ok = first_of_cycle_least [of "nxt # ys" order] is_cycle_rotate [OF this, of "first_of_cycle order (nxt # ys)"]
  let ?n = "first_of_cycle order (nxt # ys)"
  let ?c = "drop ?n (nxt # ys) @ take ?n (nxt # ys)"
  have n: "?n < length (nxt # ys)" using ok(1) by simp
  then have "hd ?c = (nxt # ys) ! ?n" by (metis drop_eq_Nil hd_append2 hd_drop_conv_nth linorder_not_less)
  moreover have "set ?c = set (nxt # ys)" by (metis Un_commute append_take_drop_id set_append)
  ultimately have c: "cycle_ok order edges ?c" using ok n by (simp add: cycle_ok_def)
  show "df_cycles (report_cycle order path1 nxt st) \<noteq> []"
    unfolding report_cycle_def Let_def d by auto
  show "\<forall>c \<in> set (df_cycles (report_cycle order path1 nxt st)). cycle_ok order edges c"
    using assms(4) c unfolding report_cycle_def Let_def d by auto
qed

lemma finished_ok_enter:
  "finished_ok edges st \<Longrightarrow> mark_of st x = Unseen \<Longrightarrow> finished_ok edges (set_mark Active x st)"
  by (fastforce simp: finished_ok_def split: if_splits)

lemma finished_ok_leave:
  assumes "finished_ok edges st" "mark_of st x = Active" "\<forall>y \<in> set (succs edges x). mark_of st y = Finished"
  shows "finished_ok edges (set_mark Finished x st)"
proof -
  have "(x, x) \<notin> (graph edges)\<^sup>+"
  proof
    assume "(x, x) \<in> (graph edges)\<^sup>+"
    then obtain y where y: "(x, y) \<in> graph edges" "(y, x) \<in> (graph edges)\<^sup>*" by (metis tranclD)
    then have "mark_of st x = Finished" using finished_reach [OF assms(1) y(2)] assms(3) by auto
    then show False using assms(2) by simp
  qed
  then show ?thesis using assms by (auto simp: finished_ok_def)
qed

lemma visit_all_ok:
  assumes "path1 \<noteq> []" "{x. mark_of st x = Active} = set path1" "successively (edge edges) path1"
    and "\<forall>y \<in> set nexts. edge edges (last path1) y" "\<forall>c \<in> set (df_cycles st). cycle_ok order edges c"
  shows "{x. mark_of (visit_all order edges path1 nexts st) x = Active} = set path1 \<and>
    (\<forall>c \<in> set (df_cycles (visit_all order edges path1 nexts st)). cycle_ok order edges c) \<and>
    (\<forall>x. mark_of st x = Finished \<longrightarrow> mark_of (visit_all order edges path1 nexts st) x = Finished) \<and>
    (df_cycles (visit_all order edges path1 nexts st) = [] \<longrightarrow>
       df_cycles st = [] \<and> (finished_ok edges st \<longrightarrow> finished_ok edges (visit_all order edges path1 nexts st)) \<and>
       (\<forall>y \<in> set nexts. mark_of (visit_all order edges path1 nexts st) y = Finished))"
  using assms
proof (induction order edges path1 nexts st rule: visit_all.induct)
  case (1 order edges path1 st)
  then show ?case by simp
next
  case (2 order edges path1 nxt rest st)
  show ?case
  proof (cases "mark_of st nxt")
    case Unseen
    let ?s1 = "set_mark Active nxt st"
    let ?s2 = "visit_all order edges (path1 @ [nxt]) (succs edges nxt) ?s1"
    let ?s3 = "set_mark Finished nxt ?s2"
    have a1: "{x. mark_of ?s1 x = Active} = set (path1 @ [nxt])" using 2(6) by auto
    have p1: "successively (edge edges) (path1 @ [nxt])" using 2(5,7,8) by (simp add: successively_append_iff)
    have c1: "\<forall>c \<in> set (df_cycles ?s1). cycle_ok order edges c" using 2(9) by (simp add: set_mark_def)
    have r2: "{x. mark_of ?s2 x = Active} = set (path1 @ [nxt])"
      "\<forall>c \<in> set (df_cycles ?s2). cycle_ok order edges c"
      "\<forall>x. mark_of ?s1 x = Finished \<longrightarrow> mark_of ?s2 x = Finished"
      "df_cycles ?s2 = [] \<longrightarrow> df_cycles ?s1 = [] \<and> (finished_ok edges ?s1 \<longrightarrow> finished_ok edges ?s2) \<and>
         (\<forall>y \<in> set (succs edges nxt). mark_of ?s2 y = Finished)"
      using 2(1) [OF Unseen _ a1 p1 _ c1] by auto
    have "nxt \<notin> {x. mark_of st x = Active}" using Unseen by simp
    then have "nxt \<notin> set path1" using 2(6) by simp
    then have a3: "{x. mark_of ?s3 x = Active} = set path1" using r2(1) by auto
    have c3: "\<forall>c \<in> set (df_cycles ?s3). cycle_ok order edges c" using r2(2) by (simp add: set_mark_def)
    let ?s4 = "visit_all order edges path1 rest ?s3"
    have r4: "{x. mark_of ?s4 x = Active} = set path1"
      "\<forall>c \<in> set (df_cycles ?s4). cycle_ok order edges c"
      "\<forall>x. mark_of ?s3 x = Finished \<longrightarrow> mark_of ?s4 x = Finished"
      "df_cycles ?s4 = [] \<longrightarrow> df_cycles ?s3 = [] \<and> (finished_ok edges ?s3 \<longrightarrow> finished_ok edges ?s4) \<and>
         (\<forall>y \<in> set rest. mark_of ?s4 y = Finished)"
      using 2(2) [OF Unseen 2(5) a3 2(7) _ c3] 2(8) by auto
    have e: "visit_all order edges path1 (nxt # rest) st = ?s4" by (simp add: Unseen)
    have kept: "mark_of ?s4 x = Finished" if "mark_of st x = Finished" for x
    proof -
      have "mark_of ?s1 x = Finished" using that Unseen by auto
      then have "mark_of ?s3 x = Finished" using spec [OF r2(3), of x] by simp
      then show ?thesis using r4(3) by blast
    qed
    have fin: "df_cycles st = [] \<and> (finished_ok edges st \<longrightarrow> finished_ok edges ?s4) \<and>
        (\<forall>y \<in> set (nxt # rest). mark_of ?s4 y = Finished)" if "df_cycles ?s4 = []"
    proof -
      have z: "df_cycles ?s3 = []" "finished_ok edges ?s3 \<longrightarrow> finished_ok edges ?s4" "\<forall>y \<in> set rest. mark_of ?s4 y = Finished"
        using r4(4) that by auto
      then have "df_cycles ?s2 = []" by (simp add: set_mark_def)
      then have y: "df_cycles ?s1 = []" "finished_ok edges ?s1 \<longrightarrow> finished_ok edges ?s2"
        "\<forall>y \<in> set (succs edges nxt). mark_of ?s2 y = Finished" using r2(4) by auto
      have "mark_of ?s2 nxt = Active" using r2(1) by auto
      then have "finished_ok edges st \<Longrightarrow> finished_ok edges ?s3"
        using finished_ok_enter [OF _ Unseen] y(2,3) finished_ok_leave by blast
      moreover have "mark_of ?s4 nxt = Finished" using r4(3) by simp
      ultimately show ?thesis using y(1) z(2,3) by (simp add: set_mark_def)
    qed
    show ?thesis unfolding e using r4(1,2) kept fin by blast
  next
    case Active
    let ?s1 = "report_cycle order path1 nxt st"
    have nxt: "nxt \<in> set path1" using Active 2(6) by auto
    have last: "edge edges (last path1) nxt" using 2(8) by simp
    note r = report_cycle_cycles [OF nxt 2(7) last 2(9)]
    have "visit_all order edges path1 (nxt # rest) st = visit_all order edges path1 rest ?s1" by (simp add: Active)
    then show ?thesis using 2(3) [OF Active 2(5) _ 2(7) _ r(2)] r(1) 2(6,8) by auto
  next
    case Finished
    have "visit_all order edges path1 (nxt # rest) st = visit_all order edges path1 rest st" by (simp add: Finished)
    then show ?thesis using 2(4) [OF Finished 2(5,6,7) _ 2(9)] 2(8) Finished by auto
  qed
qed

lemma visit_all_distinct: "distinct (df_cycles st) \<Longrightarrow> distinct (df_cycles (visit_all order edges path1 nexts st))"
proof (induction order edges path1 nexts st rule: visit_all.induct)
  case (2 order edges path1 nxt rest st)
  show ?case
  proof (cases "mark_of st nxt")
    case Unseen
    then show ?thesis using 2(1,2) 2(5) by (simp add: set_mark_def)
  next
    case Active
    have "distinct (df_cycles (report_cycle order path1 nxt st))"
      using 2(5) unfolding report_cycle_def Let_def by auto
    then show ?thesis using 2(3) Active by simp
  next
    case Finished
    then show ?thesis using 2(4,5) by simp
  qed
qed simp

lemma visit_node_ok:
  assumes "\<forall>x. mark_of st x \<noteq> Active" "\<forall>c \<in> set (df_cycles st). cycle_ok order edges c"
  shows "\<forall>x. mark_of (visit_node order edges i st) x \<noteq> Active"
    and "\<forall>c \<in> set (df_cycles (visit_node order edges i st)). cycle_ok order edges c"
    and "mark_of st x = Finished \<Longrightarrow> mark_of (visit_node order edges i st) x = Finished"
    and "df_cycles (visit_node order edges i st) = [] \<Longrightarrow> df_cycles st = [] \<and>
      (finished_ok edges st \<longrightarrow> finished_ok edges (visit_node order edges i st)) \<and> mark_of (visit_node order edges i st) i = Finished"
proof -
  let ?r = "visit_node order edges i st"
  have "(\<forall>x. mark_of ?r x \<noteq> Active) \<and> (\<forall>c \<in> set (df_cycles ?r). cycle_ok order edges c) \<and>
    (mark_of st x = Finished \<longrightarrow> mark_of ?r x = Finished) \<and>
    (df_cycles ?r = [] \<longrightarrow> df_cycles st = [] \<and> (finished_ok edges st \<longrightarrow> finished_ok edges ?r) \<and> mark_of ?r i = Finished)" for x
  proof (cases "mark_of st i")
    case Unseen
    let ?s1 = "set_mark Active i st"
    let ?s2 = "visit_all order edges [i] (succs edges i) ?s1"
    have a: "{x. mark_of ?s1 x = Active} = set [i]" using assms(1) by auto
    have c: "\<forall>c \<in> set (df_cycles ?s1). cycle_ok order edges c" using assms(2) by (simp add: set_mark_def)
    have r: "{x. mark_of ?s2 x = Active} = set [i]" "\<forall>c \<in> set (df_cycles ?s2). cycle_ok order edges c"
      "\<forall>x. mark_of ?s1 x = Finished \<longrightarrow> mark_of ?s2 x = Finished"
      "df_cycles ?s2 = [] \<longrightarrow> df_cycles ?s1 = [] \<and> (finished_ok edges ?s1 \<longrightarrow> finished_ok edges ?s2) \<and>
         (\<forall>y \<in> set (succs edges i). mark_of ?s2 y = Finished)"
      using visit_all_ok [of "[i]" ?s1 edges "succs edges i" order, OF _ a _ _ c] by auto
    have e: "?r = set_mark Finished i ?s2" by (simp add: visit_node_def Unseen)
    have act: "mark_of ?s2 i = Active" "x \<noteq> i \<Longrightarrow> mark_of ?s2 x \<noteq> Active" for x using r(1) by auto
    have fin: "finished_ok edges ?r" if "df_cycles ?s2 = []" "finished_ok edges st"
      using finished_ok_leave [OF _ act(1)] finished_ok_enter [OF that(2) Unseen] r(4) that(1) unfolding e by blast
    have "mark_of ?s2 x = Finished" if "mark_of st x = Finished" for x
      using that Unseen spec [OF r(3), of x] by (simp split: if_splits)
    then show ?thesis using act r(2,4) fin unfolding e by (auto simp: set_mark_def [of Finished] set_mark_def [of Active] mark_of_def update_conv')
  next
    case Active
    then show ?thesis using assms(1) by simp
  next
    case Finished
    then show ?thesis using assms by (simp add: visit_node_def)
  qed
  then show "\<forall>x. mark_of ?r x \<noteq> Active" "\<forall>c \<in> set (df_cycles ?r). cycle_ok order edges c"
    "mark_of st x = Finished \<Longrightarrow> mark_of ?r x = Finished"
    "df_cycles ?r = [] \<Longrightarrow> df_cycles st = [] \<and> (finished_ok edges st \<longrightarrow> finished_ok edges ?r) \<and> mark_of ?r i = Finished"
    by auto
qed

lemma visit_nodes_ok:
  assumes "\<forall>x. mark_of st x \<noteq> Active" "\<forall>c \<in> set (df_cycles st). cycle_ok order edges c"
  shows "(\<forall>c \<in> set (df_cycles (fold (visit_node order edges) is st)). cycle_ok order edges c) \<and>
    (\<forall>x. mark_of st x = Finished \<longrightarrow> mark_of (fold (visit_node order edges) is st) x = Finished) \<and>
    (df_cycles (fold (visit_node order edges) is st) = [] \<longrightarrow> df_cycles st = [] \<and>
       (finished_ok edges st \<longrightarrow> finished_ok edges (fold (visit_node order edges) is st)) \<and>
       (\<forall>i \<in> set is. mark_of (fold (visit_node order edges) is st) i = Finished))"
  using assms
proof (induction "is" arbitrary: st)
  case (Cons i "is")
  let ?s = "visit_node order edges i st"
  note v = visit_node_ok [OF Cons(2,3)]
  note r = Cons(1) [OF v(1,2)]
  have e: "fold (visit_node order edges) (i # is) st = fold (visit_node order edges) is ?s" by simp
  show ?case unfolding e using r v(3,4) by (metis set_ConsD)
qed simp

lemma visit_nodes_distinct: "distinct (df_cycles st) \<Longrightarrow> distinct (df_cycles (fold (visit_node order edges) is st))"
proof (induction "is" arbitrary: st)
  case (Cons i "is")
  have "distinct (df_cycles (visit_node order edges i st))"
    using Cons(2) visit_all_distinct [of "set_mark Active i st"] by (simp add: visit_node_def set_mark_def)
  then show ?case using Cons(1) by simp
qed simp

lemma is_cycle_trancl:
  assumes "is_cycle edges c"
  shows "(hd c, hd c) \<in> (graph edges)\<^sup>+"
proof -
  let ?l = "length c"
  have c: "c \<noteq> []" "i < ?l \<Longrightarrow> edge edges (c ! i) (c ! (Suc i mod ?l))" for i using assms by (auto simp: is_cycle_def)
  have "(c ! 0, c ! (Suc k mod ?l)) \<in> (graph edges)\<^sup>+" for k
  proof (induction k)
    case 0
    then show ?case using c(1) c(2) [of 0] by auto
  next
    case (Suc k)
    have "edge edges (c ! (Suc k mod ?l)) (c ! (Suc (Suc k mod ?l) mod ?l))" using c(1) by (intro c(2)) simp
    then have "(c ! (Suc k mod ?l), c ! (Suc (Suc k) mod ?l)) \<in> graph edges" by (simp add: mod_Suc_eq)
    then show ?case using Suc by (metis trancl.trancl_into_trancl)
  qed
  from this [of "?l - 1"] show ?thesis using c(1) by (simp add: hd_conv_nth)
qed

lemma find_cycles_facts:
  shows "\<forall>c \<in> set (find_cycles order edges). cycle_ok order edges c" "distinct (find_cycles order edges)"
    and "\<forall>x. succs edges x \<noteq> [] \<longrightarrow> x \<in> set order \<Longrightarrow> find_cycles order edges = [] \<longleftrightarrow> acyclic (graph edges)"
proof -
  let ?start = "\<lparr>df_marks = [], df_cycles = []\<rparr>"
  let ?s = "fold (visit_node order edges) order ?start"
  have "\<forall>x. mark_of ?start x \<noteq> Active" by (simp add: mark_of_def)
  from visit_nodes_ok [OF this, of order edges order]
  have r: "\<forall>c \<in> set (df_cycles ?s). cycle_ok order edges c"
    "df_cycles ?s = [] \<Longrightarrow> (finished_ok edges ?start \<longrightarrow> finished_ok edges ?s) \<and> (\<forall>i \<in> set order. mark_of ?s i = Finished)"
    by auto
  have start: "finished_ok edges ?start" by (simp add: finished_ok_def mark_of_def)
  show all: "\<forall>c \<in> set (find_cycles order edges). cycle_ok order edges c" using r(1) by (simp add: find_cycles_def)
  show "distinct (find_cycles order edges)" using visit_nodes_distinct [of ?start] by (simp add: find_cycles_def)
  assume keys: "\<forall>x. succs edges x \<noteq> [] \<longrightarrow> x \<in> set order"
  show "find_cycles order edges = [] \<longleftrightarrow> acyclic (graph edges)"
  proof
    assume "find_cycles order edges = []"
    then have f: "finished_ok edges ?s" "\<forall>i \<in> set order. mark_of ?s i = Finished" using r(2) start by (auto simp: find_cycles_def)
    show "acyclic (graph edges)"
    proof (rule acyclicI, rule allI, rule notI)
      fix x assume x: "(x, x) \<in> (graph edges)\<^sup>+"
      then obtain y where "edge edges x y" by (metis (no_types, lifting) case_prodD mem_Collect_eq tranclD)
      then have "succs edges x \<noteq> []" by (cases "succs edges x") auto
      then have "x \<in> set order" using keys by blast
      then show False using f x by (simp add: finished_ok_def)
    qed
  next
    assume a: "acyclic (graph edges)"
    show "find_cycles order edges = []"
    proof (rule ccontr)
      assume "find_cycles order edges \<noteq> []"
      then obtain c where "c \<in> set (find_cycles order edges)" by (meson hd_in_set)
      then have "(hd c, hd c) \<in> (graph edges)\<^sup>+" using all is_cycle_trancl by (auto simp: cycle_ok_def)
      then show False using a by (auto simp: acyclic_def)
    qed
  qed
qed

text \<open>
  The search for dependency cycles is exact: it reports nothing exactly when no source waits for itself
  through others, every report is a real cycle of the configured dependencies that starts with its source of
  the least index, and no cycle is reported twice.
\<close>

theorem find_cycles_exact:
  assumes "\<forall>x. succs edges x \<noteq> [] \<longrightarrow> x \<in> set order"
  shows "(find_cycles order edges = [] \<longleftrightarrow> acyclic (graph edges)) \<and>
    (\<forall>c \<in> set (find_cycles order edges). cycle_ok order edges c) \<and> distinct (find_cycles order edges)"
  using find_cycles_facts(1,2) find_cycles_facts(3) [OF assms] by blast

definition w_edges :: edges where
  "w_edges = [(''a'', [''b'']), (''b'', [''c'']), (''c'', [''b''])]"

lemma find_cycles_exact_witness:
  "find_cycles [''a'', ''c'', ''b''] w_edges = [[''c'', ''b'']] \<and> \<not> acyclic (graph w_edges)"
proof -
  have "\<forall>x. succs w_edges x \<noteq> [] \<longrightarrow> x \<in> set [''a'', ''c'', ''b'']" by (simp add: succs_def w_edges_def)
  from find_cycles_exact [OF this] have "find_cycles [''a'', ''c'', ''b''] w_edges = [] \<longleftrightarrow> acyclic (graph w_edges)" by simp
  moreover have "find_cycles [''a'', ''c'', ''b''] w_edges = [[''c'', ''b'']]" by code_simp
  ultimately show ?thesis by simp
qed

section \<open>Transitive dependencies\<close>

text \<open>\<^verbatim>\<open>walk\<close>: \<open>out\<close> is what was seen, the start first.\<close>

function walk :: "edges \<Rightarrow> string list \<Rightarrow> string list \<Rightarrow> string list" where
  "walk edges [] seen = seen"
| "walk edges (d # ds) seen =
     (if d \<in> set seen then walk edges ds seen else walk edges ds (walk edges (succs edges d) (seen @ [d])))"
  by pat_completeness auto

definition unwalked :: "edges \<Rightarrow> string list \<Rightarrow> string list \<Rightarrow> string set" where
  "unwalked edges ds seen = (set (concat (map snd edges)) \<union> set ds) - set seen"

lemma unwalked_finite [simp]: "finite (unwalked edges ds seen)"
  by (simp add: unwalked_def)

lemma walk_keeps: "walk_dom (edges, ds, seen) \<Longrightarrow> set seen \<subseteq> set (walk edges ds seen)"
proof (induction edges ds seen rule: walk.pinduct)
  case (2 edges d ds seen)
  show ?case
  proof (cases "d \<in> set seen")
    case True
    then show ?thesis using 2(2) by (simp add: walk.psimps(2) [OF 2(1)])
  next
    case False
    then show ?thesis using 2(3,4) by (auto simp: walk.psimps(2) [OF 2(1)])
  qed
qed (simp add: walk.psimps)

lemma unwalked_less:
  assumes "d \<notin> set seen" "set (seen @ [d]) \<subseteq> set seen'" "set ds' \<subseteq> set (concat (map snd edges)) \<union> set (d # ds)"
  shows "card (unwalked edges ds' seen') < card (unwalked edges (d # ds) seen)"
proof (rule psubset_card_mono)
  have "d \<in> unwalked edges (d # ds) seen" "d \<notin> unwalked edges ds' seen'" using assms(1,2) by (auto simp: unwalked_def)
  moreover have "unwalked edges ds' seen' \<subseteq> unwalked edges (d # ds) seen" using assms(2,3) by (auto simp: unwalked_def)
  ultimately show "unwalked edges ds' seen' \<subset> unwalked edges (d # ds) seen" by blast
qed simp

termination walk
proof (relation "measures [\<lambda>(edges, ds, seen). card (unwalked edges ds seen), \<lambda>(edges, ds, seen). length ds]")
  fix edges :: edges and d ds and seen :: "string list"
  have "card (unwalked edges ds seen) \<le> card (unwalked edges (d # ds) seen)"
    by (rule card_mono) (auto simp: unwalked_def)
  then show "((edges, ds, seen), (edges, d # ds, seen)) \<in> measures [\<lambda>(edges, ds, seen). card (unwalked edges ds seen), \<lambda>(edges, ds, seen). length ds]"
    by auto
next
  fix edges :: edges and d ds and seen :: "string list"
  assume d: "d \<notin> set seen"
  have "card (unwalked edges (succs edges d) (seen @ [d])) < card (unwalked edges (d # ds) seen)"
    using succs_known [of edges d] by (intro unwalked_less [OF d]) auto
  then show "((edges, succs edges d, seen @ [d]), (edges, d # ds, seen)) \<in> measures [\<lambda>(edges, ds, seen). card (unwalked edges ds seen), \<lambda>(edges, ds, seen). length ds]"
    by simp
next
  fix edges :: edges and d ds and seen :: "string list"
  assume d: "d \<notin> set seen" and "walk_dom (edges, succs edges d, seen @ [d])"
  then have "card (unwalked edges ds (walk edges (succs edges d) (seen @ [d]))) < card (unwalked edges (d # ds) seen)"
    by (intro unwalked_less [OF d] walk_keeps) auto
  then show "((edges, ds, walk edges (succs edges d) (seen @ [d])), (edges, d # ds, seen)) \<in>
      measures [\<lambda>(edges, ds, seen). card (unwalked edges ds seen), \<lambda>(edges, ds, seen). length ds]" by simp
qed simp

definition dependencies :: "string \<Rightarrow> edges \<Rightarrow> string list" where
  "dependencies i edges = tl (walk edges (succs edges i) [i])"

text \<open>What is walked leads only to what was seen.\<close>

lemma walk_closed:
  "set seen \<subseteq> set (walk edges ds seen) \<and> set ds \<subseteq> set (walk edges ds seen) \<and>
   (\<forall>x \<in> set (walk edges ds seen) - set seen. set (succs edges x) \<subseteq> set (walk edges ds seen)) \<and>
   (seen \<noteq> [] \<longrightarrow> hd (walk edges ds seen) = hd seen)"
proof (induction edges ds seen rule: walk.induct)
  case (2 edges d ds seen)
  show ?case
  proof (cases "d \<in> set seen")
    case True
    then show ?thesis using 2(1) by auto
  next
    case False
    let ?w = "walk edges (succs edges d) (seen @ [d])"
    let ?v = "walk edges ds ?w"
    note w = 2(2) [OF False]
    note v = 2(3) [OF False]
    have e: "walk edges (d # ds) seen = ?v" using False by simp
    have "set (succs edges x) \<subseteq> set ?v" if "x \<in> set ?v - set seen" for x
    proof (cases "x \<in> set ?w")
      case True
      then have "set (succs edges x) \<subseteq> set ?w" using w that by (cases "x = d") auto
      then show ?thesis using v by auto
    next
      case False
      then show ?thesis using v that by auto
    qed
    moreover have "hd ?v = hd seen" if "seen \<noteq> []" using v w that by (auto simp: hd_append)
    ultimately show ?thesis unfolding e using w v by auto
  qed
qed simp

lemma dependencies_closed: "(i, x) \<in> (graph edges)\<^sup>+ \<Longrightarrow> x \<noteq> i \<Longrightarrow> x \<in> set (dependencies i edges)"
proof -
  let ?w = "walk edges (succs edges i) [i]"
  note w = walk_closed [of "[i]" edges "succs edges i"]
  assume "(i, x) \<in> (graph edges)\<^sup>+" "x \<noteq> i"
  have "y \<in> set ?w" if "(i, y) \<in> (graph edges)\<^sup>*" for y
    using that
  proof induction
    case base
    then show ?case using w by simp
  next
    case (step y z)
    then have "set (succs edges y) \<subseteq> set ?w" using w by (cases "y = i") auto
    then show ?case using step(2) by auto
  qed
  then have "x \<in> set ?w" using \<open>(i, x) \<in> (graph edges)\<^sup>+\<close> by (simp add: trancl_into_rtrancl)
  moreover have "?w = i # tl ?w" using w by (cases ?w) auto
  ultimately show "x \<in> set (dependencies i edges)" using \<open>x \<noteq> i\<close> unfolding dependencies_def by (metis set_ConsD)
qed

section \<open>The dependencies of a subscription\<close>

definition source_by_id :: "subscription \<Rightarrow> string \<Rightarrow> source option" where
  "source_by_id sub i = List.find (\<lambda>s. s_id s = i) (sub_sources sub)"

definition balancer_owner :: "subscription \<Rightarrow> string \<Rightarrow> string" where
  "balancer_owner sub b = (case List.find (\<lambda>s. s_balancer s = b) (sub_sources sub) of None \<Rightarrow> '''' | Some s \<Rightarrow> s_id s)"

definition strategy_of :: "subscription \<Rightarrow> string \<Rightarrow> string" where
  "strategy_of sub tag =
     (case List.find (\<lambda>b. bc_tag b = tag \<and> bc_selection b \<noteq> None) (rev (t_balancers (sub_target sub))) of
        None \<Rightarrow> ''''
      | Some b \<Rightarrow> (case bc_selection b of None \<Rightarrow> '''' | Some bs \<Rightarrow> bs_strategy bs))"

definition selects_all :: "string \<Rightarrow> bool" where
  "selects_all st \<longleftrightarrow> st = ''random'' \<or> st = ''roundRobin''"

definition always_healthy :: "string \<Rightarrow> string \<Rightarrow> string \<Rightarrow> string \<Rightarrow> string" where
  "always_healthy path1 dkey b st =
     path1 @ ''.'' @ dkey @ ''health: balancer '' @ quoted b @ '' has strategy '' @ quoted st @
     '', which selects every candidate; the dependency is always healthy''"

text \<open>One \<^verbatim>\<open>dependsOn\<close> entry: issues, warnings, the edge, and what was seen.\<close>

definition check_dep ::
    "string \<Rightarrow> subscription \<Rightarrow> source \<Rightarrow> string \<Rightarrow> string list \<Rightarrow> dependency \<Rightarrow> issue list \<times> string list \<times> string list \<times> string list" where
  "check_dep path1 sub src dkey seen d =
     (if d_subscription d \<noteq> '''' then
        if d_balancer d \<noteq> '''' then
          (when_issue (dep_name d \<in> set seen) (dkey @ ''balancer'') (''duplicate dependency '' @ quoted (dep_name d)), [], [],
           dep_name d # seen)
        else ([], [], [], seen)
      else if d_balancer d \<noteq> '''' then
        if dep_name d \<in> set seen then
          ([issue (dkey @ ''balancer'') (''duplicate dependency '' @ quoted (dep_name d))], [], [], seen)
        else
          let owner = balancer_owner sub (d_balancer d); st = strategy_of sub (d_balancer d) in
          ((if owner = s_id src then [issue (dkey @ ''balancer'') ''a source cannot depend on its own balancer'']
            else when_issue (owner \<noteq> '''') (dkey @ ''balancer'')
              (''balancer '' @ quoted (d_balancer d) @ '' is the balancer of source '' @ quoted owner @ '': use dependsOn source'')),
           (if d_health d = ''balancer'' \<and> selects_all st then [always_healthy path1 dkey (d_balancer d) st] else []), [],
           dep_name d # seen)
      else if d_source d = '''' then ([], [], [], seen)
      else case source_by_id sub (d_source d) of
          None \<Rightarrow> ([issue (dkey @ ''source'') (''unknown source '' @ quoted (d_source d))], [], [], seen)
        | Some dep \<Rightarrow>
            if d_source d = s_id src then ([issue (dkey @ ''source'') ''a source cannot depend on itself''], [], [], seen)
            else if d_source d \<in> set seen then
              ([issue (dkey @ ''source'') (''duplicate dependency '' @ quoted (d_source d))], [], [], seen)
            else
              let st = strategy_of sub (s_balancer dep) in
              (when_issue (s_enabled src \<and> \<not> s_enabled dep) (dkey @ ''source'') (''source '' @ quoted (d_source d) @ '' is disabled'') @
               when_issue (d_health d = ''balancer'' \<and> s_balancer dep = '''') (dkey @ ''health'')
                 (''source '' @ quoted (d_source d) @ '' has no balancer''),
               (if d_health d = ''balancer'' \<and> s_balancer dep \<noteq> '''' \<and> selects_all st
                then [always_healthy path1 dkey (s_balancer dep) st] else []),
               [d_source d], d_source d # seen))"

definition dep_key :: "string \<Rightarrow> nat \<Rightarrow> string" where
  "dep_key key k = key @ ''dependsOn.'' @ nat_text k @ ''.''"

fun check_deps ::
    "string \<Rightarrow> subscription \<Rightarrow> source \<Rightarrow> string \<Rightarrow> nat \<Rightarrow> string list \<Rightarrow> dependency list \<Rightarrow>
     issue list \<times> string list \<times> string list" where
  "check_deps path1 sub src key k seen [] = ([], [], [])"
| "check_deps path1 sub src key k seen (d # ds) =
     (let (is1, ws1, es1, seen1) = check_dep path1 sub src (dep_key key k) seen d;
          (is2, ws2, es2) = check_deps path1 sub src key (Suc k) seen1 ds
      in (is1 @ is2, ws1 @ ws2, es1 @ es2))"

definition masque_vision_warning :: string where
  "masque_vision_warning =
     ''a masque source behind dialerProxy with target.visionUdp443Override false: '' @
     ''an XTLS vision outbound on the way rejects UDP/443, so h3 lines do not connect''"

fun check_source_deps ::
    "string \<Rightarrow> subscription \<Rightarrow> nat \<Rightarrow> source list \<Rightarrow> edges \<Rightarrow> issue list \<times> string list \<times> edges" where
  "check_source_deps path1 sub j [] edges = ([], [], edges)"
| "check_source_deps path1 sub j (src # srcs) edges =
     (let key = source_key j; t = sub_target sub;
          proxied = (s_dialer_proxy src \<noteq> '''');
          is0 = when_issue (proxied \<and> s_dialer_proxy src \<notin> set (t_fixed_outbounds t)) (key @ ''dialerProxy'')
                  ''must be in target.fixedOutbounds'';
          ws0 = (if proxied \<and> s_enabled src \<and> s_type src = ''masque'' \<and> \<not> t_vision_udp443 t
                 then [path1 @ ''.'' @ key @ ''dialerProxy: '' @ masque_vision_warning] else []);
          (is1, ws1, es) = check_deps path1 sub src key 0 [] (s_depends src);
          (is2, ws2, edges2) = check_source_deps path1 sub (Suc j) srcs (fold (add_edge (s_id src)) es edges)
      in (is0 @ is1 @ is2, ws0 @ ws1 @ ws2, edges2))"

definition cycle_arrow :: string where
  "cycle_arrow = [CHR '' '', CHR 0xE2, CHR 0x86, CHR 0x92, CHR '' '']"

definition check_cycles :: "source list \<Rightarrow> edges \<Rightarrow> issue list \<times> string list" where
  "check_cycles sources edges =
     (let order = map s_id sources; cycles = find_cycles order edges
      in (map (\<lambda>c. issue (''sources.'' @ nat_text (order_index order (hd c)) @ ''.dependsOn'')
                 (''dependsOn cycle: '' @ join_with cycle_arrow (c @ [hd c]))) cycles,
          concat cycles))"

definition shared_balancers :: "subscription \<Rightarrow> string list \<Rightarrow> edges \<Rightarrow> nat \<Rightarrow> source \<Rightarrow> issue list" where
  "shared_balancers sub cyclic edges j src =
     (if s_balancer src = '''' \<or> s_id src \<in> set cyclic then []
      else map (\<lambda>i. issue (''sources.'' @ nat_text j @ ''.balancer'')
               (''balancer '' @ quoted (s_balancer src) @ '' is also the balancer of dependency '' @ quoted i))
             (filter (\<lambda>i. case source_by_id sub i of None \<Rightarrow> False | Some dep \<Rightarrow> s_balancer dep = s_balancer src)
               (dependencies (s_id src) edges)))"

definition check_dependencies :: "string \<Rightarrow> subscription \<Rightarrow> issue list \<times> string list" where
  "check_dependencies path1 sub =
     (let (is1, ws, edges) = check_source_deps path1 sub 0 (sub_sources sub) [];
          (is2, cyclic) = check_cycles (sub_sources sub) edges;
          is3 = concat (map (\<lambda>(j, src). shared_balancers sub cyclic edges j src)
                  (zip [0..<length (sub_sources sub)] (sub_sources sub)))
      in (is1 @ is2 @ is3, ws))"

section \<open>Lemmas: what the rules guarantee\<close>

lemma edge_add [simp]: "edge (add_edge x y edges) a b \<longleftrightarrow> edge edges a b \<or> a = x \<and> b = y"
proof -
  have "succs (add_edge x y edges) a = (if a = x then succs edges x @ [y] else succs edges a)"
    by (simp add: add_edge_def succs_def [of _ a] update_conv')
  then show ?thesis by (simp, blast)
qed

lemma edges_added: "edge (fold (add_edge x) ys edges) a b \<longleftrightarrow> edge edges a b \<or> a = x \<and> b \<in> set ys"
  by (induction ys arbitrary: edges) auto

text \<open>A dependency on a source, as \<^verbatim>\<open>parseDependency\<close> leaves it.\<close>

definition on_source :: "dependency \<Rightarrow> bool" where
  "on_source d \<longleftrightarrow> d_source d \<noteq> '''' \<and> d_subscription d = '''' \<and> d_balancer d = ''''"

definition dep_ok :: "subscription \<Rightarrow> source \<Rightarrow> dependency \<Rightarrow> bool" where
  "dep_ok sub src d \<longleftrightarrow> d_source d \<noteq> s_id src \<and>
     (\<exists>dep. source_by_id sub (d_source d) = Some dep \<and> (s_enabled src \<longrightarrow> s_enabled dep) \<and>
        (d_health d = ''balancer'' \<longrightarrow> s_balancer dep \<noteq> ''''))"

lemma check_dep_on_source:
  assumes "on_source d"
  shows "check_dep path1 sub src dkey seen d =
     (case source_by_id sub (d_source d) of
        None \<Rightarrow> ([issue (dkey @ ''source'') (''unknown source '' @ quoted (d_source d))], [], [], seen)
      | Some dep \<Rightarrow>
          if d_source d = s_id src then ([issue (dkey @ ''source'') ''a source cannot depend on itself''], [], [], seen)
          else if d_source d \<in> set seen then
            ([issue (dkey @ ''source'') (''duplicate dependency '' @ quoted (d_source d))], [], [], seen)
          else
            let st = strategy_of sub (s_balancer dep) in
            (when_issue (s_enabled src \<and> \<not> s_enabled dep) (dkey @ ''source'') (''source '' @ quoted (d_source d) @ '' is disabled'') @
             when_issue (d_health d = ''balancer'' \<and> s_balancer dep = '''') (dkey @ ''health'')
               (''source '' @ quoted (d_source d) @ '' has no balancer''),
             (if d_health d = ''balancer'' \<and> s_balancer dep \<noteq> '''' \<and> selects_all st
              then [always_healthy path1 dkey (s_balancer dep) st] else []),
             [d_source d], d_source d # seen))"
  using assms unfolding check_dep_def on_source_def by simp

lemma check_dep_edges: "check_dep path1 sub src dkey seen d = (is, ws, es, seen1) \<Longrightarrow> y \<in> set es \<Longrightarrow> y = d_source d"
proof (cases "on_source d")
  case True
  then show "check_dep path1 sub src dkey seen d = (is, ws, es, seen1) \<Longrightarrow> y \<in> set es \<Longrightarrow> y = d_source d"
    unfolding check_dep_on_source [OF True]
    by (cases "source_by_id sub (d_source d)"; cases "d_source d = s_id src"; cases "d_source d \<in> set seen") (auto simp: Let_def)
next
  case False
  have "fst (snd (snd (check_dep path1 sub src dkey seen d))) = []"
  proof (cases "d_subscription d = '''' \<and> d_balancer d = ''''")
    case True
    then have "d_source d = ''''" using False by (simp add: on_source_def)
    then show ?thesis using True by (simp add: check_dep_def)
  next
    case False
    then show ?thesis by (cases "d_subscription d = ''''") (simp_all add: check_dep_def Let_def)
  qed
  then show "check_dep path1 sub src dkey seen d = (is, ws, es, seen1) \<Longrightarrow> y \<in> set es \<Longrightarrow> y = d_source d" by simp
qed

lemma check_dep_clean:
  assumes "check_dep path1 sub src dkey seen d = ([], ws, es, seen1)" "on_source d"
  shows "d_source d \<in> set es \<and> dep_ok sub src d"
proof (cases "source_by_id sub (d_source d)")
  case None
  then show ?thesis using assms(1) unfolding check_dep_on_source [OF assms(2)] by simp
next
  case (Some dep)
  then show ?thesis using assms(1) unfolding check_dep_on_source [OF assms(2)] Some option.case Let_def
    by (auto simp: dep_ok_def Some split: if_split_asm)
qed

lemma check_deps_facts:
  "check_deps path1 sub src key k seen ds = (is, ws, es) \<Longrightarrow>
   (is = [] \<longrightarrow> (\<forall>d \<in> set ds. on_source d \<longrightarrow> d_source d \<in> set es \<and> dep_ok sub src d)) \<and>
   set es \<subseteq> d_source ` set ds"
proof (induction ds arbitrary: k seen "is" ws es)
  case (Cons d ds)
  obtain is1 ws1 es1 seen1 where c: "check_dep path1 sub src (dep_key key k) seen d = (is1, ws1, es1, seen1)"
    by (metis prod_cases4)
  obtain is2 ws2 es2 where r: "check_deps path1 sub src key (Suc k) seen1 ds = (is2, ws2, es2)" by (metis prod_cases3)
  have e: "is = is1 @ is2" "es = es1 @ es2" using Cons(2) by (simp_all add: c r)
  have "set es1 \<subseteq> {d_source d}" using check_dep_edges [OF c] by auto
  moreover have "d_source d \<in> set es1 \<and> dep_ok sub src d" if "is1 = []" "on_source d"
    using check_dep_clean [of path1 sub src "dep_key key k" seen d] c that by simp
  ultimately show ?case using Cons(1) [OF r] unfolding e by auto
qed simp

text \<open>What the edges hold: every dependency on a source, and nothing else.\<close>

definition clean_deps :: "subscription \<Rightarrow> source list \<Rightarrow> edges \<Rightarrow> bool" where
  "clean_deps sub srcs edges \<longleftrightarrow>
     (\<forall>src \<in> set srcs. (\<forall>d \<in> set (s_depends src). on_source d \<longrightarrow> edge edges (s_id src) (d_source d) \<and> dep_ok sub src d) \<and>
        (s_dialer_proxy src \<noteq> '''' \<longrightarrow> s_dialer_proxy src \<in> set (t_fixed_outbounds (sub_target sub))))"

lemma check_source_deps_facts:
  "check_source_deps path1 sub j srcs edges = (is, ws, edges2) \<Longrightarrow>
   (\<forall>a b. edge edges a b \<longrightarrow> edge edges2 a b) \<and> (is = [] \<longrightarrow> clean_deps sub srcs edges2) \<and>
   (\<forall>a b. edge edges2 a b \<longrightarrow> edge edges a b \<or> a \<in> s_id ` set srcs)"
proof (induction srcs arbitrary: j edges "is" ws edges2)
  case (Cons s srcs)
  obtain is1 ws1 es where c: "check_deps path1 sub s (source_key j) 0 [] (s_depends s) = (is1, ws1, es)" by (metis prod_cases3)
  obtain is2 ws2 edges3 where r: "check_source_deps path1 sub (Suc j) srcs (fold (add_edge (s_id s)) es edges) = (is2, ws2, edges3)"
    by (metis prod_cases3)
  note f = check_deps_facts [OF c] and g = Cons(1) [OF r]
  have e: "edges2 = edges3" "is = [] \<Longrightarrow> is1 = [] \<and> is2 = [] \<and>
      (s_dialer_proxy s \<noteq> '''' \<longrightarrow> s_dialer_proxy s \<in> set (t_fixed_outbounds (sub_target sub)))"
    using Cons(2) by (auto simp: c r Let_def)
  have "clean_deps sub (s # srcs) edges3" if "is = []"
  proof -
    have "clean_deps sub srcs edges3" using g e(2) [OF that] by blast
    moreover have "edge edges3 (s_id s) (d_source d) \<and> dep_ok sub s d" if "d \<in> set (s_depends s)" "on_source d" for d
    proof -
      have "d_source d \<in> set es" "dep_ok sub s d" using f e(2) [OF \<open>is = []\<close>] that by auto
      then show ?thesis using g edges_added by blast
    qed
    ultimately show ?thesis using e(2) [OF that] by (simp add: clean_deps_def)
  qed
  moreover have "\<forall>a b. edge edges a b \<longrightarrow> edge edges3 a b" using g edges_added by blast
  moreover have "\<forall>a b. edge edges3 a b \<longrightarrow> edge edges a b \<or> a \<in> s_id ` set (s # srcs)" using g edges_added by auto
  ultimately show ?case unfolding e(1) by blast
qed (simp add: clean_deps_def)

text \<open>Which sources wait for which: the \<^verbatim>\<open>dependsOn\<close> entries that name a source.\<close>

definition waits_for :: "subscription \<Rightarrow> (string \<times> string) set" where
  "waits_for sub = {(s_id src, d_source d) |src d. src \<in> set (sub_sources sub) \<and> d \<in> set (s_depends src) \<and> on_source d}"

lemma check_dependencies_clean:
  assumes "fst (check_dependencies path1 sub) = []"
  obtains edges where "clean_deps sub (sub_sources sub) edges" "acyclic (graph edges)" "waits_for sub \<subseteq> graph edges"
    "\<And>src x. src \<in> set (sub_sources sub) \<Longrightarrow> s_balancer src \<noteq> '''' \<Longrightarrow> (s_id src, x) \<in> (graph edges)\<^sup>+ \<Longrightarrow>
       \<forall>dep. source_by_id sub x = Some dep \<longrightarrow> s_balancer dep \<noteq> s_balancer src"
proof -
  let ?srcs = "sub_sources sub"
  obtain is1 ws edges where c: "check_source_deps path1 sub 0 ?srcs [] = (is1, ws, edges)" by (metis prod_cases3)
  obtain is2 cyclic where k: "check_cycles ?srcs edges = (is2, cyclic)" by fastforce
  have clean: "is1 = []" "is2 = []" "concat (map (\<lambda>(j, src). shared_balancers sub cyclic edges j src) (zip [0..<length ?srcs] ?srcs)) = []"
    using assms by (simp_all add: check_dependencies_def c k)
  note f = check_source_deps_facts [OF c]
  have d: "clean_deps sub ?srcs edges" using f clean(1) by blast
  have "\<forall>x. succs edges x \<noteq> [] \<longrightarrow> x \<in> set (map s_id ?srcs)"
  proof (intro allI impI)
    fix x assume "succs edges x \<noteq> []"
    then have "edge edges x (hd (succs edges x))" by (rule hd_in_set)
    then show "x \<in> set (map s_id ?srcs)" using f by (auto simp: succs_def)
  qed
  moreover have cyc: "find_cycles (map s_id ?srcs) edges = []" using k clean(2) by (simp add: check_cycles_def Let_def)
  ultimately have a: "acyclic (graph edges)" using find_cycles_facts(3) by blast
  have w: "waits_for sub \<subseteq> graph edges" using d by (auto simp: waits_for_def clean_deps_def)
  have "cyclic = []" using k cyc by (simp add: check_cycles_def Let_def)
  have "\<forall>dep. source_by_id sub x = Some dep \<longrightarrow> s_balancer dep \<noteq> s_balancer src"
    if src: "src \<in> set ?srcs" "s_balancer src \<noteq> ''''" "(s_id src, x) \<in> (graph edges)\<^sup>+" for src x
  proof (intro allI impI)
    fix dep assume dep: "source_by_id sub x = Some dep"
    obtain j where j: "j < length ?srcs" "?srcs ! j = src" using src(1) by (auto simp: in_set_conv_nth)
    then have "(j, src) \<in> set (zip [0..<length ?srcs] ?srcs)"
      unfolding in_set_zip by (intro exI [of _ j]) simp
    then have "shared_balancers sub cyclic edges j src = []" using clean(3) by auto
    then have "filter (\<lambda>i. case source_by_id sub i of None \<Rightarrow> False | Some dep \<Rightarrow> s_balancer dep = s_balancer src)
        (dependencies (s_id src) edges) = []"
      using src(2) \<open>cyclic = []\<close> by (simp add: shared_balancers_def)
    moreover have "x \<noteq> s_id src" using a src(3) by (auto simp: acyclic_def)
    then have "x \<in> set (dependencies (s_id src) edges)" using dependencies_closed src(3) by blast
    ultimately show "s_balancer dep \<noteq> s_balancer src" using dep by (auto simp: filter_empty_conv)
  qed
  then show thesis using that d a w by blast
qed

text \<open>An acyclic finite graph can be ranked: by the number of nodes that can be reached.\<close>

definition reach_rank :: "edges \<Rightarrow> string \<Rightarrow> nat" where
  "reach_rank edges x = card {y. (x, y) \<in> (graph edges)\<^sup>+}"

lemma reach_rank_less:
  assumes "acyclic (graph edges)" "edge edges x y"
  shows "reach_rank edges y < reach_rank edges x"
  unfolding reach_rank_def
proof (rule psubset_card_mono)
  let ?U = "set (concat (map snd edges))"
  have "z \<in> ?U" if xz: "(x, z) \<in> (graph edges)\<^sup>+" for z
  proof -
    obtain w where "(w, z) \<in> graph edges" using tranclD2 [OF xz] by blast
    then show ?thesis using succs_known [of edges w] by blast
  qed
  then have "{z. (x, z) \<in> (graph edges)\<^sup>+} \<subseteq> ?U" by (intro subsetI) (simp only: mem_Collect_eq)
  then show "finite {z. (x, z) \<in> (graph edges)\<^sup>+}" by (rule finite_subset) (rule finite_set)
  have xy: "(x, y) \<in> graph edges" using assms(2) by simp
  have "y \<in> {z. (x, z) \<in> (graph edges)\<^sup>+}" using r_into_trancl [OF xy] by (simp only: mem_Collect_eq)
  moreover have "y \<notin> {z. (y, z) \<in> (graph edges)\<^sup>+}"
    using assms(1) unfolding acyclic_def by (simp only: mem_Collect_eq not_False_eq_True)
  moreover have "{z. (y, z) \<in> (graph edges)\<^sup>+} \<subseteq> {z. (x, z) \<in> (graph edges)\<^sup>+}"
    using xy by (auto intro: trancl_into_trancl2)
  ultimately show "{z. (y, z) \<in> (graph edges)\<^sup>+} \<subset> {z. (x, z) \<in> (graph edges)\<^sup>+}" by blast
qed

text \<open>What \<^verbatim>\<open>parseDependency\<close> requires of an entry, and reading the ids of the sources.\<close>

definition parsed_deps :: "subscription \<Rightarrow> bool" where
  "parsed_deps sub \<longleftrightarrow> (\<forall>src \<in> set (sub_sources sub). s_id src \<noteq> '''' \<and>
     (\<forall>d \<in> set (s_depends src). d_source d \<noteq> '''' \<longrightarrow> on_source d))"

lemma clean_acyclic:
  assumes "waits_for sub \<subseteq> graph edges" "acyclic (graph edges)" "parsed_deps sub"
    and "\<forall>l \<in> set loaded. ls_config l \<in> set (sub_sources sub)"
  shows "acyclic_by (reach_rank edges) loaded"
  unfolding acyclic_by_def
proof (intro ballI impI)
  fix l d assume l: "l \<in> set loaded" "d \<in> set (s_depends (ls_config l))" "d_source d \<in> lid ` set loaded"
  then have src: "ls_config l \<in> set (sub_sources sub)" using assms(4) by blast
  obtain l2 where "l2 \<in> set loaded" "d_source d = lid l2" using l(3) by blast
  then have "d_source d \<noteq> ''''" using assms(3,4) by (auto simp: parsed_deps_def)
  then have "on_source d" using assms(3) src l(2) by (simp add: parsed_deps_def)
  then have "(lid l, d_source d) \<in> waits_for sub" using src l(2) unfolding waits_for_def by blast
  then show "reach_rank edges (d_source d) < reach_rank edges (lid l)"
    using assms(1) reach_rank_less [OF assms(2)] by blast
qed

text \<open>
  The rules of the configuration are what the sync needs: when they report nothing, the loaded sources of
  the subscription, whichever of them are loaded and in whatever order, are synced each after those it
  depends on; every dependency names a source that is there and enabled when the dependent is; and two
  sources that wait for each other, even through others, never share a balancer.
\<close>

theorem valid_dependencies_suffice:
  assumes "fst (check_dependencies path1 sub) = []" "parsed_deps sub"
    and "distinct (map (\<lambda>l. s_id (ls_config l)) loaded)" "\<forall>l \<in> set loaded. ls_config l \<in> set (sub_sources sub)"
  shows "mset (dependency_order loaded) = mset loaded \<and> in_order loaded (dependency_order loaded) \<and>
    (\<forall>src \<in> set (sub_sources sub). \<forall>d \<in> set (s_depends src). on_source d \<longrightarrow> dep_ok sub src d) \<and>
    (\<forall>src \<in> set (sub_sources sub). \<forall>x dep. s_balancer src \<noteq> '''' \<and> (s_id src, x) \<in> (waits_for sub)\<^sup>+ \<and>
       source_by_id sub x = Some dep \<longrightarrow> s_balancer dep \<noteq> s_balancer src)"
proof -
  obtain edges where e: "clean_deps sub (sub_sources sub) edges" "acyclic (graph edges)" "waits_for sub \<subseteq> graph edges"
    "\<And>src x. src \<in> set (sub_sources sub) \<Longrightarrow> s_balancer src \<noteq> '''' \<Longrightarrow> (s_id src, x) \<in> (graph edges)\<^sup>+ \<Longrightarrow>
       \<forall>dep. source_by_id sub x = Some dep \<longrightarrow> s_balancer dep \<noteq> s_balancer src"
    using check_dependencies_clean [OF assms(1)] by blast
  have "acyclic_by (reach_rank edges) loaded" by (rule clean_acyclic [OF e(3,2) assms(2,4)])
  then have "mset (dependency_order loaded) = mset loaded \<and> in_order loaded (dependency_order loaded)"
    using dependency_order_mset dependency_order_in_order assms(3) by blast
  moreover have "\<forall>src \<in> set (sub_sources sub). \<forall>d \<in> set (s_depends src). on_source d \<longrightarrow> dep_ok sub src d"
    using e(1) by (simp add: clean_deps_def)
  moreover have "(s_id src, x) \<in> (graph edges)\<^sup>+" if "(s_id src, x) \<in> (waits_for sub)\<^sup>+" for src x
    using trancl_mono [OF that e(3)] .
  ultimately show ?thesis using e(4) by blast
qed

definition w_dep_sub :: subscription where
  "w_dep_sub = w_sub\<lparr>sub_sources := map ls_config [w_loaded ''a'' [''b''], w_loaded ''c'' [], w_loaded ''b'' [''c'']]\<rparr>"

lemma valid_dependencies_suffice_witness:
  "in_order [w_loaded ''a'' [''b''], w_loaded ''b'' [''c'']] (dependency_order [w_loaded ''a'' [''b''], w_loaded ''b'' [''c'']])"
proof -
  have "fst (check_dependencies ''p'' w_dep_sub) = []" by code_simp
  moreover have "parsed_deps w_dep_sub" by (simp add: parsed_deps_def w_dep_sub_def w_loaded_def on_source_def)
  ultimately show ?thesis
    using valid_dependencies_suffice [of "''p''" w_dep_sub "[w_loaded ''a'' [''b''], w_loaded ''b'' [''c'']]"]
    by (simp add: w_dep_sub_def w_loaded_def)
qed

end
