(* ===== verification/Spec2Isabelle.thy ===== *)
theory Spec2Isabelle
  imports Scd_Whole Scd_Push Scd_Cycles
begin

text \<open>
  \<^bold>\<open>A model of scd\<close>, the program of this repository that keeps the tunnels of a running Xray in step
  with subscriptions. The definitions are translated from \<^verbatim>\<open>internal/scd\<close> and the parts of
  \<^verbatim>\<open>internal/common\<close> it rests on; the theorems state what makes each part correct.

  \<^bold>\<open>How the program works.\<close> A source of a subscription is a list of share links or a file of
  candidates. Its lines become entries of a manifest (parse, normalize, filter), the entries become
  tunnels (a SOCKS inbound, an outbound and a routing rule each, on a port of the source's range), and an
  apply puts the tunnels into Xray over its gRPC API, replacing only what lies in the tag namespace of the
  source. The state remembers what was applied. A monitor probes each tunnel, moves a failed one to an
  outbound outside the balancer and back, and replaces the candidate of a slot that stays dead; while a
  dependency of the source is unhealthy it only repairs.

  \<^bold>\<open>The theories\<close>, each with the files under \<^verbatim>\<open>src/internal\<close> that it models:

  \<^item> \<open>Scd_Prelude\<close>: Go's comparators, stable sort, maps and number texts; generic lemmas; the locale
    \<open>comparator\<close>.
  \<^item> \<open>Scd_Xray_Api\<close>: \<^verbatim>\<open>scd/xrayapi\<close>, the client as a record of calls, gRPC statuses to errors; the locale
    \<open>xray_api\<close> states what a call does to Xray on success and on failure. \<open>Scd_Xray_Fake\<close>:
    \<^verbatim>\<open>scd/xrayapi/xrayfake\<close>, the Xray the tests run against; it interprets \<open>xray_api\<close>.
  \<^item> \<open>Scd_Config\<close>, \<open>Scd_Rules\<close>: \<^verbatim>\<open>scd/config/types.go\<close>, \<^verbatim>\<open>print.go\<close>, \<^verbatim>\<open>rules.go\<close>, the tag namespaces
    of \<^verbatim>\<open>scd/apply/namespace.go\<close>; a valid configuration keeps sources apart.
  \<^item> \<open>Scd_Country\<close>, \<open>Scd_Text\<close>, \<open>Scd_Link\<close>, \<open>Scd_Normalize\<close>, \<open>Scd_Outbound\<close>, \<open>Scd_Manifest\<close>:
    \<^verbatim>\<open>scd/country\<close>, \<^verbatim>\<open>common/vless\<close>, \<^verbatim>\<open>common/subscription/lines.go\<close>, \<^verbatim>\<open>scd/normalize\<close>,
    \<^verbatim>\<open>scd/outbound\<close>, \<^verbatim>\<open>scd/manifest\<close>; from a text to entries, with every line accounted for.
  \<^item> \<open>Scd_Selection\<close>: \<^verbatim>\<open>scd/selection\<close>, ranking, quarantine and the decisions of a sync.
  \<^item> \<open>Scd_Topology\<close>: \<^verbatim>\<open>scd/topology\<close>, ports and tags of tunnels.
  \<^item> \<open>Scd_Apply\<close>, \<open>Scd_Slots\<close>: \<^verbatim>\<open>scd/apply\<close>, the three algorithms of an apply with their rollback, the
    cap, single slots and orphans. \<open>Scd_Json\<close>, \<open>Scd_Plan\<close>: \<^verbatim>\<open>scd/apply/plan.go\<close>, plans and their hashes.
  \<^item> \<open>Scd_State\<close>: \<^verbatim>\<open>scd/state\<close>, the memory of targets, its operations, and their invariant \<open>state_ok\<close>.
  \<^item> \<open>Scd_Repair\<close>, \<open>Scd_Wait\<close>, \<open>Scd_Monitor\<close>: \<^verbatim>\<open>scd/monitor/repair.go\<close>, \<^verbatim>\<open>wait.go\<close>, \<^verbatim>\<open>tunnels.go\<close> and
    \<^verbatim>\<open>replace.go\<close>; the locales \<open>xray_dial\<close> (what the monitor relies on of its dialer) and
    \<open>limited_worker\<close> (what the worker pool relies on of a worker), both interpreted on the model.
  \<^item> \<open>Scd_Sync\<close>: \<^verbatim>\<open>scd/syncer\<close>, the plans of a VLESS source applied with drift detection
    (\<^verbatim>\<open>syncPlans\<close>) and the sync of a candidate source (\<^verbatim>\<open>wireguard.go\<close>): the full apply, the slots that
    leave or are switched, and the filling of empty slots.
  \<^item> \<open>Scd_Candidate\<close>, \<open>Scd_Format\<close>, \<open>Scd_Candfile\<close>: \<^verbatim>\<open>common/candidate\<close>, \<^verbatim>\<open>scd/manifest/candidates.go\<close> and
    \<^verbatim>\<open>masque.go\<close>. The lines of a candidate file are parsed, written and redacted; a parsed WireGuard
    candidate comes back from the line written for it exactly when its expiry is read back from its text, the file is
    accounted for line by line, and outside the outbounds its keys show only in the public hash of a tag
    and in the public key of the selection.
  \<^item> \<open>Scd_Run\<close>, \<open>Scd_Order\<close>, \<open>Scd_Runs\<close>, \<open>Scd_Whole\<close>: \<^verbatim>\<open>scd/syncer/syncer.go\<close>, \<^verbatim>\<open>check.go\<close>, \<^verbatim>\<open>report.go\<close>,
    \<^verbatim>\<open>scd/manifest/subscriptions.go\<close>, \<^verbatim>\<open>common/inputsrc/redact.go\<close>. A whole sync (\<open>run_sync\<close>): the inputs are
    loaded, orphans removed, the sources of each subscription put in the order of their dependencies, checked
    and synced. The order is correct, every source is reported once, a source is applied only when its checks
    pass, and the run always returns and leaves memory and settings fit for the next one (\<open>memory_ok\<close>,
    \<open>settings_ok\<close>).
  \<^item> \<open>Scd_Balancer\<close>, \<open>Scd_Push\<close>: \<^verbatim>\<open>scd/balancer\<close> and \<^verbatim>\<open>scd/monitor/balancer.go\<close>, \<^verbatim>\<open>remoteping.go\<close>, \<^verbatim>\<open>pingurl.go\<close>.
    What a poll of a balancer records and how its dependents see it, the URL of a push, and the pushes as a
    step relation beside the ticks: at most one is under way.
  \<^item> \<open>Scd_Cycles\<close>: the dependency rules of \<^verbatim>\<open>scd/config/rules.go\<close>. The search for cycles finds cycles only, and
    one in every graph that has any; a configuration these rules accept has an order of its sources.

  \<^bold>\<open>Conventions.\<close> A Go error is a value of \<open>err\<close>; a call of Xray is a function of the world \<open>'w\<close> that
  returns its result and the world after it; a nil pointer is \<open>None\<close>. Operations of the state are
  functions of the target's state. What runs under the lock of a target is one step; the workers of a
  tick interleave between steps in the order of a schedule, which is universally quantified. Times are
  integers in nanoseconds. A panic is the result \<open>None\<close>, and the theorems about ticks show that it does
  not happen.

  \<^bold>\<open>Bounds.\<close> No recursion needs fuel: lists are consumed, the retries of a probe count down, and the
  worker pool is run along a schedule, with a measure that shows that eight acts of each worker per tunnel
  are enough for all of them to stop. The order of the sources is built by a loop that takes one source a
  round, and the filling of slots ends within \<open>maxActive\<close> rounds, so their rounds are the fuel.

  \<^bold>\<open>Not modelled.\<close> Code outside the repository is an argument: xray-core's building of protobuf messages
  from outbounds and inbounds (\<open>to_proto\<close>, \<open>in_proto\<close>, with the law that they keep the tag), the
  canonical JSON of an outbound, the cron library, Unicode tables, SHA-256 and URL decoding
  (\<open>text_lib\<close>), the netip, URL and key libraries of the candidate files (\<open>cand_lib\<close>, with the laws of
  \<open>cand_law\<close>: what is written is parsed again), the reading of input files and URLs, and the URL and HTTP
  libraries of a push (\<open>push_env\<close>). Log lines, HTTP pages, sockets and process start are I/O. Locks, contexts and deadlines
  appear only as the steps and the cancellation flag of the model. The components of the repository that
  are not modelled yet are listed with their reasons in \<^verbatim>\<open>PROJECT.json\<close>.
\<close>

end
